(* ===== verification/Prelude.thy ===== *)
theory Prelude
  imports Main "HOL-Library.Word" "HOL-Library.Monad_Syntax"
begin

text \<open>
  What every component of the development shares: the machine integer types of the C code, the
  byte-array writes (\<open>memcpy\<close>, \<open>memset\<close>), cancellation of exclusive or, and the collections of
  rewrite rules that the component proofs pass to the simplifier.
\<close>

unbundle bit_operations_syntax

section \<open>Types and collections of facts\<close>

type_synonym u8 = "8 word"
type_synonym u16 = "16 word"
type_synonym u32 = "32 word"
type_synonym u64 = "64 word"
type_synonym bytes = "8 word list"

named_theorems inverse_simps \<open>a step undone by its inverse\<close>
named_theorems array_simps \<open>reads and lengths of byte arrays\<close>
named_theorems variant_simps \<open>one build variant rewritten to the reference variant\<close>

section \<open>Exclusive or\<close>

lemmas xor_ac = xor.assoc xor.commute xor.left_commute

lemma xor_cancel_left [simp, inverse_simps]: "a XOR (a XOR b) = (b :: 'a::len word)"
  by (simp flip: xor.assoc)

lemma xor_cancel_right [simp, inverse_simps]: "(b XOR a) XOR a = (b :: 'a::len word)"
  by (simp add: xor.assoc)

lemma xor_cancel_mid [simp, inverse_simps]: "a XOR (b XOR a) = (b :: 'a::len word)"
  by (simp add: xor.commute [of b a])

lemma xor_cancel_mid2 [simp, inverse_simps]: "(a XOR b) XOR a = (b :: 'a::len word)"
  by (simp add: xor.commute [of a b] xor.assoc)

lemma xor_eq_iff: "(a XOR b = c) = (a = c XOR (b :: 'a::len word))"
  by auto

lemma xor_right_inj [simp]: "(a XOR b = a XOR c) = (b = (c :: 'a::len word))"
  using xor_cancel_left by metis

lemma xor_left_inj [simp]: "(b XOR a = c XOR a) = (b = (c :: 'a::len word))"
  using xor_cancel_right by metis

section \<open>Byte arrays\<close>

text \<open>
  \<open>memcpy(dst + off, src, n)\<close> where \<open>src\<close> is the list of the \<open>n\<close> bytes copied: the bytes before
  \<open>off\<close> and after the copied range keep their old values. \<open>memset\<close> is a copy of \<open>n\<close> equal bytes.
\<close>

definition memcpy_at :: "'a list \<Rightarrow> nat \<Rightarrow> 'a list \<Rightarrow> 'a list" where
  "memcpy_at dst off src = take off dst @ src @ drop (off + length src) dst"

definition memset_at :: "'a list \<Rightarrow> nat \<Rightarrow> 'a \<Rightarrow> nat \<Rightarrow> 'a list" where
  "memset_at dst off v n = memcpy_at dst off (replicate n v)"

lemma length_memcpy_at [simp, array_simps]:
  "off + length src \<le> length dst \<Longrightarrow> length (memcpy_at dst off src) = length dst"
  by (simp add: memcpy_at_def)

lemma length_memset_at [simp, array_simps]:
  "off + n \<le> length dst \<Longrightarrow> length (memset_at dst off v n) = length dst"
  by (simp add: memset_at_def)

lemma memcpy_at_Nil [simp]: "memcpy_at dst off [] = dst"
  by (simp add: memcpy_at_def)

lemma memcpy_at_memcpy_at:
  "off \<le> length dst \<Longrightarrow>
   memcpy_at (memcpy_at dst off a) (off + length a) b = memcpy_at dst off (a @ b)"
  by (simp add: memcpy_at_def ac_simps)

lemma take_memcpy_at [array_simps]:
  "off \<le> length dst \<Longrightarrow> take (off + length src) (memcpy_at dst off src) = take off dst @ src"
  by (simp add: memcpy_at_def)

lemma take_memcpy_at_before [array_simps]:
  "off \<le> length dst \<Longrightarrow> k \<le> off \<Longrightarrow> take k (memcpy_at dst off src) = take k dst"
  by (simp add: memcpy_at_def min_absorb1)

lemma drop_memcpy_at [array_simps]:
  "off \<le> length dst \<Longrightarrow>
   drop (off + length src) (memcpy_at dst off src) = drop (off + length src) dst"
  by (simp add: memcpy_at_def)

lemma nth_memcpy_at [array_simps]:
  "off + length src \<le> length dst \<Longrightarrow> i < length dst \<Longrightarrow>
   memcpy_at dst off src ! i =
     (if i < off then dst ! i else if i < off + length src then src ! (i - off) else dst ! i)"
  by (auto simp: memcpy_at_def nth_append min_absorb2)

section \<open>Words\<close>

lemma nth_take_cong: "take n xs = take n ys \<Longrightarrow> i < n \<Longrightarrow> xs ! i = ys ! i"
  by (metis nth_take)

section \<open>Index lists of unrolled loops\<close>

lemma upt_numerals:
  "[0..<5::nat] = [0, 1, 2, 3, 4]"
  "[0..<8::nat] = [0, 1, 2, 3, 4, 5, 6, 7]"
  "[0..<11::nat] = [0, 1, 2, 3, 4, 5, 6, 7, 8, 9, 10]"
  "[0..<32::nat] = [0, 1, 2, 3, 4, 5, 6, 7, 8, 9, 10, 11, 12, 13, 14, 15,
     16, 17, 18, 19, 20, 21, 22, 23, 24, 25, 26, 27, 28, 29, 30, 31]"
  "[0..<9::nat] = [0, 1, 2, 3, 4, 5, 6, 7, 8]"
  "[0..<25::nat] = [0, 1, 2, 3, 4, 5, 6, 7, 8, 9, 10, 11, 12, 13, 14, 15, 16, 17, 18, 19, 20, 21,
     22, 23, 24]"
  "[0..<16::nat] = [0, 1, 2, 3, 4, 5, 6, 7, 8, 9, 10, 11, 12, 13, 14, 15]"
  by (simp_all add: upt_rec)

end
