(* ===== verification/SphTypes.thy ===== *)
theory SphTypes
  imports Prelude
begin

text \<open>
  The word helpers of \<open>src/src/crypto/x11/sph_types.h\<close> that the X11 hash functions use:
  truncation, rotation, and the byte encodings of 32- and 64-bit words. The header selects at
  compile time between byte-by-byte code and word accesses of the machine; both compute the
  portable byte-by-byte expression modelled here (on a little-endian machine the word access
  \<^emph>\<open>is\<close> the little-endian decoding). Decoders take the array and an offset (the C code's
  \<open>buf + off\<close>); encoders return the bytes the C code stores.
\<close>

section \<open>Truncation and rotation\<close>

definition SPH_T32 :: "u32 \<Rightarrow> u32" where
  "SPH_T32 x = x AND 0xFFFFFFFF"

definition SPH_T64 :: "u64 \<Rightarrow> u64" where
  "SPH_T64 x = x AND 0xFFFFFFFFFFFFFFFF"

definition SPH_ROTL32 :: "u32 \<Rightarrow> nat \<Rightarrow> u32" where
  "SPH_ROTL32 x n = SPH_T32 (push_bit n x OR drop_bit (32 - n) x)"

definition SPH_ROTR32 :: "u32 \<Rightarrow> nat \<Rightarrow> u32" where
  "SPH_ROTR32 x n = SPH_ROTL32 x (32 - n)"

definition SPH_ROTL64 :: "u64 \<Rightarrow> nat \<Rightarrow> u64" where
  "SPH_ROTL64 x n = SPH_T64 (push_bit n x OR drop_bit (64 - n) x)"

definition SPH_ROTR64 :: "u64 \<Rightarrow> nat \<Rightarrow> u64" where
  "SPH_ROTR64 x n = SPH_ROTL64 x (64 - n)"

lemma SPH_T32_id [simp]: "SPH_T32 x = x"
proof -
  have "(0xFFFFFFFF :: u32) = -1" by simp
  then show ?thesis by (simp only: SPH_T32_def and.right_neutral)
qed

lemma SPH_T64_id [simp]: "SPH_T64 x = x"
proof -
  have "(0xFFFFFFFFFFFFFFFF :: u64) = -1" by simp
  then show ?thesis by (simp only: SPH_T64_def and.right_neutral)
qed

text \<open>For the rotation counts of the code (1 to the width less one) the macros rotate.\<close>

lemma rotl_shifts:
  fixes x :: "'a::len word"
  assumes n: "n < LENGTH('a)"
  shows "push_bit n x OR drop_bit (LENGTH('a) - n) x = word_rotl n x"
proof (rule bit_word_eqI)
  fix i assume i: "i < LENGTH('a)"
  show "bit (push_bit n x OR drop_bit (LENGTH('a) - n) x) i = bit (word_rotl n x) i"
  proof (cases "i < n")
    case True
    have "(i + (LENGTH('a) - n mod LENGTH('a))) mod LENGTH('a) = LENGTH('a) - n + i"
      using n i True by simp
    then show ?thesis using i n True by (simp add: bit_simps)
  next
    case False
    have "i + (LENGTH('a) - n mod LENGTH('a)) = (i - n) + LENGTH('a)"
      using n i False by simp
    then have "(i + (LENGTH('a) - n mod LENGTH('a))) mod LENGTH('a) = i - n"
      using i by (simp only: mod_add_self2) simp
    moreover have "\<not> bit x (LENGTH('a) - n + i)"
      using n i False by (auto dest: bit_imp_le_length)
    ultimately show ?thesis using i n False by (simp add: bit_simps)
  qed
qed

lemma SPH_ROTL32_eq: "n < 32 \<Longrightarrow> SPH_ROTL32 x n = word_rotl n x"
  using rotl_shifts [of n x] by (simp add: SPH_ROTL32_def)

lemma SPH_ROTL64_eq: "n < 64 \<Longrightarrow> SPH_ROTL64 x n = word_rotl n x"
  using rotl_shifts [of n x] by (simp add: SPH_ROTL64_def)

lemma rotl_complement:
  fixes x :: "'a::len word"
  assumes "0 < n" "n < LENGTH('a)"
  shows "word_rotl (LENGTH('a) - n) x = word_rotr n x"
  using assms by (simp add: word_rotl_eq_word_rotr)

lemma SPH_ROTR32_eq: "0 < n \<Longrightarrow> n < 32 \<Longrightarrow> SPH_ROTR32 x n = word_rotr n x"
  using rotl_complement [of n x] by (simp add: SPH_ROTR32_def SPH_ROTL32_eq)

lemma SPH_ROTR64_eq: "0 < n \<Longrightarrow> n < 64 \<Longrightarrow> SPH_ROTR64 x n = word_rotr n x"
  using rotl_complement [of n x] by (simp add: SPH_ROTR64_def SPH_ROTL64_eq)

section \<open>Byte encodings\<close>

definition sph_dec32le :: "bytes \<Rightarrow> nat \<Rightarrow> u32" where
  "sph_dec32le src off =
     ucast (src ! off)
     OR push_bit 8 (ucast (src ! (off + 1)))
     OR push_bit 16 (ucast (src ! (off + 2)))
     OR push_bit 24 (ucast (src ! (off + 3)))"

definition sph_dec32be :: "bytes \<Rightarrow> nat \<Rightarrow> u32" where
  "sph_dec32be src off =
     push_bit 24 (ucast (src ! off))
     OR push_bit 16 (ucast (src ! (off + 1)))
     OR push_bit 8 (ucast (src ! (off + 2)))
     OR ucast (src ! (off + 3))"

definition sph_enc32le :: "u32 \<Rightarrow> bytes" where
  "sph_enc32le val =
     [ucast val, ucast (drop_bit 8 val), ucast (drop_bit 16 val), ucast (drop_bit 24 val)]"

definition sph_enc32be :: "u32 \<Rightarrow> bytes" where
  "sph_enc32be val =
     [ucast (drop_bit 24 val), ucast (drop_bit 16 val), ucast (drop_bit 8 val), ucast val]"

definition sph_dec64le :: "bytes \<Rightarrow> nat \<Rightarrow> u64" where
  "sph_dec64le src off =
     ucast (src ! off)
     OR push_bit 8 (ucast (src ! (off + 1)))
     OR push_bit 16 (ucast (src ! (off + 2)))
     OR push_bit 24 (ucast (src ! (off + 3)))
     OR push_bit 32 (ucast (src ! (off + 4)))
     OR push_bit 40 (ucast (src ! (off + 5)))
     OR push_bit 48 (ucast (src ! (off + 6)))
     OR push_bit 56 (ucast (src ! (off + 7)))"

definition sph_dec64be :: "bytes \<Rightarrow> nat \<Rightarrow> u64" where
  "sph_dec64be src off =
     push_bit 56 (ucast (src ! off))
     OR push_bit 48 (ucast (src ! (off + 1)))
     OR push_bit 40 (ucast (src ! (off + 2)))
     OR push_bit 32 (ucast (src ! (off + 3)))
     OR push_bit 24 (ucast (src ! (off + 4)))
     OR push_bit 16 (ucast (src ! (off + 5)))
     OR push_bit 8 (ucast (src ! (off + 6)))
     OR ucast (src ! (off + 7))"

definition sph_enc64le :: "u64 \<Rightarrow> bytes" where
  "sph_enc64le val =
     [ucast val, ucast (drop_bit 8 val), ucast (drop_bit 16 val), ucast (drop_bit 24 val),
      ucast (drop_bit 32 val), ucast (drop_bit 40 val), ucast (drop_bit 48 val),
      ucast (drop_bit 56 val)]"

definition sph_enc64be :: "u64 \<Rightarrow> bytes" where
  "sph_enc64be val =
     [ucast (drop_bit 56 val), ucast (drop_bit 48 val), ucast (drop_bit 40 val),
      ucast (drop_bit 32 val), ucast (drop_bit 24 val), ucast (drop_bit 16 val),
      ucast (drop_bit 8 val), ucast val]"

lemma length_enc [simp, array_simps]:
  "length (sph_enc32le v) = 4" "length (sph_enc32be v) = 4"
  "length (sph_enc64le w) = 8" "length (sph_enc64be w) = 8"
  by (simp_all add: sph_enc32le_def sph_enc32be_def sph_enc64le_def sph_enc64be_def)

text \<open>Decoding reads only the bytes of its word.\<close>

lemma dec_take [array_simps]:
  "off + 4 \<le> n \<Longrightarrow> sph_dec32le (take n src) off = sph_dec32le src off"
  "off + 4 \<le> n \<Longrightarrow> sph_dec32be (take n src) off = sph_dec32be src off"
  "off + 8 \<le> n \<Longrightarrow> sph_dec64le (take n src) off = sph_dec64le src off"
  "off + 8 \<le> n \<Longrightarrow> sph_dec64be (take n src) off = sph_dec64be src off"
  by (simp_all add: sph_dec32le_def sph_dec32be_def sph_dec64le_def sph_dec64be_def)


text \<open>Encoding and decoding undo each other; a byte is a window of eight bits of the word.\<close>

lemmas byte_codec_defs =
  sph_dec32le_def sph_enc32le_def sph_dec32be_def sph_enc32be_def
  sph_dec64le_def sph_enc64le_def sph_dec64be_def sph_enc64be_def

lemma nat_diff_less_iff: "0 < b \<Longrightarrow> (n - a < b) = (n < a + (b::nat))"
  by arith

lemma dec32le_enc32le [simp]: "sph_dec32le (sph_enc32le v @ rest) 0 = v"
  by (rule bit_word_eqI; rename_tac n; case_tac "n < 8"; case_tac "n < 16"; case_tac "n < 24";
      simp add: byte_codec_defs bit_simps nat_diff_less_iff)

lemma dec32be_enc32be [simp]: "sph_dec32be (sph_enc32be v @ rest) 0 = v"
  by (rule bit_word_eqI; rename_tac n; case_tac "n < 8"; case_tac "n < 16"; case_tac "n < 24";
      simp add: byte_codec_defs bit_simps nat_diff_less_iff)

lemma dec64le_enc64le [simp]: "sph_dec64le (sph_enc64le v @ rest) 0 = v"
  by (rule bit_word_eqI; rename_tac n; case_tac "n < 8"; case_tac "n < 16"; case_tac "n < 24";
      case_tac "n < 32"; case_tac "n < 40"; case_tac "n < 48"; case_tac "n < 56";
      simp add: byte_codec_defs bit_simps nat_diff_less_iff)

lemma dec64be_enc64be [simp]: "sph_dec64be (sph_enc64be v @ rest) 0 = v"
  by (rule bit_word_eqI; rename_tac n; case_tac "n < 8"; case_tac "n < 16"; case_tac "n < 24";
      case_tac "n < 32"; case_tac "n < 40"; case_tac "n < 48"; case_tac "n < 56";
      simp add: byte_codec_defs bit_simps nat_diff_less_iff)

section \<open>Arrays of encoded words\<close>

text \<open>
  The hash functions write arrays of words as consecutive encodings and read them back at
  multiples of the width. The interface is an encoder of a fixed width with a decoder that
  undoes it at offset 0 and does not depend on the bytes before its offset.
\<close>

locale word_codec =
  fixes enc :: "'w \<Rightarrow> bytes" and dec :: "bytes \<Rightarrow> nat \<Rightarrow> 'w" and width :: nat
  assumes enc_width: "length (enc w) = width"
    and dec_enc: "dec (enc w @ rest) 0 = w"
    and dec_skip: "dec (pre @ src) (length pre + off) = dec src off"
begin

lemma length_concat_enc: "length (concat (map enc ws)) = width * length ws"
  by (induction ws) (simp_all add: enc_width)

lemma dec_concat_enc:
  "i < length ws \<Longrightarrow> dec (concat (map enc ws) @ rest) (width * i) = ws ! i"
proof (induction ws arbitrary: i)
  case Nil
  then show ?case by simp
next
  case (Cons w ws)
  show ?case
  proof (cases i)
    case 0
    then show ?thesis using dec_enc by simp
  next
    case (Suc j)
    have "dec (enc w @ (concat (map enc ws) @ rest)) (length (enc w) + width * j) = ws ! j"
      unfolding dec_skip using Cons Suc by simp
    then show ?thesis using Suc by (simp add: enc_width)
  qed
qed

end

interpretation le32: word_codec sph_enc32le sph_dec32le 4
  by unfold_locales (simp_all, simp add: sph_dec32le_def nth_append)

interpretation be32: word_codec sph_enc32be sph_dec32be 4
  by unfold_locales (simp_all, simp add: sph_dec32be_def nth_append)

interpretation le64: word_codec sph_enc64le sph_dec64le 8
  by unfold_locales (simp_all, simp add: sph_dec64le_def nth_append)

interpretation be64: word_codec sph_enc64be sph_dec64be 8
  by unfold_locales (simp_all, simp add: sph_dec64be_def nth_append)

end
