(* ===== verification/SphStream.thy ===== *)
theory SphStream
  imports SphTypes
begin

text \<open>
  The input loop that \<open>blake64\<close>, \<open>keccak_core\<close>, \<open>jh_core\<close>, \<open>luffa5\<close>, \<open>cubehash_core\<close> and
  \<open>bmw64\<close> share line by line: bytes are copied into a buffer of \<open>B\<close> bytes at \<open>ptr\<close>, and each
  time the buffer is full a block function transforms the chaining state. The block function is a
  parameter here; each component instantiates it with its own compression. The loop of the C code
  does not return when it is entered with \<open>ptr\<close> at or beyond \<open>B\<close> (it then copies zero bytes for
  ever, or writes outside the buffer), so the model is a partial function: \<open>None\<close> is \<open>no result\<close>.
  The locale states what a component must provide and proves what it gets: the loop returns, it
  keeps the buffer invariant, it does not depend on how the input is cut into calls, and it
  computes the block-by-block specification \<open>absorb\<close>.
\<close>

section \<open>The loop and its early exit\<close>

partial_function (option) sph_loop ::
  "nat \<Rightarrow> ('s \<Rightarrow> bytes \<Rightarrow> 's) \<Rightarrow> 's \<Rightarrow> bytes \<Rightarrow> nat \<Rightarrow> bytes \<Rightarrow> ('s \<times> bytes \<times> nat) option"
where
  "sph_loop B f st buf ptr data =
     (if data = [] then Some (st, buf, ptr)
      else
        let clen = (if B - ptr > length data then length data else B - ptr);
            buf' = memcpy_at buf ptr (take clen data);
            ptr' = ptr + clen;
            data' = drop clen data
        in if ptr' = B then sph_loop B f (f st buf') buf' 0 data'
           else sph_loop B f st buf' ptr' data')"

declare sph_loop.simps [code]

text \<open>
  \<open>if (len < (sizeof sc->buf) - ptr) { memcpy; sc->ptr = ptr + len; return; }\<close> before the loop.
\<close>

definition sph_core ::
  "nat \<Rightarrow> ('s \<Rightarrow> bytes \<Rightarrow> 's) \<Rightarrow> 's \<Rightarrow> bytes \<Rightarrow> nat \<Rightarrow> bytes \<Rightarrow> ('s \<times> bytes \<times> nat) option"
where
  "sph_core B f st buf ptr data =
     (if length data < B - ptr then Some (st, memcpy_at buf ptr data, ptr + length data)
      else sph_loop B f st buf ptr data)"

section \<open>The block-by-block specification\<close>

function absorb :: "nat \<Rightarrow> ('s \<Rightarrow> bytes \<Rightarrow> 's) \<Rightarrow> 's \<Rightarrow> bytes \<Rightarrow> 's \<times> bytes" where
  "absorb B f st xs =
     (if B = 0 \<or> length xs < B then (st, xs)
      else absorb B f (f st (take B xs)) (drop B xs))"
  by pat_completeness auto
termination
  by (relation "measure (\<lambda>(B, f, st, xs). length xs)") auto

declare absorb.simps [simp del]

lemma absorb_short: "length xs < B \<Longrightarrow> absorb B f st xs = (st, xs)"
  by (simp add: absorb.simps)

lemma absorb_full:
  "0 < B \<Longrightarrow> length b = B \<Longrightarrow> absorb B f st (b @ xs) = absorb B f (f st b) xs"
  by (subst absorb.simps) simp

lemma length_absorb: "0 < B \<Longrightarrow> length (snd (absorb B f st xs)) < B"
proof (induction B f st xs rule: absorb.induct)
  case (1 B f st xs)
  then show ?case by (simp add: absorb.simps [of B f st xs])
qed

lemma absorb_append:
  assumes "0 < B"
  shows "absorb B f st (xs @ ys) =
     (let (st', r) = absorb B f st xs in absorb B f st' (r @ ys))"
  using assms
proof (induction B f st xs rule: absorb.induct)
  case (1 B f st xs)
  show ?case
  proof (cases "length xs < B")
    case True
    then show ?thesis by (simp add: absorb_short)
  next
    case False
    then have "absorb B f st (xs @ ys) = absorb B f (f st (take B xs)) (drop B xs @ ys)"
      using 1 by (simp add: absorb.simps [of B f st "xs @ ys"])
    then show ?thesis using 1 False by (simp add: absorb.simps [of B f st xs])
  qed
qed

lemma length_absorb_mod: "0 < B \<Longrightarrow> length (snd (absorb B f st xs)) = length xs mod B"
proof (induction B f st xs rule: absorb.induct)
  case (1 B f st xs)
  then show ?case
    by (cases "length xs < B") (simp_all add: absorb.simps [of B f st xs] le_mod_geq)
qed

text \<open>A message that its padding completes to full blocks ends with one more block.\<close>

lemma absorb_pad:
  assumes "0 < B" "absorb B f st m = (st', r)" "length r + length p = B"
  shows "absorb B f st (m @ p) = (f st' (r @ p), [])"
  using assms absorb_append [of B f st m p] absorb_full [of B "r @ p" f st' "[]"]
  by (simp add: absorb_short)

lemma absorb_map:
  assumes "P st"
    and step: "\<And>s b. P s \<Longrightarrow> length b = B \<Longrightarrow> h (f s b) = g (h s) b \<and> P (f s b)"
  shows "absorb B g (h st) xs = map_prod h id (absorb B f st xs)"
  using assms(1)
proof (induction "length xs" arbitrary: st xs rule: less_induct)
  case less
  show ?case
  proof (cases "B = 0 \<or> length xs < B")
    case True
    then show ?thesis by (simp add: absorb.simps [of B])
  next
    case False
    then have "length (take B xs) = B" by (simp add: min_absorb2)
    then have eq: "h (f st (take B xs)) = g (h st) (take B xs)" and P: "P (f st (take B xs))"
      using step [OF less.prems] by blast+
    have "length (drop B xs) < length xs" using False by auto
    then have "absorb B g (h (f st (take B xs))) (drop B xs) =
        map_prod h id (absorb B f (f st (take B xs)) (drop B xs))"
      using P by (rule less.hyps)
    then show ?thesis
      using False eq by (simp add: absorb.simps [of B g "h st" xs] absorb.simps [of B f st xs])
  qed
qed

lemma absorb_cong:
  assumes "P st" and step: "\<And>s b. P s \<Longrightarrow> length b = B \<Longrightarrow> f s b = g s b \<and> P (f s b)"
  shows "absorb B f st xs = absorb B g st xs"
proof -
  have "absorb B g st xs = map_prod (\<lambda>s. s) id (absorb B f st xs)"
    by (rule absorb_map [where P = P and h = "\<lambda>s. s", OF assms(1)]) (use step in blast)
  then show ?thesis by (cases "absorb B f st xs") simp
qed

lemma absorb_invariant:
  assumes "P st" and step: "\<And>s b. P s \<Longrightarrow> length b = B \<Longrightarrow> P (f s b)"
  shows "P (fst (absorb B f st xs))"
  using assms(1)
proof (induction "length xs" arbitrary: st xs rule: less_induct)
  case less
  show ?case
  proof (cases "B = 0 \<or> length xs < B")
    case True
    then show ?thesis using less.prems by (simp add: absorb.simps [of B])
  next
    case False
    then have P: "P (f st (take B xs))"
      using step [OF less.prems, of "take B xs"] by (simp add: min_absorb2)
    have "length (drop B xs) < length xs" using False by auto
    then have "P (fst (absorb B f (f st (take B xs)) (drop B xs)))"
      using P by (rule less.hyps)
    then show ?thesis using False by (simp add: absorb.simps [of B f st xs])
  qed
qed

text \<open>A block function that also counts blocks.\<close>

lemma absorb_counter:
  fixes c k :: "'w::len word"
  assumes "0 < B"
  shows "absorb B (\<lambda>(s, c) b. (g s b, c + k)) (s, c) xs =
    ((fst (absorb B g s xs), c + of_nat (length xs div B) * k), snd (absorb B g s xs))"
  using assms
proof (induction B g s xs arbitrary: c rule: absorb.induct)
  case (1 B g s xs)
  show ?case
  proof (cases "length xs < B")
    case True
    then show ?thesis by (simp add: absorb_short)
  next
    case False
    then have "length xs div B = Suc (length (drop B xs) div B)"
      using 1 by (simp add: le_div_geq)
    then show ?thesis
      using 1 False
      by (simp add: absorb.simps [of B _ _ xs] algebra_simps)
  qed
qed

lemma fold_upt_Suc: "fold f [0..<Suc k] s = fold (\<lambda>i. f (Suc i)) [0..<k] (f 0 s)"
  by (simp add: upt_conv_Cons fold_map comp_def del: upt_Suc flip: map_Suc_upt)

text \<open>A block function that depends on the number of the block: the fold over the blocks.\<close>

lemma absorb_indexed:
  assumes "0 < B"
  shows "absorb B (\<lambda>(s, n) b. (g n s b, Suc n)) (s, n) xs =
    ((fold (\<lambda>i s. g (n + i) s (take B (drop (B * i) xs))) [0..<length xs div B] s,
      n + length xs div B), drop (B * (length xs div B)) xs)"
proof (induction "length xs" arbitrary: s n xs rule: less_induct)
  case less
  show ?case
  proof (cases "length xs < B")
    case True
    then show ?thesis by (simp add: absorb_short)
  next
    case False
    then have k: "length xs div B = Suc (length (drop B xs) div B)"
      using assms by (simp add: le_div_geq)
    define q where "q = length (drop B xs) div B"
    have "length (drop B xs) < length xs" using False assms by auto
    note IH = less.hyps [OF this, of "g n s (take B xs)" "Suc n", folded q_def]
    have "absorb B (\<lambda>(s, n) b. (g n s b, Suc n)) (s, n) xs =
        absorb B (\<lambda>(s, n) b. (g n s b, Suc n)) (g n s (take B xs), Suc n) (drop B xs)"
      using False assms by (simp add: absorb.simps [of B _ _ xs])
    then show ?thesis
      unfolding IH k q_def [symmetric] fold_upt_Suc by (simp add: add.commute)
  qed
qed

text \<open>
  The closing code of most functions: \<open>buf[ptr ++] = b; memset(buf + ptr, v, B - ptr)\<close>.
\<close>

lemma close_buffer:
  assumes "length buf = B" "ptr < B"
  shows "memset_at (buf[ptr := b]) (ptr + 1) v (B - (ptr + 1)) =
    take ptr buf @ b # replicate (B - (ptr + 1)) v"
proof -
  have "take (Suc ptr) (buf[ptr := b]) = take ptr buf @ [b]"
    using assms by (simp add: take_Suc_conv_app_nth)
  then show ?thesis using assms by (simp add: memset_at_def memcpy_at_def)
qed

section \<open>The streaming interface\<close>

text \<open>
  The client calls a block function on the whole buffer array; the provider promises a positive
  block size and that the function reads only the first \<open>B\<close> bytes.
\<close>

locale sph_stream =
  fixes B :: nat and f :: "'s \<Rightarrow> bytes \<Rightarrow> 's"
  assumes B_pos: "0 < B"
    and f_take: "f st (take B buf) = f st buf"
begin

lemma loop_Nil [simp]: "sph_loop B f st buf ptr [] = Some (st, buf, ptr)"
  by (simp add: sph_loop.simps)

lemma loop_short:
  assumes "ptr < B" "length data < B - ptr"
  shows "sph_loop B f st buf ptr data = Some (st, memcpy_at buf ptr data, ptr + length data)"
  using assms by (cases "data = []") (simp_all add: sph_loop.simps Let_def)

lemma loop_fill:
  assumes "ptr < B" "B - ptr \<le> length data"
  shows "sph_loop B f st buf ptr data =
    (let b = memcpy_at buf ptr (take (B - ptr) data)
     in sph_loop B f (f st b) b 0 (drop (B - ptr) data))"
proof -
  have "data \<noteq> []" using assms by auto
  then show ?thesis
    by (subst sph_loop.simps) (use assms in \<open>simp add: Let_def\<close>)
qed

text \<open>The early exit is only a shortcut.\<close>

lemma core_eq_loop: "ptr < B \<Longrightarrow> sph_core B f st buf ptr data = sph_loop B f st buf ptr data"
  by (simp add: sph_core_def loop_short)

text \<open>
  The loop returns, and its result is the specification's: the state after the full blocks of
  \<open>pending @ data\<close>, with the left-over bytes at the start of the buffer.
\<close>

lemma loop_absorb:
  assumes "ptr < B" "B \<le> length buf"
  shows "\<exists>buf'. sph_loop B f st buf ptr data =
      Some (fst (absorb B f st (take ptr buf @ data)), buf',
            length (snd (absorb B f st (take ptr buf @ data)))) \<and>
    length buf' = length buf \<and>
    take (length (snd (absorb B f st (take ptr buf @ data)))) buf' =
      snd (absorb B f st (take ptr buf @ data))"
  using assms
proof (induction "length data" arbitrary: st buf ptr data rule: less_induct)
  case less
  show ?case
  proof (cases "length data < B - ptr")
    case True
    then show ?thesis
      using less.prems by (simp add: loop_short absorb_short take_memcpy_at)
  next
    case False
    define b where "b = memcpy_at buf ptr (take (B - ptr) data)"
    have len: "length b = length buf" and tk: "take B b = take ptr buf @ take (B - ptr) data"
      using less.prems False take_memcpy_at [of ptr buf "take (B - ptr) data"]
      by (simp_all add: b_def)
    have "take ptr buf @ data = take B b @ drop (B - ptr) data"
      by (simp add: tk)
    then have "absorb B f st (take ptr buf @ data) =
        absorb B f (f st b) (take 0 b @ drop (B - ptr) data)"
      using absorb_full [of B "take B b" f st "drop (B - ptr) data"] B_pos len less.prems f_take
      by (simp add: min_absorb2)
    moreover have "sph_loop B f st buf ptr data = sph_loop B f (f st b) b 0 (drop (B - ptr) data)"
      using less.prems False by (simp add: loop_fill b_def Let_def)
    moreover have "length (drop (B - ptr) data) < length data"
      using False less.prems by (cases data) auto
    ultimately show ?thesis
      using less.hyps [of "drop (B - ptr) data" 0 b "f st b"] B_pos len less.prems by simp
  qed
qed

lemma core_absorb:
  assumes "ptr < B" "B \<le> length buf" "absorb B f st (take ptr buf @ data) = (st', r)"
  obtains buf' where "sph_core B f st buf ptr data = Some (st', buf', length r)"
    "length buf' = length buf" "take (length r) buf' = r" "length r < B"
  using loop_absorb [of ptr buf st data] assms length_absorb [of B f st "take ptr buf @ data"] B_pos
  by (auto simp: core_eq_loop)

lemma core_step:
  assumes "ptr < B" "B \<le> length buf"
  shows "\<exists>st' buf' ptr'. sph_core B f st buf ptr data = Some (st', buf', ptr') \<and>
    length buf' = length buf \<and> ptr' < B \<and>
    (st', take ptr' buf') = absorb B f st (take ptr buf @ data)"
proof -
  obtain st' r where a: "absorb B f st (take ptr buf @ data) = (st', r)"
    by (cases "absorb B f st (take ptr buf @ data)")
  obtain buf' where "sph_core B f st buf ptr data = Some (st', buf', length r)"
      "length buf' = length buf" "take (length r) buf' = r" "length r < B"
    by (rule core_absorb [OF assms a])
  with a show ?thesis by simp
qed

text \<open>
  Cutting the input in two calls gives the same state, the same buffer (stale bytes included) and
  the same position as one call.
\<close>

lemma loop_append:
  assumes "ptr < B" "B \<le> length buf"
  shows "sph_loop B f st buf ptr (xs @ ys) =
    Option.bind (sph_loop B f st buf ptr xs) (\<lambda>(st', buf', ptr'). sph_loop B f st' buf' ptr' ys)"
  using assms
proof (induction "length xs" arbitrary: st buf ptr xs rule: less_induct)
  case less
  show ?case
  proof (cases "length xs < B - ptr")
    case False
    define b where "b = memcpy_at buf ptr (take (B - ptr) xs)"
    have "length b = length buf" using less.prems False by (simp add: b_def)
    moreover have "length (drop (B - ptr) xs) < length xs"
      using False less.prems by (cases xs) auto
    ultimately have "sph_loop B f (f st b) b 0 (drop (B - ptr) xs @ ys) =
        Option.bind (sph_loop B f (f st b) b 0 (drop (B - ptr) xs))
          (\<lambda>(st', buf', ptr'). sph_loop B f st' buf' ptr' ys)"
      using less.hyps [of "drop (B - ptr) xs" 0 b "f st b"] less.prems B_pos by simp
    then show ?thesis
      using less.prems False by (simp add: loop_fill b_def Let_def)
  next
    case short: True
    show ?thesis
    proof (cases "length (xs @ ys) < B - ptr")
      case True
      then show ?thesis
        using short less.prems by (simp add: loop_short memcpy_at_memcpy_at)
    next
      case False
      have "memcpy_at (memcpy_at buf ptr xs) (ptr + length xs) (take (B - (ptr + length xs)) ys) =
          memcpy_at buf ptr (take (B - ptr) (xs @ ys))"
        using short less.prems by (simp add: memcpy_at_memcpy_at)
      then show ?thesis
        using short False less.prems by (simp add: loop_short loop_fill Let_def)
    qed
  qed
qed

lemma core_append:
  assumes "ptr < B" "B \<le> length buf"
  shows "sph_core B f st buf ptr (xs @ ys) =
    Option.bind (sph_core B f st buf ptr xs) (\<lambda>(st', buf', ptr'). sph_core B f st' buf' ptr' ys)"
proof -
  obtain st' r where a: "absorb B f st (take ptr buf @ xs) = (st', r)"
    by (cases "absorb B f st (take ptr buf @ xs)")
  obtain buf' where "sph_core B f st buf ptr xs = Some (st', buf', length r)" "length r < B"
    using core_absorb [OF assms a] by metis
  then show ?thesis
    using assms loop_append [of ptr buf st xs ys] by (simp add: core_eq_loop)
qed

end

section \<open>A hash context fed chunk by chunk\<close>

text \<open>
  A caller of the X11 API feeds a context with any number of update calls. The client side of the
  interface is the update function of a context type; the provider promises that one call keeps
  its invariant and absorbs its argument after the pending bytes.
\<close>

fun feed :: "('c \<Rightarrow> bytes \<Rightarrow> 'c option) \<Rightarrow> 'c \<Rightarrow> bytes list \<Rightarrow> 'c option" where
  "feed core c [] = Some c"
| "feed core c (xs # xss) = Option.bind (core c xs) (\<lambda>c'. feed core c' xss)"

locale sph_hash = sph_stream B f for B and f :: "'s \<Rightarrow> bytes \<Rightarrow> 's" +
  fixes ok :: "'c \<Rightarrow> bool" and chain :: "'c \<Rightarrow> 's" and pending :: "'c \<Rightarrow> bytes"
    and core :: "'c \<Rightarrow> bytes \<Rightarrow> 'c option"
  assumes core_ok: "ok c \<Longrightarrow> \<exists>c'. core c xs = Some c' \<and> ok c' \<and>
    (chain c', pending c') = absorb B f (chain c) (pending c @ xs)"
    and pending_short: "ok c \<Longrightarrow> length (pending c) < B"
begin

lemma feed_ok:
  "ok c \<Longrightarrow> \<exists>c'. feed core c xss = Some c' \<and> ok c' \<and>
    (chain c', pending c') = absorb B f (chain c) (pending c @ concat xss)"
proof (induction xss arbitrary: c)
  case Nil
  then show ?case by (simp add: absorb_short pending_short)
next
  case (Cons xs xss)
  obtain c1 where c1: "core c xs = Some c1" "ok c1"
      "(chain c1, pending c1) = absorb B f (chain c) (pending c @ xs)"
    using core_ok [OF Cons.prems, of xs] by blast
  have "absorb B f (chain c) ((pending c @ xs) @ concat xss) =
      absorb B f (chain c1) (pending c1 @ concat xss)"
    using absorb_append [OF B_pos, of f "chain c" "pending c @ xs" "concat xss"]
    unfolding c1(3) [symmetric] by simp
  then show ?case using c1 Cons.IH [OF c1(2)] by simp
qed

end

end
