(* ===== verification/CubeHash.thy ===== *)
theory CubeHash
  imports SphStream
begin

text \<open>
  \<open>src/src/crypto/x11/cubehash.c\<close>: CubeHash16/32-512, the eighth function of the X11 chain.
  The two round macros work on 32 local variables \<open>x0 .. xv\<close>; \<open>READ_STATE\<close> and \<open>WRITE_STATE\<close>
  move them from and to the array \<open>state\<close> of the context. All four unrolling variants of
  \<open>SIXTEEN_ROUNDS\<close> are modelled (the build of \<open>src/src/Makefile.am\<close> defines
  \<open>SPH_SMALL_FOOTPRINT_CUBEHASH\<close>, which selects the one by four). The theorems: the pair of macros
  is two rounds of the published CubeHash round, the rounds are invertible, the variants agree, and
  the init/update/close interface computes the digest of the concatenated input.
\<close>

section \<open>State\<close>

datatype cube_vars =
  CubeVars u32 u32 u32 u32 u32 u32 u32 u32 u32 u32 u32 u32 u32 u32 u32 u32 u32 u32 u32 u32 u32 u32 u32
    u32 u32 u32 u32 u32 u32 u32 u32 u32

record cubehash_context =
  cube_buf :: bytes
  cube_ptr :: nat
  cube_state :: "u32 list"

abbreviation T32 :: "u32 \<Rightarrow> u32" where "T32 \<equiv> SPH_T32"
abbreviation ROTL32 :: "u32 \<Rightarrow> nat \<Rightarrow> u32" where "ROTL32 \<equiv> SPH_ROTL32"

definition cubehash_IV512 :: "u32 list" where
  "cubehash_IV512 =
     [0x2AEA2A61, 0x50F494D4, 0x2D538B8B, 0x4167D83E, 0x3FEE2313, 0xC701CF8C, 0xCC39968E,
      0x50AC5695, 0x4D42C787, 0xA647A8B3, 0x97CF0BEF, 0x825B4537, 0xEEF864D2, 0xF22090C4,
      0xD0E5CD33, 0xA23911AE, 0xFCD398D9, 0x148FE485, 0x1B017BEF, 0xB6444532, 0x6A536159,
      0x2FF5781C, 0x91FA7934, 0x0DBADEA9, 0xD65C8A2B, 0xA5A70E75, 0xB1C62456, 0xBC796576,
      0x1921C8F7, 0xE7989AF1, 0x7795D246, 0xD43E3B44]"

definition cube_READ_STATE :: "u32 list \<Rightarrow> cube_vars" where
  "cube_READ_STATE st =
     CubeVars (st ! 0) (st ! 1) (st ! 2) (st ! 3) (st ! 4) (st ! 5) (st ! 6) (st ! 7) (st ! 8)
      (st ! 9) (st ! 10) (st ! 11) (st ! 12) (st ! 13) (st ! 14) (st ! 15) (st ! 16) (st ! 17)
      (st ! 18) (st ! 19) (st ! 20) (st ! 21) (st ! 22) (st ! 23) (st ! 24) (st ! 25) (st ! 26)
      (st ! 27) (st ! 28) (st ! 29) (st ! 30) (st ! 31)"

primrec cube_WRITE_STATE :: "cube_vars \<Rightarrow> u32 list" where
  "cube_WRITE_STATE
     (CubeVars x0 x1 x2 x3 x4 x5 x6 x7 x8 x9 xa xb xc xd xe xf xg xh xi xj xk xl xm xn xo xp xq
      xr xs xt xu xv) =
     [x0, x1, x2, x3, x4, x5, x6, x7, x8, x9, xa, xb, xc, xd, xe, xf, xg, xh, xi, xj, xk, xl, xm,
      xn, xo, xp, xq, xr, xs, xt, xu, xv]"

section \<open>Rounds\<close>

primrec cube_INPUT_BLOCK :: "cube_vars \<Rightarrow> bytes \<Rightarrow> cube_vars" where
  "cube_INPUT_BLOCK
     (CubeVars x0 x1 x2 x3 x4 x5 x6 x7 x8 x9 xa xb xc xd xe xf xg xh xi xj xk xl xm xn xo xp xq
      xr xs xt xu xv) buf =
     CubeVars (x0 XOR sph_dec32le buf 0) (x1 XOR sph_dec32le buf 4) (x2 XOR sph_dec32le buf 8)
      (x3 XOR sph_dec32le buf 12) (x4 XOR sph_dec32le buf 16) (x5 XOR sph_dec32le buf 20)
      (x6 XOR sph_dec32le buf 24) (x7 XOR sph_dec32le buf 28) x8 x9 xa xb xc xd xe xf xg xh xi xj
      xk xl xm xn xo xp xq xr xs xt xu xv"

primrec ROUND_EVEN :: "cube_vars \<Rightarrow> cube_vars" where
  "ROUND_EVEN
     (CubeVars x0 x1 x2 x3 x4 x5 x6 x7 x8 x9 xa xb xc xd xe xf xg xh xi xj xk xl xm xn xo xp xq
      xr xs xt xu xv) =
   (let
    xg = T32 (x0 + xg); x0 = ROTL32 x0 7; xh = T32 (x1 + xh); x1 = ROTL32 x1 7;
    xi = T32 (x2 + xi); x2 = ROTL32 x2 7; xj = T32 (x3 + xj); x3 = ROTL32 x3 7;
    xk = T32 (x4 + xk); x4 = ROTL32 x4 7; xl = T32 (x5 + xl); x5 = ROTL32 x5 7;
    xm = T32 (x6 + xm); x6 = ROTL32 x6 7; xn = T32 (x7 + xn); x7 = ROTL32 x7 7;
    xo = T32 (x8 + xo); x8 = ROTL32 x8 7; xp = T32 (x9 + xp); x9 = ROTL32 x9 7;
    xq = T32 (xa + xq); xa = ROTL32 xa 7; xr = T32 (xb + xr); xb = ROTL32 xb 7;
    xs = T32 (xc + xs); xc = ROTL32 xc 7; xt = T32 (xd + xt); xd = ROTL32 xd 7;
    xu = T32 (xe + xu); xe = ROTL32 xe 7; xv = T32 (xf + xv); xf = ROTL32 xf 7; x8 = x8 XOR xg;
    x9 = x9 XOR xh; xa = xa XOR xi; xb = xb XOR xj; xc = xc XOR xk; xd = xd XOR xl;
    xe = xe XOR xm; xf = xf XOR xn; x0 = x0 XOR xo; x1 = x1 XOR xp; x2 = x2 XOR xq;
    x3 = x3 XOR xr; x4 = x4 XOR xs; x5 = x5 XOR xt; x6 = x6 XOR xu; x7 = x7 XOR xv;
    xi = T32 (x8 + xi); x8 = ROTL32 x8 11; xj = T32 (x9 + xj); x9 = ROTL32 x9 11;
    xg = T32 (xa + xg); xa = ROTL32 xa 11; xh = T32 (xb + xh); xb = ROTL32 xb 11;
    xm = T32 (xc + xm); xc = ROTL32 xc 11; xn = T32 (xd + xn); xd = ROTL32 xd 11;
    xk = T32 (xe + xk); xe = ROTL32 xe 11; xl = T32 (xf + xl); xf = ROTL32 xf 11;
    xq = T32 (x0 + xq); x0 = ROTL32 x0 11; xr = T32 (x1 + xr); x1 = ROTL32 x1 11;
    xo = T32 (x2 + xo); x2 = ROTL32 x2 11; xp = T32 (x3 + xp); x3 = ROTL32 x3 11;
    xu = T32 (x4 + xu); x4 = ROTL32 x4 11; xv = T32 (x5 + xv); x5 = ROTL32 x5 11;
    xs = T32 (x6 + xs); x6 = ROTL32 x6 11; xt = T32 (x7 + xt); x7 = ROTL32 x7 11; xc = xc XOR xi;
    xd = xd XOR xj; xe = xe XOR xg; xf = xf XOR xh; x8 = x8 XOR xm; x9 = x9 XOR xn;
    xa = xa XOR xk; xb = xb XOR xl; x4 = x4 XOR xq; x5 = x5 XOR xr; x6 = x6 XOR xo;
    x7 = x7 XOR xp; x0 = x0 XOR xu; x1 = x1 XOR xv; x2 = x2 XOR xs; x3 = x3 XOR xt
    in CubeVars x0 x1 x2 x3 x4 x5 x6 x7 x8 x9 xa xb xc xd xe xf xg xh xi xj xk xl xm xn xo xp xq
      xr xs xt xu xv)"

primrec ROUND_ODD :: "cube_vars \<Rightarrow> cube_vars" where
  "ROUND_ODD
     (CubeVars x0 x1 x2 x3 x4 x5 x6 x7 x8 x9 xa xb xc xd xe xf xg xh xi xj xk xl xm xn xo xp xq
      xr xs xt xu xv) =
   (let
    xj = T32 (xc + xj); xc = ROTL32 xc 7; xi = T32 (xd + xi); xd = ROTL32 xd 7;
    xh = T32 (xe + xh); xe = ROTL32 xe 7; xg = T32 (xf + xg); xf = ROTL32 xf 7;
    xn = T32 (x8 + xn); x8 = ROTL32 x8 7; xm = T32 (x9 + xm); x9 = ROTL32 x9 7;
    xl = T32 (xa + xl); xa = ROTL32 xa 7; xk = T32 (xb + xk); xb = ROTL32 xb 7;
    xr = T32 (x4 + xr); x4 = ROTL32 x4 7; xq = T32 (x5 + xq); x5 = ROTL32 x5 7;
    xp = T32 (x6 + xp); x6 = ROTL32 x6 7; xo = T32 (x7 + xo); x7 = ROTL32 x7 7;
    xv = T32 (x0 + xv); x0 = ROTL32 x0 7; xu = T32 (x1 + xu); x1 = ROTL32 x1 7;
    xt = T32 (x2 + xt); x2 = ROTL32 x2 7; xs = T32 (x3 + xs); x3 = ROTL32 x3 7; x4 = x4 XOR xj;
    x5 = x5 XOR xi; x6 = x6 XOR xh; x7 = x7 XOR xg; x0 = x0 XOR xn; x1 = x1 XOR xm;
    x2 = x2 XOR xl; x3 = x3 XOR xk; xc = xc XOR xr; xd = xd XOR xq; xe = xe XOR xp;
    xf = xf XOR xo; x8 = x8 XOR xv; x9 = x9 XOR xu; xa = xa XOR xt; xb = xb XOR xs;
    xh = T32 (x4 + xh); x4 = ROTL32 x4 11; xg = T32 (x5 + xg); x5 = ROTL32 x5 11;
    xj = T32 (x6 + xj); x6 = ROTL32 x6 11; xi = T32 (x7 + xi); x7 = ROTL32 x7 11;
    xl = T32 (x0 + xl); x0 = ROTL32 x0 11; xk = T32 (x1 + xk); x1 = ROTL32 x1 11;
    xn = T32 (x2 + xn); x2 = ROTL32 x2 11; xm = T32 (x3 + xm); x3 = ROTL32 x3 11;
    xp = T32 (xc + xp); xc = ROTL32 xc 11; xo = T32 (xd + xo); xd = ROTL32 xd 11;
    xr = T32 (xe + xr); xe = ROTL32 xe 11; xq = T32 (xf + xq); xf = ROTL32 xf 11;
    xt = T32 (x8 + xt); x8 = ROTL32 x8 11; xs = T32 (x9 + xs); x9 = ROTL32 x9 11;
    xv = T32 (xa + xv); xa = ROTL32 xa 11; xu = T32 (xb + xu); xb = ROTL32 xb 11; x0 = x0 XOR xh;
    x1 = x1 XOR xg; x2 = x2 XOR xj; x3 = x3 XOR xi; x4 = x4 XOR xl; x5 = x5 XOR xk;
    x6 = x6 XOR xn; x7 = x7 XOR xm; x8 = x8 XOR xp; x9 = x9 XOR xo; xa = xa XOR xr;
    xb = xb XOR xq; xc = xc XOR xt; xd = xd XOR xs; xe = xe XOR xv; xf = xf XOR xu
    in CubeVars x0 x1 x2 x3 x4 x5 x6 x7 x8 x9 xa xb xc xd xe xf xg xh xi xj xk xl xm xn xo xp xq
      xr xs xt xu xv)"

text \<open>The four variants of the sixteen rounds, by the value of \<open>SPH_CUBEHASH_UNROLL\<close>.\<close>

definition SIXTEEN_ROUNDS_2 :: "cube_vars \<Rightarrow> cube_vars" where
  "SIXTEEN_ROUNDS_2 s = fold (\<lambda>j s. ROUND_ODD (ROUND_EVEN s)) [0..<8::nat] s"

definition SIXTEEN_ROUNDS_4 :: "cube_vars \<Rightarrow> cube_vars" where
  "SIXTEEN_ROUNDS_4 s =
     fold (\<lambda>j s. ROUND_ODD (ROUND_EVEN (ROUND_ODD (ROUND_EVEN s)))) [0..<4::nat] s"

definition SIXTEEN_ROUNDS_8 :: "cube_vars \<Rightarrow> cube_vars" where
  "SIXTEEN_ROUNDS_8 s =
     fold (\<lambda>j s. ROUND_ODD (ROUND_EVEN (ROUND_ODD (ROUND_EVEN (ROUND_ODD (ROUND_EVEN
       (ROUND_ODD (ROUND_EVEN s)))))))) [0..<2::nat] s"

definition SIXTEEN_ROUNDS_full :: "cube_vars \<Rightarrow> cube_vars" where
  "SIXTEEN_ROUNDS_full s =
     ROUND_ODD (ROUND_EVEN (ROUND_ODD (ROUND_EVEN (ROUND_ODD (ROUND_EVEN (ROUND_ODD (ROUND_EVEN
     (ROUND_ODD (ROUND_EVEN (ROUND_ODD (ROUND_EVEN (ROUND_ODD (ROUND_EVEN (ROUND_ODD (ROUND_EVEN
       s)))))))))))))))"

section \<open>Init, update, close\<close>

definition cube_block :: "u32 list \<Rightarrow> bytes \<Rightarrow> u32 list" where
  "cube_block st buf =
     cube_WRITE_STATE (SIXTEEN_ROUNDS_4 (cube_INPUT_BLOCK (cube_READ_STATE st) buf))"

definition cubehash_init :: "cubehash_context \<Rightarrow> u32 list \<Rightarrow> cubehash_context" where
  "cubehash_init sc iv = sc\<lparr>cube_state := iv, cube_ptr := 0\<rparr>"

definition cubehash_core :: "cubehash_context \<Rightarrow> bytes \<Rightarrow> cubehash_context option" where
  "cubehash_core sc data =
     map_option (\<lambda>(st, buf, ptr). \<lparr>cube_buf = buf, cube_ptr = ptr, cube_state = st\<rparr>)
       (sph_core 32 cube_block (cube_state sc) (cube_buf sc) (cube_ptr sc) data)"

primrec cube_xor_xv :: "u32 \<Rightarrow> cube_vars \<Rightarrow> cube_vars" where
  "cube_xor_xv c
     (CubeVars x0 x1 x2 x3 x4 x5 x6 x7 x8 x9 xa xb xc xd xe xf xg xh xi xj xk xl xm xn xo xp xq
      xr xs xt xu xv) =
     CubeVars x0 x1 x2 x3 x4 x5 x6 x7 x8 x9 xa xb xc xd xe xf xg xh xi xj xk xl xm xn xo xp xq
      xr xs xt xu (xv XOR c)"

definition cubehash_close ::
  "cubehash_context \<Rightarrow> u32 \<Rightarrow> nat \<Rightarrow> nat \<Rightarrow> cubehash_context \<times> bytes"
where
  "cubehash_close sc ub n out_size_w32 =
     (let
        ptr = cube_ptr sc;
        z = drop_bit n 0x80;
        buf = (cube_buf sc)[ptr := ucast (((ub AND (- z)) OR z) AND 0xFF)];
        ptr = ptr + 1;
        buf = memset_at buf ptr 0 (32 - ptr);
        s = cube_INPUT_BLOCK (cube_READ_STATE (cube_state sc)) buf;
        s = fold (\<lambda>i s.
              let s = SIXTEEN_ROUNDS_4 s in if i = 0 then cube_xor_xv 1 s else s) [0..<11] s;
        sc = sc\<lparr>cube_buf := buf, cube_state := cube_WRITE_STATE s\<rparr>
      in (sc, concat (map (\<lambda>z. sph_enc32le (cube_state sc ! z)) [0..<out_size_w32])))"

definition sph_cubehash512_init :: "cubehash_context \<Rightarrow> cubehash_context" where
  "sph_cubehash512_init cc = cubehash_init cc cubehash_IV512"

definition sph_cubehash512 :: "cubehash_context \<Rightarrow> bytes \<Rightarrow> cubehash_context option" where
  "sph_cubehash512 cc data = cubehash_core cc data"

definition sph_cubehash512_addbits_and_close ::
  "cubehash_context \<Rightarrow> u32 \<Rightarrow> nat \<Rightarrow> cubehash_context \<times> bytes"
where
  "sph_cubehash512_addbits_and_close cc ub n =
     (let (cc, dst) = cubehash_close cc ub n 16 in (sph_cubehash512_init cc, dst))"

definition sph_cubehash512_close :: "cubehash_context \<Rightarrow> cubehash_context \<times> bytes" where
  "sph_cubehash512_close cc = sph_cubehash512_addbits_and_close cc 0 0"

section \<open>Invertible rounds\<close>

text \<open>The statements of each round undone in reverse order.\<close>

primrec ROUND_EVEN_inv :: "cube_vars \<Rightarrow> cube_vars" where
  "ROUND_EVEN_inv
     (CubeVars x0 x1 x2 x3 x4 x5 x6 x7 x8 x9 xa xb xc xd xe xf xg xh xi xj xk xl xm xn xo xp xq
      xr xs xt xu xv) =
   (let
    x3 = x3 XOR xt; x2 = x2 XOR xs; x1 = x1 XOR xv; x0 = x0 XOR xu; x7 = x7 XOR xp;
    x6 = x6 XOR xo; x5 = x5 XOR xr; x4 = x4 XOR xq; xb = xb XOR xl; xa = xa XOR xk;
    x9 = x9 XOR xn; x8 = x8 XOR xm; xf = xf XOR xh; xe = xe XOR xg; xd = xd XOR xj;
    xc = xc XOR xi; x7 = word_rotr 11 x7; xt = xt - x7; x6 = word_rotr 11 x6; xs = xs - x6;
    x5 = word_rotr 11 x5; xv = xv - x5; x4 = word_rotr 11 x4; xu = xu - x4; x3 = word_rotr 11 x3;
    xp = xp - x3; x2 = word_rotr 11 x2; xo = xo - x2; x1 = word_rotr 11 x1; xr = xr - x1;
    x0 = word_rotr 11 x0; xq = xq - x0; xf = word_rotr 11 xf; xl = xl - xf; xe = word_rotr 11 xe;
    xk = xk - xe; xd = word_rotr 11 xd; xn = xn - xd; xc = word_rotr 11 xc; xm = xm - xc;
    xb = word_rotr 11 xb; xh = xh - xb; xa = word_rotr 11 xa; xg = xg - xa; x9 = word_rotr 11 x9;
    xj = xj - x9; x8 = word_rotr 11 x8; xi = xi - x8; x7 = x7 XOR xv; x6 = x6 XOR xu;
    x5 = x5 XOR xt; x4 = x4 XOR xs; x3 = x3 XOR xr; x2 = x2 XOR xq; x1 = x1 XOR xp;
    x0 = x0 XOR xo; xf = xf XOR xn; xe = xe XOR xm; xd = xd XOR xl; xc = xc XOR xk;
    xb = xb XOR xj; xa = xa XOR xi; x9 = x9 XOR xh; x8 = x8 XOR xg; xf = word_rotr 7 xf;
    xv = xv - xf; xe = word_rotr 7 xe; xu = xu - xe; xd = word_rotr 7 xd; xt = xt - xd;
    xc = word_rotr 7 xc; xs = xs - xc; xb = word_rotr 7 xb; xr = xr - xb; xa = word_rotr 7 xa;
    xq = xq - xa; x9 = word_rotr 7 x9; xp = xp - x9; x8 = word_rotr 7 x8; xo = xo - x8;
    x7 = word_rotr 7 x7; xn = xn - x7; x6 = word_rotr 7 x6; xm = xm - x6; x5 = word_rotr 7 x5;
    xl = xl - x5; x4 = word_rotr 7 x4; xk = xk - x4; x3 = word_rotr 7 x3; xj = xj - x3;
    x2 = word_rotr 7 x2; xi = xi - x2; x1 = word_rotr 7 x1; xh = xh - x1; x0 = word_rotr 7 x0;
    xg = xg - x0
    in CubeVars x0 x1 x2 x3 x4 x5 x6 x7 x8 x9 xa xb xc xd xe xf xg xh xi xj xk xl xm xn xo xp xq
      xr xs xt xu xv)"

primrec ROUND_ODD_inv :: "cube_vars \<Rightarrow> cube_vars" where
  "ROUND_ODD_inv
     (CubeVars x0 x1 x2 x3 x4 x5 x6 x7 x8 x9 xa xb xc xd xe xf xg xh xi xj xk xl xm xn xo xp xq
      xr xs xt xu xv) =
   (let
    xf = xf XOR xu; xe = xe XOR xv; xd = xd XOR xs; xc = xc XOR xt; xb = xb XOR xq;
    xa = xa XOR xr; x9 = x9 XOR xo; x8 = x8 XOR xp; x7 = x7 XOR xm; x6 = x6 XOR xn;
    x5 = x5 XOR xk; x4 = x4 XOR xl; x3 = x3 XOR xi; x2 = x2 XOR xj; x1 = x1 XOR xg;
    x0 = x0 XOR xh; xb = word_rotr 11 xb; xu = xu - xb; xa = word_rotr 11 xa; xv = xv - xa;
    x9 = word_rotr 11 x9; xs = xs - x9; x8 = word_rotr 11 x8; xt = xt - x8; xf = word_rotr 11 xf;
    xq = xq - xf; xe = word_rotr 11 xe; xr = xr - xe; xd = word_rotr 11 xd; xo = xo - xd;
    xc = word_rotr 11 xc; xp = xp - xc; x3 = word_rotr 11 x3; xm = xm - x3; x2 = word_rotr 11 x2;
    xn = xn - x2; x1 = word_rotr 11 x1; xk = xk - x1; x0 = word_rotr 11 x0; xl = xl - x0;
    x7 = word_rotr 11 x7; xi = xi - x7; x6 = word_rotr 11 x6; xj = xj - x6; x5 = word_rotr 11 x5;
    xg = xg - x5; x4 = word_rotr 11 x4; xh = xh - x4; xb = xb XOR xs; xa = xa XOR xt;
    x9 = x9 XOR xu; x8 = x8 XOR xv; xf = xf XOR xo; xe = xe XOR xp; xd = xd XOR xq;
    xc = xc XOR xr; x3 = x3 XOR xk; x2 = x2 XOR xl; x1 = x1 XOR xm; x0 = x0 XOR xn;
    x7 = x7 XOR xg; x6 = x6 XOR xh; x5 = x5 XOR xi; x4 = x4 XOR xj; x3 = word_rotr 7 x3;
    xs = xs - x3; x2 = word_rotr 7 x2; xt = xt - x2; x1 = word_rotr 7 x1; xu = xu - x1;
    x0 = word_rotr 7 x0; xv = xv - x0; x7 = word_rotr 7 x7; xo = xo - x7; x6 = word_rotr 7 x6;
    xp = xp - x6; x5 = word_rotr 7 x5; xq = xq - x5; x4 = word_rotr 7 x4; xr = xr - x4;
    xb = word_rotr 7 xb; xk = xk - xb; xa = word_rotr 7 xa; xl = xl - xa; x9 = word_rotr 7 x9;
    xm = xm - x9; x8 = word_rotr 7 x8; xn = xn - x8; xf = word_rotr 7 xf; xg = xg - xf;
    xe = word_rotr 7 xe; xh = xh - xe; xd = word_rotr 7 xd; xi = xi - xd; xc = word_rotr 7 xc;
    xj = xj - xc
    in CubeVars x0 x1 x2 x3 x4 x5 x6 x7 x8 x9 xa xb xc xd xe xf xg xh xi xj xk xl xm xn xo xp xq
      xr xs xt xu xv)"

lemmas cube_rot_simps = SPH_ROTL32_eq

lemma ROUND_EVEN_inverse [inverse_simps]: "ROUND_EVEN_inv (ROUND_EVEN s) = s"
  by (cases s) (simp only: ROUND_EVEN.simps ROUND_EVEN_inv.simps Let_def,
    simp add: cube_rot_simps)

lemma ROUND_ODD_inverse [inverse_simps]: "ROUND_ODD_inv (ROUND_ODD s) = s"
  by (cases s) (simp only: ROUND_ODD.simps ROUND_ODD_inv.simps Let_def,
    simp add: cube_rot_simps)

lemma ROUND_EVEN_inverse' [inverse_simps]: "ROUND_EVEN (ROUND_EVEN_inv s) = s"
  by (cases s) (simp only: ROUND_EVEN.simps ROUND_EVEN_inv.simps Let_def,
    simp add: cube_rot_simps)

lemma ROUND_ODD_inverse' [inverse_simps]: "ROUND_ODD (ROUND_ODD_inv s) = s"
  by (cases s) (simp only: ROUND_ODD.simps ROUND_ODD_inv.simps Let_def,
    simp add: cube_rot_simps)

section \<open>The published round\<close>

text \<open>
  The round of the CubeHash submission, its ten steps in order, on the array of 32 words
  \<open>x[0jklm]\<close> (the lower half) and \<open>x[1jklm]\<close> (the upper half).
\<close>

definition cube_swap :: "nat \<Rightarrow> u32 list \<Rightarrow> u32 list" where
  "cube_swap d xs = map (\<lambda>i. xs ! (i XOR d)) [0..<16]"

definition cube_round_spec :: "u32 list \<Rightarrow> u32 list" where
  "cube_round_spec x =
     (let
        lo = take 16 x; hi = drop 16 x;
        hi = map2 (+) lo hi;
        lo = map (word_rotl 7) lo;
        lo = cube_swap 8 lo;
        lo = map2 (XOR) lo hi;
        hi = cube_swap 2 hi;
        hi = map2 (+) lo hi;
        lo = map (word_rotl 11) lo;
        lo = cube_swap 4 lo;
        lo = map2 (XOR) lo hi;
        hi = cube_swap 1 hi
      in lo @ hi)"

text \<open>Where the registers of the code hold the words of the published state after an even round.\<close>

definition cube_layout :: "cube_vars \<Rightarrow> u32 list" where
  "cube_layout s =
     map (\<lambda>i. cube_WRITE_STATE s ! (i XOR 12)) [0..<16] @
     map (\<lambda>i. cube_WRITE_STATE s ! (16 + (i XOR 3))) [0..<16]"

lemmas cube_spec_simps =
  cube_round_spec_def cube_swap_def cube_layout_def Let_def upt_numerals

lemma ROUND_EVEN_spec: "cube_layout (ROUND_EVEN s) = cube_round_spec (cube_WRITE_STATE s)"
  by (cases s) (simp add: cube_spec_simps cube_rot_simps)

lemma ROUND_ODD_spec: "cube_WRITE_STATE (ROUND_ODD s) = cube_round_spec (cube_layout s)"
  by (cases s) (simp add: cube_spec_simps cube_rot_simps)

lemma two_rounds_spec:
  "cube_WRITE_STATE (ROUND_ODD (ROUND_EVEN s)) =
     cube_round_spec (cube_round_spec (cube_WRITE_STATE s))"
  by (simp add: ROUND_EVEN_spec ROUND_ODD_spec)

text \<open>The three looped variants are the fully unrolled one.\<close>

lemma SIXTEEN_ROUNDS_variants [variant_simps]:
  "SIXTEEN_ROUNDS_2 s = SIXTEEN_ROUNDS_full s"
  "SIXTEEN_ROUNDS_4 s = SIXTEEN_ROUNDS_full s"
  "SIXTEEN_ROUNDS_8 s = SIXTEEN_ROUNDS_full s"
  by (simp_all add: SIXTEEN_ROUNDS_2_def SIXTEEN_ROUNDS_4_def SIXTEEN_ROUNDS_8_def
      SIXTEEN_ROUNDS_full_def upt_rec)

lemma SIXTEEN_ROUNDS_spec:
  "cube_WRITE_STATE (SIXTEEN_ROUNDS_full s) = (cube_round_spec ^^ 16) (cube_WRITE_STATE s)"
  by (simp add: SIXTEEN_ROUNDS_full_def two_rounds_spec eval_nat_numeral)

lemma bij_ROUND_EVEN: "bij ROUND_EVEN"
  by (rule bij_betw_byWitness [where f' = ROUND_EVEN_inv]) (simp_all add: inverse_simps)

lemma bij_ROUND_ODD: "bij ROUND_ODD"
  by (rule bij_betw_byWitness [where f' = ROUND_ODD_inv]) (simp_all add: inverse_simps)

lemma bij_SIXTEEN_ROUNDS: "bij SIXTEEN_ROUNDS_full"
proof -
  have "SIXTEEN_ROUNDS_full = (ROUND_ODD \<circ> ROUND_EVEN) ^^ 8"
    by (rule ext) (simp add: SIXTEEN_ROUNDS_full_def eval_nat_numeral)
  moreover have "bij (ROUND_ODD \<circ> ROUND_EVEN)"
    by (rule bij_comp [OF bij_ROUND_EVEN bij_ROUND_ODD])
  ultimately show ?thesis by (metis bij_fn)
qed

section \<open>The digest\<close>

text \<open>
  The specification of CubeHash16/32-512 on a whole message: pad with \<open>0x80\<close> and zeros to blocks
  of 32 bytes; per block, exclusive-or the block into the first eight words and apply 16 rounds;
  then exclusive-or 1 into the last word, apply 160 rounds and output the first 16 words.
\<close>

definition cube_xor_block :: "u32 list \<Rightarrow> bytes \<Rightarrow> u32 list" where
  "cube_xor_block st b =
     map (\<lambda>i. st ! i XOR sph_dec32le b (4 * i)) [0..<8] @ drop 8 st"

definition cube_block_spec :: "u32 list \<Rightarrow> bytes \<Rightarrow> u32 list" where
  "cube_block_spec st b = (cube_round_spec ^^ 16) (cube_xor_block st b)"

definition cube_pad :: "bytes \<Rightarrow> bytes" where
  "cube_pad m = m @ 0x80 # replicate (31 - length m mod 32) 0"

definition cubehash512_digest :: "bytes \<Rightarrow> bytes" where
  "cubehash512_digest m =
     (let st = fst (absorb 32 cube_block_spec cubehash_IV512 (cube_pad m));
          st = (cube_round_spec ^^ 160) (st[31 := st ! 31 XOR 1])
      in concat (map sph_enc32le (take 16 st)))"

lemma cube_READ_WRITE [simp]: "cube_READ_STATE (cube_WRITE_STATE s) = s"
  by (cases s) (simp add: cube_READ_STATE_def)

lemma length_cube_WRITE_STATE [simp]: "length (cube_WRITE_STATE s) = 32"
  by (cases s) simp

lemma cube_WRITE_READ [simp]:
  assumes "length st = 32"
  shows "cube_WRITE_STATE (cube_READ_STATE st) = st"
proof -
  have "cube_WRITE_STATE (cube_READ_STATE st) = map ((!) st) [0..<32]"
    by (simp add: cube_READ_STATE_def upt_numerals)
  then show ?thesis using assms map_nth [of st] by simp
qed

lemma cube_INPUT_BLOCK_spec:
  "cube_WRITE_STATE (cube_INPUT_BLOCK s b) = cube_xor_block (cube_WRITE_STATE s) b"
  by (cases s) (simp add: cube_xor_block_def upt_numerals)

lemma cube_xor_xv_spec:
  "cube_WRITE_STATE (cube_xor_xv c s) =
     (cube_WRITE_STATE s)[31 := cube_WRITE_STATE s ! 31 XOR c]"
  by (cases s) simp

lemma cube_block_eq: "length st = 32 \<Longrightarrow> cube_block st b = cube_block_spec st b"
  by (simp add: cube_block_def cube_block_spec_def SIXTEEN_ROUNDS_variants SIXTEEN_ROUNDS_spec
      cube_INPUT_BLOCK_spec)

lemma length_cube_block [simp]: "length (cube_block st b) = 32"
  by (simp add: cube_block_def)

interpretation cube: sph_stream 32 cube_block
proof
  fix st buf
  show "cube_block st (take 32 buf) = cube_block st buf"
    by (cases "cube_READ_STATE st") (simp add: cube_block_def dec_take)
qed simp

definition cube_ok :: "cubehash_context \<Rightarrow> bool" where
  "cube_ok sc \<longleftrightarrow> length (cube_buf sc) = 32 \<and> cube_ptr sc < 32"

definition cube_pending :: "cubehash_context \<Rightarrow> bytes" where
  "cube_pending sc = take (cube_ptr sc) (cube_buf sc)"

interpretation cube_ctx: sph_hash 32 cube_block cube_ok cube_state cube_pending cubehash_core
proof
  fix sc xs assume ok: "cube_ok sc"
  show "\<exists>c'. cubehash_core sc xs = Some c' \<and> cube_ok c' \<and>
      (cube_state c', cube_pending c') = absorb 32 cube_block (cube_state sc) (cube_pending sc @ xs)"
    using cube.core_step [of "cube_ptr sc" "cube_buf sc" "cube_state sc" xs] ok
    by (auto simp: cubehash_core_def cube_ok_def cube_pending_def)
qed (simp add: cube_ok_def cube_pending_def)

lemma cube_close_output:
  assumes "cube_ok sc"
  shows "snd (cubehash_close sc 0 0 16) =
    (let st = cube_block (cube_state sc)
           (cube_pending sc @ 0x80 # replicate (31 - cube_ptr sc) 0);
         st = (cube_round_spec ^^ 160) (st[31 := st ! 31 XOR 1])
     in concat (map sph_enc32le (take 16 st)))"
proof -
  define b where "b = cube_pending sc @ 0x80 # replicate (31 - cube_ptr sc) (0 :: u8)"
  have buf: "memset_at ((cube_buf sc)[cube_ptr sc := 0x80]) (cube_ptr sc + 1) 0
      (32 - (cube_ptr sc + 1)) = b"
    using assms close_buffer [of "cube_buf sc" 32 "cube_ptr sc" "0x80" 0]
    by (simp add: cube_ok_def cube_pending_def b_def)
  define s where "s = SIXTEEN_ROUNDS_full (cube_INPUT_BLOCK (cube_READ_STATE (cube_state sc)) b)"
  have blk: "cube_block (cube_state sc) b = cube_WRITE_STATE s"
    by (simp add: cube_block_def s_def SIXTEEN_ROUNDS_variants)
  have rounds: "cube_WRITE_STATE ((SIXTEEN_ROUNDS_full ^^ 10) t) =
      (cube_round_spec ^^ 160) (cube_WRITE_STATE t)" for t
  proof -
    have "cube_WRITE_STATE ((SIXTEEN_ROUNDS_full ^^ n) t) =
        (cube_round_spec ^^ (n * 16)) (cube_WRITE_STATE t)" for n
      by (induction n) (simp_all add: SIXTEEN_ROUNDS_spec funpow_add)
    from this [of 10] show ?thesis by simp
  qed
  have loop: "fold (\<lambda>i s. let s = SIXTEEN_ROUNDS_4 s in if i = 0 then cube_xor_xv 1 s else s) [0..<11]
      (cube_INPUT_BLOCK (cube_READ_STATE (cube_state sc)) b) =
      (SIXTEEN_ROUNDS_full ^^ 10) (cube_xor_xv 1 s)"
    by (simp add: upt_numerals s_def SIXTEEN_ROUNDS_variants eval_nat_numeral)
  have take: "map (\<lambda>z. sph_enc32le (xs ! z)) [0..<16] = map sph_enc32le (take 16 xs)"
    if "length xs = 32" for xs
    using that by (auto intro: nth_equalityI)
  show ?thesis
    by (simp add: cubehash_close_def Let_def buf [simplified] loop [simplified Let_def] take
        rounds cube_xor_xv_spec blk flip: b_def)
qed

text \<open>
  Any number of update calls between init and close gives the digest of the concatenated input,
  whatever the context held before, and leaves the context initialised again.
\<close>

lemma cubehash512_run:
  assumes "length (cube_buf cc) = 32"
  shows "\<exists>sc. feed sph_cubehash512 (sph_cubehash512_init cc) chunks = Some sc \<and>
    snd (sph_cubehash512_close sc) = cubehash512_digest (concat chunks) \<and>
    cube_state (fst (sph_cubehash512_close sc)) = cubehash_IV512 \<and>
    cube_ptr (fst (sph_cubehash512_close sc)) = 0"
proof -
  let ?m = "concat chunks"
  let ?c0 = "sph_cubehash512_init cc"
  have "cube_ok ?c0" "cube_state ?c0 = cubehash_IV512" "cube_pending ?c0 = []"
    using assms by (simp_all add: cube_ok_def cube_pending_def sph_cubehash512_init_def
        cubehash_init_def)
  then obtain sc where sc: "feed cubehash_core ?c0 chunks = Some sc" "cube_ok sc"
      "absorb 32 cube_block cubehash_IV512 ?m = (cube_state sc, cube_pending sc)"
    using cube_ctx.feed_ok [of ?c0 chunks] by auto
  have len: "length (cube_pending sc) = cube_ptr sc"
    using sc(2) by (simp add: cube_ok_def cube_pending_def)
  then have ptr: "cube_ptr sc = length ?m mod 32"
    using length_absorb_mod [of 32 cube_block cubehash_IV512 ?m] sc(3) by simp
  have "absorb 32 cube_block cubehash_IV512 (cube_pad ?m) =
      (cube_block (cube_state sc) (cube_pending sc @ 0x80 # replicate (31 - cube_ptr sc) 0), [])"
    unfolding cube_pad_def ptr [symmetric]
    by (rule absorb_pad [OF _ sc(3)]) (use len sc(2) in \<open>simp_all add: cube_ok_def\<close>)
  moreover have "absorb 32 cube_block cubehash_IV512 (cube_pad ?m) =
      absorb 32 cube_block_spec cubehash_IV512 (cube_pad ?m)"
    by (rule absorb_cong [where P = "\<lambda>st. length st = 32"])
      (simp_all add: cubehash_IV512_def cube_block_eq flip: cube_block_eq)
  ultimately have "snd (cubehash_close sc 0 0 16) = cubehash512_digest ?m"
    using cube_close_output [OF sc(2)] by (simp add: cubehash512_digest_def)
  then show ?thesis using sc(1)
    by (simp add: sph_cubehash512_close_def sph_cubehash512_addbits_and_close_def
        sph_cubehash512_init_def cubehash_init_def sph_cubehash512_def [abs_def]
        case_prod_beta)
qed

section \<open>Properties\<close>

text \<open>
  C24: the CubeHash-512 interface, called on any context with a 32-byte buffer with init, any
  number of update calls and close, returns; the output is the digest of the published
  CubeHash16/32-512 on the concatenated input, and the context is initialised again.
\<close>

theorem cubehash512_correct:
  assumes "length (cube_buf cc) = 32"
  shows "\<exists>sc. feed sph_cubehash512 (sph_cubehash512_init cc) chunks = Some sc \<and>
    snd (sph_cubehash512_close sc) = cubehash512_digest (concat chunks) \<and>
    cube_state (fst (sph_cubehash512_close sc)) = cubehash_IV512 \<and>
    cube_ptr (fst (sph_cubehash512_close sc)) = 0"
  by (rule cubehash512_run [OF assms])

theorem cubehash512_correct_witness:
  "\<exists>sc. feed sph_cubehash512 (sph_cubehash512_init
      \<lparr>cube_buf = replicate 32 7, cube_ptr = 9, cube_state = []\<rparr>) [[1, 2], [3]] = Some sc \<and>
    snd (sph_cubehash512_close sc) = cubehash512_digest [1, 2, 3]"
  using cubehash512_correct [of "\<lparr>cube_buf = replicate 32 7, cube_ptr = 9, cube_state = []\<rparr>"
      "[[1, 2], [3]]"] by auto

text \<open>
  the four unrolled forms of \<open>SIXTEEN_ROUNDS\<close> are the same function: sixteen rounds of the
  published ten-step CubeHash round on the state array, and a permutation of the state.
\<close>

theorem cube_sixteen_rounds_correct:
  "bij SIXTEEN_ROUNDS_full \<and> SIXTEEN_ROUNDS_2 = SIXTEEN_ROUNDS_full \<and>
   SIXTEEN_ROUNDS_4 = SIXTEEN_ROUNDS_full \<and> SIXTEEN_ROUNDS_8 = SIXTEEN_ROUNDS_full \<and>
   cube_WRITE_STATE (SIXTEEN_ROUNDS_full s) = (cube_round_spec ^^ 16) (cube_WRITE_STATE s)"
  by (intro conjI ext) (simp_all only: bij_SIXTEEN_ROUNDS SIXTEEN_ROUNDS_variants SIXTEEN_ROUNDS_spec)

end
