(* ===== verification/Keccak.thy ===== *)
theory Keccak
  imports SphStream
begin

text \<open>
  \<open>src/src/crypto/x11/keccak.c\<close>: Keccak-512, the sixth function of the X11 chain. The step
  macros take the 25 lanes as parameters, and the C code never moves lanes between rounds: round
  \<open>r\<close> passes the variables in the order \<open>P\<^sub>r\<close>, so the permutation step of Keccak is a change of
  argument lists, undone by \<open>Pk_TO_P0\<close> at the end of an unrolled loop body. Six lanes are kept
  complemented so that the nonlinear step needs fewer negations. Here \<open>kvars\<close> are the 25 variables
  in the order of \<open>u.wide\<close>, \<open>kargs\<close> is an argument list, \<open>Pr\<close> and \<open>Pr_set\<close> read and write the
  variables through an argument list. All seven values of \<open>SPH_KECCAK_UNROLL\<close> are modelled (the
  default is 8). The theorems: every variant computes Keccak-f[1600] of the published
  specification on the uncomplemented state, and the interface computes Keccak-512.
\<close>

section \<open>State\<close>

datatype kvars =
  KVars u64 u64 u64 u64 u64 u64 u64 u64 u64 u64 u64 u64 u64 u64 u64 u64 u64 u64 u64 u64 u64 u64 u64
    u64 u64

datatype kargs =
  KArgs u64 u64 u64 u64 u64 u64 u64 u64 u64 u64 u64 u64 u64 u64 u64 u64 u64 u64 u64 u64 u64 u64 u64
    u64 u64

record keccak_context =
  kc_buf :: bytes
  kc_ptr :: nat
  kc_lim :: nat
  kc_wide :: "u64 list"

definition RC :: "u64 list" where
  "RC =
     [0x0000000000000001, 0x0000000000008082, 0x800000000000808A, 0x8000000080008000,
      0x000000000000808B, 0x0000000080000001, 0x8000000080008081, 0x8000000000008009,
      0x000000000000008A, 0x0000000000000088, 0x0000000080008009, 0x000000008000000A,
      0x000000008000808B, 0x800000000000008B, 0x8000000000008089, 0x8000000000008003,
      0x8000000000008002, 0x8000000000000080, 0x000000000000800A, 0x800000008000000A,
      0x8000000080008081, 0x8000000000008080, 0x0000000080000001, 0x8000000080008008]"

definition keccak_READ_STATE :: "u64 list \<Rightarrow> kvars" where
  "keccak_READ_STATE st =
     KVars (st ! 0) (st ! 1) (st ! 2) (st ! 3) (st ! 4) (st ! 5) (st ! 6) (st ! 7) (st ! 8)
      (st ! 9) (st ! 10) (st ! 11) (st ! 12) (st ! 13) (st ! 14) (st ! 15) (st ! 16) (st ! 17)
      (st ! 18) (st ! 19) (st ! 20) (st ! 21) (st ! 22) (st ! 23) (st ! 24)"

primrec keccak_WRITE_STATE :: "kvars \<Rightarrow> u64 list" where
  "keccak_WRITE_STATE
     (KVars a00 a10 a20 a30 a40 a01 a11 a21 a31 a41 a02 a12 a22 a32 a42 a03 a13 a23 a33 a43 a04
      a14 a24 a34 a44) =
     [a00, a10, a20, a30, a40, a01, a11, a21, a31, a41, a02, a12, a22, a32, a42, a03, a13, a23,
      a33, a43, a04, a14, a24, a34, a44]"

text \<open>
  \<open>INPUT_BUF\<close> with the state in the context (\<open>SPH_KECCAK_NOCOPY\<close>, the x86 build), and in local
  variables, where each size has a macro of its own beside the general one with its early breaks.
\<close>

definition INPUT_BUF :: "u64 list \<Rightarrow> bytes \<Rightarrow> nat \<Rightarrow> u64 list" where
  "INPUT_BUF wide buf sz =
     fold (\<lambda>j wide. wide[j div 8 := wide ! (j div 8) XOR sph_dec64le buf j])
       (map ((*) 8) [0..<(sz + 7) div 8]) wide"

primrec INPUT_BUF144 :: "kvars \<Rightarrow> bytes \<Rightarrow> kvars" where
  "INPUT_BUF144
     (KVars a00 a10 a20 a30 a40 a01 a11 a21 a31 a41 a02 a12 a22 a32 a42 a03 a13 a23 a33 a43 a04
      a14 a24 a34 a44) buf =
   (let
    a00 = a00 XOR sph_dec64le buf 0; a10 = a10 XOR sph_dec64le buf 8;
    a20 = a20 XOR sph_dec64le buf 16; a30 = a30 XOR sph_dec64le buf 24;
    a40 = a40 XOR sph_dec64le buf 32; a01 = a01 XOR sph_dec64le buf 40;
    a11 = a11 XOR sph_dec64le buf 48; a21 = a21 XOR sph_dec64le buf 56;
    a31 = a31 XOR sph_dec64le buf 64; a41 = a41 XOR sph_dec64le buf 72;
    a02 = a02 XOR sph_dec64le buf 80; a12 = a12 XOR sph_dec64le buf 88;
    a22 = a22 XOR sph_dec64le buf 96; a32 = a32 XOR sph_dec64le buf 104;
    a42 = a42 XOR sph_dec64le buf 112; a03 = a03 XOR sph_dec64le buf 120;
    a13 = a13 XOR sph_dec64le buf 128; a23 = a23 XOR sph_dec64le buf 136
    in KVars a00 a10 a20 a30 a40 a01 a11 a21 a31 a41 a02 a12 a22 a32 a42 a03 a13 a23 a33 a43 a04
      a14 a24 a34 a44)"

primrec INPUT_BUF136 :: "kvars \<Rightarrow> bytes \<Rightarrow> kvars" where
  "INPUT_BUF136
     (KVars a00 a10 a20 a30 a40 a01 a11 a21 a31 a41 a02 a12 a22 a32 a42 a03 a13 a23 a33 a43 a04
      a14 a24 a34 a44) buf =
   (let
    a00 = a00 XOR sph_dec64le buf 0; a10 = a10 XOR sph_dec64le buf 8;
    a20 = a20 XOR sph_dec64le buf 16; a30 = a30 XOR sph_dec64le buf 24;
    a40 = a40 XOR sph_dec64le buf 32; a01 = a01 XOR sph_dec64le buf 40;
    a11 = a11 XOR sph_dec64le buf 48; a21 = a21 XOR sph_dec64le buf 56;
    a31 = a31 XOR sph_dec64le buf 64; a41 = a41 XOR sph_dec64le buf 72;
    a02 = a02 XOR sph_dec64le buf 80; a12 = a12 XOR sph_dec64le buf 88;
    a22 = a22 XOR sph_dec64le buf 96; a32 = a32 XOR sph_dec64le buf 104;
    a42 = a42 XOR sph_dec64le buf 112; a03 = a03 XOR sph_dec64le buf 120;
    a13 = a13 XOR sph_dec64le buf 128
    in KVars a00 a10 a20 a30 a40 a01 a11 a21 a31 a41 a02 a12 a22 a32 a42 a03 a13 a23 a33 a43 a04
      a14 a24 a34 a44)"

primrec INPUT_BUF104 :: "kvars \<Rightarrow> bytes \<Rightarrow> kvars" where
  "INPUT_BUF104
     (KVars a00 a10 a20 a30 a40 a01 a11 a21 a31 a41 a02 a12 a22 a32 a42 a03 a13 a23 a33 a43 a04
      a14 a24 a34 a44) buf =
   (let
    a00 = a00 XOR sph_dec64le buf 0; a10 = a10 XOR sph_dec64le buf 8;
    a20 = a20 XOR sph_dec64le buf 16; a30 = a30 XOR sph_dec64le buf 24;
    a40 = a40 XOR sph_dec64le buf 32; a01 = a01 XOR sph_dec64le buf 40;
    a11 = a11 XOR sph_dec64le buf 48; a21 = a21 XOR sph_dec64le buf 56;
    a31 = a31 XOR sph_dec64le buf 64; a41 = a41 XOR sph_dec64le buf 72;
    a02 = a02 XOR sph_dec64le buf 80; a12 = a12 XOR sph_dec64le buf 88;
    a22 = a22 XOR sph_dec64le buf 96
    in KVars a00 a10 a20 a30 a40 a01 a11 a21 a31 a41 a02 a12 a22 a32 a42 a03 a13 a23 a33 a43 a04
      a14 a24 a34 a44)"

primrec INPUT_BUF72 :: "kvars \<Rightarrow> bytes \<Rightarrow> kvars" where
  "INPUT_BUF72
     (KVars a00 a10 a20 a30 a40 a01 a11 a21 a31 a41 a02 a12 a22 a32 a42 a03 a13 a23 a33 a43 a04
      a14 a24 a34 a44) buf =
   (let
    a00 = a00 XOR sph_dec64le buf 0; a10 = a10 XOR sph_dec64le buf 8;
    a20 = a20 XOR sph_dec64le buf 16; a30 = a30 XOR sph_dec64le buf 24;
    a40 = a40 XOR sph_dec64le buf 32; a01 = a01 XOR sph_dec64le buf 40;
    a11 = a11 XOR sph_dec64le buf 48; a21 = a21 XOR sph_dec64le buf 56;
    a31 = a31 XOR sph_dec64le buf 64
    in KVars a00 a10 a20 a30 a40 a01 a11 a21 a31 a41 a02 a12 a22 a32 a42 a03 a13 a23 a33 a43 a04
      a14 a24 a34 a44)"

primrec INPUT_BUF_copy :: "kvars \<Rightarrow> bytes \<Rightarrow> nat \<Rightarrow> kvars" where
  "INPUT_BUF_copy
     (KVars a00 a10 a20 a30 a40 a01 a11 a21 a31 a41 a02 a12 a22 a32 a42 a03 a13 a23 a33 a43 a04
      a14 a24 a34 a44) buf lim =
   (let
    a00 = a00 XOR sph_dec64le buf 0; a10 = a10 XOR sph_dec64le buf 8;
    a20 = a20 XOR sph_dec64le buf 16; a30 = a30 XOR sph_dec64le buf 24;
    a40 = a40 XOR sph_dec64le buf 32; a01 = a01 XOR sph_dec64le buf 40;
    a11 = a11 XOR sph_dec64le buf 48; a21 = a21 XOR sph_dec64le buf 56;
    a31 = a31 XOR sph_dec64le buf 64
    in if lim = 72 then KVars a00 a10 a20 a30 a40 a01 a11 a21 a31 a41 a02 a12 a22 a32 a42 a03 a13 a23 a33 a43 a04
      a14 a24 a34 a44
    else let
    a41 = a41 XOR sph_dec64le buf 72; a02 = a02 XOR sph_dec64le buf 80;
    a12 = a12 XOR sph_dec64le buf 88; a22 = a22 XOR sph_dec64le buf 96
    in if lim = 104 then KVars a00 a10 a20 a30 a40 a01 a11 a21 a31 a41 a02 a12 a22 a32 a42 a03 a13 a23 a33 a43 a04
      a14 a24 a34 a44
    else let
    a32 = a32 XOR sph_dec64le buf 104; a42 = a42 XOR sph_dec64le buf 112;
    a03 = a03 XOR sph_dec64le buf 120; a13 = a13 XOR sph_dec64le buf 128
    in if lim = 136 then KVars a00 a10 a20 a30 a40 a01 a11 a21 a31 a41 a02 a12 a22 a32 a42 a03 a13 a23 a33 a43 a04
      a14 a24 a34 a44
    else let
    a23 = a23 XOR sph_dec64le buf 136
    in KVars a00 a10 a20 a30 a40 a01 a11 a21 a31 a41 a02 a12 a22 a32 a42 a03 a13 a23 a33 a43 a04
      a14 a24 a34 a44)"

section \<open>The step macros\<close>

definition TH_ELT ::
  "u64 \<Rightarrow> u64 \<Rightarrow> u64 \<Rightarrow> u64 \<Rightarrow> u64 \<Rightarrow> u64 \<Rightarrow> u64 \<Rightarrow> u64 \<Rightarrow> u64 \<Rightarrow> u64 \<Rightarrow> u64"
where
  "TH_ELT c0 c1 c2 c3 c4 d0 d1 d2 d3 d4 =
     (let
      tt0 = d0 XOR d1; tt1 = d2 XOR d3; tt0 = tt0 XOR d4; tt0 = tt0 XOR tt1;
      tt0 = SPH_ROTL64 tt0 1; tt2 = c0 XOR c1; tt3 = c2 XOR c3; tt0 = tt0 XOR c4;
      tt2 = tt2 XOR tt3; t = tt0 XOR tt2
      in t)"

primrec THETA :: "kargs \<Rightarrow> kargs" where
  "THETA
     (KArgs b00 b01 b02 b03 b04 b10 b11 b12 b13 b14 b20 b21 b22 b23 b24 b30 b31 b32 b33 b34 b40
      b41 b42 b43 b44) =
   (let
    t0 = TH_ELT b40 b41 b42 b43 b44 b10 b11 b12 b13 b14;
    t1 = TH_ELT b00 b01 b02 b03 b04 b20 b21 b22 b23 b24;
    t2 = TH_ELT b10 b11 b12 b13 b14 b30 b31 b32 b33 b34;
    t3 = TH_ELT b20 b21 b22 b23 b24 b40 b41 b42 b43 b44;
    t4 = TH_ELT b30 b31 b32 b33 b34 b00 b01 b02 b03 b04; b00 = b00 XOR t0; b01 = b01 XOR t0;
    b02 = b02 XOR t0; b03 = b03 XOR t0; b04 = b04 XOR t0; b10 = b10 XOR t1; b11 = b11 XOR t1;
    b12 = b12 XOR t1; b13 = b13 XOR t1; b14 = b14 XOR t1; b20 = b20 XOR t2; b21 = b21 XOR t2;
    b22 = b22 XOR t2; b23 = b23 XOR t2; b24 = b24 XOR t2; b30 = b30 XOR t3; b31 = b31 XOR t3;
    b32 = b32 XOR t3; b33 = b33 XOR t3; b34 = b34 XOR t3; b40 = b40 XOR t4; b41 = b41 XOR t4;
    b42 = b42 XOR t4; b43 = b43 XOR t4; b44 = b44 XOR t4
    in KArgs b00 b01 b02 b03 b04 b10 b11 b12 b13 b14 b20 b21 b22 b23 b24 b30 b31 b32 b33 b34 b40
      b41 b42 b43 b44)"

primrec RHO :: "kargs \<Rightarrow> kargs" where
  "RHO
     (KArgs b00 b01 b02 b03 b04 b10 b11 b12 b13 b14 b20 b21 b22 b23 b24 b30 b31 b32 b33 b34 b40
      b41 b42 b43 b44) =
   (let
    b01 = SPH_ROTL64 b01 36; b02 = SPH_ROTL64 b02 3; b03 = SPH_ROTL64 b03 41;
    b04 = SPH_ROTL64 b04 18; b10 = SPH_ROTL64 b10 1; b11 = SPH_ROTL64 b11 44;
    b12 = SPH_ROTL64 b12 10; b13 = SPH_ROTL64 b13 45; b14 = SPH_ROTL64 b14 2;
    b20 = SPH_ROTL64 b20 62; b21 = SPH_ROTL64 b21 6; b22 = SPH_ROTL64 b22 43;
    b23 = SPH_ROTL64 b23 15; b24 = SPH_ROTL64 b24 61; b30 = SPH_ROTL64 b30 28;
    b31 = SPH_ROTL64 b31 55; b32 = SPH_ROTL64 b32 25; b33 = SPH_ROTL64 b33 21;
    b34 = SPH_ROTL64 b34 56; b40 = SPH_ROTL64 b40 27; b41 = SPH_ROTL64 b41 20;
    b42 = SPH_ROTL64 b42 39; b43 = SPH_ROTL64 b43 8; b44 = SPH_ROTL64 b44 14
    in KArgs b00 b01 b02 b03 b04 b10 b11 b12 b13 b14 b20 b21 b22 b23 b24 b30 b31 b32 b33 b34 b40
      b41 b42 b43 b44)"

definition KHI_XO :: "u64 \<Rightarrow> u64 \<Rightarrow> u64 \<Rightarrow> u64" where
  "KHI_XO a b c = (let kt = b OR c in a XOR kt)"

definition KHI_XA :: "u64 \<Rightarrow> u64 \<Rightarrow> u64 \<Rightarrow> u64" where
  "KHI_XA a b c = (let kt = b AND c in a XOR kt)"

primrec KHI :: "kargs \<Rightarrow> kargs" where
  "KHI
     (KArgs b00 b01 b02 b03 b04 b10 b11 b12 b13 b14 b20 b21 b22 b23 b24 b30 b31 b32 b33 b34 b40
      b41 b42 b43 b44) =
   (let
    bnn = SPH_T64 (NOT b20); c0 = KHI_XO b00 b10 b20; c1 = KHI_XO b10 bnn b30;
    c2 = KHI_XA b20 b30 b40; c3 = KHI_XO b30 b40 b00; c4 = KHI_XA b40 b00 b10; b00 = c0;
    b10 = c1; b20 = c2; b30 = c3; b40 = c4; bnn = SPH_T64 (NOT b41); c0 = KHI_XO b01 b11 b21;
    c1 = KHI_XA b11 b21 b31; c2 = KHI_XO b21 b31 bnn; c3 = KHI_XO b31 b41 b01;
    c4 = KHI_XA b41 b01 b11; b01 = c0; b11 = c1; b21 = c2; b31 = c3; b41 = c4;
    bnn = SPH_T64 (NOT b32); c0 = KHI_XO b02 b12 b22; c1 = KHI_XA b12 b22 b32;
    c2 = KHI_XA b22 bnn b42; c3 = KHI_XO bnn b42 b02; c4 = KHI_XA b42 b02 b12; b02 = c0;
    b12 = c1; b22 = c2; b32 = c3; b42 = c4; bnn = SPH_T64 (NOT b33); c0 = KHI_XA b03 b13 b23;
    c1 = KHI_XO b13 b23 b33; c2 = KHI_XO b23 bnn b43; c3 = KHI_XA bnn b43 b03;
    c4 = KHI_XO b43 b03 b13; b03 = c0; b13 = c1; b23 = c2; b33 = c3; b43 = c4;
    bnn = SPH_T64 (NOT b14); c0 = KHI_XA b04 bnn b24; c1 = KHI_XO bnn b24 b34;
    c2 = KHI_XA b24 b34 b44; c3 = KHI_XO b34 b44 b04; c4 = KHI_XA b44 b04 b14; b04 = c0;
    b14 = c1; b24 = c2; b34 = c3; b44 = c4
    in KArgs b00 b01 b02 b03 b04 b10 b11 b12 b13 b14 b20 b21 b22 b23 b24 b30 b31 b32 b33 b34 b40
      b41 b42 b43 b44)"

primrec KF_IOTA :: "u64 \<Rightarrow> kvars \<Rightarrow> kvars" where
  "KF_IOTA k
     (KVars a00 a10 a20 a30 a40 a01 a11 a21 a31 a41 a02 a12 a22 a32 a42 a03 a13 a23 a33 a43 a04
      a14 a24 a34 a44) =
     KVars (a00 XOR k) a10 a20 a30 a40 a01 a11 a21 a31 a41 a02 a12 a22 a32 a42 a03 a13 a23 a33
      a43 a04 a14 a24 a34 a44"

section \<open>The argument lists\<close>

primrec P0 :: "kvars \<Rightarrow> kargs" where
  "P0
     (KVars a00 a10 a20 a30 a40 a01 a11 a21 a31 a41 a02 a12 a22 a32 a42 a03 a13 a23 a33 a43 a04
      a14 a24 a34 a44) =
     KArgs a00 a01 a02 a03 a04 a10 a11 a12 a13 a14 a20 a21 a22 a23 a24 a30 a31 a32 a33 a34 a40
      a41 a42 a43 a44"

primrec P0_set :: "kargs \<Rightarrow> kvars" where
  "P0_set
     (KArgs a00 a01 a02 a03 a04 a10 a11 a12 a13 a14 a20 a21 a22 a23 a24 a30 a31 a32 a33 a34 a40
      a41 a42 a43 a44) =
     KVars a00 a10 a20 a30 a40 a01 a11 a21 a31 a41 a02 a12 a22 a32 a42 a03 a13 a23 a33 a43 a04
      a14 a24 a34 a44"

primrec P1 :: "kvars \<Rightarrow> kargs" where
  "P1
     (KVars a00 a10 a20 a30 a40 a01 a11 a21 a31 a41 a02 a12 a22 a32 a42 a03 a13 a23 a33 a43 a04
      a14 a24 a34 a44) =
     KArgs a00 a30 a10 a40 a20 a11 a41 a21 a01 a31 a22 a02 a32 a12 a42 a33 a13 a43 a23 a03 a44
      a24 a04 a34 a14"

primrec P1_set :: "kargs \<Rightarrow> kvars" where
  "P1_set
     (KArgs a00 a30 a10 a40 a20 a11 a41 a21 a01 a31 a22 a02 a32 a12 a42 a33 a13 a43 a23 a03 a44
      a24 a04 a34 a14) =
     KVars a00 a10 a20 a30 a40 a01 a11 a21 a31 a41 a02 a12 a22 a32 a42 a03 a13 a23 a33 a43 a04
      a14 a24 a34 a44"

primrec P2 :: "kvars \<Rightarrow> kargs" where
  "P2
     (KVars a00 a10 a20 a30 a40 a01 a11 a21 a31 a41 a02 a12 a22 a32 a42 a03 a13 a23 a33 a43 a04
      a14 a24 a34 a44) =
     KArgs a00 a33 a11 a44 a22 a41 a24 a02 a30 a13 a32 a10 a43 a21 a04 a23 a01 a34 a12 a40 a14
      a42 a20 a03 a31"

primrec P2_set :: "kargs \<Rightarrow> kvars" where
  "P2_set
     (KArgs a00 a33 a11 a44 a22 a41 a24 a02 a30 a13 a32 a10 a43 a21 a04 a23 a01 a34 a12 a40 a14
      a42 a20 a03 a31) =
     KVars a00 a10 a20 a30 a40 a01 a11 a21 a31 a41 a02 a12 a22 a32 a42 a03 a13 a23 a33 a43 a04
      a14 a24 a34 a44"

primrec P3 :: "kvars \<Rightarrow> kargs" where
  "P3
     (KVars a00 a10 a20 a30 a40 a01 a11 a21 a31 a41 a02 a12 a22 a32 a42 a03 a13 a23 a33 a43 a04
      a14 a24 a34 a44) =
     KArgs a00 a23 a41 a14 a32 a24 a42 a10 a33 a01 a43 a11 a34 a02 a20 a12 a30 a03 a21 a44 a31
      a04 a22 a40 a13"

primrec P3_set :: "kargs \<Rightarrow> kvars" where
  "P3_set
     (KArgs a00 a23 a41 a14 a32 a24 a42 a10 a33 a01 a43 a11 a34 a02 a20 a12 a30 a03 a21 a44 a31
      a04 a22 a40 a13) =
     KVars a00 a10 a20 a30 a40 a01 a11 a21 a31 a41 a02 a12 a22 a32 a42 a03 a13 a23 a33 a43 a04
      a14 a24 a34 a44"

primrec P4 :: "kvars \<Rightarrow> kargs" where
  "P4
     (KVars a00 a10 a20 a30 a40 a01 a11 a21 a31 a41 a02 a12 a22 a32 a42 a03 a13 a23 a33 a43 a04
      a14 a24 a34 a44) =
     KArgs a00 a12 a24 a31 a43 a42 a04 a11 a23 a30 a34 a41 a03 a10 a22 a21 a33 a40 a02 a14 a13
      a20 a32 a44 a01"

primrec P4_set :: "kargs \<Rightarrow> kvars" where
  "P4_set
     (KArgs a00 a12 a24 a31 a43 a42 a04 a11 a23 a30 a34 a41 a03 a10 a22 a21 a33 a40 a02 a14 a13
      a20 a32 a44 a01) =
     KVars a00 a10 a20 a30 a40 a01 a11 a21 a31 a41 a02 a12 a22 a32 a42 a03 a13 a23 a33 a43 a04
      a14 a24 a34 a44"

primrec P5 :: "kvars \<Rightarrow> kargs" where
  "P5
     (KVars a00 a10 a20 a30 a40 a01 a11 a21 a31 a41 a02 a12 a22 a32 a42 a03 a13 a23 a33 a43 a04
      a14 a24 a34 a44) =
     KArgs a00 a21 a42 a13 a34 a04 a20 a41 a12 a33 a03 a24 a40 a11 a32 a02 a23 a44 a10 a31 a01
      a22 a43 a14 a30"

primrec P5_set :: "kargs \<Rightarrow> kvars" where
  "P5_set
     (KArgs a00 a21 a42 a13 a34 a04 a20 a41 a12 a33 a03 a24 a40 a11 a32 a02 a23 a44 a10 a31 a01
      a22 a43 a14 a30) =
     KVars a00 a10 a20 a30 a40 a01 a11 a21 a31 a41 a02 a12 a22 a32 a42 a03 a13 a23 a33 a43 a04
      a14 a24 a34 a44"

primrec P6 :: "kvars \<Rightarrow> kargs" where
  "P6
     (KVars a00 a10 a20 a30 a40 a01 a11 a21 a31 a41 a02 a12 a22 a32 a42 a03 a13 a23 a33 a43 a04
      a14 a24 a34 a44) =
     KArgs a00 a02 a04 a01 a03 a20 a22 a24 a21 a23 a40 a42 a44 a41 a43 a10 a12 a14 a11 a13 a30
      a32 a34 a31 a33"

primrec P6_set :: "kargs \<Rightarrow> kvars" where
  "P6_set
     (KArgs a00 a02 a04 a01 a03 a20 a22 a24 a21 a23 a40 a42 a44 a41 a43 a10 a12 a14 a11 a13 a30
      a32 a34 a31 a33) =
     KVars a00 a10 a20 a30 a40 a01 a11 a21 a31 a41 a02 a12 a22 a32 a42 a03 a13 a23 a33 a43 a04
      a14 a24 a34 a44"

primrec P7 :: "kvars \<Rightarrow> kargs" where
  "P7
     (KVars a00 a10 a20 a30 a40 a01 a11 a21 a31 a41 a02 a12 a22 a32 a42 a03 a13 a23 a33 a43 a04
      a14 a24 a34 a44) =
     KArgs a00 a10 a20 a30 a40 a22 a32 a42 a02 a12 a44 a04 a14 a24 a34 a11 a21 a31 a41 a01 a33
      a43 a03 a13 a23"

primrec P7_set :: "kargs \<Rightarrow> kvars" where
  "P7_set
     (KArgs a00 a10 a20 a30 a40 a22 a32 a42 a02 a12 a44 a04 a14 a24 a34 a11 a21 a31 a41 a01 a33
      a43 a03 a13 a23) =
     KVars a00 a10 a20 a30 a40 a01 a11 a21 a31 a41 a02 a12 a22 a32 a42 a03 a13 a23 a33 a43 a04
      a14 a24 a34 a44"

primrec P8 :: "kvars \<Rightarrow> kargs" where
  "P8
     (KVars a00 a10 a20 a30 a40 a01 a11 a21 a31 a41 a02 a12 a22 a32 a42 a03 a13 a23 a33 a43 a04
      a14 a24 a34 a44) =
     KArgs a00 a11 a22 a33 a44 a32 a43 a04 a10 a21 a14 a20 a31 a42 a03 a41 a02 a13 a24 a30 a23
      a34 a40 a01 a12"

primrec P8_set :: "kargs \<Rightarrow> kvars" where
  "P8_set
     (KArgs a00 a11 a22 a33 a44 a32 a43 a04 a10 a21 a14 a20 a31 a42 a03 a41 a02 a13 a24 a30 a23
      a34 a40 a01 a12) =
     KVars a00 a10 a20 a30 a40 a01 a11 a21 a31 a41 a02 a12 a22 a32 a42 a03 a13 a23 a33 a43 a04
      a14 a24 a34 a44"

primrec P9 :: "kvars \<Rightarrow> kargs" where
  "P9
     (KVars a00 a10 a20 a30 a40 a01 a11 a21 a31 a41 a02 a12 a22 a32 a42 a03 a13 a23 a33 a43 a04
      a14 a24 a34 a44) =
     KArgs a00 a41 a32 a23 a14 a43 a34 a20 a11 a02 a31 a22 a13 a04 a40 a24 a10 a01 a42 a33 a12
      a03 a44 a30 a21"

primrec P9_set :: "kargs \<Rightarrow> kvars" where
  "P9_set
     (KArgs a00 a41 a32 a23 a14 a43 a34 a20 a11 a02 a31 a22 a13 a04 a40 a24 a10 a01 a42 a33 a12
      a03 a44 a30 a21) =
     KVars a00 a10 a20 a30 a40 a01 a11 a21 a31 a41 a02 a12 a22 a32 a42 a03 a13 a23 a33 a43 a04
      a14 a24 a34 a44"

primrec P10 :: "kvars \<Rightarrow> kargs" where
  "P10
     (KVars a00 a10 a20 a30 a40 a01 a11 a21 a31 a41 a02 a12 a22 a32 a42 a03 a13 a23 a33 a43 a04
      a14 a24 a34 a44) =
     KArgs a00 a24 a43 a12 a31 a34 a03 a22 a41 a10 a13 a32 a01 a20 a44 a42 a11 a30 a04 a23 a21
      a40 a14 a33 a02"

primrec P10_set :: "kargs \<Rightarrow> kvars" where
  "P10_set
     (KArgs a00 a24 a43 a12 a31 a34 a03 a22 a41 a10 a13 a32 a01 a20 a44 a42 a11 a30 a04 a23 a21
      a40 a14 a33 a02) =
     KVars a00 a10 a20 a30 a40 a01 a11 a21 a31 a41 a02 a12 a22 a32 a42 a03 a13 a23 a33 a43 a04
      a14 a24 a34 a44"

primrec P11 :: "kvars \<Rightarrow> kargs" where
  "P11
     (KVars a00 a10 a20 a30 a40 a01 a11 a21 a31 a41 a02 a12 a22 a32 a42 a03 a13 a23 a33 a43 a04
      a14 a24 a34 a44) =
     KArgs a00 a42 a34 a21 a13 a03 a40 a32 a24 a11 a01 a43 a30 a22 a14 a04 a41 a33 a20 a12 a02
      a44 a31 a23 a10"

primrec P11_set :: "kargs \<Rightarrow> kvars" where
  "P11_set
     (KArgs a00 a42 a34 a21 a13 a03 a40 a32 a24 a11 a01 a43 a30 a22 a14 a04 a41 a33 a20 a12 a02
      a44 a31 a23 a10) =
     KVars a00 a10 a20 a30 a40 a01 a11 a21 a31 a41 a02 a12 a22 a32 a42 a03 a13 a23 a33 a43 a04
      a14 a24 a34 a44"

primrec P12 :: "kvars \<Rightarrow> kargs" where
  "P12
     (KVars a00 a10 a20 a30 a40 a01 a11 a21 a31 a41 a02 a12 a22 a32 a42 a03 a13 a23 a33 a43 a04
      a14 a24 a34 a44) =
     KArgs a00 a04 a03 a02 a01 a40 a44 a43 a42 a41 a30 a34 a33 a32 a31 a20 a24 a23 a22 a21 a10
      a14 a13 a12 a11"

primrec P12_set :: "kargs \<Rightarrow> kvars" where
  "P12_set
     (KArgs a00 a04 a03 a02 a01 a40 a44 a43 a42 a41 a30 a34 a33 a32 a31 a20 a24 a23 a22 a21 a10
      a14 a13 a12 a11) =
     KVars a00 a10 a20 a30 a40 a01 a11 a21 a31 a41 a02 a12 a22 a32 a42 a03 a13 a23 a33 a43 a04
      a14 a24 a34 a44"

primrec P13 :: "kvars \<Rightarrow> kargs" where
  "P13
     (KVars a00 a10 a20 a30 a40 a01 a11 a21 a31 a41 a02 a12 a22 a32 a42 a03 a13 a23 a33 a43 a04
      a14 a24 a34 a44) =
     KArgs a00 a20 a40 a10 a30 a44 a14 a34 a04 a24 a33 a03 a23 a43 a13 a22 a42 a12 a32 a02 a11
      a31 a01 a21 a41"

primrec P13_set :: "kargs \<Rightarrow> kvars" where
  "P13_set
     (KArgs a00 a20 a40 a10 a30 a44 a14 a34 a04 a24 a33 a03 a23 a43 a13 a22 a42 a12 a32 a02 a11
      a31 a01 a21 a41) =
     KVars a00 a10 a20 a30 a40 a01 a11 a21 a31 a41 a02 a12 a22 a32 a42 a03 a13 a23 a33 a43 a04
      a14 a24 a34 a44"

primrec P14 :: "kvars \<Rightarrow> kargs" where
  "P14
     (KVars a00 a10 a20 a30 a40 a01 a11 a21 a31 a41 a02 a12 a22 a32 a42 a03 a13 a23 a33 a43 a04
      a14 a24 a34 a44) =
     KArgs a00 a22 a44 a11 a33 a14 a31 a03 a20 a42 a23 a40 a12 a34 a01 a32 a04 a21 a43 a10 a41
      a13 a30 a02 a24"

primrec P14_set :: "kargs \<Rightarrow> kvars" where
  "P14_set
     (KArgs a00 a22 a44 a11 a33 a14 a31 a03 a20 a42 a23 a40 a12 a34 a01 a32 a04 a21 a43 a10 a41
      a13 a30 a02 a24) =
     KVars a00 a10 a20 a30 a40 a01 a11 a21 a31 a41 a02 a12 a22 a32 a42 a03 a13 a23 a33 a43 a04
      a14 a24 a34 a44"

primrec P15 :: "kvars \<Rightarrow> kargs" where
  "P15
     (KVars a00 a10 a20 a30 a40 a01 a11 a21 a31 a41 a02 a12 a22 a32 a42 a03 a13 a23 a33 a43 a04
      a14 a24 a34 a44) =
     KArgs a00 a32 a14 a41 a23 a31 a13 a40 a22 a04 a12 a44 a21 a03 a30 a43 a20 a02 a34 a11 a24
      a01 a33 a10 a42"

primrec P15_set :: "kargs \<Rightarrow> kvars" where
  "P15_set
     (KArgs a00 a32 a14 a41 a23 a31 a13 a40 a22 a04 a12 a44 a21 a03 a30 a43 a20 a02 a34 a11 a24
      a01 a33 a10 a42) =
     KVars a00 a10 a20 a30 a40 a01 a11 a21 a31 a41 a02 a12 a22 a32 a42 a03 a13 a23 a33 a43 a04
      a14 a24 a34 a44"

primrec P16 :: "kvars \<Rightarrow> kargs" where
  "P16
     (KVars a00 a10 a20 a30 a40 a01 a11 a21 a31 a41 a02 a12 a22 a32 a42 a03 a13 a23 a33 a43 a04
      a14 a24 a34 a44) =
     KArgs a00 a43 a31 a24 a12 a13 a01 a44 a32 a20 a21 a14 a02 a40 a33 a34 a22 a10 a03 a41 a42
      a30 a23 a11 a04"

primrec P16_set :: "kargs \<Rightarrow> kvars" where
  "P16_set
     (KArgs a00 a43 a31 a24 a12 a13 a01 a44 a32 a20 a21 a14 a02 a40 a33 a34 a22 a10 a03 a41 a42
      a30 a23 a11 a04) =
     KVars a00 a10 a20 a30 a40 a01 a11 a21 a31 a41 a02 a12 a22 a32 a42 a03 a13 a23 a33 a43 a04
      a14 a24 a34 a44"

primrec P17 :: "kvars \<Rightarrow> kargs" where
  "P17
     (KVars a00 a10 a20 a30 a40 a01 a11 a21 a31 a41 a02 a12 a22 a32 a42 a03 a13 a23 a33 a43 a04
      a14 a24 a34 a44) =
     KArgs a00 a34 a13 a42 a21 a01 a30 a14 a43 a22 a02 a31 a10 a44 a23 a03 a32 a11 a40 a24 a04
      a33 a12 a41 a20"

primrec P17_set :: "kargs \<Rightarrow> kvars" where
  "P17_set
     (KArgs a00 a34 a13 a42 a21 a01 a30 a14 a43 a22 a02 a31 a10 a44 a23 a03 a32 a11 a40 a24 a04
      a33 a12 a41 a20) =
     KVars a00 a10 a20 a30 a40 a01 a11 a21 a31 a41 a02 a12 a22 a32 a42 a03 a13 a23 a33 a43 a04
      a14 a24 a34 a44"

primrec P18 :: "kvars \<Rightarrow> kargs" where
  "P18
     (KVars a00 a10 a20 a30 a40 a01 a11 a21 a31 a41 a02 a12 a22 a32 a42 a03 a13 a23 a33 a43 a04
      a14 a24 a34 a44) =
     KArgs a00 a03 a01 a04 a02 a30 a33 a31 a34 a32 a10 a13 a11 a14 a12 a40 a43 a41 a44 a42 a20
      a23 a21 a24 a22"

primrec P18_set :: "kargs \<Rightarrow> kvars" where
  "P18_set
     (KArgs a00 a03 a01 a04 a02 a30 a33 a31 a34 a32 a10 a13 a11 a14 a12 a40 a43 a41 a44 a42 a20
      a23 a21 a24 a22) =
     KVars a00 a10 a20 a30 a40 a01 a11 a21 a31 a41 a02 a12 a22 a32 a42 a03 a13 a23 a33 a43 a04
      a14 a24 a34 a44"

primrec P19 :: "kvars \<Rightarrow> kargs" where
  "P19
     (KVars a00 a10 a20 a30 a40 a01 a11 a21 a31 a41 a02 a12 a22 a32 a42 a03 a13 a23 a33 a43 a04
      a14 a24 a34 a44) =
     KArgs a00 a40 a30 a20 a10 a33 a23 a13 a03 a43 a11 a01 a41 a31 a21 a44 a34 a24 a14 a04 a22
      a12 a02 a42 a32"

primrec P19_set :: "kargs \<Rightarrow> kvars" where
  "P19_set
     (KArgs a00 a40 a30 a20 a10 a33 a23 a13 a03 a43 a11 a01 a41 a31 a21 a44 a34 a24 a14 a04 a22
      a12 a02 a42 a32) =
     KVars a00 a10 a20 a30 a40 a01 a11 a21 a31 a41 a02 a12 a22 a32 a42 a03 a13 a23 a33 a43 a04
      a14 a24 a34 a44"

primrec P20 :: "kvars \<Rightarrow> kargs" where
  "P20
     (KVars a00 a10 a20 a30 a40 a01 a11 a21 a31 a41 a02 a12 a22 a32 a42 a03 a13 a23 a33 a43 a04
      a14 a24 a34 a44) =
     KArgs a00 a44 a33 a22 a11 a23 a12 a01 a40 a34 a41 a30 a24 a13 a02 a14 a03 a42 a31 a20 a32
      a21 a10 a04 a43"

primrec P20_set :: "kargs \<Rightarrow> kvars" where
  "P20_set
     (KArgs a00 a44 a33 a22 a11 a23 a12 a01 a40 a34 a41 a30 a24 a13 a02 a14 a03 a42 a31 a20 a32
      a21 a10 a04 a43) =
     KVars a00 a10 a20 a30 a40 a01 a11 a21 a31 a41 a02 a12 a22 a32 a42 a03 a13 a23 a33 a43 a04
      a14 a24 a34 a44"

primrec P21 :: "kvars \<Rightarrow> kargs" where
  "P21
     (KVars a00 a10 a20 a30 a40 a01 a11 a21 a31 a41 a02 a12 a22 a32 a42 a03 a13 a23 a33 a43 a04
      a14 a24 a34 a44) =
     KArgs a00 a14 a23 a32 a41 a12 a21 a30 a44 a03 a24 a33 a42 a01 a10 a31 a40 a04 a13 a22 a43
      a02 a11 a20 a34"

primrec P21_set :: "kargs \<Rightarrow> kvars" where
  "P21_set
     (KArgs a00 a14 a23 a32 a41 a12 a21 a30 a44 a03 a24 a33 a42 a01 a10 a31 a40 a04 a13 a22 a43
      a02 a11 a20 a34) =
     KVars a00 a10 a20 a30 a40 a01 a11 a21 a31 a41 a02 a12 a22 a32 a42 a03 a13 a23 a33 a43 a04
      a14 a24 a34 a44"

primrec P22 :: "kvars \<Rightarrow> kargs" where
  "P22
     (KVars a00 a10 a20 a30 a40 a01 a11 a21 a31 a41 a02 a12 a22 a32 a42 a03 a13 a23 a33 a43 a04
      a14 a24 a34 a44) =
     KArgs a00 a31 a12 a43 a24 a21 a02 a33 a14 a40 a42 a23 a04 a30 a11 a13 a44 a20 a01 a32 a34
      a10 a41 a22 a03"

primrec P22_set :: "kargs \<Rightarrow> kvars" where
  "P22_set
     (KArgs a00 a31 a12 a43 a24 a21 a02 a33 a14 a40 a42 a23 a04 a30 a11 a13 a44 a20 a01 a32 a34
      a10 a41 a22 a03) =
     KVars a00 a10 a20 a30 a40 a01 a11 a21 a31 a41 a02 a12 a22 a32 a42 a03 a13 a23 a33 a43 a04
      a14 a24 a34 a44"

primrec P23 :: "kvars \<Rightarrow> kargs" where
  "P23
     (KVars a00 a10 a20 a30 a40 a01 a11 a21 a31 a41 a02 a12 a22 a32 a42 a03 a13 a23 a33 a43 a04
      a14 a24 a34 a44) =
     KArgs a00 a13 a21 a34 a42 a02 a10 a23 a31 a44 a04 a12 a20 a33 a41 a01 a14 a22 a30 a43 a03
      a11 a24 a32 a40"

primrec P23_set :: "kargs \<Rightarrow> kvars" where
  "P23_set
     (KArgs a00 a13 a21 a34 a42 a02 a10 a23 a31 a44 a04 a12 a20 a33 a41 a01 a14 a22 a30 a43 a03
      a11 a24 a32 a40) =
     KVars a00 a10 a20 a30 a40 a01 a11 a21 a31 a41 a02 a12 a22 a32 a42 a03 a13 a23 a33 a43 a04
      a14 a24 a34 a44"

primrec P1_TO_P0 :: "kvars \<Rightarrow> kvars" where
  "P1_TO_P0
     (KVars a00 a10 a20 a30 a40 a01 a11 a21 a31 a41 a02 a12 a22 a32 a42 a03 a13 a23 a33 a43 a04
      a14 a24 a34 a44) =
   (let
    t = a01; a01 = a30; a30 = a33; a33 = a23; a23 = a12; a12 = a21; a21 = a02; a02 = a10;
    a10 = a11; a11 = a41; a41 = a24; a24 = a42; a42 = a04; a04 = a20; a20 = a22; a22 = a32;
    a32 = a43; a43 = a34; a34 = a03; a03 = a40; a40 = a44; a44 = a14; a14 = a31; a31 = a13;
    a13 = t
    in KVars a00 a10 a20 a30 a40 a01 a11 a21 a31 a41 a02 a12 a22 a32 a42 a03 a13 a23 a33 a43 a04
      a14 a24 a34 a44)"

primrec P2_TO_P0 :: "kvars \<Rightarrow> kvars" where
  "P2_TO_P0
     (KVars a00 a10 a20 a30 a40 a01 a11 a21 a31 a41 a02 a12 a22 a32 a42 a03 a13 a23 a33 a43 a04
      a14 a24 a34 a44) =
   (let
    t = a01; a01 = a33; a33 = a12; a12 = a02; a02 = a11; a11 = a24; a24 = a04; a04 = a22;
    a22 = a43; a43 = a03; a03 = a44; a44 = a31; a31 = t; t = a10; a10 = a41; a41 = a42;
    a42 = a20; a20 = a32; a32 = a34; a34 = a40; a40 = a14; a14 = a13; a13 = a30; a30 = a23;
    a23 = a21; a21 = t
    in KVars a00 a10 a20 a30 a40 a01 a11 a21 a31 a41 a02 a12 a22 a32 a42 a03 a13 a23 a33 a43 a04
      a14 a24 a34 a44)"

primrec P4_TO_P0 :: "kvars \<Rightarrow> kvars" where
  "P4_TO_P0
     (KVars a00 a10 a20 a30 a40 a01 a11 a21 a31 a41 a02 a12 a22 a32 a42 a03 a13 a23 a33 a43 a04
      a14 a24 a34 a44) =
   (let
    t = a01; a01 = a12; a12 = a11; a11 = a04; a04 = a43; a43 = a44; a44 = t; t = a02; a02 = a24;
    a24 = a22; a22 = a03; a03 = a31; a31 = a33; a33 = t; t = a10; a10 = a42; a42 = a32;
    a32 = a40; a40 = a13; a13 = a23; a23 = t; t = a14; a14 = a30; a30 = a21; a21 = a41;
    a41 = a20; a20 = a34; a34 = t
    in KVars a00 a10 a20 a30 a40 a01 a11 a21 a31 a41 a02 a12 a22 a32 a42 a03 a13 a23 a33 a43 a04
      a14 a24 a34 a44)"

primrec P6_TO_P0 :: "kvars \<Rightarrow> kvars" where
  "P6_TO_P0
     (KVars a00 a10 a20 a30 a40 a01 a11 a21 a31 a41 a02 a12 a22 a32 a42 a03 a13 a23 a33 a43 a04
      a14 a24 a34 a44) =
   (let
    t = a01; a01 = a02; a02 = a04; a04 = a03; a03 = t; t = a10; a10 = a20; a20 = a40; a40 = a30;
    a30 = t; t = a11; a11 = a22; a22 = a44; a44 = a33; a33 = t; t = a12; a12 = a24; a24 = a43;
    a43 = a31; a31 = t; t = a13; a13 = a21; a21 = a42; a42 = a34; a34 = t; t = a14; a14 = a23;
    a23 = a41; a41 = a32; a32 = t
    in KVars a00 a10 a20 a30 a40 a01 a11 a21 a31 a41 a02 a12 a22 a32 a42 a03 a13 a23 a33 a43 a04
      a14 a24 a34 a44)"

primrec P8_TO_P0 :: "kvars \<Rightarrow> kvars" where
  "P8_TO_P0
     (KVars a00 a10 a20 a30 a40 a01 a11 a21 a31 a41 a02 a12 a22 a32 a42 a03 a13 a23 a33 a43 a04
      a14 a24 a34 a44) =
   (let
    t = a01; a01 = a11; a11 = a43; a43 = t; t = a02; a02 = a22; a22 = a31; a31 = t; t = a03;
    a03 = a33; a33 = a24; a24 = t; t = a04; a04 = a44; a44 = a12; a12 = t; t = a10; a10 = a32;
    a32 = a13; a13 = t; t = a14; a14 = a21; a21 = a20; a20 = t; t = a23; a23 = a42; a42 = a40;
    a40 = t; t = a30; a30 = a41; a41 = a34; a34 = t
    in KVars a00 a10 a20 a30 a40 a01 a11 a21 a31 a41 a02 a12 a22 a32 a42 a03 a13 a23 a33 a43 a04
      a14 a24 a34 a44)"

primrec P12_TO_P0 :: "kvars \<Rightarrow> kvars" where
  "P12_TO_P0
     (KVars a00 a10 a20 a30 a40 a01 a11 a21 a31 a41 a02 a12 a22 a32 a42 a03 a13 a23 a33 a43 a04
      a14 a24 a34 a44) =
   (let
    t = a01; a01 = a04; a04 = t; t = a02; a02 = a03; a03 = t; t = a10; a10 = a40; a40 = t;
    t = a11; a11 = a44; a44 = t; t = a12; a12 = a43; a43 = t; t = a13; a13 = a42; a42 = t;
    t = a14; a14 = a41; a41 = t; t = a20; a20 = a30; a30 = t; t = a21; a21 = a34; a34 = t;
    t = a22; a22 = a33; a33 = t; t = a23; a23 = a32; a32 = t; t = a24; a24 = a31; a31 = t
    in KVars a00 a10 a20 a30 a40 a01 a11 a21 a31 a41 a02 a12 a22 a32 a42 a03 a13 a23 a33 a43 a04
      a14 a24 a34 a44)"

section \<open>Rounds and the unrolling variants\<close>

text \<open>
  \<open>KF_ELT(r, s, k)\<close>, with the two argument lists as parameters: \<open>get_r\<close> and \<open>set_r\<close> stand for
  \<open>P ## r\<close>, \<open>get_s\<close> and \<open>set_s\<close> for \<open>P ## s\<close>.
\<close>

definition KF_ELT ::
  "(kvars \<Rightarrow> kargs) \<Rightarrow> (kargs \<Rightarrow> kvars) \<Rightarrow> (kvars \<Rightarrow> kargs) \<Rightarrow> (kargs \<Rightarrow> kvars) \<Rightarrow>
   u64 \<Rightarrow> kvars \<Rightarrow> kvars"
where
  "KF_ELT get_r set_r get_s set_s k v =
     (let
        v = set_r (THETA (get_r v));
        v = set_r (RHO (get_r v));
        v = set_s (KHI (get_s v))
      in KF_IOTA k v)"

definition KECCAK_F_1600_unroll1 :: "kvars \<Rightarrow> kvars" where
  "KECCAK_F_1600_unroll1 v =
     fold (\<lambda>j v.
       let
         v = KF_ELT P0 P0_set P1 P1_set (RC ! (j + 0)) v
       in P1_TO_P0 v) [0, 1, 2, 3, 4, 5, 6, 7, 8, 9, 10, 11, 12, 13, 14, 15, 16, 17, 18, 19, 20, 21, 22, 23] v"

definition KECCAK_F_1600_unroll2 :: "kvars \<Rightarrow> kvars" where
  "KECCAK_F_1600_unroll2 v =
     fold (\<lambda>j v.
       let
         v = KF_ELT P0 P0_set P1 P1_set (RC ! (j + 0)) v;
         v = KF_ELT P1 P1_set P2 P2_set (RC ! (j + 1)) v
       in P2_TO_P0 v) [0, 2, 4, 6, 8, 10, 12, 14, 16, 18, 20, 22] v"

definition KECCAK_F_1600_unroll4 :: "kvars \<Rightarrow> kvars" where
  "KECCAK_F_1600_unroll4 v =
     fold (\<lambda>j v.
       let
         v = KF_ELT P0 P0_set P1 P1_set (RC ! (j + 0)) v;
         v = KF_ELT P1 P1_set P2 P2_set (RC ! (j + 1)) v;
         v = KF_ELT P2 P2_set P3 P3_set (RC ! (j + 2)) v;
         v = KF_ELT P3 P3_set P4 P4_set (RC ! (j + 3)) v
       in P4_TO_P0 v) [0, 4, 8, 12, 16, 20] v"

definition KECCAK_F_1600_unroll6 :: "kvars \<Rightarrow> kvars" where
  "KECCAK_F_1600_unroll6 v =
     fold (\<lambda>j v.
       let
         v = KF_ELT P0 P0_set P1 P1_set (RC ! (j + 0)) v;
         v = KF_ELT P1 P1_set P2 P2_set (RC ! (j + 1)) v;
         v = KF_ELT P2 P2_set P3 P3_set (RC ! (j + 2)) v;
         v = KF_ELT P3 P3_set P4 P4_set (RC ! (j + 3)) v;
         v = KF_ELT P4 P4_set P5 P5_set (RC ! (j + 4)) v;
         v = KF_ELT P5 P5_set P6 P6_set (RC ! (j + 5)) v
       in P6_TO_P0 v) [0, 6, 12, 18] v"

definition KECCAK_F_1600_unroll8 :: "kvars \<Rightarrow> kvars" where
  "KECCAK_F_1600_unroll8 v =
     fold (\<lambda>j v.
       let
         v = KF_ELT P0 P0_set P1 P1_set (RC ! (j + 0)) v;
         v = KF_ELT P1 P1_set P2 P2_set (RC ! (j + 1)) v;
         v = KF_ELT P2 P2_set P3 P3_set (RC ! (j + 2)) v;
         v = KF_ELT P3 P3_set P4 P4_set (RC ! (j + 3)) v;
         v = KF_ELT P4 P4_set P5 P5_set (RC ! (j + 4)) v;
         v = KF_ELT P5 P5_set P6 P6_set (RC ! (j + 5)) v;
         v = KF_ELT P6 P6_set P7 P7_set (RC ! (j + 6)) v;
         v = KF_ELT P7 P7_set P8 P8_set (RC ! (j + 7)) v
       in P8_TO_P0 v) [0, 8, 16] v"

definition KECCAK_F_1600_unroll12 :: "kvars \<Rightarrow> kvars" where
  "KECCAK_F_1600_unroll12 v =
     fold (\<lambda>j v.
       let
         v = KF_ELT P0 P0_set P1 P1_set (RC ! (j + 0)) v;
         v = KF_ELT P1 P1_set P2 P2_set (RC ! (j + 1)) v;
         v = KF_ELT P2 P2_set P3 P3_set (RC ! (j + 2)) v;
         v = KF_ELT P3 P3_set P4 P4_set (RC ! (j + 3)) v;
         v = KF_ELT P4 P4_set P5 P5_set (RC ! (j + 4)) v;
         v = KF_ELT P5 P5_set P6 P6_set (RC ! (j + 5)) v;
         v = KF_ELT P6 P6_set P7 P7_set (RC ! (j + 6)) v;
         v = KF_ELT P7 P7_set P8 P8_set (RC ! (j + 7)) v;
         v = KF_ELT P8 P8_set P9 P9_set (RC ! (j + 8)) v;
         v = KF_ELT P9 P9_set P10 P10_set (RC ! (j + 9)) v;
         v = KF_ELT P10 P10_set P11 P11_set (RC ! (j + 10)) v;
         v = KF_ELT P11 P11_set P12 P12_set (RC ! (j + 11)) v
       in P12_TO_P0 v) [0, 12] v"

definition KECCAK_F_1600_unroll0 :: "kvars \<Rightarrow> kvars" where
  "KECCAK_F_1600_unroll0 v =
     (let
       v = KF_ELT P0 P0_set P1 P1_set (RC ! 0) v; v = KF_ELT P1 P1_set P2 P2_set (RC ! 1) v;
       v = KF_ELT P2 P2_set P3 P3_set (RC ! 2) v; v = KF_ELT P3 P3_set P4 P4_set (RC ! 3) v;
       v = KF_ELT P4 P4_set P5 P5_set (RC ! 4) v; v = KF_ELT P5 P5_set P6 P6_set (RC ! 5) v;
       v = KF_ELT P6 P6_set P7 P7_set (RC ! 6) v; v = KF_ELT P7 P7_set P8 P8_set (RC ! 7) v;
       v = KF_ELT P8 P8_set P9 P9_set (RC ! 8) v; v = KF_ELT P9 P9_set P10 P10_set (RC ! 9) v;
       v = KF_ELT P10 P10_set P11 P11_set (RC ! 10) v;
       v = KF_ELT P11 P11_set P12 P12_set (RC ! 11) v;
       v = KF_ELT P12 P12_set P13 P13_set (RC ! 12) v;
       v = KF_ELT P13 P13_set P14 P14_set (RC ! 13) v;
       v = KF_ELT P14 P14_set P15 P15_set (RC ! 14) v;
       v = KF_ELT P15 P15_set P16 P16_set (RC ! 15) v;
       v = KF_ELT P16 P16_set P17 P17_set (RC ! 16) v;
       v = KF_ELT P17 P17_set P18 P18_set (RC ! 17) v;
       v = KF_ELT P18 P18_set P19 P19_set (RC ! 18) v;
       v = KF_ELT P19 P19_set P20 P20_set (RC ! 19) v;
       v = KF_ELT P20 P20_set P21 P21_set (RC ! 20) v;
       v = KF_ELT P21 P21_set P22 P22_set (RC ! 21) v;
       v = KF_ELT P22 P22_set P23 P23_set (RC ! 22) v;
       v = KF_ELT P23 P23_set P0 P0_set (RC ! 23) v
      in v)"

section \<open>Rounds on argument lists\<close>

text \<open>Between two consecutive argument lists lies the lane permutation of Keccak.\<close>

primrec keccak_pi :: "kargs \<Rightarrow> kargs" where
  "keccak_pi
     (KArgs b00 b01 b02 b03 b04 b10 b11 b12 b13 b14 b20 b21 b22 b23 b24 b30 b31 b32 b33 b34 b40
      b41 b42 b43 b44) =
     KArgs b00 b30 b10 b40 b20 b11 b41 b21 b01 b31 b22 b02 b32 b12 b42 b33 b13 b43 b23 b03 b44
      b24 b04 b34 b14"

primrec iota_args :: "u64 \<Rightarrow> kargs \<Rightarrow> kargs" where
  "iota_args k
     (KArgs b00 b01 b02 b03 b04 b10 b11 b12 b13 b14 b20 b21 b22 b23 b24 b30 b31 b32 b33 b34 b40
      b41 b42 b43 b44) =
     KArgs (b00 XOR k) b01 b02 b03 b04 b10 b11 b12 b13 b14 b20 b21 b22 b23 b24 b30 b31 b32 b33
      b34 b40 b41 b42 b43 b44"

definition round_args :: "u64 \<Rightarrow> kargs \<Rightarrow> kargs" where
  "round_args k b = iota_args k (KHI (keccak_pi (RHO (THETA b))))"

lemma P_set [simp]:
  "P0 (P0_set b) = b"
  "P1 (P1_set b) = b"
  "P2 (P2_set b) = b"
  "P3 (P3_set b) = b"
  "P4 (P4_set b) = b"
  "P5 (P5_set b) = b"
  "P6 (P6_set b) = b"
  "P7 (P7_set b) = b"
  "P8 (P8_set b) = b"
  "P9 (P9_set b) = b"
  "P10 (P10_set b) = b"
  "P11 (P11_set b) = b"
  "P12 (P12_set b) = b"
  "P13 (P13_set b) = b"
  "P14 (P14_set b) = b"
  "P15 (P15_set b) = b"
  "P16 (P16_set b) = b"
  "P17 (P17_set b) = b"
  "P18 (P18_set b) = b"
  "P19 (P19_set b) = b"
  "P20 (P20_set b) = b"
  "P21 (P21_set b) = b"
  "P22 (P22_set b) = b"
  "P23 (P23_set b) = b"
  by (cases b; simp)+

lemma P_next:
  "P1 (P0_set b) = keccak_pi b"
  "P2 (P1_set b) = keccak_pi b"
  "P3 (P2_set b) = keccak_pi b"
  "P4 (P3_set b) = keccak_pi b"
  "P5 (P4_set b) = keccak_pi b"
  "P6 (P5_set b) = keccak_pi b"
  "P7 (P6_set b) = keccak_pi b"
  "P8 (P7_set b) = keccak_pi b"
  "P9 (P8_set b) = keccak_pi b"
  "P10 (P9_set b) = keccak_pi b"
  "P11 (P10_set b) = keccak_pi b"
  "P12 (P11_set b) = keccak_pi b"
  "P13 (P12_set b) = keccak_pi b"
  "P14 (P13_set b) = keccak_pi b"
  "P15 (P14_set b) = keccak_pi b"
  "P16 (P15_set b) = keccak_pi b"
  "P17 (P16_set b) = keccak_pi b"
  "P18 (P17_set b) = keccak_pi b"
  "P19 (P18_set b) = keccak_pi b"
  "P20 (P19_set b) = keccak_pi b"
  "P21 (P20_set b) = keccak_pi b"
  "P22 (P21_set b) = keccak_pi b"
  "P23 (P22_set b) = keccak_pi b"
  "P0 (P23_set b) = keccak_pi b"
  by (cases b; simp)+

lemma P_iota:
  "P0 (KF_IOTA k v) = iota_args k (P0 v)"
  "P1 (KF_IOTA k v) = iota_args k (P1 v)"
  "P2 (KF_IOTA k v) = iota_args k (P2 v)"
  "P3 (KF_IOTA k v) = iota_args k (P3 v)"
  "P4 (KF_IOTA k v) = iota_args k (P4 v)"
  "P5 (KF_IOTA k v) = iota_args k (P5 v)"
  "P6 (KF_IOTA k v) = iota_args k (P6 v)"
  "P7 (KF_IOTA k v) = iota_args k (P7 v)"
  "P8 (KF_IOTA k v) = iota_args k (P8 v)"
  "P9 (KF_IOTA k v) = iota_args k (P9 v)"
  "P10 (KF_IOTA k v) = iota_args k (P10 v)"
  "P11 (KF_IOTA k v) = iota_args k (P11 v)"
  "P12 (KF_IOTA k v) = iota_args k (P12 v)"
  "P13 (KF_IOTA k v) = iota_args k (P13 v)"
  "P14 (KF_IOTA k v) = iota_args k (P14 v)"
  "P15 (KF_IOTA k v) = iota_args k (P15 v)"
  "P16 (KF_IOTA k v) = iota_args k (P16 v)"
  "P17 (KF_IOTA k v) = iota_args k (P17 v)"
  "P18 (KF_IOTA k v) = iota_args k (P18 v)"
  "P19 (KF_IOTA k v) = iota_args k (P19 v)"
  "P20 (KF_IOTA k v) = iota_args k (P20 v)"
  "P21 (KF_IOTA k v) = iota_args k (P21 v)"
  "P22 (KF_IOTA k v) = iota_args k (P22 v)"
  "P23 (KF_IOTA k v) = iota_args k (P23 v)"
  by (cases v; simp)+

lemma KF_ELT_args:
  assumes "\<And>b. get_r (set_r b) = b" "\<And>b. get_s (set_s b) = b"
    and "\<And>b. get_s (set_r b) = keccak_pi b" "\<And>v. get_s (KF_IOTA k v) = iota_args k (get_s v)"
  shows "get_s (KF_ELT get_r set_r get_s set_s k v) = round_args k (get_r v)"
  using assms by (simp add: KF_ELT_def Let_def round_args_def)

lemma KF_ELT_round:
  "P1 (KF_ELT P0 P0_set P1 P1_set k v) = round_args k (P0 v)"
  "P2 (KF_ELT P1 P1_set P2 P2_set k v) = round_args k (P1 v)"
  "P3 (KF_ELT P2 P2_set P3 P3_set k v) = round_args k (P2 v)"
  "P4 (KF_ELT P3 P3_set P4 P4_set k v) = round_args k (P3 v)"
  "P5 (KF_ELT P4 P4_set P5 P5_set k v) = round_args k (P4 v)"
  "P6 (KF_ELT P5 P5_set P6 P6_set k v) = round_args k (P5 v)"
  "P7 (KF_ELT P6 P6_set P7 P7_set k v) = round_args k (P6 v)"
  "P8 (KF_ELT P7 P7_set P8 P8_set k v) = round_args k (P7 v)"
  "P9 (KF_ELT P8 P8_set P9 P9_set k v) = round_args k (P8 v)"
  "P10 (KF_ELT P9 P9_set P10 P10_set k v) = round_args k (P9 v)"
  "P11 (KF_ELT P10 P10_set P11 P11_set k v) = round_args k (P10 v)"
  "P12 (KF_ELT P11 P11_set P12 P12_set k v) = round_args k (P11 v)"
  "P13 (KF_ELT P12 P12_set P13 P13_set k v) = round_args k (P12 v)"
  "P14 (KF_ELT P13 P13_set P14 P14_set k v) = round_args k (P13 v)"
  "P15 (KF_ELT P14 P14_set P15 P15_set k v) = round_args k (P14 v)"
  "P16 (KF_ELT P15 P15_set P16 P16_set k v) = round_args k (P15 v)"
  "P17 (KF_ELT P16 P16_set P17 P17_set k v) = round_args k (P16 v)"
  "P18 (KF_ELT P17 P17_set P18 P18_set k v) = round_args k (P17 v)"
  "P19 (KF_ELT P18 P18_set P19 P19_set k v) = round_args k (P18 v)"
  "P20 (KF_ELT P19 P19_set P20 P20_set k v) = round_args k (P19 v)"
  "P21 (KF_ELT P20 P20_set P21 P21_set k v) = round_args k (P20 v)"
  "P22 (KF_ELT P21 P21_set P22 P22_set k v) = round_args k (P21 v)"
  "P23 (KF_ELT P22 P22_set P23 P23_set k v) = round_args k (P22 v)"
  "P0 (KF_ELT P23 P23_set P0 P0_set k v) = round_args k (P23 v)"
  by (simp_all add: KF_ELT_args P_next P_iota)

lemma Pk_TO_P0:
  "P0 (P1_TO_P0 v) = P1 v"
  "P0 (P2_TO_P0 v) = P2 v"
  "P0 (P4_TO_P0 v) = P4 v"
  "P0 (P6_TO_P0 v) = P6 v"
  "P0 (P8_TO_P0 v) = P8 v"
  "P0 (P12_TO_P0 v) = P12 v"
  by (cases v; simp)+

lemma KECCAK_F_variants:
  "P0 (KECCAK_F_1600_unroll0 v) = fold round_args RC (P0 v)"
  "P0 (KECCAK_F_1600_unroll1 v) = fold round_args RC (P0 v)"
  "P0 (KECCAK_F_1600_unroll2 v) = fold round_args RC (P0 v)"
  "P0 (KECCAK_F_1600_unroll4 v) = fold round_args RC (P0 v)"
  "P0 (KECCAK_F_1600_unroll6 v) = fold round_args RC (P0 v)"
  "P0 (KECCAK_F_1600_unroll8 v) = fold round_args RC (P0 v)"
  "P0 (KECCAK_F_1600_unroll12 v) = fold round_args RC (P0 v)"
  by (simp_all add: KECCAK_F_1600_unroll0_def KECCAK_F_1600_unroll1_def KECCAK_F_1600_unroll2_def
      KECCAK_F_1600_unroll4_def KECCAK_F_1600_unroll6_def KECCAK_F_1600_unroll8_def
      KECCAK_F_1600_unroll12_def Let_def KF_ELT_round Pk_TO_P0 RC_def)

section \<open>The lane complement\<close>

text \<open>
  The comment of the source: on input to \<open>KHI\<close> the lanes 00 01 02 04 13 20 21 22 30 33 34 43 are
  complemented, on output the lanes 04 10 20 22 23 31. The plain nonlinear step is \<open>keccak_chi\<close>.
\<close>

primrec mask_in :: "kargs \<Rightarrow> kargs" where
  "mask_in
     (KArgs b00 b01 b02 b03 b04 b10 b11 b12 b13 b14 b20 b21 b22 b23 b24 b30 b31 b32 b33 b34 b40
      b41 b42 b43 b44) =
     KArgs (NOT b00) (NOT b01) (NOT b02) b03 (NOT b04) b10 b11 b12 (NOT b13) b14 (NOT b20)
      (NOT b21) (NOT b22) b23 b24 (NOT b30) b31 b32 (NOT b33) (NOT b34) b40 b41 b42 (NOT b43) b44"

primrec mask_out :: "kargs \<Rightarrow> kargs" where
  "mask_out
     (KArgs b00 b01 b02 b03 b04 b10 b11 b12 b13 b14 b20 b21 b22 b23 b24 b30 b31 b32 b33 b34 b40
      b41 b42 b43 b44) =
     KArgs b00 b01 b02 b03 (NOT b04) (NOT b10) b11 b12 b13 b14 (NOT b20) b21 (NOT b22) (NOT b23)
      b24 b30 (NOT b31) b32 b33 b34 b40 b41 b42 b43 b44"

primrec keccak_chi :: "kargs \<Rightarrow> kargs" where
  "keccak_chi
     (KArgs b00 b01 b02 b03 b04 b10 b11 b12 b13 b14 b20 b21 b22 b23 b24 b30 b31 b32 b33 b34 b40
      b41 b42 b43 b44) =
     KArgs (b00 XOR (NOT b10 AND b20)) (b01 XOR (NOT b11 AND b21)) (b02 XOR (NOT b12 AND b22))
      (b03 XOR (NOT b13 AND b23)) (b04 XOR (NOT b14 AND b24)) (b10 XOR (NOT b20 AND b30))
      (b11 XOR (NOT b21 AND b31)) (b12 XOR (NOT b22 AND b32)) (b13 XOR (NOT b23 AND b33))
      (b14 XOR (NOT b24 AND b34)) (b20 XOR (NOT b30 AND b40)) (b21 XOR (NOT b31 AND b41))
      (b22 XOR (NOT b32 AND b42)) (b23 XOR (NOT b33 AND b43)) (b24 XOR (NOT b34 AND b44))
      (b30 XOR (NOT b40 AND b00)) (b31 XOR (NOT b41 AND b01)) (b32 XOR (NOT b42 AND b02))
      (b33 XOR (NOT b43 AND b03)) (b34 XOR (NOT b44 AND b04)) (b40 XOR (NOT b00 AND b10))
      (b41 XOR (NOT b01 AND b11)) (b42 XOR (NOT b02 AND b12)) (b43 XOR (NOT b03 AND b13))
      (b44 XOR (NOT b04 AND b14))"

lemma xor_NOT:
  "NOT a XOR b = NOT (a XOR (b :: 'a::len word))" "a XOR NOT b = NOT (a XOR (b :: 'a word))"
  by (rule bit_word_eqI; auto simp: bit_simps)+

lemma rotl_NOT: "word_rotl n (NOT a) = NOT (word_rotl n a)"
  by (simp add: word_rot_logs)

lemmas keccak_rot = SPH_ROTL64_eq

lemma complement_linear:
  "keccak_pi (RHO (THETA (mask_out b))) = mask_in (keccak_pi (RHO (THETA b)))"
  by (cases b) (simp add: Let_def TH_ELT_def keccak_rot xor_NOT rotl_NOT)

lemma KHI_chi: "KHI (mask_in b) = mask_out (keccak_chi b)"
  by (cases b) (simp add: Let_def KHI_XO_def KHI_XA_def; (intro conjI)?;
    rule bit_word_eqI; auto simp: bit_simps)

section \<open>The published permutation\<close>

text \<open>
  Keccak-f[1600] on the array \<open>A[x + 5 y]\<close> of 25 lanes, step by step as in the specification.
\<close>

definition theta_spec :: "u64 list \<Rightarrow> u64 list" where
  "theta_spec A =
     (let
        C = map (\<lambda>x. A ! x XOR A ! (x + 5) XOR A ! (x + 10) XOR A ! (x + 15) XOR A ! (x + 20)) [0..<5];
        D = map (\<lambda>x. C ! ((x + 4) mod 5) XOR word_rotl 1 (C ! ((x + 1) mod 5))) [0..<5]
      in map (\<lambda>i. A ! i XOR D ! (i mod 5)) [0..<25])"

definition rho_spec :: "u64 list \<Rightarrow> u64 list" where
  "rho_spec A = map2 word_rotl
     [0, 1, 62, 28, 27, 36, 44, 6, 55, 20, 3, 10, 43, 25, 39, 41, 45, 15, 21, 8, 18, 2, 61, 56, 14] A"

definition pi_spec :: "u64 list \<Rightarrow> u64 list" where
  "pi_spec A = map (\<lambda>i. let x = i mod 5; y = i div 5 in A ! ((x + 3 * y) mod 5 + 5 * x)) [0..<25]"

definition chi_spec :: "u64 list \<Rightarrow> u64 list" where
  "chi_spec A = map (\<lambda>i. let x = i mod 5; y = i div 5
     in A ! i XOR (NOT (A ! ((x + 1) mod 5 + 5 * y)) AND A ! ((x + 2) mod 5 + 5 * y))) [0..<25]"

definition keccak_round_spec :: "u64 \<Rightarrow> u64 list \<Rightarrow> u64 list" where
  "keccak_round_spec k A =
     (let A = chi_spec (pi_spec (rho_spec (theta_spec A))) in A[0 := A ! 0 XOR k])"

definition keccak_f :: "u64 list \<Rightarrow> u64 list" where
  "keccak_f A = fold keccak_round_spec RC A"

primrec args_wide :: "kargs \<Rightarrow> u64 list" where
  "args_wide
     (KArgs b00 b01 b02 b03 b04 b10 b11 b12 b13 b14 b20 b21 b22 b23 b24 b30 b31 b32 b33 b34 b40
      b41 b42 b43 b44) =
     [b00, b10, b20, b30, b40, b01, b11, b21, b31, b41, b02, b12, b22, b32, b42, b03, b13, b23,
      b33, b43, b04, b14, b24, b34, b44]"

definition round_plain :: "u64 \<Rightarrow> kargs \<Rightarrow> kargs" where
  "round_plain k b = iota_args k (keccak_chi (keccak_pi (RHO (THETA b))))"

lemma THETA_spec: "args_wide (THETA b) = theta_spec (args_wide b)"
  by (cases b) (simp add: theta_spec_def TH_ELT_def Let_def keccak_rot upt_numerals xor_ac)

lemma rotl_0: "word_rotl 0 (a :: u64) = a"
  by (rule bit_word_eqI) (simp add: bit_word_rotl_iff)

lemma RHO_spec: "args_wide (RHO b) = rho_spec (args_wide b)"
  by (cases b) (simp add: rho_spec_def Let_def keccak_rot rotl_0)

lemma pi_args_spec: "args_wide (keccak_pi b) = pi_spec (args_wide b)"
  by (cases b) (simp add: pi_spec_def Let_def upt_numerals)

lemma chi_args_spec: "args_wide (keccak_chi b) = chi_spec (args_wide b)"
  by (cases b) (simp add: chi_spec_def Let_def upt_numerals)

lemma iota_args_spec: "args_wide (iota_args k b) = (args_wide b)[0 := args_wide b ! 0 XOR k]"
  by (cases b) simp

lemma round_plain_spec: "args_wide (round_plain k b) = keccak_round_spec k (args_wide b)"
  by (simp add: round_plain_def keccak_round_spec_def iota_args_spec chi_args_spec pi_args_spec
      RHO_spec THETA_spec Let_def)

lemma round_args_mask: "round_args k (mask_out b) = mask_out (round_plain k b)"
proof -
  have "iota_args k (mask_out c) = mask_out (iota_args k c)" for c
    by (cases c) simp
  then show ?thesis
    by (simp add: round_args_def round_plain_def complement_linear KHI_chi)
qed

lemma fold_round_args_mask: "fold round_args ks (mask_out b) = mask_out (fold round_plain ks b)"
  by (induction ks arbitrary: b) (simp_all add: round_args_mask)

lemma fold_round_plain_spec:
  "args_wide (fold round_plain ks b) = fold keccak_round_spec ks (args_wide b)"
  by (induction ks arbitrary: b) (simp_all add: round_plain_spec)

text \<open>Complementing the six lanes of the state array.\<close>

definition lane_complement :: "u64 list \<Rightarrow> u64 list" where
  "lane_complement A = fold (\<lambda>i A. A[i := NOT (A ! i)]) [1, 2, 8, 12, 17, 20] A"

lemma args_wide_mask_out: "args_wide (mask_out b) = lane_complement (args_wide b)"
  by (cases b) (simp add: lane_complement_def)

lemma mask_out_mask_out: "mask_out (mask_out b) = b"
  by (cases b) simp

lemma args_wide_P0: "args_wide (P0 v) = keccak_WRITE_STATE v"
  by (cases v) simp

lemma lane_complement_P0: "lane_complement (keccak_WRITE_STATE v) = args_wide (mask_out (P0 v))"
  by (simp add: args_wide_mask_out args_wide_P0)

lemma permutation_spec:
  assumes "P0 w = fold round_args RC (P0 v)"
  shows "lane_complement (keccak_WRITE_STATE w) = keccak_f (lane_complement (keccak_WRITE_STATE v))"
proof -
  have "P0 w = mask_out (fold round_plain RC (mask_out (P0 v)))"
    using assms fold_round_args_mask [of RC "mask_out (P0 v)"] by (simp add: mask_out_mask_out)
  then show ?thesis
    by (simp add: lane_complement_P0 mask_out_mask_out fold_round_plain_spec keccak_f_def)
qed

section \<open>Init, update, close\<close>

definition keccak_init :: "keccak_context \<Rightarrow> nat \<Rightarrow> keccak_context" where
  "keccak_init kc out_size =
     kc\<lparr>kc_wide :=
          (replicate 25 0)
            [1 := 0xFFFFFFFFFFFFFFFF, 2 := 0xFFFFFFFFFFFFFFFF, 8 := 0xFFFFFFFFFFFFFFFF,
             12 := 0xFFFFFFFFFFFFFFFF, 17 := 0xFFFFFFFFFFFFFFFF, 20 := 0xFFFFFFFFFFFFFFFF],
        kc_ptr := 0, kc_lim := 200 - out_size div 4\<rparr>"

definition keccak_block :: "nat \<Rightarrow> u64 list \<Rightarrow> bytes \<Rightarrow> u64 list" where
  "keccak_block lim st buf =
     keccak_WRITE_STATE (KECCAK_F_1600_unroll8 (keccak_READ_STATE (INPUT_BUF st buf lim)))"

definition keccak_core :: "keccak_context \<Rightarrow> bytes \<Rightarrow> nat \<Rightarrow> keccak_context option" where
  "keccak_core kc data lim =
     map_option (\<lambda>(st, buf, ptr). kc\<lparr>kc_buf := buf, kc_ptr := ptr, kc_wide := st\<rparr>)
       (sph_core lim (keccak_block lim) (kc_wide kc) (kc_buf kc) (kc_ptr kc) data)"

text \<open>
  \<open>DEFCLOSE(d, lim)\<close>: \<open>tmp\<close> is the part of the temporary array that is passed on, \<open>j\<close> bytes.
\<close>

definition keccak_close ::
  "nat \<Rightarrow> nat \<Rightarrow> keccak_context \<Rightarrow> u32 \<Rightarrow> nat \<Rightarrow> (keccak_context \<times> bytes) option"
where
  "keccak_close d lim kc ub n =
     (let
        eb = drop_bit (8 - n) (0x100 OR (ub AND 0xFF));
        tmp =
          (if kc_ptr kc = lim - 1 then
             (if n = 7 then ucast eb # replicate (lim - 1) 0 @ [0x80]
              else [ucast (eb OR 0x80)])
           else
             let j = lim - kc_ptr kc in ucast eb # replicate (j - 2) 0 @ [0x80])
      in do {
        kc \<leftarrow> keccak_core kc tmp lim;
        let wide = kc_wide kc;
        let wide = wide[1 := NOT (wide ! 1)];
        let wide = wide[2 := NOT (wide ! 2)];
        let wide = wide[8 := NOT (wide ! 8)];
        let wide = wide[12 := NOT (wide ! 12)];
        let wide = wide[17 := NOT (wide ! 17)];
        let wide = wide[20 := NOT (wide ! 20)];
        let out = concat (map (\<lambda>j. sph_enc64le (wide ! j)) [0..<d div 8]);
        Some (keccak_init (kc\<lparr>kc_wide := wide\<rparr>) (d * 8), out)
      })"

definition sph_keccak512_init :: "keccak_context \<Rightarrow> keccak_context" where
  "sph_keccak512_init cc = keccak_init cc 512"

definition sph_keccak512 :: "keccak_context \<Rightarrow> bytes \<Rightarrow> keccak_context option" where
  "sph_keccak512 cc data = keccak_core cc data 72"

definition sph_keccak512_addbits_and_close ::
  "keccak_context \<Rightarrow> u32 \<Rightarrow> nat \<Rightarrow> (keccak_context \<times> bytes) option"
where
  "sph_keccak512_addbits_and_close cc ub n = keccak_close 64 72 cc ub n"

definition sph_keccak512_close :: "keccak_context \<Rightarrow> (keccak_context \<times> bytes) option" where
  "sph_keccak512_close cc = sph_keccak512_addbits_and_close cc 0 0"

lemma keccak_READ_WRITE [simp]: "keccak_READ_STATE (keccak_WRITE_STATE v) = v"
  by (cases v) (simp add: keccak_READ_STATE_def)

lemma keccak_WRITE_READ [simp]:
  assumes "length st = 25"
  shows "keccak_WRITE_STATE (keccak_READ_STATE st) = st"
proof -
  have "keccak_WRITE_STATE (keccak_READ_STATE st) = map ((!) st) [0..<25]"
    by (simp add: keccak_READ_STATE_def upt_numerals)
  then show ?thesis using assms map_nth [of st] by simp
qed

lemma length_keccak_WRITE [simp]: "length (keccak_WRITE_STATE v) = 25"
  by (cases v) simp

text \<open>The input step as one pass over the lanes.\<close>

lemma fold_update_lanes:
  "k \<le> length w \<Longrightarrow> fold (\<lambda>i w. w[i := w ! i XOR d i]) [0..<k] w =
     map (\<lambda>i. if i < k then w ! i XOR d i else w ! i) [0..<length w]"
proof (induction k)
  case 0
  then show ?case by (simp add: map_nth)
next
  case (Suc k)
  then show ?case by (auto intro!: nth_equalityI simp: nth_list_update)
qed

lemma INPUT_BUF_lanes:
  assumes "(sz + 7) div 8 \<le> length w"
  shows "INPUT_BUF w buf sz =
    map (\<lambda>i. if i < (sz + 7) div 8 then w ! i XOR sph_dec64le buf (8 * i) else w ! i) [0..<length w]"
proof -
  have "INPUT_BUF w buf sz =
      fold (\<lambda>i w. w[i := w ! i XOR sph_dec64le buf (8 * i)]) [0..<(sz + 7) div 8] w"
    by (simp add: INPUT_BUF_def fold_map comp_def)
  then show ?thesis by (simp only: fold_update_lanes [OF assms])
qed

lemma length_INPUT_BUF [simp]: "length (INPUT_BUF w buf sz) = length w"
proof -
  have "length (fold (\<lambda>j (wide :: u64 list). wide[g j := h j wide]) js w) = length w" for g h js w
    by (induction js arbitrary: w) auto
  then show ?thesis by (simp add: INPUT_BUF_def)
qed

text \<open>The copying variants of the input step do what the in-place one does.\<close>

lemma INPUT_BUF_variants [variant_simps]:
  "keccak_WRITE_STATE (INPUT_BUF72 v buf) = INPUT_BUF (keccak_WRITE_STATE v) buf 72"
  "keccak_WRITE_STATE (INPUT_BUF104 v buf) = INPUT_BUF (keccak_WRITE_STATE v) buf 104"
  "keccak_WRITE_STATE (INPUT_BUF136 v buf) = INPUT_BUF (keccak_WRITE_STATE v) buf 136"
  "keccak_WRITE_STATE (INPUT_BUF144 v buf) = INPUT_BUF (keccak_WRITE_STATE v) buf 144"
  by (cases v; simp add: INPUT_BUF_lanes upt_numerals Let_def)+

lemma INPUT_BUF_copy_eq [variant_simps]:
  "INPUT_BUF_copy v buf 72 = INPUT_BUF72 v buf"
  "INPUT_BUF_copy v buf 104 = INPUT_BUF104 v buf"
  "INPUT_BUF_copy v buf 136 = INPUT_BUF136 v buf"
  "INPUT_BUF_copy v buf 144 = INPUT_BUF144 v buf"
  by (cases v; simp add: Let_def)+

section \<open>The digest\<close>

text \<open>
  Keccak-512 on a whole message, in its published form: exclusive-or each block of 72 bytes into
  the first nine lanes, apply the permutation; the padding is a one bit, zeros and a one bit, least
  significant bit first. The C code works on the state with six lanes complemented.
\<close>

definition keccak_block_spec :: "u64 list \<Rightarrow> bytes \<Rightarrow> u64 list" where
  "keccak_block_spec A b =
     keccak_f (map (\<lambda>i. if i < 9 then A ! i XOR sph_dec64le b (8 * i) else A ! i) [0..<25])"

definition keccak512_pad :: "bytes \<Rightarrow> bytes" where
  "keccak512_pad m =
     (if length m mod 72 = 71 then m @ [0x81]
      else m @ 1 # replicate (70 - length m mod 72) 0 @ [0x80])"

definition keccak512_digest :: "bytes \<Rightarrow> bytes" where
  "keccak512_digest m =
     (let A = fst (absorb 72 keccak_block_spec (replicate 25 0) (keccak512_pad m))
      in concat (map sph_enc64le (take 8 A)))"

lemma fold_NOT_lanes:
  "distinct is \<Longrightarrow> set is \<subseteq> {..<length A} \<Longrightarrow>
   length (fold (\<lambda>i A. A[i := NOT (A ! i)]) is A) = length (A :: u64 list) \<and>
   (\<forall>j < length A. fold (\<lambda>i A. A[i := NOT (A ! i)]) is A ! j =
     (if j \<in> set is then NOT (A ! j) else A ! j))"
  by (induction "is" arbitrary: A) (auto simp: nth_list_update)

lemma length_lane_complement [simp]: "length (lane_complement A) = length A"
  by (simp add: lane_complement_def)

lemma nth_lane_complement:
  "length A = 25 \<Longrightarrow> i < 25 \<Longrightarrow>
   lane_complement A ! i = (if i \<in> set [1, 2, 8, 12, 17, 20] then NOT (A ! i) else A ! i)"
  using fold_NOT_lanes [of "[1, 2, 8, 12, 17, 20]" A] unfolding lane_complement_def by simp

lemma lane_complement_involutive:
  "length A = 25 \<Longrightarrow> lane_complement (lane_complement A) = A"
  by (rule nth_equalityI) (simp_all add: nth_lane_complement del: list.set)

lemma lane_complement_INPUT_BUF:
  assumes "length A = 25"
  shows "lane_complement (INPUT_BUF A b 72) =
    map (\<lambda>i. if i < 9 then lane_complement A ! i XOR sph_dec64le b (8 * i)
             else lane_complement A ! i) [0..<25]"
  using assms
  by (intro nth_equalityI) (simp_all add: nth_lane_complement INPUT_BUF_lanes xor_NOT del: list.set)

lemma length_keccak_block [simp]: "length (keccak_block lim st b) = 25"
  by (simp add: keccak_block_def)

lemma keccak_block_complement:
  assumes "length A = 25"
  shows "lane_complement (keccak_block 72 A b) = keccak_block_spec (lane_complement A) b"
proof -
  have "lane_complement (keccak_block 72 A b) = keccak_f (lane_complement (INPUT_BUF A b 72))"
    using permutation_spec [OF KECCAK_F_variants(6)] assms by (simp add: keccak_block_def)
  then show ?thesis by (simp add: lane_complement_INPUT_BUF [OF assms] keccak_block_spec_def)
qed

interpretation keccak: sph_stream 72 "keccak_block 72"
proof
  fix st buf
  have dec: "sph_dec64le (take 72 buf) (8 * i) = sph_dec64le buf (8 * i)" if "i < 9" for i
    using that by (simp add: dec_take)
  have "INPUT_BUF st (take 72 buf) 72 = INPUT_BUF st buf 72"
  proof -
    have "fold (\<lambda>j (w :: u64 list). w[j div 8 := w ! (j div 8) XOR sph_dec64le (take 72 buf) j]) js st =
        fold (\<lambda>j w. w[j div 8 := w ! (j div 8) XOR sph_dec64le buf j]) js st"
      if "set js \<subseteq> (*) 8 ` {0..<9}" for js
      by (rule fold_cong) (use that dec in auto)
    then show ?thesis by (simp add: INPUT_BUF_def)
  qed
  then show "keccak_block 72 st (take 72 buf) = keccak_block 72 st buf"
    by (simp add: keccak_block_def)
qed simp

definition keccak_ok :: "keccak_context \<Rightarrow> bool" where
  "keccak_ok kc \<longleftrightarrow> length (kc_buf kc) = 144 \<and> kc_ptr kc < 72 \<and> length (kc_wide kc) = 25"

definition keccak_pending :: "keccak_context \<Rightarrow> bytes" where
  "keccak_pending kc = take (kc_ptr kc) (kc_buf kc)"

lemma keccak_core_ok:
  assumes "keccak_ok kc"
  shows "\<exists>kc'. keccak_core kc xs 72 = Some kc' \<and> keccak_ok kc' \<and>
    (kc_wide kc', keccak_pending kc') =
      absorb 72 (keccak_block 72) (kc_wide kc) (keccak_pending kc @ xs)"
proof -
  obtain st buf ptr where r: "sph_core 72 (keccak_block 72) (kc_wide kc) (kc_buf kc) (kc_ptr kc) xs =
      Some (st, buf, ptr)" "length buf = 144" "ptr < 72"
      "(st, take ptr buf) = absorb 72 (keccak_block 72) (kc_wide kc) (keccak_pending kc @ xs)"
    using keccak.core_step [of "kc_ptr kc" "kc_buf kc" "kc_wide kc" xs] assms
    by (auto simp: keccak_ok_def keccak_pending_def)
  have "length (fst (absorb 72 (keccak_block 72) (kc_wide kc) (keccak_pending kc @ xs))) = 25"
    by (rule absorb_invariant) (use assms in \<open>simp_all add: keccak_ok_def\<close>)
  then have "length st = 25" by (simp flip: r(4))
  with r show ?thesis
    by (simp add: keccak_core_def keccak_ok_def keccak_pending_def)
qed

interpretation keccak_ctx: sph_hash 72 "keccak_block 72" keccak_ok kc_wide keccak_pending sph_keccak512
  by unfold_locales (use keccak_core_ok in \<open>auto simp: sph_keccak512_def keccak_ok_def keccak_pending_def\<close>)

lemma keccak_init_wide: "kc_wide (keccak_init kc n) = lane_complement (replicate 25 0)"
proof -
  have ones: "(0xFFFFFFFFFFFFFFFF :: u64) = NOT 0" by simp
  show ?thesis
    unfolding keccak_init_def ones lane_complement_def by simp
qed

lemma keccak_close_output:
  assumes "keccak_ok kc"
    and p: "p = (if kc_ptr kc = 71 then [0x81] else 1 # replicate (70 - kc_ptr kc) 0 @ [0x80])"
  shows "\<exists>kc'. keccak_close 64 72 kc 0 0 = Some (kc',
      concat (map sph_enc64le (take 8 (lane_complement (keccak_block 72 (kc_wide kc)
        (keccak_pending kc @ p)))))) \<and>
    kc_wide kc' = lane_complement (replicate 25 0) \<and> kc_ptr kc' = 0"
proof -
  have len: "length (keccak_pending kc) = kc_ptr kc" "kc_ptr kc < 72"
    using assms by (simp_all add: keccak_ok_def keccak_pending_def)
  have "absorb 72 (keccak_block 72) (kc_wide kc) (keccak_pending kc @ p) =
      (keccak_block 72 (kc_wide kc) (keccak_pending kc @ p), [])"
    using absorb_full [of 72 "keccak_pending kc @ p" "keccak_block 72" "kc_wide kc" "[]"] len
    by (auto simp: p absorb_short)
  then obtain kc1 where kc1: "keccak_core kc p 72 = Some kc1"
      "kc_wide kc1 = keccak_block 72 (kc_wide kc) (keccak_pending kc @ p)"
    using keccak_core_ok [OF assms(1), of p] by auto
  have take: "concat (map (\<lambda>j. sph_enc64le (A ! j)) [0..<8]) = concat (map sph_enc64le (take 8 A))"
    if "length A = 25" for A
    using that by (intro arg_cong [where f = concat]) (auto intro: nth_equalityI)
  have eb: "drop_bit (8 - 0) (0x100 OR (0 AND 0xFF)) = (1 :: u32)"
    by simp
  have fin: "A[1 := NOT (A ! 1), 2 := NOT (A ! 2), 8 := NOT (A ! 8), 12 := NOT (A ! 12),
      17 := NOT (A ! 17), 20 := NOT (A ! 20)] = lane_complement A" for A
    by (simp add: lane_complement_def)
  have "keccak_close 64 72 kc 0 0 = Option.bind (keccak_core kc p 72) (\<lambda>kc.
      Some (keccak_init (kc\<lparr>kc_wide := lane_complement (kc_wide kc)\<rparr>) 512,
        concat (map (\<lambda>j. sph_enc64le (lane_complement (kc_wide kc) ! j)) [0..<8])))"
    unfolding keccak_close_def Let_def eb
    using fin by (simp add: p del: One_nat_def)
  then show ?thesis
    by (simp add: kc1 take keccak_init_wide) (simp add: keccak_init_def)
qed

lemma keccak512_run:
  assumes "length (kc_buf cc) = 144"
  shows "\<exists>kc kc'. feed sph_keccak512 (sph_keccak512_init cc) chunks = Some kc \<and>
    sph_keccak512_close kc = Some (kc', keccak512_digest (concat chunks)) \<and>
    kc_wide kc' = kc_wide (sph_keccak512_init cc) \<and> kc_ptr kc' = 0"
proof -
  let ?m = "concat chunks" and ?c0 = "sph_keccak512_init cc"
  have c0: "keccak_ok ?c0" "kc_wide ?c0 = lane_complement (replicate 25 0)" "keccak_pending ?c0 = []"
    using assms by (simp_all add: sph_keccak512_init_def keccak_init_wide)
      (simp_all add: keccak_ok_def keccak_pending_def keccak_init_def)
  then obtain kc where kc: "feed sph_keccak512 ?c0 chunks = Some kc" "keccak_ok kc"
      "absorb 72 (keccak_block 72) (kc_wide ?c0) ?m = (kc_wide kc, keccak_pending kc)"
    using keccak_ctx.feed_ok [of ?c0 chunks] by auto
  have len: "length (keccak_pending kc) = kc_ptr kc" "kc_ptr kc < 72"
    using kc(2) by (simp_all add: keccak_ok_def keccak_pending_def)
  have ptr: "kc_ptr kc = length ?m mod 72"
    using length_absorb_mod [of 72 "keccak_block 72" "kc_wide ?c0" ?m] kc(3) len by simp
  define p :: bytes where
    "p = (if kc_ptr kc = 71 then [0x81] else 1 # replicate (70 - kc_ptr kc) 0 @ [0x80])"
  have "absorb 72 (keccak_block 72) (kc_wide ?c0) (keccak512_pad ?m) =
      (keccak_block 72 (kc_wide kc) (keccak_pending kc @ p), [])"
    using absorb_pad [OF _ kc(3), of p] len by (auto simp: keccak512_pad_def p_def simp flip: ptr)
  moreover have "absorb 72 keccak_block_spec (lane_complement (kc_wide ?c0)) (keccak512_pad ?m) =
      map_prod lane_complement id (absorb 72 (keccak_block 72) (kc_wide ?c0) (keccak512_pad ?m))"
    by (rule absorb_map [where P = "\<lambda>A. length A = 25"])
      (simp_all add: keccak_block_complement c0(2))
  ultimately have "fst (absorb 72 keccak_block_spec (replicate 25 0) (keccak512_pad ?m)) =
      lane_complement (keccak_block 72 (kc_wide kc) (keccak_pending kc @ p))"
    by (simp add: c0(2) lane_complement_involutive)
  then show ?thesis
    using keccak_close_output [OF kc(2) p_def] kc(1)
    by (auto simp: keccak512_digest_def sph_keccak512_close_def
        sph_keccak512_addbits_and_close_def c0(2))
qed


section \<open>Properties\<close>

text \<open>
  C21: the Keccak-512 interface, called on any context with a 144-byte buffer (whatever state an
  earlier message left) with init, any number of update calls and close, returns; the output is
  the Keccak-512 digest of the concatenated input in its published, uncomplemented form, and the
  context is initialised again.
\<close>

theorem keccak512_correct:
  assumes "length (kc_buf cc) = 144"
  shows "\<exists>kc kc'. feed sph_keccak512 (sph_keccak512_init cc) chunks = Some kc \<and>
    sph_keccak512_close kc = Some (kc', keccak512_digest (concat chunks)) \<and>
    kc_wide kc' = kc_wide (sph_keccak512_init cc) \<and> kc_ptr kc' = 0"
  by (rule keccak512_run [OF assms])

theorem keccak512_correct_witness:
  "\<exists>kc kc'. feed sph_keccak512 (sph_keccak512_init
      \<lparr>kc_buf = replicate 144 7, kc_ptr = 3, kc_lim = 0, kc_wide = []\<rparr>) [[1, 2], [], [3]] = Some kc \<and>
    sph_keccak512_close kc = Some (kc', keccak512_digest [1, 2, 3]) \<and> kc_ptr kc' = 0"
  using keccak512_correct [of "\<lparr>kc_buf = replicate 144 7, kc_ptr = 3, kc_lim = 0, kc_wide = []\<rparr>"
      "[[1, 2], [], [3]]"] by auto

text \<open>
  every value of \<open>SPH_KECCAK_UNROLL\<close> gives the same permutation: on the state with the six
  lanes complemented, each of the seven bodies computes Keccak-f[1600] of the published
  specification. In particular the change of argument lists between rounds and the closing
  \<open>Pk_TO_P0\<close> moves put every lane back in its place.
\<close>

theorem keccak_unroll_correct:
  "lane_complement (keccak_WRITE_STATE (KECCAK_F_1600_unroll0 v)) =
     keccak_f (lane_complement (keccak_WRITE_STATE v)) \<and>
   lane_complement (keccak_WRITE_STATE (KECCAK_F_1600_unroll1 v)) =
     keccak_f (lane_complement (keccak_WRITE_STATE v)) \<and>
   lane_complement (keccak_WRITE_STATE (KECCAK_F_1600_unroll2 v)) =
     keccak_f (lane_complement (keccak_WRITE_STATE v)) \<and>
   lane_complement (keccak_WRITE_STATE (KECCAK_F_1600_unroll4 v)) =
     keccak_f (lane_complement (keccak_WRITE_STATE v)) \<and>
   lane_complement (keccak_WRITE_STATE (KECCAK_F_1600_unroll6 v)) =
     keccak_f (lane_complement (keccak_WRITE_STATE v)) \<and>
   lane_complement (keccak_WRITE_STATE (KECCAK_F_1600_unroll8 v)) =
     keccak_f (lane_complement (keccak_WRITE_STATE v)) \<and>
   lane_complement (keccak_WRITE_STATE (KECCAK_F_1600_unroll12 v)) =
     keccak_f (lane_complement (keccak_WRITE_STATE v))"
  by (intro conjI permutation_spec KECCAK_F_variants)

end
