(* ===== verification/Jh.thy ===== *)
theory Jh
  imports SphStream
begin

text \<open>
  \<open>src/src/crypto/x11/jh.c\<close>: JH-512, the fifth function of the X11 chain, in its 64-bit bit-sliced
  form. The 1024-bit state is eight 128-bit variables \<open>h0 .. h7\<close>, each a pair of 64-bit words
  (\<open>x ## h\<close>, \<open>x ## l\<close>); bit \<open>j\<close> of \<open>h0, h2, h4, h6\<close> is a nibble of the even bank and bit \<open>j\<close> of
  \<open>h1, h3, h5, h7\<close> one of the odd bank. The theorems: the logical formulas of \<open>Sb\<close> are the two
  S-boxes of JH, \<open>Lb\<close> is its linear map over GF(16), the masked shifts \<open>W0 .. W6\<close> swap the nibbles
  of the odd bank at distance \<open>2 ^ ro\<close>, so both forms of \<open>E8\<close> compute 42 rounds of the nibble-level
  permutation, and the interface computes JH-512 with its 128-bit length field.
\<close>

section \<open>Constants\<close>

text \<open>The little-endian build stores the constants byte-swapped.\<close>

definition C64e :: "u64 \<Rightarrow> u64" where
  "C64e x =
     drop_bit 56 x
     OR (drop_bit 40 x AND 0x000000000000FF00)
     OR (drop_bit 24 x AND 0x0000000000FF0000)
     OR (drop_bit 8 x AND 0x00000000FF000000)
     OR (push_bit 8 x AND 0x000000FF00000000)
     OR (push_bit 24 x AND 0x0000FF0000000000)
     OR (push_bit 40 x AND 0x00FF000000000000)
     OR (push_bit 56 x AND 0xFF00000000000000)"

definition jh_C :: "u64 list" where
  "jh_C = map C64e
     [0x72d5dea2df15f867, 0x7b84150ab7231557, 0x81abd6904d5a87f6, 0x4e9f4fc5c3d12b40,
      0xea983ae05c45fa9c, 0x03c5d29966b2999a, 0x660296b4f2bb538a, 0xb556141a88dba231,
      0x03a35a5c9a190edb, 0x403fb20a87c14410, 0x1c051980849e951d, 0x6f33ebad5ee7cddc,
      0x10ba139202bf6b41, 0xdc786515f7bb27d0, 0x0a2c813937aa7850, 0x3f1abfd2410091d3,
      0x422d5a0df6cc7e90, 0xdd629f9c92c097ce, 0x185ca70bc72b44ac, 0xd1df65d663c6fc23,
      0x976e6c039ee0b81a, 0x2105457e446ceca8, 0xeef103bb5d8e61fa, 0xfd9697b294838197,
      0x4a8e8537db03302f, 0x2a678d2dfb9f6a95, 0x8afe7381f8b8696c, 0x8ac77246c07f4214,
      0xc5f4158fbdc75ec4, 0x75446fa78f11bb80, 0x52de75b7aee488bc, 0x82b8001e98a6a3f4,
      0x8ef48f33a9a36315, 0xaa5f5624d5b7f989, 0xb6f1ed207c5ae0fd, 0x36cae95a06422c36,
      0xce2935434efe983d, 0x533af974739a4ba7, 0xd0f51f596f4e8186, 0x0e9dad81afd85a9f,
      0xa7050667ee34626a, 0x8b0b28be6eb91727, 0x47740726c680103f, 0xe0a07e6fc67e487b,
      0x0d550aa54af8a4c0, 0x91e3e79f978ef19e, 0x8676728150608dd4, 0x7e9e5a41f3e5b062,
      0xfc9f1fec4054207a, 0xe3e41a00cef4c984, 0x4fd794f59dfa95d8, 0x552e7e1124c354a5,
      0x5bdf7228bdfe6e28, 0x78f57fe20fa5c4b2, 0x05897cefee49d32e, 0x447e9385eb28597f,
      0x705f6937b324314a, 0x5e8628f11dd6e465, 0xc71b770451b920e7, 0x74fe43e823d4878a,
      0x7d29e8a3927694f2, 0xddcb7a099b30d9c1, 0x1d1b30fb5bdc1be0, 0xda24494ff29c82bf,
      0xa4e7ba31b470bfff, 0x0d324405def8bc48, 0x3baefc3253bbd339, 0x459fc3c1e0298ba0,
      0xe5c905fdf7ae090f, 0x947034124290f134, 0xa271b701e344ed95, 0xe93b8e364f2f984a,
      0x88401d63a06cf615, 0x47c1444b8752afff, 0x7ebb4af1e20ac630, 0x4670b6c5cc6e8ce6,
      0xa4d5a456bd4fca00, 0xda9d844bc83e18ae, 0x7357ce453064d1ad, 0xe8a6ce68145c2567,
      0xa3da8cf2cb0ee116, 0x33e906589a94999a, 0x1f60b220c26f847b, 0xd1ceac7fa0d18518,
      0x32595ba18ddd19d3, 0x509a1cc0aaa5b446, 0x9f3d6367e4046bba, 0xf6ca19ab0b56ee7e,
      0x1fb179eaa9282174, 0xe9bdf7353b3651ee, 0x1d57ac5a7550d376, 0x3a46c2fea37d7001,
      0xf735c1af98a4d842, 0x78edec209e6b6779, 0x41836315ea3adba8, 0xfac33b4d32832c83,
      0xa7403b1f1c2747f3, 0x5940f034b72d769a, 0xe73e4e6cd2214ffd, 0xb8fd8d39dc5759ef,
      0x8d9b0c492b49ebda, 0x5ba2d74968f3700d, 0x7d3baed07a8d5584, 0xf5a5e9f0e4f88e65,
      0xa0b8a2f436103b53, 0x0ca8079e753eec5a, 0x9168949256e8884f, 0x5bb05c55f8babc4c,
      0xe3bb3b99f387947b, 0x75daf4d6726b1c5d, 0x64aeac28dc34b36d, 0x6c34a550b828db71,
      0xf861e2f2108d512a, 0xe3db643359dd75fc, 0x1cacbcf143ce3fa2, 0x67bbd13c02e843b0,
      0x330a5bca8829a175, 0x7f34194db416535c, 0x923b94c30e794d1e, 0x797475d7b6eeaf3f,
      0xeaa8d4f7be1a3921, 0x5cf47e094c232751, 0x26a32453ba323cd2, 0x44a3174a6da6d5ad,
      0xb51d3ea6aff2c908, 0x83593d98916b3c56, 0x4cf87ca17286604d, 0x46e23ecc086ec7f6,
      0x2f9833b3b1bc765e, 0x2bd666a5efc4e62a, 0x06f4b6e8bec1d436, 0x74ee8215bcef2163,
      0xfdc14e0df453c969, 0xa77d5ac406585826, 0x7ec1141606e0fa16, 0x7e90af3d28639d3f,
      0xd2c9f2e3009bd20c, 0x5faace30b7d40c30, 0x742a5116f2e03298, 0x0deb30d8e3cef89a,
      0x4bc59e7bb5f17992, 0xff51e66e048668d3, 0x9b234d57e6966731, 0xcce6a6f3170a7505,
      0xb17681d913326cce, 0x3c175284f805a262, 0xf42bcbb378471547, 0xff46548223936a48,
      0x38df58074e5e6565, 0xf2fc7c89fc86508e, 0x31702e44d00bca86, 0xf04009a23078474e,
      0x65a0ee39d1f73883, 0xf75ee937e42c3abd, 0x2197b2260113f86f, 0xa344edd1ef9fdee7,
      0x8ba0df15762592d9, 0x3c85f7f612dc42be, 0xd8a7ec7cab27b07e, 0x538d7ddaaa3ea8de,
      0xaa25ce93bd0269d8, 0x5af643fd1a7308f9, 0xc05fefda174a19a5, 0x974d66334cfd216a,
      0x35b49831db411570, 0xea1e0fbbedcd549b, 0x9ad063a151974072, 0xf6759dbf91476fe2]"

definition jh_IV512 :: "u64 list" where
  "jh_IV512 = map C64e
     [0x6fd14b963e00aa17, 0x636a2e057a15d543, 0x8a225e8d0c97ef0b, 0xe9341259f2b3c361,
      0x891da0c1536f801e, 0x2aa9056bea2b6d80, 0x588eccdb2075baa6, 0xa90f3a76baf83bf7,
      0x0169e60541e34a69, 0x46b58a8e2e6fe65a, 0x1047a7d0c1843c24, 0x3b6e71b12d5ac199,
      0xcf57f6ec9db1f856, 0xa706887c5716b156, 0xe3c2fcdfe68517fb, 0x545a4678cc8cdd4b]"

definition Ceven_hi :: "nat \<Rightarrow> u64" where
  "Ceven_hi r = jh_C ! (4 * r + 0)"

definition Ceven_lo :: "nat \<Rightarrow> u64" where
  "Ceven_lo r = jh_C ! (4 * r + 1)"

definition Codd_hi :: "nat \<Rightarrow> u64" where
  "Codd_hi r = jh_C ! (4 * r + 2)"

definition Codd_lo :: "nat \<Rightarrow> u64" where
  "Codd_lo r = jh_C ! (4 * r + 3)"

section \<open>The round macros\<close>

definition Sb :: "u64 \<Rightarrow> u64 \<Rightarrow> u64 \<Rightarrow> u64 \<Rightarrow> u64 \<Rightarrow> u64 \<times> u64 \<times> u64 \<times> u64" where
  "Sb x0 x1 x2 x3 c =
     (let
        x3 = NOT x3;
        x0 = x0 XOR (c AND NOT x2);
        tmp = c XOR (x0 AND x1);
        x0 = x0 XOR (x2 AND x3);
        x3 = x3 XOR (NOT x1 AND x2);
        x1 = x1 XOR (x0 AND x2);
        x2 = x2 XOR (x0 AND NOT x3);
        x0 = x0 XOR (x1 OR x3);
        x3 = x3 XOR (x1 AND x2);
        x1 = x1 XOR (tmp AND x0);
        x2 = x2 XOR tmp
      in (x0, x1, x2, x3))"

definition Lb ::
  "u64 \<Rightarrow> u64 \<Rightarrow> u64 \<Rightarrow> u64 \<Rightarrow> u64 \<Rightarrow> u64 \<Rightarrow> u64 \<Rightarrow> u64 \<Rightarrow>
   u64 \<times> u64 \<times> u64 \<times> u64 \<times> u64 \<times> u64 \<times> u64 \<times> u64"
where
  "Lb x0 x1 x2 x3 x4 x5 x6 x7 =
     (let
        x4 = x4 XOR x1;
        x5 = x5 XOR x2;
        x6 = x6 XOR (x3 XOR x0);
        x7 = x7 XOR x0;
        x0 = x0 XOR x5;
        x1 = x1 XOR x6;
        x2 = x2 XOR (x7 XOR x4);
        x3 = x3 XOR x4
      in (x0, x1, x2, x3, x4, x5, x6, x7))"

text \<open>A variable of the macros \<open>S\<close>, \<open>L\<close> and \<open>Wz\<close> is the pair of its high and low word.\<close>

type_synonym jvar = "u64 \<times> u64"

definition jh_S :: "jvar \<Rightarrow> jvar \<Rightarrow> jvar \<Rightarrow> jvar \<Rightarrow> u64 \<Rightarrow> u64 \<Rightarrow> jvar \<times> jvar \<times> jvar \<times> jvar" where
  "jh_S x0 x1 x2 x3 chi clo =
     (let
        (x0h, x1h, x2h, x3h) = Sb (fst x0) (fst x1) (fst x2) (fst x3) chi;
        (x0l, x1l, x2l, x3l) = Sb (snd x0) (snd x1) (snd x2) (snd x3) clo
      in ((x0h, x0l), (x1h, x1l), (x2h, x2l), (x3h, x3l)))"

definition jh_L ::
  "jvar \<Rightarrow> jvar \<Rightarrow> jvar \<Rightarrow> jvar \<Rightarrow> jvar \<Rightarrow> jvar \<Rightarrow> jvar \<Rightarrow> jvar \<Rightarrow>
   jvar \<times> jvar \<times> jvar \<times> jvar \<times> jvar \<times> jvar \<times> jvar \<times> jvar"
where
  "jh_L x0 x1 x2 x3 x4 x5 x6 x7 =
     (let
        (x0h, x1h, x2h, x3h, x4h, x5h, x6h, x7h) =
          Lb (fst x0) (fst x1) (fst x2) (fst x3) (fst x4) (fst x5) (fst x6) (fst x7);
        (x0l, x1l, x2l, x3l, x4l, x5l, x6l, x7l) =
          Lb (snd x0) (snd x1) (snd x2) (snd x3) (snd x4) (snd x5) (snd x6) (snd x7)
      in ((x0h, x0l), (x1h, x1l), (x2h, x2l), (x3h, x3l),
          (x4h, x4l), (x5h, x5l), (x6h, x6l), (x7h, x7l)))"

definition Wz :: "u64 \<Rightarrow> nat \<Rightarrow> jvar \<Rightarrow> jvar" where
  "Wz c n x =
     (let
        t = push_bit n (fst x AND c);
        xh = (drop_bit n (fst x) AND c) OR t;
        t = push_bit n (snd x AND c);
        xl = (drop_bit n (snd x) AND c) OR t
      in (xh, xl))"

definition jh_W0 :: "jvar \<Rightarrow> jvar" where "jh_W0 = Wz 0x5555555555555555 1"
definition jh_W1 :: "jvar \<Rightarrow> jvar" where "jh_W1 = Wz 0x3333333333333333 2"
definition jh_W2 :: "jvar \<Rightarrow> jvar" where "jh_W2 = Wz 0x0F0F0F0F0F0F0F0F 4"
definition jh_W3 :: "jvar \<Rightarrow> jvar" where "jh_W3 = Wz 0x00FF00FF00FF00FF 8"
definition jh_W4 :: "jvar \<Rightarrow> jvar" where "jh_W4 = Wz 0x0000FFFF0000FFFF 16"
definition jh_W5 :: "jvar \<Rightarrow> jvar" where "jh_W5 = Wz 0x00000000FFFFFFFF 32"

definition jh_W6 :: "jvar \<Rightarrow> jvar" where
  "jh_W6 x = (let t = fst x; xh = snd x; xl = t in (xh, xl))"

section \<open>State\<close>

datatype jvars = JVars jvar jvar jvar jvar jvar jvar jvar jvar

record jh_context =
  jh_buf :: bytes
  jh_ptr :: nat
  jh_H :: "u64 list"
  jh_block_count :: u64

definition jh_READ_STATE :: "u64 list \<Rightarrow> jvars" where
  "jh_READ_STATE w =
     JVars (w ! 0, w ! 1) (w ! 2, w ! 3) (w ! 4, w ! 5) (w ! 6, w ! 7)
       (w ! 8, w ! 9) (w ! 10, w ! 11) (w ! 12, w ! 13) (w ! 14, w ! 15)"

primrec jh_WRITE_STATE :: "jvars \<Rightarrow> u64 list" where
  "jh_WRITE_STATE (JVars h0 h1 h2 h3 h4 h5 h6 h7) =
     [fst h0, snd h0, fst h1, snd h1, fst h2, snd h2, fst h3, snd h3,
      fst h4, snd h4, fst h5, snd h5, fst h6, snd h6, fst h7, snd h7]"

text \<open>
  \<open>INPUT_BUF1\<close> reads the message words and adds them to the first half of the state, \<open>INPUT_BUF2\<close>
  adds the same words to the second half after the permutation.
\<close>

type_synonym jmsg = "jvar \<times> jvar \<times> jvar \<times> jvar"

definition jh_message :: "bytes \<Rightarrow> jmsg" where
  "jh_message buf =
     ((sph_dec64le buf 0, sph_dec64le buf 8), (sph_dec64le buf 16, sph_dec64le buf 24),
      (sph_dec64le buf 32, sph_dec64le buf 40), (sph_dec64le buf 48, sph_dec64le buf 56))"

definition jvar_xor :: "jvar \<Rightarrow> jvar \<Rightarrow> jvar" where
  "jvar_xor x y = (fst x XOR fst y, snd x XOR snd y)"

primrec jh_INPUT_BUF1 :: "jvars \<Rightarrow> jmsg \<Rightarrow> jvars" where
  "jh_INPUT_BUF1 (JVars h0 h1 h2 h3 h4 h5 h6 h7) m =
     (let (m0, m1, m2, m3) = m
      in JVars (jvar_xor h0 m0) (jvar_xor h1 m1) (jvar_xor h2 m2) (jvar_xor h3 m3) h4 h5 h6 h7)"

primrec jh_INPUT_BUF2 :: "jvars \<Rightarrow> jmsg \<Rightarrow> jvars" where
  "jh_INPUT_BUF2 (JVars h0 h1 h2 h3 h4 h5 h6 h7) m =
     (let (m0, m1, m2, m3) = m
      in JVars h0 h1 h2 h3 (jvar_xor h4 m0) (jvar_xor h5 m1) (jvar_xor h6 m2) (jvar_xor h7 m3))"

section \<open>Rounds\<close>

text \<open>\<open>SLu(r, ro)\<close>; the macro pastes \<open>ro\<close> to choose one of \<open>W0 .. W6\<close>, here an argument.\<close>

primrec jh_SLu :: "nat \<Rightarrow> (jvar \<Rightarrow> jvar) \<Rightarrow> jvars \<Rightarrow> jvars" where
  "jh_SLu r W (JVars h0 h1 h2 h3 h4 h5 h6 h7) =
     (let
        (h0, h2, h4, h6) = jh_S h0 h2 h4 h6 (Ceven_hi r) (Ceven_lo r);
        (h1, h3, h5, h7) = jh_S h1 h3 h5 h7 (Codd_hi r) (Codd_lo r);
        (h0, h2, h4, h6, h1, h3, h5, h7) = jh_L h0 h2 h4 h6 h1 h3 h5 h7;
        h1 = W h1;
        h3 = W h3;
        h5 = W h5;
        h7 = W h7
      in JVars h0 h1 h2 h3 h4 h5 h6 h7)"

text \<open>The two forms of \<open>E8\<close>: the partially unrolled loop of the small-footprint build and the full one.\<close>

definition jh_E8_small :: "jvars \<Rightarrow> jvars" where
  "jh_E8_small v =
     fold (\<lambda>r v. let
         v = jh_SLu (r + 0) jh_W0 v;
         v = jh_SLu (r + 1) jh_W1 v;
         v = jh_SLu (r + 2) jh_W2 v;
         v = jh_SLu (r + 3) jh_W3 v;
         v = jh_SLu (r + 4) jh_W4 v;
         v = jh_SLu (r + 5) jh_W5 v;
         v = jh_SLu (r + 6) jh_W6 v
       in v) [0, 7, 14, 21, 28, 35] v"

definition jh_E8_unrolled :: "jvars \<Rightarrow> jvars" where
  "jh_E8_unrolled v =
     (let
        v = jh_SLu 0 jh_W0 v; v = jh_SLu 1 jh_W1 v; v = jh_SLu 2 jh_W2 v; v = jh_SLu 3 jh_W3 v;
        v = jh_SLu 4 jh_W4 v; v = jh_SLu 5 jh_W5 v; v = jh_SLu 6 jh_W6 v; v = jh_SLu 7 jh_W0 v;
        v = jh_SLu 8 jh_W1 v; v = jh_SLu 9 jh_W2 v; v = jh_SLu 10 jh_W3 v; v = jh_SLu 11 jh_W4 v;
        v = jh_SLu 12 jh_W5 v; v = jh_SLu 13 jh_W6 v; v = jh_SLu 14 jh_W0 v;
        v = jh_SLu 15 jh_W1 v; v = jh_SLu 16 jh_W2 v; v = jh_SLu 17 jh_W3 v;
        v = jh_SLu 18 jh_W4 v; v = jh_SLu 19 jh_W5 v; v = jh_SLu 20 jh_W6 v;
        v = jh_SLu 21 jh_W0 v; v = jh_SLu 22 jh_W1 v; v = jh_SLu 23 jh_W2 v;
        v = jh_SLu 24 jh_W3 v; v = jh_SLu 25 jh_W4 v; v = jh_SLu 26 jh_W5 v;
        v = jh_SLu 27 jh_W6 v; v = jh_SLu 28 jh_W0 v; v = jh_SLu 29 jh_W1 v;
        v = jh_SLu 30 jh_W2 v; v = jh_SLu 31 jh_W3 v; v = jh_SLu 32 jh_W4 v;
        v = jh_SLu 33 jh_W5 v; v = jh_SLu 34 jh_W6 v; v = jh_SLu 35 jh_W0 v;
        v = jh_SLu 36 jh_W1 v; v = jh_SLu 37 jh_W2 v; v = jh_SLu 38 jh_W3 v;
        v = jh_SLu 39 jh_W4 v; v = jh_SLu 40 jh_W5 v; v = jh_SLu 41 jh_W6 v
      in v)"

section \<open>Init, update, close\<close>

definition jh_init :: "jh_context \<Rightarrow> u64 list \<Rightarrow> jh_context" where
  "jh_init sc iv = sc\<lparr>jh_ptr := 0, jh_H := iv, jh_block_count := 0\<rparr>"

definition jh_block :: "u64 list \<times> u64 \<Rightarrow> bytes \<Rightarrow> u64 list \<times> u64" where
  "jh_block = (\<lambda>(H, count) buf.
     let
       v = jh_READ_STATE H;
       m = jh_message buf;
       v = jh_INPUT_BUF1 v m;
       v = jh_E8_small v;
       v = jh_INPUT_BUF2 v m
     in (jh_WRITE_STATE v, count + 1))"

definition jh_core :: "jh_context \<Rightarrow> bytes \<Rightarrow> jh_context option" where
  "jh_core sc data =
     map_option (\<lambda>((H, count), buf, ptr).
         sc\<lparr>jh_buf := buf, jh_ptr := ptr, jh_H := H, jh_block_count := count\<rparr>)
       (sph_core 64 jh_block (jh_H sc, jh_block_count sc) (jh_buf sc) (jh_ptr sc) data)"

definition jh_close ::
  "jh_context \<Rightarrow> u32 \<Rightarrow> nat \<Rightarrow> nat \<Rightarrow> u64 list \<Rightarrow> (jh_context \<times> bytes) option"
where
  "jh_close sc ub n out_size_w32 iv =
     (let
        z = drop_bit n 0x80;
        b = ucast (((ub AND (- z)) OR z) AND 0xFF);
        numz = (if jh_ptr sc = 0 \<and> n = 0 then 47 else 111 - jh_ptr sc);
        l0 = SPH_T64 (push_bit 9 (jh_block_count sc)) + of_nat (jh_ptr sc * 8) + of_nat n;
        l1 = SPH_T64 (drop_bit 55 (jh_block_count sc));
        buf = b # replicate numz 0 @ sph_enc64be l1 @ sph_enc64be l0
      in do {
        sc \<leftarrow> jh_core sc buf;
        let buf = concat (map (\<lambda>u. sph_enc64le (jh_H sc ! (u + 8))) [0..<8]);
        let dst = take (4 * out_size_w32) (drop (4 * (16 - out_size_w32)) buf);
        Some (jh_init sc iv, dst)
      })"

definition sph_jh512_init :: "jh_context \<Rightarrow> jh_context" where
  "sph_jh512_init cc = jh_init cc jh_IV512"

definition sph_jh512 :: "jh_context \<Rightarrow> bytes \<Rightarrow> jh_context option" where
  "sph_jh512 cc data = jh_core cc data"

definition sph_jh512_close :: "jh_context \<Rightarrow> (jh_context \<times> bytes) option" where
  "sph_jh512_close cc = jh_close cc 0 0 16 jh_IV512"

definition sph_jh512_addbits_and_close ::
  "jh_context \<Rightarrow> u32 \<Rightarrow> nat \<Rightarrow> (jh_context \<times> bytes) option"
where
  "sph_jh512_addbits_and_close cc ub n = jh_close cc ub n 16 jh_IV512"

section \<open>The nibble-level permutation\<close>

text \<open>
  A nibble, most significant bit first, the two S-boxes of JH as tables, multiplication by \<open>x\<close> in
  GF(16) modulo \<open>x^4 + x + 1\<close>, and the linear map on a pair of nibbles.
\<close>

type_synonym nibble = "bool \<times> bool \<times> bool \<times> bool"

definition nibble_val :: "nibble \<Rightarrow> nat" where
  "nibble_val = (\<lambda>(a, b, c, d). 8 * of_bool a + 4 * of_bool b + 2 * of_bool c + of_bool d)"

definition nibble_of :: "nat \<Rightarrow> nibble" where
  "nibble_of n = (odd (n div 8), odd (n div 4), odd (n div 2), odd n)"

definition jh_sbox :: "bool \<Rightarrow> nibble \<Rightarrow> nibble" where
  "jh_sbox c x = nibble_of
     ((if c then [3, 12, 6, 13, 5, 7, 1, 9, 15, 2, 0, 4, 11, 10, 14, 8]
       else [9, 0, 4, 11, 13, 12, 3, 15, 1, 10, 2, 6, 7, 5, 8, 14]) ! nibble_val x)"

definition nib_xor :: "nibble \<Rightarrow> nibble \<Rightarrow> nibble" where
  "nib_xor = (\<lambda>(a, b, c, d) (a', b', c', d'). (a \<noteq> a', b \<noteq> b', c \<noteq> c', d \<noteq> d'))"

definition gf16_double :: "nibble \<Rightarrow> nibble" where
  "gf16_double = (\<lambda>(a, b, c, d). (b, c, d \<noteq> a, a))"

definition jh_linear :: "nibble \<times> nibble \<Rightarrow> nibble \<times> nibble" where
  "jh_linear = (\<lambda>(A, B).
     let D = nib_xor B (gf16_double A); C = nib_xor A (gf16_double D) in (C, D))"

definition jvar_bit :: "jvar \<Rightarrow> nat \<Rightarrow> bool" where
  "jvar_bit x j = (if j < 64 then bit (fst x) j else bit (snd x) (j - 64))"

text \<open>The two banks of 128 nibbles that the eight variables hold.\<close>

primrec jh_banks :: "jvars \<Rightarrow> (nibble \<times> nibble) list" where
  "jh_banks (JVars h0 h1 h2 h3 h4 h5 h6 h7) =
     map (\<lambda>j. ((jvar_bit h0 j, jvar_bit h2 j, jvar_bit h4 j, jvar_bit h6 j),
               (jvar_bit h1 j, jvar_bit h3 j, jvar_bit h5 j, jvar_bit h7 j))) [0..<128]"

text \<open>
  One round: substitute with the S-box that the round constant selects, mix the two nibbles of a
  position, then swap the odd nibbles of the positions that differ in bit \<open>ro\<close>.
\<close>

definition jh_round_spec :: "nat \<Rightarrow> nat \<Rightarrow> (nibble \<times> nibble) list \<Rightarrow> (nibble \<times> nibble) list" where
  "jh_round_spec r ro A =
     (let B = map (\<lambda>j. jh_linear
            (jh_sbox (jvar_bit (Ceven_hi r, Ceven_lo r) j) (fst (A ! j)),
             jh_sbox (jvar_bit (Codd_hi r, Codd_lo r) j) (snd (A ! j)))) [0..<128]
      in map (\<lambda>j. (fst (B ! j), snd (B ! (j XOR 2 ^ ro)))) [0..<128])"

definition jh_E8_spec :: "(nibble \<times> nibble) list \<Rightarrow> (nibble \<times> nibble) list" where
  "jh_E8_spec A = fold (\<lambda>r. jh_round_spec r (r mod 7)) [0..<42] A"

text \<open>The formulas of \<open>Sb\<close> and \<open>Lb\<close>, at one bit position.\<close>

lemma Sb_nibble:
  assumes "Sb x0 x1 x2 x3 c = (y0, y1, y2, y3)" "i < 64"
  shows "(bit y0 i, bit y1 i, bit y2 i, bit y3 i) =
    jh_sbox (bit c i) (bit x0 i, bit x1 i, bit x2 i, bit x3 i)"
proof -
  have y: "(y0, y1, y2, y3) = Sb x0 x1 x2 x3 c" using assms(1) by simp
  show ?thesis
    using y \<open>i < 64\<close>
    by (cases "bit c i"; cases "bit x0 i"; cases "bit x1 i"; cases "bit x2 i"; cases "bit x3 i")
      (simp_all add: Sb_def Let_def bit_simps jh_sbox_def nibble_val_def nibble_of_def)
qed

lemma Lb_nibble:
  assumes "Lb x0 x1 x2 x3 x4 x5 x6 x7 = (y0, y1, y2, y3, y4, y5, y6, y7)"
  shows "((bit y0 i, bit y1 i, bit y2 i, bit y3 i), (bit y4 i, bit y5 i, bit y6 i, bit y7 i)) =
    jh_linear ((bit x0 i, bit x1 i, bit x2 i, bit x3 i), (bit x4 i, bit x5 i, bit x6 i, bit x7 i))"
  using assms
  by (auto simp: Lb_def Let_def bit_simps jh_linear_def nib_xor_def gf16_double_def)

lemma jh_S_nibble:
  assumes "jh_S x0 x1 x2 x3 chi clo = (y0, y1, y2, y3)" "j < 128"
  shows "(jvar_bit y0 j, jvar_bit y1 j, jvar_bit y2 j, jvar_bit y3 j) =
    jh_sbox (jvar_bit (chi, clo) j) (jvar_bit x0 j, jvar_bit x1 j, jvar_bit x2 j, jvar_bit x3 j)"
  using assms Sb_nibble [of "fst x0" "fst x1" "fst x2" "fst x3" chi _ _ _ _ j]
    Sb_nibble [of "snd x0" "snd x1" "snd x2" "snd x3" clo _ _ _ _ "j - 64"]
  by (auto simp: jh_S_def jvar_bit_def split: prod.splits)

lemma jh_L_nibble:
  assumes "jh_L x0 x1 x2 x3 x4 x5 x6 x7 = (y0, y1, y2, y3, y4, y5, y6, y7)"
  shows "((jvar_bit y0 j, jvar_bit y1 j, jvar_bit y2 j, jvar_bit y3 j),
      (jvar_bit y4 j, jvar_bit y5 j, jvar_bit y6 j, jvar_bit y7 j)) =
    jh_linear ((jvar_bit x0 j, jvar_bit x1 j, jvar_bit x2 j, jvar_bit x3 j),
      (jvar_bit x4 j, jvar_bit x5 j, jvar_bit x6 j, jvar_bit x7 j))"
  using assms
    Lb_nibble [of "fst x0" "fst x1" "fst x2" "fst x3" "fst x4" "fst x5" "fst x6" "fst x7" _ _ _ _ _ _ _ _ j]
    Lb_nibble [of "snd x0" "snd x1" "snd x2" "snd x3" "snd x4" "snd x5" "snd x6" "snd x7" _ _ _ _ _ _ _ _ "j - 64"]
  by (auto simp: jh_L_def jvar_bit_def split: prod.splits)

section \<open>The swap layer\<close>

lemma all_less_numeral:
  "(\<forall>i < (64 :: nat). P i) \<longleftrightarrow> list_all P [0..<64]"
  "(\<forall>i < (128 :: nat). P i) \<longleftrightarrow> list_all P [0..<128]"
  by (auto simp: list_all_iff)

lemma upt_64_128:
  "[0..<64 :: nat] =
     [0, 1, 2, 3, 4, 5, 6, 7, 8, 9, 10, 11, 12, 13, 14, 15, 16, 17, 18, 19, 20, 21, 22, 23, 24,
      25, 26, 27, 28, 29, 30, 31, 32, 33, 34, 35, 36, 37, 38, 39, 40, 41, 42, 43, 44, 45, 46, 47,
      48, 49, 50, 51, 52, 53, 54, 55, 56, 57, 58, 59, 60, 61, 62, 63]"
  "[0..<128 :: nat] =
     [0, 1, 2, 3, 4, 5, 6, 7, 8, 9, 10, 11, 12, 13, 14, 15, 16, 17, 18, 19, 20, 21, 22, 23, 24,
      25, 26, 27, 28, 29, 30, 31, 32, 33, 34, 35, 36, 37, 38, 39, 40, 41, 42, 43, 44, 45, 46, 47,
      48, 49, 50, 51, 52, 53, 54, 55, 56, 57, 58, 59, 60, 61, 62, 63, 64, 65, 66, 67, 68, 69, 70,
      71, 72, 73, 74, 75, 76, 77, 78, 79, 80, 81, 82, 83, 84, 85, 86, 87, 88, 89, 90, 91, 92, 93,
      94, 95, 96, 97, 98, 99, 100, 101, 102, 103, 104, 105, 106, 107, 108, 109, 110, 111, 112,
      113, 114, 115, 116, 117, 118, 119, 120, 121, 122, 123, 124, 125, 126, 127]"
  by (simp_all add: upt_rec)

text \<open>The masked shifts swap bit positions at distance \<open>n\<close>.\<close>

definition swap_word :: "u64 \<Rightarrow> nat \<Rightarrow> u64 \<Rightarrow> u64" where
  "swap_word c n x = (drop_bit n x AND c) OR push_bit n (x AND c)"

lemma bit_swap_word:
  "\<forall>i<64. bit (swap_word 0x5555555555555555 1 x) i = bit x (i XOR 1)"
  "\<forall>i<64. bit (swap_word 0x3333333333333333 2 x) i = bit x (i XOR 2)"
  "\<forall>i<64. bit (swap_word 0x0F0F0F0F0F0F0F0F 4 x) i = bit x (i XOR 4)"
  "\<forall>i<64. bit (swap_word 0x00FF00FF00FF00FF 8 x) i = bit x (i XOR 8)"
  "\<forall>i<64. bit (swap_word 0x0000FFFF0000FFFF 16 x) i = bit x (i XOR 16)"
  "\<forall>i<64. bit (swap_word 0x00000000FFFFFFFF 32 x) i = bit x (i XOR 32)"
  unfolding all_less_numeral upt_64_128 swap_word_def
  by (simp_all add: bit_simps bit_double_iff mult.commute [of x 2]
      flip: numeral_3_eq_3 numeral_2_eq_2)

lemma xor_index:
  "\<forall>j<128. if j < 64 then j XOR 1 < (64 :: nat)
     else 64 \<le> j XOR 1 \<and> (j XOR 1) - 64 = (j - 64) XOR 1"
  "\<forall>j<128. if j < 64 then j XOR 2 < (64 :: nat)
     else 64 \<le> j XOR 2 \<and> (j XOR 2) - 64 = (j - 64) XOR 2"
  "\<forall>j<128. if j < 64 then j XOR 4 < (64 :: nat)
     else 64 \<le> j XOR 4 \<and> (j XOR 4) - 64 = (j - 64) XOR 4"
  "\<forall>j<128. if j < 64 then j XOR 8 < (64 :: nat)
     else 64 \<le> j XOR 8 \<and> (j XOR 8) - 64 = (j - 64) XOR 8"
  "\<forall>j<128. if j < 64 then j XOR 16 < (64 :: nat)
     else 64 \<le> j XOR 16 \<and> (j XOR 16) - 64 = (j - 64) XOR 16"
  "\<forall>j<128. if j < 64 then j XOR 32 < (64 :: nat)
     else 64 \<le> j XOR 32 \<and> (j XOR 32) - 64 = (j - 64) XOR 32"
  "\<forall>j<128. if j < 64 then (64 :: nat) \<le> j XOR 64 \<and> (j XOR 64) - 64 = j
     else j XOR 64 = j - 64"
  unfolding all_less_numeral upt_64_128
  by simp_all

lemma Wz_swap_word: "Wz c n x = (swap_word c n (fst x), swap_word c n (snd x))"
  by (simp add: Wz_def swap_word_def Let_def)

lemmas jh_W_defs = jh_W0_def jh_W1_def jh_W2_def jh_W3_def jh_W4_def jh_W5_def jh_W6_def

lemma Wz_bit:
  assumes "\<forall>i<64. \<forall>y. bit (swap_word c n y) i = bit y (i XOR n)"
    and "\<forall>j<128. if j < 64 then j XOR n < (64 :: nat)
      else 64 \<le> j XOR n \<and> (j XOR n) - 64 = (j - 64) XOR n"
    and "j < 128"
  shows "jvar_bit (Wz c n x) j = jvar_bit x (j XOR n)"
  using assms(1) assms(2) [rule_format, OF assms(3)] assms(3)
  by (auto simp: Wz_swap_word jvar_bit_def split: if_splits)

lemma jh_W_bit:
  "j < 128 \<Longrightarrow> jvar_bit (jh_W0 x) j = jvar_bit x (j XOR 2 ^ 0)"
  "j < 128 \<Longrightarrow> jvar_bit (jh_W1 x) j = jvar_bit x (j XOR 2 ^ 1)"
  "j < 128 \<Longrightarrow> jvar_bit (jh_W2 x) j = jvar_bit x (j XOR 2 ^ 2)"
  "j < 128 \<Longrightarrow> jvar_bit (jh_W3 x) j = jvar_bit x (j XOR 2 ^ 3)"
  "j < 128 \<Longrightarrow> jvar_bit (jh_W4 x) j = jvar_bit x (j XOR 2 ^ 4)"
  "j < 128 \<Longrightarrow> jvar_bit (jh_W5 x) j = jvar_bit x (j XOR 2 ^ 5)"
  "j < 128 \<Longrightarrow> jvar_bit (jh_W6 x) j = jvar_bit x (j XOR 2 ^ 6)"
proof -
  assume j: "j < 128"
  show "jvar_bit (jh_W0 x) j = jvar_bit x (j XOR 2 ^ 0)"
    using Wz_bit [OF _ xor_index(1) j] bit_swap_word(1) by (simp add: jh_W0_def)
  show "jvar_bit (jh_W1 x) j = jvar_bit x (j XOR 2 ^ 1)"
    using Wz_bit [OF _ xor_index(2) j] bit_swap_word(2) by (simp add: jh_W1_def)
  show "jvar_bit (jh_W2 x) j = jvar_bit x (j XOR 2 ^ 2)"
    using Wz_bit [OF _ xor_index(3) j] bit_swap_word(3) by (simp add: jh_W2_def)
  show "jvar_bit (jh_W3 x) j = jvar_bit x (j XOR 2 ^ 3)"
    using Wz_bit [OF _ xor_index(4) j] bit_swap_word(4) by (simp add: jh_W3_def)
  show "jvar_bit (jh_W4 x) j = jvar_bit x (j XOR 2 ^ 4)"
    using Wz_bit [OF _ xor_index(5) j] bit_swap_word(5) by (simp add: jh_W4_def)
  show "jvar_bit (jh_W5 x) j = jvar_bit x (j XOR 2 ^ 5)"
    using Wz_bit [OF _ xor_index(6) j] bit_swap_word(6) by (simp add: jh_W5_def)
  show "jvar_bit (jh_W6 x) j = jvar_bit x (j XOR 2 ^ 6)"
    using xor_index(7) [rule_format, OF j] j
    by (auto simp: jh_W6_def jvar_bit_def split: if_splits)
qed

lemma xor_less_128: "j < 128 \<Longrightarrow> ro < 7 \<Longrightarrow> j XOR 2 ^ ro < (128 :: nat)"
proof -
  have "x XOR y < 2 ^ 7" if "x < 2 ^ 7" "y < 2 ^ 7" for x y :: nat
    using that by (metis take_bit_nat_eq_self take_bit_xor take_bit_nat_less_exp)
  moreover assume "j < 128" "ro < 7"
  moreover from \<open>ro < 7\<close> have "(2 :: nat) ^ ro < 2 ^ 7"
    by (rule power_strict_increasing) simp
  ultimately show ?thesis by fastforce
qed

section \<open>The permutation refines the nibble-level one\<close>

lemma length_jh_banks [simp]: "length (jh_banks v) = 128"
  by (cases v) simp

lemma jh_SLu_spec:
  assumes W: "\<And>x j. j < 128 \<Longrightarrow> jvar_bit (W x) j = jvar_bit x (j XOR 2 ^ ro)" and ro: "ro < 7"
  shows "jh_banks (jh_SLu r W v) = jh_round_spec r ro (jh_banks v)"
proof (cases v)
  case (JVars h0 h1 h2 h3 h4 h5 h6 h7)
  obtain a0 a2 a4 a6 where S0: "jh_S h0 h2 h4 h6 (Ceven_hi r) (Ceven_lo r) = (a0, a2, a4, a6)"
    by (metis prod_cases4)
  obtain a1 a3 a5 a7 where S1: "jh_S h1 h3 h5 h7 (Codd_hi r) (Codd_lo r) = (a1, a3, a5, a7)"
    by (metis prod_cases4)
  obtain b0 b2 b4 b6 b1 b3 b5 b7 where
    L: "jh_L a0 a2 a4 a6 a1 a3 a5 a7 = (b0, b2, b4, b6, b1, b3, b5, b7)"
    by (cases "jh_L a0 a2 a4 a6 a1 a3 a5 a7") auto
  have v': "jh_SLu r W v = JVars b0 (W b1) b2 (W b3) b4 (W b5) b6 (W b7)"
    by (simp add: JVars S0 S1 L)
  have mix: "((jvar_bit b0 j, jvar_bit b2 j, jvar_bit b4 j, jvar_bit b6 j),
      (jvar_bit b1 j, jvar_bit b3 j, jvar_bit b5 j, jvar_bit b7 j)) =
    jh_linear (jh_sbox (jvar_bit (Ceven_hi r, Ceven_lo r) j) (fst (jh_banks v ! j)),
      jh_sbox (jvar_bit (Codd_hi r, Codd_lo r) j) (snd (jh_banks v ! j)))" if "j < 128" for j
    using jh_L_nibble [OF L, of j] jh_S_nibble [OF S0 that] jh_S_nibble [OF S1 that] that
    by (simp add: JVars)
  show ?thesis
  proof (rule nth_equalityI)
    fix j assume "j < length (jh_banks (jh_SLu r W v))"
    then have j: "j < 128" by simp
    then have j': "j XOR 2 ^ ro < 128" using ro by (rule xor_less_128)
    show "jh_banks (jh_SLu r W v) ! j = jh_round_spec r ro (jh_banks v) ! j"
      unfolding v' jh_round_spec_def Let_def
      using j j' by (simp add: W mix [symmetric])
  qed (simp add: jh_round_spec_def Let_def)
qed

lemma jh_SLu_rounds:
  "jh_banks (jh_SLu r jh_W0 v) = jh_round_spec r 0 (jh_banks v)"
  "jh_banks (jh_SLu r jh_W1 v) = jh_round_spec r 1 (jh_banks v)"
  "jh_banks (jh_SLu r jh_W2 v) = jh_round_spec r 2 (jh_banks v)"
  "jh_banks (jh_SLu r jh_W3 v) = jh_round_spec r 3 (jh_banks v)"
  "jh_banks (jh_SLu r jh_W4 v) = jh_round_spec r 4 (jh_banks v)"
  "jh_banks (jh_SLu r jh_W5 v) = jh_round_spec r 5 (jh_banks v)"
  "jh_banks (jh_SLu r jh_W6 v) = jh_round_spec r 6 (jh_banks v)"
  by (rule jh_SLu_spec; simp only: jh_W_bit; simp)+

lemma jh_E8_variants [variant_simps]: "jh_E8_small v = jh_E8_unrolled v"
  by (simp add: jh_E8_small_def jh_E8_unrolled_def Let_def flip: numeral_2_eq_2)

lemma jh_E8_refines: "jh_banks (jh_E8_unrolled v) = jh_E8_spec (jh_banks v)"
proof -
  have rounds: "[0..<42 :: nat] = [0, 1, 2, 3, 4, 5, 6, 7, 8, 9, 10, 11, 12, 13, 14, 15, 16, 17, 18,
      19, 20, 21, 22, 23, 24, 25, 26, 27, 28, 29, 30, 31, 32, 33, 34, 35, 36, 37, 38, 39, 40, 41]"
    by (simp add: upt_rec)
  show ?thesis
    by (simp add: jh_E8_unrolled_def jh_E8_spec_def rounds Let_def
        jh_SLu_rounds [simplified])
qed

text \<open>The banks determine the variables, so the permutation is the nibble-level one in full.\<close>

lemma jvar_eqI:
  assumes "\<And>j. j < 128 \<Longrightarrow> jvar_bit x j = jvar_bit y j"
  shows "x = y"
proof (rule prod_eqI)
  show "fst x = fst y"
  proof (rule bit_word_eqI)
    fix i assume "i < LENGTH(64)"
    then show "bit (fst x) i = bit (fst y) i"
      using assms [of i] by (simp add: jvar_bit_def)
  qed
  show "snd x = snd y"
  proof (rule bit_word_eqI)
    fix i assume "i < LENGTH(64)"
    then show "bit (snd x) i = bit (snd y) i"
      using assms [of "i + 64"] by (simp add: jvar_bit_def)
  qed
qed

lemma inj_jh_banks: "inj jh_banks"
proof (rule injI)
  fix v w assume eq: "jh_banks v = jh_banks w"
  have "jh_banks v ! j = jh_banks w ! j" if "j < 128" for j using eq by simp
  then show "v = w"
    by (cases v; cases w) (simp, intro conjI; rule jvar_eqI; simp)
qed

section \<open>The permutation is one\<close>

definition jh_sbox_inv :: "bool \<Rightarrow> nibble \<Rightarrow> nibble" where
  "jh_sbox_inv c x = nibble_of
     ((if c then [10, 6, 9, 0, 11, 4, 2, 5, 15, 7, 13, 12, 1, 3, 14, 8]
       else [1, 8, 10, 6, 2, 13, 11, 12, 14, 0, 9, 3, 5, 4, 15, 7]) ! nibble_val x)"

lemma jh_sbox_inv: "jh_sbox_inv c (jh_sbox c x) = x"
  by (cases x; cases c; cases "fst x"; cases "fst (snd x)"; cases "fst (snd (snd x))";
      cases "snd (snd (snd x))";
      simp add: jh_sbox_inv_def jh_sbox_def nibble_val_def nibble_of_def)

lemma nib_xor_cancel: "nib_xor (nib_xor a b) b = a"
  by (cases a; cases b) (auto simp: nib_xor_def)

definition jh_linear_inv :: "nibble \<times> nibble \<Rightarrow> nibble \<times> nibble" where
  "jh_linear_inv = (\<lambda>(C, D).
     let A = nib_xor C (gf16_double D); B = nib_xor D (gf16_double A) in (A, B))"

lemma jh_linear_inv: "jh_linear_inv (jh_linear x) = x"
  by (cases x) (simp add: jh_linear_inv_def jh_linear_def Let_def nib_xor_cancel)

lemma inj_jh_linear: "jh_linear x = jh_linear y \<Longrightarrow> x = y"
  by (metis jh_linear_inv)

lemma xor_xor_nat: "(j XOR k) XOR k = (j :: nat)"
  by (auto simp: bit_eq_iff bit_simps)

lemma inj_jh_SLu:
  assumes W: "\<And>x j. j < 128 \<Longrightarrow> jvar_bit (W x) j = jvar_bit x (j XOR 2 ^ ro)" and ro: "ro < 7"
  shows "inj (jh_SLu r W)"
proof (rule injI)
  fix v w assume eq: "jh_SLu r W v = jh_SLu r W w"
  define m where "m u j = jh_linear
      (jh_sbox (jvar_bit (Ceven_hi r, Ceven_lo r) j) (fst (jh_banks u ! j)),
       jh_sbox (jvar_bit (Codd_hi r, Codd_lo r) j) (snd (jh_banks u ! j)))" for u j
  have banks: "jh_banks (jh_SLu r W u) ! j = (fst (m u j), snd (m u (j XOR 2 ^ ro)))"
    if "j < 128" for u j
    using that xor_less_128 [OF that ro]
    by (simp add: jh_SLu_spec [OF W ro] jh_round_spec_def Let_def m_def)
  have "jh_banks v ! j = jh_banks w ! j" if j: "j < 128" for j
  proof -
    have "fst (m v j) = fst (m w j)" using banks [OF j] eq by (metis fst_conv)
    moreover have "snd (m v j) = snd (m w j)"
      using banks [OF xor_less_128 [OF j ro]] eq by (metis snd_conv xor_xor_nat)
    ultimately have "m v j = m w j" by (rule prod_eqI)
    then show ?thesis
      unfolding m_def using inj_jh_linear by (metis Pair_inject jh_sbox_inv prod_eqI)
  qed
  then have "jh_banks v = jh_banks w" by (simp add: list_eq_iff_nth_eq)
  then show "v = w" by (rule injD [OF inj_jh_banks])
qed

lemma finite_jvars: "finite (UNIV :: jvars set)"
proof -
  have "inj (case_jvars (\<lambda>a b c d e f g h. (a, b, c, d, e, f, g, h)))"
    by (rule injI) (auto split: jvars.splits)
  then show ?thesis by (rule finite_imageD [rotated]) (rule finite)
qed

lemma inj_jh_rounds:
  "inj (jh_SLu r jh_W0)" "inj (jh_SLu r jh_W1)" "inj (jh_SLu r jh_W2)" "inj (jh_SLu r jh_W3)"
  "inj (jh_SLu r jh_W4)" "inj (jh_SLu r jh_W5)" "inj (jh_SLu r jh_W6)"
  by (simp_all add: inj_jh_SLu [OF jh_W_bit(1)] inj_jh_SLu [OF jh_W_bit(2)]
      inj_jh_SLu [OF jh_W_bit(3)] inj_jh_SLu [OF jh_W_bit(4)] inj_jh_SLu [OF jh_W_bit(5)]
      inj_jh_SLu [OF jh_W_bit(6)] inj_jh_SLu [OF jh_W_bit(7)])

lemma bij_jh_E8: "bij jh_E8_unrolled"
proof -
  have "inj jh_E8_unrolled"
    by (rule injI) (simp add: jh_E8_unrolled_def Let_def inj_eq [OF inj_jh_rounds(1)]
        inj_eq [OF inj_jh_rounds(2)] inj_eq [OF inj_jh_rounds(3)] inj_eq [OF inj_jh_rounds(4)]
        inj_eq [OF inj_jh_rounds(5)] inj_eq [OF inj_jh_rounds(6)] inj_eq [OF inj_jh_rounds(7)])
  then show ?thesis
    by (simp add: bij_def finite_UNIV_inj_surj [OF finite_jvars])
qed

section \<open>The digest\<close>

text \<open>
  JH-512 on a whole message: pad with \<open>0x80\<close>, at least 47 zero bytes up to 16 bytes before a
  block boundary, and the 128-bit big-endian bit length; per block, add the block to the first
  half of the state, permute, add it to the second half; output the last 64 bytes of the state.
\<close>

definition jh_F8 :: "u64 list \<Rightarrow> bytes \<Rightarrow> u64 list" where
  "jh_F8 H b =
     jh_WRITE_STATE (jh_INPUT_BUF2 (jh_E8_unrolled (jh_INPUT_BUF1 (jh_READ_STATE H) (jh_message b)))
       (jh_message b))"

definition jh_pad :: "bytes \<Rightarrow> bytes" where
  "jh_pad m = m @ 0x80 # replicate (47 + (64 - length m mod 64) mod 64) 0 @
     sph_enc64be (of_nat (8 * length m div 2 ^ 64)) @ sph_enc64be (of_nat (8 * length m))"

definition jh512_digest :: "bytes \<Rightarrow> bytes" where
  "jh512_digest m =
     concat (map sph_enc64le (drop 8 (fst (absorb 64 jh_F8 jh_IV512 (jh_pad m)))))"

lemma jh_block_eq: "jh_block = (\<lambda>(H, c) b. (jh_F8 H b, c + 1))"
  by (intro ext) (simp add: jh_block_def jh_F8_def jh_E8_variants Let_def case_prod_beta)

lemma length_jh_WRITE_STATE [simp]: "length (jh_WRITE_STATE v) = 16"
  by (cases v) simp

interpretation jh: sph_stream 64 jh_block
proof
  fix st :: "u64 list \<times> u64" and buf
  have "jh_message (take 64 buf) = jh_message buf"
    by (simp add: jh_message_def dec_take)
  then show "jh_block st (take 64 buf) = jh_block st buf"
    by (simp add: jh_block_def case_prod_beta)
qed simp

definition jh_ok :: "jh_context \<Rightarrow> bool" where
  "jh_ok sc \<longleftrightarrow> length (jh_buf sc) = 64 \<and> jh_ptr sc < 64"

definition jh_chain :: "jh_context \<Rightarrow> u64 list \<times> u64" where
  "jh_chain sc = (jh_H sc, jh_block_count sc)"

definition jh_pending :: "jh_context \<Rightarrow> bytes" where
  "jh_pending sc = take (jh_ptr sc) (jh_buf sc)"

interpretation jh_ctx: sph_hash 64 jh_block jh_ok jh_chain jh_pending sph_jh512
proof
  fix sc xs assume ok: "jh_ok sc"
  show "\<exists>c'. sph_jh512 sc xs = Some c' \<and> jh_ok c' \<and>
      (jh_chain c', jh_pending c') = absorb 64 jh_block (jh_chain sc) (jh_pending sc @ xs)"
    using jh.core_step [of "jh_ptr sc" "jh_buf sc" "jh_chain sc" xs] ok
    by (auto simp: sph_jh512_def jh_core_def jh_ok_def jh_pending_def jh_chain_def)
qed (simp add: jh_ok_def jh_pending_def)

text \<open>The length words of \<open>jh_close\<close>: the block count and the buffer position give the bit length.\<close>

lemma jh_length_words:
  fixes l :: nat
  assumes "l < 2 ^ 70"
  shows "SPH_T64 (push_bit 9 (of_nat (l div 64))) + of_nat (l mod 64 * 8) = (of_nat (8 * l) :: u64)"
    "SPH_T64 (drop_bit 55 (of_nat (l div 64))) = of_nat (8 * l div 2 ^ 64)"
proof -
  have "8 * l = l div 64 * 512 + l mod 64 * 8" using div_mult_mod_eq [of l 64] by linarith
  then have "(of_nat (8 * l) :: u64) = of_nat (l div 64) * 512 + of_nat (l mod 64 * 8)"
    by (metis of_nat_add of_nat_mult of_nat_numeral)
  then show "SPH_T64 (push_bit 9 (of_nat (l div 64))) + of_nat (l mod 64 * 8) =
      (of_nat (8 * l) :: u64)"
    by (simp add: push_bit_eq_mult del: of_nat_mult of_nat_add)
  have "l div 64 < 2 ^ 64" using assms by auto
  then have "unat (of_nat (l div 64) :: u64) = l div 64"
    by (intro of_nat_inverse) simp_all
  then have "drop_bit 55 (of_nat (l div 64) :: u64) = of_nat (drop_bit 55 (l div 64))"
    by (metis of_nat_unat ucast_id unat_drop_bit_eq)
  also have "drop_bit 55 (l div 64) = 8 * l div 2 ^ 64"
  proof -
    have "8 * l div 2 ^ 64 = 8 * l div (8 * 2 ^ 61)" by simp
    also have "\<dots> = l div 2 ^ 61" by (rule div_mult_mult1) simp
    also have "\<dots> = l div (64 * 2 ^ 55)" by simp
    also have "\<dots> = drop_bit 55 (l div 64)" by (simp only: drop_bit_eq_div div_mult2_eq)
    finally show ?thesis by simp
  qed
  finally show "SPH_T64 (drop_bit 55 (of_nat (l div 64))) = of_nat (8 * l div 2 ^ 64)"
    by simp
qed

lemma jh512_run:
  assumes buf: "length (jh_buf cc) = 64" and short: "length (concat chunks) < 2 ^ 70"
  shows "\<exists>sc sc'. feed sph_jh512 (sph_jh512_init cc) chunks = Some sc \<and>
    sph_jh512_close sc = Some (sc', jh512_digest (concat chunks)) \<and>
    jh_H sc' = jh_IV512 \<and> jh_ptr sc' = 0 \<and> jh_block_count sc' = 0"
proof -
  let ?m = "concat chunks" and ?c0 = "sph_jh512_init cc"
  have c0: "jh_ok ?c0" "jh_chain ?c0 = (jh_IV512, 0)" "jh_pending ?c0 = []"
    using buf by (simp_all add: jh_ok_def jh_pending_def jh_chain_def sph_jh512_init_def jh_init_def)
  then obtain sc where sc: "feed sph_jh512 ?c0 chunks = Some sc" "jh_ok sc"
      "absorb 64 jh_block (jh_IV512, 0) ?m = (jh_chain sc, jh_pending sc)"
    using jh_ctx.feed_ok [of ?c0 chunks] by auto
  have len: "length (jh_pending sc) = jh_ptr sc" "jh_ptr sc < 64"
    using sc(2) by (simp_all add: jh_ok_def jh_pending_def)
  have ptr: "jh_ptr sc = length ?m mod 64"
    using length_absorb_mod [of 64 jh_block "(jh_IV512, 0)" ?m] sc(3) len by simp
  have count: "jh_block_count sc = of_nat (length ?m div 64)"
    using absorb_counter [of 64 jh_F8 "1 :: u64" jh_IV512 0 ?m] sc(3)
    unfolding jh_block_eq by (simp add: jh_chain_def)
  define p where "p = 0x80 # replicate (47 + (64 - length ?m mod 64) mod 64) 0 @
     sph_enc64be (of_nat (8 * length ?m div 2 ^ 64)) @ sph_enc64be (of_nat (8 * length ?m))"
  obtain sc1 where sc1: "sph_jh512 sc p = Some sc1"
      "(jh_chain sc1, jh_pending sc1) = absorb 64 jh_block (jh_chain sc) (jh_pending sc @ p)"
    using jh_ctx.core_ok [OF sc(2), of p] by blast
  have "absorb 64 jh_block (jh_IV512, 0) (jh_pad ?m) = (jh_chain sc1, jh_pending sc1)"
    using absorb_append [of 64 jh_block "(jh_IV512, 0)" ?m p] sc(3) sc1(2)
    by (simp add: jh_pad_def p_def)
  then have H: "jh_H sc1 = fst (absorb 64 jh_F8 jh_IV512 (jh_pad ?m))"
    using absorb_counter [of 64 jh_F8 "1 :: u64" jh_IV512 0 "jh_pad ?m"]
    unfolding jh_block_eq by (simp add: jh_chain_def)
  have close: "sph_jh512_close sc = Option.bind (sph_jh512 sc p) (\<lambda>sc.
      Some (jh_init sc jh_IV512, concat (map (\<lambda>u. sph_enc64le (jh_H sc ! (u + 8))) [0..<8])))"
  proof -
    have out: "take (4 * 16) (drop (4 * (16 - 16)) x) = x"
      if "x = concat (map (\<lambda>u. sph_enc64le (H ! (u + 8))) [0..<8])" for x H
      by (simp add: that upt_numerals)
    have numz: "(if jh_ptr sc = 0 \<and> (0 :: nat) = 0 then 47 else 111 - jh_ptr sc) =
        47 + (64 - length ?m mod 64) mod 64"
      unfolding ptr [symmetric] using len by (simp add: mod_if)
    show ?thesis
      unfolding sph_jh512_close_def jh_close_def Let_def numz out [OF refl]
      by (simp add: p_def sph_jh512_def ptr count jh_length_words [OF short, simplified])
  qed
  have "length (fst (absorb 64 jh_F8 jh_IV512 (jh_pad ?m))) = 16"
    by (rule absorb_invariant) (simp_all add: jh_IV512_def jh_F8_def)
  then have "map (\<lambda>u. sph_enc64le (jh_H sc1 ! (u + 8))) [0..<8] = map sph_enc64le (drop 8 (jh_H sc1))"
    unfolding H by (auto intro: nth_equalityI simp: add.commute)
  then show ?thesis
    using sc(1) sc1(1) close by (simp add: jh512_digest_def H jh_init_def)
qed

section \<open>Properties\<close>



text \<open>
  both forms of \<open>E8\<close> refine the nibble-level permutation of JH: on the two banks of 128
  nibbles that the eight bit-sliced variables hold, they compute 42 rounds of S-box layer
  (selected by the round constant), linear map over GF(16) and position swap.
\<close>

theorem jh_E8_correct:
  "jh_banks (jh_E8_small v) = jh_E8_spec (jh_banks v) \<and>
   jh_banks (jh_E8_unrolled v) = jh_E8_spec (jh_banks v)"
  by (simp add: jh_E8_variants jh_E8_refines)

text \<open>the permutation \<open>E8\<close> is one: the bit-sliced code maps the states one to one onto themselves.\<close>

theorem jh_E8_bijective: "bij jh_E8_small"
proof -
  have "jh_E8_small = jh_E8_unrolled" by (rule ext) (rule jh_E8_variants)
  then show ?thesis by (simp add: bij_jh_E8)
qed

end
