(* ===== verification/Blake.thy ===== *)
theory Blake
  imports SphStream
begin

text \<open>
  \<open>src/src/crypto/x11/blake.c\<close>: BLAKE-512, the first function of the X11 chain. A context holds the
  buffer, eight chaining words, four salt words (zero) and a 128-bit counter of hashed bits in
  \<open>T0, T1\<close>. \<open>COMPRESS64\<close> exists with tables and a loop (\<open>SPH_COMPACT_BLAKE_64\<close>) and with pasted
  names and 16 written-out rounds. \<open>blake64_close\<close> prepares the counter so that the increment in
  \<open>blake64\<close> lands on the number of message bits, or on zero for a block without message bits. The
  theorems: both forms are the published compression function, and the interface computes
  BLAKE-512 with the published counters.
\<close>

section \<open>Constants\<close>

definition blake_IV512 :: "u64 list" where
  "blake_IV512 =
     [0x6A09E667F3BCC908, 0xBB67AE8584CAA73B, 0x3C6EF372FE94F82B, 0xA54FF53A5F1D36F1,
      0x510E527FADE682D1, 0x9B05688C2B3E6C1F, 0x1F83D9ABFB41BD6B, 0x5BE0CD19137E2179]"

definition sigma :: "nat list list" where
  "sigma =
     [[0, 1, 2, 3, 4, 5, 6, 7, 8, 9, 10, 11, 12, 13, 14, 15],
      [14, 10, 4, 8, 9, 15, 13, 6, 1, 12, 0, 2, 11, 7, 5, 3],
      [11, 8, 12, 0, 5, 2, 15, 13, 10, 14, 3, 6, 7, 1, 9, 4],
      [7, 9, 3, 1, 13, 12, 11, 14, 2, 6, 5, 10, 4, 0, 15, 8],
      [9, 0, 5, 7, 2, 4, 10, 15, 14, 1, 11, 12, 6, 8, 3, 13],
      [2, 12, 6, 10, 0, 11, 8, 3, 4, 13, 7, 5, 15, 14, 1, 9],
      [12, 5, 1, 15, 14, 13, 4, 10, 0, 7, 6, 3, 9, 2, 8, 11],
      [13, 11, 7, 14, 12, 1, 3, 9, 5, 0, 15, 4, 8, 6, 2, 10],
      [6, 15, 14, 9, 11, 3, 0, 8, 12, 2, 13, 7, 1, 4, 10, 5],
      [10, 2, 8, 4, 7, 6, 1, 5, 15, 11, 9, 14, 3, 12, 13, 0],
      [0, 1, 2, 3, 4, 5, 6, 7, 8, 9, 10, 11, 12, 13, 14, 15],
      [14, 10, 4, 8, 9, 15, 13, 6, 1, 12, 0, 2, 11, 7, 5, 3],
      [11, 8, 12, 0, 5, 2, 15, 13, 10, 14, 3, 6, 7, 1, 9, 4],
      [7, 9, 3, 1, 13, 12, 11, 14, 2, 6, 5, 10, 4, 0, 15, 8],
      [9, 0, 5, 7, 2, 4, 10, 15, 14, 1, 11, 12, 6, 8, 3, 13],
      [2, 12, 6, 10, 0, 11, 8, 3, 4, 13, 7, 5, 15, 14, 1, 9]]"

text \<open>The macros \<open>Z00 .. Z9F\<close>, one row for each round.\<close>

definition blake_Z :: "nat list list" where
  "blake_Z =
     [[0, 1, 2, 3, 4, 5, 6, 7, 8, 9, 10, 11, 12, 13, 14, 15],
      [14, 10, 4, 8, 9, 15, 13, 6, 1, 12, 0, 2, 11, 7, 5, 3],
      [11, 8, 12, 0, 5, 2, 15, 13, 10, 14, 3, 6, 7, 1, 9, 4],
      [7, 9, 3, 1, 13, 12, 11, 14, 2, 6, 5, 10, 4, 0, 15, 8],
      [9, 0, 5, 7, 2, 4, 10, 15, 14, 1, 11, 12, 6, 8, 3, 13],
      [2, 12, 6, 10, 0, 11, 8, 3, 4, 13, 7, 5, 15, 14, 1, 9],
      [12, 5, 1, 15, 14, 13, 4, 10, 0, 7, 6, 3, 9, 2, 8, 11],
      [13, 11, 7, 14, 12, 1, 3, 9, 5, 0, 15, 4, 8, 6, 2, 10],
      [6, 15, 14, 9, 11, 3, 0, 8, 12, 2, 13, 7, 1, 4, 10, 5],
      [10, 2, 8, 4, 7, 6, 1, 5, 15, 11, 9, 14, 3, 12, 13, 0]]"

text \<open>The macros \<open>CB0 .. CBF\<close> and the array \<open>CB\<close> of the compact form.\<close>

definition blake_CB_macros :: "u64 list" where
  "blake_CB_macros =
     [0x243F6A8885A308D3, 0x13198A2E03707344, 0xA4093822299F31D0, 0x082EFA98EC4E6C89,
      0x452821E638D01377, 0xBE5466CF34E90C6C, 0xC0AC29B7C97C50DD, 0x3F84D5B5B5470917,
      0x9216D5D98979FB1B, 0xD1310BA698DFB5AC, 0x2FFD72DBD01ADFB7, 0xB8E1AFED6A267E96,
      0xBA7C9045F12C7F99, 0x24A19947B3916CF7, 0x0801F2E2858EFC16, 0x636920D871574E69]"

definition blake_CB :: "u64 list" where
  "blake_CB =
     [0x243F6A8885A308D3, 0x13198A2E03707344, 0xA4093822299F31D0, 0x082EFA98EC4E6C89,
      0x452821E638D01377, 0xBE5466CF34E90C6C, 0xC0AC29B7C97C50DD, 0x3F84D5B5B5470917,
      0x9216D5D98979FB1B, 0xD1310BA698DFB5AC, 0x2FFD72DBD01ADFB7, 0xB8E1AFED6A267E96,
      0xBA7C9045F12C7F99, 0x24A19947B3916CF7, 0x0801F2E2858EFC16, 0x636920D871574E69]"

section \<open>State\<close>

datatype bvars =
  BVars u64 u64 u64 u64 u64 u64 u64 u64 u64 u64 u64 u64 u64 u64 u64 u64

record blake_context =
  bl_buf :: bytes
  bl_ptr :: nat
  bl_H :: "u64 list"
  bl_S :: "u64 list"
  bl_T0 :: u64
  bl_T1 :: u64

section \<open>The compression function\<close>

definition GB ::
  "u64 \<Rightarrow> u64 \<Rightarrow> u64 \<Rightarrow> u64 \<Rightarrow> u64 \<Rightarrow> u64 \<Rightarrow> u64 \<Rightarrow> u64 \<Rightarrow> u64 \<times> u64 \<times> u64 \<times> u64"
where
  "GB m0 m1 c0 c1 a b c d =
     (let
        a = SPH_T64 (a + b + (m0 XOR c1));
        d = SPH_ROTR64 (d XOR a) 32;
        c = SPH_T64 (c + d);
        b = SPH_ROTR64 (b XOR c) 25;
        a = SPH_T64 (a + b + (m1 XOR c0));
        d = SPH_ROTR64 (d XOR a) 16;
        c = SPH_T64 (c + d);
        b = SPH_ROTR64 (b XOR c) 11
      in (a, b, c, d))"

text \<open>
  \<open>ROUND_B(r)\<close>: both forms apply \<open>GB\<close> to the four columns, then to the four diagonals; they differ
  in how they find the message word and the constant of an index, the arguments \<open>M\<close> and \<open>C\<close> here.
\<close>

primrec ROUND_B_with :: "(nat \<Rightarrow> u64) \<Rightarrow> (nat \<Rightarrow> u64) \<Rightarrow> bvars \<Rightarrow> bvars" where
  "ROUND_B_with M C (BVars V0 V1 V2 V3 V4 V5 V6 V7 V8 V9 VA VB VC VD VE VF) =
     (let
        (V0, V4, V8, VC) = GB (M 0x0) (M 0x1) (C 0x0) (C 0x1) V0 V4 V8 VC;
        (V1, V5, V9, VD) = GB (M 0x2) (M 0x3) (C 0x2) (C 0x3) V1 V5 V9 VD;
        (V2, V6, VA, VE) = GB (M 0x4) (M 0x5) (C 0x4) (C 0x5) V2 V6 VA VE;
        (V3, V7, VB, VF) = GB (M 0x6) (M 0x7) (C 0x6) (C 0x7) V3 V7 VB VF;
        (V0, V5, VA, VF) = GB (M 0x8) (M 0x9) (C 0x8) (C 0x9) V0 V5 VA VF;
        (V1, V6, VB, VC) = GB (M 0xA) (M 0xB) (C 0xA) (C 0xB) V1 V6 VB VC;
        (V2, V7, V8, VD) = GB (M 0xC) (M 0xD) (C 0xC) (C 0xD) V2 V7 V8 VD;
        (V3, V4, V9, VE) = GB (M 0xE) (M 0xF) (C 0xE) (C 0xF) V3 V4 V9 VE
      in BVars V0 V1 V2 V3 V4 V5 V6 V7 V8 V9 VA VB VC VD VE VF)"

definition ROUND_B_compact :: "u64 list \<Rightarrow> nat \<Rightarrow> bvars \<Rightarrow> bvars" where
  "ROUND_B_compact M r =
     ROUND_B_with (\<lambda>i. M ! (sigma ! r ! i)) (\<lambda>i. blake_CB ! (sigma ! r ! i))"

definition ROUND_B :: "u64 list \<Rightarrow> nat \<Rightarrow> bvars \<Rightarrow> bvars" where
  "ROUND_B M r =
     ROUND_B_with (\<lambda>i. M ! (blake_Z ! r ! i)) (\<lambda>i. blake_CB_macros ! (blake_Z ! r ! i))"

text \<open>The parts that both forms of \<open>COMPRESS64\<close> write identically: the entry and the feed-forward.\<close>

definition blake_V_init :: "u64 list \<Rightarrow> u64 list \<Rightarrow> u64 \<Rightarrow> u64 \<Rightarrow> bvars" where
  "blake_V_init H S T0 T1 =
     (let CB = blake_CB_macros
      in BVars (H ! 0) (H ! 1) (H ! 2) (H ! 3) (H ! 4) (H ! 5) (H ! 6) (H ! 7)
           (S ! 0 XOR CB ! 0) (S ! 1 XOR CB ! 1) (S ! 2 XOR CB ! 2) (S ! 3 XOR CB ! 3)
           (T0 XOR CB ! 4) (T0 XOR CB ! 5) (T1 XOR CB ! 6) (T1 XOR CB ! 7))"

definition blake_M :: "bytes \<Rightarrow> u64 list" where
  "blake_M buf =
     [sph_dec64be buf 0, sph_dec64be buf 8, sph_dec64be buf 16, sph_dec64be buf 24,
      sph_dec64be buf 32, sph_dec64be buf 40, sph_dec64be buf 48, sph_dec64be buf 56,
      sph_dec64be buf 64, sph_dec64be buf 72, sph_dec64be buf 80, sph_dec64be buf 88,
      sph_dec64be buf 96, sph_dec64be buf 104, sph_dec64be buf 112, sph_dec64be buf 120]"

primrec blake_feed :: "u64 list \<Rightarrow> u64 list \<Rightarrow> bvars \<Rightarrow> u64 list" where
  "blake_feed H S (BVars V0 V1 V2 V3 V4 V5 V6 V7 V8 V9 VA VB VC VD VE VF) =
     [H ! 0 XOR (S ! 0 XOR V0 XOR V8), H ! 1 XOR (S ! 1 XOR V1 XOR V9),
      H ! 2 XOR (S ! 2 XOR V2 XOR VA), H ! 3 XOR (S ! 3 XOR V3 XOR VB),
      H ! 4 XOR (S ! 0 XOR V4 XOR VC), H ! 5 XOR (S ! 1 XOR V5 XOR VD),
      H ! 6 XOR (S ! 2 XOR V6 XOR VE), H ! 7 XOR (S ! 3 XOR V7 XOR VF)]"

definition COMPRESS64_compact ::
  "u64 list \<Rightarrow> u64 list \<Rightarrow> u64 \<Rightarrow> u64 \<Rightarrow> bytes \<Rightarrow> u64 list"
where
  "COMPRESS64_compact H S T0 T1 buf =
     (let
        V = blake_V_init H S T0 T1;
        M = blake_M buf;
        V = fold (ROUND_B_compact M) [0..<16] V
      in blake_feed H S V)"

definition COMPRESS64 ::
  "u64 list \<Rightarrow> u64 list \<Rightarrow> u64 \<Rightarrow> u64 \<Rightarrow> bytes \<Rightarrow> u64 list"
where
  "COMPRESS64 H S T0 T1 buf =
     (let
        V = blake_V_init H S T0 T1;
        M = blake_M buf;
        V = ROUND_B M 0 V; V = ROUND_B M 1 V; V = ROUND_B M 2 V; V = ROUND_B M 3 V;
        V = ROUND_B M 4 V; V = ROUND_B M 5 V; V = ROUND_B M 6 V; V = ROUND_B M 7 V;
        V = ROUND_B M 8 V; V = ROUND_B M 9 V; V = ROUND_B M 0 V; V = ROUND_B M 1 V;
        V = ROUND_B M 2 V; V = ROUND_B M 3 V; V = ROUND_B M 4 V; V = ROUND_B M 5 V
      in blake_feed H S V)"

section \<open>Init, update, close\<close>

definition salt_zero_big :: "u64 list" where
  "salt_zero_big = [0, 0, 0, 0]"

definition blake64_init :: "blake_context \<Rightarrow> u64 list \<Rightarrow> u64 list \<Rightarrow> blake_context" where
  "blake64_init sc iv salt =
     sc\<lparr>bl_H := iv, bl_S := salt, bl_T0 := 0, bl_T1 := 0, bl_ptr := 0\<rparr>"

type_synonym blake_chain = "u64 list \<times> u64 list \<times> u64 \<times> u64"

definition blake_block :: "blake_chain \<Rightarrow> bytes \<Rightarrow> blake_chain" where
  "blake_block = (\<lambda>(H, S, T0, T1) buf.
     let
       T0 = SPH_T64 (T0 + 1024);
       T1 = (if T0 < 1024 then SPH_T64 (T1 + 1) else T1)
     in (COMPRESS64 H S T0 T1 buf, S, T0, T1))"

definition blake64 :: "blake_context \<Rightarrow> bytes \<Rightarrow> blake_context option" where
  "blake64 sc data =
     map_option (\<lambda>((H, S, T0, T1), buf, ptr).
         sc\<lparr>bl_buf := buf, bl_ptr := ptr, bl_H := H, bl_S := S, bl_T0 := T0, bl_T1 := T1\<rparr>)
       (sph_core 128 blake_block (bl_H sc, bl_S sc, bl_T0 sc, bl_T1 sc) (bl_buf sc) (bl_ptr sc) data)"

text \<open>
  The local buffer \<open>u.buf\<close> of the close function is used from \<open>ptr\<close> on; \<open>tail\<close> is that part up to
  index 111, so \<open>u.buf[111]\<close> is its last byte.
\<close>

definition blake64_close ::
  "blake_context \<Rightarrow> u32 \<Rightarrow> nat \<Rightarrow> nat \<Rightarrow> (blake_context \<times> bytes) option"
where
  "blake64_close sc ub n out_size_w64 =
     (let
        ptr = bl_ptr sc;
        bit_len = ptr * 8 + n;
        z = drop_bit n 0x80;
        b = ucast (((ub AND (- z)) OR z) AND 0xFF);
        tl = bl_T0 sc + of_nat bit_len;
        th = bl_T1 sc;
        sc =
          (if ptr = 0 \<and> n = 0 then
             sc\<lparr>bl_T0 := 0xFFFFFFFFFFFFFC00, bl_T1 := 0xFFFFFFFFFFFFFFFF\<rparr>
           else if bl_T0 sc = 0 then
             sc\<lparr>bl_T0 := 0xFFFFFFFFFFFFFC00 + of_nat bit_len, bl_T1 := SPH_T64 (bl_T1 sc - 1)\<rparr>
           else sc\<lparr>bl_T0 := bl_T0 sc - of_nat (1024 - bit_len)\<rparr>)
      in do {
        sc \<leftarrow>
          (if bit_len \<le> 894 then
             let tail = b # replicate (111 - ptr) 0;
                 tail = (if out_size_w64 = 8 then tail[111 - ptr := tail ! (111 - ptr) OR 1] else tail)
             in blake64 sc (tail @ sph_enc64be th @ sph_enc64be tl)
           else do {
             sc \<leftarrow> blake64 sc (b # replicate (127 - ptr) 0);
             let sc = sc\<lparr>bl_T0 := 0xFFFFFFFFFFFFFC00, bl_T1 := 0xFFFFFFFFFFFFFFFF\<rparr>;
             let u = replicate 112 0;
             let u = (if out_size_w64 = 8 then u[111 := 1] else u);
             blake64 sc (u @ sph_enc64be th @ sph_enc64be tl)
           });
        Some (sc, concat (map (\<lambda>k. sph_enc64be (bl_H sc ! k)) [0..<out_size_w64]))
      })"

definition sph_blake512_init :: "blake_context \<Rightarrow> blake_context" where
  "sph_blake512_init cc = blake64_init cc blake_IV512 salt_zero_big"

definition sph_blake512 :: "blake_context \<Rightarrow> bytes \<Rightarrow> blake_context option" where
  "sph_blake512 cc data = blake64 cc data"

definition sph_blake512_addbits_and_close ::
  "blake_context \<Rightarrow> u32 \<Rightarrow> nat \<Rightarrow> (blake_context \<times> bytes) option"
where
  "sph_blake512_addbits_and_close cc ub n = do {
     (cc, dst) \<leftarrow> blake64_close cc ub n 8;
     Some (sph_blake512_init cc, dst)
   }"

definition sph_blake512_close :: "blake_context \<Rightarrow> (blake_context \<times> bytes) option" where
  "sph_blake512_close cc = sph_blake512_addbits_and_close cc 0 0"

section \<open>The published compression function\<close>

text \<open>
  On the \<open>4 \<times> 4\<close> matrix as a list: \<open>G\<^sub>i\<close> with the permutation of round \<open>r mod 10\<close>, on the four
  columns and then the four diagonals; 14 or more rounds of it, 16 for BLAKE-512; the counter is
  one 128-bit number.
\<close>

definition blake_half_spec ::
  "u64 \<Rightarrow> nat \<Rightarrow> nat \<Rightarrow> nat \<times> nat \<times> nat \<times> nat \<Rightarrow> u64 list \<Rightarrow> u64 list"
where
  "blake_half_spec x k l = (\<lambda>(a, b, c, d) v.
     let
       v = v[a := v ! a + v ! b + x];
       v = v[d := word_rotr k (v ! d XOR v ! a)];
       v = v[c := v ! c + v ! d];
       v = v[b := word_rotr l (v ! b XOR v ! c)]
     in v)"

definition blake_G_spec ::
  "u64 list \<Rightarrow> nat list \<Rightarrow> nat \<times> nat \<times> nat \<times> nat \<times> nat \<Rightarrow> u64 list \<Rightarrow> u64 list"
where
  "blake_G_spec m p = (\<lambda>(i, q) v.
     let
       e = p ! (2 * i);
       f = p ! (2 * i + 1);
       v = blake_half_spec (m ! e XOR blake_CB ! f) 32 25 q v;
       v = blake_half_spec (m ! f XOR blake_CB ! e) 16 11 q v
     in v)"

definition blake_round_spec :: "u64 list \<Rightarrow> nat list \<Rightarrow> u64 list \<Rightarrow> u64 list" where
  "blake_round_spec m p v = fold (blake_G_spec m p)
     [(0, 0, 4, 8, 12), (1, 1, 5, 9, 13), (2, 2, 6, 10, 14), (3, 3, 7, 11, 15),
      (4, 0, 5, 10, 15), (5, 1, 6, 11, 12), (6, 2, 7, 8, 13), (7, 3, 4, 9, 14)] v"

definition blake_compress_spec :: "u64 list \<Rightarrow> u64 list \<Rightarrow> nat \<Rightarrow> bytes \<Rightarrow> u64 list" where
  "blake_compress_spec h s t b =
     (let
        t0 = of_nat t;
        t1 = of_nat (t div 2 ^ 64);
        m = map (\<lambda>i. sph_dec64be b (8 * i)) [0..<16];
        v = h @ map2 (XOR) (s @ [t0, t0, t1, t1]) (take 8 blake_CB);
        v = fold (\<lambda>r. blake_round_spec m (sigma ! (r mod 10))) [0..<16] v
      in map (\<lambda>i. h ! i XOR s ! (i mod 4) XOR v ! i XOR v ! (i + 8)) [0..<8])"

primrec bvars_list :: "bvars \<Rightarrow> u64 list" where
  "bvars_list (BVars V0 V1 V2 V3 V4 V5 V6 V7 V8 V9 VA VB VC VD VE VF) =
     [V0, V1, V2, V3, V4, V5, V6, V7, V8, V9, VA, VB, VC, VD, VE, VF]"

definition blake_half :: "u64 \<Rightarrow> nat \<Rightarrow> nat \<Rightarrow> u64 \<times> u64 \<times> u64 \<times> u64 \<Rightarrow> u64 \<times> u64 \<times> u64 \<times> u64" where
  "blake_half x k l = (\<lambda>(a, b, c, d).
     let a = a + b + x; d = word_rotr k (d XOR a); c = c + d; b = word_rotr l (b XOR c)
     in (a, b, c, d))"

lemma GB_half:
  "GB m0 m1 c0 c1 a b c d =
     blake_half (m1 XOR c0) 16 11 (blake_half (m0 XOR c1) 32 25 (a, b, c, d))"
  by (simp add: GB_def blake_half_def SPH_ROTR64_eq Let_def)

definition put4 :: "nat \<times> nat \<times> nat \<times> nat \<Rightarrow> 'a \<times> 'a \<times> 'a \<times> 'a \<Rightarrow> 'a list \<Rightarrow> 'a list" where
  "put4 = (\<lambda>(a, b, c, d) (x, y, z, w) v. v[a := x, b := y, c := z, d := w])"

definition get4 :: "nat \<times> nat \<times> nat \<times> nat \<Rightarrow> 'a list \<Rightarrow> 'a \<times> 'a \<times> 'a \<times> 'a" where
  "get4 = (\<lambda>(a, b, c, d) v. (v ! a, v ! b, v ! c, v ! d))"

fun valid4 :: "nat \<times> nat \<times> nat \<times> nat \<Rightarrow> nat \<Rightarrow> bool" where
  "valid4 (a, b, c, d) n \<longleftrightarrow> distinct [a, b, c, d] \<and> a < n \<and> b < n \<and> c < n \<and> d < n"

lemma get4_put4: "valid4 q (length v) \<Longrightarrow> get4 q (put4 q x v) = x"
  by (cases q; cases x) (auto simp: get4_def put4_def)

lemma put4_put4: "valid4 q (length v) \<Longrightarrow> put4 q y (put4 q x v) = put4 q y v"
  by (cases q; cases x; cases y) (auto intro!: nth_equalityI simp: put4_def nth_list_update)

lemma length_put4 [simp]: "length (put4 q x v) = length v"
  by (cases q; cases x) (simp add: put4_def)

lemma blake_half_spec_eq:
  assumes "valid4 q (length v)"
  shows "blake_half_spec x k l q v = put4 q (blake_half x k l (get4 q v)) v"
proof -
  obtain a b c d where q: "q = (a, b, c, d)" by (cases q)
  then have v: "a \<noteq> b" "a \<noteq> c" "a \<noteq> d" "b \<noteq> c" "b \<noteq> d" "c \<noteq> d" "b \<noteq> a" "c \<noteq> a" "d \<noteq> a" "c \<noteq> b"
      "d \<noteq> b" "d \<noteq> c" "a < length v" "b < length v" "c < length v" "d < length v"
    using assms by auto
  define a1 where "a1 = v ! a + v ! b + x"
  define d1 where "d1 = word_rotr k (v ! d XOR a1)"
  define c1 where "c1 = v ! c + d1"
  define b1 where "b1 = word_rotr l (v ! b XOR c1)"
  have "blake_half_spec x k l q v = v[a := a1, d := d1, c := c1, b := b1]"
    using v by (simp add: blake_half_spec_def q a1_def d1_def c1_def b1_def Let_def)
  also have "\<dots> = v[a := a1, b := b1, c := c1, d := d1]"
    using v by (intro nth_equalityI) (auto simp: nth_list_update)
  also have "\<dots> = put4 q (blake_half x k l (get4 q v)) v"
    by (simp add: q put4_def get4_def blake_half_def a1_def d1_def c1_def b1_def Let_def)
  finally show ?thesis .
qed

lemma blake_G_spec_GB:
  assumes "valid4 (a, b, c, d) (length v)"
  shows "blake_G_spec m p (i, a, b, c, d) v =
    put4 (a, b, c, d) (GB (m ! (p ! (2 * i))) (m ! (p ! (2 * i + 1)))
       (blake_CB ! (p ! (2 * i))) (blake_CB ! (p ! (2 * i + 1))) (v ! a) (v ! b) (v ! c) (v ! d)) v"
  using assms
  by (simp add: blake_G_spec_def Let_def blake_half_spec_eq get4_put4 put4_put4 GB_half
      del: valid4.simps) (simp add: get4_def)

lemma ROUND_B_with_spec:
  "bvars_list (ROUND_B_with (\<lambda>i. m ! (p ! i)) (\<lambda>i. blake_CB ! (p ! i)) v) =
     blake_round_spec m p (bvars_list v)"
  by (cases v) (simp add: blake_round_spec_def blake_G_spec_GB put4_def case_prod_beta Let_def)

lemma sigma_blake_Z: "sigma = blake_Z @ take 6 blake_Z"
  by (simp add: sigma_def blake_Z_def)

lemma length_blake_Z: "length blake_Z = 10"
  by (simp add: blake_Z_def)

lemma sigma_rows:
  "r < 16 \<Longrightarrow> sigma ! r = sigma ! (r mod 10)" "r < 10 \<Longrightarrow> blake_Z ! r = sigma ! r"
  by (auto simp: sigma_blake_Z nth_append length_blake_Z not_less le_mod_geq)

lemma blake_CB_eq: "blake_CB_macros = blake_CB"
  by (simp add: blake_CB_macros_def blake_CB_def)

lemma ROUND_B_variants [variant_simps]: "r < 10 \<Longrightarrow> ROUND_B M r = ROUND_B_compact M r"
  by (simp add: ROUND_B_def ROUND_B_compact_def sigma_rows(2) blake_CB_eq)

lemma ROUND_B_compact_mod: "r < 16 \<Longrightarrow> ROUND_B_compact M r = ROUND_B_compact M (r mod 10)"
  using sigma_rows(1) [of r] by (simp add: ROUND_B_compact_def)

lemma COMPRESS64_variants [variant_simps]: "COMPRESS64 = COMPRESS64_compact"
  by (intro ext)
    (simp add: COMPRESS64_def COMPRESS64_compact_def Let_def upt_numerals ROUND_B_variants
      ROUND_B_compact_mod [of 10] ROUND_B_compact_mod [of 11] ROUND_B_compact_mod [of 12]
      ROUND_B_compact_mod [of 13] ROUND_B_compact_mod [of 14] ROUND_B_compact_mod [of 15])

lemma blake_rounds_spec:
  "bvars_list (fold (ROUND_B_compact M) rs v) = fold (\<lambda>r. blake_round_spec M (sigma ! r)) rs (bvars_list v)"
  by (induction rs arbitrary: v) (simp_all add: ROUND_B_compact_def ROUND_B_with_spec)

lemma blake_feed_spec:
  "blake_feed H S v =
     map (\<lambda>i. H ! i XOR S ! (i mod 4) XOR bvars_list v ! i XOR bvars_list v ! (i + 8)) [0..<8]"
  by (cases v) (simp add: upt_numerals xor.assoc)

lemma blake_V_init_spec:
  assumes "length H = 8" "length S = 4"
  shows "bvars_list (blake_V_init H S T0 T1) = H @ map2 (XOR) (S @ [T0, T0, T1, T1]) (take 8 blake_CB)"
proof -
  obtain h0 h1 h2 h3 h4 h5 h6 h7 s0 s1 s2 s3
    where "H = [h0, h1, h2, h3, h4, h5, h6, h7]" "S = [s0, s1, s2, s3]"
    using assms by (auto simp: length_Suc_conv eval_nat_numeral)
  then show ?thesis
    by (simp add: blake_V_init_def blake_CB_eq blake_CB_def)
qed

lemma COMPRESS64_spec:
  assumes "length H = 8" "length S = 4"
  shows "COMPRESS64 H S (of_nat t) (of_nat (t div 2 ^ 64)) b = blake_compress_spec H S t b"
proof -
  have M: "blake_M b = map (\<lambda>i. sph_dec64be b (8 * i)) [0..<16]"
    by (simp add: blake_M_def upt_numerals)
  have rounds: "fold (\<lambda>r. blake_round_spec M (sigma ! r)) [0..<16] v =
      fold (\<lambda>r. blake_round_spec M (sigma ! (r mod 10))) [0..<16] v" for M v
    by (rule fold_cong [OF refl refl]) (simp flip: sigma_rows(1))
  show ?thesis
    unfolding COMPRESS64_variants COMPRESS64_compact_def blake_compress_spec_def Let_def
      blake_feed_spec blake_rounds_spec blake_V_init_spec [OF assms] M rounds
    by (rule refl)
qed

lemma length_COMPRESS64 [simp]: "length (COMPRESS64 H S T0 T1 b) = 8"
  by (cases "fold (ROUND_B_compact (blake_M b)) [0..<16] (blake_V_init H S T0 T1)")
    (simp add: COMPRESS64_variants COMPRESS64_compact_def Let_def)

section \<open>The 128-bit counter\<close>

definition counter_words :: "nat \<Rightarrow> u64 \<times> u64" where
  "counter_words t = (of_nat t, of_nat (t div 2 ^ 64))"

definition blake_bump :: "u64 \<times> u64 \<Rightarrow> u64 \<times> u64" where
  "blake_bump = (\<lambda>(T0, T1). let T0 = T0 + 1024 in (T0, if T0 < 1024 then T1 + 1 else T1))"

lemma blake_block_bump:
  "blake_block (H, S, T0, T1) b =
     (COMPRESS64 H S (fst (blake_bump (T0, T1))) (snd (blake_bump (T0, T1))) b, S, blake_bump (T0, T1))"
  by (simp add: blake_block_def blake_bump_def Let_def)

lemma unat_of_nat_u64: "unat (of_nat n :: u64) = n mod 2 ^ 64"
  by (simp add: unat_of_nat)

lemma two_power_64: "(1024 :: nat) * 2 ^ 54 = 2 ^ 64"
  by simp

lemma multiple_1024_mod:
  fixes t :: nat
  assumes "t mod 1024 = 0"
  obtains y where "t mod 2 ^ 64 = 1024 * y" "y < 2 ^ 54"
proof -
  obtain k where k: "t = 1024 * k" using assms by (auto simp: mod_eq_0_iff_dvd)
  have "(1024 * k) mod (1024 * 2 ^ 54) = 1024 * (k mod 2 ^ 54)" by (rule mult_mod_right [symmetric])
  then have "t mod 2 ^ 64 = 1024 * (k mod 2 ^ 54)" by (simp only: k two_power_64)
  moreover have "k mod 2 ^ 54 < 2 ^ 54" by (rule mod_less_divisor) simp
  ultimately show thesis by (rule that)
qed

lemma counter_add:
  assumes "t mod 1024 = 0" "l < 1024"
  shows "(t + l) mod 2 ^ 64 = t mod 2 ^ 64 + l" "(t + l) div 2 ^ 64 = t div (2 ^ 64 :: nat)"
proof -
  obtain y where y: "t mod 2 ^ 64 = 1024 * y" "y < 2 ^ 54"
    using multiple_1024_mod [OF assms(1)] by blast
  then have "t mod 2 ^ 64 + l < 2 ^ 64" using assms(2) by simp
  then have "(t mod 2 ^ 64 + l) mod 2 ^ 64 = t mod 2 ^ 64 + l" by (rule mod_less)
  then show m: "(t + l) mod 2 ^ 64 = t mod 2 ^ 64 + l" by (simp only: mod_add_left_eq)
  have "(t + l) div 2 ^ 64 * 2 ^ 64 + (t + l) mod 2 ^ 64 = t div 2 ^ 64 * 2 ^ 64 + t mod 2 ^ 64 + l"
    by (simp only: div_mult_mod_eq)
  then show "(t + l) div 2 ^ 64 = t div (2 ^ 64 :: nat)" by (simp only: m) simp
qed

lemma counter_carry:
  assumes "t mod 1024 = 0"
  shows "(of_nat t + 1024 < (1024 :: u64)) = ((t + 1024) mod 2 ^ 64 = 0)"
    and "(t + 1024) div 2 ^ 64 = t div 2 ^ 64 + (if (t + 1024) mod 2 ^ 64 = 0 then 1 else 0)"
proof -
  obtain y where y: "(t + 1024) mod 2 ^ 64 = 1024 * y"
    using multiple_1024_mod [of "t + 1024"] assms by (metis mod_add_self2)
  have "unat (of_nat t + 1024 :: u64) = (t + 1024) mod 2 ^ 64"
    using unat_of_nat_u64 [of "t + 1024"] by simp
  then show "(of_nat t + 1024 < (1024 :: u64)) = ((t + 1024) mod 2 ^ 64 = 0)"
    using y by (simp add: word_less_nat_alt)
  obtain k where k: "t = 1024 * k" using assms by (auto simp: mod_eq_0_iff_dvd)
  have Suc: "t + 1024 = 1024 * Suc k" by (simp add: k)
  have "(1024 * Suc k) mod (1024 * 2 ^ 54) = 1024 * (Suc k mod 2 ^ 54)" by (rule mult_mod_right [symmetric])
  then have "(t + 1024) mod 2 ^ 64 = 1024 * (Suc k mod 2 ^ 54)" by (simp only: Suc two_power_64)
  then have m: "(t + 1024) mod 2 ^ 64 = 0 \<longleftrightarrow> Suc k mod 2 ^ 54 = 0"
    by (simp only: mult_eq_0_iff) simp
  have "(1024 * Suc k) div (1024 * 2 ^ 54) = Suc k div 2 ^ 54" "(1024 * k) div (1024 * 2 ^ 54) = k div 2 ^ 54"
    by (rule div_mult_mult1; simp)+
  then have "(t + 1024) div 2 ^ 64 = Suc k div 2 ^ 54" "t div 2 ^ 64 = k div 2 ^ 54"
    unfolding Suc unfolding k two_power_64 .
  then show "(t + 1024) div 2 ^ 64 = t div 2 ^ 64 + (if (t + 1024) mod 2 ^ 64 = 0 then 1 else 0)"
    unfolding m by (simp only: div_Suc) simp
qed

lemma blake_bump_counter:
  assumes "t mod 1024 = 0"
  shows "blake_bump (counter_words t) = counter_words (t + 1024)"
  using counter_carry [OF assms]
  by (simp add: blake_bump_def counter_words_def Let_def add.commute)

lemma blake_bump_last:
  assumes "t mod 1024 = 0" "0 < l" "l < 1024"
  shows "blake_bump
      (if (of_nat t :: u64) = 0 then (0xFFFFFFFFFFFFFC00 + of_nat l, of_nat (t div 2 ^ 64) - 1)
       else (of_nat t - of_nat (1024 - l), of_nat (t div 2 ^ 64))) = counter_words (t + l)"
proof (cases "(of_nat t :: u64) = 0")
  case True
  have "unat (of_nat l :: u64) = l" using assms by (simp add: unat_of_nat_u64)
  then have less: "(of_nat l :: u64) < 1024" using assms by (simp add: word_less_nat_alt)
  have wrap: "(0x10000000000000000 :: u64) = 0" by simp
  show ?thesis
    unfolding counter_words_def counter_add(2) [OF assms(1,3)] blake_bump_def
    by (simp only: Let_def prod.case if_True of_nat_add True) (simp add: wrap less)
next
  case False
  have "(of_nat (1024 - l) :: u64) = 1024 - of_nat l" using assms by (simp add: of_nat_diff)
  then have sum: "(of_nat t - of_nat (1024 - l) + 1024 :: u64) = of_nat (t + l)" by simp
  have "t mod 2 ^ 64 \<noteq> 0" using False unat_of_nat_u64 [of t] by (metis unat_eq_zero)
  then have "1024 \<le> t mod 2 ^ 64" using multiple_1024_mod [OF assms(1)] by (metis mult_is_0 le_add_same_cancel1 mult_le_mono2 not_less_eq_eq nat_mult_1_right One_nat_def Suc_leI gr0I)
  then have "\<not> (of_nat (t + l) :: u64) < 1024"
    using counter_add(1) [OF assms(1,3)] unat_of_nat_u64 [of "t + l"]
    by (simp add: word_less_nat_alt del: of_nat_add)
  then show ?thesis
    using False counter_add(2) [OF assms(1,3)] sum
    by (simp add: blake_bump_def counter_words_def Let_def del: of_nat_add)
qed

lemma blake_bump_zero: "blake_bump (0xFFFFFFFFFFFFFC00, 0xFFFFFFFFFFFFFFFF) = counter_words 0"
  by (simp add: blake_bump_def counter_words_def)

section \<open>The digest\<close>

text \<open>
  BLAKE-512 on a whole message: pad with a one bit, zeros, a one bit and the 128-bit bit length;
  the counter of block \<open>i\<close> is the number of message bits up to the end of that block, and zero for
  a block without message bits.
\<close>

definition blake_pad :: "bytes \<Rightarrow> bytes" where
  "blake_pad m = m @
     (if length m mod 128 = 111 then [0x81]
      else 0x80 # replicate ((238 - length m mod 128) mod 128) 0 @ [1]) @
     sph_enc64be (snd (counter_words (8 * length m))) @ sph_enc64be (fst (counter_words (8 * length m)))"

definition blake_counter :: "nat \<Rightarrow> nat \<Rightarrow> nat" where
  "blake_counter l i = (if 128 * i < l then min (8 * l) (1024 * (i + 1)) else 0)"

definition blake512_digest :: "bytes \<Rightarrow> bytes" where
  "blake512_digest m =
     (let p = blake_pad m;
          h = fold (\<lambda>i h. blake_compress_spec h salt_zero_big (blake_counter (length m) i)
                (take 128 (drop (128 * i) p))) [0..<length p div 128] blake_IV512
      in concat (map sph_enc64be h))"

interpretation blake: sph_stream 128 blake_block
proof
  fix st :: blake_chain and buf
  have "blake_M (take 128 buf) = blake_M buf"
    by (simp add: blake_M_def dec_take)
  then show "blake_block st (take 128 buf) = blake_block st buf"
    by (simp add: blake_block_def case_prod_beta COMPRESS64_def)
qed simp

definition blake_ok :: "blake_context \<Rightarrow> bool" where
  "blake_ok sc \<longleftrightarrow> length (bl_buf sc) = 128 \<and> bl_ptr sc < 128"

definition blake_chain :: "blake_context \<Rightarrow> blake_chain" where
  "blake_chain sc = (bl_H sc, bl_S sc, bl_T0 sc, bl_T1 sc)"

definition blake_pending :: "blake_context \<Rightarrow> bytes" where
  "blake_pending sc = take (bl_ptr sc) (bl_buf sc)"

interpretation blake_ctx: sph_hash 128 blake_block blake_ok blake_chain blake_pending sph_blake512
proof
  fix sc xs assume ok: "blake_ok sc"
  show "\<exists>c'. sph_blake512 sc xs = Some c' \<and> blake_ok c' \<and>
      (blake_chain c', blake_pending c') = absorb 128 blake_block (blake_chain sc) (blake_pending sc @ xs)"
    using blake.core_step [of "bl_ptr sc" "bl_buf sc" "blake_chain sc" xs] ok
    by (auto simp: sph_blake512_def blake64_def blake_ok_def blake_pending_def blake_chain_def)
qed (simp add: blake_ok_def blake_pending_def)

text \<open>The state after the full blocks of the message.\<close>

definition blake_step :: "nat \<Rightarrow> u64 list \<Rightarrow> bytes \<Rightarrow> u64 list" where
  "blake_step t H b =
     COMPRESS64 H salt_zero_big (fst (counter_words t)) (snd (counter_words t)) b"

lemma blake_step_spec:
  "length H = 8 \<Longrightarrow> blake_step t H b = blake_compress_spec H salt_zero_big t b"
  using COMPRESS64_spec [of H salt_zero_big t b]
  by (simp add: blake_step_def counter_words_def salt_zero_big_def)

lemma blake_absorb:
  "absorb 128 blake_block (H, salt_zero_big, counter_words 0) m =
     ((fold (\<lambda>i H. blake_step (1024 * (i + 1)) H (take 128 (drop (128 * i) m))) [0..<length m div 128] H,
       salt_zero_big, counter_words (1024 * (length m div 128))), drop (128 * (length m div 128)) m)"
proof -
  define h where "h = (\<lambda>(H, n). (H :: u64 list, salt_zero_big, counter_words (1024 * n)))"
  have "absorb 128 blake_block (h (H, 0)) m =
      map_prod h id (absorb 128 (\<lambda>(H, n) b. (blake_step (1024 * (n + 1)) H b, Suc n)) (H, 0) m)"
  proof (rule absorb_map [where P = "\<lambda>_. True"])
    fix s :: "u64 list \<times> nat" and b
    obtain H n where s: "s = (H, n)" by (cases s)
    have "blake_bump (counter_words (1024 * n)) = counter_words (1024 * (n + 1))"
      using blake_bump_counter [of "1024 * n"] by (simp add: add.commute)
    then show "h ((\<lambda>(H, n) b. (blake_step (1024 * (n + 1)) H b, Suc n)) s b) = blake_block (h s) b \<and> True"
      by (cases "counter_words (1024 * n)") (simp add: s h_def blake_block_bump blake_step_def)
  qed simp
  then show ?thesis
    by (simp add: absorb_indexed h_def)
qed

lemma blake64_full:
  assumes "blake_ok sc" "length (blake_pending sc) + length data = 128"
  obtains sc' where "blake64 sc data = Some sc'" "blake_ok sc'" "blake_pending sc' = []"
    "blake_chain sc' = blake_block (blake_chain sc) (blake_pending sc @ data)"
proof -
  have "absorb 128 blake_block (blake_chain sc) (blake_pending sc @ data) =
      (blake_block (blake_chain sc) (blake_pending sc @ data), [])"
    using absorb_full [of 128 "blake_pending sc @ data" blake_block "blake_chain sc" "[]"] assms
    by (simp add: absorb_short)
  then show thesis
    using blake_ctx.core_ok [OF assms(1), of data] that by (auto simp: sph_blake512_def)
qed

text \<open>The counter that the close function sets up, as the next block sees it.\<close>

definition blake_close_counter :: "nat \<Rightarrow> u64 \<times> u64 \<Rightarrow> u64 \<times> u64" where
  "blake_close_counter bit_len = (\<lambda>(T0, T1).
     if bit_len = 0 then (0xFFFFFFFFFFFFFC00, 0xFFFFFFFFFFFFFFFF)
     else if T0 = 0 then (0xFFFFFFFFFFFFFC00 + of_nat bit_len, T1 - 1)
     else (T0 - of_nat (1024 - bit_len), T1))"

lemma blake_close_counter:
  assumes "l < 1024"
  shows "blake_bump (blake_close_counter l (counter_words (1024 * k))) =
    counter_words (if l = 0 then 0 else 1024 * k + l)"
proof (cases "l = 0")
  case True
  then show ?thesis by (simp add: blake_close_counter_def case_prod_beta blake_bump_zero)
next
  case False
  have "blake_close_counter l (counter_words (1024 * k)) =
      (if (of_nat (1024 * k) :: u64) = 0
       then (0xFFFFFFFFFFFFFC00 + of_nat l, of_nat (1024 * k div 2 ^ 64) - 1)
       else (of_nat (1024 * k) - of_nat (1024 - l), of_nat (1024 * k div 2 ^ 64)))"
    unfolding blake_close_counter_def counter_words_def prod.case using False by (simp only: if_False)
  moreover have "1024 * k mod 1024 = 0" "0 < l" using False by simp_all
  note blake_bump_last [OF this assms]
  ultimately show ?thesis using False by (simp only: if_False)
qed

lemma blake_close_tail:
  assumes "ptr \<le> 111"
  shows "(let tail = 0x80 # replicate (111 - ptr) (0 :: u8)
     in tail[111 - ptr := tail ! (111 - ptr) OR 1]) =
    (if ptr = 111 then [0x81] else 0x80 # replicate (110 - ptr) 0 @ [1])"
proof (cases "ptr = 111")
  case True
  then show ?thesis by simp
next
  case False
  define xs where "xs = (0x80 :: u8) # replicate (110 - ptr) 0"
  have "111 - ptr = Suc (110 - ptr)" using False assms by simp
  then have "0x80 # replicate (111 - ptr) (0 :: u8) = xs @ [0]" "111 - ptr = length xs"
    by (simp_all add: xs_def replicate_append_same)
  then show ?thesis
    using False by (simp add: Let_def nth_append) (simp add: xs_def)
qed

lemma blake_close_run:
  assumes ok: "blake_ok sc" and ch: "blake_chain sc = (H, salt_zero_big, counter_words (1024 * k))"
  defines "ptr \<equiv> bl_ptr sc"
  defines "l \<equiv> 1024 * k + 8 * ptr"
  defines "t \<equiv> if ptr = 0 then 0 else l"
  defines "len \<equiv> sph_enc64be (snd (counter_words l)) @ sph_enc64be (fst (counter_words l))"
  defines "H' \<equiv> if ptr \<le> 111 then
      blake_step t H (blake_pending sc @ (if ptr = 111 then [0x81] else 0x80 # replicate (110 - ptr) 0 @ [1]) @ len)
    else blake_step 0 (blake_step t H (blake_pending sc @ 0x80 # replicate (127 - ptr) 0))
      (replicate 111 0 @ [1] @ len)"
  shows "\<exists>sc'. blake64_close sc 0 0 8 = Some (sc', concat (map (\<lambda>k. sph_enc64be (H' ! k)) [0..<8]))"
proof -
  have ptr: "ptr < 128" "length (blake_pending sc) = ptr"
    using ok by (simp_all add: blake_ok_def blake_pending_def ptr_def)
  have T: "(bl_T0 sc, bl_T1 sc) = counter_words (1024 * k)" and HS: "bl_H sc = H" "bl_S sc = salt_zero_big"
    using ch by (simp_all add: blake_chain_def)
  have words: "bl_T0 sc + of_nat (ptr * 8 + 0) = fst (counter_words l)" "bl_T1 sc = snd (counter_words l)"
    using T counter_add(2) [of "1024 * k" "8 * ptr"] ptr(1)
    by (simp_all add: counter_words_def l_def)
  define sc1 where "sc1 = (if ptr = 0 \<and> (0 :: nat) = 0 then
             sc\<lparr>bl_T0 := 0xFFFFFFFFFFFFFC00, bl_T1 := 0xFFFFFFFFFFFFFFFF\<rparr>
           else if bl_T0 sc = 0 then
             sc\<lparr>bl_T0 := 0xFFFFFFFFFFFFFC00 + of_nat (ptr * 8 + 0), bl_T1 := SPH_T64 (bl_T1 sc - 1)\<rparr>
           else sc\<lparr>bl_T0 := bl_T0 sc - of_nat (1024 - (ptr * 8 + 0))\<rparr>)"
  have "blake_chain sc1 = (H, salt_zero_big, blake_close_counter (8 * ptr) (bl_T0 sc, bl_T1 sc))"
    using HS by (auto simp: sc1_def blake_chain_def blake_close_counter_def mult.commute)
  then have sc1: "blake_ok sc1" "blake_pending sc1 = blake_pending sc"
      "blake_chain sc1 = (H, salt_zero_big, blake_close_counter (8 * ptr) (counter_words (1024 * k)))"
    using ok T by (auto simp: sc1_def blake_ok_def blake_pending_def)
  have block: "blake_block (H, salt_zero_big, c) b = (blake_step tt H b, salt_zero_big, counter_words tt)"
    if "blake_bump c = counter_words tt" for c tt H b
    using that by (cases c) (simp add: blake_block_bump blake_step_def)
  have bump: "blake_bump (blake_close_counter (8 * ptr) (counter_words (1024 * k))) = counter_words t"
    using blake_close_counter [of "8 * ptr" k] ptr(1) by (simp add: t_def l_def)
  have b: "ucast (((0 AND (- drop_bit 0 0x80)) OR drop_bit 0 0x80) AND 0xFF :: u32) = (0x80 :: u8)"
    by simp
  show ?thesis
  proof (cases "ptr \<le> 111")
    case True
    define d where "d = (if ptr = 111 then [0x81] else 0x80 # replicate (110 - ptr) 0 @ [1]) @ len"
    have "length (blake_pending sc1) + length d = 128"
      using True ptr sc1(2) by (simp add: d_def len_def)
    then obtain sc2 where sc2: "blake64 sc1 d = Some sc2"
        "blake_chain sc2 = blake_block (blake_chain sc1) (blake_pending sc1 @ d)"
      using blake64_full [OF sc1(1)] by metis
    then have "bl_H sc2 = H'"
      using True by (simp add: sc1 block [OF bump] H'_def d_def) (simp add: blake_chain_def)
    then show ?thesis
      unfolding blake64_close_def Let_def b ptr_def [symmetric]
      unfolding sc1_def [symmetric] unfolding words using True sc2(1) blake_close_tail [OF True, unfolded Let_def]
      by (simp add: d_def len_def)
  next
    case False
    define d where "d = 0x80 # replicate (127 - ptr) (0 :: u8)"
    have "length (blake_pending sc1) + length d = 128"
      using False ptr sc1(2) by (simp add: d_def)
    then obtain sc2 where sc2: "blake64 sc1 d = Some sc2" "blake_ok sc2" "blake_pending sc2 = []"
        "blake_chain sc2 = blake_block (blake_chain sc1) (blake_pending sc1 @ d)"
      using blake64_full [OF sc1(1)] by metis
    define sc3 where "sc3 = sc2\<lparr>bl_T0 := 0xFFFFFFFFFFFFFC00, bl_T1 := 0xFFFFFFFFFFFFFFFF\<rparr>"
    define e where "e = replicate 111 0 @ [1] @ len"
    have sc3: "blake_ok sc3" "blake_pending sc3 = []"
        "blake_chain sc3 = (blake_step t H (blake_pending sc @ d), salt_zero_big,
          (0xFFFFFFFFFFFFFC00, 0xFFFFFFFFFFFFFFFF))"
    proof -
      have "blake_chain sc2 = (blake_step t H (blake_pending sc @ d), salt_zero_big, counter_words t)"
        using sc2(4) by (simp add: sc1 block [OF bump])
      then show "blake_ok sc3" "blake_pending sc3 = []"
        "blake_chain sc3 = (blake_step t H (blake_pending sc @ d), salt_zero_big,
          (0xFFFFFFFFFFFFFC00, 0xFFFFFFFFFFFFFFFF))"
        using sc2(2,3) by (simp_all add: sc3_def blake_ok_def blake_pending_def blake_chain_def)
    qed
    have "length (blake_pending sc3) + length e = 128"
      using sc3(2) by (simp add: e_def len_def)
    then obtain sc4 where sc4: "blake64 sc3 e = Some sc4"
        "blake_chain sc4 = blake_block (blake_chain sc3) (blake_pending sc3 @ e)"
      using blake64_full [OF sc3(1)] by metis
    then have "bl_H sc4 = H'"
      using False by (simp add: sc3 block [OF blake_bump_zero] H'_def d_def e_def) (simp add: blake_chain_def)
    moreover have "(replicate 112 (0 :: u8))[111 := 1] = replicate 111 0 @ [1]"
      by (simp add: numeral_eq_Suc)
    ultimately show ?thesis
      unfolding blake64_close_def Let_def b ptr_def [symmetric]
      unfolding sc1_def [symmetric] unfolding words using False sc2(1) sc4(1)
      by (simp add: d_def e_def len_def sc3_def)
  qed
qed

text \<open>The digest as a fold of the code's compression function.\<close>

definition blake_walk :: "bytes \<Rightarrow> nat list \<Rightarrow> u64 list \<Rightarrow> u64 list" where
  "blake_walk m = fold (\<lambda>i h. blake_step (blake_counter (length m) i) h
     (take 128 (drop (128 * i) (blake_pad m))))"

lemma length_blake_step [simp]: "length (blake_step t H b) = 8"
  by (simp add: blake_step_def)

lemma length_blake_walk: "length H = 8 \<Longrightarrow> length (blake_walk m is H) = 8"
  by (induction "is" arbitrary: H) (simp_all add: blake_walk_def)

lemma blake_walk_spec:
  "length H = 8 \<Longrightarrow> blake_walk m is H =
     fold (\<lambda>i h. blake_compress_spec h salt_zero_big (blake_counter (length m) i)
       (take 128 (drop (128 * i) (blake_pad m)))) is H"
proof (induction "is" arbitrary: H)
  case (Cons i "is")
  then show ?case
    using length_blake_step [of "blake_counter (length m) i" H "take 128 (drop (128 * i) (blake_pad m))"]
    by (simp add: blake_walk_def blake_step_spec)
qed (simp add: blake_walk_def)

lemma blake_walk_message:
  "blake_walk m [0..<length m div 128] H =
     fold (\<lambda>i H. blake_step (1024 * (i + 1)) H (take 128 (drop (128 * i) m))) [0..<length m div 128] H"
  unfolding blake_walk_def
proof (rule fold_cong [OF refl refl])
  fix i assume "i \<in> set [0..<length m div 128]"
  then have i: "128 * i + 128 \<le> length m" by auto
  then have "take 128 (drop (128 * i) (blake_pad m)) = take 128 (drop (128 * i) m)"
    by (simp add: blake_pad_def)
  moreover have "blake_counter (length m) i = 1024 * (i + 1)"
    using i by (simp add: blake_counter_def)
  ultimately show "(\<lambda>h. blake_step (blake_counter (length m) i) h (take 128 (drop (128 * i) (blake_pad m)))) =
      (\<lambda>H. blake_step (1024 * (i + 1)) H (take 128 (drop (128 * i) m)))"
    by simp
qed

lemma blake512_run:
  assumes "length (bl_buf cc) = 128"
  shows "\<exists>sc sc'. feed sph_blake512 (sph_blake512_init cc) chunks = Some sc \<and>
    sph_blake512_close sc = Some (sc', blake512_digest (concat chunks)) \<and>
    blake_chain sc' = (blake_IV512, salt_zero_big, 0, 0) \<and> bl_ptr sc' = 0"
proof -
  let ?m = "concat chunks" and ?c0 = "sph_blake512_init cc"
  define k where "k = length ?m div 128"
  have c0: "blake_ok ?c0" "blake_chain ?c0 = (blake_IV512, salt_zero_big, counter_words 0)"
      "blake_pending ?c0 = []"
    using assms by (simp_all add: blake_ok_def blake_pending_def blake_chain_def sph_blake512_init_def
        blake64_init_def counter_words_def)
  obtain sc where feed: "feed sph_blake512 ?c0 chunks = Some sc" and ok: "blake_ok sc"
    and abs: "(blake_chain sc, blake_pending sc) =
      absorb 128 blake_block (blake_IV512, salt_zero_big, counter_words 0) ?m"
    using blake_ctx.feed_ok [OF c0(1), of chunks] c0(2,3) by auto
  define H where "H = blake_walk ?m [0..<k] blake_IV512"
  have ch: "blake_chain sc = (H, salt_zero_big, counter_words (1024 * k))"
    and pend: "blake_pending sc = drop (128 * k) ?m"
    using abs by (simp_all add: blake_absorb H_def k_def blake_walk_message)
  have len: "length (blake_pending sc) = bl_ptr sc" "bl_ptr sc < 128"
    using ok by (simp_all add: blake_ok_def blake_pending_def)
  have ptr: "bl_ptr sc = length ?m mod 128"
    using len(1) unfolding pend by (simp add: k_def minus_mult_div_eq_mod)
  have l: "1024 * k + 8 * bl_ptr sc = 8 * length ?m"
    using div_mult_mod_eq [of "length ?m" 128] unfolding ptr k_def by linarith
  have lk: "length ?m = 128 * k + bl_ptr sc" using l by simp
  define t where "t = (if bl_ptr sc = 0 then 0 else 8 * length ?m)"
  define cl where "cl = sph_enc64be (snd (counter_words (8 * length ?m))) @
    sph_enc64be (fst (counter_words (8 * length ?m)))"
  have counters: "blake_counter (length ?m) k = t" "blake_counter (length ?m) (k + 1) = 0"
    using len(2) by (auto simp: blake_counter_def lk t_def)
  define X where "X = (if bl_ptr sc = 111 then [0x81]
     else 0x80 # replicate ((238 - bl_ptr sc) mod 128) 0 @ [1]) @ cl"
  have pad: "blake_pad ?m = ?m @ X"
    unfolding blake_pad_def X_def cl_def ptr ..
  have dropk: "drop (128 * k) (blake_pad ?m) = blake_pending sc @ X"
    using lk by (simp add: pad pend)
  have cl: "length cl = 16" by (simp add: cl_def)
  define H' where "H' = (if bl_ptr sc \<le> 111 then
      blake_step t H (blake_pending sc @ (if bl_ptr sc = 111 then [0x81]
        else 0x80 # replicate (110 - bl_ptr sc) 0 @ [1]) @ cl)
    else blake_step 0 (blake_step t H (blake_pending sc @ 0x80 # replicate (127 - bl_ptr sc) 0))
      (replicate 111 0 @ [1] @ cl))"
  have "blake_walk ?m [0..<length (blake_pad ?m) div 128] blake_IV512 = H'"
  proof (cases "bl_ptr sc \<le> 111")
    case True
    then have z: "(238 - bl_ptr sc) mod 128 = 110 - bl_ptr sc" if "bl_ptr sc \<noteq> 111"
      using that by (simp add: mod_if)
    have X: "X = (if bl_ptr sc = 111 then [0x81] else 0x80 # replicate (110 - bl_ptr sc) 0 @ [1]) @ cl"
      by (simp add: X_def z)
    then have lX: "bl_ptr sc + length X = 128" using True cl by auto
    then have "length (blake_pad ?m) = 128 * (k + 1)" by (simp add: pad lk)
    then have "[0..<length (blake_pad ?m) div 128] = [0..<k] @ [k]" by simp
    then have "blake_walk ?m [0..<length (blake_pad ?m) div 128] blake_IV512 =
        blake_step t H (take 128 (drop (128 * k) (blake_pad ?m)))"
      by (simp add: H_def blake_walk_def counters [unfolded One_nat_def])
    also have "take 128 (drop (128 * k) (blake_pad ?m)) = blake_pending sc @ X"
      unfolding dropk using len lX by simp
    finally show ?thesis using True by (simp add: H'_def X)
  next
    case False
    have "(238 - bl_ptr sc) mod 128 = 238 - bl_ptr sc"
      using False by (intro mod_less) linarith
    also have "\<dots> = (127 - bl_ptr sc) + 111" using False len(2) by linarith
    finally have z: "(238 - bl_ptr sc) mod 128 = (127 - bl_ptr sc) + 111" .
    then have X: "X = (0x80 # replicate (127 - bl_ptr sc) 0) @ replicate 111 0 @ [1] @ cl"
      using False unfolding X_def z replicate_add by simp
    then have lX: "bl_ptr sc + length X = 256" using False len(2) cl by simp
    then have "length (blake_pad ?m) div 128 = k + 2" by (simp add: pad lk)
    define A where "A = blake_pending sc @ 0x80 # replicate (127 - bl_ptr sc) 0"
    define E where "E = replicate 111 0 @ [1] @ cl"
    have AE: "blake_pending sc @ X = A @ E" "length A = 128" "length E = 128"
      using len cl by (simp_all add: X A_def E_def)
    have "[0..<length (blake_pad ?m) div 128] = [0..<k] @ [k, k + 1]"
      unfolding \<open>length (blake_pad ?m) div 128 = k + 2\<close> by simp
    then have "blake_walk ?m [0..<length (blake_pad ?m) div 128] blake_IV512 =
        blake_step 0 (blake_step t H (take 128 (drop (128 * k) (blake_pad ?m))))
          (take 128 (drop (128 * (k + 1)) (blake_pad ?m)))"
      using counters by (simp add: H_def blake_walk_def)
    also have "take 128 (drop (128 * k) (blake_pad ?m)) = A"
      unfolding dropk AE(1) using AE(2) by simp
    also have "drop (128 * (k + 1)) (blake_pad ?m) = drop 128 (drop (128 * k) (blake_pad ?m))"
      by (simp add: add.commute)
    also have "take 128 (drop 128 (drop (128 * k) (blake_pad ?m))) = E"
      unfolding dropk AE(1) using AE(2,3) by simp
    finally show ?thesis using False by (simp add: H'_def A_def E_def)
  qed
  then have digest: "blake512_digest ?m = concat (map sph_enc64be H')"
    by (simp add: blake512_digest_def Let_def blake_walk_spec [symmetric] blake_IV512_def)
  have "length H' = 8" by (simp add: H'_def)
  then have out: "map (\<lambda>k. sph_enc64be (H' ! k)) [0..<8] = map sph_enc64be H'"
    by (auto intro: nth_equalityI)
  obtain sc' where "blake64_close sc 0 0 8 = Some (sc', concat (map (\<lambda>k. sph_enc64be (H' ! k)) [0..<8]))"
    using blake_close_run [OF ok ch] unfolding H'_def cl_def t_def l by blast
  then have "sph_blake512_close sc = Some (sph_blake512_init sc', blake512_digest ?m)"
    by (simp add: sph_blake512_close_def sph_blake512_addbits_and_close_def digest out)
  then show ?thesis
    using feed by (simp add: blake_chain_def sph_blake512_init_def blake64_init_def)
qed

section \<open>Properties\<close>

text \<open>
  C22: the BLAKE-512 interface, called on any context with a 128-byte buffer with init, any number
  of update calls and close, returns; the output is the BLAKE-512 digest of the concatenated
  input, whatever the length of the last block (one or two padding blocks, counter zero for a
  block without message bits), and the context is initialised again.
\<close>

theorem blake512_correct:
  assumes "length (bl_buf cc) = 128"
  shows "\<exists>sc sc'. feed sph_blake512 (sph_blake512_init cc) chunks = Some sc \<and>
    sph_blake512_close sc = Some (sc', blake512_digest (concat chunks)) \<and>
    bl_H sc' = blake_IV512 \<and> bl_T0 sc' = 0 \<and> bl_T1 sc' = 0 \<and> bl_ptr sc' = 0"
  using blake512_run [OF assms, of chunks] by (auto simp: blake_chain_def)

theorem blake512_correct_witness:
  "\<exists>sc sc'. feed sph_blake512 (sph_blake512_init
      \<lparr>bl_buf = replicate 128 7, bl_ptr = 9, bl_H = [], bl_S = [], bl_T0 = 5, bl_T1 = 6\<rparr>)
      [[1, 2], [3]] = Some sc \<and>
    sph_blake512_close sc = Some (sc', blake512_digest [1, 2, 3])"
  using blake512_correct [of "\<lparr>bl_buf = replicate 128 7, bl_ptr = 9, bl_H = [], bl_S = [],
      bl_T0 = 5, bl_T1 = 6\<rparr>" "[[1, 2], [3]]"] by auto

text \<open>
  the compact and the written-out form of \<open>COMPRESS64\<close> are the same function, and both are the
  published BLAKE-512 compression of the chaining words, the salt, the 128-bit counter \<open>t\<close> and the
  block.
\<close>

theorem blake_compress_correct:
  assumes "length H = 8" and "length S = 4"
  shows "COMPRESS64 H S (of_nat t) (of_nat (t div 2 ^ 64)) b = blake_compress_spec H S t b \<and>
    COMPRESS64_compact H S (of_nat t) (of_nat (t div 2 ^ 64)) b = blake_compress_spec H S t b"
  using COMPRESS64_spec [OF assms] by (simp add: COMPRESS64_variants)

theorem blake_compress_correct_witness:
  "COMPRESS64 blake_IV512 salt_zero_big (of_nat 1024) (of_nat (1024 div 2 ^ 64)) (replicate 128 3) =
     blake_compress_spec blake_IV512 salt_zero_big 1024 (replicate 128 3)"
  using blake_compress_correct [of blake_IV512 salt_zero_big 1024 "replicate 128 3"]
  by (simp add: blake_IV512_def salt_zero_big_def)

end
