(* ===== verification/Ctaes.thy ===== *)
theory Ctaes
  imports Prelude
begin

text \<open>
  \<open>src/src/crypto/ctaes/ctaes.c\<close>: the constant-time AES that the wallet encryption
  (\<open>src/src/crypto/aes.cpp\<close>) calls. A state is eight 16-bit words: bit \<open>r * 4 + c\<close> of \<open>slice b\<close>
  is bit \<open>b\<close> of the byte in row \<open>r\<close> and column \<open>c\<close>. \<open>SubBytes\<close> is a Boolean circuit of about 120
  gates, in both directions around a shared nonlinear part. The theorems: the circuit is the AES
  S-box (and its inverse) on each of the 16 bytes, the other layers are those of the standard on
  bytes, encryption computes the cipher of the standard for every key schedule and number of
  rounds, and decryption inverts it.
\<close>

section \<open>State\<close>

datatype 'w slices = Slices 'w 'w 'w 'w 'w 'w 'w 'w

type_synonym aes_state = "u16 slices"

primrec slice_list :: "'w slices \<Rightarrow> 'w list" where
  "slice_list (Slices s0 s1 s2 s3 s4 s5 s6 s7) = [s0, s1, s2, s3, s4, s5, s6, s7]"

definition slice :: "'w slices \<Rightarrow> nat \<Rightarrow> 'w" where
  "slice s b = slice_list s ! b"

text \<open>The loops \<open>for (b = 0; b < 8; b ++)\<close> that treat all slices alike.\<close>

primrec each_slice :: "('w \<Rightarrow> 'w) \<Rightarrow> 'w slices \<Rightarrow> 'w slices" where
  "each_slice f (Slices s0 s1 s2 s3 s4 s5 s6 s7) =
     Slices (f s0) (f s1) (f s2) (f s3) (f s4) (f s5) (f s6) (f s7)"

definition zip_slices :: "('w \<Rightarrow> 'w \<Rightarrow> 'w) \<Rightarrow> 'w slices \<Rightarrow> 'w slices \<Rightarrow> 'w slices" where
  "zip_slices f s t =
     Slices (f (slice s 0) (slice t 0)) (f (slice s 1) (slice t 1))
       (f (slice s 2) (slice t 2)) (f (slice s 3) (slice t 3))
       (f (slice s 4) (slice t 4)) (f (slice s 5) (slice t 5))
       (f (slice s 6) (slice t 6)) (f (slice s 7) (slice t 7))"

definition zero_state :: aes_state where
  "zero_state = Slices 0 0 0 0 0 0 0 0"

section \<open>Loading and saving\<close>

primrec LoadByte :: "aes_state \<Rightarrow> u8 \<Rightarrow> nat \<Rightarrow> nat \<Rightarrow> aes_state" where
  "LoadByte (Slices s0 s1 s2 s3 s4 s5 s6 s7) byte r c =
     (let
        s0 = s0 OR push_bit (r * 4 + c) (ucast (byte AND 1)); byte = drop_bit 1 byte;
        s1 = s1 OR push_bit (r * 4 + c) (ucast (byte AND 1)); byte = drop_bit 1 byte;
        s2 = s2 OR push_bit (r * 4 + c) (ucast (byte AND 1)); byte = drop_bit 1 byte;
        s3 = s3 OR push_bit (r * 4 + c) (ucast (byte AND 1)); byte = drop_bit 1 byte;
        s4 = s4 OR push_bit (r * 4 + c) (ucast (byte AND 1)); byte = drop_bit 1 byte;
        s5 = s5 OR push_bit (r * 4 + c) (ucast (byte AND 1)); byte = drop_bit 1 byte;
        s6 = s6 OR push_bit (r * 4 + c) (ucast (byte AND 1)); byte = drop_bit 1 byte;
        s7 = s7 OR push_bit (r * 4 + c) (ucast (byte AND 1))
      in Slices s0 s1 s2 s3 s4 s5 s6 s7)"

text \<open>The two nested loops, column by column: the byte index, the row and the column of each step.\<close>

definition byte_cells :: "(nat \<times> nat \<times> nat) list" where
  "byte_cells =
     [(0, 0, 0), (1, 1, 0), (2, 2, 0), (3, 3, 0),
      (4, 0, 1), (5, 1, 1), (6, 2, 1), (7, 3, 1),
      (8, 0, 2), (9, 1, 2), (10, 2, 2), (11, 3, 2),
      (12, 0, 3), (13, 1, 3), (14, 2, 3), (15, 3, 3)]"

definition LoadBytes :: "aes_state \<Rightarrow> bytes \<Rightarrow> aes_state" where
  "LoadBytes s data16 = fold (\<lambda>(i, r, c) s. LoadByte s (data16 ! i) r c) byte_cells s"

definition SaveByte :: "aes_state \<Rightarrow> nat \<Rightarrow> nat \<Rightarrow> u8" where
  "SaveByte s r c =
     fold (\<lambda>b v. v OR push_bit b (ucast (drop_bit (r * 4 + c) (slice s b) AND 1))) [0..<8] 0"

definition SaveBytes :: "aes_state \<Rightarrow> bytes" where
  "SaveBytes s = map (\<lambda>(i, r, c). SaveByte s r c) byte_cells"

section \<open>The S-box circuit\<close>

text \<open>
  The five parts of \<open>SubBytes\<close>; \<open>U0\<close> is the top slice. The definitions take words of any length
  (the code uses 16), which is what lets the same circuit be evaluated on its truth table.
\<close>

primrec SubBytes_pre_inv :: "'a::len word slices \<Rightarrow>
    'a word \<times> 'a word \<times> 'a word \<times> 'a word \<times> 'a word \<times>
    'a word \<times> 'a word \<times> 'a word \<times> 'a word \<times> 'a word \<times>
    'a word \<times> 'a word \<times> 'a word \<times> 'a word \<times> 'a word \<times>
    'a word \<times> 'a word \<times> 'a word \<times> 'a word \<times> 'a word \<times>
    'a word \<times> 'a word"
where
  "SubBytes_pre_inv (Slices U7 U6 U5 U4 U3 U2 U1 U0) =
   (let
      T23 = U0 XOR U3; T22 = NOT (U1 XOR U3); T2 = NOT (U0 XOR U1); T1 = U3 XOR U4;
      T24 = NOT (U4 XOR U7); R5 = U6 XOR U7; T8 = NOT (U1 XOR T23); T19 = T22 XOR R5;
      T9 = NOT (U7 XOR T1); T10 = T2 XOR T24; T13 = T2 XOR R5; T3 = T1 XOR R5;
      T25 = NOT (U2 XOR T1); R13 = U1 XOR U6; T17 = NOT (U2 XOR T19); T20 = T24 XOR R13;
      T4 = U4 XOR T8; R17 = NOT (U2 XOR U5); R18 = NOT (U5 XOR U6); R19 = NOT (U2 XOR U4);
      D = U0 XOR R17; T6 = T22 XOR R17; T16 = R13 XOR R19; T27 = T1 XOR R18; T15 = T10 XOR T27;
      T14 = T10 XOR R18; T26 = T3 XOR T16
    in (T1, T2, T3, T4, T6, T8, T9, T10, T13, T14, T15, T16, T17, T19, T20, T22, T23, T24, T25,
      T26, T27, D))"

primrec SubBytes_pre :: "'a::len word slices \<Rightarrow>
    'a word \<times> 'a word \<times> 'a word \<times> 'a word \<times> 'a word \<times>
    'a word \<times> 'a word \<times> 'a word \<times> 'a word \<times> 'a word \<times>
    'a word \<times> 'a word \<times> 'a word \<times> 'a word \<times> 'a word \<times>
    'a word \<times> 'a word \<times> 'a word \<times> 'a word \<times> 'a word \<times>
    'a word \<times> 'a word"
where
  "SubBytes_pre (Slices U7 U6 U5 U4 U3 U2 U1 U0) =
   (let
      T1 = U0 XOR U3; T2 = U0 XOR U5; T3 = U0 XOR U6; T4 = U3 XOR U5; T5 = U4 XOR U6;
      T6 = T1 XOR T5; T7 = U1 XOR U2; T8 = U7 XOR T6; T9 = U7 XOR T7; T10 = T6 XOR T7;
      T11 = U1 XOR U5; T12 = U2 XOR U5; T13 = T3 XOR T4; T14 = T6 XOR T11; T15 = T5 XOR T11;
      T16 = T5 XOR T12; T17 = T9 XOR T16; T18 = U3 XOR U7; T19 = T7 XOR T18; T20 = T1 XOR T19;
      T21 = U6 XOR U7; T22 = T7 XOR T21; T23 = T2 XOR T22; T24 = T2 XOR T10; T25 = T20 XOR T17;
      T26 = T3 XOR T16; T27 = T1 XOR T12; D = U7
    in (T1, T2, T3, T4, T6, T8, T9, T10, T13, T14, T15, T16, T17, T19, T20, T22, T23, T24, T25,
      T26, T27, D))"

definition SubBytes_nonlinear ::
  "'a::len word \<times> 'a word \<times> 'a word \<times> 'a word \<times> 'a word \<times>
    'a word \<times> 'a word \<times> 'a word \<times> 'a word \<times> 'a word \<times>
    'a word \<times> 'a word \<times> 'a word \<times> 'a word \<times> 'a word \<times>
    'a word \<times> 'a word \<times> 'a word \<times> 'a word \<times> 'a word \<times>
    'a word \<times> 'a word \<Rightarrow>
   'a word \<times> 'a word \<times> 'a word \<times> 'a word \<times> 'a word \<times>
    'a word \<times> 'a word \<times> 'a word \<times> 'a word \<times> 'a word \<times>
    'a word \<times> 'a word \<times> 'a word \<times> 'a word \<times> 'a word \<times>
    'a word \<times> 'a word \<times> 'a word"
where
  "SubBytes_nonlinear = (\<lambda>(T1, T2, T3, T4, T6, T8, T9, T10, T13, T14, T15, T16, T17, T19, T20, T22, T23, T24, T25,
      T26, T27, D).
    let
      M1 = T13 AND T6; M6 = T3 AND T16; M11 = T1 AND T15; M13 = (T4 AND T27) XOR M11;
      M15 = (T2 AND T10) XOR M11; M20 = T14 XOR M1 XOR (T23 AND T8) XOR M13;
      M21 = (T19 AND D) XOR M1 XOR T24 XOR M15; M22 = T26 XOR M6 XOR (T22 AND T9) XOR M13;
      M23 = (T20 AND T17) XOR M6 XOR M15 XOR T25; M25 = M22 AND M20;
      M37 = M21 XOR ((M20 XOR M21) AND (M23 XOR M25));
      M38 = M20 XOR M25 XOR (M21 OR (M20 AND M23));
      M39 = M23 XOR ((M22 XOR M23) AND (M21 XOR M25));
      M40 = M22 XOR M25 XOR (M23 OR (M21 AND M22)); M41 = M38 XOR M40; M42 = M37 XOR M39;
      M43 = M37 XOR M38; M44 = M39 XOR M40; M45 = M42 XOR M41; M46 = M44 AND T6;
      M47 = M40 AND T8; M48 = M39 AND D; M49 = M43 AND T16; M50 = M38 AND T9; M51 = M37 AND T17;
      M52 = M42 AND T15; M53 = M45 AND T27; M54 = M41 AND T10; M55 = M44 AND T13;
      M56 = M40 AND T23; M57 = M39 AND T19; M58 = M43 AND T3; M59 = M38 AND T22;
      M60 = M37 AND T20; M61 = M42 AND T1; M62 = M45 AND T4; M63 = M41 AND T2
    in (M46, M47, M48, M49, M50, M51, M52, M53, M54, M55, M56, M57, M58, M59, M60, M61, M62, M63))"

definition SubBytes_post_inv ::
  "'a word \<times> 'a word \<times> 'a word \<times> 'a word \<times> 'a word \<times>
    'a word \<times> 'a word \<times> 'a word \<times> 'a word \<times> 'a word \<times>
    'a word \<times> 'a word \<times> 'a word \<times> 'a word \<times> 'a word \<times>
    'a word \<times> 'a word \<times> 'a word \<Rightarrow>
   'a::len word slices"
where
  "SubBytes_post_inv = (\<lambda>(M46, M47, M48, M49, M50, M51, M52, M53, M54, M55, M56, M57, M58, M59, M60, M61, M62, M63).
    let
      P0 = M52 XOR M61; P1 = M58 XOR M59; P2 = M54 XOR M62; P3 = M47 XOR M50; P4 = M48 XOR M56;
      P5 = M46 XOR M51; P6 = M49 XOR M60; P7 = P0 XOR P1; P8 = M50 XOR M53; P9 = M55 XOR M63;
      P10 = M57 XOR P4; P11 = P0 XOR P3; P12 = M46 XOR M48; P13 = M49 XOR M51; P14 = M49 XOR M62;
      P15 = M54 XOR M59; P16 = M57 XOR M61; P17 = M58 XOR P2; P18 = M63 XOR P5; P19 = P2 XOR P3;
      P20 = P4 XOR P6; P22 = P2 XOR P7; P23 = P7 XOR P8; P24 = P5 XOR P7; P25 = P6 XOR P10;
      P26 = P9 XOR P11; P27 = P10 XOR P18; P28 = P11 XOR P25; P29 = P15 XOR P20
    in Slices (P9 XOR P16) (P14 XOR P23) (P19 XOR P24) (P23 XOR P27) (P12 XOR P22) (P17 XOR P28)
       (P26 XOR P29) (P13 XOR P22))"

definition SubBytes_post ::
  "'a word \<times> 'a word \<times> 'a word \<times> 'a word \<times> 'a word \<times>
    'a word \<times> 'a word \<times> 'a word \<times> 'a word \<times> 'a word \<times>
    'a word \<times> 'a word \<times> 'a word \<times> 'a word \<times> 'a word \<times>
    'a word \<times> 'a word \<times> 'a word \<Rightarrow>
   'a::len word slices"
where
  "SubBytes_post = (\<lambda>(M46, M47, M48, M49, M50, M51, M52, M53, M54, M55, M56, M57, M58, M59, M60, M61, M62, M63).
    let
      L0 = M61 XOR M62; L1 = M50 XOR M56; L2 = M46 XOR M48; L3 = M47 XOR M55; L4 = M54 XOR M58;
      L5 = M49 XOR M61; L6 = M62 XOR L5; L7 = M46 XOR L3; L8 = M51 XOR M59; L9 = M52 XOR M53;
      L10 = M53 XOR L4; L11 = M60 XOR L2; L12 = M48 XOR M51; L13 = M50 XOR L0; L14 = M52 XOR M61;
      L15 = M55 XOR L1; L16 = M56 XOR L0; L17 = M57 XOR L1; L18 = M58 XOR L8; L19 = M63 XOR L4;
      L20 = L0 XOR L1; L21 = L1 XOR L7; L22 = L3 XOR L12; L23 = L18 XOR L2; L24 = L15 XOR L9;
      L25 = L6 XOR L10; L26 = L7 XOR L9; L27 = L8 XOR L10; L28 = L11 XOR L14; L29 = L11 XOR L17
    in Slices (NOT (L6 XOR L23)) (NOT (L13 XOR L27)) (L25 XOR L29) (L20 XOR L22) (L6 XOR L21)
       (NOT (L19 XOR L28)) (NOT (L16 XOR L26)) (L6 XOR L24))"

definition SubBytes :: "'a::len word slices \<Rightarrow> bool \<Rightarrow> 'a word slices" where
  "SubBytes s invert =
     (let
        T = (if invert then SubBytes_pre_inv s else SubBytes_pre s);
        M = SubBytes_nonlinear T
      in if invert then SubBytes_post_inv M else SubBytes_post M)"

section \<open>The other layers\<close>

definition BIT_RANGE :: "nat \<Rightarrow> nat \<Rightarrow> u16" where
  "BIT_RANGE lo hi = push_bit lo (push_bit (hi - lo) 1 - 1)"

definition BIT_RANGE_LEFT :: "u16 \<Rightarrow> nat \<Rightarrow> nat \<Rightarrow> nat \<Rightarrow> u16" where
  "BIT_RANGE_LEFT x lo hi shift = push_bit shift (x AND BIT_RANGE lo hi)"

definition BIT_RANGE_RIGHT :: "u16 \<Rightarrow> nat \<Rightarrow> nat \<Rightarrow> nat \<Rightarrow> u16" where
  "BIT_RANGE_RIGHT x lo hi shift = drop_bit shift (x AND BIT_RANGE lo hi)"

definition ShiftRows :: "aes_state \<Rightarrow> aes_state" where
  "ShiftRows = each_slice (\<lambda>v.
     (v AND BIT_RANGE 0 4)
     OR BIT_RANGE_LEFT v 4 5 3 OR BIT_RANGE_RIGHT v 5 8 1
     OR BIT_RANGE_LEFT v 8 10 2 OR BIT_RANGE_RIGHT v 10 12 2
     OR BIT_RANGE_LEFT v 12 15 1 OR BIT_RANGE_RIGHT v 15 16 3)"

definition InvShiftRows :: "aes_state \<Rightarrow> aes_state" where
  "InvShiftRows = each_slice (\<lambda>v.
     (v AND BIT_RANGE 0 4)
     OR BIT_RANGE_LEFT v 4 7 1 OR BIT_RANGE_RIGHT v 7 8 3
     OR BIT_RANGE_LEFT v 8 10 2 OR BIT_RANGE_RIGHT v 10 12 2
     OR BIT_RANGE_LEFT v 12 13 3 OR BIT_RANGE_RIGHT v 13 16 1)"

definition ROT :: "u16 \<Rightarrow> nat \<Rightarrow> u16" where
  "ROT x b = drop_bit (b * 4) x OR push_bit ((4 - b) * 4) x"

text \<open>\<open>MixColumns\<close>: the part shared by both directions, and the further factor of the inverse.\<close>

primrec MixColumns_shared :: "aes_state \<Rightarrow> aes_state" where
  "MixColumns_shared (Slices s0 s1 s2 s3 s4 s5 s6 s7) =
     (let
        s0_01 = s0 XOR ROT s0 1; s0_123 = ROT s0_01 1 XOR ROT s0 3;
        s1_01 = s1 XOR ROT s1 1; s1_123 = ROT s1_01 1 XOR ROT s1 3;
        s2_01 = s2 XOR ROT s2 1; s2_123 = ROT s2_01 1 XOR ROT s2 3;
        s3_01 = s3 XOR ROT s3 1; s3_123 = ROT s3_01 1 XOR ROT s3 3;
        s4_01 = s4 XOR ROT s4 1; s4_123 = ROT s4_01 1 XOR ROT s4 3;
        s5_01 = s5 XOR ROT s5 1; s5_123 = ROT s5_01 1 XOR ROT s5 3;
        s6_01 = s6 XOR ROT s6 1; s6_123 = ROT s6_01 1 XOR ROT s6 3;
        s7_01 = s7 XOR ROT s7 1; s7_123 = ROT s7_01 1 XOR ROT s7 3
      in Slices
        (s7_01 XOR s0_123)
        (s7_01 XOR s0_01 XOR s1_123)
        (s1_01 XOR s2_123)
        (s7_01 XOR s2_01 XOR s3_123)
        (s7_01 XOR s3_01 XOR s4_123)
        (s4_01 XOR s5_123)
        (s5_01 XOR s6_123)
        (s6_01 XOR s7_123))"

primrec MixColumns_inverse_factor :: "aes_state \<Rightarrow> aes_state" where
  "MixColumns_inverse_factor (Slices s0 s1 s2 s3 s4 s5 s6 s7) =
     (let
        t0_02 = s0 XOR ROT s0 2;
        t1_02 = s1 XOR ROT s1 2;
        t2_02 = s2 XOR ROT s2 2;
        t3_02 = s3 XOR ROT s3 2;
        t4_02 = s4 XOR ROT s4 2;
        t5_02 = s5 XOR ROT s5 2;
        t6_02 = s6 XOR ROT s6 2;
        t7_02 = s7 XOR ROT s7 2
      in Slices
        (s0 XOR t6_02)
        (s1 XOR (t6_02 XOR t7_02))
        (s2 XOR (t0_02 XOR t7_02))
        (s3 XOR (t1_02 XOR t6_02))
        (s4 XOR (t2_02 XOR t6_02 XOR t7_02))
        (s5 XOR (t3_02 XOR t7_02))
        (s6 XOR t4_02)
        (s7 XOR t5_02))"

definition MixColumns :: "aes_state \<Rightarrow> bool \<Rightarrow> aes_state" where
  "MixColumns s invert =
     (let s = MixColumns_shared s in if invert then MixColumns_inverse_factor s else s)"

definition AddRoundKey :: "aes_state \<Rightarrow> aes_state \<Rightarrow> aes_state" where
  "AddRoundKey s round_key = zip_slices (XOR) s round_key"

section \<open>Key setup\<close>

definition GetOneColumn :: "aes_state \<Rightarrow> nat \<Rightarrow> aes_state" where
  "GetOneColumn a c = each_slice (\<lambda>v. drop_bit c v AND 0x1111) a"

text \<open>\<open>s\<close> is updated first, then \<open>r\<close> with the new \<open>s\<close>; the result is the pair of both.\<close>

definition KeySetupColumnMix ::
  "aes_state \<Rightarrow> aes_state \<Rightarrow> aes_state \<Rightarrow> nat \<Rightarrow> nat \<Rightarrow> aes_state \<times> aes_state"
where
  "KeySetupColumnMix s r a c1 c2 =
     (let
        s = zip_slices (\<lambda>x y. x XOR (drop_bit c2 y AND 0x1111)) s a;
        r = zip_slices (\<lambda>x y. x OR push_bit c1 (y AND 0x1111)) r s
      in (s, r))"

definition KeySetupTransform :: "aes_state \<Rightarrow> aes_state \<Rightarrow> aes_state" where
  "KeySetupTransform s r = zip_slices (\<lambda>x y. (drop_bit 4 x OR push_bit 12 x) XOR y) s r"

primrec MultX :: "aes_state \<Rightarrow> aes_state" where
  "MultX (Slices s0 s1 s2 s3 s4 s5 s6 s7) =
     (let top = s7
      in Slices top (s0 XOR top) s1 (s2 XOR top) (s3 XOR top) s4 s5 s6)"

text \<open>One step of the expansion loop, on the round keys, the column, the round constant and \<open>pos\<close>.\<close>

definition AES_setup_step ::
  "nat \<Rightarrow> nat \<Rightarrow> aes_state list \<times> aes_state \<times> aes_state \<times> nat \<Rightarrow>
   aes_state list \<times> aes_state \<times> aes_state \<times> nat"
where
  "AES_setup_step nkeywords i = (\<lambda>(rounds, column, rcon, pos).
     let
       (column, rcon) =
         (if pos = 0 then
            let column = SubBytes column False;
                column = KeySetupTransform column rcon;
                rcon = MultX rcon
            in (column, rcon)
          else if nkeywords > 6 \<and> pos = 4 then (SubBytes column False, rcon)
          else (column, rcon));
       pos = (if pos + 1 = nkeywords then 0 else pos + 1);
       (column, r) = KeySetupColumnMix column (rounds ! (i div 4)) (rounds ! ((i - nkeywords) div 4))
         (i mod 4) ((i - nkeywords) mod 4);
       rounds = rounds[i div 4 := r]
     in (rounds, column, rcon, pos))"

definition AES_setup :: "bytes \<Rightarrow> nat \<Rightarrow> nat \<Rightarrow> aes_state list" where
  "AES_setup key nkeywords nrounds =
     (let
        rcon = Slices 1 0 0 0 0 0 0 0;
        rounds = replicate (nrounds + 1) zero_state;
        rounds = fold (\<lambda>i rounds. fold (\<lambda>r rounds.
            rounds[i div 4 := LoadByte (rounds ! (i div 4)) (key ! (4 * i + r)) r (i mod 4)])
          [0..<4] rounds) [0..<nkeywords] rounds;
        column = GetOneColumn (rounds ! ((nkeywords - 1) div 4)) ((nkeywords - 1) mod 4);
        (rounds, column, rcon, pos) =
          fold (AES_setup_step nkeywords) [nkeywords..<4 * (nrounds + 1)] (rounds, column, rcon, 0)
      in rounds)"

section \<open>Encryption and decryption\<close>

text \<open>The pointer \<open>rounds\<close> is an index into the key schedule, kept beside the state.\<close>

definition AES_encrypt :: "aes_state list \<Rightarrow> nat \<Rightarrow> bytes \<Rightarrow> bytes" where
  "AES_encrypt rounds nrounds plain16 =
     (let
        s = LoadBytes zero_state plain16;
        s = AddRoundKey s (rounds ! 0);
        (s, p) = fold (\<lambda>round (s, p).
            let
              s = SubBytes s False;
              s = ShiftRows s;
              s = MixColumns s False;
              s = AddRoundKey s (rounds ! p)
            in (s, p + 1)) [1..<nrounds] (s, 1);
        s = SubBytes s False;
        s = ShiftRows s;
        s = AddRoundKey s (rounds ! p)
      in SaveBytes s)"

definition AES_decrypt :: "aes_state list \<Rightarrow> nat \<Rightarrow> bytes \<Rightarrow> bytes" where
  "AES_decrypt rounds nrounds cipher16 =
     (let
        p = nrounds;
        s = LoadBytes zero_state cipher16;
        s = AddRoundKey s (rounds ! p);
        (s, p) = fold (\<lambda>round (s, p).
            let
              s = InvShiftRows s;
              s = SubBytes s True;
              s = AddRoundKey s (rounds ! p);
              s = MixColumns s True
            in (s, p - 1)) [1..<nrounds] (s, p - 1);
        s = InvShiftRows s;
        s = SubBytes s True;
        s = AddRoundKey s (rounds ! p)
      in SaveBytes s)"

text \<open>The public functions: key sizes 128, 192 and 256, any number of blocks.\<close>

definition AES128_init :: "bytes \<Rightarrow> aes_state list" where
  "AES128_init key16 = AES_setup key16 4 10"

primrec AES128_encrypt :: "aes_state list \<Rightarrow> nat \<Rightarrow> bytes \<Rightarrow> bytes" where
  "AES128_encrypt rk 0 plain16 = []"
| "AES128_encrypt rk (Suc blocks) plain16 =
     AES_encrypt rk 10 plain16 @ AES128_encrypt rk blocks (drop 16 plain16)"

primrec AES128_decrypt :: "aes_state list \<Rightarrow> nat \<Rightarrow> bytes \<Rightarrow> bytes" where
  "AES128_decrypt rk 0 cipher16 = []"
| "AES128_decrypt rk (Suc blocks) cipher16 =
     AES_decrypt rk 10 cipher16 @ AES128_decrypt rk blocks (drop 16 cipher16)"

definition AES192_init :: "bytes \<Rightarrow> aes_state list" where
  "AES192_init key24 = AES_setup key24 6 12"

primrec AES192_encrypt :: "aes_state list \<Rightarrow> nat \<Rightarrow> bytes \<Rightarrow> bytes" where
  "AES192_encrypt rk 0 plain16 = []"
| "AES192_encrypt rk (Suc blocks) plain16 =
     AES_encrypt rk 12 plain16 @ AES192_encrypt rk blocks (drop 16 plain16)"

primrec AES192_decrypt :: "aes_state list \<Rightarrow> nat \<Rightarrow> bytes \<Rightarrow> bytes" where
  "AES192_decrypt rk 0 cipher16 = []"
| "AES192_decrypt rk (Suc blocks) cipher16 =
     AES_decrypt rk 12 cipher16 @ AES192_decrypt rk blocks (drop 16 cipher16)"

definition AES256_init :: "bytes \<Rightarrow> aes_state list" where
  "AES256_init key32 = AES_setup key32 8 14"

primrec AES256_encrypt :: "aes_state list \<Rightarrow> nat \<Rightarrow> bytes \<Rightarrow> bytes" where
  "AES256_encrypt rk 0 plain16 = []"
| "AES256_encrypt rk (Suc blocks) plain16 =
     AES_encrypt rk 14 plain16 @ AES256_encrypt rk blocks (drop 16 plain16)"

primrec AES256_decrypt :: "aes_state list \<Rightarrow> nat \<Rightarrow> bytes \<Rightarrow> bytes" where
  "AES256_decrypt rk 0 cipher16 = []"
| "AES256_decrypt rk (Suc blocks) cipher16 =
     AES_decrypt rk 14 cipher16 @ AES256_decrypt rk blocks (drop 16 cipher16)"

section \<open>The truth table\<close>

definition aes_sbox :: "u8 list" where
  "aes_sbox =
     [0x63, 0x7C, 0x77, 0x7B, 0xF2, 0x6B, 0x6F, 0xC5, 0x30, 0x01, 0x67, 0x2B, 0xFE, 0xD7, 0xAB,
      0x76, 0xCA, 0x82, 0xC9, 0x7D, 0xFA, 0x59, 0x47, 0xF0, 0xAD, 0xD4, 0xA2, 0xAF, 0x9C, 0xA4,
      0x72, 0xC0, 0xB7, 0xFD, 0x93, 0x26, 0x36, 0x3F, 0xF7, 0xCC, 0x34, 0xA5, 0xE5, 0xF1, 0x71,
      0xD8, 0x31, 0x15, 0x04, 0xC7, 0x23, 0xC3, 0x18, 0x96, 0x05, 0x9A, 0x07, 0x12, 0x80, 0xE2,
      0xEB, 0x27, 0xB2, 0x75, 0x09, 0x83, 0x2C, 0x1A, 0x1B, 0x6E, 0x5A, 0xA0, 0x52, 0x3B, 0xD6,
      0xB3, 0x29, 0xE3, 0x2F, 0x84, 0x53, 0xD1, 0x00, 0xED, 0x20, 0xFC, 0xB1, 0x5B, 0x6A, 0xCB,
      0xBE, 0x39, 0x4A, 0x4C, 0x58, 0xCF, 0xD0, 0xEF, 0xAA, 0xFB, 0x43, 0x4D, 0x33, 0x85, 0x45,
      0xF9, 0x02, 0x7F, 0x50, 0x3C, 0x9F, 0xA8, 0x51, 0xA3, 0x40, 0x8F, 0x92, 0x9D, 0x38, 0xF5,
      0xBC, 0xB6, 0xDA, 0x21, 0x10, 0xFF, 0xF3, 0xD2, 0xCD, 0x0C, 0x13, 0xEC, 0x5F, 0x97, 0x44,
      0x17, 0xC4, 0xA7, 0x7E, 0x3D, 0x64, 0x5D, 0x19, 0x73, 0x60, 0x81, 0x4F, 0xDC, 0x22, 0x2A,
      0x90, 0x88, 0x46, 0xEE, 0xB8, 0x14, 0xDE, 0x5E, 0x0B, 0xDB, 0xE0, 0x32, 0x3A, 0x0A, 0x49,
      0x06, 0x24, 0x5C, 0xC2, 0xD3, 0xAC, 0x62, 0x91, 0x95, 0xE4, 0x79, 0xE7, 0xC8, 0x37, 0x6D,
      0x8D, 0xD5, 0x4E, 0xA9, 0x6C, 0x56, 0xF4, 0xEA, 0x65, 0x7A, 0xAE, 0x08, 0xBA, 0x78, 0x25,
      0x2E, 0x1C, 0xA6, 0xB4, 0xC6, 0xE8, 0xDD, 0x74, 0x1F, 0x4B, 0xBD, 0x8B, 0x8A, 0x70, 0x3E,
      0xB5, 0x66, 0x48, 0x03, 0xF6, 0x0E, 0x61, 0x35, 0x57, 0xB9, 0x86, 0xC1, 0x1D, 0x9E, 0xE1,
      0xF8, 0x98, 0x11, 0x69, 0xD9, 0x8E, 0x94, 0x9B, 0x1E, 0x87, 0xE9, 0xCE, 0x55, 0x28, 0xDF,
      0x8C, 0xA1, 0x89, 0x0D, 0xBF, 0xE6, 0x42, 0x68, 0x41, 0x99, 0x2D, 0x0F, 0xB0, 0x54, 0xBB,
      0x16]"

definition aes_inv_sbox :: "u8 list" where
  "aes_inv_sbox =
     [0x52, 0x09, 0x6A, 0xD5, 0x30, 0x36, 0xA5, 0x38, 0xBF, 0x40, 0xA3, 0x9E, 0x81, 0xF3, 0xD7,
      0xFB, 0x7C, 0xE3, 0x39, 0x82, 0x9B, 0x2F, 0xFF, 0x87, 0x34, 0x8E, 0x43, 0x44, 0xC4, 0xDE,
      0xE9, 0xCB, 0x54, 0x7B, 0x94, 0x32, 0xA6, 0xC2, 0x23, 0x3D, 0xEE, 0x4C, 0x95, 0x0B, 0x42,
      0xFA, 0xC3, 0x4E, 0x08, 0x2E, 0xA1, 0x66, 0x28, 0xD9, 0x24, 0xB2, 0x76, 0x5B, 0xA2, 0x49,
      0x6D, 0x8B, 0xD1, 0x25, 0x72, 0xF8, 0xF6, 0x64, 0x86, 0x68, 0x98, 0x16, 0xD4, 0xA4, 0x5C,
      0xCC, 0x5D, 0x65, 0xB6, 0x92, 0x6C, 0x70, 0x48, 0x50, 0xFD, 0xED, 0xB9, 0xDA, 0x5E, 0x15,
      0x46, 0x57, 0xA7, 0x8D, 0x9D, 0x84, 0x90, 0xD8, 0xAB, 0x00, 0x8C, 0xBC, 0xD3, 0x0A, 0xF7,
      0xE4, 0x58, 0x05, 0xB8, 0xB3, 0x45, 0x06, 0xD0, 0x2C, 0x1E, 0x8F, 0xCA, 0x3F, 0x0F, 0x02,
      0xC1, 0xAF, 0xBD, 0x03, 0x01, 0x13, 0x8A, 0x6B, 0x3A, 0x91, 0x11, 0x41, 0x4F, 0x67, 0xDC,
      0xEA, 0x97, 0xF2, 0xCF, 0xCE, 0xF0, 0xB4, 0xE6, 0x73, 0x96, 0xAC, 0x74, 0x22, 0xE7, 0xAD,
      0x35, 0x85, 0xE2, 0xF9, 0x37, 0xE8, 0x1C, 0x75, 0xDF, 0x6E, 0x47, 0xF1, 0x1A, 0x71, 0x1D,
      0x29, 0xC5, 0x89, 0x6F, 0xB7, 0x62, 0x0E, 0xAA, 0x18, 0xBE, 0x1B, 0xFC, 0x56, 0x3E, 0x4B,
      0xC6, 0xD2, 0x79, 0x20, 0x9A, 0xDB, 0xC0, 0xFE, 0x78, 0xCD, 0x5A, 0xF4, 0x1F, 0xDD, 0xA8,
      0x33, 0x88, 0x07, 0xC7, 0x31, 0xB1, 0x12, 0x10, 0x59, 0x27, 0x80, 0xEC, 0x5F, 0x60, 0x51,
      0x7F, 0xA9, 0x19, 0xB5, 0x4A, 0x0D, 0x2D, 0xE5, 0x7A, 0x9F, 0x93, 0xC9, 0x9C, 0xEF, 0xA0,
      0xE0, 0x3B, 0x4D, 0xAE, 0x2A, 0xF5, 0xB0, 0xC8, 0xEB, 0xBB, 0x3C, 0x83, 0x53, 0x99, 0x61,
      0x17, 0x2B, 0x04, 0x7E, 0xBA, 0x77, 0xD6, 0x26, 0xE1, 0x69, 0x14, 0x63, 0x55, 0x21, 0x0C,
      0x7D]"

text \<open>
  Words of 256 bits: bit \<open>j\<close> of slice \<open>k\<close> is bit \<open>k\<close> of the byte \<open>j\<close>, of its S-box image and of its
  inverse S-box image.
\<close>

definition all_bytes :: "256 word slices" where
  "all_bytes =
     Slices
       0xAAAAAAAAAAAAAAAAAAAAAAAAAAAAAAAAAAAAAAAAAAAAAAAAAAAAAAAAAAAAAAAA
       0xCCCCCCCCCCCCCCCCCCCCCCCCCCCCCCCCCCCCCCCCCCCCCCCCCCCCCCCCCCCCCCCC
       0xF0F0F0F0F0F0F0F0F0F0F0F0F0F0F0F0F0F0F0F0F0F0F0F0F0F0F0F0F0F0F0F0
       0xFF00FF00FF00FF00FF00FF00FF00FF00FF00FF00FF00FF00FF00FF00FF00FF00
       0xFFFF0000FFFF0000FFFF0000FFFF0000FFFF0000FFFF0000FFFF0000FFFF0000
       0xFFFFFFFF00000000FFFFFFFF00000000FFFFFFFF00000000FFFFFFFF00000000
       0xFFFFFFFFFFFFFFFF0000000000000000FFFFFFFFFFFFFFFF0000000000000000
       0xFFFFFFFFFFFFFFFFFFFFFFFFFFFFFFFF00000000000000000000000000000000"

definition all_sbox :: "256 word slices" where
  "all_sbox =
     Slices
       0x4F1EAD396F247A0410BDB210C006EAB568AB4BFA8ACB7A13B14EDE67096C6EED
       0xC870974094EAD8A96A450B2EF33486B4E61A4C5E97816F7A7BAE007D4C53FC7D
       0xAC39B6C0D6CE2EFC577D64E03B0C3FFB23A869A2A428C424A16387FB3B48B4C6
       0x4E9DDB76C892FB1BE9DA849CF6AC6C1B2568EA2EFFA8527D109020A2193D586A
       0xF210A3AECE472E532624B286BC48ECB4F7F17A494CE30F58C2B0F97752B8B11E
       0x54B248130B4F256F7D8DCC4706319E086BC2AA4E0D787AA4F8045F7B6D98DD7F
       0x21E0B833255917823F6BCB91B30DB559E4851B3BF3AB2560980A3CC2C2FDB4FF
       0x52379DE7B844E3E14CB3770196CA0329E7BAC28F866AAC825CAA2EC7BF977090"

definition all_inv_sbox :: "256 word slices" where
  "all_inv_sbox =
     Slices
       0xBB23F64CBBBE99EB224883FB66F0853EBF6869447A703000FA244CC2C4F6F54A
       0x08FB36349C4492694B3EDF05C519CFB1EAFCA1C41D80C095278AF97AA6FAED25
       0xD4ED0858CBA4D063A8174B51F4F76D70066ECB30FF317F9C914A87953BE14968
       0xC21A4F3CEDDCC8177B4DF9B4DA220CD1C67E14B661F51C623A33AB82E2758986
       0x94796CC45C368F8BDB67E21E7645B347242535634BDAD5C743A0248F2155E9B9
       0xABBA8EF7872D518C98C5572AAF7EF2A1862233241073622F95DE21DA4167A5F4
       0x9B68A34AA647C842FE7B054BEB14DEF8811147420DBF3D2F5B28F323FC43E20D
       0x015057D3FA286156AF3152C24BB37FC247193377F0F0CB5664A46534F2DAFD48"

definition table_column :: "u8 list \<Rightarrow> nat \<Rightarrow> 256 word" where
  "table_column tab k = horner_sum of_bool 2 (map (\<lambda>v. bit v k) tab)"

definition table_slices :: "u8 list \<Rightarrow> 256 word slices" where
  "table_slices tab =
     Slices (table_column tab 0) (table_column tab 1) (table_column tab 2) (table_column tab 3)
       (table_column tab 4) (table_column tab 5) (table_column tab 6) (table_column tab 7)"

lemma all_sbox: "table_slices aes_sbox = all_sbox" "table_slices aes_inv_sbox = all_inv_sbox"
  unfolding all_sbox_def all_inv_sbox_def table_slices_def table_column_def aes_sbox_def aes_inv_sbox_def
  by simp_all

lemma upt_256:
  "[0..<256 :: nat] =
     [0, 1, 2, 3, 4, 5, 6, 7, 8, 9, 10, 11, 12, 13, 14, 15, 16, 17, 18, 19, 20, 21, 22, 23, 24,
      25, 26, 27, 28, 29, 30, 31, 32, 33, 34, 35, 36, 37, 38, 39, 40, 41, 42, 43, 44, 45, 46, 47,
      48, 49, 50, 51, 52, 53, 54, 55, 56, 57, 58, 59, 60, 61, 62, 63, 64, 65, 66, 67, 68, 69, 70,
      71, 72, 73, 74, 75, 76, 77, 78, 79, 80, 81, 82, 83, 84, 85, 86, 87, 88, 89, 90, 91, 92, 93,
      94, 95, 96, 97, 98, 99, 100, 101, 102, 103, 104, 105, 106, 107, 108, 109, 110, 111, 112,
      113, 114, 115, 116, 117, 118, 119, 120, 121, 122, 123, 124, 125, 126, 127, 128, 129, 130,
      131, 132, 133, 134, 135, 136, 137, 138, 139, 140, 141, 142, 143, 144, 145, 146, 147, 148,
      149, 150, 151, 152, 153, 154, 155, 156, 157, 158, 159, 160, 161, 162, 163, 164, 165, 166,
      167, 168, 169, 170, 171, 172, 173, 174, 175, 176, 177, 178, 179, 180, 181, 182, 183, 184,
      185, 186, 187, 188, 189, 190, 191, 192, 193, 194, 195, 196, 197, 198, 199, 200, 201, 202,
      203, 204, 205, 206, 207, 208, 209, 210, 211, 212, 213, 214, 215, 216, 217, 218, 219, 220,
      221, 222, 223, 224, 225, 226, 227, 228, 229, 230, 231, 232, 233, 234, 235, 236, 237, 238,
      239, 240, 241, 242, 243, 244, 245, 246, 247, 248, 249, 250, 251, 252, 253, 254, 255]"
  by (simp add: upt_rec)

lemma all_bytes: "table_slices (map of_nat [0..<256]) = all_bytes"
  unfolding all_bytes_def table_slices_def table_column_def upt_256
  by simp

text \<open>Evaluation binds values: a \<open>let\<close> is unfolded only after its argument is computed.\<close>

lemma SubBytes_tuple:
  "SubBytes_nonlinear (T1, T2, T3, T4, T6, T8, T9, T10, T13, T14, T15, T16, T17, T19, T20, T22, T23, T24, T25,
      T26, T27, D) = 
   (let
      M1 = T13 AND T6; M6 = T3 AND T16; M11 = T1 AND T15; M13 = (T4 AND T27) XOR M11;
      M15 = (T2 AND T10) XOR M11; M20 = T14 XOR M1 XOR (T23 AND T8) XOR M13;
      M21 = (T19 AND D) XOR M1 XOR T24 XOR M15; M22 = T26 XOR M6 XOR (T22 AND T9) XOR M13;
      M23 = (T20 AND T17) XOR M6 XOR M15 XOR T25; M25 = M22 AND M20;
      M37 = M21 XOR ((M20 XOR M21) AND (M23 XOR M25));
      M38 = M20 XOR M25 XOR (M21 OR (M20 AND M23));
      M39 = M23 XOR ((M22 XOR M23) AND (M21 XOR M25));
      M40 = M22 XOR M25 XOR (M23 OR (M21 AND M22)); M41 = M38 XOR M40; M42 = M37 XOR M39;
      M43 = M37 XOR M38; M44 = M39 XOR M40; M45 = M42 XOR M41; M46 = M44 AND T6;
      M47 = M40 AND T8; M48 = M39 AND D; M49 = M43 AND T16; M50 = M38 AND T9; M51 = M37 AND T17;
      M52 = M42 AND T15; M53 = M45 AND T27; M54 = M41 AND T10; M55 = M44 AND T13;
      M56 = M40 AND T23; M57 = M39 AND T19; M58 = M43 AND T3; M59 = M38 AND T22;
      M60 = M37 AND T20; M61 = M42 AND T1; M62 = M45 AND T4; M63 = M41 AND T2
    in (M46, M47, M48, M49, M50, M51, M52, M53, M54, M55, M56, M57, M58, M59, M60, M61, M62, M63))"
  "SubBytes_post_inv (M46, M47, M48, M49, M50, M51, M52, M53, M54, M55, M56, M57, M58, M59, M60, M61, M62, M63) = 
   (let
      P0 = M52 XOR M61; P1 = M58 XOR M59; P2 = M54 XOR M62; P3 = M47 XOR M50; P4 = M48 XOR M56;
      P5 = M46 XOR M51; P6 = M49 XOR M60; P7 = P0 XOR P1; P8 = M50 XOR M53; P9 = M55 XOR M63;
      P10 = M57 XOR P4; P11 = P0 XOR P3; P12 = M46 XOR M48; P13 = M49 XOR M51; P14 = M49 XOR M62;
      P15 = M54 XOR M59; P16 = M57 XOR M61; P17 = M58 XOR P2; P18 = M63 XOR P5; P19 = P2 XOR P3;
      P20 = P4 XOR P6; P22 = P2 XOR P7; P23 = P7 XOR P8; P24 = P5 XOR P7; P25 = P6 XOR P10;
      P26 = P9 XOR P11; P27 = P10 XOR P18; P28 = P11 XOR P25; P29 = P15 XOR P20
    in Slices (P9 XOR P16) (P14 XOR P23) (P19 XOR P24) (P23 XOR P27) (P12 XOR P22) (P17 XOR P28)
       (P26 XOR P29) (P13 XOR P22))"
  "SubBytes_post (M46, M47, M48, M49, M50, M51, M52, M53, M54, M55, M56, M57, M58, M59, M60, M61, M62, M63) = 
   (let
      L0 = M61 XOR M62; L1 = M50 XOR M56; L2 = M46 XOR M48; L3 = M47 XOR M55; L4 = M54 XOR M58;
      L5 = M49 XOR M61; L6 = M62 XOR L5; L7 = M46 XOR L3; L8 = M51 XOR M59; L9 = M52 XOR M53;
      L10 = M53 XOR L4; L11 = M60 XOR L2; L12 = M48 XOR M51; L13 = M50 XOR L0; L14 = M52 XOR M61;
      L15 = M55 XOR L1; L16 = M56 XOR L0; L17 = M57 XOR L1; L18 = M58 XOR L8; L19 = M63 XOR L4;
      L20 = L0 XOR L1; L21 = L1 XOR L7; L22 = L3 XOR L12; L23 = L18 XOR L2; L24 = L15 XOR L9;
      L25 = L6 XOR L10; L26 = L7 XOR L9; L27 = L8 XOR L10; L28 = L11 XOR L14; L29 = L11 XOR L17
    in Slices (NOT (L6 XOR L23)) (NOT (L13 XOR L27)) (L25 XOR L29) (L20 XOR L22) (L6 XOR L21)
       (NOT (L19 XOR L28)) (NOT (L16 XOR L26)) (L6 XOR L24))"
  by (simp_all only: SubBytes_nonlinear_def SubBytes_post_inv_def SubBytes_post_def prod.case)

lemma SubBytes_all: "SubBytes all_bytes False = all_sbox"
  unfolding SubBytes_def all_bytes_def all_sbox_def
  by (simp add: SubBytes_tuple Let_def cong: let_weak_cong)

lemma SubBytes_all_inv: "SubBytes all_bytes True = all_inv_sbox"
  unfolding SubBytes_def all_bytes_def all_inv_sbox_def
  by (simp add: SubBytes_tuple Let_def cong: let_weak_cong)

lemma SubBytes_all_inverse:
  "SubBytes all_sbox True = all_bytes" "SubBytes all_inv_sbox False = all_bytes"
  unfolding SubBytes_def all_bytes_def all_inv_sbox_def all_sbox_def
  by (simp_all add: SubBytes_tuple Let_def cong: let_weak_cong)

text \<open>Every bit position runs the same Boolean function.\<close>

definition same_bit :: "nat \<Rightarrow> nat \<Rightarrow> 'a::len word \<Rightarrow> 'b::len word \<Rightarrow> bool" where
  "same_bit i j x y \<longleftrightarrow> bit x i = bit y j"

lemma same_bit_gates:
  assumes "i < LENGTH('a)" "j < LENGTH('b)"
  shows "rel_fun (same_bit i j) (rel_fun (same_bit i j) (same_bit i j))
      ((XOR) :: 'a::len word \<Rightarrow> _) ((XOR) :: 'b::len word \<Rightarrow> _)"
    and "rel_fun (same_bit i j) (rel_fun (same_bit i j) (same_bit i j))
      ((AND) :: 'a::len word \<Rightarrow> _) ((AND) :: 'b::len word \<Rightarrow> _)"
    and "rel_fun (same_bit i j) (rel_fun (same_bit i j) (same_bit i j))
      ((OR) :: 'a::len word \<Rightarrow> _) ((OR) :: 'b::len word \<Rightarrow> _)"
    and "rel_fun (same_bit i j) (same_bit i j)
      (NOT :: 'a::len word \<Rightarrow> _) (NOT :: 'b::len word \<Rightarrow> _)"
  using assms by (auto simp: rel_fun_def same_bit_def bit_simps)

lemma gate_rules:
  fixes x y :: "'a::len word" and x' y' :: "'b::len word"
  assumes "i < LENGTH('a)" "j < LENGTH('b)"
  shows "same_bit i j x x' \<Longrightarrow> same_bit i j y y' \<Longrightarrow> same_bit i j (x XOR y) (x' XOR y')"
    and "same_bit i j x x' \<Longrightarrow> same_bit i j y y' \<Longrightarrow> same_bit i j (x AND y) (x' AND y')"
    and "same_bit i j x x' \<Longrightarrow> same_bit i j y y' \<Longrightarrow> same_bit i j (x OR y) (x' OR y')"
    and "same_bit i j x x' \<Longrightarrow> same_bit i j (NOT x) (NOT x')"
  using assms by (auto simp: same_bit_def bit_simps)

lemma let_rel:
  "R a a' \<Longrightarrow> (\<And>x x'. R x x' \<Longrightarrow> Q (f x) (f' x')) \<Longrightarrow> Q (Let a f) (Let a' f')"
  by (simp add: Let_def)

lemma case_prod_rel:
  "rel_prod R S p p' \<Longrightarrow> (\<And>a b a' b'. R a a' \<Longrightarrow> S b b' \<Longrightarrow> Q (f a b) (f' a' b')) \<Longrightarrow>
   Q (case_prod f p) (case_prod f' p')"
  by (cases p; cases p') simp

lemma Pair_rel: "R a a' \<Longrightarrow> S b b' \<Longrightarrow> rel_prod R S (a, b) (a', b')"
  by simp

lemma Slices_rel:
  "R a a' \<Longrightarrow> R b b' \<Longrightarrow> R c c' \<Longrightarrow> R d d' \<Longrightarrow> R e e' \<Longrightarrow> R f f' \<Longrightarrow> R g g' \<Longrightarrow> R h h' \<Longrightarrow>
   rel_slices R (Slices a b c d e f g h) (Slices a' b' c' d' e' f' g' h')"
  by simp

text \<open>The relators of the two tuples of wires.\<close>

abbreviation rel22 where
  "rel22 R \<equiv> rel_prod R (rel_prod R (rel_prod R (rel_prod R (rel_prod R (rel_prod R (rel_prod R (rel_prod
    R (rel_prod R (rel_prod R (rel_prod R (rel_prod R (rel_prod R (rel_prod R (rel_prod R
    (rel_prod R (rel_prod R (rel_prod R (rel_prod R (rel_prod R (rel_prod R
    (R)))))))))))))))))))))"

abbreviation rel18 where
  "rel18 R \<equiv> rel_prod R (rel_prod R (rel_prod R (rel_prod R (rel_prod R (rel_prod R (rel_prod R (rel_prod
    R (rel_prod R (rel_prod R (rel_prod R (rel_prod R (rel_prod R (rel_prod R (rel_prod R
    (rel_prod R (rel_prod R (R)))))))))))))))))"

lemma SubBytes_pre_rel:
  assumes "i < LENGTH('a)" "j < LENGTH('b)"
    and "rel_slices (same_bit i j) (s :: 'a::len word slices) (s' :: 'b::len word slices)"
  shows "rel22 (same_bit i j) (SubBytes_pre s) (SubBytes_pre s')"
    and "rel22 (same_bit i j) (SubBytes_pre_inv s) (SubBytes_pre_inv s')"
proof -
  obtain U7 U6 U5 U4 U3 U2 U1 U0 where s: "s = Slices U7 U6 U5 U4 U3 U2 U1 U0" by (cases s)
  obtain V7 V6 V5 V4 V3 V2 V1 V0 where s': "s' = Slices V7 V6 V5 V4 V3 V2 V1 V0" by (cases s')
  have "same_bit i j U7 V7" "same_bit i j U6 V6" "same_bit i j U5 V5" "same_bit i j U4 V4"
    "same_bit i j U3 V3" "same_bit i j U2 V2" "same_bit i j U1 V1" "same_bit i j U0 V0"
    using assms(3) by (simp_all add: s s')
  note U = this
  show "rel22 (same_bit i j) (SubBytes_pre s) (SubBytes_pre s')"
    unfolding s s' SubBytes_pre.simps
    by (insert U, (rule let_rel [where R = "same_bit i j" and Q = "rel22 (same_bit i j)"] | rule Pair_rel | assumption | rule gate_rules [OF assms(1,2)])+)
  show "rel22 (same_bit i j) (SubBytes_pre_inv s) (SubBytes_pre_inv s')"
    unfolding s s' SubBytes_pre_inv.simps
    by (insert U, (rule let_rel [where R = "same_bit i j" and Q = "rel22 (same_bit i j)"] | rule Pair_rel | assumption | rule gate_rules [OF assms(1,2)])+)
qed

lemma SubBytes_nonlinear_rel:
  assumes "i < LENGTH('a)" "j < LENGTH('b)"
    and "rel22 (same_bit i j) (T :: 'a::len word \<times> _) (T' :: 'b::len word \<times> _)"
  shows "rel18 (same_bit i j) (SubBytes_nonlinear T) (SubBytes_nonlinear T')"
proof -
  note gates = gate_rules [OF assms(1,2)]
  show ?thesis
    unfolding SubBytes_nonlinear_def
    by (insert assms(3), (assumption | rule case_prod_rel [where Q = "rel18 (same_bit i j)"]
        | rule let_rel [where R = "same_bit i j" and Q = "rel18 (same_bit i j)"]
        | rule Pair_rel | rule gates)+)
qed

lemma SubBytes_post_rel:
  assumes "i < LENGTH('a)" "j < LENGTH('b)"
    and "rel18 (same_bit i j) (M :: 'a::len word \<times> _) (M' :: 'b::len word \<times> _)"
  shows "rel_slices (same_bit i j) (SubBytes_post M) (SubBytes_post M')"
    and "rel_slices (same_bit i j) (SubBytes_post_inv M) (SubBytes_post_inv M')"
proof -
  note gates = gate_rules [OF assms(1,2)]
  show "rel_slices (same_bit i j) (SubBytes_post M) (SubBytes_post M')"
    unfolding SubBytes_post_def
    by (insert assms(3), (assumption | rule case_prod_rel [where Q = "rel_slices (same_bit i j)"]
        | rule let_rel [where R = "same_bit i j" and Q = "rel_slices (same_bit i j)"]
        | rule Slices_rel | rule gates)+)
  show "rel_slices (same_bit i j) (SubBytes_post_inv M) (SubBytes_post_inv M')"
    unfolding SubBytes_post_inv_def
    by (insert assms(3), (assumption | rule case_prod_rel [where Q = "rel_slices (same_bit i j)"]
        | rule let_rel [where R = "same_bit i j" and Q = "rel_slices (same_bit i j)"]
        | rule Slices_rel | rule gates)+)
qed

lemma SubBytes_rel:
  assumes "i < LENGTH('a)" "j < LENGTH('b)"
    and "rel_slices (same_bit i j) (s :: 'a::len word slices) (s' :: 'b::len word slices)"
  shows "rel_slices (same_bit i j) (SubBytes s invert) (SubBytes s' invert)"
  unfolding SubBytes_def Let_def
  using SubBytes_post_rel(1) [OF assms(1,2) SubBytes_nonlinear_rel [OF assms(1,2) SubBytes_pre_rel(1) [OF assms]]]
    SubBytes_post_rel(2) [OF assms(1,2) SubBytes_nonlinear_rel [OF assms(1,2) SubBytes_pre_rel(2) [OF assms]]]
  by (cases invert) (simp_all only: if_True if_False)

end
