(* ===== verification/AesCipher.thy ===== *)
theory AesCipher
  imports Ctaes
begin

text \<open>
  The bit-sliced AES of theory \<open>Ctaes\<close> read byte by byte: \<open>SaveByte s r c\<close> is the byte in row \<open>r\<close>
  and column \<open>c\<close>. Each layer of the code is shown to be the layer of the standard on bytes, then
  encryption is the cipher of the standard and decryption its inverse.
\<close>

section \<open>The state as a table of bytes\<close>

lemma all_less_8: "(\<forall>k < (8 :: nat). P k) \<longleftrightarrow> P 0 \<and> P 1 \<and> P 2 \<and> P 3 \<and> P 4 \<and> P 5 \<and> P 6 \<and> P 7"
proof -
  have "(\<forall>k < (8 :: nat). P k) \<longleftrightarrow> (\<forall>k \<in> set [0..<8]. P k)" by auto
  then show ?thesis by (simp add: upt_numerals)
qed

lemma less_8_cases:
  assumes "k < (8 :: nat)"
  obtains "k = 0" | "k = 1" | "k = 2" | "k = 3" | "k = 4" | "k = 5" | "k = 6" | "k = 7"
  using assms by linarith

lemma bit_fold_bits:
  fixes f :: "nat \<Rightarrow> u16" and v :: u8
  shows "bit (fold (\<lambda>b v. v OR push_bit b (ucast (drop_bit p (f b) AND 1))) bs v) k \<longleftrightarrow>
    bit v k \<or> k < 8 \<and> k \<in> set bs \<and> bit (f k) p"
proof (induction bs arbitrary: v)
  case (Cons b bs)
  have "bit (push_bit b (ucast (drop_bit p (f b) AND 1)) :: u8) k \<longleftrightarrow> k < 8 \<and> k = b \<and> bit (f b) p"
    by (auto simp: bit_simps)
  then show ?case by (auto simp: Cons.IH bit_or_iff)
qed simp

lemma bit_SaveByte: "bit (SaveByte s r c) k \<longleftrightarrow> k < 8 \<and> bit (slice s k) (r * 4 + c)"
  by (auto simp: SaveByte_def bit_fold_bits)

lemma unat_u8_less [simp]: "unat (x :: u8) < 256"
  using unsigned_less [of x] by simp

lemma slices_eqI:
  assumes "\<And>k p. k < 8 \<Longrightarrow> p < 16 \<Longrightarrow> bit (slice s k) p = bit (slice t k) (p :: nat)"
  shows "s = (t :: aes_state)"
proof -
  have "slice s k = slice t k" if "k < 8" for k
    by (rule bit_word_eqI) (use assms that in simp)
  then have "\<forall>k < 8. slice s k = slice t k" by blast
  then show ?thesis
    unfolding all_less_8 by (cases s; cases t) (simp add: slice_def)
qed

lemma cells_eqI:
  assumes "\<And>r c. r < 4 \<Longrightarrow> c < 4 \<Longrightarrow> SaveByte s r c = SaveByte t r c"
  shows "s = t"
proof (rule slices_eqI)
  fix k p :: nat assume k: "k < 8" and p: "p < 16"
  then have "p div 4 < 4" "p mod 4 < 4" "p div 4 * 4 + p mod 4 = p" by auto
  then show "bit (slice s k) p = bit (slice t k) p"
    using bit_SaveByte [of _ "p div 4" "p mod 4" k] assms k by metis
qed

subsection \<open>The S-box\<close>

lemma rel_slices_slice:
  "rel_slices R s t \<longleftrightarrow> (\<forall>k < 8. R (slice s k) (slice t k))"
  unfolding all_less_8 by (cases s; cases t) (simp add: slice_def)

lemma bit_table_slices:
  assumes "length tab = 256" "j < 256" "k < 8"
  shows "bit (slice (table_slices tab) k) j = bit (tab ! j) k"
proof -
  have "slice (table_slices tab) k = table_column tab k"
    using \<open>k < 8\<close> by (auto simp: table_slices_def slice_def elim!: less_8_cases)
  then show ?thesis
    using assms by (simp add: table_column_def bit_horner_sum_bit_word_iff)
qed

lemma cell_all_bytes:
  assumes "r < 4" "c < 4"
  shows "rel_slices (same_bit (r * 4 + c) (unat (SaveByte s r c))) s all_bytes"
proof -
  have j: "unat (SaveByte s r c) < 256" by simp
  then have "bit (slice all_bytes k) (unat (SaveByte s r c)) = bit (SaveByte s r c) k" if "k < 8" for k
    using that by (simp add: bit_table_slices flip: all_bytes)
  then show ?thesis
    using assms by (simp add: rel_slices_slice same_bit_def bit_SaveByte)
qed

lemma cell_table:
  assumes "r < 4" "c < 4" and tab: "length tab = 256"
    and "rel_slices (same_bit (r * 4 + c) j) t (table_slices tab)" "j < 256"
  shows "SaveByte t r c = tab ! j"
proof (rule bit_word_eqI)
  fix k assume "k < LENGTH(8)"
  then have "k < 8" by simp
  then show "bit (SaveByte t r c) k = bit (tab ! j) k"
    using assms by (simp add: bit_SaveByte rel_slices_slice same_bit_def bit_table_slices)
qed

lemma length_sbox [simp]: "length aes_sbox = 256" "length aes_inv_sbox = 256"
  by (simp_all add: aes_sbox_def aes_inv_sbox_def)

lemma SubBytes_cell:
  assumes "r < 4" "c < 4"
  shows "SaveByte (SubBytes s False) r c = aes_sbox ! unat (SaveByte s r c)"
    and "SaveByte (SubBytes s True) r c = aes_inv_sbox ! unat (SaveByte s r c)"
proof -
  have i: "r * 4 + c < LENGTH(16)" using assms by simp
  have j: "unat (SaveByte s r c) < LENGTH(256)" by simp
  note rel = SubBytes_rel [OF i j cell_all_bytes [OF assms]]
  show "SaveByte (SubBytes s False) r c = aes_sbox ! unat (SaveByte s r c)"
    using rel [of False] j by (intro cell_table [OF assms]) (simp_all add: all_sbox SubBytes_all)
  show "SaveByte (SubBytes s True) r c = aes_inv_sbox ! unat (SaveByte s r c)"
    using rel [of True] j by (intro cell_table [OF assms]) (simp_all add: all_sbox SubBytes_all_inv)
qed

lemma SubBytes_inverse [inverse_simps]:
  "SubBytes (SubBytes s False) True = s" "SubBytes (SubBytes s True) False = (s :: aes_state)"
proof -
  have "SaveByte (SubBytes (SubBytes s b) (\<not> b)) r c = SaveByte s r c" if rc: "r < 4" "c < 4" for r c b
  proof -
    have i: "r * 4 + c < LENGTH(16)" using rc by simp
    have j: "unat (SaveByte s r c) < LENGTH(256)" by simp
    have "SubBytes (SubBytes all_bytes b) (\<not> b) = all_bytes"
      by (cases b) (simp_all add: SubBytes_all SubBytes_all_inv SubBytes_all_inverse)
    then have "rel_slices (same_bit (r * 4 + c) (unat (SaveByte s r c)))
        (SubBytes (SubBytes s b) (\<not> b)) (table_slices (map of_nat [0..<256]))"
      using SubBytes_rel [OF i j SubBytes_rel [OF i j cell_all_bytes [OF rc]], of b "\<not> b"]
      by (simp add: all_bytes)
    then have "SaveByte (SubBytes (SubBytes s b) (\<not> b)) r c =
        map of_nat [0..<256] ! unat (SaveByte s r c)"
      by (rule cell_table [OF rc, rotated]) simp_all
    moreover have "unat (SaveByte s r c) < 256" by (rule unat_u8_less)
    ultimately show ?thesis by simp
  qed
  from cells_eqI [OF this [of _ _ False]] cells_eqI [OF this [of _ _ True]]
  show "SubBytes (SubBytes s False) True = s" "SubBytes (SubBytes s True) False = s"
    by simp_all
qed

subsection \<open>Rows and columns\<close>

lemma slice_each: "k < 8 \<Longrightarrow> slice (each_slice f s) k = f (slice s k)"
  by (cases s) (auto simp: slice_def elim!: less_8_cases)

lemma slice_zip: "k < 8 \<Longrightarrow> slice (zip_slices f s t) k = f (slice s k) (slice t k)"
  by (auto simp: slice_def zip_slices_def elim!: less_8_cases)

lemma all_less_16: "(\<forall>p < (16 :: nat). P p) \<longleftrightarrow> list_all P [0..<16]"
  by (auto simp: list_all_iff)

lemma less_4_cases:
  assumes "r < (4 :: nat)"
  obtains "r = 0" | "r = 1" | "r = 2" | "r = 3"
  using assms by linarith

lemma ShiftRows_bits:
  "\<forall>p < 16. bit ((v AND BIT_RANGE 0 4)
     OR BIT_RANGE_LEFT v 4 5 3 OR BIT_RANGE_RIGHT v 5 8 1
     OR BIT_RANGE_LEFT v 8 10 2 OR BIT_RANGE_RIGHT v 10 12 2
     OR BIT_RANGE_LEFT v 12 15 1 OR BIT_RANGE_RIGHT v 15 16 3) p =
   bit v (p div 4 * 4 + (p + p div 4) mod 4)"
  "\<forall>p < 16. bit ((v AND BIT_RANGE 0 4)
     OR BIT_RANGE_LEFT v 4 7 1 OR BIT_RANGE_RIGHT v 7 8 3
     OR BIT_RANGE_LEFT v 8 10 2 OR BIT_RANGE_RIGHT v 10 12 2
     OR BIT_RANGE_LEFT v 12 13 3 OR BIT_RANGE_RIGHT v 13 16 1) p =
   bit v (p div 4 * 4 + (p + (4 - p div 4)) mod 4)"
  unfolding all_less_16 upt_numerals
  by (simp_all add: BIT_RANGE_LEFT_def BIT_RANGE_RIGHT_def BIT_RANGE_def bit_simps
      bit_double_iff mult.commute [of v 2] flip: numeral_2_eq_2 numeral_3_eq_3)

lemma bit_u16_high: "16 \<le> n \<Longrightarrow> \<not> bit (x :: u16) n"
  using bit_imp_le_length [of x n] by auto

lemma ROT_bits:
  assumes "b \<in> {1, 2, 3}"
  shows "\<forall>p < 16. bit (ROT x b) p = bit x ((p div 4 + b) mod 4 * 4 + p mod 4)"
  using assms unfolding all_less_16 upt_numerals
  by (auto simp: ROT_def bit_simps bit_u16_high simp flip: numeral_2_eq_2 numeral_3_eq_3)

lemma cell_index: "r < 4 \<Longrightarrow> c < 4 \<Longrightarrow> (r * 4 + c) div 4 = r" "c < 4 \<Longrightarrow> (r * 4 + c) mod 4 = (c :: nat)"
  "r < 4 \<Longrightarrow> c < 4 \<Longrightarrow> r * 4 + c < (16 :: nat)" for r :: nat
  by simp_all

lemma ShiftRows_cell:
  assumes "r < 4" "c < 4"
  shows "SaveByte (ShiftRows s) r c = SaveByte s r ((c + r) mod 4)"
    and "SaveByte (InvShiftRows s) r c = SaveByte s r ((c + (4 - r)) mod 4)"
  using ShiftRows_bits [rule_format, OF cell_index(3) [OF assms]] assms
  by (auto intro!: bit_word_eqI simp: bit_SaveByte ShiftRows_def InvShiftRows_def slice_each cell_index
      mod_simps) (auto elim!: less_4_cases)

subsection \<open>Multiplication by \<open>x\<close> and the columns\<close>

definition xtime :: "u8 \<Rightarrow> u8" where
  "xtime x = push_bit 1 x XOR (if bit x 7 then 0x1B else 0)"

lemma bit_xtime:
  assumes "k < 8"
  shows "bit (xtime x) k = ((0 < k \<and> bit x (k - 1)) \<noteq> (bit x 7 \<and> k \<in> {0, 1, 3, 4}))"
  using assms by (elim less_8_cases) (simp_all add: xtime_def bit_simps bit_double_iff mult.commute [of x 2])

lemma xtime_xor: "xtime (x XOR y) = xtime x XOR xtime y"
  by (rule bit_word_eqI) (auto simp: bit_xtime bit_xor_iff)

lemma ROT_cell:
  assumes "r < 4" "c < 4" "b \<in> {1, 2, 3}"
  shows "bit (ROT x b) (r * 4 + c) = bit x ((r + b) mod 4 * 4 + c)"
  using ROT_bits [OF assms(3)] cell_index(1,3) [OF assms(1,2)] cell_index(2) [OF assms(2), of r] by metis

lemma ROT_cells:
  assumes "r < 4" "c < 4"
  shows "bit (ROT x 1) (r * 4 + c) = bit x ((r + 1) mod 4 * 4 + c)"
    and "bit (ROT x 2) (r * 4 + c) = bit x ((r + 2) mod 4 * 4 + c)"
    and "bit (ROT x 3) (r * 4 + c) = bit x ((r + 3) mod 4 * 4 + c)"
    and "bit (ROT (ROT x 1) 1) (r * 4 + c) = bit x ((r + 2) mod 4 * 4 + c)"
    and "bit (ROT (x XOR ROT x 1) 1) (r * 4 + c) =
      (bit x ((r + 1) mod 4 * 4 + c) \<noteq> bit x ((r + 2) mod 4 * 4 + c))"
proof -
  show one: "bit (ROT x 1) (r * 4 + c) = bit x ((r + 1) mod 4 * 4 + c)" for x
    using assms by (simp add: ROT_cell del: One_nat_def)
  show "bit (ROT x 2) (r * 4 + c) = bit x ((r + 2) mod 4 * 4 + c)"
    using assms by (simp add: ROT_cell)
  show "bit (ROT x 3) (r * 4 + c) = bit x ((r + 3) mod 4 * 4 + c)"
    using assms by (simp add: ROT_cell)
  have "(r + 1) mod 4 < 4" by simp
  then have two: "bit (ROT x 1) ((r + 1) mod 4 * 4 + c) = bit x ((r + 2) mod 4 * 4 + c)"
    using assms ROT_cell [of "(r + 1) mod 4" c 1 x] by (simp add: mod_simps)
  show "bit (ROT (ROT x 1) 1) (r * 4 + c) = bit x ((r + 2) mod 4 * 4 + c)"
    by (simp only: one two)
  show "bit (ROT (x XOR ROT x 1) 1) (r * 4 + c) =
      (bit x ((r + 1) mod 4 * 4 + c) \<noteq> bit x ((r + 2) mod 4 * 4 + c))"
    by (simp only: one bit_xor_iff two)
qed

text \<open>The bytes of a column, counted from row \<open>r\<close> on.\<close>

definition col :: "aes_state \<Rightarrow> nat \<Rightarrow> nat \<Rightarrow> nat \<Rightarrow> u8" where
  "col s r c i = SaveByte s ((r + i) mod 4) c"

lemma MixColumns_shared_cell:
  assumes "r < 4" "c < 4"
  shows "SaveByte (MixColumns_shared s) r c =
    xtime (col s r c 0 XOR col s r c 1) XOR col s r c 1 XOR col s r c 2 XOR col s r c 3"
proof (rule bit_word_eqI)
  fix k assume "k < LENGTH(8)"
  then have k: "k < 8" by simp
  obtain s0 s1 s2 s3 s4 s5 s6 s7 where s: "s = Slices s0 s1 s2 s3 s4 s5 s6 s7" by (cases s)
  have r: "(r + 0) mod 4 = r" using assms by simp
  have r2: "((r + 1) mod 4 + 1) mod 4 = Suc (Suc r) mod 4" by (simp add: mod_simps)
  show "bit (SaveByte (MixColumns_shared s) r c) k =
    bit (xtime (col s r c 0 XOR col s r c 1) XOR col s r c 1 XOR col s r c 2 XOR col s r c 3) k"
    using k assms
    by (elim less_8_cases;
      simp add: bit_SaveByte bit_xor_iff bit_xtime s slice_def Let_def col_def ROT_cells r r2
        del: One_nat_def; argo)
qed

lemma MixColumns_inverse_factor_cell:
  assumes "r < 4" "c < 4"
  shows "SaveByte (MixColumns_inverse_factor s) r c =
    col s r c 0 XOR xtime (xtime (col s r c 0 XOR col s r c 2))"
proof (rule bit_word_eqI)
  fix k assume "k < LENGTH(8)"
  then have k: "k < 8" by simp
  obtain s0 s1 s2 s3 s4 s5 s6 s7 where s: "s = Slices s0 s1 s2 s3 s4 s5 s6 s7" by (cases s)
  have r: "(r + 0) mod 4 = r" using assms by simp
  have r2: "((r + 1) mod 4 + 1) mod 4 = Suc (Suc r) mod 4" by (simp add: mod_simps)
  show "bit (SaveByte (MixColumns_inverse_factor s) r c) k =
    bit (col s r c 0 XOR xtime (xtime (col s r c 0 XOR col s r c 2))) k"
    using k assms
    by (elim less_8_cases;
      simp add: bit_SaveByte bit_xor_iff bit_xtime s slice_def Let_def col_def ROT_cells r r2
        del: One_nat_def; argo)
qed

lemma col_shared:
  assumes "r < 4" "c < 4"
  shows "col (MixColumns_shared s) r c i =
    xtime (col s r c i XOR col s r c (i + 1)) XOR col s r c (i + 1) XOR col s r c (i + 2)
      XOR col s r c (i + 3)"
  using MixColumns_shared_cell [of "(r + i) mod 4" c s] assms
  by (simp add: col_def mod_simps add.assoc)

lemma col_0: "r < 4 \<Longrightarrow> col s r c 0 = SaveByte s r c"
  by (simp add: col_def)

lemma col_wrap: "col s r c (i + 4) = col s r c i"
proof -
  have "(r + (i + 4)) mod 4 = (r + i) mod 4"
    by (metis add.assoc mod_add_self2)
  then show ?thesis by (simp only: col_def)
qed

lemma col_wraps:
  "col s r c 4 = col s r c 0" "col s r c 5 = col s r c 1" "col s r c 6 = col s r c 2"
  "col s r c 7 = col s r c 3" "col s r c 8 = col s r c 0"
  using col_wrap [of s r c 0] col_wrap [of s r c 1] col_wrap [of s r c 2] col_wrap [of s r c 3]
    col_wrap [of s r c 4] by simp_all

lemma col_shared_numeral:
  assumes "r < 4" "c < 4"
  shows
    "col (MixColumns_shared s) r c 0 = xtime (col s r c 0 XOR col s r c 1) XOR col s r c 1
       XOR col s r c 2 XOR col s r c 3"
    "col (MixColumns_shared s) r c 1 = xtime (col s r c 1 XOR col s r c 2) XOR col s r c 2
       XOR col s r c 3 XOR col s r c 0"
    "col (MixColumns_shared s) r c 2 = xtime (col s r c 2 XOR col s r c 3) XOR col s r c 3
       XOR col s r c 0 XOR col s r c 1"
    "col (MixColumns_shared s) r c 3 = xtime (col s r c 3 XOR col s r c 0) XOR col s r c 0
       XOR col s r c 1 XOR col s r c 2"
  using col_shared [OF assms, of s 0] col_shared [OF assms, of s 1] col_shared [OF assms, of s 2]
    col_shared [OF assms, of s 3]
  by (simp_all add: col_wraps flip: numeral_2_eq_2 numeral_3_eq_3)

lemma MixColumns_cell:
  assumes "r < 4" "c < 4"
  shows "SaveByte (MixColumns s False) r c =
    xtime (col s r c 0) XOR (xtime (col s r c 1) XOR col s r c 1) XOR col s r c 2 XOR col s r c 3"
  using assms by (simp add: MixColumns_def MixColumns_shared_cell xtime_xor xor_ac)

text \<open>The inverse direction multiplies by \<open>0E, 0B, 0D, 09\<close>.\<close>

lemma InvMixColumns_cell:
  assumes "r < 4" "c < 4"
  shows "SaveByte (MixColumns s True) r c =
    (let x = xtime; a = col s r c in
      (x (x (x (a 0))) XOR x (x (a 0)) XOR x (a 0)) XOR (x (x (x (a 1))) XOR x (a 1) XOR a 1)
      XOR (x (x (x (a 2))) XOR x (x (a 2)) XOR a 2) XOR (x (x (x (a 3))) XOR a 3))"
  using assms
  by (simp add: MixColumns_def MixColumns_inverse_factor_cell col_shared_numeral xtime_xor Let_def
      xor_ac del: One_nat_def)

lemma MixColumns_inverse [inverse_simps]: "MixColumns (MixColumns s False) True = s"
proof (rule cells_eqI)
  fix r c :: nat assume rc: "r < 4" "c < 4"
  have "SaveByte (MixColumns (MixColumns s False) True) r c = col s r c 0"
    using rc
    by (simp add: MixColumns_def MixColumns_inverse_factor_cell col_shared_numeral xtime_xor
        xor_ac del: One_nat_def)
  then show "SaveByte (MixColumns (MixColumns s False) True) r c = SaveByte s r c"
    using rc by (simp add: col_0)
qed

lemma AddRoundKey_cell:
  "SaveByte (AddRoundKey s k) r c = SaveByte s r c XOR SaveByte k r c"
  by (rule bit_word_eqI) (simp add: bit_SaveByte AddRoundKey_def slice_zip bit_xor_iff)

lemma AddRoundKey_inverse [inverse_simps]: "AddRoundKey (AddRoundKey s k) k = s"
  by (rule cells_eqI) (simp add: AddRoundKey_cell)

lemma ShiftRows_inverse [inverse_simps]: "InvShiftRows (ShiftRows s) = s"
proof (rule cells_eqI)
  fix r c :: nat assume rc: "r < 4" "c < 4"
  then have "((c + (4 - r)) mod 4 + r) mod 4 = c" by (simp add: mod_simps)
  then show "SaveByte (InvShiftRows (ShiftRows s)) r c = SaveByte s r c"
    using rc by (simp add: ShiftRows_cell)
qed

end
