(* ===== verification/AesSpec.thy ===== *)
theory AesSpec
  imports AesCipher
begin

text \<open>
  The AES of \<open>ctaes.c\<close> against the standard: bytes in and out of the bit-sliced state, decryption as
  the inverse of encryption, the cipher on bytes, the key schedule on words of four bytes, and the
  public functions for the three key sizes.
\<close>

section \<open>Bytes in and out\<close>

lemma nat_less_16_cells:
  assumes "p < (16 :: nat)"
  obtains r c where "r < 4" "c < 4" "p = r * 4 + c"
proof
  show "p div 4 < 4" "p mod 4 < 4" "p = p div 4 * 4 + p mod 4" using assms by auto
qed

lemma cell_position_eq:
  "r < 4 \<Longrightarrow> c < 4 \<Longrightarrow> r' < 4 \<Longrightarrow> c' < 4 \<Longrightarrow> (r * 4 + c = r' * 4 + c') = (r = r' \<and> c = (c' :: nat))"
  for r :: nat
  by (metis cell_index(1,2))

lemma bit_one_word: "bit (1 :: 'a::len word) n = (n = 0)"
  by (simp add: bit_1_iff)

lemma bit_load: "bit (push_bit q (ucast (drop_bit k b AND 1)) :: u16) p =
   (p < 16 \<and> p = q \<and> bit b k)" for b :: u8
  by (auto simp: bit_simps bit_one_word)

lemma LoadByte_slices:
  "slice (LoadByte s b r c) k = slice s k OR push_bit (r * 4 + c) (ucast (drop_bit k b AND 1))"
  if "k < 8"
  using that
  by (cases s; elim less_8_cases) (simp_all add: slice_def drop_bit_drop_bit Let_def del: One_nat_def
      flip: numeral_2_eq_2 numeral_3_eq_3)

lemma LoadByte_cell:
  assumes "r < 4" "c < 4" "r' < 4" "c' < 4"
  shows "SaveByte (LoadByte s b r' c') r c = SaveByte s r c OR (if r = r' \<and> c = c' then b else 0)"
proof (rule bit_word_eqI)
  fix k assume "k < LENGTH(8)"
  then have "k < 8" by simp
  then show "bit (SaveByte (LoadByte s b r' c') r c) k =
      bit (SaveByte s r c OR (if r = r' \<and> c = c' then b else 0)) k"
    using assms by (auto simp: bit_SaveByte LoadByte_slices bit_load cell_position_eq cell_index(3) bit_or_iff)
qed

lemma SaveByte_zero [simp]: "SaveByte zero_state r c = 0"
  by (rule bit_word_eqI) (auto simp: bit_SaveByte zero_state_def slice_def elim!: less_8_cases)

lemma LoadBytes_cell:
  assumes "r < 4" "c < 4"
  shows "SaveByte (LoadBytes zero_state d) r c = d ! (4 * c + r)"
  using assms unfolding LoadBytes_def byte_cells_def
  by (elim less_4_cases; simp add: LoadByte_cell flip: numeral_2_eq_2 numeral_3_eq_3)

lemma SaveBytes_nth:
  assumes "i < 16"
  shows "SaveBytes s ! i = SaveByte s (i mod 4) (i div 4)"
proof -
  have "\<forall>i < 16. byte_cells ! i = (i, i mod 4, i div 4)"
    unfolding all_less_16 upt_numerals by (simp add: byte_cells_def)
  then show ?thesis using assms by (simp add: SaveBytes_def byte_cells_def[THEN arg_cong, of length])
qed

lemma length_SaveBytes [simp]: "length (SaveBytes s) = 16"
  by (simp add: SaveBytes_def byte_cells_def)

lemma Save_Load [inverse_simps]: "length d = 16 \<Longrightarrow> SaveBytes (LoadBytes zero_state d) = d"
  by (rule nth_equalityI) (simp_all add: SaveBytes_nth LoadBytes_cell)

lemma Load_Save [inverse_simps]: "LoadBytes zero_state (SaveBytes s) = s"
  by (rule cells_eqI) (simp add: LoadBytes_cell SaveBytes_nth)

section \<open>Decryption inverts encryption\<close>

definition enc_round :: "aes_state list \<Rightarrow> nat \<Rightarrow> aes_state \<Rightarrow> aes_state" where
  "enc_round rk i s = AddRoundKey (MixColumns (ShiftRows (SubBytes s False)) False) (rk ! i)"

definition enc_rounds :: "aes_state list \<Rightarrow> nat \<Rightarrow> aes_state \<Rightarrow> aes_state" where
  "enc_rounds rk n s = fold (enc_round rk) [1..<n] s"

lemma enc_rounds_Suc: "1 \<le> n \<Longrightarrow> enc_rounds rk (Suc n) s = enc_round rk n (enc_rounds rk n s)"
  by (simp add: enc_rounds_def)

lemma fold_encrypt:
  "1 \<le> n \<Longrightarrow> fold (\<lambda>round (s, p). (AddRoundKey (MixColumns (ShiftRows (SubBytes s False)) False) (rk ! p), p + 1))
     [1..<n] (s, 1) = (enc_rounds rk n s, n)"
proof (induction n rule: nat_induct_at_least)
  case base
  then show ?case by (simp add: enc_rounds_def)
next
  case (Suc n)
  then show ?case by (simp add: enc_rounds_Suc enc_round_def)
qed

lemma AES_encrypt_rounds:
  assumes "1 \<le> n"
  shows "AES_encrypt rk n d = SaveBytes (AddRoundKey (ShiftRows (SubBytes
    (enc_rounds rk n (AddRoundKey (LoadBytes zero_state d) (rk ! 0))) False)) (rk ! n))"
  using fold_encrypt [OF assms] by (simp add: AES_encrypt_def Let_def)

lemma fold_decrypt:
  assumes "k < n"
  shows "fold (\<lambda>round (s, p). (MixColumns (AddRoundKey (SubBytes (InvShiftRows s) True) (rk ! p)) True, p - 1))
     [1..<Suc k] (ShiftRows (SubBytes (enc_rounds rk n s) False), n - 1) =
   (ShiftRows (SubBytes (enc_rounds rk (n - k) s) False), n - 1 - k)"
  using assms
proof (induction k)
  case (Suc k)
  then have "enc_rounds rk (n - k) s = enc_round rk (n - Suc k) (enc_rounds rk (n - Suc k) s)"
    using enc_rounds_Suc [of "n - Suc k" rk s] by (simp add: Suc_diff_Suc)
  with Suc show ?case by (simp add: inverse_simps enc_round_def)
qed simp

lemma AES_decrypt_encrypt:
  assumes "1 \<le> n" "length d = 16"
  shows "AES_decrypt rk n (AES_encrypt rk n d) = d"
proof -
  have "Suc (n - 1) = n" "n - 1 < n" using assms by simp_all
  moreover have "enc_rounds rk (Suc 0) s = s" for s by (simp add: enc_rounds_def)
  ultimately show ?thesis
    using assms fold_decrypt [of "n - 1" n rk "AddRoundKey (LoadBytes zero_state d) (rk ! 0)"]
    by (simp add: AES_encrypt_rounds AES_decrypt_def Let_def inverse_simps)
qed

lemma length_AES_encrypt [simp]: "length (AES_encrypt rk n d) = 16"
  by (simp add: AES_encrypt_def Let_def split: prod.split)

section \<open>The cipher of the standard\<close>

text \<open>
  The standard on a list of sixteen bytes, the byte of row \<open>r\<close> and column \<open>c\<close> at index \<open>r + 4 * c\<close>,
  and its key expansion on words of four bytes.
\<close>

definition fips_SubBytes :: "bytes \<Rightarrow> bytes" where
  "fips_SubBytes d = map (\<lambda>b. aes_sbox ! unat b) d"

definition fips_ShiftRows :: "bytes \<Rightarrow> bytes" where
  "fips_ShiftRows d = map (\<lambda>i. d ! ((i + 4 * (i mod 4)) mod 16)) [0..<16]"

definition fips_MixColumns :: "bytes \<Rightarrow> bytes" where
  "fips_MixColumns d = map (\<lambda>i.
     let a = \<lambda>j. d ! (i div 4 * 4 + (i + j) mod 4)
     in xtime (a 0) XOR (xtime (a 1) XOR a 1) XOR a 2 XOR a 3) [0..<16]"

definition fips_AddRoundKey :: "bytes \<Rightarrow> bytes \<Rightarrow> bytes" where
  "fips_AddRoundKey d k = map2 (XOR) d k"

definition fips_cipher :: "bytes list \<Rightarrow> nat \<Rightarrow> bytes \<Rightarrow> bytes" where
  "fips_cipher keys n d =
     fips_AddRoundKey (fips_ShiftRows (fips_SubBytes
       (fold (\<lambda>i d. fips_AddRoundKey (fips_MixColumns (fips_ShiftRows (fips_SubBytes d))) (keys ! i))
         [1..<n] (fips_AddRoundKey d (keys ! 0))))) (keys ! n)"

lemma row_column:
  assumes "i < (16 :: nat)"
  shows "i mod 4 < 4" "i div 4 < 4"
  using assms by auto

lemma shift_index:
  assumes "i < (16 :: nat)"
  shows "((i + 4 * (i mod 4)) mod 16) mod 4 = i mod 4"
    "((i + 4 * (i mod 4)) mod 16) div 4 = (i div 4 + i mod 4) mod 4"
proof -
  have "\<forall>i < 16. ((i + 4 * (i mod 4)) mod 16) mod 4 = i mod 4 \<and>
      ((i + 4 * (i mod 4)) mod 16) div 4 = (i div 4 + i mod 4) mod (4 :: nat)"
    unfolding all_less_16 upt_numerals by simp
  with assms show "((i + 4 * (i mod 4)) mod 16) mod 4 = i mod 4"
    "((i + 4 * (i mod 4)) mod 16) div 4 = (i div 4 + i mod 4) mod 4" by blast+
qed

lemma SaveBytes_SubBytes: "SaveBytes (SubBytes s False) = fips_SubBytes (SaveBytes s)"
  by (rule nth_equalityI) (simp_all add: fips_SubBytes_def SaveBytes_nth SubBytes_cell row_column)

lemma SaveBytes_ShiftRows: "SaveBytes (ShiftRows s) = fips_ShiftRows (SaveBytes s)"
  by (rule nth_equalityI)
    (simp_all add: fips_ShiftRows_def SaveBytes_nth ShiftRows_cell row_column shift_index)

lemma SaveBytes_MixColumns: "SaveBytes (MixColumns s False) = fips_MixColumns (SaveBytes s)"
proof (rule nth_equalityI)
  fix i assume "i < length (SaveBytes (MixColumns s False))"
  then have i: "i < 16" by simp
  have j: "i div 4 * 4 + (i + j) mod 4 < 16" for j
    using row_column [OF i] mod_less_divisor [of 4 "i + j"] by linarith
  have col: "SaveBytes s ! (i div 4 * 4 + (i + j) mod 4) = col s (i mod 4) (i div 4) j" for j
    using i SaveBytes_nth [OF j, of s j] by (simp add: col_def mod_simps)
  show "SaveBytes (MixColumns s False) ! i = fips_MixColumns (SaveBytes s) ! i"
    using i row_column [OF i]
    by (simp only: fips_MixColumns_def Let_def col MixColumns_cell SaveBytes_nth nth_map length_upt
        nth_upt add_0 diff_zero)
qed (simp add: fips_MixColumns_def)

lemma SaveBytes_AddRoundKey:
  "SaveBytes (AddRoundKey s k) = fips_AddRoundKey (SaveBytes s) (SaveBytes k)"
  by (rule nth_equalityI) (simp_all add: fips_AddRoundKey_def SaveBytes_nth AddRoundKey_cell)

lemmas SaveBytes_layers =
  SaveBytes_SubBytes SaveBytes_ShiftRows SaveBytes_MixColumns SaveBytes_AddRoundKey

lemma AES_encrypt_cipher:
  assumes "1 \<le> n" "n < length rk" "length d = 16"
  shows "AES_encrypt rk n d = fips_cipher (map SaveBytes rk) n d"
proof -
  have "m \<le> n \<Longrightarrow> SaveBytes (enc_rounds rk m s) =
    fold (\<lambda>i d. fips_AddRoundKey (fips_MixColumns (fips_ShiftRows (fips_SubBytes d)))
      (map SaveBytes rk ! i)) [1..<m] (SaveBytes s)" if "1 \<le> m" for m s
    using that
  proof (induction m rule: nat_induct_at_least)
    case base
    then show ?case by (simp add: enc_rounds_def)
  next
    case (Suc m)
    then show ?case
      using assms by (simp add: enc_rounds_Suc enc_round_def SaveBytes_layers)
  qed
  moreover have keys_0: "map SaveBytes rk ! 0 = SaveBytes (rk ! 0)"
    using assms by (intro nth_map) linarith
  ultimately show ?thesis
    using assms
    by (simp add: AES_encrypt_rounds fips_cipher_def SaveBytes_layers inverse_simps)
qed

section \<open>The key schedule\<close>

definition fips_SubWord :: "bytes \<Rightarrow> bytes" where
  "fips_SubWord w = map (\<lambda>b. aes_sbox ! unat b) w"

definition fips_RotWord :: "bytes \<Rightarrow> bytes" where
  "fips_RotWord w = rotate1 w"

definition fips_Rcon :: "nat \<Rightarrow> bytes" where
  "fips_Rcon i = [(xtime ^^ (i - 1)) 1, 0, 0, 0]"

definition fips_next_word :: "nat \<Rightarrow> bytes list \<Rightarrow> nat \<Rightarrow> bytes" where
  "fips_next_word nk ws i =
     (let
        temp = ws ! (i - 1);
        temp = (if i mod nk = 0 then map2 (XOR) (fips_SubWord (fips_RotWord temp)) (fips_Rcon (i div nk))
                else if nk > 6 \<and> i mod nk = 4 then fips_SubWord temp
                else temp)
      in map2 (XOR) (ws ! (i - nk)) temp)"

definition fips_KeyExpansion :: "bytes \<Rightarrow> nat \<Rightarrow> nat \<Rightarrow> bytes list" where
  "fips_KeyExpansion key nk nr =
     fold (\<lambda>i ws. ws @ [fips_next_word nk ws i]) [nk..<4 * (nr + 1)]
       (map (\<lambda>i. take 4 (drop (4 * i) key)) [0..<nk])"

definition fips_round_keys :: "bytes \<Rightarrow> nat \<Rightarrow> nat \<Rightarrow> bytes list" where
  "fips_round_keys key nk nr =
     map (\<lambda>i. concat (take 4 (drop (4 * i) (fips_KeyExpansion key nk nr)))) [0..<nr + 1]"

definition column_word :: "aes_state \<Rightarrow> nat \<Rightarrow> bytes" where
  "column_word s c = map (\<lambda>r. SaveByte s r c) [0, 1, 2, 3]"

definition round_word :: "aes_state list \<Rightarrow> nat \<Rightarrow> bytes" where
  "round_word rounds j = column_word (rounds ! (j div 4)) (j mod 4)"

lemma column_bits:
  fixes v :: u16
  assumes "r < 4" "c < 4" "c' < 4"
  shows "bit (drop_bit c v AND 0x1111) (r * 4) = bit v (r * 4 + c)"
    and "bit (push_bit c (v AND 0x1111)) (r * 4 + c') = (if c = c' then bit v (r * 4) else False)"
proof -
  have "bit (0x1111 :: u16) p = (p < 16 \<and> p mod 4 = 0)" for p
  proof -
    have "\<forall>p < 16. bit (0x1111 :: u16) p = (p mod 4 = 0)"
      unfolding all_less_16 upt_numerals by simp
    then show ?thesis using bit_u16_high [of p "0x1111"] by (cases "p < 16") auto
  qed
  note mask = this
  show "bit (drop_bit c v AND 0x1111) (r * 4) = bit v (r * 4 + c)"
    using assms mask [of "r * 4"] by (simp add: bit_and_iff bit_drop_bit_eq add.commute)
  have "(r * 4 + c' - c) mod 4 = 0 \<longleftrightarrow> c = c'" if "c \<le> r * 4 + c'"
    using mod_eq_dvd_iff_nat [OF that, of 4] assms by (auto simp: mod_eq_0_iff_dvd)
  then show "bit (push_bit c (v AND 0x1111)) (r * 4 + c') = (if c = c' then bit v (r * 4) else False)"
    using assms by (auto simp: bit_push_bit_iff bit_and_iff mask simp del: bit_numeral_word_iff)
qed

lemma GetOneColumn_cell:
  "r < 4 \<Longrightarrow> c < 4 \<Longrightarrow> SaveByte (GetOneColumn a c) r 0 = SaveByte a r c"
  by (rule bit_word_eqI) (auto simp: bit_SaveByte GetOneColumn_def slice_each column_bits [where c' = 0, simplified])

lemma KeySetupTransform_cell:
  assumes "r < 4"
  shows "SaveByte (KeySetupTransform s k) r 0 = SaveByte s ((r + 1) mod 4) 0 XOR SaveByte k r 0"
proof (rule bit_word_eqI)
  fix b assume "b < LENGTH(8)"
  then have "b < 8" by simp
  then show "bit (SaveByte (KeySetupTransform s k) r 0) b =
      bit (SaveByte s ((r + 1) mod 4) 0 XOR SaveByte k r 0) b"
    using ROT_cells(1) [OF assms, of 0 "slice s b"]
    by (simp add: bit_SaveByte KeySetupTransform_def slice_zip bit_xor_iff ROT_def)
qed

lemma MultX_cell: "SaveByte (MultX s) r c = xtime (SaveByte s r c)"
proof (rule bit_word_eqI)
  fix b assume "b < LENGTH(8)"
  then have "b < 8" by simp
  then show "bit (SaveByte (MultX s) r c) b = bit (xtime (SaveByte s r c)) b"
    by (cases s; elim less_8_cases; simp add: bit_SaveByte bit_xtime slice_def Let_def bit_xor_iff; argo)
qed

lemma KeySetupColumnMix_cell:
  assumes "KeySetupColumnMix s r a c1 c2 = (s', r')" "i < 4" "c < 4" "c1 < 4" "c2 < 4"
  shows "SaveByte s' i 0 = SaveByte s i 0 XOR SaveByte a i c2"
    and "SaveByte r' i c = (if c = c1 then SaveByte r i c OR SaveByte s' i 0 else SaveByte r i c)"
proof -
  have s': "s' = zip_slices (\<lambda>x y. x XOR (drop_bit c2 y AND 0x1111)) s a"
    and r': "r' = zip_slices (\<lambda>x y. x OR push_bit c1 (y AND 0x1111)) r s'"
    using assms(1) by (auto simp: KeySetupColumnMix_def Let_def simp del: push_bit_and)
  show "SaveByte s' i 0 = SaveByte s i 0 XOR SaveByte a i c2"
    by (rule bit_word_eqI) (use assms in \<open>auto simp: bit_SaveByte s' slice_zip bit_xor_iff column_bits(1) [where c' = 0, simplified]\<close>)
  show "SaveByte r' i c = (if c = c1 then SaveByte r i c OR SaveByte s' i 0 else SaveByte r i c)"
    by (rule bit_word_eqI) (use assms in \<open>auto simp: bit_SaveByte r' slice_zip bit_or_iff column_bits simp del: push_bit_and\<close>)
qed

lemma length_column_word [simp]: "length (column_word s c) = 4"
  by (simp add: column_word_def)

lemma column_word_layers:
  "c < 4 \<Longrightarrow> column_word (SubBytes s False) c = fips_SubWord (column_word s c)"
  "column_word (KeySetupTransform s k) 0 = map2 (XOR) (fips_RotWord (column_word s 0)) (column_word k 0)"
  "c < 4 \<Longrightarrow> column_word (GetOneColumn a c) 0 = column_word a c"
  "column_word (MultX s) c = map xtime (column_word s c)"
  by (simp_all add: column_word_def fips_SubWord_def fips_RotWord_def SubBytes_cell KeySetupTransform_cell
      GetOneColumn_cell MultX_cell flip: numeral_2_eq_2 numeral_3_eq_3)

lemma column_word_mix:
  assumes "KeySetupColumnMix s r a c1 c2 = (s', r')" "c < 4" "c1 < 4" "c2 < 4"
  shows "column_word s' 0 = map2 (XOR) (column_word a c2) (column_word s 0)"
    and "column_word r' c = (if c = c1 then map2 (OR) (column_word r c) (column_word s' 0) else column_word r c)"
  using KeySetupColumnMix_cell [OF assms(1) _ assms(2-4)]
  by (simp_all add: column_word_def xor.commute)

lemma round_word_update:
  assumes "i div 4 < length rounds"
  shows "round_word (rounds[i div 4 := t]) j =
    (if j div 4 = i div 4 then column_word t (j mod 4) else round_word rounds j)"
  using assms by (simp add: round_word_def nth_list_update)

lemma same_position: "j div 4 = i div 4 \<Longrightarrow> j mod 4 = i mod 4 \<Longrightarrow> j = (i :: nat)"
  by (metis div_mult_mod_eq)

lemma map2_OR_zero: "z = [0, 0, 0, 0] \<Longrightarrow> length w = 4 \<Longrightarrow> map2 (OR) z w = (w :: bytes)"
  by (auto simp: length_Suc_conv eval_nat_numeral)

lemma xtime_zero [simp]: "xtime 0 = 0"
  by (simp add: xtime_def)

lemma fips_Rcon_Suc: "map xtime (fips_Rcon (Suc i)) = fips_Rcon (Suc (Suc i))"
  by (simp add: fips_Rcon_def)

text \<open>What the expansion loop keeps, against the list of words of the standard.\<close>

definition setup_inv ::
  "nat \<Rightarrow> nat \<Rightarrow> nat \<Rightarrow> aes_state list \<times> aes_state \<times> aes_state \<times> nat \<Rightarrow> bytes list \<Rightarrow> bool"
where
  "setup_inv nk nr i S ws = (case S of (rounds, column, rcon, pos) \<Rightarrow>
     length rounds = nr + 1 \<and> length ws = i \<and> pos = i mod nk \<and>
     (\<forall>j < i. round_word rounds j = ws ! j) \<and>
     (\<forall>j. i \<le> j \<and> j < 4 * (nr + 1) \<longrightarrow> round_word rounds j = [0, 0, 0, 0]) \<and>
     column_word column 0 = ws ! (i - 1) \<and>
     column_word rcon 0 = fips_Rcon ((i - 1) div nk + 1))"

lemma div_step:
  assumes "0 < nk" "nk \<le> i"
  shows "i mod nk = 0 \<Longrightarrow> (i - 1) div nk + 1 = i div nk"
    and "i mod nk \<noteq> 0 \<Longrightarrow> (i - 1) div nk = i div nk"
    and "(if i mod nk + 1 = nk then 0 else i mod nk + 1) = Suc i mod nk"
proof -
  obtain k where k: "i = Suc k" using assms by (cases i) auto
  show "i mod nk = 0 \<Longrightarrow> (i - 1) div nk + 1 = i div nk" "i mod nk \<noteq> 0 \<Longrightarrow> (i - 1) div nk = i div nk"
    using div_Suc [of k nk] by (auto simp: k mod_Suc split: if_splits)
  show "(if i mod nk + 1 = nk then 0 else i mod nk + 1) = Suc i mod nk"
    by (simp add: mod_Suc)
qed

lemma AES_setup_step_inv:
  assumes "setup_inv nk nr i S ws" "0 < nk" "nk \<le> i" "i < 4 * (nr + 1)"
  shows "setup_inv nk nr (Suc i) (AES_setup_step nk i S) (ws @ [fips_next_word nk ws i])"
proof -
  obtain rounds column rcon pos where S: "S = (rounds, column, rcon, pos)" by (cases S)
  have pre: "length rounds = nr + 1" "length ws = i" "pos = i mod nk"
    "\<And>j. j < i \<Longrightarrow> round_word rounds j = ws ! j"
    "\<And>j. i \<le> j \<Longrightarrow> j < 4 * (nr + 1) \<Longrightarrow> round_word rounds j = [0, 0, 0, 0]"
    "column_word column 0 = ws ! (i - 1)" "column_word rcon 0 = fips_Rcon ((i - 1) div nk + 1)"
    using assms(1) by (auto simp: setup_inv_def S)
  define column' where "column' = (if i mod nk = 0 then KeySetupTransform (SubBytes column False) rcon
    else if nk > 6 \<and> i mod nk = 4 then SubBytes column False else column)"
  define rcon' where "rcon' = (if i mod nk = 0 then MultX rcon else rcon)"
  obtain s' r' where mix: "KeySetupColumnMix column' (rounds ! (i div 4)) (rounds ! ((i - nk) div 4))
      (i mod 4) ((i - nk) mod 4) = (s', r')" by fastforce
  have step: "AES_setup_step nk i S = (rounds[i div 4 := r'], s', rcon', Suc i mod nk)"
    using mix div_step(3) [OF assms(2,3)]
    by (auto simp: AES_setup_step_def S pre(3) Let_def column'_def rcon'_def split: if_splits)
  have i4: "i div 4 < length rounds" using assms(4) pre(1) by simp
  have new: "column_word s' 0 = fips_next_word nk ws i"
    using column_word_mix(1) [OF mix, of 0] pre(4) [of "i - nk"] assms(2,3)
    by (simp add: column'_def column_word_layers pre(6,7) fips_next_word_def Let_def
        div_step(1) [OF assms(2,3), symmetric] round_word_def fips_SubWord_def fips_RotWord_def rotate1_map)
  have zero: "round_word rounds i = [0, 0, 0, 0]" using pre(5) assms(4) by simp
  have at: "round_word (rounds[i div 4 := r']) j = (if j = i then fips_next_word nk ws i else round_word rounds j)"
    if "j < 4 * (nr + 1)" for j
  proof (cases "j div 4 = i div 4")
    case True
    then have "round_word rounds j = column_word (rounds ! (i div 4)) (j mod 4)"
      by (simp add: round_word_def)
    then show ?thesis
      using column_word_mix(2) [OF mix, of "j mod 4"] same_position [OF True] zero
      by (cases "j = i") (auto simp: round_word_update [OF i4] True map2_OR_zero simp flip: new)
  qed (auto simp: round_word_update [OF i4])
  have rcon: "column_word rcon' 0 = fips_Rcon (i div nk + 1)"
    using pre(7) div_step(1,2) [OF assms(2,3)] fips_Rcon_Suc [of "(i - 1) div nk"]
    by (auto simp: rcon'_def column_word_layers)
  show ?thesis
    using assms(4) by (auto simp: setup_inv_def step pre at new rcon nth_append less_Suc_eq)
qed

lemma fold_setup_inv:
  assumes "setup_inv nk nr nk S ws" "0 < nk" "nk \<le> n" "n \<le> 4 * (nr + 1)"
  shows "setup_inv nk nr n (fold (AES_setup_step nk) [nk..<n] S)
    (fold (\<lambda>i ws. ws @ [fips_next_word nk ws i]) [nk..<n] ws)"
  using assms(3,4)
proof (induction n rule: nat_induct_at_least)
  case base
  then show ?case using assms(1) by simp
next
  case (Suc n)
  then show ?case
    using AES_setup_step_inv [OF Suc.IH] assms(2) by simp
qed

text \<open>The first words are the key itself.\<close>

definition load_word :: "bytes \<Rightarrow> nat \<Rightarrow> aes_state list \<Rightarrow> aes_state list" where
  "load_word key i rounds = fold (\<lambda>r rounds.
     rounds[i div 4 := LoadByte (rounds ! (i div 4)) (key ! (4 * i + r)) r (i mod 4)]) [0..<4] rounds"

lemma round_word_load:
  assumes "i div 4 < length rounds"
  shows "round_word (load_word key i rounds) j =
    (if j = i then map2 (OR) (round_word rounds i) (map (\<lambda>r. key ! (4 * i + r)) [0, 1, 2, 3])
     else round_word rounds j)"
proof -
  have four: "[0..<4] = [0, 1, 2, 3 :: nat]" by (simp add: upt_rec)
  have "load_word key i rounds = rounds[i div 4 :=
    LoadByte (LoadByte (LoadByte (LoadByte (rounds ! (i div 4)) (key ! (4 * i + 0)) 0 (i mod 4))
      (key ! (4 * i + 1)) 1 (i mod 4)) (key ! (4 * i + 2)) 2 (i mod 4)) (key ! (4 * i + 3)) 3 (i mod 4)]"
    using assms by (simp add: load_word_def four)
  then show ?thesis
    using assms same_position [of j i]
    by (auto simp: round_word_update) (auto simp: round_word_def column_word_def LoadByte_cell)
qed

lemma length_load_word [simp]: "length (load_word key i rounds) = length rounds"
proof -
  have "length (fold (\<lambda>r rounds. rounds[i div 4 := f r rounds]) rs rounds) = length rounds" for f rs
    by (induction rs arbitrary: rounds) simp_all
  then show ?thesis by (simp add: load_word_def)
qed

lemma take_4: "length key \<ge> 4 * i + 4 \<Longrightarrow> take 4 (drop (4 * i) key) = map (\<lambda>r. key ! (4 * i + r)) [0, 1, 2, 3]"
  by (rule nth_equalityI) (auto simp: nth_Cons' less_Suc_eq eval_nat_numeral)

lemma load_words:
  assumes "n \<le> 4 * (nr + 1)" "4 * n \<le> length key"
  defines "R \<equiv> fold (load_word key) [0..<n] (replicate (nr + 1) zero_state)"
  shows "length R = nr + 1 \<and> (\<forall>j. j < 4 * (nr + 1) \<longrightarrow>
     round_word R j = (if j < n then take 4 (drop (4 * j) key) else [0, 0, 0, 0]))"
  using assms(1,2) unfolding R_def
proof (induction n)
  case 0
  then show ?case by (auto simp: round_word_def column_word_def simp del: replicate_Suc)
next
  case (Suc n)
  then have "n div 4 < nr + 1" by auto
  with Suc show ?case
    by (auto simp: round_word_load less_Suc_eq map2_OR_zero take_4)
qed

lemma AES_setup_words:
  assumes "0 < nk" "nk \<le> 4 * (nr + 1)" "length key = 4 * nk"
  shows "length (AES_setup key nk nr) = nr + 1"
    and "length (fips_KeyExpansion key nk nr) = 4 * (nr + 1)"
    and "\<And>j. j < 4 * (nr + 1) \<Longrightarrow> round_word (AES_setup key nk nr) j = fips_KeyExpansion key nk nr ! j"
proof -
  define R where "R = fold (load_word key) [0..<nk] (replicate (nr + 1) zero_state)"
  define S where "S = (R, GetOneColumn (R ! ((nk - 1) div 4)) ((nk - 1) mod 4),
    Slices 1 0 0 0 0 0 0 0 :: aes_state, 0 :: nat)"
  define ws where "ws = map (\<lambda>i. take 4 (drop (4 * i) key)) [0..<nk]"
  have R: "length R = nr + 1"
    "\<And>j. j < 4 * (nr + 1) \<Longrightarrow> round_word R j = (if j < nk then take 4 (drop (4 * j) key) else [0, 0, 0, 0])"
    using load_words [of nk nr key] assms unfolding R_def by auto
  have "column_word (Slices 1 0 0 0 0 0 0 0) 0 = fips_Rcon 1"
    by (simp add: column_word_def SaveByte_def slice_def upt_numerals fips_Rcon_def)
  moreover have "column_word (GetOneColumn (R ! ((nk - 1) div 4)) ((nk - 1) mod 4)) 0 = ws ! (nk - 1)"
    using R(2) [of "nk - 1"] assms by (simp add: column_word_layers round_word_def ws_def)
  ultimately have "setup_inv nk nr nk S ws"
    using R assms by (auto simp: setup_inv_def S_def ws_def)
  from fold_setup_inv [OF this assms(1,2) order_refl]
  have inv: "setup_inv nk nr (4 * (nr + 1)) (fold (AES_setup_step nk) [nk..<4 * (nr + 1)] S)
      (fips_KeyExpansion key nk nr)"
    by (simp add: fips_KeyExpansion_def ws_def)
  have fst: "AES_setup key nk nr = fst (fold (AES_setup_step nk) [nk..<4 * (nr + 1)] S)"
    by (simp add: AES_setup_def Let_def S_def R_def load_word_def [abs_def] split: prod.split)
  obtain a b c d where "fold (AES_setup_step nk) [nk..<4 * (nr + 1)] S = (a, b, c, d)"
    by (cases "fold (AES_setup_step nk) [nk..<4 * (nr + 1)] S")
  with inv fst show "length (AES_setup key nk nr) = nr + 1"
    "length (fips_KeyExpansion key nk nr) = 4 * (nr + 1)"
    "\<And>j. j < 4 * (nr + 1) \<Longrightarrow> round_word (AES_setup key nk nr) j = fips_KeyExpansion key nk nr ! j"
    by (auto simp: setup_inv_def)
qed

lemma SaveBytes_columns:
  "SaveBytes s = column_word s 0 @ column_word s 1 @ column_word s 2 @ column_word s 3"
  by (simp add: SaveBytes_def byte_cells_def column_word_def)

lemma AES_setup_round_keys:
  assumes "0 < nk" "nk \<le> 4 * (nr + 1)" "length key = 4 * nk"
  shows "map SaveBytes (AES_setup key nk nr) = fips_round_keys key nk nr"
proof (rule nth_equalityI)
  fix i assume "i < length (map SaveBytes (AES_setup key nk nr))"
  then have i: "i < nr + 1" by (simp add: AES_setup_words [OF assms])
  let ?W = "fips_KeyExpansion key nk nr"
  have w: "column_word (AES_setup key nk nr ! i) r = ?W ! (4 * i + r)" if "r < 4" for r
    using AES_setup_words(3) [OF assms, of "4 * i + r"] i that by (simp add: round_word_def)
  have "take 4 (drop (4 * i) ?W) = [?W ! (4 * i), ?W ! (4 * i + 1), ?W ! (4 * i + 2), ?W ! (4 * i + 3)]"
    using i AES_setup_words(2) [OF assms]
    by (intro nth_equalityI) (auto simp: nth_Cons' less_Suc_eq eval_nat_numeral)
  then show "map SaveBytes (AES_setup key nk nr) ! i = fips_round_keys key nk nr ! i"
    using i w [of 0] w [of 1] w [of 2] w [of 3]
    by (simp add: AES_setup_words [OF assms] SaveBytes_columns fips_round_keys_def del: upt_Suc)
qed (simp add: AES_setup_words [OF assms] fips_round_keys_def)

section \<open>The public functions\<close>

text \<open>The value of a block function on each of \<open>n\<close> consecutive blocks of sixteen bytes.\<close>

definition on_blocks :: "(bytes \<Rightarrow> bytes) \<Rightarrow> nat \<Rightarrow> bytes \<Rightarrow> bytes" where
  "on_blocks f n d = concat (map (\<lambda>i. f (take 16 (drop (16 * i) d))) [0..<n])"

lemma on_blocks_0 [simp]: "on_blocks f 0 d = []"
  by (simp add: on_blocks_def)

lemma on_blocks_Suc: "on_blocks f (Suc n) d = f (take 16 d) @ on_blocks f n (drop 16 d)"
  unfolding on_blocks_def upt_conv_Cons [OF zero_less_Suc] map_Suc_upt [symmetric]
  by (simp add: comp_def add.commute del: upt_Suc)

lemma on_blocks_cong:
  "(\<And>b. length b = 16 \<Longrightarrow> f b = g b) \<Longrightarrow> length d = 16 * n \<Longrightarrow> on_blocks f n d = on_blocks g n d"
  by (induction n arbitrary: d) (simp_all add: on_blocks_Suc)

lemma length_on_blocks:
  "(\<And>b. length (f b) = 16) \<Longrightarrow> length (on_blocks f n d) = 16 * n"
  by (induction n arbitrary: d) (simp_all add: on_blocks_Suc)

lemma on_blocks_inverse:
  assumes "\<And>b. length b = 16 \<Longrightarrow> g (f b) = b" "\<And>b. length (f b) = 16" "length d = 16 * n"
  shows "on_blocks g n (on_blocks f n d) = d"
  using assms(3)
proof (induction n arbitrary: d)
  case (Suc n)
  then have "length (take 16 d) = 16" "length (drop 16 d) = 16 * n" by simp_all
  then show ?case
    using Suc.IH [of "drop 16 d"] assms(1) [of "take 16 d"] assms(2)
    by (simp add: on_blocks_Suc)
qed simp

lemma LoadBytes_take: "LoadBytes s (take 16 d) = LoadBytes s d"
  by (simp add: LoadBytes_def byte_cells_def)

lemma AES_take:
  "AES_encrypt rk n (take 16 d) = AES_encrypt rk n d" "AES_decrypt rk n (take 16 d) = AES_decrypt rk n d"
  by (simp_all add: AES_encrypt_def AES_decrypt_def LoadBytes_take)

lemma block_functions:
  "AES128_encrypt rk n d = on_blocks (AES_encrypt rk 10) n d"
  "AES192_encrypt rk n d = on_blocks (AES_encrypt rk 12) n d"
  "AES256_encrypt rk n d = on_blocks (AES_encrypt rk 14) n d"
  "AES128_decrypt rk n d = on_blocks (AES_decrypt rk 10) n d"
  "AES192_decrypt rk n d = on_blocks (AES_decrypt rk 12) n d"
  "AES256_decrypt rk n d = on_blocks (AES_decrypt rk 14) n d"
  by (induction n arbitrary: d) (simp_all add: on_blocks_Suc AES_take)

lemma AES_encrypt_fips:
  assumes "0 < nk" "nk \<le> 4 * (nr + 1)" "length key = 4 * nk" "1 \<le> nr" "length d = 16 * n"
  shows "on_blocks (AES_encrypt (AES_setup key nk nr) nr) n d =
    on_blocks (fips_cipher (fips_round_keys key nk nr) nr) n d"
  using assms AES_setup_words(1) [OF assms(1-3)]
  by (intro on_blocks_cong) (simp_all add: AES_encrypt_cipher AES_setup_round_keys)

text \<open>
  C25: the three AES interfaces compute the cipher of FIPS-197: keys of 16, 24 and 32 bytes give the
  key expansion of the standard, and every block of the input is encrypted with the byte-level cipher,
  for any number of blocks.
\<close>

theorem AES_encrypt_correct:
  assumes "length key16 = 16" "length key24 = 24" "length key32 = 32"
    and "length plain16 = 16 * blocks"
  shows "AES128_encrypt (AES128_init key16) blocks plain16 =
      on_blocks (fips_cipher (fips_round_keys key16 4 10) 10) blocks plain16 \<and>
    AES192_encrypt (AES192_init key24) blocks plain16 =
      on_blocks (fips_cipher (fips_round_keys key24 6 12) 12) blocks plain16 \<and>
    AES256_encrypt (AES256_init key32) blocks plain16 =
      on_blocks (fips_cipher (fips_round_keys key32 8 14) 14) blocks plain16"
  using assms
  by (simp_all add: block_functions AES128_init_def AES192_init_def AES256_init_def AES_encrypt_fips)

theorem AES_encrypt_correct_witness:
  "AES128_encrypt (AES128_init (replicate 16 1)) 1 (replicate 16 2) =
      on_blocks (fips_cipher (fips_round_keys (replicate 16 1) 4 10) 10) 1 (replicate 16 2)"
  by (rule AES_encrypt_correct [of "replicate 16 1" "replicate 24 1" "replicate 32 1", THEN conjunct1]) simp_all

text \<open>
  decryption undoes encryption for every key schedule, not only those of the key setup, and any
  number of blocks.
\<close>

theorem AES_roundtrip:
  assumes "length plain16 = 16 * blocks"
  shows "AES128_decrypt rk blocks (AES128_encrypt rk blocks plain16) = plain16 \<and>
    AES192_decrypt rk blocks (AES192_encrypt rk blocks plain16) = plain16 \<and>
    AES256_decrypt rk blocks (AES256_encrypt rk blocks plain16) = plain16"
  using assms by (simp_all add: block_functions on_blocks_inverse AES_decrypt_encrypt)

theorem AES_roundtrip_witness:
  "AES256_decrypt (AES256_init (replicate 32 7)) 2 (AES256_encrypt (AES256_init (replicate 32 7)) 2
     (replicate 32 9)) = replicate 32 9"
  using AES_roundtrip [of "replicate 32 9" 2] by simp

text \<open>
  the bit-sliced S-box circuit is the S-box of the standard on each of the sixteen bytes of the
  state, and its inverse circuit the inverse S-box.
\<close>

theorem AES_sbox_correct:
  fixes s :: aes_state
  assumes "r < 4" "c < 4"
  shows "SaveByte (SubBytes s False) r c = aes_sbox ! unat (SaveByte s r c) \<and>
    SaveByte (SubBytes s True) r c = aes_inv_sbox ! unat (SaveByte s r c) \<and>
    SubBytes (SubBytes s False) True = s \<and> SubBytes (SubBytes s True) False = s"
  using SubBytes_cell [OF assms] SubBytes_inverse by blast

theorem AES_sbox_correct_witness:
  "SaveByte (SubBytes zero_state False) 3 2 = 0x63"
  using AES_sbox_correct [of 3 2 zero_state] by (simp add: aes_sbox_def)

end
