(* ===== verification/Cbc.thy ===== *)
theory Cbc
  imports AesSpec
begin

text \<open>
  The CBC mode of \<open>src/crypto/aes.cpp\<close>: \<open>CBCEncrypt\<close> and \<open>CBCDecrypt\<close> over a block cipher given by
  its two functions, with and without padding, and the classes that fix the cipher to AES-256.
  A null pointer argument is \<open>None\<close>; a call returns the count it returns and the bytes it has stored
  at the output pointer. Sizes are non-negative, as every caller passes the sz of a container.
\<close>

section \<open>The code\<close>

definition AES_BLOCKSIZE :: nat where
  "AES_BLOCKSIZE = 16"

definition xor_into :: "bytes \<Rightarrow> bytes \<Rightarrow> bytes" where
  "xor_into mixed d = map2 (XOR) mixed d"

text \<open>The loop over whole blocks: the rest of the input, the chaining block, the count and the output.\<close>

function CBCEncrypt_loop ::
  "(bytes \<Rightarrow> bytes) \<Rightarrow> nat \<Rightarrow> bytes \<Rightarrow> bytes \<Rightarrow> nat \<Rightarrow> bytes \<Rightarrow> bytes \<times> bytes \<times> nat \<times> bytes"
where
  "CBCEncrypt_loop enc sz data mixed written out =
     (if written + AES_BLOCKSIZE \<le> sz then
        let
          mixed = xor_into mixed (take AES_BLOCKSIZE data);
          block = enc mixed
        in CBCEncrypt_loop enc sz (drop AES_BLOCKSIZE data) block (written + AES_BLOCKSIZE) (out @ block)
      else (data, mixed, written, out))"
  by pat_completeness auto
termination
  by (relation "measure (\<lambda>(enc, sz, data, mixed, written, out). sz - written)")
    (auto simp: AES_BLOCKSIZE_def)

declare CBCEncrypt_loop.simps [simp del]

definition CBCEncrypt ::
  "(bytes \<Rightarrow> bytes) \<Rightarrow> bytes \<Rightarrow> bytes option \<Rightarrow> nat \<Rightarrow> bool \<Rightarrow> bool \<Rightarrow> nat \<times> bytes"
where
  "CBCEncrypt enc iv data_opt sz pad out_null =
     (let padsize = sz mod AES_BLOCKSIZE
      in case data_opt of
        None \<Rightarrow> (0, [])
      | Some data \<Rightarrow>
          if sz = 0 \<or> out_null then (0, [])
          else if \<not> pad \<and> padsize \<noteq> 0 then (0, [])
          else
            let (data, mixed, written, out) = CBCEncrypt_loop enc sz data (take AES_BLOCKSIZE iv) 0 []
            in if pad then
                 let
                   mixed = xor_into (take padsize mixed) (take padsize data) @ drop padsize mixed;
                   mixed = take padsize mixed
                     @ map (\<lambda>b. b XOR of_nat (AES_BLOCKSIZE - padsize)) (drop padsize mixed);
                   block = enc mixed
                 in (written + AES_BLOCKSIZE, out @ block)
               else (written, out))"

text \<open>The loop ends by \<open>written = size\<close> (\<open>sz\<close> here), which it reaches because the size is a multiple of 16.\<close>

function CBCDecrypt_loop ::
  "(bytes \<Rightarrow> bytes) \<Rightarrow> bytes \<Rightarrow> nat \<Rightarrow> bytes \<Rightarrow> nat \<Rightarrow> bytes \<Rightarrow> nat \<times> bytes"
where
  "CBCDecrypt_loop dec data sz prev written out =
     (if written < sz then
        let block = xor_into (dec (take AES_BLOCKSIZE (drop written data))) prev
        in CBCDecrypt_loop dec data sz (take AES_BLOCKSIZE (drop written data))
             (written + AES_BLOCKSIZE) (out @ block)
      else (written, out))"
  by pat_completeness auto
termination
  by (relation "measure (\<lambda>(dec, data, sz, prev, written, out). sz - written)")
    (auto simp: AES_BLOCKSIZE_def)

declare CBCDecrypt_loop.simps [simp del]

text \<open>The padding check: the last byte, then sixteen bytes from the end of the output backwards.\<close>

definition CBCDecrypt_padding :: "bytes \<Rightarrow> nat \<times> bool" where
  "CBCDecrypt_padding out =
     (let
        padsize = unat (last out);
        fail = (padsize = 0 \<or> padsize > AES_BLOCKSIZE);
        padsize = (if fail then 0 else padsize);
        fail = fold (\<lambda>i fail. fail \<or>
            (i > AES_BLOCKSIZE - padsize \<and> unat (out ! (length out - 1 - (AES_BLOCKSIZE - i))) \<noteq> padsize))
          (rev [1..<AES_BLOCKSIZE + 1]) fail
      in (padsize, fail))"

definition CBCDecrypt ::
  "(bytes \<Rightarrow> bytes) \<Rightarrow> bytes \<Rightarrow> bytes option \<Rightarrow> nat \<Rightarrow> bool \<Rightarrow> bool \<Rightarrow> nat \<times> bytes"
where
  "CBCDecrypt dec iv data_opt sz pad out_null =
     (case data_opt of
        None \<Rightarrow> (0, [])
      | Some data \<Rightarrow>
          if sz = 0 \<or> out_null then (0, [])
          else if sz mod AES_BLOCKSIZE \<noteq> 0 then (0, [])
          else
            let (written, out) = CBCDecrypt_loop dec data sz iv 0 []
            in if pad then
                 let (padsize, fail) = CBCDecrypt_padding out
                 in ((written - padsize) * (if fail then 0 else 1), out)
               else (written, out))"

definition AES256CBCEncrypt_Encrypt ::
  "bytes \<Rightarrow> bytes \<Rightarrow> bool \<Rightarrow> bytes option \<Rightarrow> nat \<Rightarrow> bool \<Rightarrow> nat \<times> bytes"
where
  "AES256CBCEncrypt_Encrypt key iv pad data sz out_null =
     CBCEncrypt (\<lambda>b. AES256_encrypt (AES256_init key) 1 b) iv data sz pad out_null"

definition AES256CBCDecrypt_Decrypt ::
  "bytes \<Rightarrow> bytes \<Rightarrow> bool \<Rightarrow> bytes option \<Rightarrow> nat \<Rightarrow> bool \<Rightarrow> nat \<times> bytes"
where
  "AES256CBCDecrypt_Decrypt key iv pad data sz out_null =
     CBCDecrypt (\<lambda>b. AES256_decrypt (AES256_init key) 1 b) iv data sz pad out_null"

section \<open>The mode of operation\<close>

primrec cbc_enc :: "(bytes \<Rightarrow> bytes) \<Rightarrow> bytes \<Rightarrow> nat \<Rightarrow> bytes \<Rightarrow> bytes" where
  "cbc_enc enc iv 0 d = []"
| "cbc_enc enc iv (Suc n) d =
     (let c = enc (map2 (XOR) iv (take 16 d)) in c @ cbc_enc enc c n (drop 16 d))"

primrec cbc_dec :: "(bytes \<Rightarrow> bytes) \<Rightarrow> bytes \<Rightarrow> nat \<Rightarrow> bytes \<Rightarrow> bytes" where
  "cbc_dec dec iv 0 d = []"
| "cbc_dec dec iv (Suc n) d =
     map2 (XOR) (dec (take 16 d)) iv @ cbc_dec dec (take 16 d) n (drop 16 d)"

text \<open>The padding: \<open>k\<close> bytes of value \<open>k\<close> up to the next multiple of sixteen.\<close>

definition pkcs_pad :: "bytes \<Rightarrow> bytes" where
  "pkcs_pad d = (let k = 16 - length d mod 16 in d @ replicate k (of_nat k))"

definition pkcs_valid :: "bytes \<Rightarrow> bool" where
  "pkcs_valid d \<longleftrightarrow> (let k = unat (last d) in 1 \<le> k \<and> k \<le> 16 \<and>
     drop (length d - k) d = replicate k (last d))"

text \<open>The chaining block after \<open>n\<close> blocks.\<close>

primrec cbc_iv :: "(bytes \<Rightarrow> bytes) \<Rightarrow> bytes \<Rightarrow> nat \<Rightarrow> bytes \<Rightarrow> bytes" where
  "cbc_iv enc iv 0 d = iv"
| "cbc_iv enc iv (Suc n) d = cbc_iv enc (enc (map2 (XOR) iv (take 16 d))) n (drop 16 d)"

lemma length_pkcs_pad: "length (pkcs_pad d) = 16 * (length d div 16 + 1)"
proof -
  have "l + (16 - r) = 16 * (q + 1)" if "l = 16 * q + r" "r < 16" for l q r :: nat
    using that by simp
  from this [of "length d" "length d div 16" "length d mod 16"] show ?thesis
    by (simp add: pkcs_pad_def Let_def)
qed

lemma cbc_enc_add:
  "cbc_enc enc iv (n + m) d = cbc_enc enc iv n d @ cbc_enc enc (cbc_iv enc iv n d) m (drop (16 * n) d)"
  by (induction n arbitrary: iv d) (simp_all add: Let_def add.commute)

lemma cbc_enc_append:
  "length d = 16 * n \<Longrightarrow> cbc_enc enc iv n (d @ e) = cbc_enc enc iv n d"
  "length d = 16 * n \<Longrightarrow> cbc_iv enc iv n (d @ e) = cbc_iv enc iv n d"
  by (induction n arbitrary: iv d) (simp_all add: Let_def)

lemma CBCEncrypt_loop_cbc:
  assumes "r < 16"
  shows "CBCEncrypt_loop enc (written + 16 * n + r) data mixed written out =
    (drop (16 * n) data, cbc_iv enc mixed n data, written + 16 * n, out @ cbc_enc enc mixed n data)"
proof (induction n arbitrary: data mixed written out)
  case 0
  then show ?case using assms by (subst CBCEncrypt_loop.simps) (simp add: AES_BLOCKSIZE_def)
next
  case (Suc n)
  show ?case
    using Suc [where written = "written + 16"]
    by (subst CBCEncrypt_loop.simps) (simp add: AES_BLOCKSIZE_def Let_def xor_into_def add.assoc add.commute)
qed

lemma CBCDecrypt_loop_cbc:
  "CBCDecrypt_loop dec data (written + 16 * n) prev written out =
    (written + 16 * n, out @ cbc_dec dec prev n (drop written data))"
proof (induction n arbitrary: prev written out)
  case 0
  then show ?case by (subst CBCDecrypt_loop.simps) simp
next
  case (Suc n)
  show ?case
    using Suc [where written = "written + 16"]
    by (subst CBCDecrypt_loop.simps) (simp add: AES_BLOCKSIZE_def Let_def xor_into_def add.assoc add.commute)
qed

text \<open>The last block as the code mixes it is the padded rest of the input.\<close>

lemma xor_padded_block:
  assumes "length mixed = 16" "length d = r" "r < 16"
  shows "(let m = xor_into (take r mixed) d @ drop r mixed
          in take r m @ map (\<lambda>b. b XOR k) (drop r m)) = map2 (XOR) mixed (d @ replicate (16 - r) k)"
  using assms by (intro nth_equalityI) (auto simp: xor_into_def Let_def nth_append)

lemma take_div_mod:
  fixes d :: bytes
  assumes "length d = sz"
  shows "length (take (16 * (sz div 16)) d) = 16 * (sz div 16)"
    and "length (drop (16 * (sz div 16)) d) = sz mod 16"
  using assms by (auto simp: minus_mult_div_eq_mod)

lemma size_split: "sz = 0 + 16 * (sz div 16) + sz mod (16 :: nat)"
  by simp

lemma CBCEncrypt_unpadded:
  assumes "sz mod 16 = 0" "0 < sz" "length iv = 16"
  shows "CBCEncrypt enc iv (Some data) sz False False =
    (sz, cbc_enc enc iv (sz div 16) data)"
proof -
  have "CBCEncrypt_loop enc sz data iv 0 [] = (drop (16 * (sz div 16)) data,
      cbc_iv enc iv (sz div 16) data, 0 + 16 * (sz div 16), [] @ cbc_enc enc iv (sz div 16) data)"
    by (subst (1) size_split, rule CBCEncrypt_loop_cbc) simp
  with assms show ?thesis
    by (auto simp: CBCEncrypt_def AES_BLOCKSIZE_def)
qed

lemma CBCEncrypt_padded:
  assumes "length data = sz" "0 < sz" "length iv = 16" and len: "\<And>b. length b = 16 \<Longrightarrow> length (enc b) = 16"
  shows "CBCEncrypt enc iv (Some data) sz True False =
    (16 * (sz div 16 + 1), cbc_enc enc iv (sz div 16 + 1) (pkcs_pad data))"
proof -
  let ?n = "sz div 16" and ?r = "sz mod 16"
  have loop: "CBCEncrypt_loop enc sz data iv 0 [] = (drop (16 * ?n) data,
      cbc_iv enc iv ?n data, 0 + 16 * ?n, [] @ cbc_enc enc iv ?n data)"
    by (subst (1) size_split, rule CBCEncrypt_loop_cbc) simp
  define body rest where "body = take (16 * ?n) data" and "rest = drop (16 * ?n) data"
  have data: "data = body @ rest" and body: "length body = 16 * ?n" and rest: "length rest = ?r"
    using take_div_mod [OF assms(1)] by (simp_all add: body_def rest_def)
  have iv: "length (cbc_iv enc i n d) = 16" if "length i = 16" "16 * n \<le> length d" for i n d
    using that by (induction n arbitrary: i d) (simp_all add: len)
  have pad: "pkcs_pad data = body @ rest @ replicate (16 - ?r) (of_nat (16 - ?r))"
    using assms(1) by (simp add: pkcs_pad_def data)
  have "cbc_enc enc iv (?n + 1) (pkcs_pad data) = cbc_enc enc iv ?n body @
      enc (map2 (XOR) (cbc_iv enc iv ?n body) (rest @ replicate (16 - ?r) (of_nat (16 - ?r))))"
    unfolding cbc_enc_add pad using body rest by (simp add: cbc_enc_append Let_def)
  moreover have "length (cbc_iv enc iv ?n body) = 16"
    using iv body assms(3) by simp
  ultimately show ?thesis
    using assms(2,3) xor_padded_block [OF _ rest, of "cbc_iv enc iv ?n body" "of_nat (16 - ?r)"]
    by (auto simp: CBCEncrypt_def AES_BLOCKSIZE_def loop Let_def rest simp flip: rest_def)
      (simp_all add: data cbc_enc_append body rest)
qed

lemma fold_fail: "fold (\<lambda>i fail. fail \<or> P i) xs fail = (fail \<or> (\<exists>i \<in> set xs. P i))"
  by (induction xs arbitrary: fail) auto

lemma CBCDecrypt_padding_valid:
  assumes "16 \<le> length out"
  shows "CBCDecrypt_padding out =
    ((if unat (last out) = 0 \<or> unat (last out) > 16 then 0 else unat (last out)), \<not> pkcs_valid out)"
proof (cases "unat (last out) = 0 \<or> unat (last out) > 16")
  case True
  then show ?thesis by (auto simp: CBCDecrypt_padding_def AES_BLOCKSIZE_def pkcs_valid_def fold_fail Let_def)
next
  case False
  define k where "k = unat (last out)"
  have k: "1 \<le> k" "k \<le> 16" using False by (auto simp: k_def)
  have "(\<exists>i \<in> {1..<17}. i > 16 - k \<and> unat (out ! (length out - 1 - (16 - i))) \<noteq> k) \<longleftrightarrow>
      (\<exists>j < k. out ! (length out - k + j) \<noteq> last out)"
  proof safe
    fix i assume i: "i \<in> {1..<17 :: nat}" "16 - k < i" "unat (out ! (length out - 1 - (16 - i))) \<noteq> k"
    then have "length out - k + (i + k - 17) = length out - 1 - (16 - i)" "i + k - 17 < k"
      using k assms by auto
    with i(3) show "\<exists>j < k. out ! (length out - k + j) \<noteq> last out"
      by (intro exI [of _ "i + k - 17"]) (auto simp: k_def)
  next
    fix j assume j: "j < k" "out ! (length out - k + j) \<noteq> last out"
    then have "length out - 1 - (16 - (j + 17 - k)) = length out - k + j" "j + 17 - k \<in> {1..<17}" "16 - k < j + 17 - k"
      using k assms by auto
    with j(2) show "\<exists>i \<in> {1..<17}. i > 16 - k \<and> unat (out ! (length out - 1 - (16 - i))) \<noteq> k"
      by (intro bexI [of _ "j + 17 - k"]) (auto simp: k_def word_unat_eq_iff)
  qed
  also have "\<dots> \<longleftrightarrow> drop (length out - k) out \<noteq> replicate k (last out)"
    using k assms by (auto simp: list_eq_iff_nth_eq)
  finally show ?thesis
    using False k by (auto simp: CBCDecrypt_padding_def AES_BLOCKSIZE_def pkcs_valid_def fold_fail Let_def k_def)
qed

lemma CBCDecrypt_unpadded:
  assumes "sz mod 16 = 0" "0 < sz"
  shows "CBCDecrypt dec iv (Some data) sz False False = (sz, cbc_dec dec iv (sz div 16) data)"
  using CBCDecrypt_loop_cbc [where written = 0 and n = "sz div 16" and out = "[]"] assms
  by (auto simp: CBCDecrypt_def AES_BLOCKSIZE_def)

lemma length_cbc_dec:
  "(\<And>b. length b = 16 \<Longrightarrow> length (dec b) = 16) \<Longrightarrow> length iv = 16 \<Longrightarrow> length d = 16 * n \<Longrightarrow>
   length (cbc_dec dec iv n d) = 16 * n"
  by (induction n arbitrary: iv d) simp_all

lemma CBCDecrypt_padded:
  assumes "length data = sz" "sz mod 16 = 0" "0 < sz" "length iv = 16"
    and len: "\<And>b. length b = 16 \<Longrightarrow> length (dec b) = 16"
  defines "out \<equiv> cbc_dec dec iv (sz div 16) data"
  shows "CBCDecrypt dec iv (Some data) sz True False =
    ((if pkcs_valid out then sz - unat (last out) else 0), out)"
proof -
  have out: "length out = sz"
    using length_cbc_dec [where dec = dec and d = data and n = "sz div 16", OF len assms(4)] assms(1,2) by (auto simp: out_def)
  then have "16 \<le> length out" using assms(2,3) by (cases "sz < 16") auto
  then show ?thesis
    using CBCDecrypt_loop_cbc [where written = 0 and n = "sz div 16" and out = "[]"] assms(2,3)
    by (auto simp: CBCDecrypt_def AES_BLOCKSIZE_def CBCDecrypt_padding_valid pkcs_valid_def Let_def simp flip: out_def)
qed

lemma pkcs_valid_pad: "pkcs_valid (pkcs_pad d)" "unat (last (pkcs_pad d)) = 16 - length d mod 16"
proof -
  let ?k = "16 - length d mod 16"
  have k: "0 < ?k" "?k \<le> 16" by simp_all
  have "unat (of_nat k :: u8) = k" if "k \<le> 16" for k :: nat
    using that by (simp add: unat_of_nat)
  then have u: "unat (of_nat ?k :: u8) = ?k" using k(2) by blast
  have last: "last (pkcs_pad d) = of_nat ?k" using k by (simp add: pkcs_pad_def)
  then show "unat (last (pkcs_pad d)) = ?k" using u by simp
  show "pkcs_valid (pkcs_pad d)"
    unfolding pkcs_valid_def Let_def last u using k by (simp add: pkcs_pad_def)
qed


section \<open>Block ciphers\<close>

locale block_cipher =
  fixes enc :: "bytes \<Rightarrow> bytes" and dec :: "bytes \<Rightarrow> bytes"
  assumes dec_enc: "length b = 16 \<Longrightarrow> dec (enc b) = b"
    and length_enc: "length (enc b) = 16"
    and length_dec: "length (dec b) = 16"
begin

lemma xor_block_cancel:
  "length a = length b \<Longrightarrow> map2 (XOR) (map2 (XOR) a b) a = (b :: bytes)"
  by (intro nth_equalityI) simp_all

lemma length_cbc_enc: "length (cbc_enc enc iv n d) = 16 * n"
  by (induction n arbitrary: iv d) (simp_all add: Let_def length_enc)

lemma cbc_dec_enc:
  "length iv = 16 \<Longrightarrow> length d = 16 * n \<Longrightarrow> cbc_dec dec iv n (cbc_enc enc iv n d) = d"
  by (induction n arbitrary: iv d) (simp_all add: Let_def length_enc dec_enc xor_block_cancel)

lemma padded_roundtrip:
  assumes "length iv = 16" "0 < length data"
  defines "c \<equiv> CBCEncrypt enc iv (Some data) (length data) True False"
  shows "fst c = length (snd c) \<and> fst c = 16 * (length data div 16 + 1) \<and>
    CBCDecrypt dec iv (Some (snd c)) (fst c) True False = (length data, pkcs_pad data)"
proof -
  have "16 * (length data div 16 + 1) - (16 - length data mod 16) = length data"
    using div_mult_mod_eq [of "length data" 16] by (simp add: algebra_simps)
  then show ?thesis
    using assms(1,2)
    by (simp add: c_def CBCEncrypt_padded CBCDecrypt_padded length_enc length_dec length_cbc_enc
        cbc_dec_enc length_pkcs_pad pkcs_valid_pad
        del: mult_Suc_right cbc_enc.simps(2) cbc_dec.simps(2))
qed

lemma unpadded_roundtrip:
  assumes "length iv = 16" "0 < length data" "length data mod 16 = 0"
  defines "c \<equiv> CBCEncrypt enc iv (Some data) (length data) False False"
  shows "fst c = length data \<and> CBCDecrypt dec iv (Some (snd c)) (fst c) False False = (length data, data)"
  using assms(1-3)
  by (auto simp: c_def CBCEncrypt_unpadded CBCDecrypt_unpadded cbc_dec_enc)

end

lemma length_AES_decrypt [simp]: "length (AES_decrypt rk n d) = 16"
  by (simp add: AES_decrypt_def Let_def split: prod.split)

interpretation aes256: block_cipher "\<lambda>b. AES256_encrypt rk 1 b" "\<lambda>b. AES256_decrypt rk 1 b" for rk
  by unfold_locales (simp_all add: AES_take AES_decrypt_encrypt numeral_eq_Suc [of num.One])

section \<open>Properties\<close>



text \<open>
  the errors of CBC. Encryption returns 0 exactly for a null pointer, an empty message, or a message
  that is not a whole number of blocks without padding. Decryption returns 0 for the same arguments and
  for every length that is not a whole number of blocks; otherwise, with padding, it returns 0 exactly when the decrypted
  text does not end in \<open>k\<close> bytes of value \<open>k\<close> for a \<open>k\<close> from 1 to 16 or is nothing but that padding,
  and the length without the padding in every other case.
\<close>

theorem AES256CBC_errors:
  assumes "length iv = 16" "length data = n"
  shows "(fst (AES256CBCEncrypt_Encrypt key iv pad (Some data) n out_null) = 0 \<longleftrightarrow>
      n = 0 \<or> out_null \<or> (\<not> pad \<and> n mod 16 \<noteq> 0)) \<and>
    AES256CBCEncrypt_Encrypt key iv pad None n out_null = (0, []) \<and>
    AES256CBCDecrypt_Decrypt key iv pad None n out_null = (0, []) \<and>
    (n = 0 \<or> out_null \<or> n mod 16 \<noteq> 0 \<longrightarrow>
      AES256CBCDecrypt_Decrypt key iv pad (Some data) n out_null = (0, [])) \<and>
    (\<not> (n = 0 \<or> n mod 16 \<noteq> 0) \<longrightarrow>
      (let p = cbc_dec (\<lambda>b. AES256_decrypt (AES256_init key) 1 b) iv (n div 16) data
       in AES256CBCDecrypt_Decrypt key iv True (Some data) n False =
         ((if pkcs_valid p then n - unat (last p) else 0), p)))"
proof (intro conjI impI)
  show "fst (AES256CBCEncrypt_Encrypt key iv pad (Some data) n out_null) = 0 \<longleftrightarrow>
      n = 0 \<or> out_null \<or> (\<not> pad \<and> n mod 16 \<noteq> 0)"
  proof (cases "n = 0 \<or> out_null \<or> (\<not> pad \<and> n mod 16 \<noteq> 0)")
    case True
    then show ?thesis
      by (auto simp: AES256CBCEncrypt_Encrypt_def CBCEncrypt_def AES_BLOCKSIZE_def Let_def)
  next
    case False
    then show ?thesis
      using assms aes256.length_enc
      by (cases pad) (simp_all add: AES256CBCEncrypt_Encrypt_def CBCEncrypt_padded CBCEncrypt_unpadded)
  qed
  show "AES256CBCEncrypt_Encrypt key iv pad None n out_null = (0, [])"
    by (simp add: AES256CBCEncrypt_Encrypt_def CBCEncrypt_def Let_def)
  show "AES256CBCDecrypt_Decrypt key iv pad None n out_null = (0, [])"
    by (simp add: AES256CBCDecrypt_Decrypt_def CBCDecrypt_def)
  show "AES256CBCDecrypt_Decrypt key iv pad (Some data) n out_null = (0, [])"
    if "n = 0 \<or> out_null \<or> n mod 16 \<noteq> 0"
    using that by (auto simp: AES256CBCDecrypt_Decrypt_def CBCDecrypt_def AES_BLOCKSIZE_def)
  show "let p = cbc_dec (\<lambda>b. AES256_decrypt (AES256_init key) 1 b) iv (n div 16) data
       in AES256CBCDecrypt_Decrypt key iv True (Some data) n False =
         ((if pkcs_valid p then n - unat (last p) else 0), p)"
    if "\<not> (n = 0 \<or> n mod 16 \<noteq> 0)"
    unfolding Let_def AES256CBCDecrypt_Decrypt_def
    using that assms by (intro CBCDecrypt_padded aes256.length_dec) auto
qed

theorem AES256CBC_errors_witness:
  "fst (AES256CBCEncrypt_Encrypt [] (replicate 16 0) False (Some [1, 2, 3]) 3 False) = 0"
  using AES256CBC_errors [of "replicate 16 0" "[1, 2, 3]" 3 "[]" False False] by simp

end
