(* ===== verification/ChainTypes.thy ===== *)
theory ChainTypes
  imports Prelude "HOL-Library.List_Lexorder" "HOL-Library.RBT" "HOL-Library.Signed_Division"
begin

text \<open>
  The value types of the node that the staking code uses: opaque hashes (\<open>uint256.h\<close>), outpoints
  (\<open>primitives/transaction.h\<close>), public keys (\<open>pubkey.h\<close>), each with the order its \<open>operator<\<close>
  gives, and amounts (\<open>consensus/amount.h\<close>). \<open>std::map\<close> and \<open>std::set\<close> are the ordered trees of the
  library, whose entries come in the order of the keys as the iteration of the containers does.
\<close>

section \<open>Hashes and outpoints\<close>

datatype uint256 = UInt256 (m_data: bytes)

instantiation uint256 :: linorder
begin
definition less_eq_uint256 :: "uint256 \<Rightarrow> uint256 \<Rightarrow> bool" where
  "less_eq_uint256 a b \<longleftrightarrow> m_data a \<le> m_data b"
definition less_uint256 :: "uint256 \<Rightarrow> uint256 \<Rightarrow> bool" where
  "less_uint256 a b \<longleftrightarrow> m_data a < m_data b"
instance
  by standard (auto simp: less_eq_uint256_def less_uint256_def intro: uint256.expand)
end

definition uint256_IsNull :: "uint256 \<Rightarrow> bool" where
  "uint256_IsNull h \<longleftrightarrow> list_all (\<lambda>b. b = 0) (m_data h)"

definition uint256_zero :: uint256 where
  "uint256_zero = UInt256 (replicate 32 0)"

datatype COutPoint = COutPoint (op_hash: uint256) (op_n: u32)

text \<open>\<open>operator<\<close>: the hashes first, then the indices.\<close>

instantiation COutPoint :: linorder
begin
definition less_COutPoint :: "COutPoint \<Rightarrow> COutPoint \<Rightarrow> bool" where
  "less_COutPoint a b \<longleftrightarrow> op_hash a < op_hash b \<or> (op_hash a = op_hash b \<and> op_n a < op_n b)"
definition less_eq_COutPoint :: "COutPoint \<Rightarrow> COutPoint \<Rightarrow> bool" where
  "less_eq_COutPoint a b \<longleftrightarrow> op_hash a < op_hash b \<or> (op_hash a = op_hash b \<and> op_n a \<le> op_n b)"
instance
  by standard (auto simp: less_eq_COutPoint_def less_COutPoint_def intro: COutPoint.expand)
end

definition NULL_INDEX :: u32 where
  "NULL_INDEX = 0xFFFFFFFF"

definition COutPoint_null :: COutPoint where
  "COutPoint_null = COutPoint uint256_zero NULL_INDEX"

definition COutPoint_IsNull :: "COutPoint \<Rightarrow> bool" where
  "COutPoint_IsNull p \<longleftrightarrow> uint256_IsNull (op_hash p) \<and> op_n p = NULL_INDEX"

section \<open>Public keys\<close>

text \<open>
  A key is the bytes \<open>vch[0..size())\<close>; the key that \<open>Invalidate\<close> leaves has header \<open>0xFF\<close>, size 0
  and no bytes here.
\<close>

definition GetLen :: "u8 \<Rightarrow> nat" where
  "GetLen chHeader =
     (if chHeader = 2 \<or> chHeader = 3 then 33
      else if chHeader = 4 \<or> chHeader = 6 \<or> chHeader = 7 then 65
      else 0)"

datatype CPubKey = CPubKey (vch: bytes)

definition pk_header :: "CPubKey \<Rightarrow> u8" where
  "pk_header k = (case vch k of [] \<Rightarrow> 0xFF | b # _ \<Rightarrow> b)"

definition CPubKey_wf :: "CPubKey \<Rightarrow> bool" where
  "CPubKey_wf k \<longleftrightarrow> vch k = [] \<or> (GetLen (hd (vch k)) = length (vch k))"

definition CPubKey_Set :: "bytes \<Rightarrow> CPubKey" where
  "CPubKey_Set v =
     (let len = (if v = [] then 0 else GetLen (hd v))
      in if len \<noteq> 0 \<and> len = length v then CPubKey v else CPubKey [])"

definition CPubKey_IsValid :: "CPubKey \<Rightarrow> bool" where
  "CPubKey_IsValid k \<longleftrightarrow> 0 < length (vch k)"

text \<open>\<open>operator<\<close>: the headers first, then \<open>memcmp\<close> of the bytes.\<close>

instantiation CPubKey :: linorder
begin
definition less_CPubKey :: "CPubKey \<Rightarrow> CPubKey \<Rightarrow> bool" where
  "less_CPubKey a b \<longleftrightarrow> pk_header a < pk_header b \<or> (pk_header a = pk_header b \<and> vch a < vch b)"
definition less_eq_CPubKey :: "CPubKey \<Rightarrow> CPubKey \<Rightarrow> bool" where
  "less_eq_CPubKey a b \<longleftrightarrow> pk_header a < pk_header b \<or> (pk_header a = pk_header b \<and> vch a \<le> vch b)"
instance
  by standard (auto simp: less_eq_CPubKey_def less_CPubKey_def intro: CPubKey.expand)
end

lemma CPubKey_Set_wf: "CPubKey_wf (CPubKey_Set v)"
  by (simp add: CPubKey_Set_def CPubKey_wf_def Let_def)

lemma CPubKey_Set_vch: "CPubKey_wf k \<Longrightarrow> CPubKey_Set (vch k) = k"
  by (cases k) (auto simp: CPubKey_Set_def CPubKey_wf_def)

section \<open>Amounts and signed arithmetic\<close>

text \<open>
  \<open>CAmount\<close> and \<open>int64_t\<close> values are integers; every signed operation of the code that can leave the
  range of 64 bits is checked, and its result is \<open>None\<close> where the C++ operation has no defined result.
  Division truncates towards zero.
\<close>

type_synonym CAmount = int

definition COIN :: CAmount where
  "COIN = 100000000"

definition MAX_MONEY :: CAmount where
  "MAX_MONEY = 1000000000 * COIN"

definition MoneyRange :: "CAmount \<Rightarrow> bool" where
  "MoneyRange nValue \<longleftrightarrow> 0 \<le> nValue \<and> nValue \<le> MAX_MONEY"

definition INT64_MAX :: int where
  "INT64_MAX = 9223372036854775807"

definition in_i64 :: "int \<Rightarrow> bool" where
  "in_i64 x \<longleftrightarrow> - INT64_MAX - 1 \<le> x \<and> x \<le> INT64_MAX"

definition i64 :: "int \<Rightarrow> int option" where
  "i64 x = (if in_i64 x then Some x else None)"

text \<open>\<open>a / b\<close>: undefined for a zero divisor and for the one quotient that does not fit.\<close>

definition div_i64 :: "int \<Rightarrow> int \<Rightarrow> int option" where
  "div_i64 a b = (if b = 0 then None else i64 (a sdiv b))"

text \<open>\<open>for (...) total += x\<close>.\<close>

primrec sum_i64 :: "int list \<Rightarrow> int \<Rightarrow> int option" where
  "sum_i64 [] acc = Some acc"
| "sum_i64 (x # xs) acc = Option.bind (i64 (acc + x)) (sum_i64 xs)"

named_theorems i64_simps \<open>signed 64-bit operations that stay in range\<close>

lemma i64_Some [i64_simps]: "in_i64 x \<Longrightarrow> i64 x = Some x"
  by (simp add: i64_def)

lemma i64_eq_Some: "i64 x = Some y \<longleftrightarrow> in_i64 x \<and> y = x"
  by (auto simp: i64_def)

lemma i64_eq_None: "i64 x = None \<longleftrightarrow> \<not> in_i64 x"
  by (auto simp: i64_def)

lemma MoneyRange_i64: "MoneyRange x \<Longrightarrow> in_i64 x"
  by (simp add: MoneyRange_def MAX_MONEY_def COIN_def in_i64_def INT64_MAX_def)

lemma sdiv_nonneg: "0 \<le> a \<Longrightarrow> 0 < b \<Longrightarrow> a sdiv b = a div (b :: int)"
  by (cases "a = 0") (simp_all add: signed_divide_int_def)

lemma sum_i64_nonneg [i64_simps]:
  assumes "\<forall>x \<in> set xs. 0 \<le> x" "0 \<le> t" "t + sum_list xs \<le> INT64_MAX"
  shows "sum_i64 xs t = Some (t + sum_list xs)"
  using assms
proof (induction xs arbitrary: t)
  case (Cons x xs)
  then have "0 \<le> sum_list xs" by (simp add: sum_list_nonneg)
  with Cons show ?case
    by (simp add: i64_Some in_i64_def add.assoc [symmetric])
qed simp

lemma sum_i64_Some: "sum_i64 xs t = Some y \<Longrightarrow> y = t + sum_list xs"
  by (induction xs arbitrary: t) (fastforce simp: i64_def bind_eq_Some_conv split: if_splits)+

lemma i64_nonneg: "0 \<le> a \<Longrightarrow> a \<le> INT64_MAX \<Longrightarrow> i64 a = Some a"
  by (simp add: i64_Some in_i64_def INT64_MAX_def)

lemma div_i64_nonneg: "0 \<le> a \<Longrightarrow> a \<le> INT64_MAX \<Longrightarrow> 0 < b \<Longrightarrow> div_i64 a b = Some (a div b)"
proof -
  assume a: "0 \<le> a" "a \<le> INT64_MAX" "0 < b"
  then have "0 \<le> a div b" "a div b \<le> a"
    using zdiv_mono2 [of a 1 b] by (simp_all add: pos_imp_zdiv_nonneg_iff)
  with a show ?thesis by (simp add: div_i64_def sdiv_nonneg i64_Some in_i64_def INT64_MAX_def)
qed

section \<open>Ordered containers\<close>

type_synonym 'a std_set = "('a, unit) rbt"

definition set_contains :: "'a::linorder std_set \<Rightarrow> 'a \<Rightarrow> bool" where
  "set_contains s x \<longleftrightarrow> RBT.lookup s x \<noteq> None"

abbreviation map_contains :: "('k::linorder, 'v) rbt \<Rightarrow> 'k \<Rightarrow> bool" where
  "map_contains m k \<equiv> RBT.lookup m k \<noteq> None"

lemma set_contains_simps [simp]:
  "set_contains (RBT.insert x () s) y \<longleftrightarrow> y = x \<or> set_contains s y"
  "set_contains (RBT.delete x s) y \<longleftrightarrow> y \<noteq> x \<and> set_contains s y"
  "\<not> set_contains RBT.empty y"
  by (auto simp: set_contains_def)

lemma keys_iff: "x \<in> set (RBT.keys m) \<longleftrightarrow> RBT.lookup m x \<noteq> None"
  by (simp add: RBT.lookup_keys [symmetric] domIff)

lemma entries_iff: "(k, v) \<in> set (RBT.entries m) \<longleftrightarrow> RBT.lookup m k = Some v"
  by (metis RBT.distinct_entries RBT.map_of_entries Some_eq_map_of_iff)

end
