(* ===== verification/Serialize.thy ===== *)
theory Serialize
  imports ChainTypes
begin

text \<open>
  The wire encoding (\<open>serialize.h\<close>, \<open>streams.h\<close>): little-endian integers, compact sizes, byte
  vectors, strings, scripts, hashes, outpoints and public keys. Writers append bytes; a reader takes
  the unread bytes of the stream and returns its value with the bytes left, or the exception it throws.
\<close>

section \<open>Readers\<close>

datatype ser_error = EndOfData | NonCanonical | SizeTooLarge

type_synonym 'a reader = "bytes \<Rightarrow> ser_error + 'a \<times> bytes"

definition rreturn :: "'a \<Rightarrow> 'a reader" where
  "rreturn x s = Inr (x, s)"

definition rthrow :: "ser_error \<Rightarrow> 'a reader" where
  "rthrow e s = Inl e"

definition rbind :: "'a reader \<Rightarrow> ('a \<Rightarrow> 'b reader) \<Rightarrow> 'b reader" where
  "rbind r f s = (case r s of Inl e \<Rightarrow> Inl e | Inr (x, s') \<Rightarrow> f x s')"

definition stream_read :: "nat \<Rightarrow> bytes reader" where
  "stream_read n s =
     (if n = 0 then Inr ([], s)
      else if n > length s then Inl EndOfData
      else Inr (take n s, drop n s))"

definition stream_ignore :: "nat \<Rightarrow> unit reader" where
  "stream_ignore n s = (if n > length s then Inl EndOfData else Inr ((), drop n s))"

section \<open>Integers\<close>

primrec word_bytes :: "nat \<Rightarrow> 'a::len word \<Rightarrow> bytes" where
  "word_bytes 0 x = []"
| "word_bytes (Suc n) x = ucast x # word_bytes n (drop_bit 8 x)"

primrec bytes_word :: "bytes \<Rightarrow> 'a::len word" where
  "bytes_word [] = 0"
| "bytes_word (b # bs) = ucast b OR push_bit 8 (bytes_word bs)"

definition ser_writedata8 :: "u8 \<Rightarrow> bytes" where
  "ser_writedata8 obj = [obj]"

definition ser_writedata16 :: "u16 \<Rightarrow> bytes" where
  "ser_writedata16 obj = word_bytes 2 obj"

definition ser_writedata32 :: "u32 \<Rightarrow> bytes" where
  "ser_writedata32 obj = word_bytes 4 obj"

definition ser_writedata64 :: "u64 \<Rightarrow> bytes" where
  "ser_writedata64 obj = word_bytes 8 obj"

definition ser_readdata8 :: "u8 reader" where
  "ser_readdata8 = rbind (stream_read 1) (\<lambda>b. rreturn (hd b))"

definition ser_readdata16 :: "u16 reader" where
  "ser_readdata16 = rbind (stream_read 2) (\<lambda>b. rreturn (bytes_word b))"

definition ser_readdata32 :: "u32 reader" where
  "ser_readdata32 = rbind (stream_read 4) (\<lambda>b. rreturn (bytes_word b))"

definition ser_readdata64 :: "u64 reader" where
  "ser_readdata64 = rbind (stream_read 8) (\<lambda>b. rreturn (bytes_word b))"

text \<open>\<open>int64_t\<close> goes through \<open>uint64_t\<close>.\<close>

definition write_i64 :: "int \<Rightarrow> bytes" where
  "write_i64 x = ser_writedata64 (word_of_int x)"

definition read_i64 :: "int reader" where
  "read_i64 = rbind ser_readdata64 (\<lambda>w. rreturn (sint w))"

section \<open>Compact sizes\<close>

definition MAX_SIZE :: nat where
  "MAX_SIZE = 0x02000000"

definition GetSizeOfCompactSize :: "nat \<Rightarrow> nat" where
  "GetSizeOfCompactSize nSize =
     (if nSize < 253 then 1 else if nSize \<le> 0xFFFF then 3 else if nSize \<le> 0xFFFFFFFF then 5 else 9)"

definition WriteCompactSize :: "nat \<Rightarrow> bytes" where
  "WriteCompactSize nSize =
     (if nSize < 253 then ser_writedata8 (of_nat nSize)
      else if nSize \<le> 0xFFFF then ser_writedata8 253 @ ser_writedata16 (of_nat nSize)
      else if nSize \<le> 0xFFFFFFFF then ser_writedata8 254 @ ser_writedata32 (of_nat nSize)
      else ser_writedata8 255 @ ser_writedata64 (of_nat nSize))"

definition ReadCompactSize :: "bool \<Rightarrow> nat reader" where
  "ReadCompactSize range_check =
     rbind ser_readdata8 (\<lambda>chSize.
     rbind (if chSize < 253 then rreturn (unat chSize)
            else if chSize = 253 then
              rbind ser_readdata16 (\<lambda>w. if unat w < 253 then rthrow NonCanonical else rreturn (unat w))
            else if chSize = 254 then
              rbind ser_readdata32 (\<lambda>w. if unat w < 0x10000 then rthrow NonCanonical else rreturn (unat w))
            else
              rbind ser_readdata64 (\<lambda>w. if unat w < 0x100000000 then rthrow NonCanonical else rreturn (unat w)))
     (\<lambda>nSizeRet. if range_check \<and> nSizeRet > MAX_SIZE then rthrow SizeTooLarge else rreturn nSizeRet))"

section \<open>Containers of bytes\<close>

text \<open>\<open>std::vector<unsigned char>\<close>, \<open>std::string\<close> and \<open>CScript\<close>: a size and the bytes.\<close>

definition write_bytes :: "bytes \<Rightarrow> bytes" where
  "write_bytes v = WriteCompactSize (length v) @ v"

text \<open>\<open>std::basic_string\<close>: one allocation of the whole size.\<close>

definition read_string :: "bytes reader" where
  "read_string = rbind (ReadCompactSize True) (\<lambda>nSize. stream_read nSize)"

text \<open>\<open>prevector<N, unsigned char>\<close>, which \<open>CScript\<close> is: pieces of at most five million bytes.\<close>

function read_blocks :: "nat \<Rightarrow> nat \<Rightarrow> bytes \<Rightarrow> bytes reader" where
  "read_blocks nSize i v =
     (if i < nSize then
        let blk = min (nSize - i) 5000000
        in rbind (stream_read blk) (\<lambda>b. read_blocks nSize (i + blk) (v @ b))
      else rreturn v)"
  by pat_completeness auto
termination by (relation "measure (\<lambda>(nSize, i, v). nSize - i)") auto

declare read_blocks.simps [simp del]

definition read_script :: "bytes reader" where
  "read_script = rbind (ReadCompactSize True) (\<lambda>nSize. read_blocks nSize 0 [])"

definition write_uint256 :: "uint256 \<Rightarrow> bytes" where
  "write_uint256 h = m_data h"

definition read_uint256 :: "uint256 reader" where
  "read_uint256 = rbind (stream_read 32) (\<lambda>b. rreturn (UInt256 b))"

definition write_COutPoint :: "COutPoint \<Rightarrow> bytes" where
  "write_COutPoint p = write_uint256 (op_hash p) @ ser_writedata32 (op_n p)"

definition read_COutPoint :: "COutPoint reader" where
  "read_COutPoint = rbind read_uint256 (\<lambda>h. rbind ser_readdata32 (\<lambda>n. rreturn (COutPoint h n)))"

definition CPubKey_Serialize :: "CPubKey \<Rightarrow> bytes" where
  "CPubKey_Serialize k = WriteCompactSize (length (vch k)) @ vch k"

text \<open>
  A size of at most 65 is read into the key, which is invalidated unless the header asks for exactly
  that size; more bytes are skipped. (The key read into is invalid before.)
\<close>

definition CPubKey_Unserialize :: "CPubKey reader" where
  "CPubKey_Unserialize =
     rbind (ReadCompactSize True) (\<lambda>len.
       if len \<le> 65 then
         rbind (stream_read len) (\<lambda>b.
           let k = CPubKey b in
           rreturn (if len \<noteq> GetLen (pk_header k) then CPubKey [] else k))
       else rbind (stream_ignore len) (\<lambda>_. rreturn (CPubKey [])))"

section \<open>Codecs\<close>

text \<open>A writer and a reader of the same values; a canonical reader accepts nothing the writer does not write.\<close>

lemma rbind_Inr: "rbind r f s = Inr y \<longleftrightarrow> (\<exists>x rest. r s = Inr (x, rest) \<and> f x rest = Inr y)"
  by (auto simp: rbind_def split: sum.splits)

locale codec =
  fixes wr :: "'a \<Rightarrow> bytes" and rd :: "'a reader" and ok :: "'a \<Rightarrow> bool"
  assumes read_write: "ok x \<Longrightarrow> rd (wr x @ rest) = Inr (x, rest)"
begin

lemma read_end: "ok x \<Longrightarrow> rd (wr x) = Inr (x, [])"
  using read_write [of x "[]"] by simp

lemma bind_write: "ok x \<Longrightarrow> rbind rd f (wr x @ rest) = f x rest"
  by (simp add: rbind_def read_write)

lemma bind_write_end: "ok x \<Longrightarrow> rbind rd f (wr x) = f x []"
  by (simp add: rbind_def read_end)

lemma write_inj: "ok x \<Longrightarrow> ok y \<Longrightarrow> wr x = wr y \<Longrightarrow> x = y"
  by (metis Inr_inject Pair_inject read_end)

end

locale canonical_codec = codec +
  assumes write_read: "rd s = Inr (x, rest) \<Longrightarrow> ok x \<and> s = wr x @ rest"
begin

lemma read_iff: "rd s = Inr (x, rest) \<longleftrightarrow> ok x \<and> s = wr x @ rest"
  using read_write write_read by blast

lemma bind_Inr: "rbind rd f s = Inr r \<longleftrightarrow> (\<exists>x rest. ok x \<and> s = wr x @ rest \<and> f x rest = Inr r)"
  by (auto simp: rbind_Inr read_iff)

end

named_theorems codec_simps \<open>readers on what the writers write\<close>

lemma length_word_bytes [simp]: "length (word_bytes n x) = n"
  by (induction n arbitrary: x) simp_all

lemma bytes_word_bytes: "bytes_word (word_bytes n x) = take_bit (8 * n) (x :: 'a::len word)"
proof (induction n arbitrary: x)
  case (Suc n)
  have "ucast (ucast x :: u8) OR push_bit 8 (take_bit (8 * n) (drop_bit 8 x)) = take_bit (8 * Suc n) x"
    by (rule bit_word_eqI) (auto simp: bit_simps)
  with Suc show ?case by simp
qed simp

lemma word_bytes_word:
  "8 * length bs \<le> LENGTH('a) \<Longrightarrow> word_bytes (length bs) (bytes_word bs :: 'a::len word) = bs"
proof (induction bs)
  case (Cons b bs)
  have "bit (ucast (ucast b OR push_bit 8 (bytes_word bs) :: 'a word) :: u8) k = bit b k" if "k < 8" for k
    using that Cons.prems by (auto simp: bit_simps)
  then have head: "ucast (ucast b OR push_bit 8 (bytes_word bs) :: 'a word) = b"
    by (intro bit_word_eqI) simp
  have bound: "\<not> bit (bytes_word bs :: 'a word) k" if "8 * length bs \<le> k" for k
    using that
  proof (induction bs arbitrary: k)
    case (Cons b bs)
    then have "\<not> bit b k" "\<not> bit (bytes_word bs :: 'a word) (k - 8)"
      using bit_imp_le_length [of b k] by auto
    then show ?case by (simp add: bit_simps)
  qed simp
  have "drop_bit 8 (ucast b OR push_bit 8 (bytes_word bs)) = (bytes_word bs :: 'a word)"
  proof (rule bit_word_eqI)
    fix k assume "k < LENGTH('a)"
    show "bit (drop_bit 8 (ucast b OR push_bit 8 (bytes_word bs) :: 'a word)) k = bit (bytes_word bs :: 'a word) k"
      using Cons.prems bound [of k] bit_imp_le_length [of b "8 + k"]
      by (cases "8 + k < LENGTH('a)") (auto simp: bit_simps)
  qed
  with head Cons show ?case by simp
qed simp

interpretation byte_codec: canonical_codec ser_writedata8 ser_readdata8 "\<lambda>_. True"
  by unfold_locales
    (auto simp: ser_writedata8_def ser_readdata8_def rbind_def rreturn_def stream_read_def neq_Nil_conv
      split: if_splits)

text \<open>Words of two, four and eight bytes.\<close>

lemma read_word_write:
  "0 < n \<Longrightarrow> LENGTH('a) = 8 * n \<Longrightarrow>
   rbind (stream_read n) (\<lambda>b. rreturn (bytes_word b)) (word_bytes n (x :: 'a::len word) @ rest) = Inr (x, rest)"
  by (simp add: rbind_def rreturn_def stream_read_def bytes_word_bytes take_bit_word_eq_self)

lemma read_word_read:
  assumes "0 < n" "LENGTH('a) = 8 * n"
    "rbind (stream_read n) (\<lambda>b. rreturn (bytes_word b)) s = Inr (x :: 'a::len word, rest)"
  shows "s = word_bytes n x @ rest"
proof -
  have "n \<le> length s" "x = bytes_word (take n s)" "rest = drop n s"
    using assms by (auto simp: rbind_def rreturn_def stream_read_def split: if_splits)
  then show ?thesis
    using assms(2) word_bytes_word [of "take n s", where 'a = 'a] by (simp add: min_absorb2)
qed

interpretation u16_codec: canonical_codec ser_writedata16 ser_readdata16 "\<lambda>_. True"
  by unfold_locales
    (simp_all add: ser_writedata16_def ser_readdata16_def read_word_write read_word_read)

interpretation u32_codec: canonical_codec ser_writedata32 ser_readdata32 "\<lambda>_. True"
  by unfold_locales
    (simp_all add: ser_writedata32_def ser_readdata32_def read_word_write read_word_read)

interpretation u64_codec: canonical_codec ser_writedata64 ser_readdata64 "\<lambda>_. True"
  by unfold_locales
    (simp_all add: ser_writedata64_def ser_readdata64_def read_word_write read_word_read)

lemma sint_in_i64: "in_i64 (sint (w :: u64))"
  using sint_ge [of w] sint_lt [of w] by (simp add: in_i64_def INT64_MAX_def)

lemma sint_word_of_int: "in_i64 x \<Longrightarrow> sint (word_of_int x :: u64) = x"
  by (simp add: signed_of_int signed_take_bit_int_eq_self in_i64_def INT64_MAX_def)

interpretation i64_codec: canonical_codec write_i64 read_i64 in_i64
  by unfold_locales
    (auto simp: write_i64_def read_i64_def u64_codec.bind_write u64_codec.bind_Inr rreturn_def
      sint_word_of_int sint_in_i64)

section \<open>Compact sizes\<close>

lemma unat_of_nat_numeral:
  "n < 256 \<Longrightarrow> unat (of_nat n :: u8) = n" "n \<le> 0xFFFF \<Longrightarrow> unat (of_nat n :: u16) = n"
  "n \<le> 0xFFFFFFFF \<Longrightarrow> unat (of_nat n :: u32) = n" "n < 2 ^ 64 \<Longrightarrow> unat (of_nat n :: u64) = n"
  by (simp_all add: unat_of_nat)

lemma word_of_nat_less_253: "n < 253 \<Longrightarrow> (of_nat n :: u8) < 253"
  by (simp add: word_less_nat_alt unat_of_nat)

lemma ReadCompactSize_write:
  assumes "n < 2 ^ 64" "rc \<longrightarrow> n \<le> MAX_SIZE"
  shows "ReadCompactSize rc (WriteCompactSize n @ rest) = Inr (n, rest)"
proof -
  consider "n < 253" | "253 \<le> n" "n \<le> 0xFFFF" | "0xFFFF < n" "n \<le> 0xFFFFFFFF" | "0xFFFFFFFF < n"
    by linarith
  then show ?thesis
    using assms
    by cases
      (auto simp: ReadCompactSize_def WriteCompactSize_def byte_codec.bind_write rbind_def
        byte_codec.read_write u16_codec.read_write u32_codec.read_write u64_codec.read_write
        unat_of_nat_numeral word_of_nat_less_253 rreturn_def rthrow_def)
qed

lemma unat_lt_253_cases: "ch < 253 \<or> ch = 253 \<or> ch = 254 \<or> ch = (255 :: u8)"
proof -
  have "unat ch < 256" using unsigned_less [of ch] by simp
  then have "unat ch < 253 \<or> unat ch = 253 \<or> unat ch = 254 \<or> unat ch = 255" by linarith
  then show ?thesis by (auto simp: word_less_nat_alt word_unat_eq_iff)
qed

lemma ReadCompactSize_read:
  assumes "ReadCompactSize rc s = Inr (n, rest)"
  shows "n < 2 ^ 64 \<and> (rc \<longrightarrow> n \<le> MAX_SIZE) \<and> s = WriteCompactSize n @ rest"
proof -
  obtain ch r where s: "s = ser_writedata8 ch @ r"
    using assms by (auto simp: ReadCompactSize_def byte_codec.bind_Inr)
  define tail :: "nat reader" where "tail =
    (if ch < 253 then rreturn (unat ch)
     else if ch = 253 then
       rbind ser_readdata16 (\<lambda>w. if unat w < 253 then rthrow NonCanonical else rreturn (unat w))
     else if ch = 254 then
       rbind ser_readdata32 (\<lambda>w. if unat w < 0x10000 then rthrow NonCanonical else rreturn (unat w))
     else rbind ser_readdata64 (\<lambda>w. if unat w < 0x100000000 then rthrow NonCanonical else rreturn (unat w)))"
  have "rbind tail (\<lambda>n. if rc \<and> n > MAX_SIZE then rthrow SizeTooLarge else rreturn n) r = Inr (n, rest)"
    using assms by (simp add: s ReadCompactSize_def byte_codec.bind_write tail_def)
  then have tail: "tail r = Inr (n, rest)" and rc: "rc \<longrightarrow> n \<le> MAX_SIZE"
    by (auto simp: rbind_def rthrow_def rreturn_def split: sum.splits if_splits)
  consider "ch < 253" | "ch = 253" | "ch = 254" | "ch = 255"
    using unat_lt_253_cases by blast
  then show ?thesis
  proof cases
    case 1
    then have "n = unat ch" "rest = r" using tail by (simp_all add: tail_def rreturn_def)
    moreover have "unat ch < 253" using 1 by (simp add: word_less_nat_alt)
    ultimately show ?thesis using rc by (simp add: s WriteCompactSize_def)
  next
    case 2
    then obtain w where "n = unat w" "253 \<le> n" "r = ser_writedata16 w @ rest"
      using tail by (auto simp: tail_def rreturn_def rthrow_def u16_codec.bind_Inr split: if_splits)
    moreover have "unat w < 2 ^ 16" using unsigned_less [of w] by simp
    ultimately show ?thesis using rc 2 by (simp add: s WriteCompactSize_def)
  next
    case 3
    then obtain w where "n = unat w" "0x10000 \<le> n" "r = ser_writedata32 w @ rest"
      using tail by (auto simp: tail_def rreturn_def rthrow_def u32_codec.bind_Inr split: if_splits)
    moreover have "unat w < 2 ^ 32" using unsigned_less [of w] by simp
    ultimately show ?thesis using rc 3 by (simp add: s WriteCompactSize_def)
  next
    case 4
    then obtain w where "n = unat w" "0x100000000 \<le> n" "r = ser_writedata64 w @ rest"
      using tail by (auto simp: tail_def rreturn_def rthrow_def u64_codec.bind_Inr split: if_splits)
    moreover have "unat w < 2 ^ 64" using unsigned_less [of w] by simp
    ultimately show ?thesis using rc 4 by (simp add: s WriteCompactSize_def)
  qed
qed

interpretation compact: canonical_codec WriteCompactSize "ReadCompactSize True" "\<lambda>n. n \<le> MAX_SIZE"
  using ReadCompactSize_write [of _ True] ReadCompactSize_read [of True]
  by unfold_locales (auto simp: MAX_SIZE_def)

lemma length_WriteCompactSize: "length (WriteCompactSize n) = GetSizeOfCompactSize n"
  by (simp add: WriteCompactSize_def GetSizeOfCompactSize_def ser_writedata8_def ser_writedata16_def
      ser_writedata32_def ser_writedata64_def)

section \<open>Containers\<close>

lemma stream_read_append: "stream_read (length b) (b @ rest) = Inr (b, rest)"
  by (simp add: stream_read_def)

lemma stream_read_Inr: "stream_read n s = Inr (b, rest) \<longleftrightarrow> length b = n \<and> s = b @ rest"
  by (auto simp: stream_read_def)

interpretation string_codec: canonical_codec write_bytes read_string "\<lambda>v. length v \<le> MAX_SIZE"
  by unfold_locales
    (auto simp: write_bytes_def read_string_def compact.bind_write compact.bind_Inr stream_read_append
      stream_read_Inr)

lemma read_blocks_spec:
  "i \<le> nSize \<Longrightarrow> read_blocks nSize i v s =
     (case stream_read (nSize - i) s of Inl e \<Rightarrow> Inl e | Inr (b, rest) \<Rightarrow> Inr (v @ b, rest))"
proof (induction nSize i v arbitrary: s rule: read_blocks.induct)
  case (1 nSize i v)
  show ?case
  proof (cases "i < nSize")
    case True
    define blk where "blk = min (nSize - i) 5000000"
    have blk: "0 < blk" "i + blk \<le> nSize" using True by (auto simp: blk_def)
    have "read_blocks nSize i v s = rbind (stream_read blk) (\<lambda>b. read_blocks nSize (i + blk) (v @ b)) s"
      using True by (subst read_blocks.simps) (simp add: blk_def Let_def)
    moreover have "read_blocks nSize (i + blk) (v @ b) s' =
        (case stream_read (nSize - (i + blk)) s' of Inl e \<Rightarrow> Inl e | Inr (b', rest) \<Rightarrow> Inr ((v @ b) @ b', rest))"
      for b s' using "1.IH" [OF True blk_def blk(2)] .
    moreover have "take blk s @ take (nSize - (i + blk)) (drop blk s) = take (nSize - i) s"
      using blk by (simp add: take_add [symmetric])
    ultimately show ?thesis
      using blk by (auto simp: rbind_def stream_read_def)
  next
    case False
    then show ?thesis using "1.prems"
      by (subst read_blocks.simps) (simp add: rreturn_def stream_read_def)
  qed
qed

lemma read_script_string: "read_script = read_string"
  by (auto simp: read_script_def read_string_def rbind_def read_blocks_spec fun_eq_iff split: sum.splits)

interpretation script_codec: canonical_codec write_bytes read_script "\<lambda>v. length v \<le> MAX_SIZE"
  unfolding read_script_string by (rule string_codec.canonical_codec_axioms)

interpretation uint256_codec: canonical_codec write_uint256 read_uint256 "\<lambda>h. length (m_data h) = 32"
  by unfold_locales
    (auto simp: write_uint256_def read_uint256_def rbind_def stream_read_def rreturn_def split: if_splits)

interpretation outpoint_codec: canonical_codec write_COutPoint read_COutPoint
    "\<lambda>p. length (m_data (op_hash p)) = 32"
  by unfold_locales
    (auto simp: write_COutPoint_def read_COutPoint_def uint256_codec.bind_write uint256_codec.bind_Inr
      u32_codec.bind_write u32_codec.bind_Inr rreturn_def)

interpretation pubkey_codec: codec CPubKey_Serialize CPubKey_Unserialize CPubKey_wf
proof
  fix k rest assume wf: "CPubKey_wf k"
  have "length (vch k) \<le> 65 \<and> GetLen (pk_header k) = length (vch k)"
    using wf by (cases "vch k"; auto simp: CPubKey_wf_def GetLen_def pk_header_def neq_Nil_conv split: if_splits)
  then show "CPubKey_Unserialize (CPubKey_Serialize k @ rest) = Inr (k, rest)"
    by (simp add: CPubKey_Unserialize_def CPubKey_Serialize_def compact.read_write rbind_def MAX_SIZE_def
        stream_read_append rreturn_def)
qed

lemma CPubKey_Unserialize_wf: "CPubKey_Unserialize s = Inr (k, rest) \<Longrightarrow> CPubKey_wf k"
  by (auto simp: CPubKey_Unserialize_def compact.bind_Inr rbind_def rreturn_def stream_read_Inr Let_def
      CPubKey_wf_def pk_header_def neq_Nil_conv stream_ignore_def split: sum.splits if_splits list.splits)

lemmas codec_binds [codec_simps] =
  byte_codec.bind_write u16_codec.bind_write u32_codec.bind_write u64_codec.bind_write
  i64_codec.bind_write compact.bind_write string_codec.bind_write script_codec.bind_write
  uint256_codec.bind_write outpoint_codec.bind_write pubkey_codec.bind_write
  byte_codec.bind_write_end u16_codec.bind_write_end u32_codec.bind_write_end u64_codec.bind_write_end
  i64_codec.bind_write_end compact.bind_write_end string_codec.bind_write_end script_codec.bind_write_end
  uint256_codec.bind_write_end outpoint_codec.bind_write_end pubkey_codec.bind_write_end

section \<open>Properties\<close>

text \<open>
  compact sizes are a canonical code: the reader returns \<open>n\<close> exactly when the stream starts with
  the encoding the writer gives for \<open>n\<close> and \<open>n\<close> is in range, so that no number has a second accepted
  encoding, and the encoding has the length \<open>GetSizeOfCompactSize\<close> announces.
\<close>

theorem compact_size_canonical:
  "(ReadCompactSize True s = Inr (n, rest) \<longleftrightarrow> n \<le> MAX_SIZE \<and> s = WriteCompactSize n @ rest) \<and>
   (ReadCompactSize False s = Inr (n, rest) \<longleftrightarrow> n < 2 ^ 64 \<and> s = WriteCompactSize n @ rest) \<and>
   length (WriteCompactSize n) = GetSizeOfCompactSize n"
  using compact.read_iff [of s n rest] ReadCompactSize_read [of False s n rest]
    ReadCompactSize_write [of n False rest] length_WriteCompactSize [of n]
  by auto

end
