(* ===== verification/StakingTypes.thy ===== *)
theory StakingTypes
  imports Serialize
begin

text \<open>
  The data of \<open>src/pos.h\<close>: consensus parameters, transactions as far as the staking code reads them,
  the payloads of the three staking transactions with their serialization, stake locks, validators and
  slashing conditions.
\<close>

section \<open>Parameters and transactions\<close>

text \<open>The fields of \<open>Consensus::Params\<close> that the staking and subsidy code reads.\<close>

record params =
  nMaxSupply :: CAmount
  nPremineAmount :: CAmount
  nStakingSupply :: CAmount
  nStakeMinAge :: int
  nStakeMaxAge :: int
  nMinStakeAmount :: CAmount
  nStakeTargetSpacing :: int
  nInitialBlockReward :: CAmount

text \<open>The defaults of \<open>consensus/params.h\<close>, which the main network keeps.\<close>

definition default_params :: params where
  "default_params = \<lparr>nMaxSupply = 1000000000 * COIN, nPremineAmount = 20000000 * COIN,
     nStakingSupply = 190000000 * COIN, nStakeMinAge = 8 * 60 * 60, nStakeMaxAge = 30 * 24 * 60 * 60,
     nMinStakeAmount = 1 * COIN, nStakeTargetSpacing = 150, nInitialBlockReward = 200 * COIN\<rparr>"

record CTxOut =
  out_nValue :: CAmount
  scriptPubKey :: bytes

record CTxIn =
  prevout :: COutPoint
  scriptSig :: bytes
  nSequence :: u32

text \<open>
  \<open>tx_hash\<close> is the hash a transaction computes of itself when it is made. The version is a signed 16-bit
  integer, the type an unsigned one.
\<close>

record CTransaction =
  tx_hash :: uint256
  nVersion :: int
  nType :: nat
  vin :: "CTxIn list"
  vout :: "CTxOut list"
  nLockTime :: u32
  vExtraPayload :: bytes

definition TRANSACTION_STAKE :: nat where "TRANSACTION_STAKE = 10"
definition TRANSACTION_UNSTAKE :: nat where "TRANSACTION_UNSTAKE = 11"
definition TRANSACTION_VALIDATOR_REGISTER :: nat where "TRANSACTION_VALIDATOR_REGISTER = 12"

lemmas transaction_types = TRANSACTION_STAKE_def TRANSACTION_UNSTAKE_def TRANSACTION_VALIDATOR_REGISTER_def

section \<open>Payloads\<close>

record CStakeTransactionPayload =
  sp_nStakeAmount :: CAmount
  sp_stakePubKey :: CPubKey
  sp_nLockTime :: int

record CUnstakeTransactionPayload =
  up_stakeOutpoint :: COutPoint
  up_stakePubKey :: CPubKey

record CValidatorRegistrationPayload =
  vp_validatorPubKey :: CPubKey
  vp_nStakeAmount :: CAmount
  vp_rewardScript :: bytes
  vp_strDescription :: bytes

definition write_stake_payload :: "CStakeTransactionPayload \<Rightarrow> bytes" where
  "write_stake_payload p =
     write_i64 (sp_nStakeAmount p) @ CPubKey_Serialize (sp_stakePubKey p) @ write_i64 (sp_nLockTime p)"

definition read_stake_payload :: "CStakeTransactionPayload reader" where
  "read_stake_payload =
     rbind read_i64 (\<lambda>a. rbind CPubKey_Unserialize (\<lambda>k. rbind read_i64 (\<lambda>t.
       rreturn \<lparr>sp_nStakeAmount = a, sp_stakePubKey = k, sp_nLockTime = t\<rparr>)))"

definition write_unstake_payload :: "CUnstakeTransactionPayload \<Rightarrow> bytes" where
  "write_unstake_payload p = write_COutPoint (up_stakeOutpoint p) @ CPubKey_Serialize (up_stakePubKey p)"

definition read_unstake_payload :: "CUnstakeTransactionPayload reader" where
  "read_unstake_payload =
     rbind read_COutPoint (\<lambda>o'. rbind CPubKey_Unserialize (\<lambda>k.
       rreturn \<lparr>up_stakeOutpoint = o', up_stakePubKey = k\<rparr>))"

definition write_registration_payload :: "CValidatorRegistrationPayload \<Rightarrow> bytes" where
  "write_registration_payload p =
     CPubKey_Serialize (vp_validatorPubKey p) @ write_i64 (vp_nStakeAmount p)
     @ write_bytes (vp_rewardScript p) @ write_bytes (vp_strDescription p)"

definition read_registration_payload :: "CValidatorRegistrationPayload reader" where
  "read_registration_payload =
     rbind CPubKey_Unserialize (\<lambda>k. rbind read_i64 (\<lambda>a. rbind read_script (\<lambda>s. rbind read_string (\<lambda>d.
       rreturn \<lparr>vp_validatorPubKey = k, vp_nStakeAmount = a, vp_rewardScript = s, vp_strDescription = d\<rparr>))))"

definition stake_payload_ok :: "CStakeTransactionPayload \<Rightarrow> bool" where
  "stake_payload_ok p \<longleftrightarrow>
     in_i64 (sp_nStakeAmount p) \<and> CPubKey_wf (sp_stakePubKey p) \<and> in_i64 (sp_nLockTime p)"

definition unstake_payload_ok :: "CUnstakeTransactionPayload \<Rightarrow> bool" where
  "unstake_payload_ok p \<longleftrightarrow>
     length (m_data (op_hash (up_stakeOutpoint p))) = 32 \<and> CPubKey_wf (up_stakePubKey p)"

definition registration_payload_ok :: "CValidatorRegistrationPayload \<Rightarrow> bool" where
  "registration_payload_ok p \<longleftrightarrow>
     CPubKey_wf (vp_validatorPubKey p) \<and> in_i64 (vp_nStakeAmount p) \<and>
     length (vp_rewardScript p) \<le> MAX_SIZE \<and> length (vp_strDescription p) \<le> MAX_SIZE"

interpretation stake_payload: codec write_stake_payload read_stake_payload stake_payload_ok
  by unfold_locales
    (simp add: write_stake_payload_def read_stake_payload_def stake_payload_ok_def codec_simps rreturn_def)

interpretation unstake_payload: codec write_unstake_payload read_unstake_payload unstake_payload_ok
  by unfold_locales
    (simp add: write_unstake_payload_def read_unstake_payload_def unstake_payload_ok_def codec_simps
      rreturn_def)

interpretation registration_payload:
  codec write_registration_payload read_registration_payload registration_payload_ok
  by unfold_locales
    (simp add: write_registration_payload_def read_registration_payload_def registration_payload_ok_def
      codec_simps rreturn_def)

section \<open>Locks, validators, slashing conditions\<close>

record CStakeLock =
  sl_outpoint :: COutPoint
  sl_nLockTime :: int
  sl_nAmount :: CAmount
  sl_ownerPubKey :: CPubKey

definition CStakeLock_IsExpired :: "CStakeLock \<Rightarrow> int \<Rightarrow> bool" where
  "CStakeLock_IsExpired l nCurrentTime \<longleftrightarrow> nCurrentTime \<ge> sl_nLockTime l"

record CValidator =
  v_pubkey :: CPubKey
  v_nStakeAmount :: CAmount
  v_nRegistrationTime :: int
  v_fActive :: bool

type_synonym SlashingCondition = int

definition SLASH_DOUBLE_SIGNING :: SlashingCondition where "SLASH_DOUBLE_SIGNING = 1"
definition SLASH_LONG_RANGE_ATTACK :: SlashingCondition where "SLASH_LONG_RANGE_ATTACK = 2"
definition SLASH_UNAVAILABILITY :: SlashingCondition where "SLASH_UNAVAILABILITY = 3"
definition SLASH_INVALID_BLOCK :: SlashingCondition where "SLASH_INVALID_BLOCK = 4"
definition SLASH_EQUIVOCATION :: SlashingCondition where "SLASH_EQUIVOCATION = 5"

lemmas slashing_conditions = SLASH_DOUBLE_SIGNING_def SLASH_LONG_RANGE_ATTACK_def
  SLASH_UNAVAILABILITY_def SLASH_INVALID_BLOCK_def SLASH_EQUIVOCATION_def

section \<open>Properties\<close>

text \<open>
  C29: the payloads of the three staking transactions survive the wire: what the writer puts at the
  start of a stream the reader returns, and it leaves the bytes after it unread.
\<close>

theorem payload_roundtrip:
  "(stake_payload_ok p \<longrightarrow> read_stake_payload (write_stake_payload p @ rest) = Inr (p, rest)) \<and>
   (unstake_payload_ok u \<longrightarrow> read_unstake_payload (write_unstake_payload u @ rest) = Inr (u, rest)) \<and>
   (registration_payload_ok r \<longrightarrow>
      read_registration_payload (write_registration_payload r @ rest) = Inr (r, rest))"
  using stake_payload.read_write unstake_payload.read_write registration_payload.read_write by blast

theorem payload_roundtrip_witness:
  "read_stake_payload (write_stake_payload \<lparr>sp_nStakeAmount = COIN, sp_stakePubKey = CPubKey_Set (2 # replicate 32 7),
       sp_nLockTime = 28800\<rparr> @ [1, 2, 3]) =
     Inr (\<lparr>sp_nStakeAmount = COIN, sp_stakePubKey = CPubKey_Set (2 # replicate 32 7), sp_nLockTime = 28800\<rparr>, [1, 2, 3])"
proof -
  have ok: "stake_payload_ok \<lparr>sp_nStakeAmount = COIN, sp_stakePubKey = CPubKey_Set (2 # replicate 32 7),
       sp_nLockTime = 28800\<rparr>"
    by (simp add: stake_payload_ok_def CPubKey_Set_wf in_i64_def INT64_MAX_def COIN_def)
  from payload_roundtrip [THEN conjunct1, rule_format, OF ok] show ?thesis .
qed

end
