(* ===== verification/Float64.thy ===== *)
theory Float64
  imports ChainTypes "HOL-Library.Log_Nat"
begin

text \<open>
  The \<open>double\<close> arithmetic of the staking rewards: IEEE 754 binary64, rounding to nearest with ties to
  even, as executable functions on rationals. A finite value is the rational it stands for (the two
  zeros are one value); infinities and not-a-number are values of their own.
\<close>

section \<open>Rounding\<close>

definition pow2 :: "int \<Rightarrow> rat" where
  "pow2 k = (if 0 \<le> k then 2 ^ nat k else 1 / 2 ^ nat (- k))"

text \<open>The exponent \<open>e\<close> with \<open>2^e \<le> x < 2^(e+1)\<close>, for a positive \<open>x\<close>.\<close>

definition expo :: "rat \<Rightarrow> int" where
  "expo x = (case quotient_of x of (p, q) \<Rightarrow>
     let e = bitlen p - bitlen q in if pow2 e \<le> x then e else e - 1)"

definition round_half_even :: "rat \<Rightarrow> int" where
  "round_half_even x =
     (let f = \<lfloor>x\<rfloor>; d = x - of_int f
      in if d < 1 / 2 then f else if d > 1 / 2 then f + 1 else if even f then f else f + 1)"

text \<open>The distance of the representable numbers around a positive \<open>x\<close>: 53 bits, and \<open>2^-1074\<close> at least.\<close>

definition quantum :: "rat \<Rightarrow> rat" where
  "quantum x = pow2 (max (expo x - 52) (- 1074))"

definition rnd_pos :: "rat \<Rightarrow> rat" where
  "rnd_pos x = of_int (round_half_even (x / quantum x)) * quantum x"

definition rnd :: "rat \<Rightarrow> rat" where
  "rnd x = (if x = 0 then 0 else if x < 0 then - rnd_pos (- x) else rnd_pos x)"

section \<open>Values and operations\<close>

datatype float64 = Finite rat | PosInf | NegInf | NotANumber

definition to_f64 :: "rat \<Rightarrow> float64" where
  "to_f64 x = (let r = rnd x in if r \<ge> 2 ^ 1024 then PosInf else if r \<le> - (2 ^ 1024) then NegInf else Finite r)"

definition f64_of_int :: "int \<Rightarrow> float64" where
  "f64_of_int n = to_f64 (of_int n)"

text \<open>The operations; the sign of a zero divisor is positive, as for every divisor the code computes.\<close>

fun f64_add :: "float64 \<Rightarrow> float64 \<Rightarrow> float64" where
  "f64_add (Finite a) (Finite b) = to_f64 (a + b)"
| "f64_add NotANumber b = NotANumber"
| "f64_add a NotANumber = NotANumber"
| "f64_add PosInf NegInf = NotANumber"
| "f64_add NegInf PosInf = NotANumber"
| "f64_add PosInf b = PosInf"
| "f64_add NegInf b = NegInf"
| "f64_add (Finite a) b = b"

definition inf_of_sign :: "rat \<Rightarrow> float64" where
  "inf_of_sign s = (if s > 0 then PosInf else if s < 0 then NegInf else NotANumber)"

fun f64_sign :: "float64 \<Rightarrow> rat" where
  "f64_sign (Finite a) = sgn a"
| "f64_sign PosInf = 1"
| "f64_sign NegInf = - 1"
| "f64_sign NotANumber = 0"

fun f64_mult :: "float64 \<Rightarrow> float64 \<Rightarrow> float64" where
  "f64_mult (Finite a) (Finite b) = to_f64 (a * b)"
| "f64_mult a b = inf_of_sign (f64_sign a * f64_sign b)"

fun f64_div :: "float64 \<Rightarrow> float64 \<Rightarrow> float64" where
  "f64_div (Finite a) (Finite b) = (if b = 0 then inf_of_sign a else to_f64 (a / b))"
| "f64_div NotANumber b = NotANumber"
| "f64_div a NotANumber = NotANumber"
| "f64_div (Finite a) b = Finite 0"
| "f64_div a (Finite b) = inf_of_sign (f64_sign a * (if b < 0 then - 1 else 1))"
| "f64_div a b = NotANumber"

fun f64_le :: "float64 \<Rightarrow> float64 \<Rightarrow> bool" where
  "f64_le (Finite a) (Finite b) = (a \<le> b)"
| "f64_le NotANumber b = False"
| "f64_le a NotANumber = False"
| "f64_le NegInf b = True"
| "f64_le a PosInf = True"
| "f64_le PosInf b = False"
| "f64_le (Finite a) NegInf = False"

definition f64_greater :: "float64 \<Rightarrow> float64 \<Rightarrow> bool" where
  "f64_greater a b \<longleftrightarrow> f64_le b a \<and> \<not> f64_le a b"

text \<open>\<open>static_cast<int64_t>\<close> of a \<open>double\<close>: towards zero, undefined out of range.\<close>

fun f64_to_i64 :: "float64 \<Rightarrow> int option" where
  "f64_to_i64 (Finite a) = i64 (if a < 0 then \<lceil>a\<rceil> else \<lfloor>a\<rfloor>)"
| "f64_to_i64 _ = None"

section \<open>Facts about rounding\<close>

lemma pow2_pos [simp]: "0 < pow2 k"
  by (simp add: pow2_def)

lemma pow2_add: "pow2 (a + b) = pow2 a * pow2 b"
proof -
  have nn: "pow2 (a + int n) = pow2 a * 2 ^ n" for a n
  proof (induction n)
    case (Suc n)
    have "pow2 (x + 1) = pow2 x * 2" for x
    proof (cases "0 \<le> x")
      case True
      then have "nat (x + 1) = Suc (nat x)" by simp
      with True show ?thesis by (simp add: pow2_def)
    next
      case False
      then have "nat (- x) = Suc (nat (- x) - 1)" "x = - int (Suc (nat (- x) - 1))" by auto
      then obtain m where "nat (- x) = Suc m" "x = - int (Suc m)" by blast
      then show ?thesis by (cases m) (simp_all add: pow2_def nat_add_distrib)
    qed
    from this [of "a + int n"] Suc show ?case by (simp add: algebra_simps)
  qed simp
  show ?thesis
  proof (cases "0 \<le> b")
    case True
    then show ?thesis using nn [of a "nat b"] by (simp add: pow2_def [of b])
  next
    case False
    then have "pow2 a = pow2 (a + b) * 2 ^ nat (- b)" using nn [of "a + b" "nat (- b)"] by simp
    then show ?thesis using False by (simp add: pow2_def [of b])
  qed
qed


lemma pow2_mono: "a \<le> b \<Longrightarrow> pow2 a \<le> pow2 b"
  using pow2_add [of a "b - a"] by (simp add: pow2_def [of "b - a"])

lemma pow2_less: "a < b \<Longrightarrow> pow2 a * 2 \<le> pow2 b"
  using pow2_mono [of "a + 1" b] pow2_add [of a 1] by (simp add: pow2_def [of 1])

lemma pow2_0 [simp]: "pow2 0 = 1"
  by (simp add: pow2_def)

lemma pow2_diff: "pow2 (a - b) = pow2 a / pow2 b"
  using pow2_add [of "a - b" b] by (simp add: field_simps less_imp_neq [OF pow2_pos, symmetric])

lemma pow2_nat: "pow2 (int n) = 2 ^ n"
  by (simp add: pow2_def)

lemma expo_bounds:
  assumes "0 < x"
  shows "pow2 (expo x) \<le> x" "x < pow2 (expo x + 1)"
proof -
  obtain p q where pq: "quotient_of x = (p, q)" by fastforce
  then have q: "0 < q" and x: "x = of_int p / of_int q"
    using quotient_of_denom_pos quotient_of_div by blast+
  then have p: "0 < p" using assms by (simp add: zero_less_divide_iff)
  have bits: "pow2 (bitlen n - 1) \<le> of_int n" "of_int n < pow2 (bitlen n)" if "0 < n" for n
  proof -
    have "2 ^ nat (bitlen n - 1) \<le> n" "n < 2 ^ nat (bitlen n)" using bitlen_bounds [OF that] by auto
    then have "(of_int (2 ^ nat (bitlen n - 1)) :: rat) \<le> of_int n"
      "(of_int n :: rat) < of_int (2 ^ nat (bitlen n))" by (simp_all only: of_int_le_iff of_int_less_iff)
    moreover have "0 < bitlen n" using that bitlen_ge_iff_power [of 1 n] by simp
    ultimately show "pow2 (bitlen n - 1) \<le> of_int n" "of_int n < pow2 (bitlen n)"
      by (simp_all add: pow2_def)
  qed
  let ?e = "bitlen p - bitlen q"
  have "x \<le> of_int p / pow2 (bitlen q - 1)"
    unfolding x using bits(1) [OF q] p by (intro divide_left_mono) (auto intro: mult_pos_pos simp: q)
  also have "\<dots> < pow2 (bitlen p) / pow2 (bitlen q - 1)"
    using bits(2) [OF p] by (simp add: divide_strict_right_mono)
  also have "\<dots> = pow2 (?e + 1)" by (simp flip: pow2_diff) (simp add: algebra_simps)
  finally have up: "x < pow2 (?e + 1)" .
  have "pow2 (?e - 1) = pow2 (bitlen p - 1) / pow2 (bitlen q)" by (simp flip: pow2_diff) (simp add: algebra_simps)
  also have "\<dots> \<le> of_int p / pow2 (bitlen q)"
    using bits(1) [OF p] by (intro divide_right_mono) (simp_all add: less_imp_le)
  also have "\<dots> \<le> x"
    unfolding x using bits(2) [OF q] p by (intro divide_left_mono) (auto intro: mult_pos_pos simp: q)
  finally have low: "pow2 (?e - 1) \<le> x" .
  show "pow2 (expo x) \<le> x" "x < pow2 (expo x + 1)"
    using up low by (auto simp: expo_def pq Let_def not_le)
qed

lemma expo_unique: "pow2 e \<le> x \<Longrightarrow> x < pow2 (e + 1) \<Longrightarrow> expo x = e"
proof -
  assume e: "pow2 e \<le> x" "x < pow2 (e + 1)"
  then have "0 < x" using pow2_pos [of e] by linarith
  from expo_bounds [OF this] e have "pow2 e < pow2 (expo x + 1)" "pow2 (expo x) < pow2 (e + 1)" by linarith+
  then have "e < expo x + 1" "expo x < e + 1" using pow2_mono by (meson not_le)+
  then show "expo x = e" by simp
qed

lemma expo_mono: "0 < x \<Longrightarrow> x \<le> y \<Longrightarrow> expo x \<le> expo y"
proof (rule ccontr)
  assume "0 < x" "x \<le> y" "\<not> expo x \<le> expo y"
  then have "pow2 (expo y + 1) \<le> pow2 (expo x)" by (intro pow2_mono) simp
  with \<open>0 < x\<close> \<open>x \<le> y\<close> expo_bounds [of x] expo_bounds [of y] show False by linarith
qed

lemma round_half_even_bounds: "\<lfloor>x\<rfloor> \<le> round_half_even x" "round_half_even x \<le> \<lfloor>x\<rfloor> + 1"
  by (auto simp: round_half_even_def Let_def)

lemma round_half_even_int [simp]: "round_half_even (of_int n) = n"
  by (simp add: round_half_even_def)

lemma round_half_even_mono: "x \<le> y \<Longrightarrow> round_half_even x \<le> round_half_even y"
proof -
  assume xy: "x \<le> y"
  show ?thesis
  proof (cases "\<lfloor>x\<rfloor> = \<lfloor>y\<rfloor>")
    case True
    with xy show ?thesis by (auto simp: round_half_even_def Let_def)
  next
    case False
    then have "\<lfloor>x\<rfloor> + 1 \<le> \<lfloor>y\<rfloor>" using floor_mono [OF xy] by simp
    with round_half_even_bounds(2) [of x] round_half_even_bounds(1) [of y] show ?thesis by linarith
  qed
qed

lemma quantum_pos [simp]: "0 < quantum x"
  by (simp add: quantum_def)

text \<open>Multiples of the quantum below \<open>2^53\<close> are representable.\<close>

lemma quantum_mono: "0 < x \<Longrightarrow> x \<le> y \<Longrightarrow> quantum x \<le> quantum y"
  using expo_mono [of x y] by (simp add: quantum_def pow2_mono max_def)

lemma pow2_int: "0 \<le> k \<Longrightarrow> \<exists>n. pow2 k = of_int n"
  by (intro exI [of _ "2 ^ nat k"]) (simp add: pow2_def)

lemma quantum_dvd:
  assumes "0 < x" "x \<le> y"
  shows "\<exists>n. quantum y = of_int n * quantum x"
proof -
  let ?j = "max (expo x - 52) (- 1074)" and ?k = "max (expo y - 52) (- 1074)"
  have "0 \<le> ?k - ?j" using expo_mono [OF assms] by auto
  from pow2_int [OF this] pow2_add [of "?k - ?j" ?j] show ?thesis by (auto simp: quantum_def)
qed

lemma rnd_pos_same:
  assumes "quantum x = quantum y" "x \<le> y"
  shows "rnd_pos x \<le> rnd_pos y"
proof -
  have "round_half_even (x / quantum y) \<le> round_half_even (y / quantum y)"
    using assms(2) by (intro round_half_even_mono divide_right_mono) (simp_all add: less_imp_le)
  then show ?thesis using assms(1) by (simp add: rnd_pos_def)
qed

lemma rnd_pos_nonneg: "0 < x \<Longrightarrow> 0 \<le> rnd_pos x"
proof -
  assume "0 < x"
  then have "0 \<le> round_half_even (x / quantum x)"
    using round_half_even_mono [OF less_imp_le [OF divide_pos_pos [of x "quantum x"]]]
      round_half_even_int [of 0] by simp
  then show ?thesis by (simp add: rnd_pos_def less_imp_le)
qed

text \<open>A multiple \<open>z\<close> of the quantum of \<open>x\<close> bounds the rounding of \<open>x\<close> when it bounds \<open>x\<close>.\<close>

lemma rnd_pos_le_multiple:
  assumes "x \<le> of_int n * quantum x"
  shows "rnd_pos x \<le> of_int n * quantum x"
proof -
  have "x / quantum x \<le> of_int n" using assms by (simp add: divide_le_eq)
  then have "round_half_even (x / quantum x) \<le> n"
    using round_half_even_mono [of "x / quantum x" "of_int n"] by simp
  then show ?thesis by (simp add: rnd_pos_def mult_right_mono)
qed

lemma rnd_pos_ge_multiple:
  assumes "of_int n * quantum x \<le> x"
  shows "of_int n * quantum x \<le> rnd_pos x"
proof -
  have "of_int n \<le> x / quantum x" using assms by (simp add: le_divide_eq)
  then have "n \<le> round_half_even (x / quantum x)"
    using round_half_even_mono [of "of_int n" "x / quantum x"] by simp
  then show ?thesis by (simp add: rnd_pos_def mult_right_mono)
qed

text \<open>Powers of two are multiples of the quantum of every number at most as large.\<close>

lemma pow2_multiple:
  assumes "0 < x" "expo x \<le> k" "- 1074 \<le> k"
  shows "\<exists>n. pow2 k = of_int n * quantum x"
proof -
  let ?j = "max (expo x - 52) (- 1074)"
  have "0 \<le> k - ?j" using assms by auto
  from pow2_int [OF this] pow2_add [of "k - ?j" ?j] show ?thesis by (auto simp: quantum_def)
qed

lemma rnd_pos_mono:
  assumes "0 < x" "x \<le> y"
  shows "rnd_pos x \<le> rnd_pos y"
proof (cases "quantum x = quantum y")
  case True
  then show ?thesis using assms(2) by (rule rnd_pos_same)
next
  case False
  let ?k = "expo y"
  have y: "0 < y" using assms by simp
  have ex: "expo x < ?k" "- 1074 \<le> ?k"
    using False expo_mono [OF assms] by (auto simp: quantum_def max_def le_less split: if_splits)
  have "x \<le> pow2 ?k"
    using expo_bounds(2) [OF assms(1)] pow2_mono [of "expo x + 1" ?k] ex by simp
  moreover obtain n where "pow2 ?k = of_int n * quantum x"
    using pow2_multiple [OF assms(1), of ?k] ex by auto
  ultimately have "rnd_pos x \<le> pow2 ?k" using rnd_pos_le_multiple [of x n] by simp
  moreover obtain m where "pow2 ?k = of_int m * quantum y"
    using pow2_multiple [OF y, of ?k] ex by auto
  then have "pow2 ?k \<le> rnd_pos y"
    using rnd_pos_ge_multiple [of m y] expo_bounds(1) [OF y] by simp
  ultimately show ?thesis by linarith
qed

lemma rnd_mono: "0 \<le> x \<Longrightarrow> x \<le> y \<Longrightarrow> rnd x \<le> rnd y"
  using rnd_pos_mono [of x y] rnd_pos_nonneg [of y] by (auto simp: rnd_def)

lemma rnd_nonneg: "0 \<le> x \<Longrightarrow> 0 \<le> rnd x"
  using rnd_pos_nonneg [of x] by (auto simp: rnd_def)

text \<open>Integers times a power of two are exact up to 53 bits; every rounding is the identity on them.\<close>

lemma rnd_exact:
  assumes "\<bar>n\<bar> \<le> 2 ^ 53" "0 < n" "- 1074 \<le> k"
  shows "rnd (of_int n * pow2 k) = of_int n * pow2 k"
proof -
  define x where "x = (of_int n * pow2 k :: rat)"
  have x: "0 < x" using assms by (simp add: x_def)
  have "(of_int n :: rat) \<le> of_int (2 ^ 53)" using assms by (simp only: of_int_le_iff)
  then have "x \<le> 2 ^ 53 * pow2 k" by (simp add: x_def)
  also have "\<dots> = pow2 (53 + k)" using pow2_add [of 53 k] by (simp add: pow2_def [of 53])
  finally have le: "x \<le> pow2 (53 + k)" .
  have "\<exists>m. x = of_int m * quantum x"
  proof (cases "x = pow2 (53 + k)")
    case True
    then have "expo x = 53 + k" using pow2_less [of "53 + k" "53 + k + 1"] pow2_pos [of "53 + k"]
      by (intro expo_unique) linarith+
    with pow2_multiple [OF x, of "53 + k"] assms(3) True show ?thesis by auto
  next
    case False
    then have "expo x \<le> 52 + k"
      using le expo_bounds(1) [OF x] pow2_mono [of "53 + k" "expo x"] by (cases "expo x \<le> 52 + k") auto
    then have "0 \<le> k - max (expo x - 52) (- 1074)" using assms(3) by auto
    from pow2_int [OF this] obtain m where "pow2 (k - max (expo x - 52) (- 1074)) = of_int m" by blast
    then have "pow2 k = of_int m * quantum x"
      using pow2_add [of "k - max (expo x - 52) (- 1074)" "max (expo x - 52) (- 1074)"]
      by (simp add: quantum_def)
    then have "x = of_int (n * m) * quantum x" by (simp add: x_def)
    then show ?thesis by blast
  qed
  then obtain m where m: "x = of_int m * quantum x" by blast
  then have "rnd_pos x = x"
    using rnd_pos_le_multiple [of x m] rnd_pos_ge_multiple [of m x] by simp
  with x show ?thesis by (simp add: rnd_def x_def)
qed

lemma rnd_0 [simp]: "rnd 0 = 0"
  by (simp add: rnd_def)

lemma rnd_of_int:
  assumes "0 \<le> n" "n \<le> 2 ^ 53"
  shows "rnd (of_int n) = of_int n"
  using rnd_exact [of n 0] assms by (cases "n = 0") auto

lemma to_f64_Finite: "0 \<le> x \<Longrightarrow> x \<le> 2 ^ 1000 \<Longrightarrow> to_f64 x = Finite (rnd x)"
proof -
  assume x: "0 \<le> x" "x \<le> 2 ^ 1000"
  have "rnd x \<le> rnd (2 ^ 1000)" using x by (rule rnd_mono)
  also have "\<dots> = 2 ^ 1000" using rnd_exact [of 1 1000] by (simp add: pow2_def)
  also have "\<dots> < 2 ^ 1024" by simp
  finally show ?thesis using rnd_nonneg [OF x(1)] by (simp add: to_f64_def Let_def)
qed

end
