(* ===== verification/StakingState.thy ===== *)
theory StakingState
  imports StakingTypes Float64
begin

text \<open>
  The state of \<open>src/pos.cpp\<close>: the stake locks, the validator registry, the slashing records and the
  blacklist, which the code keeps in global containers, and every operation on them. An operation
  returns its result with the new state; \<open>GetTime()\<close> is the argument \<open>now\<close>. \<open>None\<close> is a signed overflow.
\<close>

section \<open>The state\<close>

record pos_state =
  mapStakeLocks :: "(COutPoint, CStakeLock) rbt"
  mapValidators :: "(CPubKey, CValidator) rbt"
  mapValidatorStatus :: "(CPubKey, bool) rbt"
  mapSlashedValidators :: "(CPubKey, int) rbt"
  mapSlashPenalties :: "(CPubKey, CAmount) rbt"
  setBlacklistedValidators :: "CPubKey std_set"

definition pos_init :: pos_state where
  "pos_init = \<lparr>mapStakeLocks = RBT.empty, mapValidators = RBT.empty, mapValidatorStatus = RBT.empty,
     mapSlashedValidators = RBT.empty, mapSlashPenalties = RBT.empty, setBlacklistedValidators = RBT.empty\<rparr>"

section \<open>Stake locks\<close>

definition CreateStakeLock ::
  "int \<Rightarrow> COutPoint \<Rightarrow> int \<Rightarrow> CAmount \<Rightarrow> CPubKey \<Rightarrow> pos_state \<Rightarrow> (bool \<times> pos_state) option"
where
  "CreateStakeLock now outpoint nLockDuration nAmount ownerPubKey s =
     (if map_contains (mapStakeLocks s) outpoint then Some (False, s)
      else do {
        nLockEnd \<leftarrow> i64 (now + nLockDuration);
        Some (True, s\<lparr>mapStakeLocks := RBT.insert outpoint
          \<lparr>sl_outpoint = outpoint, sl_nLockTime = nLockEnd, sl_nAmount = nAmount,
           sl_ownerPubKey = ownerPubKey\<rparr> (mapStakeLocks s)\<rparr>)
      })"

definition RemoveStakeLock :: "COutPoint \<Rightarrow> pos_state \<Rightarrow> bool \<times> pos_state" where
  "RemoveStakeLock outpoint s =
     (if \<not> map_contains (mapStakeLocks s) outpoint then (False, s)
      else (True, s\<lparr>mapStakeLocks := RBT.delete outpoint (mapStakeLocks s)\<rparr>))"

definition IsStakeLocked :: "int \<Rightarrow> COutPoint \<Rightarrow> int \<Rightarrow> pos_state \<Rightarrow> bool" where
  "IsStakeLocked now outpoint nCurrentTime s =
     (let nCurrentTime = (if nCurrentTime = 0 then now else nCurrentTime)
      in case RBT.lookup (mapStakeLocks s) outpoint of
           None \<Rightarrow> False
         | Some l \<Rightarrow> \<not> CStakeLock_IsExpired l nCurrentTime)"

text \<open>The out parameter is set exactly when the call returns true.\<close>

definition GetStakeLock :: "COutPoint \<Rightarrow> pos_state \<Rightarrow> CStakeLock option" where
  "GetStakeLock outpoint s = RBT.lookup (mapStakeLocks s) outpoint"

section \<open>The validator registry\<close>

definition RegisterValidator ::
  "int \<Rightarrow> CPubKey \<Rightarrow> CAmount \<Rightarrow> bytes \<Rightarrow> bytes \<Rightarrow> pos_state \<Rightarrow> bool \<times> pos_state"
where
  "RegisterValidator now validatorPubKey nStakeAmount rewardScript strDescription s =
     (if map_contains (mapValidators s) validatorPubKey then (False, s)
      else (True, s\<lparr>
        mapValidators := RBT.insert validatorPubKey
          \<lparr>v_pubkey = validatorPubKey, v_nStakeAmount = nStakeAmount, v_nRegistrationTime = now,
           v_fActive = True\<rparr> (mapValidators s),
        mapValidatorStatus := RBT.insert validatorPubKey True (mapValidatorStatus s)\<rparr>))"

definition UpdateValidatorStake :: "CPubKey \<Rightarrow> CAmount \<Rightarrow> pos_state \<Rightarrow> bool \<times> pos_state" where
  "UpdateValidatorStake validatorPubKey nNewStakeAmount s =
     (case RBT.lookup (mapValidators s) validatorPubKey of
        None \<Rightarrow> (False, s)
      | Some v \<Rightarrow> (True, s\<lparr>mapValidators :=
          RBT.insert validatorPubKey (v\<lparr>v_nStakeAmount := nNewStakeAmount\<rparr>) (mapValidators s)\<rparr>))"

definition SetValidatorStatus :: "CPubKey \<Rightarrow> bool \<Rightarrow> pos_state \<Rightarrow> bool \<times> pos_state" where
  "SetValidatorStatus validatorPubKey fActive s =
     (case RBT.lookup (mapValidators s) validatorPubKey of
        None \<Rightarrow> (False, s)
      | Some v \<Rightarrow> (True, s\<lparr>
          mapValidators := RBT.insert validatorPubKey (v\<lparr>v_fActive := fActive\<rparr>) (mapValidators s),
          mapValidatorStatus := RBT.insert validatorPubKey fActive (mapValidatorStatus s)\<rparr>))"

definition GetValidator :: "CPubKey \<Rightarrow> pos_state \<Rightarrow> CValidator option" where
  "GetValidator validatorPubKey s = RBT.lookup (mapValidators s) validatorPubKey"

definition IsValidatorRegistered :: "CPubKey \<Rightarrow> pos_state \<Rightarrow> bool" where
  "IsValidatorRegistered validatorPubKey s \<longleftrightarrow> map_contains (mapValidators s) validatorPubKey"

definition IsValidatorActive :: "CPubKey \<Rightarrow> pos_state \<Rightarrow> bool" where
  "IsValidatorActive validatorPubKey s =
     (case RBT.lookup (mapValidatorStatus s) validatorPubKey of None \<Rightarrow> False | Some b \<Rightarrow> b)"

definition GetActiveValidators :: "pos_state \<Rightarrow> CValidator list" where
  "GetActiveValidators s =
     fold (\<lambda>(k, v) activeValidators.
         if v_fActive v \<and> IsValidatorActive k s then activeValidators @ [v] else activeValidators)
       (RBT.entries (mapValidators s)) []"

definition GetTotalActiveStake :: "pos_state \<Rightarrow> CAmount option" where
  "GetTotalActiveStake s =
     fold (\<lambda>(k, v) totalStake.
         if v_fActive v \<and> IsValidatorActive k s
         then Option.bind totalStake (\<lambda>t. i64 (t + v_nStakeAmount v)) else totalStake)
       (RBT.entries (mapValidators s)) (Some 0)"

definition RemoveValidator :: "CPubKey \<Rightarrow> pos_state \<Rightarrow> bool \<times> pos_state" where
  "RemoveValidator validatorPubKey s =
     (if \<not> map_contains (mapValidators s) validatorPubKey then (False, s)
      else (True, s\<lparr>mapValidators := RBT.delete validatorPubKey (mapValidators s),
                    mapValidatorStatus := RBT.delete validatorPubKey (mapValidatorStatus s)\<rparr>))"

definition GetValidatorCount :: "pos_state \<Rightarrow> nat" where
  "GetValidatorCount s = length (RBT.entries (mapValidators s))"

definition GetActiveValidatorCount :: "pos_state \<Rightarrow> nat" where
  "GetActiveValidatorCount s =
     fold (\<lambda>(k, v) count. if v_fActive v \<and> IsValidatorActive k s then count + 1 else count)
       (RBT.entries (mapValidators s)) 0"

section \<open>Processing of transactions\<close>

definition ProcessValidatorRegistration ::
  "int \<Rightarrow> CTransaction \<Rightarrow> CValidatorRegistrationPayload \<Rightarrow> pos_state \<Rightarrow> bool \<times> pos_state"
where
  "ProcessValidatorRegistration now tx payload s =
     (if IsValidatorRegistered (vp_validatorPubKey payload) s then (False, s)
      else RegisterValidator now (vp_validatorPubKey payload) (vp_nStakeAmount payload)
             (vp_rewardScript payload) (vp_strDescription payload) s)"

definition ProcessStakeTransaction ::
  "int \<Rightarrow> CTransaction \<Rightarrow> CStakeTransactionPayload \<Rightarrow> pos_state \<Rightarrow> (bool \<times> pos_state) option"
where
  "ProcessStakeTransaction now tx payload s =
     (if vout tx = [] then Some (False, s)
      else
        let stakeOutpoint = COutPoint (tx_hash tx) 0
        in CreateStakeLock now stakeOutpoint (sp_nLockTime payload) (sp_nStakeAmount payload)
             (sp_stakePubKey payload) s)"

definition ProcessUnstakeTransaction ::
  "CTransaction \<Rightarrow> CUnstakeTransactionPayload \<Rightarrow> pos_state \<Rightarrow> bool \<times> pos_state"
where
  "ProcessUnstakeTransaction tx payload s = RemoveStakeLock (up_stakeOutpoint payload) s"

section \<open>Slashing\<close>

definition CalculateSlashingPenalty ::
  "CPubKey \<Rightarrow> SlashingCondition \<Rightarrow> pos_state \<Rightarrow> CAmount option"
where
  "CalculateSlashingPenalty validatorPubKey condition s =
     (case GetValidator validatorPubKey s of
        None \<Rightarrow> Some 0
      | Some v \<Rightarrow> do {
          penalty \<leftarrow>
            (if condition = SLASH_DOUBLE_SIGNING then Some (v_nStakeAmount v sdiv 2)
             else if condition = SLASH_LONG_RANGE_ATTACK then Some (v_nStakeAmount v)
             else if condition = SLASH_UNAVAILABILITY then Some (v_nStakeAmount v sdiv 20)
             else if condition = SLASH_INVALID_BLOCK then Some (v_nStakeAmount v sdiv 4)
             else if condition = SLASH_EQUIVOCATION then
               do { d \<leftarrow> i64 (v_nStakeAmount v * 2); Some (d sdiv 5) }
             else Some 0);
          Some (if penalty > v_nStakeAmount v then v_nStakeAmount v else penalty)
        })"

definition SlashValidator ::
  "int \<Rightarrow> CPubKey \<Rightarrow> SlashingCondition \<Rightarrow> pos_state \<Rightarrow> (bool \<times> pos_state) option"
where
  "SlashValidator now validatorPubKey condition s =
     (if \<not> IsValidatorRegistered validatorPubKey s then Some (False, s)
      else if map_contains (mapSlashedValidators s) validatorPubKey then Some (False, s)
      else do {
        penalty \<leftarrow> CalculateSlashingPenalty validatorPubKey condition s;
        if penalty = 0 then Some (False, s)
        else case GetValidator validatorPubKey s of
          None \<Rightarrow> Some (False, s)
        | Some validator \<Rightarrow> do {
            newStake \<leftarrow> i64 (v_nStakeAmount validator - penalty);
            let newStake = (if newStake < 0 then 0 else newStake);
            let s = snd (UpdateValidatorStake validatorPubKey newStake s);
            let s = s\<lparr>mapSlashedValidators := RBT.insert validatorPubKey now (mapSlashedValidators s),
                      mapSlashPenalties := RBT.insert validatorPubKey penalty (mapSlashPenalties s)\<rparr>;
            let s = snd (SetValidatorStatus validatorPubKey False s);
            let s = (if condition = SLASH_LONG_RANGE_ATTACK \<or> condition = SLASH_DOUBLE_SIGNING
                     then s\<lparr>setBlacklistedValidators :=
                       RBT.insert validatorPubKey () (setBlacklistedValidators s)\<rparr>
                     else s);
            Some (True, s)
          }
      })"

definition IsValidatorBlacklisted :: "CPubKey \<Rightarrow> pos_state \<Rightarrow> bool" where
  "IsValidatorBlacklisted validatorPubKey s \<longleftrightarrow> set_contains (setBlacklistedValidators s) validatorPubKey"

definition IsValidatorSlashed :: "CPubKey \<Rightarrow> pos_state \<Rightarrow> bool" where
  "IsValidatorSlashed validatorPubKey s \<longleftrightarrow> map_contains (mapSlashedValidators s) validatorPubKey"

definition GetSlashingInfo :: "CPubKey \<Rightarrow> pos_state \<Rightarrow> (int \<times> CAmount) option" where
  "GetSlashingInfo validatorPubKey s =
     (case (RBT.lookup (mapSlashedValidators s) validatorPubKey,
            RBT.lookup (mapSlashPenalties s) validatorPubKey) of
        (Some t, Some p) \<Rightarrow> Some (t, p)
      | _ \<Rightarrow> None)"

definition DetectDoubleSigning ::
  "int \<Rightarrow> CPubKey \<Rightarrow> uint256 \<Rightarrow> uint256 \<Rightarrow> int \<Rightarrow> pos_state \<Rightarrow> (bool \<times> pos_state) option"
where
  "DetectDoubleSigning now validatorPubKey blockHash1 blockHash2 nHeight s =
     (if blockHash1 = blockHash2 then Some (False, s)
      else SlashValidator now validatorPubKey SLASH_DOUBLE_SIGNING s)"

definition DetectUnavailability ::
  "int \<Rightarrow> CPubKey \<Rightarrow> int \<Rightarrow> int \<Rightarrow> pos_state \<Rightarrow> (bool \<times> pos_state) option"
where
  "DetectUnavailability now validatorPubKey nMissedBlocks nTotalBlocks s =
     (let missRate = f64_div (f64_of_int nMissedBlocks) (f64_of_int nTotalBlocks)
      in if f64_le missRate (to_f64 (1 / 5)) then Some (False, s)
         else SlashValidator now validatorPubKey SLASH_UNAVAILABILITY s)"

definition RemoveFromBlacklist :: "CPubKey \<Rightarrow> pos_state \<Rightarrow> bool \<times> pos_state" where
  "RemoveFromBlacklist validatorPubKey s =
     (if \<not> set_contains (setBlacklistedValidators s) validatorPubKey then (False, s)
      else (True, s\<lparr>setBlacklistedValidators :=
        RBT.delete validatorPubKey (setBlacklistedValidators s)\<rparr>))"

definition GetBlacklistedValidators :: "pos_state \<Rightarrow> CPubKey list" where
  "GetBlacklistedValidators s = RBT.keys (setBlacklistedValidators s)"

definition GetSlashedValidators :: "pos_state \<Rightarrow> CPubKey list" where
  "GetSlashedValidators s = RBT.keys (mapSlashedValidators s)"

end
