(* ===== verification/StakingInvariant.thy ===== *)
theory StakingInvariant
  imports StakingState
begin

text \<open>
  The global containers of \<open>src/pos.cpp\<close> as a transition system: one step per operation, the invariant
  that ties the containers together, what the queries return, and what slashing does to a validator.
\<close>

section \<open>Steps and the invariant\<close>

text \<open>Every operation that changes the state, as a step; \<open>None\<close> (an overflow) is no step.\<close>

inductive pos_step :: "pos_state \<Rightarrow> pos_state \<Rightarrow> bool" where
  CreateStakeLock: "CreateStakeLock now p d a k s = Some (b, s') \<Longrightarrow> pos_step s s'"
| RemoveStakeLock: "RemoveStakeLock p s = (b, s') \<Longrightarrow> pos_step s s'"
| RegisterValidator: "RegisterValidator now k a r d s = (b, s') \<Longrightarrow> pos_step s s'"
| UpdateValidatorStake: "UpdateValidatorStake k a s = (b, s') \<Longrightarrow> pos_step s s'"
| SetValidatorStatus: "SetValidatorStatus k f s = (b, s') \<Longrightarrow> pos_step s s'"
| RemoveValidator: "RemoveValidator k s = (b, s') \<Longrightarrow> pos_step s s'"
| ProcessValidatorRegistration: "ProcessValidatorRegistration now tx r s = (b, s') \<Longrightarrow> pos_step s s'"
| ProcessStakeTransaction: "ProcessStakeTransaction now tx p s = Some (b, s') \<Longrightarrow> pos_step s s'"
| ProcessUnstakeTransaction: "ProcessUnstakeTransaction tx u s = (b, s') \<Longrightarrow> pos_step s s'"
| SlashValidator: "SlashValidator now k c s = Some (b, s') \<Longrightarrow> pos_step s s'"
| DetectDoubleSigning: "DetectDoubleSigning now k h1 h2 n s = Some (b, s') \<Longrightarrow> pos_step s s'"
| DetectUnavailability: "DetectUnavailability now k m t s = Some (b, s') \<Longrightarrow> pos_step s s'"
| RemoveFromBlacklist: "RemoveFromBlacklist k s = (b, s') \<Longrightarrow> pos_step s s'"

definition validators_inv :: "pos_state \<Rightarrow> bool" where
  "validators_inv s \<longleftrightarrow>
     (\<forall>k v. RBT.lookup (mapValidators s) k = Some v \<longrightarrow>
        v_pubkey v = k \<and> RBT.lookup (mapValidatorStatus s) k = Some (v_fActive v)) \<and>
     (\<forall>k. map_contains (mapValidatorStatus s) k \<longrightarrow> map_contains (mapValidators s) k)"

definition slashing_inv :: "pos_state \<Rightarrow> bool" where
  "slashing_inv s \<longleftrightarrow>
     (\<forall>k. RBT.lookup (mapSlashedValidators s) k = None \<longleftrightarrow> RBT.lookup (mapSlashPenalties s) k = None) \<and>
     (\<forall>k. set_contains (setBlacklistedValidators s) k \<longrightarrow> map_contains (mapSlashedValidators s) k)"

definition locks_inv :: "pos_state \<Rightarrow> bool" where
  "locks_inv s \<longleftrightarrow> (\<forall>p l. RBT.lookup (mapStakeLocks s) p = Some l \<longrightarrow> sl_outpoint l = p)"

definition pos_inv :: "pos_state \<Rightarrow> bool" where
  "pos_inv s \<longleftrightarrow> validators_inv s \<and> slashing_inv s \<and> locks_inv s"

named_theorems pos_step_defs \<open>the operations that change the registry\<close>

lemmas registry_defs [pos_step_defs] =
  RegisterValidator_def UpdateValidatorStake_def SetValidatorStatus_def RemoveValidator_def
  ProcessValidatorRegistration_def RemoveFromBlacklist_def

lemmas lock_defs = CreateStakeLock_def RemoveStakeLock_def ProcessStakeTransaction_def
  ProcessUnstakeTransaction_def

lemmas inv_defs = validators_inv_def slashing_inv_def locks_inv_def

lemma inv_updates [simp]:
  "validators_inv (s\<lparr>mapStakeLocks := m\<rparr>) = validators_inv s"
  "slashing_inv (s\<lparr>mapStakeLocks := m\<rparr>) = slashing_inv s"
  "slashing_inv (s\<lparr>mapValidators := v\<rparr>) = slashing_inv s"
  "slashing_inv (s\<lparr>mapValidators := v, mapValidatorStatus := f\<rparr>) = slashing_inv s"
  "locks_inv (s\<lparr>mapValidators := v\<rparr>) = locks_inv s"
  "locks_inv (s\<lparr>mapValidators := v, mapValidatorStatus := f\<rparr>) = locks_inv s"
  "validators_inv (s\<lparr>setBlacklistedValidators := l\<rparr>) = validators_inv s"
  "locks_inv (s\<lparr>setBlacklistedValidators := l\<rparr>) = locks_inv s"
  by (simp_all add: inv_defs)

text \<open>What a successful slashing does, in one equation.\<close>

definition slash_effect :: "int \<Rightarrow> CPubKey \<Rightarrow> SlashingCondition \<Rightarrow> CAmount \<Rightarrow> CValidator \<Rightarrow> pos_state \<Rightarrow> pos_state" where
  "slash_effect now k c penalty v s = s\<lparr>
     mapValidators := RBT.insert k (v\<lparr>v_nStakeAmount := max 0 (v_nStakeAmount v - penalty), v_fActive := False\<rparr>)
       (RBT.insert k (v\<lparr>v_nStakeAmount := max 0 (v_nStakeAmount v - penalty)\<rparr>) (mapValidators s)),
     mapValidatorStatus := RBT.insert k False (mapValidatorStatus s),
     mapSlashedValidators := RBT.insert k now (mapSlashedValidators s),
     mapSlashPenalties := RBT.insert k penalty (mapSlashPenalties s),
     setBlacklistedValidators :=
       (if c = SLASH_LONG_RANGE_ATTACK \<or> c = SLASH_DOUBLE_SIGNING
        then RBT.insert k () (setBlacklistedValidators s) else setBlacklistedValidators s)\<rparr>"

lemma SlashValidator_cases:
  assumes "SlashValidator now k c s = Some (b, s')"
  obtains "\<not> b" "s' = s"
  | v penalty where "b" "RBT.lookup (mapValidators s) k = Some v"
      "RBT.lookup (mapSlashedValidators s) k = None"
      "CalculateSlashingPenalty k c s = Some penalty" "penalty \<noteq> 0"
      "in_i64 (v_nStakeAmount v - penalty)" "s' = slash_effect now k c penalty v s"
proof (cases b)
  case False
  then have "s' = s"
    using assms
    by (auto simp: SlashValidator_def bind_eq_Some_conv Let_def split: if_splits option.splits)
  with False show ?thesis using that(1) by blast
next
  case True
  then show ?thesis
    using assms that(2)
    by (auto simp: SlashValidator_def bind_eq_Some_conv Let_def IsValidatorRegistered_def GetValidator_def
        i64_eq_Some UpdateValidatorStake_def SetValidatorStatus_def slash_effect_def max_def
        split: if_splits option.splits)
qed

lemma slash_effect_inv:
  assumes "pos_inv s" "RBT.lookup (mapValidators s) k = Some v"
  shows "pos_inv (slash_effect now k c penalty v s)"
  using assms by (auto simp: pos_inv_def inv_defs slash_effect_def)

lemma SlashValidator_inv:
  "SlashValidator now k c s = Some (b, s') \<Longrightarrow> pos_inv s \<Longrightarrow> pos_inv s'"
  by (elim SlashValidator_cases) (auto intro: slash_effect_inv)

lemma registry_inv:
  "pos_inv s \<Longrightarrow> RegisterValidator now k a r d s = (b, s') \<Longrightarrow> pos_inv s'"
  "pos_inv s \<Longrightarrow> UpdateValidatorStake k a s = (b, s') \<Longrightarrow> pos_inv s'"
  "pos_inv s \<Longrightarrow> SetValidatorStatus k f s = (b, s') \<Longrightarrow> pos_inv s'"
  "pos_inv s \<Longrightarrow> RemoveValidator k s = (b, s') \<Longrightarrow> pos_inv s'"
  "pos_inv s \<Longrightarrow> RemoveFromBlacklist k s = (b, s') \<Longrightarrow> pos_inv s'"
  by (auto simp: pos_step_defs pos_inv_def validators_inv_def split: if_splits option.splits)
    (auto simp: slashing_inv_def simp del: not_None_eq)

lemma locks_step_inv:
  "pos_inv s \<Longrightarrow> CreateStakeLock now p d a k s = Some (b, s') \<Longrightarrow> pos_inv s'"
  "pos_inv s \<Longrightarrow> RemoveStakeLock p s = (b, s') \<Longrightarrow> pos_inv s'"
  by (auto simp: lock_defs pos_inv_def locks_inv_def bind_eq_Some_conv split: if_splits)

lemma pos_step_inv:
  assumes "pos_step s s'" "pos_inv s"
  shows "pos_inv s'"
  using assms
  by (cases rule: pos_step.cases)
    (auto simp: ProcessValidatorRegistration_def ProcessStakeTransaction_def
      ProcessUnstakeTransaction_def DetectDoubleSigning_def DetectUnavailability_def Let_def
      intro: registry_inv locks_step_inv SlashValidator_inv split: if_splits)

lemma pos_init_inv: "pos_inv pos_init"
  by (simp add: pos_inv_def inv_defs pos_init_def)

lemma pos_reachable_inv:
  assumes "pos_step\<^sup>*\<^sup>* pos_init s"
  shows "pos_inv s"
  using assms by (induction rule: rtranclp_induct) (auto intro: pos_init_inv pos_step_inv)

text \<open>Slashing records are never changed.\<close>

lemma pos_step_slashed:
  assumes "pos_step s s'" "RBT.lookup (mapSlashedValidators s) k = Some t"
    "RBT.lookup (mapSlashPenalties s) k = Some p"
  shows "RBT.lookup (mapSlashedValidators s') k = Some t \<and> RBT.lookup (mapSlashPenalties s') k = Some p"
proof -
  have slash: "RBT.lookup (mapSlashedValidators s') k = Some t \<and> RBT.lookup (mapSlashPenalties s') k = Some p"
    if "SlashValidator now k' c s = Some (b, s')" for now k' c b
    using that assms(2,3) by (elim SlashValidator_cases) (auto simp: slash_effect_def)
  show ?thesis
    using assms
    by (cases rule: pos_step.cases)
      (auto simp: pos_step_defs lock_defs DetectDoubleSigning_def DetectUnavailability_def Let_def
        bind_eq_Some_conv dest: slash split: if_splits option.splits)
qed


section \<open>Queries\<close>

definition active :: "pos_state \<Rightarrow> CPubKey \<times> CValidator \<Rightarrow> bool" where
  "active s = (\<lambda>(k, v). v_fActive v \<and> IsValidatorActive k s)"

lemma fold_filter_append:
  "fold (\<lambda>(k, v) xs. if P (k, v) then xs @ [v] else xs) es xs = xs @ map snd (filter P es)"
  by (induction es arbitrary: xs) auto

lemma fold_filter_count:
  "fold (\<lambda>(k, v) n. if P (k, v) then n + 1 else n) es n = n + length (filter P es)"
  by (induction es arbitrary: n) auto

lemma fold_filter_sum:
  "fold (\<lambda>(k, v) t. if P (k, v) then Option.bind t (\<lambda>t. i64 (t + f v)) else t) es (Some t) =
    sum_i64 (map (f \<circ> snd) (filter P es)) t"
proof (induction es arbitrary: t)
  case (Cons e es)
  have "fold (\<lambda>(k, v) t. if P (k, v) then Option.bind t (\<lambda>t. i64 (t + f v)) else t) es None = None"
    by (induction es) auto
  with Cons show ?case by (cases e) (auto simp: i64_def)
qed simp

lemma GetActiveValidators_filter:
  "GetActiveValidators s = map snd (filter (active s) (RBT.entries (mapValidators s)))"
  using fold_filter_append [of "active s"] by (simp add: GetActiveValidators_def active_def)

lemma GetActiveValidatorCount_length: "GetActiveValidatorCount s = length (GetActiveValidators s)"
  using fold_filter_count [of "active s"]
  by (simp add: GetActiveValidators_filter GetActiveValidatorCount_def active_def)

lemma GetTotalActiveStake_sum:
  "GetTotalActiveStake s = sum_i64 (map v_nStakeAmount (GetActiveValidators s)) 0"
  using fold_filter_sum [of "active s" v_nStakeAmount]
  by (simp add: GetActiveValidators_filter GetTotalActiveStake_def active_def)

lemma active_iff:
  assumes "validators_inv s" "RBT.lookup (mapValidators s) k = Some v"
  shows "active s (k, v) \<longleftrightarrow> v_fActive v"
  using assms by (auto simp: active_def validators_inv_def IsValidatorActive_def)

lemma set_GetActiveValidators:
  assumes "validators_inv s"
  shows "set (GetActiveValidators s) =
    {v. RBT.lookup (mapValidators s) (v_pubkey v) = Some v \<and> v_fActive v}"
proof -
  have "v \<in> set (GetActiveValidators s) \<longleftrightarrow> (\<exists>k. RBT.lookup (mapValidators s) k = Some v \<and> active s (k, v))" for v
    by (force simp: GetActiveValidators_filter entries_iff)
  moreover have "(\<exists>k. RBT.lookup (mapValidators s) k = Some v \<and> active s (k, v)) \<longleftrightarrow>
      RBT.lookup (mapValidators s) (v_pubkey v) = Some v \<and> v_fActive v" for v
    using assms active_iff [OF assms] by (auto simp: validators_inv_def)
  ultimately show ?thesis by blast
qed

lemma sorted_keys_GetActiveValidators:
  assumes "validators_inv s"
  shows "sorted_wrt (<) (map v_pubkey (GetActiveValidators s))"
proof -
  have key: "v_pubkey v = k" if "(k, v) \<in> set (RBT.entries (mapValidators s))" for k v
    using that assms by (auto simp: entries_iff validators_inv_def)
  have "map v_pubkey (GetActiveValidators s) = map fst (filter (active s) (RBT.entries (mapValidators s)))"
    using key by (auto simp: GetActiveValidators_filter)
  moreover have "sorted_wrt (\<lambda>a b. fst a < fst b) (RBT.entries (mapValidators s))"
  proof -
    have "sorted (map fst (RBT.entries (mapValidators s)))" "distinct (map fst (RBT.entries (mapValidators s)))"
      by (simp_all add: RBT.sorted_entries RBT.distinct_entries)
    then have "sorted_wrt (<) (map fst (RBT.entries (mapValidators s)))" by (simp add: strict_sorted_iff)
    then show ?thesis by (simp add: sorted_wrt_map)
  qed
  ultimately show ?thesis by (simp add: sorted_wrt_map sorted_wrt_filter)
qed

section \<open>Unavailability\<close>

lemma f64_of_count:
  assumes "0 \<le> n" "n < 2 ^ 31"
  shows "f64_of_int n = Finite (of_int n)"
proof -
  have le: "n \<le> 2 ^ 53" using assms by simp
  then have "(of_int n :: rat) \<le> of_int (2 ^ 53)" by (simp only: of_int_le_iff)
  then have "(of_int n :: rat) \<le> 2 ^ 1000" by simp
  with assms le show ?thesis by (simp add: f64_of_int_def to_f64_Finite rnd_of_int)
qed

lemma one_fifth_threshold:
  fixes m t :: int
  assumes "0 \<le> m" "0 < t" "t < 2 ^ 31"
  shows "rnd (of_int m / of_int t) \<le> rnd (1 / 5) \<longleftrightarrow> 5 * m \<le> t"
proof
  assume "5 * m \<le> t"
  then have "(of_int (5 * m) :: rat) \<le> of_int t" by (simp only: of_int_le_iff)
  then have "of_int m / of_int t \<le> (1 / 5 :: rat)" using assms by (simp add: divide_simps)
  then show "rnd (of_int m / of_int t) \<le> rnd (1 / 5)" using assms by (intro rnd_mono) simp_all
next
  assume le: "rnd (of_int m / of_int t) \<le> rnd (1 / 5)"
  show "5 * m \<le> t"
  proof (rule ccontr)
    assume "\<not> 5 * m \<le> t"
    then have "t + 1 \<le> 5 * m" by simp
    then have "(of_int (t + 1) :: rat) \<le> of_int (5 * m)" by (simp only: of_int_le_iff)
    then have m: "(of_int t + 1 :: rat) \<le> 5 * of_int m" by simp
    have "(of_int t :: rat) < of_int (2 ^ 31)" using assms(3) by (simp only: of_int_less_iff)
    then have t: "(of_int t :: rat) < 2 ^ 31" by simp
    have t0: "(0 :: rat) < of_int t" using assms by simp
    define c :: rat where "c = 1 / 2 ^ 50"
    have "225179981368526 * c \<le> 1 / 5 + 1 / (5 * of_int t)"
    proof -
      have "1 / (5 * 2 ^ 31) \<le> 1 / (5 * (of_int t :: rat))" using t t0 by (intro divide_left_mono) auto
      moreover have "(225179981368526 :: rat) * c \<le> 1 / 5 + 1 / (5 * 2 ^ 31)" by (simp add: c_def)
      ultimately show ?thesis by linarith
    qed
    also have "\<dots> = (of_int t + 1) / (5 * of_int t)" using t0 by (simp add: divide_simps)
    also have "\<dots> \<le> of_int m / of_int t" using m t0 by (simp add: divide_simps)
    finally have up: "225179981368526 * c \<le> of_int m / of_int t" .
    have exact: "rnd (of_int n * c) = of_int n * c" if "0 < n" "n \<le> 2 ^ 53" for n
      using rnd_exact [of n "- 50"] that by (simp add: c_def pow2_def)
    have "rnd (1 / 5) \<le> rnd (225179981368526 * c - c)"
      by (intro rnd_mono) (simp_all add: c_def)
    also have "\<dots> = 225179981368525 * c" using exact [of 225179981368525] by (simp add: c_def)
    also have "\<dots> < 225179981368526 * c" by (simp add: c_def)
    also have "\<dots> = rnd (225179981368526 * c)" using exact [of 225179981368526] by simp
    also have "\<dots> \<le> rnd (of_int m / of_int t)" using up by (intro rnd_mono) (simp_all add: c_def)
    finally show False using le by simp
  qed
qed

lemma DetectUnavailability_threshold:
  assumes "0 \<le> m" "m < 2 ^ 31" "0 < t" "t < 2 ^ 31"
  shows "f64_le (f64_div (f64_of_int m) (f64_of_int t)) (to_f64 (1 / 5)) \<longleftrightarrow> 5 * m \<le> t"
proof -
  have "of_int m / of_int t \<le> (of_int m :: rat)"
    using assms mult_left_mono [of 1 "of_int t" "of_int m :: rat"] by (simp add: divide_le_eq)
  moreover have "(of_int m :: rat) \<le> of_int (2 ^ 31)" using assms(2) by (simp only: of_int_le_iff)
  ultimately have "of_int m / of_int t \<le> (2 ^ 1000 :: rat)" by simp
  then have "f64_div (f64_of_int m) (f64_of_int t) = Finite (rnd (of_int m / of_int t))"
    using assms by (simp add: f64_of_count to_f64_Finite)
  moreover have "to_f64 (1 / 5) = Finite (rnd (1 / 5))" by (rule to_f64_Finite) simp_all
  ultimately show ?thesis using one_fifth_threshold [OF assms(1,3,4)] by simp
qed

lemma DetectUnavailability_zero:
  "0 \<le> m \<Longrightarrow> m < 2 ^ 31 \<Longrightarrow> \<not> f64_le (f64_div (f64_of_int m) (f64_of_int 0)) (to_f64 (1 / 5))"
  using to_f64_Finite [of "1 / 5"] by (simp add: f64_of_count inf_of_sign_def)


section \<open>Penalties\<close>

definition expected_penalty :: "SlashingCondition \<Rightarrow> CAmount \<Rightarrow> CAmount" where
  "expected_penalty c a =
     (if c = 1 then a div 2 else if c = 2 then a else if c = 3 then a div 20
      else if c = 4 then a div 4 else if c = 5 then 2 * a div 5 else 0)"

lemma CalculateSlashingPenalty_expected:
  assumes "RBT.lookup (mapValidators s) k = Some v" "0 \<le> v_nStakeAmount v" "2 * v_nStakeAmount v \<le> INT64_MAX"
  shows "CalculateSlashingPenalty k c s = Some (expected_penalty c (v_nStakeAmount v))"
proof -
  let ?a = "v_nStakeAmount v"
  have le: "?a div 2 \<le> ?a" "?a div 20 \<le> ?a" "?a div 4 \<le> ?a" "2 * ?a div 5 \<le> ?a"
    using assms(2) by linarith+
  have "i64 (?a * 2) = Some (2 * ?a)"
    using assms by (simp add: i64_Some in_i64_def INT64_MAX_def mult.commute)
  then show ?thesis
    using assms le
    by (simp add: CalculateSlashingPenalty_def GetValidator_def slashing_conditions expected_penalty_def
        sdiv_nonneg)
qed

lemma expected_penalty_le: "0 \<le> a \<Longrightarrow> 0 \<le> expected_penalty c a \<and> expected_penalty c a \<le> a"
  by (auto simp: expected_penalty_def)

lemma SlashValidator_effect:
  assumes "GetValidator k s = Some v" "0 \<le> v_nStakeAmount v" "2 * v_nStakeAmount v \<le> INT64_MAX"
    and "\<not> IsValidatorSlashed k s"
  shows "SlashValidator now k c s =
    (let p = expected_penalty c (v_nStakeAmount v)
     in Some (if p = 0 then (False, s) else (True, slash_effect now k c p v s)))"
proof -
  let ?p = "expected_penalty c (v_nStakeAmount v)"
  have lookup: "RBT.lookup (mapValidators s) k = Some v" "RBT.lookup (mapSlashedValidators s) k = None"
    using assms by (simp_all add: GetValidator_def IsValidatorSlashed_def)
  have pen: "CalculateSlashingPenalty k c s = Some ?p"
    using CalculateSlashingPenalty_expected [OF lookup(1) assms(2,3)] .
  have "0 \<le> ?p" "?p \<le> v_nStakeAmount v" using expected_penalty_le [OF assms(2)] by auto
  moreover from this have "i64 (v_nStakeAmount v - ?p) = Some (v_nStakeAmount v - ?p)"
    using assms(3) by (simp add: i64_Some in_i64_def INT64_MAX_def)
  ultimately show ?thesis
    using lookup pen
    by (simp add: SlashValidator_def IsValidatorRegistered_def GetValidator_def UpdateValidatorStake_def
        SetValidatorStatus_def slash_effect_def Let_def)
qed

section \<open>Properties\<close>

text \<open>
  C10: in every state the operations can reach, the containers agree: a registered validator is stored
  under its own key and its status entry is its activity flag, there is no status without a validator,
  the slashing time and the penalty are recorded for the same keys, every blacklisted key has been
  slashed, and a lock is stored under the outpoint it locks.
\<close>

theorem pos_reachable_invariant:
  assumes "pos_step\<^sup>*\<^sup>* pos_init s"
  shows "pos_inv s"
  using assms by (rule pos_reachable_inv)

theorem pos_reachable_invariant_witness:
  "pos_inv (snd (RegisterValidator 7 (CPubKey_Set (2 # replicate 32 1)) (10 * COIN) [1] [] pos_init))"
  by (rule pos_reachable_invariant, rule r_into_rtranclp, rule pos_step.RegisterValidator)
    (rule prod.collapse [symmetric])


definition slashed_example :: pos_state where
  "slashed_example = pos_init\<lparr>mapSlashedValidators := RBT.insert (CPubKey [2]) 5 RBT.empty,
     mapSlashPenalties := RBT.insert (CPubKey [2]) 9 RBT.empty\<rparr>"


text \<open>
  the effect of slashing a registered validator that was not slashed before, for a stake the code
  can double: the penalty is half the stake for double signing, all of it for a long-range attack, a
  twentieth, a quarter and two fifths for the other conditions and nothing for a value that is none of
  them; with no penalty nothing changes, otherwise the stake is reduced by the penalty and stays
  non-negative, the validator is inactive, time and penalty are recorded, and exactly the two severe
  conditions put it on the blacklist.
\<close>

theorem slash_validator_effect:
  assumes "GetValidator k s = Some v" "0 \<le> v_nStakeAmount v" "2 * v_nStakeAmount v \<le> INT64_MAX"
    and "\<not> IsValidatorSlashed k s"
  shows "(expected_penalty c (v_nStakeAmount v) = 0 \<longrightarrow> SlashValidator now k c s = Some (False, s)) \<and>
    (expected_penalty c (v_nStakeAmount v) \<noteq> 0 \<longrightarrow>
      (\<exists>s'. SlashValidator now k c s = Some (True, s') \<and>
        GetValidator k s' = Some (v\<lparr>v_nStakeAmount := v_nStakeAmount v - expected_penalty c (v_nStakeAmount v),
          v_fActive := False\<rparr>) \<and>
        0 \<le> v_nStakeAmount v - expected_penalty c (v_nStakeAmount v) \<and>
        \<not> IsValidatorActive k s' \<and>
        GetSlashingInfo k s' = Some (now, expected_penalty c (v_nStakeAmount v)) \<and>
        (\<forall>k'. IsValidatorBlacklisted k' s' \<longleftrightarrow>
           IsValidatorBlacklisted k' s \<or> (k' = k \<and> c \<in> {1, 2})) \<and>
        (\<forall>k'. k' \<noteq> k \<longrightarrow> GetValidator k' s' = GetValidator k' s \<and>
           IsValidatorActive k' s' = IsValidatorActive k' s) \<and>
        mapStakeLocks s' = mapStakeLocks s))"
  using SlashValidator_effect [OF assms, unfolded Let_def] expected_penalty_le [OF assms(2)] assms(1)
  by (auto simp: slash_effect_def GetValidator_def IsValidatorActive_def GetSlashingInfo_def
      IsValidatorBlacklisted_def slashing_conditions)

theorem slash_validator_effect_witness:
  "\<exists>s'. SlashValidator 100 (CPubKey [2]) SLASH_EQUIVOCATION
      (snd (RegisterValidator 0 (CPubKey [2]) 1000 [] [] pos_init)) = Some (True, s') \<and>
    GetSlashingInfo (CPubKey [2]) s' = Some (100, 400)"
proof -
  let ?s = "snd (RegisterValidator 0 (CPubKey [2]) 1000 [] [] pos_init)"
  let ?v = "\<lparr>v_pubkey = CPubKey [2], v_nStakeAmount = 1000, v_nRegistrationTime = 0, v_fActive = True\<rparr>"
  have "GetValidator (CPubKey [2]) ?s = Some ?v" "\<not> IsValidatorSlashed (CPubKey [2]) ?s"
    by (simp_all add: GetValidator_def RegisterValidator_def pos_init_def IsValidatorSlashed_def)
  from slash_validator_effect [OF this(1) _ _ this(2), of SLASH_EQUIVOCATION 100] show ?thesis
    by (auto simp: INT64_MAX_def expected_penalty_def slashing_conditions)
qed

text \<open>
  blacklisting keeps nobody out: in every reachable state a blacklisted validator can leave the
  registry and register again with any stake; it is then active while still on the blacklist, and no
  later offence can be punished, since its old slashing record makes every new slashing fail.
\<close>

theorem blacklisted_validator_returns:
  assumes "pos_step\<^sup>*\<^sup>* pos_init s" "IsValidatorBlacklisted k s"
  shows "\<exists>s'. pos_step\<^sup>*\<^sup>* s s' \<and> IsValidatorBlacklisted k s' \<and> IsValidatorActive k s' \<and>
    (\<forall>now c. SlashValidator now k c s' = Some (False, s'))"
proof -
  define r where "r = snd (RemoveValidator k s)"
  define s' where "s' = snd (RegisterValidator 0 k 0 [] [] r)"
  have "RBT.lookup (mapSlashedValidators s) k \<noteq> None"
    using pos_reachable_inv [OF assms(1)] assms(2)
    by (auto simp: pos_inv_def slashing_inv_def IsValidatorBlacklisted_def simp del: not_None_eq)
  then obtain t where "RBT.lookup (mapSlashedValidators s) k = Some t" by blast
  then have slashed: "RBT.lookup (mapSlashedValidators s') k = Some t"
    by (simp add: s'_def r_def RemoveValidator_def RegisterValidator_def)
  have "IsValidatorBlacklisted k s'" "IsValidatorActive k s'"
    using assms(2)
    by (simp_all add: s'_def r_def RemoveValidator_def RegisterValidator_def IsValidatorBlacklisted_def
        IsValidatorActive_def)
  moreover have "SlashValidator now k c s' = Some (False, s')" for now c
    using slashed by (simp add: SlashValidator_def)
  moreover have "pos_step s r" "pos_step r s'"
    unfolding r_def s'_def
    by (rule pos_step.RemoveValidator, rule prod.collapse [symmetric])
      (rule pos_step.RegisterValidator, rule prod.collapse [symmetric])
  then have "pos_step\<^sup>*\<^sup>* s s'" by (meson converse_rtranclp_into_rtranclp r_into_rtranclp)
  ultimately show ?thesis by blast
qed

theorem blacklisted_validator_returns_witness:
  "\<exists>s'. IsValidatorBlacklisted (CPubKey [2]) s' \<and> IsValidatorActive (CPubKey [2]) s'"
proof -
  define s where "s = snd (RegisterValidator 0 (CPubKey [2]) 1000 [] [] pos_init)"
  let ?v = "\<lparr>v_pubkey = CPubKey [2], v_nStakeAmount = 1000, v_nRegistrationTime = 0, v_fActive = True\<rparr>"
  have s: "GetValidator (CPubKey [2]) s = Some ?v" "\<not> IsValidatorSlashed (CPubKey [2]) s"
    by (simp_all add: s_def GetValidator_def RegisterValidator_def pos_init_def IsValidatorSlashed_def)
  define t where "t = slash_effect 5 (CPubKey [2]) 1 500 ?v s"
  have "SlashValidator 5 (CPubKey [2]) 1 s = Some (True, t)"
    using SlashValidator_effect [OF s(1) _ _ s(2), of 5 1]
    by (simp add: INT64_MAX_def expected_penalty_def t_def)
  then have "pos_step s t" by (rule pos_step.SlashValidator)
  moreover have "pos_step pos_init s"
    unfolding s_def by (rule pos_step.RegisterValidator, rule prod.collapse [symmetric])
  ultimately have "pos_step\<^sup>*\<^sup>* pos_init t" by (meson converse_rtranclp_into_rtranclp r_into_rtranclp)
  moreover have "IsValidatorBlacklisted (CPubKey [2]) t"
    by (simp add: t_def slash_effect_def IsValidatorBlacklisted_def slashing_conditions)
  ultimately show ?thesis using blacklisted_validator_returns [of t "CPubKey [2]"] by blast
qed

text \<open>
  the queries over the active validators agree with each other in every reachable state: the list
  holds exactly the registered validators whose flag is set, in increasing order of their keys, the
  count is its length, and the total stake is the sum of its stakes unless that sum overflows.
\<close>

theorem active_validators_consistent:
  assumes "pos_inv s"
  shows "set (GetActiveValidators s) = {v. GetValidator (v_pubkey v) s = Some v \<and> v_fActive v} \<and>
    sorted_wrt (<) (map v_pubkey (GetActiveValidators s)) \<and>
    GetActiveValidatorCount s = length (GetActiveValidators s) \<and>
    (\<forall>t. GetTotalActiveStake s = Some t \<longrightarrow> t = sum_list (map v_nStakeAmount (GetActiveValidators s)))"
  using assms set_GetActiveValidators sorted_keys_GetActiveValidators GetActiveValidatorCount_length
    GetTotalActiveStake_sum [of s]
  by (auto simp: pos_inv_def GetValidator_def dest: sum_i64_Some)

theorem active_validators_consistent_witness:
  "GetActiveValidatorCount pos_init = length (GetActiveValidators pos_init)"
  using active_validators_consistent [OF pos_init_inv] by blast

text \<open>
  the floating-point threshold of \<open>DetectUnavailability\<close> is exact: for block counts that fit an
  \<open>int\<close>, a validator is within the limit exactly when it missed at most one block in five, however
  the quotient rounds; but with no blocks at all the limit is exceeded whatever was missed, because the
  comparison with infinity or with not-a-number fails.
\<close>

theorem unavailability_threshold:
  assumes "0 \<le> m" "m < 2 ^ 31" "0 \<le> t" "t < 2 ^ 31"
  shows "DetectUnavailability now k m t s =
    (if 0 < t \<and> 5 * m \<le> t then Some (False, s) else SlashValidator now k SLASH_UNAVAILABILITY s)"
  using assms DetectUnavailability_threshold [of m t] DetectUnavailability_zero [of m]
  by (auto simp: DetectUnavailability_def Let_def le_less)

theorem unavailability_threshold_witness:
  "DetectUnavailability 0 (CPubKey [2]) 2 10 pos_init = Some (False, pos_init)"
  using unavailability_threshold [of 2 10] by simp

end
