(* ===== verification/StakingTx.thy ===== *)
theory StakingTx
  imports StakingInvariant
begin

text \<open>
  The validation of staking transactions in \<open>src/pos.cpp\<close>: the dispatch on the transaction type with
  the deserialization of the payload, the rules of the three kinds, and \<open>CheckProofOfStake\<close> for a
  block. \<open>None\<close> is a signed overflow; a payload that does not deserialize makes the transaction invalid.
\<close>

section \<open>Rules of the three transactions\<close>

definition ValidateStakeTransaction ::
  "CTransaction \<Rightarrow> CStakeTransactionPayload \<Rightarrow> params \<Rightarrow> bool option"
where
  "ValidateStakeTransaction tx payload consensusParams =
     (if sp_nStakeAmount payload < nMinStakeAmount consensusParams then Some False
      else if sp_nLockTime payload < nStakeMinAge consensusParams then Some False
      else if sp_nLockTime payload > nStakeMaxAge consensusParams then Some False
      else if \<not> CPubKey_IsValid (sp_stakePubKey payload) then Some False
      else do {
        totalOutput \<leftarrow> sum_i64 (map out_nValue (vout tx)) 0;
        if totalOutput \<noteq> sp_nStakeAmount payload then Some False else Some True
      })"

definition ValidateUnstakeTransaction ::
  "int \<Rightarrow> CTransaction \<Rightarrow> CUnstakeTransactionPayload \<Rightarrow> pos_state \<Rightarrow> bool"
where
  "ValidateUnstakeTransaction now tx payload s =
     (case GetStakeLock (up_stakeOutpoint payload) s of
        None \<Rightarrow> False
      | Some stakeLock \<Rightarrow>
          if \<not> CStakeLock_IsExpired stakeLock now then False
          else if sl_ownerPubKey stakeLock \<noteq> up_stakePubKey payload then False
          else True)"

definition ValidateValidatorRegistration ::
  "CTransaction \<Rightarrow> CValidatorRegistrationPayload \<Rightarrow> params \<Rightarrow> pos_state \<Rightarrow> bool option"
where
  "ValidateValidatorRegistration tx payload consensusParams s =
     do {
       minimum \<leftarrow> i64 (nMinStakeAmount consensusParams * 10);
       if vp_nStakeAmount payload < minimum then Some False
       else if \<not> CPubKey_IsValid (vp_validatorPubKey payload) then Some False
       else if IsValidatorRegistered (vp_validatorPubKey payload) s then Some False
       else if vp_rewardScript payload = [] then Some False
       else if length (vp_strDescription payload) > 256 then Some False
       else do {
         totalOutput \<leftarrow> sum_i64 (map out_nValue (vout tx)) 0;
         if totalOutput < vp_nStakeAmount payload then Some False else Some True
       }
     }"

text \<open>The payload is read from the start of the extra bytes; what follows it is not looked at.\<close>

definition ValidateStakingTransaction ::
  "int \<Rightarrow> CTransaction \<Rightarrow> params \<Rightarrow> pos_state \<Rightarrow> bool option"
where
  "ValidateStakingTransaction now tx consensusParams s =
     (if vin tx = [] \<or> vout tx = [] then Some False
      else if nType tx = TRANSACTION_STAKE then
        if vExtraPayload tx = [] then Some False
        else case read_stake_payload (vExtraPayload tx) of
          Inl e \<Rightarrow> Some False
        | Inr (payload, rest) \<Rightarrow> ValidateStakeTransaction tx payload consensusParams
      else if nType tx = TRANSACTION_UNSTAKE then
        if vExtraPayload tx = [] then Some False
        else case read_unstake_payload (vExtraPayload tx) of
          Inl e \<Rightarrow> Some False
        | Inr (payload, rest) \<Rightarrow> Some (ValidateUnstakeTransaction now tx payload s)
      else if nType tx = TRANSACTION_VALIDATOR_REGISTER then
        if vExtraPayload tx = [] then Some False
        else case read_registration_payload (vExtraPayload tx) of
          Inl e \<Rightarrow> Some False
        | Inr (payload, rest) \<Rightarrow> ValidateValidatorRegistration tx payload consensusParams s
      else Some True)"

section \<open>Blocks\<close>

text \<open>The fields of a block and of its predecessor that the check reads; times are 32 bits unsigned.\<close>

record CBlock =
  vtx :: "CTransaction list"
  nTime :: u32

definition CheckProofOfStake :: "int \<Rightarrow> CBlock \<Rightarrow> u32 \<Rightarrow> params \<Rightarrow> bool option" where
  "CheckProofOfStake now block prev_nTime consensusParams =
     (if vtx block = [] then Some False
      else
        let hasStakingTx = list_ex (\<lambda>tx. nType tx = TRANSACTION_STAKE \<or>
              nType tx = TRANSACTION_VALIDATOR_REGISTER) (vtx block)
        in if \<not> hasStakingTx then Some True
           else if nTime block \<le> prev_nTime then Some False
           else do {
             d \<leftarrow> i64 (nStakeTargetSpacing consensusParams * 2);
             limit \<leftarrow> i64 (now + d);
             if uint (nTime block) > limit then Some False else Some True
           })"

section \<open>Lemmas\<close>

lemma sum_i64_eq: "sum_i64 xs 0 = Some y \<Longrightarrow> y = sum_list xs"
  using sum_i64_Some [of xs 0 y] by simp

lemma ValidateStakeTransaction_iff:
  "ValidateStakeTransaction tx payload P = Some True \<longleftrightarrow>
    nMinStakeAmount P \<le> sp_nStakeAmount payload \<and>
    nStakeMinAge P \<le> sp_nLockTime payload \<and> sp_nLockTime payload \<le> nStakeMaxAge P \<and>
    CPubKey_IsValid (sp_stakePubKey payload) \<and>
    sum_i64 (map out_nValue (vout tx)) 0 = Some (sp_nStakeAmount payload)"
  by (auto simp: ValidateStakeTransaction_def bind_eq_Some_conv split: if_splits)

lemma ValidateUnstakeTransaction_iff:
  "ValidateUnstakeTransaction now tx payload s \<longleftrightarrow>
    (\<exists>l. GetStakeLock (up_stakeOutpoint payload) s = Some l \<and> sl_nLockTime l \<le> now \<and>
       sl_ownerPubKey l = up_stakePubKey payload)"
  by (auto simp: ValidateUnstakeTransaction_def CStakeLock_IsExpired_def split: option.splits)

section \<open>Properties\<close>

text \<open>
  C14: the life of a stake. A stake transaction that passes validation (in particular through the
  dispatch, on the bytes of its payload) and is processed on a fresh output locks exactly its first output for the lock time of
  the payload: while the clock has not reached the end, every unstake of that output is invalid, and the
  output counts as locked; from then on the unstake by the owner, and by nobody else, is valid, and
  processing it removes this lock and no other.
\<close>

theorem stake_lifecycle:
  assumes "read_stake_payload (vExtraPayload tx) = Inr (p, rest)" "nType tx = TRANSACTION_STAKE"
    and "ValidateStakingTransaction now tx P s = Some True"
    and "GetStakeLock (COutPoint (tx_hash tx) 0) s = None" "in_i64 (now + sp_nLockTime p)"
    and "0 \<le> nStakeMinAge P"
  shows "\<exists>s'. ProcessStakeTransaction now tx p s = Some (True, s') \<and>
    nMinStakeAmount P \<le> sp_nStakeAmount p \<and> sum_list (map out_nValue (vout tx)) = sp_nStakeAmount p \<and>
    (\<forall>t u tx'. up_stakeOutpoint u = COutPoint (tx_hash tx) 0 \<longrightarrow>
       ValidateUnstakeTransaction t tx' u s' =
         (now + sp_nLockTime p \<le> t \<and> up_stakePubKey u = sp_stakePubKey p)) \<and>
    (\<forall>t. t \<noteq> 0 \<longrightarrow> IsStakeLocked now (COutPoint (tx_hash tx) 0) t s' = (t < now + sp_nLockTime p)) \<and>
    (\<forall>u tx'. up_stakeOutpoint u = COutPoint (tx_hash tx) 0 \<longrightarrow>
       (\<exists>s''. ProcessUnstakeTransaction tx' u s' = (True, s'') \<and>
          (\<forall>q. GetStakeLock q s'' = GetStakeLock q s)))"
proof -
  let ?q = "COutPoint (tx_hash tx) 0"
  have valid: "ValidateStakeTransaction tx p P = Some True" and out: "vout tx \<noteq> []"
    using assms(1-3) by (auto simp: ValidateStakingTransaction_def transaction_types split: if_splits)
  let ?l = "\<lparr>sl_outpoint = ?q, sl_nLockTime = now + sp_nLockTime p, sl_nAmount = sp_nStakeAmount p,
    sl_ownerPubKey = sp_stakePubKey p\<rparr>"
  let ?s' = "s\<lparr>mapStakeLocks := RBT.insert ?q ?l (mapStakeLocks s)\<rparr>"
  have "ProcessStakeTransaction now tx p s = Some (True, ?s')"
    using out assms(4,5)
    by (simp add: ProcessStakeTransaction_def CreateStakeLock_def GetStakeLock_def i64_Some Let_def)
  moreover have "nMinStakeAmount P \<le> sp_nStakeAmount p \<and> sum_list (map out_nValue (vout tx)) = sp_nStakeAmount p"
    using valid sum_i64_eq by (force simp: ValidateStakeTransaction_iff)
  moreover have "GetStakeLock ?q ?s' = Some ?l" by (simp add: GetStakeLock_def)
  then have "ValidateUnstakeTransaction t tx' u ?s' =
      (now + sp_nLockTime p \<le> t \<and> up_stakePubKey u = sp_stakePubKey p)"
    if "up_stakeOutpoint u = ?q" for t u tx'
    using that by (auto simp: ValidateUnstakeTransaction_iff)
  moreover have "IsStakeLocked now ?q t ?s' = (t < now + sp_nLockTime p)" if "t \<noteq> 0" for t
    using that by (auto simp: IsStakeLocked_def CStakeLock_IsExpired_def)
  moreover have "\<exists>s''. ProcessUnstakeTransaction tx' u ?s' = (True, s'') \<and>
      (\<forall>q. GetStakeLock q s'' = GetStakeLock q s)" if "up_stakeOutpoint u = ?q" for u tx'
    using that assms(4) by (simp add: ProcessUnstakeTransaction_def RemoveStakeLock_def GetStakeLock_def)
  ultimately show ?thesis by blast
qed

definition example_payload :: CStakeTransactionPayload where
  "example_payload = \<lparr>sp_nStakeAmount = 5 * COIN, sp_stakePubKey = CPubKey_Set (2 # replicate 32 7),
     sp_nLockTime = 28800\<rparr>"

definition example_stake :: CTransaction where
  "example_stake = \<lparr>tx_hash = UInt256 (replicate 32 3), nVersion = 3, nType = 10, vin = [\<lparr>prevout = COutPoint_null, scriptSig = [], nSequence = 0\<rparr>],
     vout = [\<lparr>out_nValue = 5 * COIN, scriptPubKey = [0x51]\<rparr>],
     nLockTime = 0, vExtraPayload = write_stake_payload example_payload\<rparr>"

lemma example_payload_ok: "stake_payload_ok example_payload"
  by (simp add: stake_payload_ok_def example_payload_def CPubKey_Set_wf in_i64_def INT64_MAX_def COIN_def)

theorem stake_lifecycle_witness:
  "\<exists>s'. ProcessStakeTransaction 1000 example_stake example_payload pos_init = Some (True, s')"
proof -
  have read: "read_stake_payload (vExtraPayload example_stake) = Inr (example_payload, [])"
    using stake_payload.read_end [OF example_payload_ok] by (simp add: example_stake_def)
  moreover have "write_stake_payload example_payload \<noteq> []"
    by (simp add: write_stake_payload_def write_i64_def ser_writedata64_def flip: length_0_conv)
  moreover have "ValidateStakeTransaction example_stake example_payload default_params = Some True"
    by (simp add: ValidateStakeTransaction_def example_payload_def example_stake_def default_params_def
        COIN_def CPubKey_IsValid_def CPubKey_Set_def GetLen_def i64_def in_i64_def INT64_MAX_def)
  ultimately have valid: "ValidateStakingTransaction 1000 example_stake default_params pos_init = Some True"
    by (simp add: ValidateStakingTransaction_def transaction_types example_stake_def)
  from stake_lifecycle [OF read _ valid] show ?thesis
    by (auto simp: example_stake_def transaction_types GetStakeLock_def pos_init_def in_i64_def
        INT64_MAX_def example_payload_def default_params_def)
qed

text \<open>
  every error of the payload is an answer, never a crash: validation of a staking transaction with
  no inputs or outputs, without a payload, or with a payload that does not deserialize is false, of any
  other type it is true; and the only undefined arithmetic left is an overflow of the sum of the
  outputs (or of ten times the minimum stake), which outputs within the money range of a transaction of
  fewer than ninety outputs cannot cause.
\<close>

theorem staking_validation_total:
  assumes "\<forall>o' \<in> set (vout tx). MoneyRange (out_nValue o')" "length (vout tx) \<le> 90"
    and "in_i64 (nMinStakeAmount P * 10)"
  shows "(\<exists>b. ValidateStakingTransaction now tx P s = Some b) \<and>
    (vin tx = [] \<or> vout tx = [] \<longrightarrow> ValidateStakingTransaction now tx P s = Some False) \<and>
    (vin tx \<noteq> [] \<and> vout tx \<noteq> [] \<and> nType tx \<notin> {10, 11, 12} \<longrightarrow>
      ValidateStakingTransaction now tx P s = Some True) \<and>
    (nType tx = 10 \<and> (vExtraPayload tx = [] \<or> (\<exists>e. read_stake_payload (vExtraPayload tx) = Inl e)) \<longrightarrow>
      ValidateStakingTransaction now tx P s = Some False) \<and>
    (nType tx = 11 \<and> (vExtraPayload tx = [] \<or> (\<exists>e. read_unstake_payload (vExtraPayload tx) = Inl e)) \<longrightarrow>
      ValidateStakingTransaction now tx P s = Some False) \<and>
    (nType tx = 12 \<and> (vExtraPayload tx = [] \<or> (\<exists>e. read_registration_payload (vExtraPayload tx) = Inl e)) \<longrightarrow>
      ValidateStakingTransaction now tx P s = Some False)"
proof -
  have "\<forall>x \<in> set (map out_nValue (vout tx)). 0 \<le> x \<and> x \<le> MAX_MONEY"
    using assms(1) by (auto simp: MoneyRange_def)
  moreover have "sum_list xs \<le> int (length xs) * MAX_MONEY" if "\<forall>x \<in> set xs. x \<le> MAX_MONEY" for xs
    using that by (induction xs) (auto simp: algebra_simps)
  ultimately have "sum_list (map out_nValue (vout tx)) \<le> int (length (vout tx)) * MAX_MONEY" by fastforce
  also have "\<dots> \<le> 90 * MAX_MONEY" using assms(2) by (simp add: MAX_MONEY_def COIN_def)
  finally have "sum_list (map out_nValue (vout tx)) \<le> INT64_MAX"
    by (simp add: MAX_MONEY_def COIN_def INT64_MAX_def)
  then have sum: "sum_i64 (map out_nValue (vout tx)) 0 = Some (sum_list (map out_nValue (vout tx)))"
    using assms(1) sum_i64_nonneg [of "map out_nValue (vout tx)" 0] by (simp add: MoneyRange_def)
  have "\<exists>b. ValidateStakeTransaction tx p P = Some b" for p
    by (auto simp: ValidateStakeTransaction_def sum)
  moreover have "\<exists>b. ValidateValidatorRegistration tx p P s = Some b" for p
    using assms(3) by (auto simp: ValidateValidatorRegistration_def sum i64_Some)
  ultimately show ?thesis
    by (auto simp: ValidateStakingTransaction_def transaction_types split: sum.splits)
qed

theorem staking_validation_total_witness:
  "\<exists>b. ValidateStakingTransaction 0 example_stake default_params pos_init = Some b"
  by (rule staking_validation_total [THEN conjunct1])
    (simp_all add: example_stake_def MoneyRange_def MAX_MONEY_def COIN_def in_i64_def INT64_MAX_def
      default_params_def)


definition example_registration :: CValidatorRegistrationPayload where
  "example_registration = \<lparr>vp_validatorPubKey = CPubKey_Set (3 # replicate 32 9),
     vp_nStakeAmount = 10 * COIN, vp_rewardScript = [0x51], vp_strDescription = []\<rparr>"


text \<open>
  what \<open>CheckProofOfStake\<close> accepts: every block with a transaction but without stake and registration
  transactions, whatever its time; any other block exactly when it is later than its predecessor and at
  most two target spacings in the future. No signature and no validator is looked at.
\<close>

theorem check_proof_of_stake_rules:
  assumes "0 \<le> now" "now \<le> 2 ^ 62" "0 \<le> nStakeTargetSpacing P" "nStakeTargetSpacing P \<le> 2 ^ 60"
  shows "CheckProofOfStake now block prev P = Some (vtx block \<noteq> [] \<and>
    ((\<forall>tx \<in> set (vtx block). nType tx \<noteq> 10 \<and> nType tx \<noteq> 12) \<or>
     (prev < nTime block \<and> uint (nTime block) \<le> now + 2 * nStakeTargetSpacing P)))"
proof -
  have "in_i64 (nStakeTargetSpacing P * 2)" "in_i64 (now + nStakeTargetSpacing P * 2)"
    using assms by (simp_all add: in_i64_def INT64_MAX_def)
  then show ?thesis
    by (auto simp: CheckProofOfStake_def transaction_types i64_Some list_ex_iff not_le mult.commute)
qed

theorem check_proof_of_stake_rules_witness:
  "CheckProofOfStake 100 \<lparr>vtx = [example_stake], nTime = 401\<rparr> 50 default_params = Some False"
  using check_proof_of_stake_rules [of 100 default_params "\<lparr>vtx = [example_stake], nTime = 401\<rparr>" 50]
  by (simp add: default_params_def example_stake_def)

end
