(* ===== verification/StakingRewards.thy ===== *)
theory StakingRewards
  imports StakingTypes Float64
begin

text \<open>
  The rewards of stakers: \<open>CalculateStakeReward\<close>, \<open>DistributeStakingRewards\<close> and the supply queries of
  \<open>src/pos.cpp\<close>, and the individual rewards, the distribution and the statistics of
  \<open>src/validation.cpp\<close>. \<open>None\<close> is a signed overflow, a division by zero, or the conversion of a
  \<open>double\<close> that does not fit 64 bits.
\<close>

section \<open>Rewards of \<open>pos.cpp\<close>\<close>

text \<open>The bonus for the age of a stake.\<close>

definition stake_duration_multiplier :: "int \<Rightarrow> params \<Rightarrow> float64 option" where
  "stake_duration_multiplier stakeDuration consensusParams =
     (if stakeDuration \<ge> nStakeMinAge consensusParams then do {
        d \<leftarrow> i64 (stakeDuration - nStakeMinAge consensusParams);
        bonusDays \<leftarrow> div_i64 d (24 * 60 * 60);
        let m = f64_add (Finite 1) (f64_mult (f64_of_int bonusDays) (to_f64 (1 / 1000)));
        Some (if f64_greater m (to_f64 (11 / 10)) then to_f64 (11 / 10) else m)
      } else Some (Finite 1))"

definition CalculateStakeReward :: "CAmount \<Rightarrow> int \<Rightarrow> params \<Rightarrow> CAmount option" where
  "CalculateStakeReward stakeAmount stakeDuration consensusParams =
     (let baseReward = nInitialBlockReward consensusParams
      in if stakeAmount < nMinStakeAmount consensusParams then Some 0
         else do {
           let stakeWeight = f64_div (f64_of_int stakeAmount) (f64_of_int (nMinStakeAmount consensusParams));
           durationMultiplier \<leftarrow> stake_duration_multiplier stakeDuration consensusParams;
           reward \<leftarrow> f64_to_i64 (f64_mult (f64_mult (f64_of_int baseReward) stakeWeight) durationMultiplier);
           maxReward \<leftarrow> i64 (baseReward * 10);
           Some (if reward > maxReward then maxReward else reward)
         })"

text \<open>
  The first loop adds the stakes, the second computes the shares and their sum, the third finds the
  largest stake; the result is the return value and the final contents of the reference \<open>rewards\<close>.
\<close>

definition largest_stake_index :: "CAmount list \<Rightarrow> nat" where
  "largest_stake_index stakes =
     fold (\<lambda>i largest. if stakes ! i > stakes ! largest then i else largest) [1..<length stakes] 0"

primrec distribute_shares ::
  "CAmount \<Rightarrow> CAmount \<Rightarrow> CAmount list \<Rightarrow> CAmount list \<Rightarrow> CAmount \<Rightarrow> (CAmount list \<times> CAmount) option"
where
  "distribute_shares totalReward totalStake [] rewards distributed = Some (rewards, distributed)"
| "distribute_shares totalReward totalStake (v # vs) rewards distributed = do {
     m \<leftarrow> i64 (totalReward * v);
     validatorReward \<leftarrow> div_i64 m totalStake;
     distributed \<leftarrow> i64 (distributed + validatorReward);
     distribute_shares totalReward totalStake vs (rewards @ [validatorReward]) distributed
   }"

definition pos_DistributeStakingRewards ::
  "CAmount list \<Rightarrow> CAmount \<Rightarrow> CAmount list \<Rightarrow> (bool \<times> CAmount list) option"
where
  "pos_DistributeStakingRewards validators totalReward rewards =
     (if validators = [] then Some (False, rewards)
      else do {
        totalStake \<leftarrow> sum_i64 validators 0;
        if totalStake = 0 then Some (False, replicate (length validators) 0)
        else do {
          (rewards, distributedReward) \<leftarrow> distribute_shares totalReward totalStake validators [] 0;
          if distributedReward < totalReward then do {
            remainder \<leftarrow> i64 (totalReward - distributedReward);
            let i = largest_stake_index validators;
            r \<leftarrow> i64 (rewards ! i + remainder);
            Some (True, rewards[i := r])
          } else Some (True, rewards)
        }
      })"

definition IsSupplyCapEnforced :: "int \<Rightarrow> params \<Rightarrow> bool option" where
  "IsSupplyCapEnforced nHeight consensusParams =
     do {
       totalSupply \<leftarrow>
         (if nHeight > 0 then do {
            m \<leftarrow> i64 ((nHeight - 1) * nInitialBlockReward consensusParams);
            i64 (nPremineAmount consensusParams + m)
          } else Some (nPremineAmount consensusParams));
       Some (totalSupply \<ge> nMaxSupply consensusParams)
     }"

definition GetRemainingStakingSupply :: "int \<Rightarrow> params \<Rightarrow> CAmount option" where
  "GetRemainingStakingSupply nHeight consensusParams =
     do {
       distributedRewards \<leftarrow>
         (if nHeight > 0 then i64 ((nHeight - 1) * nInitialBlockReward consensusParams) else Some 0);
       if distributedRewards \<ge> nStakingSupply consensusParams then Some 0
       else i64 (nStakingSupply consensusParams - distributedRewards)
     }"

section \<open>Rewards of \<open>validation.cpp\<close>\<close>

text \<open>The bonus of a stake in percent, as both reward functions compute it, and the multiplier.\<close>

definition staking_bonus :: "CAmount \<Rightarrow> float64" where
  "staking_bonus nStakeAmount =
     (if nStakeAmount \<ge> 100000 * COIN then Finite 20
      else if nStakeAmount \<ge> 10000 * COIN then
        let dProgress = f64_div (f64_of_int (nStakeAmount - 10000 * COIN)) (f64_of_int (90000 * COIN))
        in f64_add (Finite 5) (f64_mult (Finite 15) dProgress)
      else if nStakeAmount \<ge> 1 * COIN then
        let dProgress = f64_div (f64_of_int (nStakeAmount - 1 * COIN)) (f64_of_int (9999 * COIN))
        in f64_mult (Finite 5) dProgress
      else Finite 0)"

definition bonus_multiplier :: "CAmount \<Rightarrow> float64" where
  "bonus_multiplier nStakeAmount = f64_add (Finite 1) (f64_div (staking_bonus nStakeAmount) (Finite 100))"

definition CalculateIndividualStakingReward ::
  "CAmount \<Rightarrow> CAmount \<Rightarrow> CAmount \<Rightarrow> params \<Rightarrow> CAmount option"
where
  "CalculateIndividualStakingReward nStakeAmount nTotalNetworkStake nBlockReward consensusParams =
     (if nStakeAmount \<le> 0 then Some 0
      else if nTotalNetworkStake \<le> 0 then Some 0
      else do {
        m \<leftarrow> i64 (nBlockReward * nStakeAmount);
        nProportionalReward \<leftarrow> div_i64 m nTotalNetworkStake;
        f64_to_i64 (f64_mult (f64_of_int nProportionalReward) (bonus_multiplier nStakeAmount))
      })"

definition CalculateActualDailyStakingReward :: "CAmount \<Rightarrow> params \<Rightarrow> CAmount option" where
  "CalculateActualDailyStakingReward nStakeAmount consensusParams =
     (if nStakeAmount \<le> 0 then Some 0
      else do {
        nBaseDailyReward \<leftarrow> div_i64 nStakeAmount 100;
        f64_to_i64 (f64_mult (f64_of_int nBaseDailyReward) (bonus_multiplier nStakeAmount))
      })"

definition CalculateExpectedDailyRewards ::
  "CAmount \<Rightarrow> CAmount \<Rightarrow> CAmount \<Rightarrow> params \<Rightarrow> CAmount option"
where
  "CalculateExpectedDailyRewards nStakeAmount nCurrentSupply nTotalNetworkStake consensusParams =
     CalculateActualDailyStakingReward nStakeAmount consensusParams"

definition ValidateStakingRequirements :: "CAmount \<Rightarrow> int \<Rightarrow> params \<Rightarrow> bool" where
  "ValidateStakingRequirements nStakeAmount nStakeAge consensusParams =
     (if nStakeAmount < nMinStakeAmount consensusParams then False
      else if nStakeAge < nStakeMinAge consensusParams then False
      else if nStakeAge > nStakeMaxAge consensusParams then False
      else True)"

definition CalculateValidatorProbability :: "CAmount \<Rightarrow> CAmount \<Rightarrow> float64" where
  "CalculateValidatorProbability nValidatorStake nTotalNetworkStake =
     (if nTotalNetworkStake \<le> 0 \<or> nValidatorStake \<le> 0 then Finite 0
      else
        let dProbability = f64_div (f64_of_int nValidatorStake) (f64_of_int nTotalNetworkStake)
        in if f64_greater dProbability (Finite (1 / 4)) then Finite (1 / 4) else dProbability)"

text \<open>The distribution: the loop carries the rewards given and the reward left.\<close>

primrec distribute_loop ::
  "CAmount \<Rightarrow> CAmount \<Rightarrow> CAmount list \<Rightarrow> CAmount \<Rightarrow> CAmount \<Rightarrow> CAmount option"
where
  "distribute_loop nTotalReward nTotalStake [] given left = Some given"
| "distribute_loop nTotalReward nTotalStake (v # vs) given left =
     (if v \<le> 0 then distribute_loop nTotalReward nTotalStake vs given left
      else if vs = [] then do {
        given \<leftarrow> i64 (given + left);
        distribute_loop nTotalReward nTotalStake vs given left
      } else do {
        m \<leftarrow> i64 (nTotalReward * v);
        nValidatorReward \<leftarrow> div_i64 m nTotalStake;
        left \<leftarrow> i64 (left - nValidatorReward);
        given \<leftarrow> i64 (given + nValidatorReward);
        distribute_loop nTotalReward nTotalStake vs given left
      })"

definition DistributeStakingRewards :: "CAmount list \<Rightarrow> CAmount \<Rightarrow> CAmount option" where
  "DistributeStakingRewards vStakeAmounts nTotalReward =
     (if vStakeAmounts = [] \<or> nTotalReward \<le> 0 then Some 0
      else do {
        nTotalStake \<leftarrow> sum_i64 (filter (\<lambda>nStake. nStake > 0) vStakeAmounts) 0;
        if nTotalStake \<le> 0 then Some 0
        else distribute_loop nTotalReward nTotalStake vStakeAmounts 0 nTotalReward
      })"

definition GetNetworkStakingStats :: "CAmount list \<Rightarrow> params \<Rightarrow> (CAmount \<times> nat) option" where
  "GetNetworkStakingStats vStakeAmounts consensusParams =
     (let stakes = filter (\<lambda>nStake. nStake \<ge> nMinStakeAmount consensusParams) vStakeAmounts
      in do { nTotalStaked \<leftarrow> sum_i64 stakes 0; Some (nTotalStaked, length stakes) })"

section \<open>Shares\<close>

lemma floor_share:
  fixes R T v :: int
  assumes "0 < T"
  shows "T * (R * v div T) \<le> R * v" "R * v - T < T * (R * v div T)"
  using assms by (simp_all add: pos_mod_bound minus_mod_eq_mult_div [symmetric])

lemma sum_shares:
  fixes R T :: int
  assumes "0 < T" "vs \<noteq> []"
  shows "T * sum_list (map (\<lambda>v. R * v div T) vs) \<le> R * sum_list vs"
    and "R * sum_list vs - int (length vs) * T < T * sum_list (map (\<lambda>v. R * v div T) vs)"
proof -
  show "T * sum_list (map (\<lambda>v. R * v div T) vs) \<le> R * sum_list vs"
    using floor_share(1) [OF assms(1), of R] by (induction vs) (auto simp: algebra_simps intro: add_mono)
  show "R * sum_list vs - int (length vs) * T < T * sum_list (map (\<lambda>v. R * v div T) vs)"
    using assms(2)
  proof (induction vs)
    case (Cons v vs)
    have "R * v - T < T * (R * v div T)" by (rule floor_share(2) [OF assms(1)])
    with Cons show ?case by (cases "vs = []") (auto simp: algebra_simps)
  qed simp
qed

text \<open>The shares of all but \<open>n\<close> units of the reward.\<close>

lemma sum_shares_total:
  fixes R :: int
  assumes "0 < sum_list vs"
  defines "d \<equiv> sum_list (map (\<lambda>v. R * v div sum_list vs) vs)"
  shows "d \<le> R" "R - int (length vs) < d"
proof -
  have ne: "vs \<noteq> []" using assms(1) by auto
  have "sum_list vs * d \<le> sum_list vs * R" "sum_list vs * (R - int (length vs)) < sum_list vs * d"
    using sum_shares [OF assms(1) ne, of R] by (simp_all add: d_def algebra_simps)
  then show "d \<le> R" "R - int (length vs) < d" using assms(1) by simp_all
qed

lemma share_nonneg: "0 \<le> R \<Longrightarrow> 0 \<le> v \<Longrightarrow> 0 < T \<Longrightarrow> 0 \<le> R * v div (T :: int)"
  by (simp add: pos_imp_zdiv_nonneg_iff)

lemma distribute_shares_eq:
  assumes "0 < T" "0 \<le> R" "0 \<le> d" "\<forall>v \<in> set vs. 0 \<le> v \<and> R * v \<le> INT64_MAX"
    and "d + sum_list (map (\<lambda>v. R * v div T) vs) \<le> INT64_MAX"
  shows "distribute_shares R T vs rs d =
    Some (rs @ map (\<lambda>v. R * v div T) vs, d + sum_list (map (\<lambda>v. R * v div T) vs))"
  using assms(3-5)
proof (induction vs arbitrary: rs d)
  case (Cons v vs)
  have v: "0 \<le> R * v" "R * v \<le> INT64_MAX" "0 \<le> R * v div T"
    using Cons.prems(2) assms(1,2) by (simp_all add: share_nonneg)
  have "0 \<le> sum_list (map (\<lambda>v. R * v div T) vs)"
    using Cons.prems(2) assms(1,2) by (intro sum_list_nonneg) (auto simp: share_nonneg)
  then show ?case
    using Cons.prems Cons.IH [of "d + R * v div T"] v assms(1)
    by (simp add: i64_nonneg div_i64_nonneg add.assoc [symmetric])
qed simp

lemma largest_stake_index:
  assumes "stakes \<noteq> []"
  shows "largest_stake_index stakes < length stakes \<and>
    (\<forall>j < length stakes. stakes ! j \<le> stakes ! largest_stake_index stakes)"
proof -
  define L where "L n = fold (\<lambda>i l. if stakes ! i > stakes ! l then i else l) [1..<n] 0" for n
  have "L n < n \<and> (\<forall>j < n. stakes ! j \<le> stakes ! L n)" if "1 \<le> n" for n
    using that
  proof (induction n rule: nat_induct_at_least)
    case base
    then show ?case by (simp add: L_def)
  next
    case (Suc n)
    then have "L (Suc n) = (if stakes ! n > stakes ! L n then n else L n)" by (simp add: L_def)
    with Suc.IH show ?case by (auto simp: less_Suc_eq intro: order_trans)
  qed
  then have "L (length stakes) < length stakes \<and> (\<forall>j < length stakes. stakes ! j \<le> stakes ! L (length stakes))"
    using assms by (simp add: Suc_leI)
  then show ?thesis using assms by (simp add: largest_stake_index_def L_def)
qed

lemma pos_DistributeStakingRewards_shares:
  assumes "\<forall>v \<in> set vs. 0 \<le> v \<and> R * v \<le> INT64_MAX" "0 < sum_list vs" "sum_list vs \<le> INT64_MAX"
    and "0 \<le> R" "R \<le> INT64_MAX"
  defines "share \<equiv> \<lambda>v. R * v div sum_list vs" and "i \<equiv> largest_stake_index vs"
  defines "rs \<equiv> map share vs"
  shows "pos_DistributeStakingRewards vs R rewards =
    Some (True, rs[i := rs ! i + (R - sum_list rs)])" (is ?A)
    and "0 \<le> R - sum_list rs" "R - sum_list rs < int (length vs)"
proof -
  show rem: "0 \<le> R - sum_list rs" "R - sum_list rs < int (length vs)"
    using sum_shares_total [OF assms(2), of R] by (simp_all add: rs_def share_def)
  have ne: "vs \<noteq> []" using assms(2) by auto
  have i: "i < length vs" using largest_stake_index [OF ne] by (simp add: i_def)
  have "sum_i64 vs 0 = Some (sum_list vs)"
    using assms(1,3) sum_i64_nonneg [of vs 0] by simp
  moreover have "distribute_shares R (sum_list vs) vs [] 0 = Some (rs, sum_list rs)"
    using distribute_shares_eq [OF assms(2,4), of 0 vs "[]"] assms(1,5) rem(1)
    by (simp add: rs_def share_def)
  moreover have "0 \<le> rs ! i" "rs ! i \<le> sum_list rs"
  proof -
    have nn: "\<forall>r \<in> set rs. 0 \<le> r"
      using assms(1,2,4) unfolding rs_def share_def by (auto simp: share_nonneg)
    have "i < length rs" using i by (simp add: rs_def)
    then show "0 \<le> rs ! i" using nn by simp
    show "rs ! i \<le> sum_list rs" using nn \<open>i < length rs\<close> by (intro member_le_sum_list) simp_all
  qed
  ultimately show ?A
    using ne rem assms(2,5) list_update_id [of rs i]
    by (auto simp: pos_DistributeStakingRewards_def i64_nonneg i_def [symmetric] simp del: list_update_id)
qed

section \<open>Distribution in \<open>validation.cpp\<close>\<close>

lemma distribute_loop_eq:
  assumes "0 < T" "0 \<le> R" "R \<le> INT64_MAX" "0 \<le> g" "g + left = R" "0 \<le> left"
    and "\<forall>v \<in> set vs. R * v \<le> INT64_MAX"
    and "sum_list (map (\<lambda>v. R * v div T) (filter (\<lambda>v. 0 < v) vs)) \<le> left"
  shows "distribute_loop R T vs g left =
    Some (if vs \<noteq> [] \<and> 0 < last vs then R
          else g + sum_list (map (\<lambda>v. R * v div T) (filter (\<lambda>v. 0 < v) vs)))"
  using assms(4-8)
proof (induction vs arbitrary: g left)
  case (Cons v vs)
  let ?S = "sum_list (map (\<lambda>v. R * v div T) (filter (\<lambda>v. 0 < v) vs))"
  have S: "0 \<le> ?S" using assms(1,2) by (intro sum_list_nonneg) (auto simp: share_nonneg)
  show ?case
  proof (cases "v \<le> 0 \<or> vs = []")
    case True
    then show ?thesis
      using Cons.prems Cons.IH [of g left] assms(3) by (auto simp: i64_nonneg)
  next
    case False
    have v: "0 \<le> R * v" "R * v \<le> INT64_MAX" "0 \<le> R * v div T"
      using False Cons.prems(4) assms(1,2) by (simp_all add: share_nonneg)
    with False Cons.prems Cons.IH [of "g + R * v div T" "left - R * v div T"] assms(1,3) S show ?thesis
      by (simp add: i64_nonneg div_i64_nonneg)
  qed
qed simp

end
