(* ===== verification/RewardBounds.thy ===== *)
theory RewardBounds
  imports StakingRewards
begin

text \<open>
  The rewards of stakers: the exact values of the floating-point functions of \<open>StakingRewards\<close> for
  the default parameters (each rounded operation is within the range of the \<open>double\<close> type, so that
  the result is the rounding of the exact value), their bounds and their monotonicity, and the
  properties of the two distributions.
\<close>

section \<open>Floating-point rewards\<close>

lemma f64_int: "0 \<le> n \<Longrightarrow> n \<le> 2 ^ 64 \<Longrightarrow> f64_of_int n = Finite (rnd (of_int n))"
proof -
  assume n: "0 \<le> n" "n \<le> 2 ^ 64"
  then have "(of_int n :: rat) \<le> of_int (2 ^ 64)" by (simp only: of_int_le_iff)
  then have "(of_int n :: rat) \<le> 2 ^ 1000" by simp
  with n show ?thesis by (simp add: f64_of_int_def to_f64_Finite)
qed

lemma rnd_le_pow: "0 \<le> x \<Longrightarrow> x \<le> 2 ^ k \<Longrightarrow> rnd x \<le> 2 ^ k"
  using rnd_mono [of x "2 ^ k"] rnd_exact [of 1 "int k"] by (simp add: pow2_nat)

lemma rnd_ge_1: "1 \<le> x \<Longrightarrow> 1 \<le> rnd x"
  using rnd_mono [of 1 x] rnd_of_int [of 1] by simp

lemma rnd_exact_int: "0 < n \<Longrightarrow> n \<le> 2 ^ 53 \<Longrightarrow> rnd (of_int n * 2 ^ k) = of_int n * 2 ^ k"
  using rnd_exact [of n "int k"] by (simp add: pow2_nat)

lemma mult_le_pow: "0 \<le> x \<Longrightarrow> x \<le> 2 ^ j \<Longrightarrow> 0 \<le> y \<Longrightarrow> y \<le> 2 ^ k \<Longrightarrow> x * y \<le> (2 ^ (j + k) :: rat)"
  by (simp add: power_add mult_mono)

text \<open>The duration multiplier, for the minimum age of the default parameters.\<close>

definition bonus_days :: "int \<Rightarrow> int" where
  "bonus_days t = (t - 28800) div 86400"

definition duration_factor :: "int \<Rightarrow> rat" where
  "duration_factor t =
     (if 28800 \<le> t
      then min (rnd (11 / 10)) (rnd (1 + rnd (rnd (of_int (bonus_days t)) * rnd (1 / 1000))))
      else 1)"

lemma duration_factor_bounds: "1 \<le> duration_factor t" "duration_factor t \<le> rnd (11 / 10)"
proof -
  have "1 \<le> rnd (11 / 10)" by (rule rnd_ge_1) simp
  moreover have "1 \<le> rnd (1 + rnd (rnd (of_int (bonus_days t)) * rnd (1 / 1000)))" if "28800 \<le> t"
  proof (rule rnd_ge_1)
    have "0 \<le> bonus_days t" using that by (simp add: bonus_days_def pos_imp_zdiv_nonneg_iff)
    then have "0 \<le> rnd (rnd (of_int (bonus_days t)) * rnd (1 / 1000))"
      by (intro rnd_nonneg mult_nonneg_nonneg) simp_all
    then show "1 \<le> 1 + rnd (rnd (of_int (bonus_days t)) * rnd (1 / 1000))" by simp
  qed
  ultimately show "1 \<le> duration_factor t" "duration_factor t \<le> rnd (11 / 10)"
    by (simp_all add: duration_factor_def)
qed

lemma duration_factor_mono: "s \<le> t \<Longrightarrow> duration_factor s \<le> duration_factor t"
proof (cases "28800 \<le> s")
  case True
  assume st: "s \<le> t"
  have d: "0 \<le> bonus_days s" "bonus_days s \<le> bonus_days t"
    using True st by (simp_all add: bonus_days_def pos_imp_zdiv_nonneg_iff zdiv_mono1)
  have "rnd (rnd (of_int (bonus_days s)) * rnd (1 / 1000)) \<le> rnd (rnd (of_int (bonus_days t)) * rnd (1 / 1000))"
    using d by (intro rnd_mono mult_mono rnd_nonneg mult_nonneg_nonneg) simp_all
  moreover have "0 \<le> rnd (rnd (of_int (bonus_days s)) * rnd (1 / 1000))"
    using d by (intro rnd_nonneg mult_nonneg_nonneg) simp_all
  ultimately have "rnd (1 + rnd (rnd (of_int (bonus_days s)) * rnd (1 / 1000))) \<le>
      rnd (1 + rnd (rnd (of_int (bonus_days t)) * rnd (1 / 1000)))"
    by (intro rnd_mono) simp_all
  with True st show ?thesis by (auto simp: duration_factor_def min_def)
next
  case False
  then show ?thesis using duration_factor_bounds(1) [of t] by (simp add: duration_factor_def)
qed

lemma duration_code:
  assumes "28800 \<le> t" "t \<le> INT64_MAX"
  shows "stake_duration_multiplier t default_params = Some (Finite (duration_factor t))"
proof -
  have d: "0 \<le> bonus_days t" "bonus_days t \<le> 2 ^ 62"
    using assms zdiv_mono1 [of "t - 28800" INT64_MAX 86400]
    by (simp_all add: bonus_days_def pos_imp_zdiv_nonneg_iff INT64_MAX_def)
  have days: "f64_of_int (bonus_days t) = Finite (rnd (of_int (bonus_days t)))"
    using d by (intro f64_int) simp_all
  have "(of_int (bonus_days t) :: rat) \<le> of_int (2 ^ 62)" using d(2) by (simp only: of_int_le_iff)
  then have rd: "0 \<le> rnd (of_int (bonus_days t))" "rnd (of_int (bonus_days t)) \<le> 2 ^ 62"
    using d(1) by (auto intro!: rnd_nonneg rnd_le_pow simp del: power_numeral)
  have th: "0 \<le> rnd (1 / 1000)" "rnd (1 / 1000) \<le> 2 ^ 0"
    by (rule rnd_nonneg, simp) (rule rnd_le_pow, simp_all)
  define p where "p = rnd (of_int (bonus_days t)) * rnd (1 / 1000)"
  have p: "0 \<le> p" "p \<le> 2 ^ 62"
    using rd th mult_le_pow [OF rd th] by (simp_all add: p_def)
  have rp: "0 \<le> rnd p" "rnd p \<le> 2 ^ 62" by (rule rnd_nonneg [OF p(1)]) (rule rnd_le_pow [OF p])
  have "to_f64 (1 / 1000) = Finite (rnd (1 / 1000))" "to_f64 (11 / 10) = Finite (rnd (11 / 10))"
    "to_f64 p = Finite (rnd p)" "to_f64 (1 + rnd p) = Finite (rnd (1 + rnd p))"
    using p rp by (simp_all add: to_f64_Finite)
  then show ?thesis
    using assms days
    by (simp add: stake_duration_multiplier_def default_params_def i64_nonneg div_i64_nonneg duration_factor_def f64_greater_def
        p_def bonus_days_def min_def)
qed

definition stake_reward :: "int \<Rightarrow> int \<Rightarrow> rat" where
  "stake_reward a t =
     rnd (rnd (20000000000 * rnd (rnd (of_int a) / 100000000)) * duration_factor t)"

lemma stake_reward_mono:
  assumes "0 \<le> a" "a \<le> b" "s \<le> t"
  shows "stake_reward a s \<le> stake_reward b t"
proof -
  have "rnd (of_int a) \<le> rnd (of_int b)" "0 \<le> rnd (of_int a)"
    using assms by (auto intro: rnd_mono rnd_nonneg)
  then have w: "rnd (rnd (of_int a) / 100000000) \<le> rnd (rnd (of_int b) / 100000000)"
    "0 \<le> rnd (rnd (of_int a) / 100000000)"
    by (auto intro: rnd_mono rnd_nonneg)
  then have p: "rnd (20000000000 * rnd (rnd (of_int a) / 100000000)) \<le>
      rnd (20000000000 * rnd (rnd (of_int b) / 100000000))"
    "0 \<le> rnd (20000000000 * rnd (rnd (of_int a) / 100000000))"
    by (auto intro: rnd_mono rnd_nonneg)
  have d: "0 \<le> duration_factor s" "0 \<le> duration_factor t"
    using duration_factor_bounds(1) [of s] duration_factor_bounds(1) [of t] by simp_all
  have "rnd (20000000000 * rnd (rnd (of_int a) / 100000000)) * duration_factor s \<le>
      rnd (20000000000 * rnd (rnd (of_int b) / 100000000)) * duration_factor t"
    using p d duration_factor_mono [OF assms(3)] by (intro mult_mono) linarith+
  with p(2) d(1) show ?thesis
    unfolding stake_reward_def by (intro rnd_mono mult_nonneg_nonneg)
qed

lemma stake_reward_lower:
  assumes "100000000 \<le> a"
  shows "20000000000 \<le> stake_reward a t"
proof -
  have "(100000000 :: rat) \<le> of_int a"
    using assms by (metis of_int_le_iff of_int_numeral)
  then have "rnd (100000000) \<le> rnd (of_int a)" by (intro rnd_mono) simp_all
  then have "100000000 \<le> rnd (of_int a)" using rnd_of_int [of 100000000] by simp
  then have "1 \<le> rnd (rnd (of_int a) / 100000000)" by (intro rnd_ge_1) simp
  then have "rnd 20000000000 \<le> rnd (20000000000 * rnd (rnd (of_int a) / 100000000))"
    by (intro rnd_mono) simp_all
  then have "20000000000 \<le> rnd (20000000000 * rnd (rnd (of_int a) / 100000000))"
    using rnd_of_int [of 20000000000] by simp
  then have "20000000000 * 1 \<le> rnd (20000000000 * rnd (rnd (of_int a) / 100000000)) * duration_factor t"
    using duration_factor_bounds(1) [of t] by (intro mult_mono) simp_all
  then have "rnd 20000000000 \<le> stake_reward a t" unfolding stake_reward_def by (intro rnd_mono) simp_all
  then show ?thesis using rnd_of_int [of 20000000000] by simp
qed

text \<open>Bounds at the largest stake whose reward still fits: 350 million coins.\<close>

lemma stake_reward_upper:
  assumes "0 \<le> a" "a \<le> 35000000000000000"
  shows "stake_reward a t \<le> 8000000000000000000"
proof -
  have "stake_reward a t \<le> stake_reward 35000000000000000 t"
    using assms by (intro stake_reward_mono) simp_all
  also have "stake_reward 35000000000000000 t = rnd (7000000000000000000 * duration_factor t)"
    using rnd_exact_int [of 1068115234375 15] rnd_of_int [of 350000000]
      rnd_exact_int [of 26702880859375 18]
    by (simp add: stake_reward_def)
  also have "\<dots> \<le> rnd 8000000000000000000"
  proof (rule rnd_mono)
    have "rnd (11 / 10) \<le> rnd (9 / 8)" by (rule rnd_mono) simp_all
    also have "\<dots> = 9 / 8" using rnd_exact [of 9 "- 3"] by (simp add: pow2_def)
    finally have "duration_factor t \<le> 9 / 8" using duration_factor_bounds(2) [of t] by simp
    then show "7000000000000000000 * duration_factor t \<le> 8000000000000000000" by simp
    show "0 \<le> 7000000000000000000 * duration_factor t" using duration_factor_bounds(1) [of t] by simp
  qed
  also have "\<dots> = 8000000000000000000" using rnd_exact_int [of 30517578125000 18] by simp
  finally show ?thesis .
qed

lemma f64_to_i64_floor: "0 \<le> r \<Longrightarrow> r \<le> 8000000000000000000 \<Longrightarrow> f64_to_i64 (Finite r) = Some \<lfloor>r\<rfloor>"
proof -
  assume r: "0 \<le> r" "r \<le> 8000000000000000000"
  then have "\<lfloor>r\<rfloor> \<le> \<lfloor>8000000000000000000 :: rat\<rfloor>" by (intro floor_mono)
  with r show ?thesis by (simp add: i64_nonneg INT64_MAX_def)
qed

lemma stake_reward_code:
  assumes "0 \<le> a" "a \<le> 35000000000000000"
  shows "f64_mult (f64_mult (f64_of_int 20000000000) (f64_div (f64_of_int a) (f64_of_int 100000000)))
      (Finite (duration_factor t)) = Finite (stake_reward a t)"
proof -
  have ia: "0 \<le> rnd (of_int a)" "rnd (of_int a) \<le> 2 ^ 63"
  proof -
    have "(of_int a :: rat) \<le> of_int 35000000000000000" using assms(2) by (simp only: of_int_le_iff)
    then have "(of_int a :: rat) \<le> 2 ^ 63" by simp
    with assms(1) show "0 \<le> rnd (of_int a)" "rnd (of_int a) \<le> 2 ^ 63"
      by (auto intro!: rnd_nonneg rnd_le_pow simp del: power_numeral)
  qed
  define w where "w = rnd (rnd (of_int a) / 100000000)"
  have q: "0 \<le> rnd (of_int a) / 100000000" "rnd (of_int a) / 100000000 \<le> 2 ^ 63" using ia by simp_all
  have w: "0 \<le> w" "w \<le> 2 ^ 63" unfolding w_def by (rule rnd_nonneg [OF q(1)]) (rule rnd_le_pow [OF q])
  define p where "p = rnd (20000000000 * w)"
  have bw: "0 \<le> 20000000000 * w" "20000000000 * w \<le> 2 ^ 100" using w by simp_all
  have p: "0 \<le> p" "p \<le> 2 ^ 100" unfolding p_def by (rule rnd_nonneg [OF bw(1)]) (rule rnd_le_pow [OF bw])
  have d: "0 \<le> duration_factor t" "duration_factor t \<le> 2 ^ 1"
    using duration_factor_bounds [of t] rnd_le_pow [of "11 / 10" 1] by simp_all
  have "p * duration_factor t \<le> 2 ^ 101" "0 \<le> p * duration_factor t"
    using mult_le_pow [OF p d] p d by simp_all
  moreover have "f64_of_int a = Finite (rnd (of_int a))" "f64_of_int 100000000 = Finite 100000000"
    "f64_of_int 20000000000 = Finite 20000000000"
    using assms f64_int [of a] f64_int [of 100000000] rnd_of_int [of 100000000]
      f64_int [of 20000000000] rnd_of_int [of 20000000000] by simp_all
  ultimately show ?thesis
    using q bw by (simp add: to_f64_Finite stake_reward_def w_def [symmetric] p_def [symmetric])
qed

lemma default_consts:
  "nMinStakeAmount default_params = 100000000" "nInitialBlockReward default_params = 20000000000"
  "nMaxSupply default_params = 100000000000000000" "nPremineAmount default_params = 2000000000000000"
  by (simp_all add: default_params_def COIN_def)

lemma CalculateStakeReward_default:
  assumes "COIN \<le> a" "a \<le> 350000000 * COIN" "in_i64 t"
  shows "CalculateStakeReward a t default_params =
    Some (min (2000 * COIN) \<lfloor>stake_reward a t\<rfloor>)"
proof -
  have a: "100000000 \<le> a" "0 \<le> a" "a \<le> 35000000000000000" using assms by (simp_all add: COIN_def)
  have r: "0 \<le> stake_reward a t" "stake_reward a t \<le> 8000000000000000000"
    using stake_reward_lower [OF a(1), of t] stake_reward_upper [OF a(2,3), of t] by simp_all
  have "t \<le> INT64_MAX" using assms(3) by (simp add: in_i64_def)
  then have "stake_duration_multiplier t default_params = Some (Finite (duration_factor t))"
    using duration_code [of t]
    by (cases "28800 \<le> t")
      (simp_all add: duration_factor_def stake_duration_multiplier_def default_params_def)
  then show ?thesis
    using a stake_reward_code [OF a(2,3), of t] f64_to_i64_floor [OF r]
    by (simp add: CalculateStakeReward_def default_consts i64_nonneg INT64_MAX_def Let_def min_def COIN_def floor_eq_iff)
qed

text \<open>The whole money supply as one stake: the conversion has no defined result.\<close>

lemma CalculateStakeReward_MAX_MONEY: "CalculateStakeReward MAX_MONEY 0 default_params = None"
proof -
  have "rnd 100000000000000000 = 100000000000000000" using rnd_exact_int [of 762939453125 17] by simp
  then have "f64_of_int 100000000000000000 = Finite 100000000000000000"
    using f64_int [of 100000000000000000] by simp
  moreover have "f64_of_int 100000000 = Finite 100000000" "f64_of_int 20000000000 = Finite 20000000000"
    using f64_int [of 100000000] rnd_of_int [of 100000000] f64_int [of 20000000000] rnd_of_int [of 20000000000]
    by simp_all
  moreover have "to_f64 1000000000 = Finite 1000000000"
    using to_f64_Finite [of 1000000000] rnd_of_int [of 1000000000] by simp
  moreover have "to_f64 20000000000000000000 = Finite 20000000000000000000"
    using to_f64_Finite [of 20000000000000000000] rnd_exact_int [of 19073486328125 20] by simp
  ultimately show ?thesis
    by (simp add: CalculateStakeReward_def default_params_def MAX_MONEY_def COIN_def i64_def in_i64_def
        INT64_MAX_def Let_def stake_duration_multiplier_def)
qed

lemma max_multiplier: "rnd (1 + rnd (1 / 5)) = 5404319552844595 / 4503599627370496"
  by code_simp

definition bonus :: "int \<Rightarrow> rat" where
  "bonus s = (if 10000000000000 \<le> s then 20
     else if 1000000000000 \<le> s then rnd (5 + rnd (15 * rnd (of_int (s - 1000000000000) / 9000000000000)))
     else if 100000000 \<le> s then rnd (5 * rnd (of_int (s - 100000000) / 999900000000))
     else 0)"

lemma rnd_le_1: "0 \<le> x \<Longrightarrow> x \<le> 1 \<Longrightarrow> rnd x \<le> 1"
  using rnd_le_pow [of x 0] by simp

lemma rnd_le_int: "0 \<le> x \<Longrightarrow> x \<le> of_int n \<Longrightarrow> n \<le> 2 ^ 53 \<Longrightarrow> rnd x \<le> of_int n"
  using rnd_mono [of x "of_int n"] rnd_of_int [of n] by force

lemma rnd_ge_int: "of_int n \<le> x \<Longrightarrow> 0 \<le> n \<Longrightarrow> n \<le> 2 ^ 53 \<Longrightarrow> of_int n \<le> rnd x"
  using rnd_mono [of "of_int n" x] rnd_of_int [of n] by force

lemma of_int_le_numeral: "n \<le> numeral k \<Longrightarrow> (of_int n :: rat) \<le> numeral k"
  by (metis of_int_le_iff of_int_numeral)

lemma middle_bonus:
  assumes "1000000000000 \<le> s" "s \<le> 10000000000000"
  shows "5 \<le> rnd (5 + rnd (15 * rnd (of_int (s - 1000000000000) / 9000000000000)))"
    and "rnd (5 + rnd (15 * rnd (of_int (s - 1000000000000) / 9000000000000))) \<le> 20"
proof -
  define x :: rat where "x = of_int (s - 1000000000000) / 9000000000000"
  have "0 \<le> x" "x \<le> 1" using assms of_int_le_numeral [OF assms(2)] by (simp_all add: x_def)
  then have r: "0 \<le> rnd x" "rnd x \<le> 1" by (simp_all add: rnd_nonneg rnd_le_1)
  then have "0 \<le> rnd (15 * rnd x)" "rnd (15 * rnd x) \<le> 15"
    using rnd_le_int [of "15 * rnd x" 15] by (simp_all add: rnd_nonneg)
  then show "5 \<le> rnd (5 + rnd (15 * rnd (of_int (s - 1000000000000) / 9000000000000)))"
    "rnd (5 + rnd (15 * rnd (of_int (s - 1000000000000) / 9000000000000))) \<le> 20"
    using rnd_ge_int [of 5 "5 + rnd (15 * rnd x)"] rnd_le_int [of "5 + rnd (15 * rnd x)" 20]
    unfolding x_def by simp_all
qed

lemma low_bonus:
  assumes "100000000 \<le> s" "s \<le> 1000000000000"
  shows "0 \<le> rnd (5 * rnd (of_int (s - 100000000) / 999900000000))"
    and "rnd (5 * rnd (of_int (s - 100000000) / 999900000000)) \<le> 5"
proof -
  define x :: rat where "x = of_int (s - 100000000) / 999900000000"
  have "0 \<le> x" "x \<le> 1" using assms of_int_le_numeral [OF assms(2)] by (simp_all add: x_def)
  then have r: "0 \<le> rnd x" "rnd x \<le> 1" by (simp_all add: rnd_nonneg rnd_le_1)
  then show "0 \<le> rnd (5 * rnd (of_int (s - 100000000) / 999900000000))"
    "rnd (5 * rnd (of_int (s - 100000000) / 999900000000)) \<le> 5"
    using rnd_le_int [of "5 * rnd x" 5] unfolding x_def by (simp_all add: rnd_nonneg)
qed

lemma bonus_bounds: "0 \<le> bonus s" "bonus s \<le> 20"
  using middle_bonus [of s] low_bonus [of s] by (auto simp: bonus_def)

lemma bonus_mono:
  assumes "s \<le> t"
  shows "bonus s \<le> bonus t"
proof -
  consider "s < 100000000 \<or> 10000000000000 \<le> t"
    | "100000000 \<le> s" "t < 1000000000000"
    | "1000000000000 \<le> s" "t < 10000000000000"
    | "100000000 \<le> s" "s < 1000000000000" "1000000000000 \<le> t" "t < 10000000000000"
    using assms by linarith
  then show ?thesis
  proof cases
    case 1
    then show ?thesis
      using bonus_bounds [of s] bonus_bounds [of t] assms by (auto simp: bonus_def [of s] bonus_def [of t])
  next
    case 2
    then have "rnd (of_int (s - 100000000) / 999900000000) \<le> rnd (of_int (t - 100000000) / 999900000000)"
      "0 \<le> rnd (of_int (s - 100000000) / 999900000000)"
      using assms by (auto intro!: rnd_mono rnd_nonneg divide_right_mono)
    then have "rnd (5 * rnd (of_int (s - 100000000) / 999900000000)) \<le>
        rnd (5 * rnd (of_int (t - 100000000) / 999900000000))" by (intro rnd_mono) linarith+
    with 2 assms show ?thesis by (simp add: bonus_def)
  next
    case 3
    have "rnd (of_int (s - 1000000000000) / 9000000000000) \<le> rnd (of_int (t - 1000000000000) / 9000000000000)"
      "0 \<le> rnd (of_int (s - 1000000000000) / 9000000000000)"
      using 3 assms by (auto intro!: rnd_mono rnd_nonneg divide_right_mono)
    then have "rnd (15 * rnd (of_int (s - 1000000000000) / 9000000000000)) \<le>
        rnd (15 * rnd (of_int (t - 1000000000000) / 9000000000000))"
      "0 \<le> rnd (15 * rnd (of_int (s - 1000000000000) / 9000000000000))"
      by (auto intro!: rnd_mono rnd_nonneg)
    then have "rnd (5 + rnd (15 * rnd (of_int (s - 1000000000000) / 9000000000000))) \<le>
        rnd (5 + rnd (15 * rnd (of_int (t - 1000000000000) / 9000000000000)))"
      by (intro rnd_mono) linarith+
    with 3 assms show ?thesis by (simp add: bonus_def)
  next
    case 4
    then show ?thesis using low_bonus(2) [of s] middle_bonus(1) [of t] by (simp add: bonus_def)
  qed
qed

lemma f64_small_int: "0 \<le> n \<Longrightarrow> n \<le> 2 ^ 53 \<Longrightarrow> f64_of_int n = Finite (of_int n)"
  by (simp add: f64_int rnd_of_int)

lemma staking_bonus_bonus:
  assumes "0 < s"
  shows "staking_bonus s = Finite (bonus s)"
proof -
  consider "10000000000000 \<le> s \<or> s < 100000000"
    | "1000000000000 \<le> s" "s < 10000000000000" | "100000000 \<le> s" "s < 1000000000000"
    by linarith
  then show ?thesis
  proof cases
    case 2
    define x :: rat where "x = of_int (s - 1000000000000) / 9000000000000"
    have "0 \<le> x" "x \<le> 1" using 2 of_int_le_numeral [of s] by (simp_all add: x_def)
    then have "0 \<le> rnd x" "rnd x \<le> 1" by (simp_all add: rnd_nonneg rnd_le_1)
    then have "0 \<le> rnd (15 * rnd x)" "rnd (15 * rnd x) \<le> 15"
      using rnd_le_int [of "15 * rnd x" 15] by (simp_all add: rnd_nonneg)
    then have "to_f64 (15 * rnd x) = Finite (rnd (15 * rnd x))"
      "to_f64 (5 + rnd (15 * rnd x)) = Finite (rnd (5 + rnd (15 * rnd x)))" "to_f64 x = Finite (rnd x)"
      using \<open>0 \<le> x\<close> \<open>x \<le> 1\<close> \<open>0 \<le> rnd x\<close> \<open>rnd x \<le> 1\<close> by (simp_all add: to_f64_Finite)
    then show ?thesis
      using 2 by (simp add: staking_bonus_def COIN_def bonus_def f64_small_int x_def)
  next
    case 3
    define x :: rat where "x = of_int (s - 100000000) / 999900000000"
    have "0 \<le> x" "x \<le> 1" using 3 of_int_le_numeral [of s] by (simp_all add: x_def)
    then have "0 \<le> rnd x" "rnd x \<le> 1" by (simp_all add: rnd_nonneg rnd_le_1)
    then have "to_f64 (5 * rnd x) = Finite (rnd (5 * rnd x))" "to_f64 x = Finite (rnd x)"
      using \<open>0 \<le> x\<close> \<open>x \<le> 1\<close> by (simp_all add: to_f64_Finite)
    then show ?thesis
      using 3 by (simp add: staking_bonus_def COIN_def bonus_def f64_small_int x_def)
  qed (auto simp: staking_bonus_def COIN_def bonus_def)
qed

definition multiplier :: "int \<Rightarrow> rat" where
  "multiplier s = rnd (1 + rnd (bonus s / 100))"

lemma multiplier_bounds: "1 \<le> multiplier s" "multiplier s \<le> 6 / 5"
proof -
  have b: "0 \<le> rnd (bonus s / 100)" "rnd (bonus s / 100) \<le> rnd (1 / 5)"
    using bonus_bounds [of s] by (auto intro!: rnd_nonneg rnd_mono)
  then show "1 \<le> multiplier s" by (auto simp: multiplier_def intro!: rnd_ge_1)
  have "multiplier s \<le> rnd (1 + rnd (1 / 5))"
    unfolding multiplier_def using b by (intro rnd_mono) simp_all
  then show "multiplier s \<le> 6 / 5" by (simp add: max_multiplier)
qed

lemma multiplier_mono: "s \<le> t \<Longrightarrow> multiplier s \<le> multiplier t"
proof -
  assume "s \<le> t"
  then have "rnd (bonus s / 100) \<le> rnd (bonus t / 100)" "0 \<le> rnd (bonus s / 100)"
    using bonus_mono [of s t] bonus_bounds [of s] by (auto intro!: rnd_mono rnd_nonneg)
  then show ?thesis unfolding multiplier_def by (intro rnd_mono) simp_all
qed

lemma bonus_multiplier_Finite:
  assumes "0 < s"
  shows "bonus_multiplier s = Finite (multiplier s)"
proof -
  have b: "0 \<le> bonus s / 100" "bonus s / 100 \<le> 1" using bonus_bounds [of s] by simp_all
  then have "0 \<le> rnd (bonus s / 100)" "rnd (bonus s / 100) \<le> 1" by (simp_all add: rnd_nonneg rnd_le_1)
  with b show ?thesis
    by (simp add: bonus_multiplier_def staking_bonus_bonus assms multiplier_def to_f64_Finite)
qed

text \<open>The reward of a base amount: between the amount and six fifths of it, rounded up.\<close>

definition with_bonus :: "int \<Rightarrow> int \<Rightarrow> int" where
  "with_bonus s b = \<lfloor>rnd (of_int b * multiplier s)\<rfloor>"

lemma with_bonus_code:
  assumes "0 < s" "0 \<le> b" "b \<le> 2 ^ 52"
  shows "f64_to_i64 (f64_mult (f64_of_int b) (bonus_multiplier s)) = Some (with_bonus s b)"
    and "b \<le> with_bonus s b" "5 * with_bonus s b < 6 * b + 5"
proof -
  have b: "(0 :: rat) \<le> of_int b" "(of_int b :: rat) \<le> of_int (2 ^ 52)"
    using assms by (simp_all only: of_int_le_iff of_int_0_le_iff)
  have p: "0 \<le> of_int b * multiplier s" "of_int b \<le> of_int b * multiplier s"
    "of_int b * multiplier s \<le> of_int b * (6 / 5)"
    using multiplier_bounds [of s] b(1) mult_left_mono [OF multiplier_bounds(2) b(1), of s]
      mult_left_mono [OF multiplier_bounds(1) b(1), of s]
    by simp_all
  have lower: "of_int b \<le> rnd (of_int b * multiplier s)"
    using p(2) assms by (intro rnd_ge_int) simp_all
  then show "b \<le> with_bonus s b" by (simp add: with_bonus_def le_floor_iff)
  define c where "c = \<lceil>of_int b * (6 / 5 :: rat)\<rceil>"
  have c: "of_int b * (6 / 5 :: rat) \<le> of_int c" "of_int c < of_int b * (6 / 5 :: rat) + 1"
    by (simp_all add: c_def) linarith
  have "(of_int c :: rat) < of_int (2 ^ 53)" using c(2) b(2) by simp
  then have c53: "c \<le> 2 ^ 53" by (simp only: of_int_less_iff less_imp_le)
  have "rnd (of_int b * multiplier s) \<le> of_int c"
    using p c c53 by (intro rnd_le_int) linarith+
  then have "with_bonus s b \<le> c" unfolding with_bonus_def by (metis floor_mono floor_of_int)
  then have "(of_int (with_bonus s b) :: rat) \<le> of_int c" by (simp only: of_int_le_iff)
  then have "(of_int (5 * with_bonus s b) :: rat) < of_int (6 * b + 5)" using c(2) by simp
  then show "5 * with_bonus s b < 6 * b + 5" by (simp only: of_int_less_iff)
  have up: "rnd (of_int b * multiplier s) \<le> 8000000000000000000"
    using \<open>rnd (of_int b * multiplier s) \<le> of_int c\<close> \<open>(of_int c :: rat) < of_int (2 ^ 53)\<close> by simp
  have "to_f64 (of_int b * multiplier s) = Finite (rnd (of_int b * multiplier s))"
  proof (rule to_f64_Finite)
    show "0 \<le> of_int b * multiplier s" by (rule p(1))
    have "of_int b * multiplier s \<le> 9007199254740992"
      using p(3) c \<open>(of_int c :: rat) < of_int (2 ^ 53)\<close> by simp
    also have "\<dots> \<le> 2 ^ 1000" by simp
    finally show "of_int b * multiplier s \<le> 2 ^ 1000" .
  qed
  then show "f64_to_i64 (f64_mult (f64_of_int b) (bonus_multiplier s)) = Some (with_bonus s b)"
    using assms f64_to_i64_floor [OF _ up] lower b(1)
    by (simp add: f64_small_int bonus_multiplier_Finite with_bonus_def del: f64_to_i64.simps)
qed

lemma with_bonus_mono:
  assumes "0 \<le> b" "b \<le> c" "s \<le> t"
  shows "with_bonus s b \<le> with_bonus t c"
proof -
  have "of_int b * multiplier s \<le> of_int c * multiplier t"
    using assms multiplier_mono [OF assms(3)] multiplier_bounds(1) [of s] by (intro mult_mono) auto
  moreover have "0 \<le> of_int b * multiplier s" using assms(1) multiplier_bounds(1) [of s] by simp
  ultimately show ?thesis unfolding with_bonus_def by (intro floor_mono rnd_mono)
qed

section \<open>Properties\<close>

text \<open>
  With the default parameters \<open>CalculateStakeReward\<close> of a stake between one and 350 million coins
  is between 200 and 2000 coins, and it is monotone in the amount and in the age of the stake,
  in spite of the rounding of its five floating-point operations.
\<close>

theorem stake_reward_range:
  assumes "COIN \<le> a" "a \<le> b" "b \<le> 350000000 * COIN" "in_i64 s" "in_i64 t" "s \<le> t"
  shows "\<exists>r r'. CalculateStakeReward a s default_params = Some r \<and>
    CalculateStakeReward b t default_params = Some r' \<and>
    200 * COIN \<le> r \<and> r \<le> r' \<and> r' \<le> 2000 * COIN"
proof -
  have "20000000000 \<le> \<lfloor>stake_reward a s\<rfloor>"
    using stake_reward_lower [of a s] assms(1) by (simp add: COIN_def le_floor_iff)
  moreover have "\<lfloor>stake_reward a s\<rfloor> \<le> \<lfloor>stake_reward b t\<rfloor>"
    using assms by (intro floor_mono stake_reward_mono) (simp_all add: COIN_def)
  ultimately show ?thesis
    using CalculateStakeReward_default [of a s] CalculateStakeReward_default [of b t] assms
    by (auto simp: COIN_def)
qed

theorem stake_reward_range_witness:
  "\<exists>r r'. CalculateStakeReward COIN 0 default_params = Some r \<and>
    CalculateStakeReward (5 * COIN) 100000 default_params = Some r' \<and>
    200 * COIN \<le> r \<and> r \<le> r' \<and> r' \<le> 2000 * COIN"
  by (rule stake_reward_range) (simp_all add: COIN_def in_i64_def INT64_MAX_def)

text \<open>
  For a stake of the whole supply the product exceeds 64 bits and the conversion of the
  \<open>double\<close> to \<open>CAmount\<close>, which comes before the cap of ten times the base reward, is undefined.
\<close>

theorem stake_reward_undefined: "CalculateStakeReward MAX_MONEY 0 default_params = None"
  by (rule CalculateStakeReward_MAX_MONEY)

lemma distribute_shares_overflow:
  assumes "\<exists>v \<in> set vs. INT64_MAX < R * v"
  shows "distribute_shares R T vs rs d = None"
  using assms
proof (induction vs arbitrary: rs d)
  case (Cons v vs)
  then show ?case
    by (cases "INT64_MAX < R * v") (auto simp: i64_def in_i64_def bind_eq_None_conv)
qed simp

lemma sum_list_update_int: "k < length xs \<Longrightarrow> sum_list (xs[k := x]) = sum_list xs + x - (xs ! k :: int)"
  by (induction xs arbitrary: k) (auto split: nat.splits)



text \<open>
  C28: The same function overflows exactly when the product of the total reward and some stake does
  not fit 64 bits.
\<close>

theorem pos_distribution_overflow:
  assumes "\<forall>v \<in> set vs. 0 \<le> v" "0 < sum_list vs" "sum_list vs \<le> INT64_MAX" "0 \<le> R" "R \<le> INT64_MAX"
  shows "pos_DistributeStakingRewards vs R rewards = None \<longleftrightarrow> (\<exists>v \<in> set vs. INT64_MAX < R * v)"
proof
  assume "\<exists>v \<in> set vs. INT64_MAX < R * v"
  moreover have "sum_i64 vs 0 = Some (sum_list vs)" using assms sum_i64_nonneg [of vs 0] by simp
  ultimately show "pos_DistributeStakingRewards vs R rewards = None"
    using assms(2) distribute_shares_overflow [of vs R]
    by (auto simp: pos_DistributeStakingRewards_def)
next
  assume "pos_DistributeStakingRewards vs R rewards = None"
  then show "\<exists>v \<in> set vs. INT64_MAX < R * v"
    using assms pos_DistributeStakingRewards_shares(1) [of vs R rewards] by (force simp: not_less)
qed

text \<open>With the block reward of 200 coins a stake of 4.62 coins is enough.\<close>

theorem pos_distribution_overflow_witness:
  "pos_DistributeStakingRewards [462000000] (nInitialBlockReward default_params) [] = None \<longleftrightarrow>
    (\<exists>v \<in> set [462000000]. INT64_MAX < nInitialBlockReward default_params * v)"
  by (rule pos_distribution_overflow) (simp_all add: INT64_MAX_def default_consts)

text \<open>
  \<open>DistributeStakingRewards\<close> of \<open>validation.cpp\<close> gives out the total reward when the last stake
  of the vector is positive; when it is not, the loop never reaches the branch that hands over the
  rest, and what is given is the sum of the floored shares.
\<close>

theorem distribution_total:
  assumes "vs \<noteq> []" "0 < R" "R \<le> INT64_MAX" "\<forall>v \<in> set vs. R * v \<le> INT64_MAX"
    and "0 < sum_list (filter (\<lambda>v. 0 < v) vs)" "sum_list (filter (\<lambda>v. 0 < v) vs) \<le> INT64_MAX"
  shows "DistributeStakingRewards vs R =
    Some (if 0 < last vs then R
          else sum_list (map (\<lambda>v. R * v div sum_list (filter (\<lambda>v. 0 < v) vs)) (filter (\<lambda>v. 0 < v) vs)))"
proof -
  let ?T = "sum_list (filter (\<lambda>v. 0 < v) vs)"
  have "sum_i64 (filter (\<lambda>v. 0 < v) vs) 0 = Some ?T" using assms(6) sum_i64_nonneg [of "filter (\<lambda>v. 0 < v) vs" 0] by auto
  moreover have "sum_list (map (\<lambda>v. R * v div ?T) (filter (\<lambda>v. 0 < v) vs)) \<le> R"
    using sum_shares_total(1) [OF assms(5), of R] .
  ultimately show ?thesis
    using assms distribute_loop_eq [of ?T R 0 R vs] by (simp add: DistributeStakingRewards_def)
qed

theorem distribution_total_witness:
  "DistributeStakingRewards [3, 3, 1, 0] 100 =
    Some (if 0 < last [3, 3, 1, 0 :: int] then 100
          else sum_list (map (\<lambda>v. 100 * v div sum_list (filter (\<lambda>v. 0 < v) [3, 3, 1, 0]))
            (filter (\<lambda>v. 0 < v) [3, 3, 1, 0])))"
  by (rule distribution_total) (simp_all add: INT64_MAX_def)

lemma daily_reward:
  assumes "0 < s" "s \<le> MAX_MONEY"
  shows "CalculateActualDailyStakingReward s ps = Some (with_bonus s (s div 100))"
    and "0 \<le> s div 100" "s div 100 \<le> 2 ^ 52"
proof -
  show b: "0 \<le> s div 100" "s div 100 \<le> 2 ^ 52"
    using assms zdiv_mono1 [of s MAX_MONEY 100] by (simp_all add: pos_imp_zdiv_nonneg_iff MAX_MONEY_def COIN_def)
  have "div_i64 s 100 = Some (s div 100)"
    using assms by (intro div_i64_nonneg) (simp_all add: MAX_MONEY_def COIN_def INT64_MAX_def)
  then show "CalculateActualDailyStakingReward s ps = Some (with_bonus s (s div 100))"
    using assms with_bonus_code(1) [OF assms(1) b] by (simp add: CalculateActualDailyStakingReward_def)
qed

text \<open>
  The daily reward of a stake within the money range is at least one percent of it and at most
  six fifths of that, rounded up, and a larger stake never earns less, across the three tiers of
  the bonus.
\<close>

theorem daily_reward_bounds:
  assumes "0 < s" "s \<le> t" "t \<le> MAX_MONEY"
  shows "\<exists>r r'. CalculateActualDailyStakingReward s ps = Some r \<and>
    CalculateExpectedDailyRewards t supply network ps = Some r' \<and>
    s div 100 \<le> r \<and> 5 * r < 6 * (s div 100) + 5 \<and> r \<le> r'"
proof -
  note S = daily_reward [where s = s] and T = daily_reward [where s = t]
  have "s div 100 \<le> with_bonus s (s div 100)" "5 * with_bonus s (s div 100) < 6 * (s div 100) + 5"
    using assms S(2,3) by (auto intro!: with_bonus_code)
  moreover have "with_bonus s (s div 100) \<le> with_bonus t (t div 100)"
    using assms S(2) by (intro with_bonus_mono zdiv_mono1) simp_all
  ultimately show ?thesis using assms S(1) [where ps = ps] T(1) [where ps = ps] by (simp add: CalculateExpectedDailyRewards_def)
qed

theorem daily_reward_bounds_witness:
  "\<exists>r r'. CalculateActualDailyStakingReward (10000 * COIN) default_params = Some r \<and>
    CalculateExpectedDailyRewards (50000 * COIN) 0 0 default_params = Some r' \<and>
    10000 * COIN div 100 \<le> r \<and> 5 * r < 6 * (10000 * COIN div 100) + 5 \<and> r \<le> r'"
  by (rule daily_reward_bounds) (simp_all add: MAX_MONEY_def COIN_def)

text \<open>
  \<open>CalculateIndividualStakingReward\<close>: the proportional share is multiplied by a factor of at
  most 1.2, so that a sole staker gets up to 20 percent more than the whole block reward; an overflow
  of the product \<open>nBlockReward * nStakeAmount\<close> leaves the result undefined.
\<close>

theorem individual_reward_bounds:
  assumes "0 < s" "0 < network" "0 \<le> R" "R * s div network \<le> 2 ^ 52"
  shows "if R * s \<le> INT64_MAX
    then \<exists>r. CalculateIndividualStakingReward s network R ps = Some r \<and>
      R * s div network \<le> r \<and> 5 * r < 6 * (R * s div network) + 5
    else CalculateIndividualStakingReward s network R ps = None"
proof -
  have p: "0 \<le> R * s" "0 \<le> R * s div network" using assms by (simp_all add: share_nonneg)
  have "\<exists>r. CalculateIndividualStakingReward s network R ps = Some r \<and>
      R * s div network \<le> r \<and> 5 * r < 6 * (R * s div network) + 5" if "R * s \<le> INT64_MAX"
    using that assms p with_bonus_code [OF assms(1) p(2) assms(4)]
    by (simp add: CalculateIndividualStakingReward_def i64_nonneg div_i64_nonneg)
  moreover have "CalculateIndividualStakingReward s network R ps = None" if "INT64_MAX < R * s"
    using that assms(1,2) by (simp add: CalculateIndividualStakingReward_def i64_def in_i64_def)
  ultimately show ?thesis by simp
qed

theorem individual_reward_bounds_witness:
  "if 1000 * (5 * COIN) \<le> INT64_MAX
    then \<exists>r. CalculateIndividualStakingReward (5 * COIN) (5 * COIN) 1000 default_params = Some r \<and>
      1000 * (5 * COIN) div (5 * COIN) \<le> r \<and> 5 * r < 6 * (1000 * (5 * COIN) div (5 * COIN)) + 5
    else CalculateIndividualStakingReward (5 * COIN) (5 * COIN) 1000 default_params = None"
  by (rule individual_reward_bounds) (simp_all add: COIN_def)

end
