(* ===== verification/Subsidy.thy ===== *)
theory Subsidy
  imports StakingRewards
begin

text \<open>
  Block subsidies and payments of \<open>src/validation.cpp\<close>: the proof-of-stake subsidy with its supply cap,
  the proof-of-work subsidy it falls back to, and the share of the masternodes. As in
  \<open>StakingRewards\<close>, \<open>None\<close> is undefined behaviour; the loop of the yearly decline, which may not
  end, has an outer \<open>None\<close> for not returning.
\<close>

section \<open>Parameters\<close>

definition INT32_MAX :: int where "INT32_MAX = 2147483647"

definition i32 :: "int \<Rightarrow> int option" where
  "i32 x = (if - INT32_MAX - 1 \<le> x \<and> x \<le> INT32_MAX then Some x else None)"

lemma i32_nonneg: "0 \<le> x \<Longrightarrow> x \<le> INT32_MAX \<Longrightarrow> i32 x = Some x"
  by (simp add: i32_def INT32_MAX_def)

text \<open>The further members of \<open>Consensus::Params\<close> that subsidies use.\<close>

record chain_params = params +
  nSubsidyHalvingInterval :: int
  nHighSubsidyBlocks :: int
  nHighSubsidyFactor :: int
  nBudgetPaymentsStartBlock :: int
  nMasternodePaymentsIncreaseBlock :: int
  nMasternodePaymentsIncreasePeriod :: int
  BRRHeight :: int
  nSuperblockCycle :: int

datatype network = MAIN | TESTNET | DEVNET | REGTEST

section \<open>Proof of stake\<close>

definition CalculateBaseStakingReward :: "CAmount \<Rightarrow> params \<Rightarrow> CAmount" where
  "CalculateBaseStakingReward nCurrentSupply consensusParams = nInitialBlockReward consensusParams"

definition CalculateStakingReward :: "int \<Rightarrow> CAmount \<Rightarrow> params \<Rightarrow> CAmount" where
  "CalculateStakingReward nHeight nCurrentSupply consensusParams =
     CalculateBaseStakingReward nCurrentSupply consensusParams"

function supply_loop :: "int \<Rightarrow> int \<Rightarrow> CAmount \<Rightarrow> params \<Rightarrow> CAmount option" where
  "supply_loop i nHeight nTotalSupply consensusParams =
     (if i \<le> nHeight then
        if nTotalSupply \<ge> nMaxSupply consensusParams then Some nTotalSupply
        else do {
          let nBlockReward = CalculateStakingReward i nTotalSupply consensusParams;
          t \<leftarrow> i64 (nTotalSupply + nBlockReward);
          if t > nMaxSupply consensusParams then Some (nMaxSupply consensusParams)
          else do {
            i' \<leftarrow> i32 (i + 1);
            supply_loop i' nHeight t consensusParams
          }
        }
      else Some nTotalSupply)"
  by pat_completeness auto

termination
  by (relation "measure (\<lambda>(i, nHeight, _). nat (nHeight + 1 - i))") (auto simp: i32_def split: if_splits)

declare supply_loop.simps [simp del]

definition GetBabaChainCirculatingSupply :: "int \<Rightarrow> params \<Rightarrow> CAmount option" where
  "GetBabaChainCirculatingSupply nHeight consensusParams =
     (if nHeight \<le> 0 then Some (nPremineAmount consensusParams)
      else supply_loop 1 nHeight (nPremineAmount consensusParams) consensusParams)"

definition GetBabaChainPoSSubsidy :: "int \<Rightarrow> params \<Rightarrow> CAmount option" where
  "GetBabaChainPoSSubsidy nHeight consensusParams =
     (if nHeight = 0 then Some (nPremineAmount consensusParams)
      else do {
        h \<leftarrow> i32 (nHeight - 1);
        nCurrentSupply \<leftarrow> GetBabaChainCirculatingSupply h consensusParams;
        if nCurrentSupply \<ge> nMaxSupply consensusParams then Some 0
        else do {
          let nStakingReward = CalculateStakingReward nHeight nCurrentSupply consensusParams;
          t \<leftarrow> i64 (nCurrentSupply + nStakingReward);
          if t > nMaxSupply consensusParams then i64 (nMaxSupply consensusParams - nCurrentSupply)
          else Some nStakingReward
        }
      })"

definition EnforceSupplyCap :: "int \<Rightarrow> params \<Rightarrow> bool option" where
  "EnforceSupplyCap nHeight consensusParams =
     do {
       nCurrentSupply \<leftarrow> GetBabaChainCirculatingSupply nHeight consensusParams;
       Some (nCurrentSupply \<le> nMaxSupply consensusParams)
     }"

section \<open>Proof of work\<close>

text \<open>The two scaling loops of \<open>ConvertBitsToDouble\<close>, and its result.\<close>

definition ConvertBitsToDouble :: "int \<Rightarrow> float64" where
  "ConvertBitsToDouble nBits =
     (let nShift = nat (nBits div 2 ^ 24 mod 256);
          dDiff = f64_div (f64_of_int 65535) (f64_of_int (nBits mod 2 ^ 24));
          dDiff = ((\<lambda>d. f64_mult d (Finite 256)) ^^ (29 - nShift)) dDiff
      in ((\<lambda>d. f64_div d (Finite 256)) ^^ (nShift - 29)) dDiff)"

text \<open>\<open>pow(x, 2.0)\<close>, rounded as a product.\<close>

definition f64_square :: "float64 \<Rightarrow> float64" where
  "f64_square x = f64_mult x x"

definition subsidy_base :: "float64 \<Rightarrow> int \<Rightarrow> bool \<Rightarrow> CAmount option" where
  "subsidy_base dDiff nPrevHeight force_fixed_base_subsidy =
     (if force_fixed_base_subsidy then Some 5
      else if nPrevHeight < 5465 then do {
        b \<leftarrow> f64_to_i64 (f64_div (Finite 1111) (f64_square (f64_add dDiff (Finite 1))));
        Some (if b > 500 then 500 else if b < 1 then 1 else b)
      } else if nPrevHeight < 17000 \<or> f64_le dDiff (Finite 75) \<and> nPrevHeight < 24000 then do {
        b \<leftarrow> f64_to_i64 (f64_div (Finite 11111)
          (f64_square (f64_div (f64_add dDiff (Finite 51)) (Finite 6))));
        Some (if b > 500 then 500 else if b < 25 then 25 else b)
      } else do {
        b \<leftarrow> f64_to_i64 (f64_div (Finite 2222222)
          (f64_square (f64_div (f64_add dDiff (Finite 2600)) (Finite 9))));
        Some (if b > 25 then 25 else if b < 5 then 5 else b)
      })"

text \<open>The yearly decline; \<open>interval\<close> is \<open>nSubsidyHalvingInterval\<close>.\<close>

partial_function (option) subsidy_decline ::
  "int \<Rightarrow> int \<Rightarrow> int \<Rightarrow> CAmount \<Rightarrow> CAmount option option"
where
  "subsidy_decline interval nPrevHeight i nSubsidy =
     (if i \<le> nPrevHeight then
        case i64 (nSubsidy - nSubsidy sdiv 14) of
          None \<Rightarrow> Some None
        | Some n \<Rightarrow> (case i32 (i + interval) of
            None \<Rightarrow> Some None
          | Some i' \<Rightarrow> subsidy_decline interval nPrevHeight i' n)
      else Some (Some nSubsidy))"

text \<open>What follows the loop; the assertion that only a devnet has blocks of high subsidy included.\<close>

definition subsidy_split ::
  "network \<Rightarrow> int \<Rightarrow> chain_params \<Rightarrow> bool \<Rightarrow> CAmount \<Rightarrow> (CAmount \<times> CAmount) option"
where
  "subsidy_split net nPrevHeight consensusParams fV20Active nSubsidy =
     do {
       nSubsidy \<leftarrow>
         (if nPrevHeight < nHighSubsidyBlocks consensusParams
          then if net = DEVNET then i64 (nSubsidy * nHighSubsidyFactor consensusParams) else None
          else Some nSubsidy);
       let nSuperblockPart =
         (if nPrevHeight > nBudgetPaymentsStartBlock consensusParams
          then nSubsidy sdiv (if fV20Active then 5 else 10) else 0);
       Some (nSubsidy - nSuperblockPart, nSuperblockPart)
     }"

definition GetBlockSubsidyHelper ::
  "network \<Rightarrow> int \<Rightarrow> int \<Rightarrow> chain_params \<Rightarrow> bool \<Rightarrow> (CAmount \<times> CAmount) option option"
where
  "GetBlockSubsidyHelper net nPrevBits nPrevHeight consensusParams fV20Active =
     (let dDiff =
            (if nPrevHeight \<le> 4500 \<and> net = MAIN
             then f64_div (f64_of_int 65535) (f64_of_int (nPrevBits mod 2 ^ 24))
             else ConvertBitsToDouble (nPrevBits mod 2 ^ 32));
          force_fixed_base_subsidy =
            (fV20Active \<or> net = DEVNET \<and> nPrevHeight \<ge> nHighSubsidyBlocks consensusParams)
      in case subsidy_base dDiff nPrevHeight force_fixed_base_subsidy of
           None \<Rightarrow> Some None
         | Some nSubsidyBase \<Rightarrow> do {
             nSubsidy \<leftarrow> subsidy_decline (nSubsidyHalvingInterval consensusParams) nPrevHeight
               (nSubsidyHalvingInterval consensusParams) (nSubsidyBase * COIN);
             Some (Option.bind nSubsidy (subsidy_split net nPrevHeight consensusParams fV20Active))
           })"

definition GetSuperblockSubsidyInner ::
  "network \<Rightarrow> int \<Rightarrow> int \<Rightarrow> chain_params \<Rightarrow> bool \<Rightarrow> CAmount option option"
where
  "GetSuperblockSubsidyInner net nPrevBits nPrevHeight consensusParams fV20Active =
     map_option (map_option snd) (GetBlockSubsidyHelper net nPrevBits nPrevHeight consensusParams fV20Active)"

definition GetBlockSubsidyInner ::
  "network \<Rightarrow> int \<Rightarrow> int \<Rightarrow> chain_params \<Rightarrow> bool \<Rightarrow> CAmount option option"
where
  "GetBlockSubsidyInner net nPrevBits nPrevHeight consensusParams fV20Active =
     (if nSubsidyHalvingInterval consensusParams = 0
      then Some (Option.bind (i32 (nPrevHeight + 1))
        (\<lambda>h. GetBabaChainPoSSubsidy h (params.truncate consensusParams)))
      else map_option (map_option fst)
        (GetBlockSubsidyHelper net nPrevBits nPrevHeight consensusParams fV20Active))"

text \<open>
  \<open>pprev\<close> is the previous index' \<open>nBits\<close> and \<open>nHeight\<close>; the value of the genesis output and the state
  of the V20 deployment are arguments.
\<close>

definition GetBlockSubsidy ::
  "network \<Rightarrow> CAmount \<Rightarrow> int \<Rightarrow> (int \<times> int) option \<Rightarrow> chain_params \<Rightarrow> bool \<Rightarrow> CAmount option option"
where
  "GetBlockSubsidy net genesisValueOut nHeight pprev consensusParams isV20Active =
     (case pprev of
        None \<Rightarrow> Some (Some genesisValueOut)
      | Some (nPrevBits, nPrevHeight) \<Rightarrow>
          if nSubsidyHalvingInterval consensusParams = 0
          then Some (GetBabaChainPoSSubsidy nHeight (params.truncate consensusParams))
          else GetBlockSubsidyInner net nPrevBits nPrevHeight consensusParams isV20Active)"

section \<open>Masternode payments\<close>

definition vecPeriods :: "int list" where
  "vecPeriods = [513, 526, 533, 540, 546, 552, 557, 562, 567, 572, 577, 582, 585, 588, 591, 594, 597, 599, 600]"

text \<open>
  The increases: the multiple of the period after which each applies, and the divisor of the block
  value it adds.
\<close>

definition masternode_increases :: "(int \<times> int) list" where
  "masternode_increases =
     [(0, 20), (1, 20), (2, 20), (3, 40), (4, 40), (5, 40), (6, 40), (7, 40), (9, 40)]"

primrec increase_loop ::
  "int \<Rightarrow> CAmount \<Rightarrow> chain_params \<Rightarrow> (int \<times> int) list \<Rightarrow> CAmount \<Rightarrow> CAmount option"
where
  "increase_loop nHeight blockValue ps [] ret = Some ret"
| "increase_loop nHeight blockValue ps (x # xs) ret = do {
     m \<leftarrow> i32 (nMasternodePaymentsIncreasePeriod ps * fst x);
     h \<leftarrow> i32 (nMasternodePaymentsIncreaseBlock ps + m);
     ret \<leftarrow> (if nHeight > h then i64 (ret + blockValue sdiv snd x) else Some ret);
     increase_loop nHeight blockValue ps xs ret
   }"

definition GetMasternodePayment :: "int \<Rightarrow> CAmount \<Rightarrow> bool \<Rightarrow> chain_params \<Rightarrow> CAmount option" where
  "GetMasternodePayment nHeight blockValue fV20Active ps =
     do {
       ret \<leftarrow> increase_loop nHeight blockValue ps masternode_increases (blockValue sdiv 5);
       if nHeight < BRRHeight ps then Some ret
       else if nSuperblockCycle ps = 0 then None
       else do {
         d \<leftarrow> i32 (BRRHeight ps - BRRHeight ps smod nSuperblockCycle ps);
         nReallocStart \<leftarrow> i32 (d + nSuperblockCycle ps);
         if nHeight < nReallocStart then Some ret
         else if fV20Active then do { m \<leftarrow> i64 (blockValue * 3); Some (m sdiv 4) }
         else do {
           nReallocCycle \<leftarrow> i32 (nSuperblockCycle ps * 3);
           n \<leftarrow> i32 (nHeight - nReallocStart);
           let nCurrentPeriod = min (n sdiv nReallocCycle) 18;
           m \<leftarrow> (if nCurrentPeriod < 0 then None else i64 (blockValue * vecPeriods ! nat nCurrentPeriod));
           Some (m sdiv 1000)
         }
       }
     }"

section \<open>The supply\<close>

lemma CalculateStakingReward [simp]: "CalculateStakingReward h s ps = nInitialBlockReward ps"
  by (simp add: CalculateStakingReward_def CalculateBaseStakingReward_def)

text \<open>Parameters for which the supply cannot overflow; those of every network are of this kind.\<close>

definition supply_params :: "params \<Rightarrow> bool" where
  "supply_params ps \<longleftrightarrow> 0 \<le> nPremineAmount ps \<and> nPremineAmount ps \<le> nMaxSupply ps \<and>
     0 \<le> nInitialBlockReward ps \<and> nMaxSupply ps + nInitialBlockReward ps \<le> INT64_MAX"

definition supply_at :: "int \<Rightarrow> params \<Rightarrow> CAmount" where
  "supply_at h ps = min (nMaxSupply ps) (nPremineAmount ps + max 0 h * nInitialBlockReward ps)"

lemma supply_loop_closed:
  assumes "0 \<le> t" "t \<le> nMaxSupply ps" "0 \<le> nInitialBlockReward ps"
    "nMaxSupply ps + nInitialBlockReward ps \<le> INT64_MAX" "0 \<le> i" "h < INT32_MAX"
  shows "supply_loop i h t ps =
    Some (min (nMaxSupply ps) (t + max 0 (h + 1 - i) * nInitialBlockReward ps))"
  using assms
proof (induction i h t ps rule: supply_loop.induct)
  case (1 i h t ps)
  let ?r = "nInitialBlockReward ps"
  show ?case
  proof (cases "i \<le> h \<and> t < nMaxSupply ps")
    case False
    moreover have "0 \<le> max 0 (h + 1 - i) * ?r" "h < i \<Longrightarrow> max 0 (h + 1 - i) * ?r = 0" using 1 by simp_all
    ultimately have "min (nMaxSupply ps) (t + max 0 (h + 1 - i) * ?r) = t" using 1 by linarith
    with False show ?thesis by (subst supply_loop.simps) auto
  next
    case True
    have t: "i64 (t + ?r) = Some (t + ?r)" "i32 (i + 1) = Some (i + 1)"
      using 1 True by (simp_all add: i64_nonneg i32_nonneg)
    have n: "max 0 (h + 1 - i) * ?r = ?r + max 0 (h + 1 - (i + 1)) * ?r"
      using True by (simp add: max_def algebra_simps)
    have "0 \<le> max 0 (h + 1 - (i + 1)) * ?r" using 1 by simp
    show ?thesis
    proof (cases "t + ?r \<le> nMaxSupply ps")
      case le: True
      have "supply_loop (i + 1) h (t + ?r) ps =
          Some (min (nMaxSupply ps) (t + ?r + max 0 (h + 1 - (i + 1)) * ?r))"
        using 1(2-) True le t by (intro 1(1)) simp_all
      with True le t n show ?thesis by (subst supply_loop.simps) (simp add: add.assoc)
    next
      case False
      have "min (nMaxSupply ps) (t + max 0 (h + 1 - i) * ?r) = nMaxSupply ps"
        unfolding n using False \<open>0 \<le> max 0 (h + 1 - (i + 1)) * ?r\<close> by linarith
      with True False t show ?thesis by (subst supply_loop.simps) simp
    qed
  qed
qed

lemma circulating_supply:
  assumes "supply_params ps" "h < INT32_MAX"
  shows "GetBabaChainCirculatingSupply h ps = Some (supply_at h ps)"
proof (cases "h \<le> 0")
  case True
  then show ?thesis
    using assms(1) by (simp add: GetBabaChainCirculatingSupply_def supply_at_def supply_params_def)
next
  case False
  then have "supply_loop 1 h (nPremineAmount ps) ps = Some (supply_at h ps)"
    using assms supply_loop_closed [of "nPremineAmount ps" ps 1 h]
    by (simp add: supply_params_def supply_at_def)
  with False show ?thesis by (simp add: GetBabaChainCirculatingSupply_def)
qed

lemma supply_bounds:
  assumes "supply_params ps"
  shows "0 \<le> supply_at h ps" "supply_at h ps \<le> nMaxSupply ps"
  using assms by (auto simp: supply_at_def supply_params_def)

lemma supply_step:
  assumes "supply_params ps" "0 < h"
  shows "supply_at h ps = min (nMaxSupply ps) (supply_at (h - 1) ps + nInitialBlockReward ps)"
proof -
  have "max 0 h * nInitialBlockReward ps = max 0 (h - 1) * nInitialBlockReward ps + nInitialBlockReward ps"
    using assms(2) by (simp add: algebra_simps)
  moreover have "0 \<le> nInitialBlockReward ps" using assms(1) by (simp add: supply_params_def)
  ultimately show ?thesis unfolding supply_at_def by linarith
qed

lemma PoSSubsidy_step:
  assumes "supply_params ps" "0 < h" "h < INT32_MAX"
  shows "GetBabaChainPoSSubsidy h ps = Some (supply_at h ps - supply_at (h - 1) ps)"
proof -
  have "i32 (h - 1) = Some (h - 1)" "GetBabaChainCirculatingSupply (h - 1) ps = Some (supply_at (h - 1) ps)"
    using assms circulating_supply [of ps "h - 1"] by (simp_all add: i32_nonneg)
  moreover have "i64 (supply_at (h - 1) ps + nInitialBlockReward ps) = Some (supply_at (h - 1) ps + nInitialBlockReward ps)"
    "i64 (nMaxSupply ps - supply_at (h - 1) ps) = Some (nMaxSupply ps - supply_at (h - 1) ps)"
    using supply_bounds [OF assms(1), of "h - 1"] assms(1) by (auto simp: supply_params_def intro!: i64_nonneg)
  ultimately show ?thesis
    using assms supply_step [OF assms(1,2)] supply_bounds [OF assms(1), of "h - 1"]
    by (auto simp: GetBabaChainPoSSubsidy_def supply_params_def Let_def min_def)
qed

text \<open>
  The supply at a height is the premine and a constant reward per block, cut at the cap: no
  reduction phases, and \<open>EnforceSupplyCap\<close> never fails.
\<close>

theorem supply_closed_form:
  assumes "0 \<le> nPremineAmount ps" "nPremineAmount ps \<le> nMaxSupply ps" "0 \<le> nInitialBlockReward ps"
    and "nMaxSupply ps + nInitialBlockReward ps \<le> INT64_MAX" "0 \<le> h" "h < INT32_MAX"
  shows "GetBabaChainCirculatingSupply h ps =
      Some (min (nMaxSupply ps) (nPremineAmount ps + h * nInitialBlockReward ps)) \<and>
    EnforceSupplyCap h ps = Some True"
  using assms circulating_supply [of ps h] supply_bounds(2) [of ps h]
  by (simp add: EnforceSupplyCap_def supply_params_def supply_at_def)

theorem supply_closed_form_witness:
  "GetBabaChainCirculatingSupply 1000 default_params =
      Some (min (nMaxSupply default_params)
        (nPremineAmount default_params + 1000 * nInitialBlockReward default_params)) \<and>
    EnforceSupplyCap 1000 default_params = Some True"
  by (rule supply_closed_form) (simp_all add: default_params_def COIN_def INT64_MAX_def INT32_MAX_def)

lemma sum_subsidies:
  assumes "supply_params ps" "int n < INT32_MAX"
  shows "(\<Sum>k\<le>n. the (GetBabaChainPoSSubsidy (int k) ps)) = supply_at (int n) ps"
  using assms(2)
proof (induction n)
  case 0
  then show ?case
    using assms(1) by (simp add: GetBabaChainPoSSubsidy_def supply_at_def supply_params_def)
next
  case (Suc n)
  then show ?case using PoSSubsidy_step [OF assms(1), of "int (Suc n)"] by simp
qed

text \<open>
  C12: The subsidies of the blocks up to a height, the premine of the genesis block included, add up
  to the circulating supply of the height, and so never exceed \<open>nMaxSupply\<close>; each of them is defined.
\<close>

theorem subsidies_sum_to_supply:
  assumes "0 \<le> nPremineAmount ps" "nPremineAmount ps \<le> nMaxSupply ps" "0 \<le> nInitialBlockReward ps"
    and "nMaxSupply ps + nInitialBlockReward ps \<le> INT64_MAX" "int n < INT32_MAX"
  shows "\<exists>f. (\<forall>k \<le> n. GetBabaChainPoSSubsidy (int k) ps = Some (f k) \<and> 0 \<le> f k) \<and>
    GetBabaChainCirculatingSupply (int n) ps = Some (sum f {..n}) \<and> sum f {..n} \<le> nMaxSupply ps"
proof -
  have ps: "supply_params ps" using assms by (simp add: supply_params_def)
  let ?f = "\<lambda>k. the (GetBabaChainPoSSubsidy (int k) ps)"
  have "GetBabaChainPoSSubsidy (int k) ps = Some (?f k) \<and> 0 \<le> ?f k" if "k \<le> n" for k
  proof (cases "k = 0")
    case True
    then show ?thesis using assms(1) by (simp add: GetBabaChainPoSSubsidy_def)
  next
    case False
    then show ?thesis
      using that assms(3,5) PoSSubsidy_step [OF ps, of "int k"] supply_step [OF ps, of "int k"]
        supply_bounds(2) [OF ps, of "int k - 1"] by auto
  qed
  then show ?thesis
    using circulating_supply [OF ps assms(5)] sum_subsidies [OF ps assms(5)] supply_bounds(2) [OF ps]
    by (intro exI [of _ ?f]) simp
qed

theorem subsidies_sum_to_supply_witness:
  "\<exists>f. (\<forall>k \<le> 3. GetBabaChainPoSSubsidy (int k) default_params = Some (f k) \<and> 0 \<le> f k) \<and>
    GetBabaChainCirculatingSupply (int 3) default_params = Some (sum f {..3}) \<and>
    sum f {..3} \<le> nMaxSupply default_params"
  by (rule subsidies_sum_to_supply) (simp_all add: default_params_def COIN_def INT64_MAX_def INT32_MAX_def)

section \<open>The yearly decline\<close>

lemma decline_step: "0 \<le> n \<Longrightarrow> n \<le> INT64_MAX \<Longrightarrow>
    i64 (n - n sdiv 14) = Some (n - n div 14) \<and> 0 \<le> n - n div 14 \<and> n - n div 14 \<le> n" for n :: int
proof -
  assume n: "0 \<le> n" "n \<le> INT64_MAX"
  then have "0 \<le> n div 14" "n div 14 \<le> n" using zdiv_mono2 [of n 1 14] by (simp_all add: pos_imp_zdiv_nonneg_iff)
  with n show ?thesis by (simp add: sdiv_nonneg i64_nonneg)
qed

lemma subsidy_decline_no_zero:
  assumes "subsidy_decline k h i n = Some r"
  shows "\<not> (k = 0 \<and> 0 \<le> i \<and> i \<le> h \<and> h \<le> INT32_MAX \<and> 0 \<le> n \<and> n \<le> INT64_MAX)"
proof (rule subsidy_decline.raw_induct [where P = "\<lambda>k h i n (r :: CAmount option).
    \<not> (k = 0 \<and> 0 \<le> i \<and> i \<le> h \<and> h \<le> INT32_MAX \<and> 0 \<le> n \<and> n \<le> INT64_MAX)", OF _ assms])
  fix f k h i n and r :: "CAmount option"
  assume IH: "\<And>k h i n r. f k h i n = Some r \<Longrightarrow>
      \<not> (k = 0 \<and> 0 \<le> i \<and> i \<le> h \<and> h \<le> INT32_MAX \<and> 0 \<le> n \<and> n \<le> INT64_MAX)"
    and eq: "(if i \<le> h then
        case i64 (n - n sdiv 14) of None \<Rightarrow> Some None
        | Some n \<Rightarrow> (case i32 (i + k) of None \<Rightarrow> Some None | Some i' \<Rightarrow> f k h i' n)
      else Some (Some n)) = Some r"
  show "\<not> (k = 0 \<and> 0 \<le> i \<and> i \<le> h \<and> h \<le> INT32_MAX \<and> 0 \<le> n \<and> n \<le> INT64_MAX)"
  proof
    assume a: "k = 0 \<and> 0 \<le> i \<and> i \<le> h \<and> h \<le> INT32_MAX \<and> 0 \<le> n \<and> n \<le> INT64_MAX"
    then have "f k h i (n - n div 14) = Some r"
      using eq decline_step [of n] by (simp add: i32_nonneg)
    from IH [OF this] a decline_step [of n] show False by auto
  qed
qed

lemma subsidy_decline_zero:
  "0 \<le> n \<Longrightarrow> n \<le> INT64_MAX \<Longrightarrow> 0 \<le> i \<Longrightarrow> i \<le> h \<Longrightarrow> h \<le> INT32_MAX \<Longrightarrow> subsidy_decline 0 h i n = None"
  using subsidy_decline_no_zero [of 0 h i n] by (cases "subsidy_decline 0 h i n") auto

lemma subsidy_decline_returns:
  assumes "0 < k" "0 \<le> n" "n \<le> INT64_MAX" "0 \<le> i" "h + k \<le> INT32_MAX"
  shows "subsidy_decline k h i n =
    Some (Some (((\<lambda>s. s - s div 14) ^^ nat ((h + k - i) div k)) n))"
  using assms
proof (induction "nat (h + k - i)" arbitrary: i n rule: less_induct)
  case less
  show ?case
  proof (cases "i \<le> h")
    case True
    have n: "0 \<le> n - n div 14" "n - n div 14 \<le> n" "i64 (n - n sdiv 14) = Some (n - n div 14)"
      using decline_step [OF less.prems(2,3)] by simp_all
    have "h + k - i = (h + k - (i + k)) + k" by simp
    then have "(h + k - i) div k = (h + k - (i + k)) div k + 1" using less.prems(1)
      by (metis div_add_self2 less_irrefl)
    moreover have "0 \<le> (h + k - (i + k)) div k"
      using True less.prems(1) by (simp add: pos_imp_zdiv_nonneg_iff)
    ultimately have s: "nat ((h + k - i) div k) = Suc (nat ((h + k - (i + k)) div k))" by simp
    have "subsidy_decline k h (i + k) (n - n div 14) =
        Some (Some (((\<lambda>s. s - s div 14) ^^ nat ((h + k - (i + k)) div k)) (n - n div 14)))"
      using less.prems n True by (intro less.hyps) simp_all
    with True n less.prems show ?thesis
      unfolding s by (subst subsidy_decline.simps) (simp add: i32_nonneg funpow_Suc_right del: funpow.simps)
  next
    case False
    have "(h + k - i) div k \<le> 0"
    proof (cases "0 \<le> h + k - i")
      case True
      then show ?thesis using False less.prems(1) by (simp add: div_pos_pos_trivial)
    next
      case f: False
      then show ?thesis using less.prems(1) div_neg_pos_less0 [of "h + k - i" k] by simp
    qed
    with False show ?thesis by (subst subsidy_decline.simps) simp
  qed
qed

text \<open>
  The loop of the yearly decline returns exactly when \<open>nSubsidyHalvingInterval\<close> is not zero, and
  then it has taken a fourteenth off once for every full interval.
\<close>

theorem subsidy_decline_termination:
  assumes "0 \<le> k" "0 \<le> h" "h + k \<le> INT32_MAX" "0 \<le> n" "n \<le> INT64_MAX"
  shows "subsidy_decline k h k n =
    (if k = 0 then None else Some (Some (((\<lambda>s. s - s div 14) ^^ nat (h div k)) n)))"
  using assms subsidy_decline_zero [of n 0 h] subsidy_decline_returns [of k n k h] by simp

theorem subsidy_decline_termination_witness:
  "subsidy_decline 100 250 100 (500 * COIN) =
    (if (100 :: int) = 0 then None else Some (Some (((\<lambda>s. s - s div 14) ^^ nat (250 div 100)) (500 * COIN))))"
  by (rule subsidy_decline_termination) (simp_all add: INT32_MAX_def COIN_def INT64_MAX_def)

lemma helper_diverges:
  assumes "nSubsidyHalvingInterval ps = 0" "0 \<le> h" "h \<le> INT32_MAX"
  shows "GetBlockSubsidyHelper net bits h ps True = None"
  using assms subsidy_decline_zero [of "5 * COIN" 0 h]
  by (simp add: GetBlockSubsidyHelper_def subsidy_base_def COIN_def INT64_MAX_def Let_def)


definition main_params :: chain_params where
  "main_params = params.extend default_params
     \<lparr>nSubsidyHalvingInterval = 0, nHighSubsidyBlocks = 0, nHighSubsidyFactor = 1,
      nBudgetPaymentsStartBlock = 328008, nMasternodePaymentsIncreaseBlock = 158000,
      nMasternodePaymentsIncreasePeriod = 17280, BRRHeight = 1374912, nSuperblockCycle = 16616\<rparr>"


section \<open>The masternode share\<close>

lemma increase_loop_bounds:
  assumes "0 \<le> v" "0 \<le> r" "r + (\<Sum>x\<leftarrow>xs. v div snd x) \<le> INT64_MAX" "\<forall>x \<in> set xs. 0 < snd x \<and> 0 \<le> fst x \<and> fst x \<le> 9"
    and "0 \<le> nMasternodePaymentsIncreasePeriod ps" "0 \<le> nMasternodePaymentsIncreaseBlock ps"
    "nMasternodePaymentsIncreaseBlock ps + 9 * nMasternodePaymentsIncreasePeriod ps \<le> INT32_MAX"
  shows "\<exists>r'. increase_loop h v ps xs r = Some r' \<and> r \<le> r' \<and> r' \<le> r + (\<Sum>x\<leftarrow>xs. v div snd x)"
  using assms(2-4)
proof (induction xs arbitrary: r)
  case (Cons x xs)
  let ?p = "nMasternodePaymentsIncreasePeriod ps" and ?b = "nMasternodePaymentsIncreaseBlock ps"
  have "?p * fst x \<le> 9 * ?p" using mult_right_mono [of "fst x" 9 ?p] Cons.prems(3) assms(5) by (simp add: mult.commute)
  moreover have "0 \<le> ?p * fst x" using Cons.prems(3) assms(5) by simp
  ultimately have i: "i32 (?p * fst x) = Some (?p * fst x)" "i32 (?b + ?p * fst x) = Some (?b + ?p * fst x)"
    using assms(6,7) by (simp_all add: i32_nonneg)
  have d: "0 \<le> v div snd x" "v sdiv snd x = v div snd x"
    using Cons.prems(3) assms(1) by (simp_all add: pos_imp_zdiv_nonneg_iff sdiv_nonneg)
  have S: "0 \<le> (\<Sum>x\<leftarrow>xs. v div snd x)"
    using Cons.prems(3) assms(1) by (intro sum_list_nonneg) (auto simp: pos_imp_zdiv_nonneg_iff)
  define r1 where "r1 = (if h > ?b + ?p * fst x then r + v div snd x else r)"
  have r1: "0 \<le> r1" "r \<le> r1" "r1 \<le> r + v div snd x" using Cons.prems(1) d by (simp_all add: r1_def)
  have "increase_loop h v ps (x # xs) r = increase_loop h v ps xs r1"
    using i d Cons.prems(1,2) S by (simp add: r1_def i64_nonneg)
  moreover have "\<exists>r'. increase_loop h v ps xs r1 = Some r' \<and> r1 \<le> r' \<and> r' \<le> r1 + (\<Sum>x\<leftarrow>xs. v div snd x)"
    using Cons.prems r1 by (intro Cons.IH) simp_all
  ultimately show ?case using r1 by auto
qed simp

lemma vecPeriods_bounds: "n < 19 \<Longrightarrow> 513 \<le> vecPeriods ! n \<and> vecPeriods ! n \<le> 600"
proof -
  assume "n < 19"
  then have "vecPeriods ! n \<in> set vecPeriods" by (intro nth_mem) (simp add: vecPeriods_def)
  then show ?thesis by (auto simp: vecPeriods_def)
qed

text \<open>
  For a block value up to ten million coins and parameters as every network has them, the
  masternode payment is defined at every height and lies between a fifth and three quarters of the
  value.
\<close>

theorem masternode_payment_bounds:
  assumes "0 \<le> v" "v \<le> 10000000 * COIN" "0 \<le> h" "h \<le> INT32_MAX"
    and "0 \<le> nMasternodePaymentsIncreasePeriod ps" "0 \<le> nMasternodePaymentsIncreaseBlock ps"
      "nMasternodePaymentsIncreaseBlock ps + 9 * nMasternodePaymentsIncreasePeriod ps \<le> INT32_MAX"
    and "0 \<le> BRRHeight ps" "0 < nSuperblockCycle ps" "BRRHeight ps + nSuperblockCycle ps \<le> INT32_MAX"
      "nSuperblockCycle ps * 3 \<le> INT32_MAX"
  shows "\<exists>r. GetMasternodePayment h v V20 ps = Some r \<and> v div 5 \<le> r \<and> r \<le> 3 * v div 4"
proof -
  let ?c = "nSuperblockCycle ps" and ?b = "BRRHeight ps"
  let ?S = "\<Sum>x\<leftarrow>masternode_increases. v div snd x"
  have "3 * (v div 20) + 6 * (v div 40) \<le> 3 * v div 4 - v div 5"
  proof (cases "v < 3")
    case True
    then have "v = 0 \<or> v = 1 \<or> v = 2" using assms(1) by auto
    then show ?thesis by auto
  qed linarith
  then have S: "?S \<le> 3 * v div 4 - v div 5" by (simp add: masternode_increases_def)
  have v4: "3 * v div 4 \<le> INT64_MAX" using assms(2) by (simp add: INT64_MAX_def COIN_def)
  have "0 \<le> v div 5" using assms(1) by (simp add: pos_imp_zdiv_nonneg_iff)
  then obtain r0 where r0: "increase_loop h v ps masternode_increases (v div 5) = Some r0"
      "v div 5 \<le> r0" "r0 \<le> 3 * v div 4"
    using increase_loop_bounds [of v "v div 5" masternode_increases ps h] assms S v4
    by (force simp: masternode_increases_def)
  have m: "0 \<le> ?b mod ?c" "?b mod ?c \<le> ?b" "?b smod ?c = ?b mod ?c"
    using assms(8,9) by (simp_all add: zmod_le_nonneg_dividend smod_mod_positive)
  define st where "st = ?b - ?b mod ?c + ?c"
  have st: "i32 (?b - ?b mod ?c) = Some (?b - ?b mod ?c)" "i32 st = Some st" "0 \<le> st"
    unfolding st_def using m(1,2) assms(8-10)
    by - ((rule i32_nonneg; linarith)+, linarith)
  have "i64 (v * 3) = Some (v * 3)" "(v * 3) sdiv 4 = v * 3 div 4" "v div 5 \<le> v * 3 div 4"
    using assms(1,2) by (simp_all add: i64_nonneg INT64_MAX_def COIN_def sdiv_nonneg)
  moreover have "\<exists>r. (let nCurrentPeriod = min ((h - st) sdiv (?c * 3)) 18 in
      Option.bind (if nCurrentPeriod < 0 then None else i64 (v * vecPeriods ! nat nCurrentPeriod))
        (\<lambda>m. Some (m sdiv 1000))) = Some r \<and> v div 5 \<le> r \<and> r \<le> 3 * v div 4" if "st \<le> h"
  proof -
    define n where "n = min ((h - st) div (?c * 3)) 18"
    have n: "0 \<le> n" "n \<le> 18" using that assms(9) by (simp_all add: n_def pos_imp_zdiv_nonneg_iff)
    then have p: "513 \<le> vecPeriods ! nat n" "vecPeriods ! nat n \<le> 600" using vecPeriods_bounds [of "nat n"] by simp_all
    have b: "513 * v \<le> v * vecPeriods ! nat n" "v * vecPeriods ! nat n \<le> 600 * v"
      using mult_left_mono [OF p(1) assms(1)] mult_left_mono [OF p(2) assms(1)] by (simp_all add: mult.commute)
    define m where "m = v * vecPeriods ! nat n"
    have "0 \<le> m" "m \<le> INT64_MAX" "v div 5 \<le> m div 1000" "m div 1000 \<le> 3 * v div 4"
      using b assms(1,2) unfolding m_def [symmetric] by (simp_all add: INT64_MAX_def COIN_def)
    then show ?thesis
      using n that assms(9) by (simp add: Let_def sdiv_nonneg n_def [symmetric] m_def [symmetric] i64_nonneg)
  qed
  ultimately show ?thesis
    using r0 m st assms
    by (auto simp: GetMasternodePayment_def sdiv_nonneg i32_nonneg st_def [symmetric] mult.commute)
qed

theorem masternode_payment_bounds_witness:
  "\<exists>r. GetMasternodePayment 2000000 (200 * COIN) False main_params = Some r \<and>
    200 * COIN div 5 \<le> r \<and> r \<le> 3 * (200 * COIN) div 4"
  by (rule masternode_payment_bounds)
    (simp_all add: main_params_def params.defs default_params_def COIN_def INT32_MAX_def)

end
