(* ===== verification/VarInt.thy ===== *)
theory VarInt
  imports Serialize
begin

text \<open>
  Variable-length integers (\<open>src/serialize.h\<close>): base-128 digits, the most significant first, one subtracted
  from all but the last. The reader accepts exactly what the writer writes, for every unsigned type.
\<close>

section \<open>Variable-length integers\<close>

lemma varint_step_less:
  fixes n :: "'a::len word"
  assumes "\<not> n \<le> 0x7F"
  shows "drop_bit 7 n - 1 < n"
proof (cases "LENGTH('a) \<le> 7")
  case True
  have "(mask 7 :: nat) = 127" by (simp add: mask_eq_exp_minus_1)
  then have "(0x7F :: 'a word) = mask 7" by (metis of_nat_mask_eq of_nat_numeral)
  also have "\<dots> = - 1" using True by (intro bit_word_eqI) (auto simp: bit_simps)
  finally have m: "(0x7F :: 'a word) = - 1" .
  have "n \<le> 0x7F" unfolding m by (rule word_order.extremum)
  with assms show ?thesis by contradiction
next
  case False
  then have "(127 :: nat) < 2 ^ LENGTH('a)"
    using power_increasing [of 8 "LENGTH('a)" "2 :: nat"] by simp
  then have u: "unat (0x7F :: 'a word) = 127" by (simp add: unsigned_numeral take_bit_eq_mod)
  have n: "127 < unat n" using assms u by (simp add: word_le_nat_alt)
  have d: "unat (drop_bit 7 n) = unat n div 128" by (simp only: unsigned_drop_bit_eq) (simp add: drop_bit_eq_div take_bit_nat_eq_self)
  with n have "1 \<le> unat (drop_bit 7 n)" by simp
  then have "unat (drop_bit 7 n - 1) = unat n div 128 - 1"
    using d by (simp add: unat_sub word_le_nat_alt)
  also have "\<dots> < unat n" using n by simp
  finally show ?thesis by (simp add: word_less_nat_alt)
qed

text \<open>The array \<open>tmp\<close>, from index 0; \<open>cont\<close> is \<open>len != 0\<close>.\<close>

function varint_tmp :: "bool \<Rightarrow> 'a::len word \<Rightarrow> bytes" where
  "varint_tmp cont n =
     (ucast (n AND 0x7F) OR (if cont then 0x80 else 0)) #
     (if n \<le> 0x7F then [] else varint_tmp True (drop_bit 7 n - 1))"
  by pat_completeness auto
termination
  by (relation "measure (\<lambda>(cont, n). unat n)") (auto simp: varint_step_less simp flip: word_less_nat_alt)

declare varint_tmp.simps [simp del]

definition WriteVarInt :: "'a::len word \<Rightarrow> bytes" where
  "WriteVarInt n = rev (varint_tmp False n)"

function GetSizeOfVarInt :: "'a::len word \<Rightarrow> nat" where
  "GetSizeOfVarInt n = (if n \<le> 0x7F then 1 else Suc (GetSizeOfVarInt (drop_bit 7 n - 1)))"
  by pat_completeness auto
termination
  by (relation "measure unat") (auto simp: varint_step_less simp flip: word_less_nat_alt)

declare GetSizeOfVarInt.simps [simp del]

text \<open>\<open>- 1\<close> is the largest value of the type.\<close>

fun ReadVarInt_loop :: "'a::len word \<Rightarrow> 'a word reader" where
  "ReadVarInt_loop n [] = Inl EndOfData"
| "ReadVarInt_loop n (chData # s) =
     (if n > drop_bit 7 (- 1) then Inl SizeTooLarge
      else
        let n = push_bit 7 n OR ucast (chData AND 0x7F)
        in if chData AND 0x80 \<noteq> 0
           then if n = - 1 then Inl SizeTooLarge else ReadVarInt_loop (n + 1) s
           else Inr (n, s))"

definition ReadVarInt :: "'a::len word reader" where
  "ReadVarInt = ReadVarInt_loop 0"

section \<open>Variable-length integers are a canonical code\<close>

lemma seven_f: "(0x7F :: 'a::len word) = mask 7"
proof -
  have "(mask 7 :: nat) = 127" by (simp add: mask_eq_exp_minus_1)
  then show ?thesis by (metis of_nat_mask_eq of_nat_numeral)
qed

lemma bit_80_int: "bit (128 :: int) k \<longleftrightarrow> k = 7"
proof -
  have "(128 :: int) = push_bit 7 1" by simp
  then have "bit (128 :: int) k \<longleftrightarrow> bit (push_bit 7 1 :: int) k" by metis
  then show ?thesis by (simp only: bit_push_bit_iff_int bit_1_iff) auto
qed

lemma bit_80 [simp]: "bit (128 :: u8) k \<longleftrightarrow> k = 7"
proof -
  have "(128 :: u8) = push_bit 7 1" by simp
  then have "bit (128 :: u8) k \<longleftrightarrow> bit (push_bit 7 1 :: u8) k" by metis
  then show ?thesis by (simp only: bit_push_bit_iff bit_1_iff possible_bit_word) auto
qed

lemma le_7f_iff: "8 \<le> LENGTH('a::len) \<Longrightarrow> (n :: 'a word) \<le> 0x7F \<longleftrightarrow> drop_bit 7 n = 0"
proof -
  assume l: "8 \<le> LENGTH('a)"
  then have "(127 :: nat) < 2 ^ LENGTH('a)"
    using power_increasing [of 8 "LENGTH('a)" "2 :: nat"] by simp
  then have u: "unat (0x7F :: 'a word) = 127" by (simp add: unsigned_numeral take_bit_eq_mod)
  have d: "unat (drop_bit 7 n) = unat n div 128"
    by (simp only: unsigned_drop_bit_eq) (simp add: drop_bit_eq_div take_bit_nat_eq_self)
  have "n \<le> 0x7F \<longleftrightarrow> unat n \<le> 127" by (simp only: word_le_nat_alt u)
  also have "\<dots> \<longleftrightarrow> unat (drop_bit 7 n) = 0" by (simp only: d) auto
  finally show ?thesis by (simp only: unsigned_0 word_unat_eq_iff)
qed

text \<open>One digit: the accumulator before, the new one, and the byte.\<close>

lemma varint_digit:
  fixes a :: "'a::len word" and b :: u8
  assumes "8 \<le> LENGTH('a)" "a \<le> drop_bit 7 (- 1)"
  defines "n \<equiv> push_bit 7 a OR ucast (b AND 0x7F)"
  shows "drop_bit 7 n = a" "ucast (n AND 0x7F) = b AND (0x7F :: u8)"
proof -
  have top: "\<not> bit a k" if "LENGTH('a) - 7 \<le> k" for k
  proof
    assume b: "bit a k"
    have "unat a \<le> unat (drop_bit 7 (- 1 :: 'a word))" using assms(2) by (simp add: word_le_nat_alt)
    also have "\<dots> = drop_bit 7 (take_bit LENGTH('a) (mask LENGTH('a)))"
      by (simp only: unsigned_drop_bit_eq unsigned_minus_1_eq_mask)
    also have "\<dots> = (2 ^ LENGTH('a) - 1) div 2 ^ 7"
      by (simp only: take_bit_of_mask min.idem) (simp only: drop_bit_eq_div mask_eq_exp_minus_1)
    also have "\<dots> < 2 ^ (LENGTH('a) - 7)"
    proof -
      have "(2 :: nat) ^ LENGTH('a) = 2 ^ (LENGTH('a) - 7) * 2 ^ 7" using power_add [of "2 :: nat" "LENGTH('a) - 7" 7] assms(1) by simp
      then show ?thesis by (simp add: less_mult_imp_div_less)
    qed
    also have "\<dots> \<le> 2 ^ k" using that by simp
    finally have "unat a < 2 ^ k" .
    moreover have "bit (unat a) k" using b by (simp add: bit_unsigned_iff bit_imp_le_length)
    ultimately show False by (simp add: bit_iff_odd)
  qed
  have top: "7 + k < LENGTH('a)" if "bit a k" for k
    using top [of k] that by linarith
  show "drop_bit 7 n = a"
    unfolding n_def seven_f
    by (rule bit_word_eqI) (use assms(1) top in \<open>auto simp: bit_simps dest: bit_imp_le_length\<close>)
  show "ucast (n AND 0x7F) = b AND (0x7F :: u8)"
    unfolding n_def seven_f by (rule bit_word_eqI) (use assms(1) in \<open>auto simp: bit_simps\<close>)
qed

lemma varint_join:
  fixes n :: "'a::len word"
  assumes "8 \<le> LENGTH('a)" "c = 0 \<or> c = 0x80"
  shows "push_bit 7 (drop_bit 7 n) OR ucast ((ucast (n AND 0x7F) OR c) AND (0x7F :: u8)) = n"
proof -
  have "(0x80 :: u8) = push_bit 7 1" by simp
  then have c: "c = 0 \<or> c = push_bit 7 (1 :: u8)" using assms(2) by metis
  have "k \<ge> 7" if "bit (c :: u8) k" for k
  proof (rule ccontr)
    assume "\<not> 7 \<le> k"
    then have "\<not> bit (push_bit 7 (1 :: u8)) k" by (simp only: bit_push_bit_iff) simp
    with c that show False by auto
  qed
  note c7 = this
  show ?thesis
    unfolding seven_f
  proof (rule bit_word_eqI)
    fix k assume "k < LENGTH('a)"
    moreover have "bit (ucast (c AND mask 7) :: 'a word) k \<longleftrightarrow> False"
      using c7 [of k] by (auto simp: bit_simps)
    ultimately show "bit (push_bit 7 (drop_bit 7 n) OR ucast ((ucast (n AND mask 7) OR c) AND (mask 7 :: u8))) k = bit n k"
      by (cases "7 \<le> k") (use assms(1) c7 [of k] in \<open>auto simp: bit_simps\<close>)
  qed
qed


text \<open>The bytes the writer has put out before the last digit, for the accumulator \<open>a\<close> of the reader.\<close>

definition varint_prefix :: "'a::len word \<Rightarrow> bytes" where
  "varint_prefix a = (if a = 0 then [] else rev (varint_tmp True (a - 1)))"

lemma rev_varint_tmp:
  fixes n :: "'a::len word"
  assumes "8 \<le> LENGTH('a)"
  shows "rev (varint_tmp c n) = varint_prefix (drop_bit 7 n) @ [ucast (n AND 0x7F) OR (if c then 0x80 else 0)]"
  by (subst varint_tmp.simps) (simp add: varint_prefix_def le_7f_iff [OF assms])

lemma drop_bit_le_max: "drop_bit 7 (n :: 'a::len word) \<le> drop_bit 7 (- 1)"
proof -
  have "unat (drop_bit 7 n) = unat n div 2 ^ 7" "unat (drop_bit 7 (- 1 :: 'a word)) = unat (- 1 :: 'a word) div 2 ^ 7"
    by (simp_all only: unsigned_drop_bit_eq) (simp_all add: drop_bit_eq_div take_bit_nat_eq_self)
  moreover have "unat n \<le> unat (- 1 :: 'a word)" using word_order.extremum [of n] by (simp only: word_le_nat_alt)
  ultimately show ?thesis by (simp only: word_le_nat_alt div_le_mono)
qed

lemma ReadVarInt_loop_digit:
  fixes n :: "'a::len word"
  assumes "8 \<le> LENGTH('a)"
  shows "ReadVarInt_loop (drop_bit 7 n) ((ucast (n AND 0x7F) OR (if c then 0x80 else 0)) # s) =
    (if c then if n = - 1 then Inl SizeTooLarge else ReadVarInt_loop (n + 1) s else Inr (n, s))"
proof -
  let ?b = "(ucast (n AND 0x7F) OR (if c then 0x80 else 0)) :: u8"
  have "push_bit 7 (drop_bit 7 n) OR ucast (?b AND 0x7F) = n" by (rule varint_join [OF assms]) simp
  moreover have "?b AND 0x80 \<noteq> 0 \<longleftrightarrow> c"
  proof -
    have "?b AND 0x80 = (if c then 0x80 else 0)"
      unfolding seven_f by (rule bit_word_eqI) (use assms in \<open>auto simp: bit_simps bit_80_int\<close>)
    then show ?thesis by simp
  qed
  ultimately show ?thesis using drop_bit_le_max [of n] by (simp add: Let_def not_less [symmetric])
qed

lemma ReadVarInt_prefix:
  fixes a :: "'a::len word"
  assumes "8 \<le> LENGTH('a)"
  shows "ReadVarInt_loop 0 (varint_prefix a @ s) = ReadVarInt_loop a s"
proof (induction a arbitrary: s rule: measure_induct_rule [where f = unat])
  case (less a)
  show ?case
  proof (cases "a = 0")
    case False
    have "drop_bit 7 (a - 1) < a"
    proof -
      have "unat (drop_bit 7 (a - 1)) = unat (a - 1) div 2 ^ 7"
        by (simp only: unsigned_drop_bit_eq) (simp add: drop_bit_eq_div take_bit_nat_eq_self)
      also have "\<dots> \<le> unat (a - 1)" by simp
      also have "\<dots> < unat a" using False by (rule measure_unat)
      finally show ?thesis by (simp only: word_less_nat_alt)
    qed
    then have "ReadVarInt_loop 0 (varint_prefix (drop_bit 7 (a - 1)) @ s) = ReadVarInt_loop (drop_bit 7 (a - 1)) s" for s
      by (intro less.IH) (simp only: word_less_nat_alt)
    moreover have "a - 1 \<noteq> - 1" using False by simp
    ultimately show ?thesis
      using False ReadVarInt_loop_digit [OF assms, of "a - 1" True s]
      by (simp add: varint_prefix_def [of a] rev_varint_tmp [OF assms])
  qed (simp add: varint_prefix_def)
qed

lemma ReadVarInt_write:
  "8 \<le> LENGTH('a::len) \<Longrightarrow> ReadVarInt (WriteVarInt (n :: 'a word) @ rest) = Inr (n, rest)"
  using ReadVarInt_loop_digit [of n False rest]
  by (simp add: ReadVarInt_def WriteVarInt_def rev_varint_tmp ReadVarInt_prefix)

lemma ReadVarInt_loop_read:
  fixes a :: "'a::len word"
  assumes "8 \<le> LENGTH('a)"
  shows "ReadVarInt_loop a s = Inr (n, rest) \<Longrightarrow> varint_prefix a @ s = WriteVarInt n @ rest"
proof (induction s arbitrary: a)
  case (Cons b s)
  let ?n = "push_bit 7 a OR ucast (b AND 0x7F)"
  have le: "a \<le> drop_bit 7 (- 1)" using Cons.prems by (simp add: not_less [symmetric] split: if_splits)
  note dg = varint_digit [OF assms le, of b]
  have b: "b = (b AND 0x7F) OR (b AND 0x80)"
  proof -
    have "k < 7 \<or> k = 7" if "k < 8" for k :: nat using that by linarith
    then show ?thesis unfolding seven_f by (intro bit_word_eqI) (auto simp: bit_simps bit_80_int)
  qed
  have b80: "b AND 0x80 \<noteq> 0 \<Longrightarrow> b AND 0x80 = 0x80"
  proof -
    assume "b AND 0x80 \<noteq> 0"
    then obtain k where "bit (b AND 0x80) k" using bit_eq_iff [of "b AND 0x80" 0] by auto
    then have "bit b 7" by (auto simp: bit_simps bit_80_int)
    then show "b AND 0x80 = 0x80" by (intro bit_word_eqI) (auto simp: bit_simps bit_80_int)
  qed
  show ?case
  proof (cases "b AND 0x80 = 0")
    case True
    then have "n = ?n" "rest = s" using Cons.prems le by (simp_all add: Let_def not_less [symmetric] split: if_splits)
    moreover have "b = ucast (?n AND 0x7F)" using b True dg(2) by simp
    ultimately show ?thesis using dg(1) by (simp add: WriteVarInt_def rev_varint_tmp [OF assms])
  next
    case False
    then have nn: "?n \<noteq> - 1" and rd: "ReadVarInt_loop (?n + 1) s = Inr (n, rest)"
      using Cons.prems le by (simp_all add: Let_def not_less [symmetric] split: if_splits)
    have "?n + 1 \<noteq> 0" using nn by (simp add: add_eq_0_iff2)
    moreover have "b = ucast (?n AND 0x7F) OR 0x80" using b b80 [OF False] dg(2) by simp
    ultimately have "varint_prefix (?n + 1) = varint_prefix a @ [b]"
      using dg(1) by (simp add: varint_prefix_def [of "?n + 1"] rev_varint_tmp [OF assms])
    with Cons.IH [OF rd] show ?thesis by simp
  qed
qed simp

lemma ReadVarInt_read:
  "8 \<le> LENGTH('a::len) \<Longrightarrow> ReadVarInt s = Inr (n :: 'a word, rest) \<Longrightarrow> s = WriteVarInt n @ rest"
  using ReadVarInt_loop_read [of 0 s n rest] by (simp add: ReadVarInt_def varint_prefix_def)

interpretation varint32: canonical_codec "WriteVarInt :: u32 \<Rightarrow> bytes" ReadVarInt "\<lambda>_. True"
  by unfold_locales (simp_all add: ReadVarInt_write ReadVarInt_read)

interpretation varint64: canonical_codec "WriteVarInt :: u64 \<Rightarrow> bytes" ReadVarInt "\<lambda>_. True"
  by unfold_locales (simp_all add: ReadVarInt_write ReadVarInt_read)

lemma length_WriteVarInt: "length (WriteVarInt n) = GetSizeOfVarInt n"
proof -
  have "length (varint_tmp c n) = GetSizeOfVarInt n" for c
  proof (induction n arbitrary: c rule: GetSizeOfVarInt.induct)
    case (1 n)
    then show ?case by (subst varint_tmp.simps, subst GetSizeOfVarInt.simps) simp
  qed
  then show ?thesis by (simp add: WriteVarInt_def)
qed

text \<open>The array of \<open>WriteVarInt\<close> has room for all digits.\<close>

lemma GetSizeOfVarInt_bound:
  fixes n :: "'a::len word"
  assumes "8 \<le> LENGTH('a)"
  shows "unat n < 2 ^ (7 * k) \<Longrightarrow> 0 < k \<Longrightarrow> GetSizeOfVarInt n \<le> k"
proof (induction k arbitrary: n)
  case (Suc k)
  show ?case
  proof (cases "n \<le> 0x7F")
    case True
    then show ?thesis by (subst GetSizeOfVarInt.simps) simp
  next
    case False
    have d: "unat (drop_bit 7 n) = unat n div 2 ^ 7"
      by (simp only: unsigned_drop_bit_eq) (simp add: drop_bit_eq_div take_bit_nat_eq_self)
    have "drop_bit 7 n \<noteq> 0" using False le_7f_iff [OF assms] by simp
    then have "unat (drop_bit 7 n - 1) < unat (drop_bit 7 n)" by (rule measure_unat)
    also have "\<dots> < 2 ^ (7 * k)"
      unfolding d using Suc.prems(1) by (intro less_mult_imp_div_less) (simp add: power_add)
    finally have u: "unat (drop_bit 7 n - 1) < 2 ^ (7 * k)" .
    have "0 < k"
    proof (rule ccontr)
      assume "\<not> 0 < k"
      then have "unat n div 2 ^ 7 = 0" using Suc.prems(1) by simp
      with d \<open>drop_bit 7 n \<noteq> 0\<close> show False by (simp only: unsigned_0 word_unat_eq_iff)
    qed
    with Suc.IH [OF u] False show ?thesis by (subst GetSizeOfVarInt.simps) simp
  qed
qed simp

section \<open>Property\<close>

text \<open>
  C34: variable-length integers are a canonical code. For 32-bit and 64-bit types \<open>ReadVarInt\<close> returns a value
  exactly on the bytes \<open>WriteVarInt\<close> writes for it, whatever follows; \<open>GetSizeOfVarInt\<close> is their number,
  and the array of digits in \<open>WriteVarInt\<close> has room for them.
\<close>

theorem varint_canonical:
  "(ReadVarInt s = Inr (n :: u32, rest)) = (s = WriteVarInt n @ rest) \<and>
   (ReadVarInt s = Inr (k :: u64, rest)) = (s = WriteVarInt k @ rest) \<and>
   length (WriteVarInt n) = GetSizeOfVarInt n \<and> GetSizeOfVarInt n \<le> (32 + 6) div 7 \<and>
   length (WriteVarInt k) = GetSizeOfVarInt k \<and> GetSizeOfVarInt k \<le> (64 + 6) div 7"
proof -
  have "unat n < 2 ^ 32" "unat k < 2 ^ 64" using unsigned_less [of n] unsigned_less [of k] by simp_all
  then have "unat n < 2 ^ (7 * 5)" "unat k < 2 ^ (7 * 10)" by simp_all
  then have "GetSizeOfVarInt n \<le> 5" "GetSizeOfVarInt k \<le> 10" by (simp_all add: GetSizeOfVarInt_bound)
  then show ?thesis by (simp add: varint32.read_iff varint64.read_iff length_WriteVarInt)
qed

end
