(* ===== verification/Compressor.thy ===== *)
theory Compressor
  imports VarInt StakingTypes
begin

text \<open>
  The compact forms of the coins database (\<open>src/compressor.h\<close>, \<open>src/compressor.cpp\<close>): amounts, scripts
  and outputs. The curve operations that an uncompressed public key needs, \<open>IsFullyValid\<close> and
  \<open>Decompress\<close>, come from a library and are arguments of the definitions; \<open>curve_ok\<close> is what they promise.
\<close>

section \<open>Amounts\<close>

function compress_loop :: "u64 \<Rightarrow> nat \<Rightarrow> u64 \<times> nat" where
  "compress_loop n e = (if n mod 10 = 0 \<and> e < 9 then compress_loop (n div 10) (e + 1) else (n, e))"
  by pat_completeness auto
termination by (relation "measure (\<lambda>(n, e). 9 - e)") auto

declare compress_loop.simps [simp del]

text \<open>\<open>None\<close> is a failed assertion.\<close>

definition CompressAmount :: "u64 \<Rightarrow> u64 option" where
  "CompressAmount n =
     (if n = 0 then Some 0
      else
        let (n, e) = compress_loop n 0
        in if e < 9
           then let d = n mod 10
                in if d \<ge> 1 \<and> d \<le> 9 then let n = n div 10 in Some (1 + (n * 9 + d - 1) * 10 + of_nat e)
                   else None
           else Some (1 + (n - 1) * 10 + 9))"

primrec mul10_loop :: "nat \<Rightarrow> u64 \<Rightarrow> u64" where
  "mul10_loop 0 n = n"
| "mul10_loop (Suc e) n = mul10_loop e (n * 10)"

definition DecompressAmount :: "u64 \<Rightarrow> u64" where
  "DecompressAmount x =
     (if x = 0 then 0
      else
        let x = x - 1; e = unat (x mod 10); x = x div 10;
            n = (if e < 9 then let d = x mod 9 + 1; x = x div 9 in x * 10 + d else x + 1)
        in mul10_loop e n)"

section \<open>Scripts\<close>

definition MAX_SCRIPT_SIZE :: nat where "MAX_SCRIPT_SIZE = 10000"
definition OP_RETURN :: u8 where "OP_RETURN = 0x6a"
definition OP_DUP :: u8 where "OP_DUP = 0x76"
definition OP_EQUAL :: u8 where "OP_EQUAL = 0x87"
definition OP_EQUALVERIFY :: u8 where "OP_EQUALVERIFY = 0x88"
definition OP_HASH160 :: u8 where "OP_HASH160 = 0xa9"
definition OP_CHECKSIG :: u8 where "OP_CHECKSIG = 0xac"

lemmas opcodes = OP_RETURN_def OP_DUP_def OP_EQUAL_def OP_EQUALVERIFY_def OP_HASH160_def OP_CHECKSIG_def

definition IsToKeyID :: "bytes \<Rightarrow> bytes option" where
  "IsToKeyID script =
     (if length script = 25 \<and> script ! 0 = OP_DUP \<and> script ! 1 = OP_HASH160 \<and> script ! 2 = 20
         \<and> script ! 23 = OP_EQUALVERIFY \<and> script ! 24 = OP_CHECKSIG
      then Some (take 20 (drop 3 script)) else None)"

definition IsToScriptID :: "bytes \<Rightarrow> bytes option" where
  "IsToScriptID script =
     (if length script = 23 \<and> script ! 0 = OP_HASH160 \<and> script ! 1 = 20 \<and> script ! 22 = OP_EQUAL
      then Some (take 20 (drop 2 script)) else None)"

definition IsToPubKey :: "(CPubKey \<Rightarrow> bool) \<Rightarrow> bytes \<Rightarrow> CPubKey option" where
  "IsToPubKey fully_valid script =
     (if length script = 35 \<and> script ! 0 = 33 \<and> script ! 34 = OP_CHECKSIG \<and> (script ! 1 = 2 \<or> script ! 1 = 3)
      then Some (CPubKey_Set (take 33 (drop 1 script)))
      else if length script = 67 \<and> script ! 0 = 65 \<and> script ! 66 = OP_CHECKSIG \<and> script ! 1 = 4
      then let pubkey = CPubKey_Set (take 65 (drop 1 script))
           in if fully_valid pubkey then Some pubkey else None
      else None)"

definition CompressScript :: "(CPubKey \<Rightarrow> bool) \<Rightarrow> bytes \<Rightarrow> bytes option" where
  "CompressScript fully_valid script =
     (case IsToKeyID script of Some keyID \<Rightarrow> Some (0 # keyID)
      | None \<Rightarrow>
     (case IsToScriptID script of Some scriptID \<Rightarrow> Some (1 # scriptID)
      | None \<Rightarrow>
     (case IsToPubKey fully_valid script of
        Some pubkey \<Rightarrow>
          if vch pubkey ! 0 = 2 \<or> vch pubkey ! 0 = 3
          then Some (vch pubkey ! 0 # take 32 (drop 1 (vch pubkey)))
          else if vch pubkey ! 0 = 4
          then Some ((4 OR (vch pubkey ! 64 AND 1)) # take 32 (drop 1 (vch pubkey)))
          else None
      | None \<Rightarrow> None)))"

definition GetSpecialScriptSize :: "nat \<Rightarrow> nat" where
  "GetSpecialScriptSize nSize =
     (if nSize = 0 \<or> nSize = 1 then 20
      else if nSize = 2 \<or> nSize = 3 \<or> nSize = 4 \<or> nSize = 5 then 32 else 0)"

text \<open>
  The new script, or \<open>Inr False\<close> where the function returns false; \<open>Inl\<close> is the failed assertion on the size
  of a decompressed key.
\<close>

definition DecompressScript :: "(CPubKey \<Rightarrow> CPubKey option) \<Rightarrow> nat \<Rightarrow> bytes \<Rightarrow> unit + bytes option" where
  "DecompressScript decompress nSize inp =
     (if nSize = 0 then Inr (Some ([OP_DUP, OP_HASH160, 20] @ take 20 inp @ [OP_EQUALVERIFY, OP_CHECKSIG]))
      else if nSize = 1 then Inr (Some ([OP_HASH160, 20] @ take 20 inp @ [OP_EQUAL]))
      else if nSize = 2 \<or> nSize = 3 then Inr (Some ([33, of_nat nSize] @ take 32 inp @ [OP_CHECKSIG]))
      else if nSize = 4 \<or> nSize = 5 then
        (case decompress (CPubKey_Set (of_nat (nSize - 2) # take 32 inp)) of
           None \<Rightarrow> Inr None
         | Some pubkey \<Rightarrow>
             if length (vch pubkey) \<noteq> 65 then Inl () else Inr (Some ([65] @ vch pubkey @ [OP_CHECKSIG])))
      else Inr None)"

section \<open>Outputs\<close>

definition nSpecialScripts :: nat where "nSpecialScripts = 6"

definition ScriptCompression_Ser :: "(CPubKey \<Rightarrow> bool) \<Rightarrow> bytes \<Rightarrow> bytes" where
  "ScriptCompression_Ser fully_valid script =
     (case CompressScript fully_valid script of
        Some compr \<Rightarrow> compr
      | None \<Rightarrow> WriteVarInt (of_nat (length script + nSpecialScripts) :: u32) @ script)"

text \<open>\<open>script\<close> is the script that is read into; a failed assertion ends the process and is no result.\<close>

definition ScriptCompression_Unser :: "(CPubKey \<Rightarrow> CPubKey option) \<Rightarrow> bytes \<Rightarrow> (unit + bytes) reader" where
  "ScriptCompression_Unser decompress script =
     rbind (ReadVarInt :: u32 reader) (\<lambda>w.
       let nSize = unat w
       in if nSize < nSpecialScripts
          then rbind (stream_read (GetSpecialScriptSize nSize)) (\<lambda>vch.
                 rreturn (case DecompressScript decompress nSize vch of
                            Inl _ \<Rightarrow> Inl ()
                          | Inr None \<Rightarrow> Inr script
                          | Inr (Some s) \<Rightarrow> Inr s))
          else let nSize = nSize - nSpecialScripts
               in if nSize > MAX_SCRIPT_SIZE
                  then rbind (stream_ignore nSize) (\<lambda>_. rreturn (Inr (script @ [OP_RETURN])))
                  else rbind (stream_read nSize) (\<lambda>s. rreturn (Inr s)))"

definition AmountCompression_Ser :: "CAmount \<Rightarrow> bytes option" where
  "AmountCompression_Ser val = Option.bind (CompressAmount (word_of_int val)) (\<lambda>x. Some (WriteVarInt x))"

definition AmountCompression_Unser :: "CAmount reader" where
  "AmountCompression_Unser = rbind (ReadVarInt :: u64 reader) (\<lambda>v. rreturn (sint (DecompressAmount v)))"

definition TxOutCompression_Ser :: "(CPubKey \<Rightarrow> bool) \<Rightarrow> CTxOut \<Rightarrow> bytes option" where
  "TxOutCompression_Ser fully_valid t =
     Option.bind (AmountCompression_Ser (out_nValue t)) (\<lambda>a.
       Some (a @ ScriptCompression_Ser fully_valid (scriptPubKey t)))"

definition TxOutCompression_Unser :: "(CPubKey \<Rightarrow> CPubKey option) \<Rightarrow> CTxOut \<Rightarrow> (unit + CTxOut) reader" where
  "TxOutCompression_Unser decompress t =
     rbind AmountCompression_Unser (\<lambda>v.
     rbind (ScriptCompression_Unser decompress (scriptPubKey t)) (\<lambda>s.
       rreturn (case s of Inl _ \<Rightarrow> Inl () | Inr s \<Rightarrow> Inr \<lparr>out_nValue = v, scriptPubKey = s\<rparr>)))"

section \<open>Decoding amounts\<close>

lemma u64_of_nat_div: "k < 2 ^ 64 \<Longrightarrow> d < 2 ^ 64 \<Longrightarrow> (of_nat k :: u64) div of_nat d = of_nat (k div d)"
  by (simp add: word_unat_eq_iff unat_div unat_of_nat order.strict_trans1 [OF div_le_dividend])

lemma u64_of_nat_mod: "k < 2 ^ 64 \<Longrightarrow> d < 2 ^ 64 \<Longrightarrow> (of_nat k :: u64) mod of_nat d = of_nat (k mod d)"
  by (simp add: word_unat_eq_iff unat_mod unat_of_nat order.strict_trans1 [OF mod_less_eq_dividend])

lemma u64_of_nat_eq: "k < 2 ^ 64 \<Longrightarrow> d < 2 ^ 64 \<Longrightarrow> (of_nat k :: u64) = of_nat d \<longleftrightarrow> k = d"
  by (simp add: word_unat_eq_iff unat_of_nat)

lemmas u64_nums = u64_of_nat_div [of _ 10, simplified] u64_of_nat_mod [of _ 10, simplified]
  u64_of_nat_div [of _ 9, simplified] u64_of_nat_mod [of _ 9, simplified]

lemma compress_loop_spec:
  assumes "0 < k" "k < 2 ^ 64" "e \<le> 9" "compress_loop (of_nat k) e = (n, e')"
  shows "\<exists>m. n = of_nat m \<and> 0 < m \<and> k = m * 10 ^ (e' - e) \<and> e \<le> e' \<and> e' \<le> 9 \<and> (e' < 9 \<longrightarrow> m mod 10 \<noteq> 0)"
  using assms
proof (induction "9 - e" arbitrary: k e)
  case 0
  then have "e = 9" by simp
  then show ?case using 0 by (subst (asm) compress_loop.simps) (auto intro: exI [of _ k])
next
  case (Suc x)
  have mod0: "(of_nat k :: u64) mod 10 = 0 \<longleftrightarrow> k mod 10 = 0"
    using u64_of_nat_eq [of "k mod 10" 0] Suc.prems(2) by (simp add: u64_nums)
  show ?case
  proof (cases "k mod 10 = 0")
    case True
    then have k: "k = 10 * (k div 10)" by auto
    then have pos: "0 < k div 10" using Suc.prems(1) by linarith
    have "e < 9" using Suc.hyps(2) by linarith
    then have "compress_loop (of_nat (k div 10)) (e + 1) = (n, e')"
      using Suc.prems(2,4) True mod0 by (subst (asm) compress_loop.simps) (simp add: u64_nums)
    moreover have "k div 10 < 2 ^ 64" "x = 9 - (e + 1)" using Suc.prems(2) Suc.hyps(2) by simp_all
    ultimately obtain m where m: "n = of_nat m" "0 < m" "k div 10 = m * 10 ^ (e' - (e + 1))" "e + 1 \<le> e'" "e' \<le> 9"
        "e' < 9 \<longrightarrow> m mod 10 \<noteq> 0"
      using Suc.hyps(1) [of "e + 1" "k div 10"] Suc.hyps(2) pos \<open>e < 9\<close> by auto
    have "10 ^ (e' - e) = 10 * 10 ^ (e' - (e + 1) :: nat)"
      using m(4) by (metis Suc_diff_Suc Suc_eq_plus1 Suc_le_eq power_Suc)
    then have "k = m * 10 ^ (e' - e)" using k m(3) by (metis mult.left_commute)
    then show ?thesis using m by auto
  next
    case False
    then have "n = of_nat k" "e' = e" using Suc.prems(4) mod0 by (auto simp: compress_loop.simps [of "of_nat k" e])
    then show ?thesis using Suc.prems(1,3) False by (intro exI [of _ k]) simp
  qed
qed

lemma mul10_loop: "mul10_loop e n = n * 10 ^ e"
  by (induction e arbitrary: n) (simp_all add: ac_simps)

lemma u64_pred: "0 < x \<Longrightarrow> (of_nat x :: u64) - 1 = of_nat (x - 1)"
  by (simp add: of_nat_diff)

text \<open>Decoding a code \<open>x\<close> below \<open>2 ^ 64\<close>, over the natural numbers.\<close>

lemma DecompressAmount_nat:
  assumes "x < 2 ^ 64" "0 < x"
  shows "DecompressAmount (of_nat x) =
    (let e = (x - 1) mod 10; y = (x - 1) div 10
     in of_nat ((if e < 9 then (y div 9) * 10 + (y mod 9 + 1) else y + 1) * 10 ^ e))"
proof -
  have b: "x - 1 < 2 ^ 64" "(x - 1) div 10 < 2 ^ 64" using assms by simp_all
  have e: "unat ((of_nat (x - 1) :: u64) mod 10) = (x - 1) mod 10"
    using b(1) by (simp add: u64_nums unat_of_nat)
  have "(of_nat x :: u64) \<noteq> 0" using u64_of_nat_eq [of x 0] assms by simp
  then show ?thesis
    using assms(2) e b
    by (simp add: DecompressAmount_def Let_def u64_pred mul10_loop u64_nums add.commute [of 1] add.assoc del: of_nat_diff)
qed

text \<open>An amount \<open>n\<close> and its code.\<close>

lemma CompressAmount_nat:
  assumes "10 * n < 2 ^ 64"
  shows "\<exists>x. CompressAmount (of_nat n) = Some (of_nat x) \<and> x < 2 ^ 64 \<and> DecompressAmount (of_nat x) = of_nat n"
proof (cases "n = 0")
  case True
  then show ?thesis by (intro exI [of _ 0]) (simp add: CompressAmount_def DecompressAmount_def)
next
  case False
  have n: "n < 2 ^ 64" using assms by simp
  obtain w e where c: "compress_loop (of_nat n) 0 = (w, e)" by fastforce
  obtain m where m: "w = of_nat m" "0 < m" "n = m * 10 ^ e" "e \<le> 9" "e < 9 \<longrightarrow> m mod 10 \<noteq> 0"
    using compress_loop_spec [OF _ n _ c] False by auto
  have mn: "m \<le> n" unfolding m(3) by simp
  then have mb: "m < 2 ^ 64" using n by simp
  have nz: "(of_nat n :: u64) \<noteq> 0" using u64_of_nat_eq [of n 0] n False by simp
  show ?thesis
  proof (cases "e < 9")
    case True
    let ?d = "m mod 10" and ?q = "m div 10"
    let ?x = "1 + (?q * 9 + ?d - 1) * 10 + e"
    have d: "1 \<le> ?d" "?d \<le> 9" using m(5) True by auto
    have db: "(1 :: u64) \<le> of_nat ?d" "of_nat ?d \<le> (9 :: u64)"
      using d by (simp_all add: word_le_nat_alt unat_of_nat)
    have "CompressAmount (of_nat n) = Some (1 + (of_nat ?q * 9 + of_nat ?d - 1) * 10 + of_nat e)"
      using nz c m(1) True mb db by (simp add: CompressAmount_def Let_def u64_nums)
    also have "1 + (of_nat ?q * 9 + of_nat ?d - 1) * 10 + of_nat e = (of_nat ?x :: u64)"
    proof -
      have "(of_nat (?q * 9 + ?d - 1) :: u64) = of_nat (?q * 9 + ?d) - 1" using d(1) by (subst of_nat_diff) simp_all
      then show ?thesis by (simp del: of_nat_diff)
    qed
    finally have comp: "CompressAmount (of_nat n) = Some (of_nat ?x)" .
    have mq: "m = ?q * 10 + ?d" by simp
    have "1 + (q * 9 + d - 1) * 10 + e \<le> 9 * (q * 10 + d) + 10" if "1 \<le> d" "d \<le> 9" for q d :: nat
      using that True by (cases d) simp_all
    from this [OF d, of ?q] have "?x \<le> 9 * m + 10" using mq by simp
    moreover have "9 * m + 10 \<le> 10 * n + 10" using mn by simp
    moreover have "9 * m + 10 < 2 ^ 64"
    proof (cases "n \<le> 1")
      case True
      then show ?thesis using mn by simp
    next
      case False
      then show ?thesis using mn assms by simp
    qed
    ultimately have xb: "?x < 2 ^ 64" by linarith
    have e: "(?x - 1) mod 10 = e" "(?x - 1) div 10 = ?q * 9 + (?d - 1)" using True d(1) by simp_all
    have "?d - 1 < 9" using d by linarith
    then have y: "(?q * 9 + (?d - 1)) div 9 = ?q" "(?q * 9 + (?d - 1)) mod 9 = ?d - 1"
      using d mod_mult_self3 [of ?q 9 "?d - 1"] div_mult_self3 [of 9 ?q "?d - 1"] by (simp_all del: mod_mult_self3 div_mult_self3)
    have "DecompressAmount (of_nat ?x) = of_nat ((?q * 10 + (?d - 1 + 1)) * 10 ^ e)"
      using DecompressAmount_nat [OF xb] True by (simp only: e y Let_def) simp
    also have "(?q * 10 + (?d - 1 + 1)) * 10 ^ e = n" using d(1) mq m(3) by simp
    finally show ?thesis using comp xb by blast
  next
    case False
    then have e: "e = 9" using m(4) by simp
    let ?x = "1 + (m - 1) * 10 + 9"
    have "CompressAmount (of_nat n) = Some (1 + (of_nat m - 1) * 10 + 9)"
      using nz c m(1) e by (simp add: CompressAmount_def Let_def)
    also have "1 + (of_nat m - 1) * 10 + 9 = (of_nat ?x :: u64)"
      using m(2) by (simp add: of_nat_diff)
    finally have comp: "CompressAmount (of_nat n) = Some (of_nat ?x)" .
    have "?x \<le> 10 * n" using m(2) mn by simp
    then have xb: "?x < 2 ^ 64" using assms by linarith
    have y: "(?x - 1) mod 10 = 9" "(?x - 1) div 10 = m - 1" by simp_all
    have "DecompressAmount (of_nat ?x) = of_nat ((m - 1 + 1) * 10 ^ 9)"
      using DecompressAmount_nat [OF xb] by (simp only: y Let_def) simp
    also have "(m - 1 + 1) * 10 ^ 9 = n" using m(2,3) e by simp
    finally show ?thesis using comp xb by blast
  qed
qed

lemma amount_roundtrip:
  assumes "MoneyRange v"
  shows "\<exists>x. CompressAmount (word_of_int v) = Some x \<and> sint (DecompressAmount x) = v"
proof -
  have v: "0 \<le> v" "v \<le> 100000000000000000" using assms by (simp_all add: MoneyRange_def MAX_MONEY_def COIN_def)
  have w: "(word_of_int v :: u64) = of_nat (nat v)" using v(1) by (metis int_nat_eq of_int_of_nat_eq)
  have "10 * nat v < 2 ^ 64" using v by simp
  from CompressAmount_nat [OF this] obtain x where
    "CompressAmount (word_of_int v) = Some (of_nat x)" "DecompressAmount (of_nat x) = word_of_int v"
    unfolding w by blast
  moreover have "in_i64 v" using assms by (rule MoneyRange_i64)
  ultimately show ?thesis by (auto simp: sint_word_of_int)
qed

section \<open>Decoding scripts and outputs\<close>

lemma nth_drop_Cons: "i < length xs \<Longrightarrow> drop i xs = xs ! i # drop (Suc i) xs"
  by (simp add: Cons_nth_drop_Suc)

lemma drop_take_drop: "drop i xs = take n (drop i xs) @ drop (i + n) xs"
  using append_take_drop_id [of n "drop i xs"] by (simp add: add.commute)

lemma split_key_id:
  assumes "length s = 25"
  shows "s = [s ! 0, s ! 1, s ! 2] @ take 20 (drop 3 s) @ [s ! 23, s ! 24]"
  using assms nth_drop_Cons [of 0 s] nth_drop_Cons [of 1 s] nth_drop_Cons [of 2 s] drop_take_drop [of 3 s 20]
    nth_drop_Cons [of 23 s] nth_drop_Cons [of 24 s] by (simp add: eval_nat_numeral)

lemma split_script_id:
  assumes "length s = 23"
  shows "s = [s ! 0, s ! 1] @ take 20 (drop 2 s) @ [s ! 22]"
  using assms nth_drop_Cons [of 0 s] nth_drop_Cons [of 1 s] drop_take_drop [of 2 s 20] nth_drop_Cons [of 22 s]
  by (simp add: eval_nat_numeral)

lemma split_pub_key:
  assumes "length s = n + 2" "1 < n"
  shows "s = [s ! 0] @ take n (drop 1 s) @ [s ! (n + 1)]" "take n (drop 1 s) = s ! 1 # take (n - 1) (drop 2 s)"
proof -
  have "s = s ! 0 # drop 1 s" using nth_drop_Cons [of 0 s] assms by simp
  also have "drop 1 s = take n (drop 1 s) @ drop (1 + n) s" by (rule drop_take_drop)
  also have "drop (1 + n) s = [s ! (n + 1)]" using nth_drop_Cons [of "n + 1" s] assms by simp
  finally show "s = [s ! 0] @ take n (drop 1 s) @ [s ! (n + 1)]" by simp
  have "drop 1 s = s ! 1 # drop 2 s" using nth_drop_Cons [of 1 s] assms by (simp add: numeral_2_eq_2)
  then show "take n (drop 1 s) = s ! 1 # take (n - 1) (drop 2 s)" using assms(2) by (cases n) simp_all
qed

text \<open>
  What the library promises: the compressed form of a valid uncompressed key, its first coordinate and
  the parity of the second, decompresses to it.
\<close>

definition curve_ok :: "(CPubKey \<Rightarrow> bool) \<Rightarrow> (CPubKey \<Rightarrow> CPubKey option) \<Rightarrow> bool" where
  "curve_ok fully_valid decompress \<longleftrightarrow>
     (\<forall>x y. length x = 32 \<longrightarrow> length y = 32 \<longrightarrow> fully_valid (CPubKey (4 # x @ y)) \<longrightarrow>
        decompress (CPubKey ((2 + (y ! 31 AND 1)) # x)) = Some (CPubKey (4 # x @ y)))"

lemma and_one_cases: "b AND 1 = 0 \<or> b AND 1 = (1 :: u8)"
  by (cases "even b") (simp_all add: and_one_eq even_iff_mod_2_eq_zero odd_iff_mod_2_eq_one)

lemma CompressScript_decompress:
  assumes "curve_ok fv dec" "CompressScript fv s = Some c"
  shows "\<exists>n r. c = of_nat n # r \<and> n < 6 \<and> length r = GetSpecialScriptSize n \<and> DecompressScript dec n r = Inr (Some s)"
proof -
  consider (key) k where "IsToKeyID s = Some k" "c = 0 # k"
    | (script) k where "IsToScriptID s = Some k" "c = 1 # k"
    | (pub) k where "IsToPubKey fv s = Some k" "vch k ! 0 = 2 \<or> vch k ! 0 = 3" "c = vch k ! 0 # take 32 (drop 1 (vch k))"
    | (full) k where "IsToPubKey fv s = Some k" "vch k ! 0 = 4" "c = (4 OR (vch k ! 64 AND 1)) # take 32 (drop 1 (vch k))"
    using assms(2) by (auto simp: CompressScript_def split: option.splits if_splits)
  then show ?thesis
  proof cases
    case key
    then have s: "length s = 25" "s ! 0 = OP_DUP" "s ! 1 = OP_HASH160" "s ! 2 = 20" "s ! 23 = OP_EQUALVERIFY"
        "s ! 24 = OP_CHECKSIG" "k = take 20 (drop 3 s)"
      by (auto simp: IsToKeyID_def split: if_splits)
    have "DecompressScript dec 0 k = Inr (Some s)"
      using split_key_id [OF s(1)] s(2-7) by (simp add: DecompressScript_def)
    then show ?thesis using key(2) s(1,7) by (intro exI [of _ 0] exI [of _ k]) (simp add: GetSpecialScriptSize_def)
  next
    case script
    then have s: "length s = 23" "s ! 0 = OP_HASH160" "s ! 1 = 20" "s ! 22 = OP_EQUAL" "k = take 20 (drop 2 s)"
      by (auto simp: IsToScriptID_def split: if_splits)
    have "DecompressScript dec 1 k = Inr (Some s)"
      using split_script_id [OF s(1)] s(2-5) by (simp add: DecompressScript_def)
    then show ?thesis using script(2) s(1,5) by (intro exI [of _ 1] exI [of _ k]) (simp add: GetSpecialScriptSize_def)
  next
    case pub
    have len: "length s = 35" "s ! 0 = 33" "s ! 34 = OP_CHECKSIG" "s ! 1 = 2 \<or> s ! 1 = 3" "k = CPubKey_Set (take 33 (drop 1 s))"
      using pub(1,2) split_pub_key(2) [of s 65]
      by (auto simp: IsToPubKey_def Let_def CPubKey_Set_def GetLen_def split: if_splits)
    note sp = split_pub_key [of s 33, simplified]
    have k: "vch k = s ! 1 # take 32 (drop 2 s)"
      using len sp(2) by (auto simp: CPubKey_Set_def GetLen_def)
    obtain n where n: "s ! 1 = of_nat n" "n = 2 \<or> n = 3" using len(4) by (metis of_nat_numeral)
    have "DecompressScript dec n (take 32 (drop 2 s)) = Inr (Some s)"
      using sp len n by (auto simp: DecompressScript_def)
    then show ?thesis using pub(3) k n len(1)
      by (intro exI [of _ n] exI [of _ "take 32 (drop 2 s)"]) (auto simp: GetSpecialScriptSize_def)
  next
    case full
    have len: "length s = 67" "s ! 0 = 65" "s ! 66 = OP_CHECKSIG" "s ! 1 = 4" "k = CPubKey_Set (take 65 (drop 1 s))" "fv k"
      using full(1,2) split_pub_key(2) [of s 33]
      by (auto simp: IsToPubKey_def Let_def CPubKey_Set_def GetLen_def split: if_splits)
    note sp = split_pub_key [of s 65, simplified]
    let ?x = "take 32 (drop 2 s)" and ?y = "take 32 (drop 34 s)"
    have xy: "take 64 (drop 2 s) = ?x @ ?y" using take_add [of 32 32 "drop 2 s"] by simp
    have k: "k = CPubKey (4 # ?x @ ?y)"
      using len sp(2) xy by (auto simp: CPubKey_Set_def GetLen_def)
    have y: "vch k ! 64 = ?y ! 31" using k len(1) by (simp add: nth_append)
    let ?b = "?y ! 31 AND 1"
    obtain n where n: "4 OR ?b = (of_nat n :: u8)" "2 + ?b = (of_nat (n - 2) :: u8)" "n = 4 \<or> n = 5"
    proof (cases "?b = 0")
      case True
      then show ?thesis using that [of 4] by simp
    next
      case False
      then have "?b = 1" using and_one_cases by metis
      then show ?thesis using that [of 5] by simp
    qed
    have hd: "(of_nat (n - 2) :: u8) = 2 \<or> (of_nat (n - 2) :: u8) = 3" using n(3) by auto
    have "dec (CPubKey ((2 + ?b) # ?x)) = Some k"
      using assms(1) [unfolded curve_ok_def, rule_format, of ?x ?y] len(1,6) k by simp
    moreover have "CPubKey_Set (of_nat (n - 2) # take 32 ?x) = CPubKey ((2 + ?b) # ?x)"
      using hd len(1) unfolding n(2) [symmetric] by (auto simp: CPubKey_Set_def GetLen_def)
    ultimately have "DecompressScript dec n ?x = Inr (Some s)"
      using n(3) sp len(1-4) xy k by (auto simp: DecompressScript_def)
    moreover have "take 32 (drop 1 (vch k)) = ?x" using k len(1) by simp
    ultimately show ?thesis using full(3) y n len(1)
      by (intro exI [of _ n] exI [of _ ?x]) (auto simp: GetSpecialScriptSize_def)
  qed
qed

lemma WriteVarInt_small: "n < 0x80 \<Longrightarrow> WriteVarInt (of_nat n :: u32) = [of_nat n]"
proof -
  assume n: "n < 0x80"
  then have le: "(of_nat n :: u32) \<le> 0x7F" by (simp add: word_le_nat_alt unat_of_nat)
  have "ucast ((of_nat n :: u32) AND 0x7F) = (of_nat n :: u8)"
  proof -
    have "(of_nat n :: u32) AND 0x7F = of_nat n"
      unfolding seven_f take_bit_eq_mask [symmetric] using n
      by (simp only: word_unat_eq_iff unsigned_take_bit_eq unat_of_nat) (simp add: take_bit_eq_mod)
    moreover have "(ucast (of_nat n :: u32) :: u8) = of_nat n"
      using n by (simp add: word_unat_eq_iff unsigned_ucast_eq unat_of_nat take_bit_eq_mod)
    ultimately show ?thesis by (simp only:)
  qed
  with le show ?thesis by (simp add: WriteVarInt_def varint_tmp.simps)
qed

lemma ScriptCompression_roundtrip:
  assumes "curve_ok fv dec" "length s \<le> MAX_SCRIPT_SIZE"
  shows "ScriptCompression_Unser dec s0 (ScriptCompression_Ser fv s @ rest) = Inr (Inr s, rest)"
proof (cases "CompressScript fv s")
  case None
  have u: "unat (of_nat (length s + 6) :: u32) = length s + 6"
    using assms(2) by (simp add: unat_of_nat MAX_SCRIPT_SIZE_def del: of_nat_add)
  have e: "ScriptCompression_Ser fv s @ rest = WriteVarInt (of_nat (length s + 6) :: u32) @ (s @ rest)"
    using None by (simp add: ScriptCompression_Ser_def nSpecialScripts_def)
  show ?thesis
    unfolding e ScriptCompression_Unser_def varint32.bind_write [OF TrueI] Let_def u
    using assms(2) by (simp add: nSpecialScripts_def rbind_def stream_read_append rreturn_def)
next
  case (Some c)
  obtain n r where n: "c = of_nat n # r" "n < 6" "length r = GetSpecialScriptSize n" "DecompressScript dec n r = Inr (Some s)"
    using CompressScript_decompress [OF assms(1) Some] by blast
  have u: "unat (of_nat n :: u32) = n" using n(2) by (simp add: unat_of_nat)
  have e: "ScriptCompression_Ser fv s @ rest = WriteVarInt (of_nat n :: u32) @ (r @ rest)"
    using Some n(1,2) WriteVarInt_small [of n] by (simp add: ScriptCompression_Ser_def)
  show ?thesis
    unfolding e ScriptCompression_Unser_def varint32.bind_write [OF TrueI] Let_def u
    using n by (simp add: nSpecialScripts_def rbind_def stream_read_append [of r, unfolded n(3)] rreturn_def)
qed

text \<open>An overlong script is replaced by a short invalid one.\<close>

lemma ScriptCompression_overlong:
  assumes "CompressScript fv s = None" "MAX_SCRIPT_SIZE < length s" "length s + 6 < 2 ^ 32"
  shows "ScriptCompression_Unser dec s0 (ScriptCompression_Ser fv s @ rest) = Inr (Inr (s0 @ [OP_RETURN]), rest)"
proof -
  have u: "unat (of_nat (length s + 6) :: u32) = length s + 6" using assms(3) by (simp add: unat_of_nat del: of_nat_add)
  have e: "ScriptCompression_Ser fv s @ rest = WriteVarInt (of_nat (length s + 6) :: u32) @ (s @ rest)"
    using assms(1) by (simp add: ScriptCompression_Ser_def nSpecialScripts_def)
  show ?thesis
    unfolding e ScriptCompression_Unser_def varint32.bind_write [OF TrueI] Let_def u
    using assms(2) by (simp add: nSpecialScripts_def rbind_def stream_ignore_def rreturn_def)
qed

lemma AmountCompression_roundtrip:
  assumes "MoneyRange v"
  obtains w where "AmountCompression_Ser v = Some w" "\<And>rest. AmountCompression_Unser (w @ rest) = Inr (v, rest)"
proof -
  obtain x where "CompressAmount (word_of_int v) = Some x" "sint (DecompressAmount x) = v"
    using amount_roundtrip [OF assms] by blast
  then show ?thesis
    using that [of "WriteVarInt x"]
    by (simp add: AmountCompression_Ser_def AmountCompression_Unser_def varint64.bind_write rreturn_def)
qed

lemma TxOutCompression_roundtrip:
  assumes "curve_ok fv dec" "MoneyRange (out_nValue t)" "length (scriptPubKey t) \<le> MAX_SCRIPT_SIZE"
  obtains w where "TxOutCompression_Ser fv t = Some w" "\<And>t0 rest. TxOutCompression_Unser dec t0 (w @ rest) = Inr (Inr t, rest)"
proof -
  obtain a where a: "AmountCompression_Ser (out_nValue t) = Some a"
      "\<And>rest. AmountCompression_Unser (a @ rest) = Inr (out_nValue t, rest)"
    using AmountCompression_roundtrip [OF assms(2)] by blast
  show ?thesis
    using that [of "a @ ScriptCompression_Ser fv (scriptPubKey t)"] a
    by (simp add: TxOutCompression_Ser_def TxOutCompression_Unser_def rbind_def
        ScriptCompression_roundtrip [OF assms(1,3)] rreturn_def)
qed

end
