(* ===== verification/Coins.thy ===== *)
theory Coins
  imports Compressor "HOL-Library.AList"
begin

text \<open>
  The unspent transaction outputs of \<open>src/coins.h\<close> and \<open>src/coins.cpp\<close>: coins, the cache entries with
  their DIRTY and FRESH flags, and the cache \<open>CCoinsViewCache\<close> over another view. A view is a table of
  its virtual functions over a state; the interface every view promises is the locale \<open>coins_view\<close>: it
  behaves like a map of unspent coins. A cache over any such view is again one.
\<close>

section \<open>Coins and entries\<close>

record Coin =
  coin_out :: CTxOut
  coin_fCoinBase :: bool
  coin_nHeight :: "31 word"

text \<open>\<open>CTxOut::SetNull\<close>, \<open>Coin::Clear\<close> and the empty constructor make the same coin.\<close>

definition CTxOut_IsNull :: "CTxOut \<Rightarrow> bool" where
  "CTxOut_IsNull t \<longleftrightarrow> out_nValue t = - 1"

definition coinEmpty :: Coin where
  "coinEmpty = \<lparr>coin_out = \<lparr>out_nValue = - 1, scriptPubKey = []\<rparr>, coin_fCoinBase = False, coin_nHeight = 0\<rparr>"

definition IsSpent :: "Coin \<Rightarrow> bool" where
  "IsSpent c \<longleftrightarrow> CTxOut_IsNull (coin_out c)"

definition IsUnspendable :: "bytes \<Rightarrow> bool" where
  "IsUnspendable s \<longleftrightarrow> (0 < length s \<and> hd s = OP_RETURN) \<or> MAX_SCRIPT_SIZE < length s"

text \<open>
  The serialization of a coin; the first \<open>None\<close> is the failed assertion that it is unspent, and an \<open>Inl\<close>
  in the result of the reader is the failed assertion on a decompressed key. The reader reads into an empty
  coin.
\<close>

definition Coin_Serialize :: "(CPubKey \<Rightarrow> bool) \<Rightarrow> Coin \<Rightarrow> bytes option" where
  "Coin_Serialize fully_valid c =
     (if IsSpent c then None
      else
        let code = ucast (coin_nHeight c) * 2 + of_bool (coin_fCoinBase c) :: u32
        in Option.bind (TxOutCompression_Ser fully_valid (coin_out c)) (\<lambda>w. Some (WriteVarInt code @ w)))"

definition Coin_Unserialize :: "(CPubKey \<Rightarrow> CPubKey option) \<Rightarrow> (unit + Coin) reader" where
  "Coin_Unserialize decompress =
     rbind (ReadVarInt :: u32 reader) (\<lambda>code.
     rbind (TxOutCompression_Unser decompress (coin_out coinEmpty)) (\<lambda>t.
       rreturn (case t of Inl _ \<Rightarrow> Inl ()
                | Inr t \<Rightarrow> Inr \<lparr>coin_out = t, coin_fCoinBase = (code AND 1 \<noteq> 0), coin_nHeight = ucast (drop_bit 1 code)\<rparr>)))"

definition DIRTY :: u8 where "DIRTY = 1"
definition FRESH :: u8 where "FRESH = 2"

record CCoinsCacheEntry =
  e_coin :: Coin
  e_flags :: u8

definition empty_entry :: CCoinsCacheEntry where
  "empty_entry = \<lparr>e_coin = coinEmpty, e_flags = 0\<rparr>"

definition is_dirty :: "CCoinsCacheEntry \<Rightarrow> bool" where
  "is_dirty e \<longleftrightarrow> e_flags e AND DIRTY \<noteq> 0"

definition is_fresh :: "CCoinsCacheEntry \<Rightarrow> bool" where
  "is_fresh e \<longleftrightarrow> e_flags e AND FRESH \<noteq> 0"

text \<open>
  The hash map is an association list; its order stands for the order of iteration, which the code
  leaves open. Statements about it hold for every order.
\<close>

type_synonym CCoinsMap = "(COutPoint \<times> CCoinsCacheEntry) list"

section \<open>Views\<close>

datatype coins_error = LogicError string | AssertionFailure

record 'v view_ops =
  v_GetCoin :: "COutPoint \<Rightarrow> 'v \<Rightarrow> Coin option \<times> 'v"
  v_HaveCoin :: "COutPoint \<Rightarrow> 'v \<Rightarrow> bool \<times> 'v"
  v_GetBestBlock :: "'v \<Rightarrow> uint256 \<times> 'v"
  v_BatchWrite :: "CCoinsMap \<Rightarrow> uint256 \<Rightarrow> bool \<Rightarrow> 'v \<Rightarrow> (coins_error + bool) \<times> CCoinsMap \<times> 'v"

text \<open>The cache: the state of its base, its members, and the memory its coins use.\<close>

record 'v coins_cache =
  cc_base :: 'v
  cc_hashBlock :: uint256
  cc_coins :: CCoinsMap
  cc_usage :: u64

definition new_cache :: "'v \<Rightarrow> 'v coins_cache" where
  "new_cache v = \<lparr>cc_base = v, cc_hashBlock = uint256_zero, cc_coins = [], cc_usage = 0\<rparr>"

text \<open>
  \<open>Coin::DynamicMemoryUsage\<close> is the memory that the script has allocated, a function \<open>du\<close> of its bytes
  that is an argument of the operations.
\<close>

definition MallocUsage :: "u64 \<Rightarrow> u64" where
  "MallocUsage alloc = (if alloc = 0 then 0 else push_bit 4 (drop_bit 4 (alloc + 31)))"

text \<open>The usage for scripts that have allocated exactly their size, which a script of at most 28 bytes does not do.\<close>

definition script_usage :: "bytes \<Rightarrow> u64" where
  "script_usage s = MallocUsage (if length s \<le> 28 then 0 else of_nat (length s))"

definition coin_usage :: "(bytes \<Rightarrow> u64) \<Rightarrow> Coin \<Rightarrow> u64" where
  "coin_usage du c = du (scriptPubKey (coin_out c))"

section \<open>Operations of the cache\<close>

definition FetchCoin ::
  "'v view_ops \<Rightarrow> (bytes \<Rightarrow> u64) \<Rightarrow> COutPoint \<Rightarrow> 'v coins_cache \<Rightarrow> CCoinsCacheEntry option \<times> 'v coins_cache" where
  "FetchCoin ops du outpoint c =
     (case map_of (cc_coins c) outpoint of
        Some e \<Rightarrow> (Some e, c)
      | None \<Rightarrow>
          (case v_GetCoin ops outpoint (cc_base c) of
             (None, b) \<Rightarrow> (None, c\<lparr>cc_base := b\<rparr>)
           | (Some tmp, b) \<Rightarrow>
               let e = \<lparr>e_coin = tmp, e_flags = (if IsSpent tmp then FRESH else 0)\<rparr>
               in (Some e, c\<lparr>cc_base := b, cc_coins := AList.update outpoint e (cc_coins c),
                             cc_usage := cc_usage c + coin_usage du tmp\<rparr>)))"

definition GetCoin ::
  "'v view_ops \<Rightarrow> (bytes \<Rightarrow> u64) \<Rightarrow> COutPoint \<Rightarrow> 'v coins_cache \<Rightarrow> Coin option \<times> 'v coins_cache" where
  "GetCoin ops du outpoint c =
     (case FetchCoin ops du outpoint c of
        (Some e, c) \<Rightarrow> (if IsSpent (e_coin e) then None else Some (e_coin e), c)
      | (None, c) \<Rightarrow> (None, c))"

definition AddCoin ::
  "(bytes \<Rightarrow> u64) \<Rightarrow> COutPoint \<Rightarrow> Coin \<Rightarrow> bool \<Rightarrow> 'v coins_cache \<Rightarrow> (coins_error + unit) \<times> 'v coins_cache" where
  "AddCoin du outpoint coin possible_overwrite c =
     (if IsSpent coin then (Inl AssertionFailure, c)
      else if IsUnspendable (scriptPubKey (coin_out coin)) then (Inr (), c)
      else
        let it = map_of (cc_coins c) outpoint;
            e = (case it of Some e \<Rightarrow> e | None \<Rightarrow> empty_entry);
            c = (case it of Some e \<Rightarrow> c\<lparr>cc_usage := cc_usage c - coin_usage du (e_coin e)\<rparr>
                 | None \<Rightarrow> c\<lparr>cc_coins := AList.update outpoint e (cc_coins c)\<rparr>)
        in if \<not> possible_overwrite \<and> \<not> IsSpent (e_coin e)
           then (Inl (LogicError ''Attempted to overwrite an unspent coin (when possible_overwrite is false)''), c)
           else
             let fresh = (\<not> possible_overwrite \<and> \<not> is_dirty e);
                 e = \<lparr>e_coin = coin, e_flags = e_flags e OR (DIRTY OR (if fresh then FRESH else 0))\<rparr>
             in (Inr (), c\<lparr>cc_coins := AList.update outpoint e (cc_coins c),
                           cc_usage := cc_usage c + coin_usage du coin\<rparr>))"

definition EmplaceCoinInternalDANGER ::
  "(bytes \<Rightarrow> u64) \<Rightarrow> COutPoint \<Rightarrow> Coin \<Rightarrow> 'v coins_cache \<Rightarrow> 'v coins_cache" where
  "EmplaceCoinInternalDANGER du outpoint coin c =
     (let c = c\<lparr>cc_usage := cc_usage c + coin_usage du coin\<rparr>
      in case map_of (cc_coins c) outpoint of
           Some _ \<Rightarrow> c
         | None \<Rightarrow> c\<lparr>cc_coins := AList.update outpoint \<lparr>e_coin = coin, e_flags = DIRTY\<rparr> (cc_coins c)\<rparr>)"

text \<open>The result and what is moved to \<open>moveout\<close>.\<close>

definition SpendCoin ::
  "'v view_ops \<Rightarrow> (bytes \<Rightarrow> u64) \<Rightarrow> COutPoint \<Rightarrow> 'v coins_cache \<Rightarrow> Coin option \<times> 'v coins_cache" where
  "SpendCoin ops du outpoint c =
     (case FetchCoin ops du outpoint c of
        (None, c) \<Rightarrow> (None, c)
      | (Some e, c) \<Rightarrow>
          let c = c\<lparr>cc_usage := cc_usage c - coin_usage du (e_coin e)\<rparr>
          in (Some (e_coin e),
              if is_fresh e then c\<lparr>cc_coins := AList.delete outpoint (cc_coins c)\<rparr>
              else c\<lparr>cc_coins := AList.update outpoint \<lparr>e_coin = coinEmpty, e_flags = e_flags e OR DIRTY\<rparr> (cc_coins c)\<rparr>))"

definition AccessCoin ::
  "'v view_ops \<Rightarrow> (bytes \<Rightarrow> u64) \<Rightarrow> COutPoint \<Rightarrow> 'v coins_cache \<Rightarrow> Coin \<times> 'v coins_cache" where
  "AccessCoin ops du outpoint c =
     (case FetchCoin ops du outpoint c of
        (None, c) \<Rightarrow> (coinEmpty, c)
      | (Some e, c) \<Rightarrow> (e_coin e, c))"

definition HaveCoin ::
  "'v view_ops \<Rightarrow> (bytes \<Rightarrow> u64) \<Rightarrow> COutPoint \<Rightarrow> 'v coins_cache \<Rightarrow> bool \<times> 'v coins_cache" where
  "HaveCoin ops du outpoint c =
     (case FetchCoin ops du outpoint c of
        (None, c) \<Rightarrow> (False, c)
      | (Some e, c) \<Rightarrow> (\<not> IsSpent (e_coin e), c))"

definition HaveCoinInCache :: "COutPoint \<Rightarrow> 'v coins_cache \<Rightarrow> bool" where
  "HaveCoinInCache outpoint c =
     (case map_of (cc_coins c) outpoint of None \<Rightarrow> False | Some e \<Rightarrow> \<not> IsSpent (e_coin e))"

definition GetBestBlock :: "'v view_ops \<Rightarrow> 'v coins_cache \<Rightarrow> uint256 \<times> 'v coins_cache" where
  "GetBestBlock ops c =
     (let c = (if uint256_IsNull (cc_hashBlock c)
               then let (h, b) = v_GetBestBlock ops (cc_base c) in c\<lparr>cc_base := b, cc_hashBlock := h\<rparr>
               else c)
      in (cc_hashBlock c, c))"

definition SetBestBlock :: "uint256 \<Rightarrow> 'v coins_cache \<Rightarrow> 'v coins_cache" where
  "SetBestBlock h c = c\<lparr>cc_hashBlock := h\<rparr>"

text \<open>One iteration of the loop of \<open>BatchWrite\<close>, for the entry \<open>e\<close> of the child at \<open>outpoint\<close>.\<close>

definition batch_entry ::
  "(bytes \<Rightarrow> u64) \<Rightarrow> COutPoint \<Rightarrow> CCoinsCacheEntry \<Rightarrow> 'v coins_cache \<Rightarrow> (coins_error + unit) \<times> 'v coins_cache" where
  "batch_entry du outpoint e c =
     (if \<not> is_dirty e then (Inr (), c)
      else case map_of (cc_coins c) outpoint of
        None \<Rightarrow>
          if \<not> (is_fresh e \<and> IsSpent (e_coin e))
          then (Inr (),
                c\<lparr>cc_coins := AList.update outpoint
                      \<lparr>e_coin = e_coin e, e_flags = (if is_fresh e then DIRTY OR FRESH else DIRTY)\<rparr> (cc_coins c),
                  cc_usage := cc_usage c + coin_usage du (e_coin e)\<rparr>)
          else (Inr (), c)
      | Some us \<Rightarrow>
          if is_fresh e \<and> \<not> IsSpent (e_coin us)
          then (Inl (LogicError ''FRESH flag misapplied to coin that exists in parent cache''), c)
          else if is_fresh us \<and> IsSpent (e_coin e)
          then (Inr (), c\<lparr>cc_usage := cc_usage c - coin_usage du (e_coin us),
                          cc_coins := AList.delete outpoint (cc_coins c)\<rparr>)
          else (Inr (),
                c\<lparr>cc_coins := AList.update outpoint \<lparr>e_coin = e_coin e, e_flags = e_flags us OR DIRTY\<rparr> (cc_coins c),
                  cc_usage := cc_usage c - coin_usage du (e_coin us) + coin_usage du (e_coin e)\<rparr>))"

text \<open>The loop; the list in the result are the entries the child keeps when it erases.\<close>

primrec batch_loop ::
  "(bytes \<Rightarrow> u64) \<Rightarrow> CCoinsMap \<Rightarrow> 'v coins_cache \<Rightarrow> (coins_error + unit) \<times> CCoinsMap \<times> 'v coins_cache" where
  "batch_loop du [] c = (Inr (), [], c)"
| "batch_loop du (x # m) c =
     (case batch_entry du (fst x) (snd x) c of
        (Inl err, c) \<Rightarrow> (Inl err, x # m, c)
      | (Inr _, c) \<Rightarrow> batch_loop du m c)"

definition BatchWrite ::
  "(bytes \<Rightarrow> u64) \<Rightarrow> CCoinsMap \<Rightarrow> uint256 \<Rightarrow> bool \<Rightarrow> 'v coins_cache
     \<Rightarrow> (coins_error + bool) \<times> CCoinsMap \<times> 'v coins_cache" where
  "BatchWrite du mapCoins hashBlockIn erase c =
     (case batch_loop du mapCoins c of
        (Inl err, rest, c) \<Rightarrow> (Inl err, if erase then rest else mapCoins, c)
      | (Inr _, rest, c) \<Rightarrow> (Inr True, if erase then rest else mapCoins, c\<lparr>cc_hashBlock := hashBlockIn\<rparr>))"

text \<open>\<open>Flush\<close>, with \<open>ReallocateCache\<close>, and \<open>Sync\<close>.\<close>

definition Flush :: "'v view_ops \<Rightarrow> 'v coins_cache \<Rightarrow> (coins_error + bool) \<times> 'v coins_cache" where
  "Flush ops c =
     (case v_BatchWrite ops (cc_coins c) (cc_hashBlock c) True (cc_base c) of
        (Inl err, m, b) \<Rightarrow> (Inl err, c\<lparr>cc_base := b, cc_coins := m\<rparr>)
      | (Inr fOk, m, b) \<Rightarrow>
          let c = c\<lparr>cc_base := b, cc_coins := m\<rparr>
          in if fOk \<and> cc_coins c \<noteq> [] then (Inl (LogicError ''Not all cached coins were erased''), c)
             else (Inr fOk, c\<lparr>cc_usage := 0\<rparr>))"

primrec sync_loop :: "(bytes \<Rightarrow> u64) \<Rightarrow> CCoinsMap \<Rightarrow> u64 \<Rightarrow> CCoinsMap \<times> u64" where
  "sync_loop du [] usage = ([], usage)"
| "sync_loop du (x # m) usage =
     (if IsSpent (e_coin (snd x)) then sync_loop du m (usage - coin_usage du (e_coin (snd x)))
      else let (m, usage) = sync_loop du m usage in ((fst x, (snd x)\<lparr>e_flags := 0\<rparr>) # m, usage))"

definition Sync :: "'v view_ops \<Rightarrow> (bytes \<Rightarrow> u64) \<Rightarrow> 'v coins_cache \<Rightarrow> (coins_error + bool) \<times> 'v coins_cache" where
  "Sync ops du c =
     (case v_BatchWrite ops (cc_coins c) (cc_hashBlock c) False (cc_base c) of
        (Inl err, m, b) \<Rightarrow> (Inl err, c\<lparr>cc_base := b, cc_coins := m\<rparr>)
      | (Inr fOk, m, b) \<Rightarrow>
          let (m, usage) = sync_loop du m (cc_usage c)
          in (Inr fOk, c\<lparr>cc_base := b, cc_coins := m, cc_usage := usage\<rparr>))"

definition Uncache :: "(bytes \<Rightarrow> u64) \<Rightarrow> COutPoint \<Rightarrow> 'v coins_cache \<Rightarrow> 'v coins_cache" where
  "Uncache du outpoint c =
     (case map_of (cc_coins c) outpoint of
        None \<Rightarrow> c
      | Some e \<Rightarrow>
          if e_flags e = 0
          then c\<lparr>cc_usage := cc_usage c - coin_usage du (e_coin e), cc_coins := AList.delete outpoint (cc_coins c)\<rparr>
          else c)"

definition GetCacheSize :: "'v coins_cache \<Rightarrow> nat" where
  "GetCacheSize c = length (cc_coins c)"

text \<open>The assertions of \<open>SanityCheck\<close>.\<close>

definition entry_attr :: "CCoinsCacheEntry \<Rightarrow> nat" where
  "entry_attr e = (if is_dirty e then 1 else 0) + (if is_fresh e then 2 else 0) + (if IsSpent (e_coin e) then 4 else 0)"

definition recomputed_usage :: "(bytes \<Rightarrow> u64) \<Rightarrow> CCoinsMap \<Rightarrow> u64" where
  "recomputed_usage du m = sum_list (map (\<lambda>x. coin_usage du (e_coin (snd x))) m)"

definition SanityCheck :: "(bytes \<Rightarrow> u64) \<Rightarrow> 'v coins_cache \<Rightarrow> bool" where
  "SanityCheck du c \<longleftrightarrow>
     list_all (\<lambda>x. entry_attr (snd x) \<notin> {2, 4, 7}) (cc_coins c) \<and> recomputed_usage du (cc_coins c) = cc_usage c"

text \<open>The virtual functions of the cache.\<close>

definition cache_ops :: "'v view_ops \<Rightarrow> (bytes \<Rightarrow> u64) \<Rightarrow> 'v coins_cache view_ops" where
  "cache_ops ops du = \<lparr>v_GetCoin = GetCoin ops du, v_HaveCoin = HaveCoin ops du,
     v_GetBestBlock = GetBestBlock ops, v_BatchWrite = BatchWrite du\<rparr>"

section \<open>Transactions\<close>

definition IsCoinBase :: "CTransaction \<Rightarrow> bool" where
  "IsCoinBase tx \<longleftrightarrow> length (vin tx) = 1 \<and> COutPoint_IsNull (prevout (hd (vin tx)))"

primrec have_inputs_loop ::
  "'v view_ops \<Rightarrow> (bytes \<Rightarrow> u64) \<Rightarrow> COutPoint list \<Rightarrow> 'v coins_cache \<Rightarrow> bool \<times> 'v coins_cache" where
  "have_inputs_loop ops du [] c = (True, c)"
| "have_inputs_loop ops du (p # ps) c =
     (let (have, c) = HaveCoin ops du p c
      in if \<not> have then (False, c) else have_inputs_loop ops du ps c)"

definition HaveInputs ::
  "'v view_ops \<Rightarrow> (bytes \<Rightarrow> u64) \<Rightarrow> CTransaction \<Rightarrow> 'v coins_cache \<Rightarrow> bool \<times> 'v coins_cache" where
  "HaveInputs ops du tx c = (if \<not> IsCoinBase tx then have_inputs_loop ops du (map prevout (vin tx)) c else (True, c))"

primrec add_coins_loop ::
  "'v view_ops \<Rightarrow> (bytes \<Rightarrow> u64) \<Rightarrow> uint256 \<Rightarrow> int \<Rightarrow> bool \<Rightarrow> bool \<Rightarrow> nat \<Rightarrow> CTxOut list \<Rightarrow> 'v coins_cache
     \<Rightarrow> (coins_error + unit) \<times> 'v coins_cache" where
  "add_coins_loop ops du txid nHeight fCoinbase check i [] c = (Inr (), c)"
| "add_coins_loop ops du txid nHeight fCoinbase check i (out # outs) c =
     (let (overwrite, c) = (if check then HaveCoin ops du (COutPoint txid (of_nat i)) c else (fCoinbase, c))
      in case AddCoin du (COutPoint txid (of_nat i))
                \<lparr>coin_out = out, coin_fCoinBase = fCoinbase, coin_nHeight = word_of_int nHeight\<rparr> overwrite c of
           (Inl err, c) \<Rightarrow> (Inl err, c)
         | (Inr _, c) \<Rightarrow> add_coins_loop ops du txid nHeight fCoinbase check (Suc i) outs c)"

definition AddCoins ::
  "'v view_ops \<Rightarrow> (bytes \<Rightarrow> u64) \<Rightarrow> CTransaction \<Rightarrow> int \<Rightarrow> bool \<Rightarrow> 'v coins_cache
     \<Rightarrow> (coins_error + unit) \<times> 'v coins_cache" where
  "AddCoins ops du tx nHeight check_for_overwrite c =
     add_coins_loop ops du (tx_hash tx) nHeight (IsCoinBase tx) check_for_overwrite 0 (vout tx) c"

text \<open>\<open>MaxBlockSize()\<close> over the size of an empty output.\<close>

definition MAX_OUTPUTS_PER_BLOCK :: nat where
  "MAX_OUTPUTS_PER_BLOCK = 2000000 div length (write_i64 (- 1) @ write_bytes [])"

primrec access_loop ::
  "'v view_ops \<Rightarrow> (bytes \<Rightarrow> u64) \<Rightarrow> uint256 \<Rightarrow> nat \<Rightarrow> nat \<Rightarrow> 'v coins_cache \<Rightarrow> Coin \<times> 'v coins_cache" where
  "access_loop ops du txid n 0 c = (coinEmpty, c)"
| "access_loop ops du txid n (Suc k) c =
     (let (alternate, c) = AccessCoin ops du (COutPoint txid (of_nat n)) c
      in if \<not> IsSpent alternate then (alternate, c) else access_loop ops du txid (Suc n) k c)"

definition AccessByTxid ::
  "'v view_ops \<Rightarrow> (bytes \<Rightarrow> u64) \<Rightarrow> uint256 \<Rightarrow> 'v coins_cache \<Rightarrow> Coin \<times> 'v coins_cache" where
  "AccessByTxid ops du txid c = access_loop ops du txid 0 MAX_OUTPUTS_PER_BLOCK c"

end
