(* ===== verification/CoinsView.thy ===== *)
theory CoinsView
  imports Coins
begin

text \<open>
  The interface of a view of coins and the cache as an implementation of it. \<open>entry_ok\<close> is the meaning of
  the flags of an entry relative to what lies below the cache, \<open>overlay\<close> what one sees through the entries.
  In \<open>coins_cache_base\<close>, over any view, every operation of the cache keeps its invariant and does to the map
  of unspent coins what its name says; a cache is again a view.
\<close>

section \<open>Flags and entries\<close>

named_theorems coins_simps \<open>flags, entries and maps of the coins cache\<close>

lemma flags_cases:
  fixes f :: u8
  assumes "f < 4"
  obtains "f = 0" | "f = 1" | "f = 2" | "f = 3"
proof -
  have "uint f < 4" using assms by (simp add: word_less_def)
  then have "uint f = 0 \<or> uint f = 1 \<or> uint f = 2 \<or> uint f = 3" using uint_ge_0 [of f] by linarith
  then have "f = 0 \<or> f = 1 \<or> f = 2 \<or> f = 3" by (auto simp: word_uint_eq_iff)
  then show ?thesis using that by blast
qed

lemma flags_or:
  fixes f :: u8
  assumes "f < 4"
  shows "f OR DIRTY < 4" "f OR (DIRTY OR FRESH) < 4" "(f OR DIRTY) AND DIRTY \<noteq> 0" "(f OR (DIRTY OR FRESH)) AND DIRTY \<noteq> 0"
    "(f OR (DIRTY OR FRESH)) AND FRESH \<noteq> 0" "(f OR DIRTY) AND FRESH \<noteq> 0 \<longleftrightarrow> f AND FRESH \<noteq> 0"
  using assms by (auto simp: DIRTY_def FRESH_def elim!: flags_cases)

lemma flags_0: "e_flags e < 4 \<Longrightarrow> e_flags e = 0 \<longleftrightarrow> \<not> is_dirty e \<and> \<not> is_fresh e"
  by (auto simp: is_dirty_def is_fresh_def DIRTY_def FRESH_def elim!: flags_cases)

lemma flag_nonzero: "DIRTY \<noteq> 0" "FRESH \<noteq> 0"
  by (simp_all add: DIRTY_def FRESH_def)

lemma entry_flags [coins_simps]:
  "\<not> is_dirty \<lparr>e_coin = c, e_flags = 0\<rparr>" "\<not> is_fresh \<lparr>e_coin = c, e_flags = 0\<rparr>"
  "is_dirty \<lparr>e_coin = c, e_flags = DIRTY\<rparr>" "\<not> is_fresh \<lparr>e_coin = c, e_flags = DIRTY\<rparr>"
  "\<not> is_dirty \<lparr>e_coin = c, e_flags = FRESH\<rparr>" "is_fresh \<lparr>e_coin = c, e_flags = FRESH\<rparr>"
  "is_dirty \<lparr>e_coin = c, e_flags = DIRTY OR FRESH\<rparr>" "is_fresh \<lparr>e_coin = c, e_flags = DIRTY OR FRESH\<rparr>"
  by (simp_all add: is_dirty_def is_fresh_def DIRTY_def FRESH_def)

lemma entry_flags_or [coins_simps]:
  "f < 4 \<Longrightarrow> is_dirty \<lparr>e_coin = c, e_flags = f OR DIRTY\<rparr>"
  "f < 4 \<Longrightarrow> is_fresh \<lparr>e_coin = c, e_flags = f OR DIRTY\<rparr> \<longleftrightarrow> f AND FRESH \<noteq> 0"
  "f < 4 \<Longrightarrow> is_dirty \<lparr>e_coin = c, e_flags = f OR (DIRTY OR FRESH)\<rparr>"
  "f < 4 \<Longrightarrow> is_fresh \<lparr>e_coin = c, e_flags = f OR (DIRTY OR FRESH)\<rparr>"
  by (simp_all add: is_dirty_def is_fresh_def flags_or flag_nonzero)

lemma flag_bounds [coins_simps]: "(0 :: u8) < 4" "DIRTY < 4" "FRESH < 4" "DIRTY OR FRESH < 4"
  by (simp_all add: DIRTY_def FRESH_def)

lemma IsSpent_coinEmpty [simp]: "IsSpent coinEmpty"
  by (simp add: IsSpent_def coinEmpty_def CTxOut_IsNull_def)

text \<open>What an entry says about its outpoint, and when it is right about what lies below the cache.\<close>

definition entry_value :: "CCoinsCacheEntry \<Rightarrow> Coin option" where
  "entry_value e = (if IsSpent (e_coin e) then None else Some (e_coin e))"

definition entry_ok :: "Coin option \<Rightarrow> CCoinsCacheEntry \<Rightarrow> bool" where
  "entry_ok below e \<longleftrightarrow> e_flags e < 4 \<and> (is_fresh e \<longrightarrow> below = None) \<and> (\<not> is_dirty e \<longrightarrow> below = entry_value e) \<and>
     (IsSpent (e_coin e) \<longrightarrow> e_coin e = coinEmpty \<and> is_dirty e \<noteq> is_fresh e)"

definition map_ok :: "(COutPoint \<Rightarrow> Coin option) \<Rightarrow> CCoinsMap \<Rightarrow> bool" where
  "map_ok below m \<longleftrightarrow> distinct (map fst m) \<and> (\<forall>p e. map_of m p = Some e \<longrightarrow> entry_ok (below p) e)"

text \<open>The coins one sees through the entries.\<close>

definition overlay :: "CCoinsMap \<Rightarrow> (COutPoint \<Rightarrow> Coin option) \<Rightarrow> COutPoint \<Rightarrow> Coin option" where
  "overlay m f p = (case map_of m p of Some e \<Rightarrow> entry_value e | None \<Rightarrow> f p)"

lemma map_okD: "map_ok f m \<Longrightarrow> map_of m p = Some e \<Longrightarrow> entry_ok (f p) e"
  by (simp add: map_ok_def)

lemma overlay_Nil [simp]: "overlay [] f = f"
  by (simp add: overlay_def fun_eq_iff)

lemma map_ok_Nil [simp]: "map_ok f []"
  by (simp add: map_ok_def)

lemma map_ok_update: "map_ok f m \<Longrightarrow> entry_ok (f p) e \<Longrightarrow> map_ok f (AList.update p e m)"
  by (auto simp: map_ok_def update_conv' distinct_update)

lemma map_ok_delete: "map_ok f m \<Longrightarrow> map_ok f (AList.delete p m)"
  by (auto simp: map_ok_def delete_conv' distinct_delete)

lemma overlay_update: "overlay (AList.update p e m) f = (overlay m f)(p := entry_value e)"
  by (auto simp: overlay_def update_conv' fun_eq_iff)

lemma overlay_delete: "overlay (AList.delete p m) f = (overlay m f)(p := f p)"
  by (auto simp: overlay_def delete_conv' fun_eq_iff)

lemma overlay_Cons: "p \<notin> fst ` set m \<Longrightarrow> overlay ((p, e) # m) f = overlay m (f(p := entry_value e))"
  using map_of_eq_None_iff [of m p] by (auto simp: overlay_def fun_eq_iff split: option.split)

lemma map_ok_Cons:
  assumes "map_ok f ((p, e) # m)"
  shows "entry_ok (f p) e" "p \<notin> fst ` set m" "map_ok (f(p := v)) m"
proof -
  show p: "p \<notin> fst ` set m" using assms by (simp add: map_ok_def)
  show "entry_ok (f p) e" using assms by (simp add: map_ok_def)
  have "entry_ok ((f(p := v)) q) e'" if "map_of m q = Some e'" for q e'
  proof -
    have "q \<noteq> p" using that p by (auto dest: map_of_SomeD intro: rev_image_eqI)
    then show ?thesis using assms that by (simp add: map_ok_def)
  qed
  then show "map_ok (f(p := v)) m" using assms by (simp add: map_ok_def)
qed

section \<open>Memory usage\<close>

lemma recomputed_usage_simps [simp]:
  "recomputed_usage du [] = 0"
  "recomputed_usage du (x # m) = coin_usage du (e_coin (snd x)) + recomputed_usage du m"
  by (simp_all add: recomputed_usage_def)

lemma recomputed_usage_update:
  "recomputed_usage du (AList.update p e m) =
     recomputed_usage du m + coin_usage du (e_coin e) -
       (case map_of m p of None \<Rightarrow> 0 | Some e' \<Rightarrow> coin_usage du (e_coin e'))"
  by (induction m) (auto split: option.split simp: algebra_simps)

lemma recomputed_usage_delete:
  assumes "distinct (map fst m)"
  shows "recomputed_usage du (AList.delete p m) =
     recomputed_usage du m - (case map_of m p of None \<Rightarrow> 0 | Some e' \<Rightarrow> coin_usage du (e_coin e'))"
  using assms
proof (induction m)
  case (Cons x m)
  then show ?case
    by (cases x) (auto split: option.split simp: algebra_simps)
qed simp

section \<open>The interface of a view\<close>

locale coins_view =
  fixes ops :: "'v view_ops"
    and utxo :: "'v \<Rightarrow> COutPoint \<Rightarrow> Coin option"
    and best :: "'v \<Rightarrow> uint256"
    and vinv :: "'v \<Rightarrow> bool"
  assumes unspent: "vinv v \<Longrightarrow> utxo v p = Some coin \<Longrightarrow> \<not> IsSpent coin"
    and get_coin: "vinv v \<Longrightarrow> v_GetCoin ops p v = (r, v') \<Longrightarrow> r = utxo v p \<and> vinv v' \<and> utxo v' = utxo v \<and> best v' = best v"
    and have_coin: "vinv v \<Longrightarrow> v_HaveCoin ops p v = (b, v') \<Longrightarrow> b = (utxo v p \<noteq> None) \<and> vinv v' \<and> utxo v' = utxo v \<and> best v' = best v"
    and best_block: "vinv v \<Longrightarrow> v_GetBestBlock ops v = (h, v') \<Longrightarrow> h = best v \<and> vinv v' \<and> utxo v' = utxo v \<and> best v' = best v"
    and batch_write: "vinv v \<Longrightarrow> map_ok (utxo v) m \<Longrightarrow> \<not> uint256_IsNull h \<Longrightarrow> v_BatchWrite ops m h erase v = (res, m', v') \<Longrightarrow>
      res = Inr True \<and> m' = (if erase then [] else m) \<and> vinv v' \<and> utxo v' = overlay m (utxo v) \<and> best v' = h"

text \<open>What a cache shows, and its invariant.\<close>

definition cache_utxo :: "('v \<Rightarrow> COutPoint \<Rightarrow> Coin option) \<Rightarrow> 'v coins_cache \<Rightarrow> COutPoint \<Rightarrow> Coin option" where
  "cache_utxo utxo c = overlay (cc_coins c) (utxo (cc_base c))"

definition cache_best :: "('v \<Rightarrow> uint256) \<Rightarrow> 'v coins_cache \<Rightarrow> uint256" where
  "cache_best best c = (if uint256_IsNull (cc_hashBlock c) then best (cc_base c) else cc_hashBlock c)"

definition cache_inv ::
  "('v \<Rightarrow> COutPoint \<Rightarrow> Coin option) \<Rightarrow> ('v \<Rightarrow> bool) \<Rightarrow> (bytes \<Rightarrow> u64) \<Rightarrow> 'v coins_cache \<Rightarrow> bool" where
  "cache_inv utxo vinv du c \<longleftrightarrow> vinv (cc_base c) \<and> map_ok (utxo (cc_base c)) (cc_coins c) \<and>
     cc_usage c = recomputed_usage du (cc_coins c)"


locale coins_cache_base = coins_view +
  fixes du :: "bytes \<Rightarrow> u64"
  assumes du_Nil: "du [] = 0"
begin

abbreviation cutxo :: "'a coins_cache \<Rightarrow> COutPoint \<Rightarrow> Coin option" where "cutxo \<equiv> cache_utxo utxo"
abbreviation cinv :: "'a coins_cache \<Rightarrow> bool" where "cinv \<equiv> cache_inv utxo vinv du"
abbreviation cbest :: "'a coins_cache \<Rightarrow> uint256" where "cbest \<equiv> cache_best best"

lemma coin_usage_coinEmpty [simp]: "coin_usage du coinEmpty = 0"
  by (simp add: coin_usage_def coinEmpty_def du_Nil)

lemma cinvD:
  assumes "cinv c"
  shows "vinv (cc_base c)" "map_ok (utxo (cc_base c)) (cc_coins c)" "cc_usage c = recomputed_usage du (cc_coins c)"
    "distinct (map fst (cc_coins c))"
  using assms by (simp_all add: cache_inv_def map_ok_def)

lemma cutxo_Some: "map_of (cc_coins c) p = Some e \<Longrightarrow> cutxo c p = entry_value e"
  by (simp add: cache_utxo_def overlay_def)

lemma cutxo_unspent: "cinv c \<Longrightarrow> cutxo c p = Some coin \<Longrightarrow> \<not> IsSpent coin"
  using unspent [of "cc_base c" p coin] 
  by (auto simp: cache_utxo_def overlay_def entry_value_def cache_inv_def split: option.splits if_splits)

text \<open>Fetching: the entry it returns is in the cache and shows what the cache showed before.\<close>

lemma FetchCoin_spec:
  assumes "cinv c" "FetchCoin ops du p c = (r, c')"
  shows "cinv c'" "cutxo c' = cutxo c" "cbest c' = cbest c" "cc_hashBlock c' = cc_hashBlock c"
    "map_of (cc_coins c') p = r" "cutxo c p = (case r of Some e \<Rightarrow> entry_value e | None \<Rightarrow> None)"
proof -
  note vinv = cinvD [OF assms(1)]
  have "cinv c' \<and> cutxo c' = cutxo c \<and> cbest c' = cbest c \<and> cc_hashBlock c' = cc_hashBlock c \<and>
    map_of (cc_coins c') p = r \<and> cutxo c p = (case r of Some e \<Rightarrow> entry_value e | None \<Rightarrow> None)"
  proof (cases "map_of (cc_coins c) p")
    case (Some e)
    then have "r = Some e" "c' = c" using assms(2) by (auto simp: FetchCoin_def)
    then show ?thesis using Some assms(1) by (simp add: cutxo_Some)
  next
    case None
    obtain t b where g: "v_GetCoin ops p (cc_base c) = (t, b)" by fastforce
    note gc = get_coin [OF vinv(1) g]
    show ?thesis
    proof (cases t)
      case None
      with gc g \<open>map_of (cc_coins c) p = None\<close> assms show ?thesis
        by (auto simp: FetchCoin_def cache_inv_def cache_utxo_def cache_best_def overlay_def)
    next
      case (Some coin)
      then have "utxo (cc_base c) p = Some coin" "\<not> IsSpent coin" using gc unspent [OF vinv(1)] by auto
      moreover let ?e = "\<lparr>e_coin = coin, e_flags = 0\<rparr>"
      have r: "r = Some ?e" "c' = c\<lparr>cc_base := b, cc_coins := AList.update p ?e (cc_coins c),
          cc_usage := cc_usage c + coin_usage du coin\<rparr>"
        using assms(2) g Some \<open>map_of (cc_coins c) p = None\<close> \<open>\<not> IsSpent coin\<close> by (simp_all add: FetchCoin_def Let_def)
      moreover have "entry_ok (utxo (cc_base c) p) ?e" "entry_value ?e = Some coin"
        using \<open>utxo (cc_base c) p = Some coin\<close> \<open>\<not> IsSpent coin\<close>
        by (simp_all add: entry_ok_def coins_simps entry_value_def)
      ultimately show ?thesis
        using gc vinv \<open>map_of (cc_coins c) p = None\<close>
        by (simp add: cache_inv_def cache_utxo_def cache_best_def overlay_update
            map_ok_update recomputed_usage_update update_conv') (simp add: overlay_def fun_eq_iff)
    qed
  qed
  then show "cinv c'" "cutxo c' = cutxo c" "cbest c' = cbest c" "cc_hashBlock c' = cc_hashBlock c"
    "map_of (cc_coins c') p = r" "cutxo c p = (case r of Some e \<Rightarrow> entry_value e | None \<Rightarrow> None)"
    by simp_all
qed

lemma GetCoin_spec:
  assumes "cinv c" "GetCoin ops du p c = (r, c')"
  shows "r = cutxo c p" "cinv c'" "cutxo c' = cutxo c" "cbest c' = cbest c" "cc_hashBlock c' = cc_hashBlock c"
proof -
  obtain e d where f: "FetchCoin ops du p c = (e, d)" by fastforce
  note fs = FetchCoin_spec [OF assms(1) f]
  show "r = cutxo c p" "cinv c'" "cutxo c' = cutxo c" "cbest c' = cbest c" "cc_hashBlock c' = cc_hashBlock c"
    using assms(2) f fs by (auto simp: GetCoin_def entry_value_def split: option.splits)
qed

lemma HaveCoin_spec:
  assumes "cinv c" "HaveCoin ops du p c = (r, c')"
  shows "r = (cutxo c p \<noteq> None)" "cinv c'" "cutxo c' = cutxo c" "cbest c' = cbest c" "cc_hashBlock c' = cc_hashBlock c"
proof -
  obtain e d where f: "FetchCoin ops du p c = (e, d)" by fastforce
  note fs = FetchCoin_spec [OF assms(1) f]
  show "r = (cutxo c p \<noteq> None)" "cinv c'" "cutxo c' = cutxo c" "cbest c' = cbest c" "cc_hashBlock c' = cc_hashBlock c"
    using assms(2) f fs by (auto simp: HaveCoin_def entry_value_def split: option.splits if_splits)
qed

lemma AccessCoin_spec:
  assumes "cinv c" "AccessCoin ops du p c = (r, c')"
  shows "r = (case cutxo c p of Some coin \<Rightarrow> coin | None \<Rightarrow> coinEmpty)" "cinv c'" "cutxo c' = cutxo c"
    "cbest c' = cbest c" "cc_hashBlock c' = cc_hashBlock c"
proof -
  obtain e d where f: "FetchCoin ops du p c = (e, d)" by fastforce
  note fs = FetchCoin_spec [OF assms(1) f]
  show "cinv c'" "cutxo c' = cutxo c" "cbest c' = cbest c" "cc_hashBlock c' = cc_hashBlock c"
    using assms(2) f fs by (auto simp: AccessCoin_def split: option.splits)
  show "r = (case cutxo c p of Some coin \<Rightarrow> coin | None \<Rightarrow> coinEmpty)"
  proof (cases e)
    case (Some e')
    then have "entry_ok (utxo (cc_base d) p) e'" using fs(1,5) by (auto dest: cinvD(2) map_okD)
    then show ?thesis using assms(2) f fs(6) Some
      by (auto simp: AccessCoin_def entry_value_def entry_ok_def split: option.splits if_splits)
  next
    case None
    then show ?thesis using assms(2) f fs(6) by (auto simp: AccessCoin_def)
  qed
qed

lemma GetBestBlock_spec:
  assumes "cinv c" "GetBestBlock ops c = (h, c')"
  shows "h = cbest c" "cinv c'" "cutxo c' = cutxo c" "cbest c' = cbest c"
proof -
  obtain h' b where g: "v_GetBestBlock ops (cc_base c) = (h', b)" by fastforce
  note bb = best_block [OF cinvD(1) [OF assms(1)] g]
  show "h = cbest c" "cinv c'" "cutxo c' = cutxo c" "cbest c' = cbest c"
    using assms bb g by (auto simp: GetBestBlock_def cache_best_def cache_inv_def cache_utxo_def Let_def split: if_splits)
qed

text \<open>A spent outpoint is gone; what is moved out is the coin that was there.\<close>

lemma SpendCoin_spec:
  assumes "cinv c" "SpendCoin ops du p c = (r, c')"
  shows "cinv c'" "cutxo c' = (cutxo c)(p := None)" "cbest c' = cbest c" "cc_hashBlock c' = cc_hashBlock c"
    "cutxo c p = Some coin \<Longrightarrow> r = Some coin" "cutxo c p = None \<Longrightarrow> r = None \<or> r = Some coinEmpty"
proof -
  obtain e d where f: "FetchCoin ops du p c = (e, d)" by fastforce
  note fs = FetchCoin_spec [OF assms(1) f]
  note vinv = cinvD [OF fs(1)]
  have "cinv c' \<and> cutxo c' = (cutxo c)(p := None) \<and> cbest c' = cbest c \<and> cc_hashBlock c' = cc_hashBlock c \<and>
    (case cutxo c p of Some coin \<Rightarrow> r = Some coin | None \<Rightarrow> r = None \<or> r = Some coinEmpty)"
  proof (cases e)
    case None
    then show ?thesis using assms(2) f fs by (auto simp: SpendCoin_def fun_eq_iff)
  next
    case (Some e')
    then have e': "map_of (cc_coins d) p = Some e'" using fs(5) by simp
    have ok: "entry_ok (utxo (cc_base d) p) e'" by (rule map_okD [OF vinv(2) e'])
    have r: "case cutxo c p of Some coin \<Rightarrow> r = Some coin | None \<Rightarrow> r = None \<or> r = Some coinEmpty"
      using Some f fs(6) assms(2) ok
      by (auto simp: SpendCoin_def Let_def entry_value_def entry_ok_def split: option.splits if_splits)
    show ?thesis
    proof (cases "is_fresh e'")
      case True
      then have c': "c' = d\<lparr>cc_usage := cc_usage d - coin_usage du (e_coin e'), cc_coins := AList.delete p (cc_coins d)\<rparr>"
        using Some f assms(2) by (simp add: SpendCoin_def Let_def)
      have "utxo (cc_base d) p = None" using ok True by (simp add: entry_ok_def)
      then show ?thesis using c' vinv e' fs(2-4) r
        by (auto simp: cache_inv_def cache_utxo_def cache_best_def overlay_delete map_ok_delete recomputed_usage_delete)
    next
      case False
      let ?e = "\<lparr>e_coin = coinEmpty, e_flags = e_flags e' OR DIRTY\<rparr>"
      have c': "c' = d\<lparr>cc_usage := cc_usage d - coin_usage du (e_coin e'), cc_coins := AList.update p ?e (cc_coins d)\<rparr>"
        using Some f assms(2) False by (simp add: SpendCoin_def Let_def)
      have "entry_ok (utxo (cc_base d) p) ?e" "entry_value ?e = None"
        using ok False by (simp_all add: entry_ok_def coins_simps flags_or entry_value_def is_fresh_def)
      then show ?thesis using c' vinv e' fs(2-4) r
        by (auto simp: cache_inv_def cache_utxo_def cache_best_def overlay_update map_ok_update recomputed_usage_update)
    qed
  qed
  then show "cinv c'" "cutxo c' = (cutxo c)(p := None)" "cbest c' = cbest c" "cc_hashBlock c' = cc_hashBlock c"
    "cutxo c p = Some coin \<Longrightarrow> r = Some coin" "cutxo c p = None \<Longrightarrow> r = None \<or> r = Some coinEmpty"
    by auto
qed

end

context coins_cache_base
begin

lemma cinvI:
  assumes "vinv (cc_base c)" "map_ok (utxo (cc_base c)) (cc_coins c)" "cc_usage c = recomputed_usage du (cc_coins c)"
  shows "cinv c"
  using assms by (simp add: cache_inv_def)

text \<open>
  Adding a coin. The caller promises that without \<open>possible_overwrite\<close> no unspent coin is there; an
  unspendable output is not added.
\<close>

lemma AddCoin_spec:
  assumes "cinv c" "\<not> IsSpent coin" "\<not> po \<Longrightarrow> cutxo c p = None" "AddCoin du p coin po c = (r, c')"
  shows "r = Inr ()" "cinv c'" "cbest c' = cbest c" "cc_hashBlock c' = cc_hashBlock c"
    "cutxo c' = (if IsUnspendable (scriptPubKey (coin_out coin)) then cutxo c else (cutxo c)(p := Some coin))"
proof -
  note vinv = cinvD [OF assms(1)]
  let ?it = "map_of (cc_coins c) p" and ?below = "utxo (cc_base c) p"
  let ?e = "case ?it of Some e \<Rightarrow> e | None \<Rightarrow> empty_entry"
  let ?f = "\<not> po \<and> \<not> is_dirty ?e"
  let ?e' = "\<lparr>e_coin = coin, e_flags = e_flags ?e OR (DIRTY OR (if ?f then FRESH else 0))\<rparr>"
  have "r = Inr () \<and> cinv c' \<and> cbest c' = cbest c \<and> cc_hashBlock c' = cc_hashBlock c \<and>
    cutxo c' = (if IsUnspendable (scriptPubKey (coin_out coin)) then cutxo c else (cutxo c)(p := Some coin))"
  proof (cases "IsUnspendable (scriptPubKey (coin_out coin))")
    case True
    then show ?thesis using assms by (auto simp: AddCoin_def)
  next
    case False
    have lt: "e_flags ?e < 4"
      using map_okD [OF vinv(2), of p] by (auto simp: entry_ok_def empty_entry_def flag_bounds split: option.split)
    have spent: "IsSpent (e_coin ?e)" if "\<not> po"
      using assms(3) [OF that] cutxo_Some [of c p]
      by (auto simp: empty_entry_def entry_value_def split: option.split if_splits)
    have below: "?below = None" if "is_fresh ?e'"
    proof (cases "is_fresh ?e")
      case True
      then show ?thesis using map_okD [OF vinv(2), of p]
        by (auto simp: entry_ok_def empty_entry_def coins_simps split: option.splits)
    next
      case False
      with that lt have f: ?f by (auto simp: coins_simps is_fresh_def flags_or)
      show ?thesis
      proof (cases ?it)
        case None
        then show ?thesis using assms(3) f by (simp add: cache_utxo_def overlay_def)
      next
        case (Some e)
        then show ?thesis using map_okD [OF vinv(2) Some] f spent by (auto simp: entry_ok_def entry_value_def)
      qed
    qed
    have ok: "entry_ok ?below ?e'" "entry_value ?e' = Some coin"
      using lt assms(2) below by (auto simp: entry_ok_def coins_simps entry_value_def flags_or)
    have eq: "r = Inr ()" "cc_base c' = cc_base c" "cc_hashBlock c' = cc_hashBlock c"
        "cc_coins c' = AList.update p ?e' (cc_coins c)" "cc_usage c' = recomputed_usage du (AList.update p ?e' (cc_coins c))"
      by (cases ?it; use assms(2,4) False spent vinv(3) in \<open>force simp: AddCoin_def Let_def recomputed_usage_update empty_entry_def\<close>)+
    have "cinv c'" using vinv eq ok by (intro cinvI) (simp_all add: map_ok_update)
    then show ?thesis using eq False ok
      by (simp add: cache_utxo_def overlay_update cache_best_def)
  qed
  then show "r = Inr ()" "cinv c'" "cbest c' = cbest c" "cc_hashBlock c' = cc_hashBlock c"
    "cutxo c' = (if IsUnspendable (scriptPubKey (coin_out coin)) then cutxo c else (cutxo c)(p := Some coin))"
    by blast+
qed

lemma Uncache_spec:
  assumes "cinv c"
  shows "cinv (Uncache du p c)" "cutxo (Uncache du p c) = cutxo c" "cbest (Uncache du p c) = cbest c"
    "cc_hashBlock (Uncache du p c) = cc_hashBlock c"
proof -
  note vinv = cinvD [OF assms]
  have "cinv (Uncache du p c) \<and> cutxo (Uncache du p c) = cutxo c \<and> cbest (Uncache du p c) = cbest c \<and>
    cc_hashBlock (Uncache du p c) = cc_hashBlock c"
  proof (cases "\<exists>e. map_of (cc_coins c) p = Some e \<and> e_flags e = 0")
    case True
    then obtain e where e: "map_of (cc_coins c) p = Some e" "e_flags e = 0" by blast
    have ok: "entry_ok (utxo (cc_base c) p) e" by (rule map_okD [OF vinv(2) e(1)])
    then have "utxo (cc_base c) p = cutxo c p" using e flags_0 [of e] by (simp add: entry_ok_def cutxo_Some)
    then show ?thesis using e vinv
      by (simp add: Uncache_def cache_inv_def map_ok_delete recomputed_usage_delete cache_utxo_def overlay_delete cache_best_def)
  next
    case False
    then have "Uncache du p c = c" by (auto simp: Uncache_def split: option.split)
    then show ?thesis using assms by simp
  qed
  then show "cinv (Uncache du p c)" "cutxo (Uncache du p c) = cutxo c" "cbest (Uncache du p c) = cbest c"
    "cc_hashBlock (Uncache du p c) = cc_hashBlock c" by simp_all
qed

lemma SetBestBlock_spec:
  assumes "cinv c" "\<not> uint256_IsNull h"
  shows "cinv (SetBestBlock h c)" "cutxo (SetBestBlock h c) = cutxo c" "cbest (SetBestBlock h c) = h"
  using assms by (simp_all add: SetBestBlock_def cache_inv_def cache_utxo_def cache_best_def)

text \<open>A coin emplaced where the cache has no entry.\<close>

lemma Emplace_spec:
  assumes "cinv c" "\<not> IsSpent coin" "map_of (cc_coins c) p = None"
  defines "c' \<equiv> EmplaceCoinInternalDANGER du p coin c"
  shows "cinv c'" "cutxo c' = (cutxo c)(p := Some coin)" "cbest c' = cbest c"
proof -
  let ?e = "\<lparr>e_coin = coin, e_flags = DIRTY\<rparr>"
  have "entry_ok (utxo (cc_base c) p) ?e" "entry_value ?e = Some coin"
    using assms(2) by (simp_all add: entry_ok_def coins_simps entry_value_def)
  then show "cinv c'" "cutxo c' = (cutxo c)(p := Some coin)" "cbest c' = cbest c"
    using cinvD [OF assms(1)] assms(3)
    by (simp_all add: c'_def EmplaceCoinInternalDANGER_def Let_def cache_inv_def map_ok_update recomputed_usage_update
        cache_utxo_def overlay_update cache_best_def)
qed

text \<open>Writing one entry, and all entries, of a child cache.\<close>

lemma batch_entry_spec:
  assumes "cinv c" "entry_ok (cutxo c p) e" "batch_entry du p e c = (r, c')"
  shows "r = Inr ()" "cinv c'" "cutxo c' = (cutxo c)(p := entry_value e)" "cc_hashBlock c' = cc_hashBlock c"
    "cc_base c' = cc_base c"
proof -
  note vinv = cinvD [OF assms(1)]
  let ?it = "map_of (cc_coins c) p" and ?below = "utxo (cc_base c) p"
  have "r = Inr () \<and> cinv c' \<and> cutxo c' = (cutxo c)(p := entry_value e) \<and> cc_hashBlock c' = cc_hashBlock c \<and>
    cc_base c' = cc_base c"
  proof (cases "is_dirty e")
    case False
    then show ?thesis using assms by (auto simp: batch_entry_def entry_ok_def fun_eq_iff)
  next
    case dirty: True
    show ?thesis
    proof (cases ?it)
      case None
      then have cp: "cutxo c p = ?below" by (simp add: cache_utxo_def overlay_def)
      show ?thesis
      proof (cases "is_fresh e \<and> IsSpent (e_coin e)")
        case True
        then have "entry_value e = cutxo c p" using assms(2) by (simp add: entry_ok_def entry_value_def)
        then show ?thesis using True assms dirty None by (auto simp: batch_entry_def)
      next
        case False
        let ?e = "\<lparr>e_coin = e_coin e, e_flags = (if is_fresh e then DIRTY OR FRESH else DIRTY)\<rparr>"
        have "entry_ok ?below ?e" "entry_value ?e = entry_value e"
          using assms(2) cp False by (auto simp: entry_ok_def coins_simps entry_value_def)
        then show ?thesis using False assms dirty None vinv
          by (auto simp: batch_entry_def cache_inv_def map_ok_update recomputed_usage_update cache_utxo_def overlay_update)
      qed
    next
      case (Some us)
      note us = map_okD [OF vinv(2) Some]
      have cp: "cutxo c p = entry_value us" by (rule cutxo_Some [OF Some])
      have A: "\<not> (is_fresh e \<and> \<not> IsSpent (e_coin us))"
        using assms(2) cp by (auto simp: entry_ok_def entry_value_def)
      show ?thesis
      proof (cases "is_fresh us \<and> IsSpent (e_coin e)")
        case True
        then have "entry_value e = ?below" using us by (simp add: entry_ok_def entry_value_def)
        then show ?thesis using A True assms dirty Some vinv
          by (auto simp: batch_entry_def cache_inv_def map_ok_delete recomputed_usage_delete cache_utxo_def overlay_delete)
      next
        case False
        let ?e = "\<lparr>e_coin = e_coin e, e_flags = e_flags us OR DIRTY\<rparr>"
        have "entry_ok ?below ?e" "entry_value ?e = entry_value e"
          using assms(2) us False by (auto simp: entry_ok_def coins_simps entry_value_def flags_or is_fresh_def)
        then show ?thesis using A False assms dirty Some vinv
          by (auto simp: batch_entry_def cache_inv_def map_ok_update recomputed_usage_update cache_utxo_def overlay_update)
      qed
    qed
  qed
  then show "r = Inr ()" "cinv c'" "cutxo c' = (cutxo c)(p := entry_value e)" "cc_hashBlock c' = cc_hashBlock c"
    "cc_base c' = cc_base c"
    by blast+
qed

lemma batch_loop_spec:
  assumes "cinv c" "map_ok (cutxo c) m"
  shows "\<exists>c'. batch_loop du m c = (Inr (), [], c') \<and> cinv c' \<and> cutxo c' = overlay m (cutxo c) \<and>
    cc_hashBlock c' = cc_hashBlock c \<and> cc_base c' = cc_base c"
  using assms
proof (induction m arbitrary: c)
  case (Cons x m)
  obtain p e where x: "x = (p, e)" by (cases x)
  note ok = map_ok_Cons [OF Cons.prems(2) [unfolded x]]
  obtain r d where b: "batch_entry du p e c = (r, d)" by fastforce
  note be = batch_entry_spec [OF Cons.prems(1) ok(1) b]
  have "map_ok (cutxo d) m" using ok(3) be(3) by simp
  then obtain c' where "batch_loop du m d = (Inr (), [], c')" "cinv c'" "cutxo c' = overlay m (cutxo d)"
      "cc_hashBlock c' = cc_hashBlock d" "cc_base c' = cc_base d"
    using Cons.IH [OF be(2)] by blast
  then show ?case using b be ok(2) by (simp add: x overlay_Cons)
qed simp

lemma BatchWrite_spec:
  assumes "cinv c" "map_ok (cutxo c) m" "\<not> uint256_IsNull h" "BatchWrite du m h erase c = (r, m', c')"
  shows "r = Inr True" "m' = (if erase then [] else m)" "cinv c'" "cutxo c' = overlay m (cutxo c)" "cbest c' = h"
proof -
  obtain d where d: "batch_loop du m c = (Inr (), [], d)" "cinv d" "cutxo d = overlay m (cutxo c)"
    using batch_loop_spec [OF assms(1,2)] by blast
  have e: "r = Inr True" "m' = (if erase then [] else m)" "c' = d\<lparr>cc_hashBlock := h\<rparr>"
    using assms(4) d(1) by (auto simp: BatchWrite_def)
  then show "r = Inr True" "m' = (if erase then [] else m)" by simp_all
  show "cinv c'" "cutxo c' = overlay m (cutxo c)" "cbest c' = h"
    using d(2,3) assms(3) by (simp_all add: e(3) cache_inv_def cache_utxo_def cache_best_def)
qed

text \<open>So a cache is a view.\<close>

sublocale cache: coins_view "cache_ops ops du" "cache_utxo utxo" "cache_best best" "cache_inv utxo vinv du"
proof
  show "\<not> IsSpent coin" if "cinv c" "cutxo c p = Some coin" for c p coin
    using that by (rule cutxo_unspent)
  show "r = cutxo c p \<and> cinv c' \<and> cutxo c' = cutxo c \<and> cbest c' = cbest c"
    if "cinv c" "v_GetCoin (cache_ops ops du) p c = (r, c')" for c p r c'
    using GetCoin_spec [OF that(1), of p r c'] that(2) by (simp add: cache_ops_def)
  show "r = (cutxo c p \<noteq> None) \<and> cinv c' \<and> cutxo c' = cutxo c \<and> cbest c' = cbest c"
    if "cinv c" "v_HaveCoin (cache_ops ops du) p c = (r, c')" for c p r c'
    using HaveCoin_spec [OF that(1), of p r c'] that(2) by (simp add: cache_ops_def)
  show "h = cbest c \<and> cinv c' \<and> cutxo c' = cutxo c \<and> cbest c' = cbest c"
    if "cinv c" "v_GetBestBlock (cache_ops ops du) c = (h, c')" for c h c'
    using GetBestBlock_spec [OF that(1), of h c'] that(2) by (simp add: cache_ops_def)
  show "r = Inr True \<and> m' = (if erase then [] else m) \<and> cinv c' \<and> cutxo c' = overlay m (cutxo c) \<and> cbest c' = h"
    if "cinv c" "map_ok (cutxo c) m" "\<not> uint256_IsNull h" "v_BatchWrite (cache_ops ops du) m h erase c = (r, m', c')"
    for c m h erase r m' c'
    using BatchWrite_spec [OF that(1-3), of erase r m' c'] that(4) by (simp add: cache_ops_def)
qed

text \<open>Flushing and syncing move what the cache shows to the base.\<close>

lemma Flush_spec:
  assumes "cinv c" "\<not> uint256_IsNull (cc_hashBlock c)" "Flush ops c = (r, c')"
  shows "r = Inr True" "cinv c'" "cutxo c' = cutxo c" "utxo (cc_base c') = cutxo c" "best (cc_base c') = cc_hashBlock c"
    "cc_coins c' = []" "cc_hashBlock c' = cc_hashBlock c"
proof -
  note vinv = cinvD [OF assms(1)]
  obtain x m b where w: "v_BatchWrite ops (cc_coins c) (cc_hashBlock c) True (cc_base c) = (x, m, b)"
    using prod_cases3 by blast
  note bw = batch_write [OF vinv(1,2) assms(2) w]
  have e: "r = Inr True" "c' = c\<lparr>cc_base := b, cc_coins := [], cc_usage := 0\<rparr>"
    using assms(3) w bw by (auto simp: Flush_def Let_def)
  show "r = Inr True" "cinv c'" "cutxo c' = cutxo c" "utxo (cc_base c') = cutxo c" "best (cc_base c') = cc_hashBlock c"
    "cc_coins c' = []" "cc_hashBlock c' = cc_hashBlock c"
    using bw by (simp_all add: e cache_inv_def cache_utxo_def)
qed

lemma sync_loop_spec:
  assumes "map_ok f m" "u = recomputed_usage du m + k" "sync_loop du m u = (m', u')"
  shows "u' = recomputed_usage du m' + k" "map_ok (overlay m f) m'" "overlay m' (overlay m f) = overlay m f"
proof -
  have "u' = recomputed_usage du m' + k \<and> m' = map (apsnd (e_flags_update (\<lambda>_. 0))) (filter (\<lambda>x. \<not> IsSpent (e_coin (snd x))) m)"
    using assms(2,3)
  proof (induction m arbitrary: u m' u' k)
    case (Cons x m)
    show ?case
    proof (cases "IsSpent (e_coin (snd x))")
      case True
      then show ?thesis using Cons.IH [of "u - coin_usage du (e_coin (snd x))" k m' u'] Cons.prems by simp
    next
      case False
      obtain m1 u1 where s: "sync_loop du m u = (m1, u1)" by fastforce
      then have "m' = (fst x, (snd x)\<lparr>e_flags := 0\<rparr>) # m1" "u' = u1" using Cons.prems False by auto
      moreover have "u = recomputed_usage du m + (coin_usage du (e_coin (snd x)) + k)"
        using Cons.prems by simp
      ultimately show ?thesis using Cons.IH [OF _ s] False by (cases x) (simp add: algebra_simps)
    qed
  qed simp
  then have u: "u' = recomputed_usage du m' + k"
    and m': "m' = map (apsnd (e_flags_update (\<lambda>_. 0))) (filter (\<lambda>x. \<not> IsSpent (e_coin (snd x))) m)" by blast+
  show "u' = recomputed_usage du m' + k" by (rule u)
  have keys: "map fst m' = map fst (filter (\<lambda>x. \<not> IsSpent (e_coin (snd x))) m)" by (simp add: m' comp_def)
  have dist: "distinct (map fst m')" unfolding keys using assms(1) by (simp add: map_ok_def distinct_map_filter)
  have val: "overlay m f p = Some (e_coin e) \<and> e_flags e = 0 \<and> \<not> IsSpent (e_coin e)" if "map_of m' p = Some e" for p e
  proof -
    from that have "(p, e) \<in> set m'" by (rule map_of_SomeD)
    then obtain e0 where "(p, e0) \<in> set m" "\<not> IsSpent (e_coin e0)" "e = e0\<lparr>e_flags := 0\<rparr>" by (auto simp: m')
    moreover from this assms(1) have "map_of m p = Some e0" by (simp add: map_ok_def)
    ultimately show ?thesis by (simp add: overlay_def entry_value_def)
  qed
  show "map_ok (overlay m f) m'"
    using dist val by (auto simp: map_ok_def entry_ok_def entry_value_def is_dirty_def is_fresh_def)
  show "overlay m' (overlay m f) = overlay m f"
    using val by (auto simp: overlay_def [of m'] entry_value_def fun_eq_iff split: option.split)
qed

lemma Sync_spec:
  assumes "cinv c" "\<not> uint256_IsNull (cc_hashBlock c)" "Sync ops du c = (r, c')"
  shows "r = Inr True" "cinv c'" "cutxo c' = cutxo c" "utxo (cc_base c') = cutxo c" "best (cc_base c') = cc_hashBlock c"
    "cc_hashBlock c' = cc_hashBlock c"
proof -
  note vinv = cinvD [OF assms(1)]
  obtain x m b where w: "v_BatchWrite ops (cc_coins c) (cc_hashBlock c) False (cc_base c) = (x, m, b)"
    using prod_cases3 by blast
  note bw = batch_write [OF vinv(1,2) assms(2) w]
  obtain m' u' where s: "sync_loop du (cc_coins c) (cc_usage c) = (m', u')" by fastforce
  have e: "r = Inr True" "c' = c\<lparr>cc_base := b, cc_coins := m', cc_usage := u'\<rparr>"
    using assms(3) w bw s by (auto simp: Sync_def)
  note sl = sync_loop_spec [OF vinv(2), of "cc_usage c" 0, OF _ s]
  show "r = Inr True" "cinv c'" "cutxo c' = cutxo c" "utxo (cc_base c') = cutxo c" "best (cc_base c') = cc_hashBlock c"
    "cc_hashBlock c' = cc_hashBlock c"
    using bw sl vinv(3) by (simp_all add: e cache_inv_def cache_utxo_def)
qed

end

section \<open>Transactions\<close>

text \<open>The coins that the outputs of a transaction create from the index \<open>i\<close> on.\<close>

definition created :: "uint256 \<Rightarrow> int \<Rightarrow> bool \<Rightarrow> nat \<Rightarrow> CTxOut list \<Rightarrow> COutPoint \<Rightarrow> Coin option" where
  "created txid nHeight fCoinbase i outs p =
     (if op_hash p = txid \<and> i \<le> unat (op_n p) \<and> unat (op_n p) < i + length outs \<and>
         \<not> IsUnspendable (scriptPubKey (outs ! (unat (op_n p) - i)))
      then Some \<lparr>coin_out = outs ! (unat (op_n p) - i), coin_fCoinBase = fCoinbase, coin_nHeight = word_of_int nHeight\<rparr>
      else None)"

lemma unat_of_nat_u32: "j < 2 ^ 32 \<Longrightarrow> unat (of_nat j :: u32) = j"
  by (simp add: unat_of_nat)

lemma created_Cons:
  assumes "i < 2 ^ 32"
  shows "created txid h cb i (out # outs) =
    (if IsUnspendable (scriptPubKey out) then created txid h cb (Suc i) outs
     else (created txid h cb (Suc i) outs)(COutPoint txid (of_nat i) \<mapsto>
       \<lparr>coin_out = out, coin_fCoinBase = cb, coin_nHeight = word_of_int h\<rparr>))" (is "_ = ?r")
proof
  fix q
  have iff: "q = COutPoint txid (of_nat i) \<longleftrightarrow> op_hash q = txid \<and> unat (op_n q) = i"
    using unat_of_nat_u32 [OF assms] by (cases q) (auto simp: word_unat_eq_iff)
  show "created txid h cb i (out # outs) q = ?r q"
  proof (cases "unat (op_n q) = i")
    case True
    then show ?thesis by (simp add: created_def iff)
  next
    case False
    moreover have "(out # outs) ! (unat (op_n q) - i) = outs ! (unat (op_n q) - Suc i)" if "i < unat (op_n q)"
      using that by (simp add: nth_Cons' )
    ultimately show ?thesis by (auto simp: created_def iff)
  qed
qed

lemma created_own: "i < 2 ^ 32 \<Longrightarrow> created txid h cb (Suc i) outs (COutPoint txid (of_nat i)) = None"
  by (simp add: created_def unat_of_nat_u32)

context coins_cache_base
begin

lemma have_inputs_loop_spec:
  assumes "cinv c" "have_inputs_loop ops du ps c = (r, c')"
  shows "r = (\<forall>p \<in> set ps. cutxo c p \<noteq> None) \<and> cinv c' \<and> cutxo c' = cutxo c \<and> cbest c' = cbest c"
  using assms
proof (induction ps arbitrary: c)
  case (Cons p ps)
  obtain h d where h: "HaveCoin ops du p c = (h, d)" by fastforce
  note hs = HaveCoin_spec [OF Cons.prems(1) h]
  show ?case
  proof (cases h)
    case True
    then have "have_inputs_loop ops du ps d = (r, c')" using Cons.prems(2) h by simp
    from Cons.IH [OF hs(2) this] show ?thesis using hs True by auto
  qed (use Cons.prems(2) h hs in auto)
qed simp

lemma HaveInputs_spec:
  assumes "cinv c" "HaveInputs ops du tx c = (r, c')"
  shows "r = (IsCoinBase tx \<or> (\<forall>i \<in> set (vin tx). cutxo c (prevout i) \<noteq> None))" "cinv c'" "cutxo c' = cutxo c" "cbest c' = cbest c"
  using assms have_inputs_loop_spec [OF assms(1), of "map prevout (vin tx)" r c'] by (auto simp: HaveInputs_def split: if_splits)

lemma add_coins_loop_spec:
  assumes "cinv c" "i + length outs \<le> 2 ^ 32" "list_all (\<lambda>out. \<not> CTxOut_IsNull out) outs"
    and "check \<or> fCoinbase \<or> (\<forall>j. i \<le> j \<longrightarrow> j < i + length outs \<longrightarrow> cutxo c (COutPoint txid (of_nat j)) = None)"
    and "add_coins_loop ops du txid nHeight fCoinbase check i outs c = (r, c')"
  shows "r = Inr () \<and> cinv c' \<and> cutxo c' = cutxo c ++ created txid nHeight fCoinbase i outs \<and> cbest c' = cbest c"
  using assms
proof (induction outs arbitrary: i c)
  case Nil
  then show ?case by (auto simp: created_def fun_eq_iff map_add_def)
next
  case (Cons out outs)
  let ?p = "COutPoint txid (of_nat i)"
  let ?coin = "\<lparr>coin_out = out, coin_fCoinBase = fCoinbase, coin_nHeight = word_of_int nHeight\<rparr>"
  obtain ow d where d: "(if check then HaveCoin ops du ?p c else (fCoinbase, c)) = (ow, d)" by fastforce
  have "(check \<and> HaveCoin ops du ?p c = (ow, d)) \<or> (\<not> check \<and> ow = fCoinbase \<and> d = c)"
    using d by (simp split: if_split_asm)
  then have dp: "cinv d \<and> cutxo d = cutxo c \<and> cbest d = cbest c \<and> (\<not> ow \<longrightarrow> cutxo d ?p = None)"
  proof
    assume "check \<and> HaveCoin ops du ?p c = (ow, d)"
    then have h: "HaveCoin ops du ?p c = (ow, d)" by blast
    show ?thesis using HaveCoin_spec [OF Cons.prems(1) h] by simp
  next
    assume "\<not> check \<and> ow = fCoinbase \<and> d = c"
    moreover from this have "cutxo c ?p = None" if "\<not> fCoinbase"
      using Cons.prems(4) that by simp
    ultimately show ?thesis using Cons.prems(1) by simp
  qed
  have ns: "\<not> IsSpent ?coin" using Cons.prems(3) by (simp add: IsSpent_def)
  obtain r1 e where e: "AddCoin du ?p ?coin ow d = (r1, e)" by fastforce
  have pre: "\<not> ow \<Longrightarrow> cutxo d ?p = None" using dp by blast
  note ac = AddCoin_spec [OF dp [THEN conjunct1] ns pre e]
  have rest: "add_coins_loop ops du txid nHeight fCoinbase check (Suc i) outs e = (r, c')"
    using Cons.prems(5) d e ac(1) by simp
  have other: "cutxo e q = cutxo c q" if "q \<noteq> ?p" for q using ac(5) dp that by simp
  have "check \<or> fCoinbase \<or> (\<forall>j. Suc i \<le> j \<longrightarrow> j < Suc i + length outs \<longrightarrow> cutxo e (COutPoint txid (of_nat j)) = None)"
  proof -
    have "(of_nat j :: u32) \<noteq> of_nat i" if "Suc i \<le> j" "j < Suc i + length outs" for j
    proof
      assume "(of_nat j :: u32) = of_nat i"
      moreover have "j < 2 ^ 32" "i < 2 ^ 32" using that Cons.prems(2) by simp_all
      ultimately have "j = i" by (metis unat_of_nat_u32)
      with that show False by simp
    qed
    then have "cutxo e (COutPoint txid (of_nat j)) = cutxo c (COutPoint txid (of_nat j))"
      if "Suc i \<le> j" "j < Suc i + length outs" for j
      using that by (intro other) (simp only: COutPoint.inject, blast)
    then have eq: "\<forall>j. Suc i \<le> j \<longrightarrow> j < Suc i + length outs \<longrightarrow>
        cutxo e (COutPoint txid (of_nat j)) = cutxo c (COutPoint txid (of_nat j))"
      by blast
    have len: "i + length (out # outs) = Suc i + length outs" by simp
    from Cons.prems(4) [unfolded len] eq show ?thesis
      by (elim disjE) (blast, blast, metis Suc_leD)
  qed
  then have IH: "r = Inr () \<and> cinv c' \<and> cutxo c' = cutxo e ++ created txid nHeight fCoinbase (Suc i) outs \<and> cbest c' = cbest e"
    using Cons.prems(2,3) ac(2) by (intro Cons.IH [OF _ _ _ _ rest]) simp_all
  have "i < 2 ^ 32" using Cons.prems(2) by simp
  then have "cutxo e ++ created txid nHeight fCoinbase (Suc i) outs = cutxo c ++ created txid nHeight fCoinbase i (out # outs)"
    using ac(5) dp created_own [of i txid nHeight fCoinbase outs]
    by (auto simp: created_Cons fun_eq_iff map_add_def split: option.splits)
  then show ?case using IH ac(3) dp by simp
qed

lemma AddCoins_spec:
  assumes "cinv c" "length (vout tx) \<le> 2 ^ 32" "list_all (\<lambda>out. \<not> CTxOut_IsNull out) (vout tx)"
    and "check \<or> IsCoinBase tx \<or> (\<forall>n. cutxo c (COutPoint (tx_hash tx) n) = None)"
    and "AddCoins ops du tx nHeight check c = (r, c')"
  shows "r = Inr ()" "cinv c'" "cutxo c' = cutxo c ++ created (tx_hash tx) nHeight (IsCoinBase tx) 0 (vout tx)"
    "cbest c' = cbest c"
  using add_coins_loop_spec [OF assms(1), of 0 "vout tx" check "IsCoinBase tx" "tx_hash tx" nHeight r c'] assms(2-5)
  by (auto simp: AddCoins_def)

lemma access_loop_spec:
  assumes "cinv c" "access_loop ops du txid n k c = (r, c')"
  shows "cinv c' \<and> cutxo c' = cutxo c \<and> cbest c' = cbest c \<and>
    r = (case filter (\<lambda>j. cutxo c (COutPoint txid (of_nat j)) \<noteq> None) [n..<n + k] of
           [] \<Rightarrow> coinEmpty | j # _ \<Rightarrow> the (cutxo c (COutPoint txid (of_nat j))))"
  using assms
proof (induction k arbitrary: n c)
  case (Suc k)
  let ?p = "COutPoint txid (of_nat n)"
  obtain a d where a: "AccessCoin ops du ?p c = (a, d)" by fastforce
  note as = AccessCoin_spec [OF Suc.prems(1) a]
  have upt: "[n..<Suc (n + k)] = n # [Suc n..<Suc (n + k)]" by (simp add: upt_rec)
  show ?case
  proof (cases "cutxo c ?p")
    case None
    then have "access_loop ops du txid (Suc n) k d = (r, c')" using Suc.prems(2) a as(1) by simp
    note IH = Suc.IH [OF as(2) this, unfolded as(3,4)]
    show ?thesis using IH None by (simp add: upt del: upt_Suc)
  next
    case (Some coin)
    then have "\<not> IsSpent coin" by (rule cutxo_unspent [OF Suc.prems(1)])
    then show ?thesis using Suc.prems(2) a as Some by (auto simp: upt simp del: upt_Suc)
  qed
qed simp

lemma AccessByTxid_spec:
  assumes "cinv c" "AccessByTxid ops du txid c = (r, c')"
  shows "cinv c'" "cutxo c' = cutxo c" "cbest c' = cbest c"
    "r = (case filter (\<lambda>j. cutxo c (COutPoint txid (of_nat j)) \<noteq> None) [0..<MAX_OUTPUTS_PER_BLOCK] of
           [] \<Rightarrow> coinEmpty | j # _ \<Rightarrow> the (cutxo c (COutPoint txid (of_nat j))))"
  using access_loop_spec [OF assms(1), of txid 0 MAX_OUTPUTS_PER_BLOCK r c'] assms(2) by (simp_all add: AccessByTxid_def)

end

end
