(* ===== verification/CoinsDb.thy ===== *)
theory CoinsDb
  imports CoinsView
begin

text \<open>
  The coins database of \<open>src/txdb.cpp\<close>, \<open>CCoinsViewDB\<close>, over a key-value store that applies batches one
  after the other and each as a whole. A record of the store is kept as the value it decodes to (the codec is
  in \<open>Coins\<close>). \<open>coin_batches\<close> splits a write into batches by the estimated size, as the code does; the states a
  crash can leave are those after some of the batches. The database is a view, so a cache over it and a cache
  over that cache are.
\<close>

section \<open>Batches\<close>

datatype db_op =
    WriteCoin COutPoint Coin | EraseCoin COutPoint
  | WriteBestBlock uint256 | EraseBestBlock
  | WriteHeadBlocks "uint256 list" | EraseHeadBlocks

record coins_db =
  db_coins :: "(COutPoint, Coin) rbt"
  db_best :: "uint256 option"
  db_heads :: "uint256 list option"

fun apply_op :: "db_op \<Rightarrow> coins_db \<Rightarrow> coins_db" where
  "apply_op (WriteCoin p c) db = db\<lparr>db_coins := RBT.insert p c (db_coins db)\<rparr>"
| "apply_op (EraseCoin p) db = db\<lparr>db_coins := RBT.delete p (db_coins db)\<rparr>"
| "apply_op (WriteBestBlock h) db = db\<lparr>db_best := Some h\<rparr>"
| "apply_op EraseBestBlock db = db\<lparr>db_best := None\<rparr>"
| "apply_op (WriteHeadBlocks hs) db = db\<lparr>db_heads := Some hs\<rparr>"
| "apply_op EraseHeadBlocks db = db\<lparr>db_heads := None\<rparr>"

text \<open>\<open>CDBWrapper::WriteBatch\<close>.\<close>

definition WriteBatch :: "db_op list \<Rightarrow> coins_db \<Rightarrow> coins_db" where
  "WriteBatch batch db = fold apply_op batch db"

text \<open>The keys and values as the database has them, and the estimate of \<open>CDBBatch\<close>.\<close>

definition coin_key :: "COutPoint \<Rightarrow> bytes" where
  "coin_key p = ser_writedata8 0x43 @ write_uint256 (op_hash p) @ WriteVarInt (op_n p)"

definition write_estimate :: "bytes \<Rightarrow> bytes \<Rightarrow> nat" where
  "write_estimate k v = 3 + of_bool (length k > 127) + length k + of_bool (length v > 127) + length v"

definition erase_estimate :: "bytes \<Rightarrow> nat" where
  "erase_estimate k = 2 + of_bool (length k > 127) + length k"

fun op_estimate :: "(CPubKey \<Rightarrow> bool) \<Rightarrow> db_op \<Rightarrow> nat" where
  "op_estimate fv (WriteCoin p c) = write_estimate (coin_key p) (case Coin_Serialize fv c of Some v \<Rightarrow> v | None \<Rightarrow> [])"
| "op_estimate fv (EraseCoin p) = erase_estimate (coin_key p)"
| "op_estimate fv (WriteBestBlock h) = write_estimate [0x42] (write_uint256 h)"
| "op_estimate fv EraseBestBlock = erase_estimate [0x42]"
| "op_estimate fv (WriteHeadBlocks hs) = write_estimate [0x48] (WriteCompactSize (length hs) @ concat (map write_uint256 hs))"
| "op_estimate fv EraseHeadBlocks = erase_estimate [0x48]"

definition SizeEstimate :: "(CPubKey \<Rightarrow> bool) \<Rightarrow> db_op list \<Rightarrow> nat" where
  "SizeEstimate fv batch = sum_list (map (op_estimate fv) batch)"

section \<open>Operations\<close>

definition DB_GetCoin :: "COutPoint \<Rightarrow> coins_db \<Rightarrow> Coin option \<times> coins_db" where
  "DB_GetCoin p db = (RBT.lookup (db_coins db) p, db)"

definition DB_HaveCoin :: "COutPoint \<Rightarrow> coins_db \<Rightarrow> bool \<times> coins_db" where
  "DB_HaveCoin p db = (RBT.lookup (db_coins db) p \<noteq> None, db)"

definition DB_GetBestBlock :: "coins_db \<Rightarrow> uint256" where
  "DB_GetBestBlock db = (case db_best db of None \<Rightarrow> uint256_zero | Some h \<Rightarrow> h)"

definition DB_GetHeadBlocks :: "coins_db \<Rightarrow> uint256 list" where
  "DB_GetHeadBlocks db = (case db_heads db of None \<Rightarrow> [] | Some hs \<Rightarrow> hs)"

definition entry_op :: "COutPoint \<times> CCoinsCacheEntry \<Rightarrow> db_op list" where
  "entry_op x =
     (if is_dirty (snd x)
      then [if IsSpent (e_coin (snd x)) then EraseCoin (fst x) else WriteCoin (fst x) (e_coin (snd x))]
      else [])"

text \<open>The loop over the coins: the batches it writes, and the batch it leaves.\<close>

primrec coin_batches :: "(CPubKey \<Rightarrow> bool) \<Rightarrow> nat \<Rightarrow> CCoinsMap \<Rightarrow> db_op list \<Rightarrow> db_op list list \<times> db_op list" where
  "coin_batches fv batch_size [] batch = ([], batch)"
| "coin_batches fv batch_size (x # m) batch =
     (let batch = batch @ entry_op x
      in if SizeEstimate fv batch > batch_size
         then let (bs, rest) = coin_batches fv batch_size m [] in (batch # bs, rest)
         else coin_batches fv batch_size m batch)"

text \<open>The tip before the write: the best block, or what an interrupted write was coming from.\<close>

definition old_tip :: "uint256 \<Rightarrow> coins_db \<Rightarrow> coins_error + uint256" where
  "old_tip hashBlock db =
     (let tip = DB_GetBestBlock db
      in if uint256_IsNull tip
         then let old_heads = DB_GetHeadBlocks db
              in if length old_heads = 2
                 then if old_heads ! 0 = hashBlock then Inr (old_heads ! 1) else Inl AssertionFailure
                 else Inr tip
         else Inr tip)"

definition write_batches ::
  "(CPubKey \<Rightarrow> bool) \<Rightarrow> nat \<Rightarrow> CCoinsMap \<Rightarrow> uint256 \<Rightarrow> uint256 \<Rightarrow> db_op list list" where
  "write_batches fv batch_size mapCoins hashBlock tip =
     (let (bs, rest) = coin_batches fv batch_size mapCoins [EraseBestBlock, WriteHeadBlocks [hashBlock, tip]]
      in bs @ [rest @ [EraseHeadBlocks, WriteBestBlock hashBlock]])"

definition DB_BatchWrite ::
  "(CPubKey \<Rightarrow> bool) \<Rightarrow> nat \<Rightarrow> CCoinsMap \<Rightarrow> uint256 \<Rightarrow> bool \<Rightarrow> coins_db \<Rightarrow> (coins_error + bool) \<times> CCoinsMap \<times> coins_db" where
  "DB_BatchWrite fv batch_size mapCoins hashBlock erase db =
     (if uint256_IsNull hashBlock then (Inl AssertionFailure, mapCoins, db)
      else case old_tip hashBlock db of
        Inl err \<Rightarrow> (Inl err, mapCoins, db)
      | Inr tip \<Rightarrow>
          (Inr True, if erase then [] else mapCoins,
           fold WriteBatch (write_batches fv batch_size mapCoins hashBlock tip) db))"

definition db_ops :: "(CPubKey \<Rightarrow> bool) \<Rightarrow> nat \<Rightarrow> coins_db view_ops" where
  "db_ops fv batch_size = \<lparr>v_GetCoin = DB_GetCoin, v_HaveCoin = DB_HaveCoin,
     v_GetBestBlock = (\<lambda>db. (DB_GetBestBlock db, db)), v_BatchWrite = DB_BatchWrite fv batch_size\<rparr>"

section \<open>What a sequence of batches does\<close>

definition db_utxo :: "coins_db \<Rightarrow> COutPoint \<Rightarrow> Coin option" where
  "db_utxo db = RBT.lookup (db_coins db)"

text \<open>Unspent coins only, and not in the middle of a write.\<close>

definition db_inv :: "coins_db \<Rightarrow> bool" where
  "db_inv db \<longleftrightarrow> (\<forall>p c. db_utxo db p = Some c \<longrightarrow> \<not> IsSpent c) \<and>
     (uint256_IsNull (DB_GetBestBlock db) \<longrightarrow> length (DB_GetHeadBlocks db) \<noteq> 2)"

lemma fold_WriteBatch: "fold WriteBatch bs db = fold apply_op (concat bs) db"
  by (induction bs arbitrary: db) (simp_all add: WriteBatch_def)

lemma coin_batches_concat:
  "coin_batches fv n m b = (bs, rest) \<Longrightarrow> concat bs @ rest = b @ concat (map entry_op m)"
proof (induction m arbitrary: b bs rest)
  case (Cons x m)
  show ?case
  proof (cases "SizeEstimate fv (b @ entry_op x) > n")
    case True
    obtain bs' rest' where "coin_batches fv n m [] = (bs', rest')" by fastforce
    with Cons.IH [OF this] True Cons.prems show ?thesis by (auto simp: Let_def)
  next
    case False
    with Cons.IH [of "b @ entry_op x" bs rest] Cons.prems show ?thesis by (simp add: Let_def)
  qed
qed simp

lemma write_batches_concat:
  "concat (write_batches fv n m h tip) =
     [EraseBestBlock, WriteHeadBlocks [h, tip]] @ concat (map entry_op m) @ [EraseHeadBlocks, WriteBestBlock h]"
proof -
  obtain bs rest where "coin_batches fv n m [EraseBestBlock, WriteHeadBlocks [h, tip]] = (bs, rest)" by fastforce
  with coin_batches_concat [OF this] show ?thesis by (simp add: write_batches_def)
qed

text \<open>The operations on coins leave the two marks alone.\<close>

fun coin_op :: "db_op \<Rightarrow> bool" where
  "coin_op (WriteCoin p c) = True" | "coin_op (EraseCoin p) = True" | "coin_op _ = False"

lemma apply_coin_op: "coin_op x \<Longrightarrow> db_best (apply_op x db) = db_best db \<and> db_heads (apply_op x db) = db_heads db"
  by (cases x) simp_all

lemma fold_coin_ops:
  "list_all coin_op xs \<Longrightarrow> db_best (fold apply_op xs db) = db_best db \<and> db_heads (fold apply_op xs db) = db_heads db"
  by (induction xs arbitrary: db) (simp_all add: apply_coin_op)

lemma entry_op_coin: "list_all coin_op (concat (map entry_op m))"
  by (induction m) (simp_all add: entry_op_def)

text \<open>Written entries: the map of coins becomes the overlay.\<close>

definition dirty_overlay :: "CCoinsMap \<Rightarrow> (COutPoint \<Rightarrow> Coin option) \<Rightarrow> COutPoint \<Rightarrow> Coin option" where
  "dirty_overlay m f p = (case map_of m p of Some e \<Rightarrow> if is_dirty e then entry_value e else f p | None \<Rightarrow> f p)"

lemma fold_entry_ops:
  assumes "distinct (map fst m)"
  shows "db_utxo (fold apply_op (concat (map entry_op m)) db) = dirty_overlay m (db_utxo db)"
  using assms
proof (induction m arbitrary: db)
  case (Cons x m)
  obtain p e where x: "x = (p, e)" by (cases x)
  let ?db = "fold apply_op (entry_op x) db"
  have none: "map_of m p = None" using Cons.prems by (simp add: x map_of_eq_None_iff)
  have "db_utxo ?db = (if is_dirty e then (db_utxo db)(p := entry_value e) else db_utxo db)"
    by (auto simp: x entry_op_def db_utxo_def entry_value_def fun_eq_iff)
  with Cons none show ?case
    by (auto simp: x dirty_overlay_def fun_eq_iff split: option.split)
qed (simp add: dirty_overlay_def fun_eq_iff)

lemma dirty_overlay_ok: "map_ok f m \<Longrightarrow> dirty_overlay m f = overlay m f"
  by (auto simp: dirty_overlay_def overlay_def fun_eq_iff map_ok_def entry_ok_def split: option.split)

text \<open>A whole write.\<close>

lemma write_batches_all:
  assumes "map_ok (db_utxo db) m" "db' = fold WriteBatch (write_batches fv n m h tip) db"
  shows "db_utxo db' = overlay m (db_utxo db)" "db_best db' = Some h" "db_heads db' = None"
proof -
  let ?db1 = "db\<lparr>db_best := None, db_heads := Some [h, tip]\<rparr>"
  let ?db2 = "fold apply_op (concat (map entry_op m)) ?db1"
  have e: "db' = ?db2\<lparr>db_heads := None, db_best := Some h\<rparr>"
    unfolding assms(2) fold_WriteBatch write_batches_concat by simp
  have "db_utxo ?db2 = overlay m (db_utxo db)"
    using assms(1) by (subst fold_entry_ops) (simp_all add: map_ok_def db_utxo_def flip: dirty_overlay_ok [OF assms(1), unfolded db_utxo_def])
  then show "db_utxo db' = overlay m (db_utxo db)" by (simp add: e db_utxo_def)
  show "db_best db' = Some h" "db_heads db' = None" by (simp_all add: e)
qed

lemma overlay_unspent:
  assumes "\<forall>p c. f p = Some c \<longrightarrow> \<not> IsSpent c" "overlay m f p = Some c"
  shows "\<not> IsSpent c"
  using assms by (auto simp: overlay_def entry_value_def split: option.splits if_splits)

section \<open>The database is a view\<close>

interpretation db: coins_view "db_ops fv batch_size" db_utxo DB_GetBestBlock db_inv for fv batch_size
proof
  show "\<not> IsSpent c" if "db_inv db" "db_utxo db p = Some c" for db p c
    using that by (simp add: db_inv_def)
  show "r = db_utxo db p \<and> db_inv db' \<and> db_utxo db' = db_utxo db \<and> DB_GetBestBlock db' = DB_GetBestBlock db"
    if "db_inv db" "v_GetCoin (db_ops fv batch_size) p db = (r, db')" for db p r db'
    using that by (auto simp: db_ops_def DB_GetCoin_def db_utxo_def)
  show "r = (db_utxo db p \<noteq> None) \<and> db_inv db' \<and> db_utxo db' = db_utxo db \<and> DB_GetBestBlock db' = DB_GetBestBlock db"
    if "db_inv db" "v_HaveCoin (db_ops fv batch_size) p db = (r, db')" for db p r db'
    using that by (auto simp: db_ops_def DB_HaveCoin_def db_utxo_def)
  show "h = DB_GetBestBlock db \<and> db_inv db' \<and> db_utxo db' = db_utxo db \<and> DB_GetBestBlock db' = DB_GetBestBlock db"
    if "db_inv db" "v_GetBestBlock (db_ops fv batch_size) db = (h, db')" for db h db'
    using that by (auto simp: db_ops_def)
  show "r = Inr True \<and> m' = (if erase then [] else m) \<and> db_inv db' \<and> db_utxo db' = overlay m (db_utxo db) \<and>
      DB_GetBestBlock db' = h"
    if a: "db_inv db" "map_ok (db_utxo db) m" "\<not> uint256_IsNull h"
      "v_BatchWrite (db_ops fv batch_size) m h erase db = (r, m', db')" for db m h erase r m' db'
  proof -
    obtain tip where tip: "old_tip h db = Inr tip"
      using a(1) by (auto simp: old_tip_def Let_def db_inv_def)
    then have w: "r = Inr True" "m' = (if erase then [] else m)"
        "db' = fold WriteBatch (write_batches fv batch_size m h tip) db"
      using a(3,4) by (auto simp: db_ops_def DB_BatchWrite_def)
    note wb = write_batches_all [OF a(2) w(3)]
    have un: "\<forall>p c. db_utxo db p = Some c \<longrightarrow> \<not> IsSpent c" using a(1) by (simp add: db_inv_def)
    have "db_inv db'"
      using wb a(3) overlay_unspent [OF un] by (simp add: db_inv_def DB_GetBestBlock_def)
    then show ?thesis using w wb by (simp add: DB_GetBestBlock_def)
  qed
qed

section \<open>Crashes\<close>

lemma coin_batches_hd:
  "coin_batches fv n m b = (bs, rest) \<Longrightarrow> bs \<noteq> [] \<Longrightarrow> \<exists>t. hd bs = b @ t"
proof (induction m arbitrary: b bs rest)
  case (Cons x m)
  show ?case
  proof (cases "SizeEstimate fv (b @ entry_op x) > n")
    case True
    then have "hd bs = b @ entry_op x" using Cons.prems by (auto simp: Let_def split: prod.splits)
    then show ?thesis by blast
  next
    case False
    with Cons.IH [of "b @ entry_op x" bs rest] Cons.prems show ?thesis by (auto simp: Let_def)
  qed
qed simp

lemma concat_entry_ops_prefix:
  assumes "concat (map entry_op m) = xs @ ys"
  shows "\<exists>j. xs = concat (map entry_op (take j m))"
  using assms
proof (induction m arbitrary: xs)
  case (Cons x m)
  show ?case
  proof (cases "entry_op x = [] \<or> xs = []")
    case True
    then show ?thesis
    proof
      assume e: "entry_op x = []"
      then have "concat (map entry_op m) = xs @ ys" using Cons.prems by simp
      from Cons.IH [OF this] obtain j where "xs = concat (map entry_op (take j m))" by blast
      then show ?thesis using e by (intro exI [of _ "Suc j"]) simp
    qed (auto intro: exI [of _ 0])
  next
    case False
    then obtain z where z: "entry_op x = [z]" by (auto simp: entry_op_def split: if_splits)
    then obtain xs' where "xs = z # xs'" using Cons.prems False by (cases xs) auto
    with z Cons.prems have y: "entry_op x = [z]" "xs = z # xs'" "concat (map entry_op m) = xs' @ ys" by simp_all
    from Cons.IH [OF y(3)] obtain j where "xs' = concat (map entry_op (take j m))" by blast
    then show ?thesis using y by (intro exI [of _ "Suc j"]) simp
  qed
qed simp

text \<open>A write that stopped between two batches has written the marks and the entries of an initial part.\<close>

lemma crash_state:
  assumes "0 < k" "k < length (write_batches fv n m h tip)"
  shows "\<exists>j. concat (take k (write_batches fv n m h tip)) =
    [EraseBestBlock, WriteHeadBlocks [h, tip]] @ concat (map entry_op (take j m))"
proof -
  obtain bs rest where b: "coin_batches fv n m [EraseBestBlock, WriteHeadBlocks [h, tip]] = (bs, rest)" by fastforce
  then have len: "k \<le> length bs" using assms(2) by (simp add: write_batches_def)
  then have tk: "take k (write_batches fv n m h tip) = take k bs" using b by (simp add: write_batches_def)
  have "bs \<noteq> []" using len assms(1) by auto
  then obtain t where t: "hd bs = [EraseBestBlock, WriteHeadBlocks [h, tip]] @ t" using coin_batches_hd [OF b] by blast
  have "take k bs = hd bs # take (k - 1) (tl bs)" using \<open>bs \<noteq> []\<close> assms(1) by (cases bs; cases k) simp_all
  then have c: "concat (take k bs) = [EraseBestBlock, WriteHeadBlocks [h, tip]] @ t @ concat (take (k - 1) (tl bs))"
    using t by simp
  have "concat (take k bs) @ concat (drop k bs) @ rest = [EraseBestBlock, WriteHeadBlocks [h, tip]] @ concat (map entry_op m)"
    using coin_batches_concat [OF b] by (metis append_take_drop_id concat_append append_assoc)
  then have "concat (map entry_op m) = (t @ concat (take (k - 1) (tl bs))) @ concat (drop k bs) @ rest"
    unfolding c by simp
  from concat_entry_ops_prefix [OF this] show ?thesis unfolding tk c by blast
qed

lemma dirty_overlay_take:
  assumes "map_ok f m"
  shows "dirty_overlay (take j m) f p = f p \<or> dirty_overlay (take j m) f p = overlay m f p"
    "dirty_overlay m (dirty_overlay (take j m) f) = overlay m f"
proof -
  have sub: "map_of m p = Some e" if "map_of (take j m) p = Some e" for p e
  proof -
    have "(p, e) \<in> set m" using that by (auto dest: map_of_SomeD in_set_takeD)
    then show ?thesis using assms by (simp add: map_ok_def)
  qed
  show "dirty_overlay (take j m) f p = f p \<or> dirty_overlay (take j m) f p = overlay m f p"
    using sub by (auto simp: dirty_overlay_def overlay_def split: option.split)
  have "dirty_overlay m (dirty_overlay (take j m) f) = dirty_overlay m f"
    using sub by (fastforce simp: dirty_overlay_def fun_eq_iff split: option.splits)
  then show "dirty_overlay m (dirty_overlay (take j m) f) = overlay m f" by (simp add: dirty_overlay_ok [OF assms])
qed

lemma uint256_IsNull_zero [simp]: "uint256_IsNull uint256_zero"
  by (simp add: uint256_IsNull_def uint256_zero_def list_all_iff)

section \<open>Properties\<close>

text \<open>
  C6: a crash in the middle of a write. Between two batches the database has no best block, its head blocks
  are the new and the old tip, and every coin is either as before the write or as after it; repeating the write,
  with any batch size, gives the coins and the best block of the whole write.
\<close>

theorem coins_db_crash_safe:
  assumes "db_inv db" "map_ok (db_utxo db) m" "\<not> uint256_IsNull h" "old_tip h db = Inr tip"
    and "0 < k" "k < length (write_batches fv batch_size m h tip)"
    and "db' = fold WriteBatch (take k (write_batches fv batch_size m h tip)) db"
  shows "uint256_IsNull (DB_GetBestBlock db') \<and> DB_GetHeadBlocks db' = [h, tip] \<and>
    (\<forall>p. db_utxo db' p = db_utxo db p \<or> db_utxo db' p = overlay m (db_utxo db) p) \<and>
    (\<exists>db''. DB_BatchWrite fv batch_size' m h True db' = (Inr True, [], db'') \<and>
       db_utxo db'' = overlay m (db_utxo db) \<and> DB_GetBestBlock db'' = h \<and> DB_GetHeadBlocks db'' = [] \<and> db_inv db'')"
proof -
  obtain j where j: "concat (take k (write_batches fv batch_size m h tip)) =
      [EraseBestBlock, WriteHeadBlocks [h, tip]] @ concat (map entry_op (take j m))"
    using crash_state [OF assms(5,6)] by blast
  let ?db1 = "db\<lparr>db_best := None, db_heads := Some [h, tip]\<rparr>"
  have e: "db' = fold apply_op (concat (map entry_op (take j m))) ?db1"
    unfolding assms(7) fold_WriteBatch j by simp
  have marks: "db_best db' = None" "db_heads db' = Some [h, tip]"
    unfolding e using fold_coin_ops [OF entry_op_coin, of "take j m" ?db1] by simp_all
  have dist: "distinct (map fst m)" using assms(2) by (simp add: map_ok_def)
  then have "distinct (map fst (take j m))" by (simp flip: take_map)
  then have u: "db_utxo db' = dirty_overlay (take j m) (db_utxo db)"
    unfolding e by (subst fold_entry_ops) (simp_all add: db_utxo_def)
  have un: "\<forall>p c. db_utxo db p = Some c \<longrightarrow> \<not> IsSpent c" using assms(1) by (simp add: db_inv_def)
  have tip: "old_tip h db' = Inr tip"
    by (simp add: old_tip_def DB_GetBestBlock_def DB_GetHeadBlocks_def marks)
  let ?db2 = "fold WriteBatch (write_batches fv batch_size' m h tip) db'"
  have w: "db_utxo ?db2 = dirty_overlay m (db_utxo db')" "db_best ?db2 = Some h" "db_heads ?db2 = None"
    unfolding fold_WriteBatch write_batches_concat using fold_entry_ops [OF dist] by (simp_all add: db_utxo_def)
  have ov: "db_utxo ?db2 = overlay m (db_utxo db)" unfolding w u by (rule dirty_overlay_take(2) [OF assms(2)])
  have "db_inv ?db2"
    using w(2,3) assms(3) overlay_unspent [OF un] by (simp add: db_inv_def ov DB_GetBestBlock_def)
  moreover have "DB_BatchWrite fv batch_size' m h True db' = (Inr True, [], ?db2)"
    using assms(3) tip by (simp add: DB_BatchWrite_def)
  moreover have "\<forall>p. db_utxo db' p = db_utxo db p \<or> db_utxo db' p = overlay m (db_utxo db) p"
    unfolding u using dirty_overlay_take(1) [OF assms(2)] by blast
  ultimately show ?thesis using w ov marks by (auto simp: DB_GetBestBlock_def DB_GetHeadBlocks_def)
qed

interpretation tip: coins_cache_base "db_ops fv batch_size" db_utxo DB_GetBestBlock db_inv script_usage for fv batch_size
  by unfold_locales (simp add: script_usage_def MallocUsage_def)

interpretation child: coins_cache_base "cache_ops (db_ops fv batch_size) script_usage" "cache_utxo db_utxo"
    "cache_best DB_GetBestBlock" "cache_inv db_utxo db_inv script_usage" script_usage for fv batch_size
  by unfold_locales (simp add: script_usage_def MallocUsage_def)

text \<open>A database with one coin.\<close>

definition example_coin :: Coin where
  "example_coin = \<lparr>coin_out = \<lparr>out_nValue = 500, scriptPubKey = [0x51]\<rparr>, coin_fCoinBase = False, coin_nHeight = 7\<rparr>"

definition example_hash :: "nat \<Rightarrow> uint256" where
  "example_hash n = UInt256 (of_nat (Suc n) # replicate 31 0)"

definition example_point :: "u32 \<Rightarrow> COutPoint" where
  "example_point n = COutPoint (example_hash 9) n"

definition example_db :: coins_db where
  "example_db = \<lparr>db_coins = RBT.insert (example_point 0) example_coin RBT.empty, db_best = Some (example_hash 0), db_heads = None\<rparr>"

definition example_map :: CCoinsMap where
  "example_map = [(example_point 0, \<lparr>e_coin = coinEmpty, e_flags = DIRTY\<rparr>),
     (example_point 1, \<lparr>e_coin = example_coin, e_flags = DIRTY OR FRESH\<rparr>)]"

lemma example_unspent [simp]: "\<not> IsSpent example_coin"
  by (simp add: IsSpent_def CTxOut_IsNull_def example_coin_def)

lemma example_hash_not_null [simp]: "n < 10 \<Longrightarrow> \<not> uint256_IsNull (example_hash n)"
proof -
  assume "n < 10"
  then have "(of_nat (Suc n) :: u8) \<noteq> 0" by (simp add: word_unat_eq_iff unat_of_nat del: of_nat_Suc)
  then show ?thesis by (simp add: example_hash_def uint256_IsNull_def del: of_nat_Suc)
qed

lemma example_points [simp]: "example_point n = example_point k \<longleftrightarrow> n = k"
  by (simp_all add: example_point_def)

lemma example_db_inv: "db_inv example_db"
  by (auto simp: db_inv_def db_utxo_def example_db_def DB_GetBestBlock_def split: if_splits)

lemma example_map_ok: "map_ok (db_utxo example_db) example_map"
  by (auto simp: map_ok_def example_map_def entry_ok_def coins_simps db_utxo_def example_db_def split: if_splits)

theorem coins_db_crash_safe_witness:
  "let bs = write_batches (\<lambda>_. False) 0 example_map (example_hash 1) (example_hash 0);
       db' = fold WriteBatch (take 1 bs) example_db
   in length bs = 3 \<and> uint256_IsNull (DB_GetBestBlock db') \<and> DB_GetHeadBlocks db' = [example_hash 1, example_hash 0] \<and>
     (\<exists>db''. DB_BatchWrite (\<lambda>_. False) 1000 example_map (example_hash 1) True db' = (Inr True, [], db'') \<and>
       db_utxo db'' (example_point 0) = None \<and> db_utxo db'' (example_point 1) = Some example_coin)"
proof -
  let ?bs = "write_batches (\<lambda>_. False) 0 example_map (example_hash 1) (example_hash 0)"
  have len: "length ?bs = 3"
    by (simp add: write_batches_def example_map_def entry_op_def coins_simps SizeEstimate_def write_estimate_def erase_estimate_def)
  have tip: "old_tip (example_hash 1) example_db = Inr (example_hash 0)"
    by (simp add: old_tip_def DB_GetBestBlock_def example_db_def)
  note cs = coins_db_crash_safe [OF example_db_inv example_map_ok _ tip, of 1 "\<lambda>_. False" 0 _ 1000, OF _ _ _ refl]
  have ov: "overlay example_map (db_utxo example_db) (example_point 0) = None"
    "overlay example_map (db_utxo example_db) (example_point 1) = Some example_coin"
    by (simp_all add: overlay_def example_map_def entry_value_def)
  show ?thesis using cs len ov by auto
qed

end
