(* ===== verification/CoinsProps.thy ===== *)
theory CoinsProps
  imports CoinsDb
begin

text \<open>
  The contract of the coins cache. \<open>coins_run\<close> is a client that calls the cache of \<open>src/coins.cpp\<close>, \<open>spec_run\<close> the
  map of coins it should see; the theorems hold over any view, and the witnesses run the cache over the database
  of \<open>CoinsDb\<close>.
\<close>

section \<open>Calls\<close>

text \<open>A client of the cache, what it observes, and the map of coins with the best block as its specification.\<close>

datatype coins_call =
    CallGet COutPoint | CallHave COutPoint | CallAccess COutPoint | CallSpend COutPoint
  | CallAdd COutPoint Coin bool | CallUncache COutPoint | CallBest | CallSetBest uint256 | CallFlush | CallSync

datatype coins_obs = ObsCoin "Coin option" | ObsBool bool | ObsHash uint256 | ObsDone

definition live :: "Coin option \<Rightarrow> Coin option" where
  "live r = (case r of Some coin \<Rightarrow> if IsSpent coin then None else Some coin | None \<Rightarrow> None)"

fun coins_step ::
  "'v view_ops \<Rightarrow> (bytes \<Rightarrow> u64) \<Rightarrow> coins_call \<Rightarrow> 'v coins_cache \<Rightarrow> (coins_error + coins_obs) \<times> 'v coins_cache" where
  "coins_step ops du (CallGet p) c = (case GetCoin ops du p c of (r, c) \<Rightarrow> (Inr (ObsCoin r), c))"
| "coins_step ops du (CallHave p) c = (case HaveCoin ops du p c of (r, c) \<Rightarrow> (Inr (ObsBool r), c))"
| "coins_step ops du (CallAccess p) c = (case AccessCoin ops du p c of (r, c) \<Rightarrow> (Inr (ObsCoin (live (Some r))), c))"
| "coins_step ops du (CallSpend p) c = (case SpendCoin ops du p c of (r, c) \<Rightarrow> (Inr (ObsCoin (live r)), c))"
| "coins_step ops du (CallAdd p coin po) c =
     (case AddCoin du p coin po c of (Inl e, c) \<Rightarrow> (Inl e, c) | (Inr _, c) \<Rightarrow> (Inr ObsDone, c))"
| "coins_step ops du (CallUncache p) c = (Inr ObsDone, Uncache du p c)"
| "coins_step ops du CallBest c = (case GetBestBlock ops c of (h, c) \<Rightarrow> (Inr (ObsHash h), c))"
| "coins_step ops du (CallSetBest h) c = (Inr ObsDone, SetBestBlock h c)"
| "coins_step ops du CallFlush c =
     (case Flush ops c of (Inl e, c) \<Rightarrow> (Inl e, c) | (Inr fOk, c) \<Rightarrow> (Inr (ObsBool fOk), c))"
| "coins_step ops du CallSync c =
     (case Sync ops du c of (Inl e, c) \<Rightarrow> (Inl e, c) | (Inr fOk, c) \<Rightarrow> (Inr (ObsBool fOk), c))"

primrec coins_run ::
  "'v view_ops \<Rightarrow> (bytes \<Rightarrow> u64) \<Rightarrow> coins_call list \<Rightarrow> 'v coins_cache \<Rightarrow> (coins_error + coins_obs list) \<times> 'v coins_cache" where
  "coins_run ops du [] c = (Inr [], c)"
| "coins_run ops du (x # xs) c =
     (case coins_step ops du x c of
        (Inl e, c) \<Rightarrow> (Inl e, c)
      | (Inr obs, c) \<Rightarrow>
          (case coins_run ops du xs c of
             (Inl e, c) \<Rightarrow> (Inl e, c)
           | (Inr os, c) \<Rightarrow> (Inr (obs # os), c)))"

type_synonym coins_spec = "(COutPoint \<Rightarrow> Coin option) \<times> uint256"

text \<open>\<open>None\<close> is a call outside the contract of the cache.\<close>

fun spec_step :: "coins_call \<Rightarrow> coins_spec \<Rightarrow> (coins_obs \<times> coins_spec) option" where
  "spec_step (CallGet p) (m, h) = Some (ObsCoin (m p), m, h)"
| "spec_step (CallHave p) (m, h) = Some (ObsBool (m p \<noteq> None), m, h)"
| "spec_step (CallAccess p) (m, h) = Some (ObsCoin (m p), m, h)"
| "spec_step (CallSpend p) (m, h) = Some (ObsCoin (m p), m(p := None), h)"
| "spec_step (CallAdd p coin po) (m, h) =
     (if IsSpent coin \<or> (\<not> po \<and> m p \<noteq> None) then None
      else Some (ObsDone, if IsUnspendable (scriptPubKey (coin_out coin)) then m else m(p := Some coin), h))"
| "spec_step (CallUncache p) (m, h) = Some (ObsDone, m, h)"
| "spec_step CallBest (m, h) = Some (ObsHash h, m, h)"
| "spec_step (CallSetBest h') (m, h) = (if uint256_IsNull h' then None else Some (ObsDone, m, h'))"
| "spec_step CallFlush (m, h) = Some (ObsBool True, m, h)"
| "spec_step CallSync (m, h) = Some (ObsBool True, m, h)"

primrec spec_run :: "coins_call list \<Rightarrow> coins_spec \<Rightarrow> (coins_obs list \<times> coins_spec) option" where
  "spec_run [] s = Some ([], s)"
| "spec_run (x # xs) s =
     Option.bind (spec_step x s) (\<lambda>(obs, s). Option.bind (spec_run xs s) (\<lambda>(os, s). Some (obs # os, s)))"

context coins_cache_base
begin

lemma cbest_hash: "\<not> uint256_IsNull (cc_hashBlock c) \<Longrightarrow> cbest c = cc_hashBlock c"
  by (simp add: cache_best_def)

lemma live_cutxo: "cinv c \<Longrightarrow> live (cutxo c p) = cutxo c p"
  using cutxo_unspent [of c p] by (auto simp: live_def split: option.split)

lemma coins_step_refines:
  assumes "cinv c" "\<not> uint256_IsNull (cc_hashBlock c)" "spec_step x (cutxo c, cbest c) = Some (obs, m, h)"
  shows "\<exists>c'. coins_step ops du x c = (Inr obs, c') \<and> cinv c' \<and> cutxo c' = m \<and> cbest c' = h \<and>
    \<not> uint256_IsNull (cc_hashBlock c')"
proof (cases x)
  case (CallGet p)
  obtain r c' where g: "GetCoin ops du p c = (r, c')" by fastforce
  from GetCoin_spec [OF assms(1) g] show ?thesis using CallGet g assms(2,3) by auto
next
  case (CallHave p)
  obtain r c' where g: "HaveCoin ops du p c = (r, c')" by fastforce
  from HaveCoin_spec [OF assms(1) g] show ?thesis using CallHave g assms(2,3) by auto
next
  case (CallAccess p)
  obtain r c' where g: "AccessCoin ops du p c = (r, c')" by fastforce
  from AccessCoin_spec [OF assms(1) g] show ?thesis
    using CallAccess g assms(2,3) live_cutxo [OF assms(1), of p] by (auto simp: live_def split: option.splits)
next
  case (CallSpend p)
  obtain r c' where g: "SpendCoin ops du p c = (r, c')" by fastforce
  note sp = SpendCoin_spec [OF assms(1) g]
  have "live r = cutxo c p"
    using sp(5,6) live_cutxo [OF assms(1), of p] by (cases "cutxo c p") (auto simp: live_def)
  then show ?thesis using sp CallSpend g assms(2,3) by simp
next
  case (CallAdd p coin po)
  obtain r c' where g: "AddCoin du p coin po c = (r, c')" by fastforce
  have pre: "\<not> IsSpent coin" "\<not> po \<Longrightarrow> cutxo c p = None" using assms(3) CallAdd by (simp_all split: if_splits)
  from AddCoin_spec [OF assms(1) pre g] show ?thesis using CallAdd g assms(2,3) by (simp split: if_splits)
next
  case (CallUncache p)
  then show ?thesis using Uncache_spec [OF assms(1), of p] assms(2,3) by simp
next
  case CallBest
  obtain r c' where g: "GetBestBlock ops c = (r, c')" by fastforce
  moreover have "c' = c" using g assms(2) by (simp add: GetBestBlock_def)
  ultimately show ?thesis using CallBest GetBestBlock_spec [OF assms(1) g] assms by auto
next
  case (CallSetBest h')
  then show ?thesis using SetBestBlock_spec [OF assms(1), of h'] assms(3) by (simp add: SetBestBlock_def split: if_splits)
next
  case CallFlush
  obtain r c' where g: "Flush ops c = (r, c')" by fastforce
  from Flush_spec [OF assms(1,2) g] show ?thesis using CallFlush g assms(2,3) by (simp add: cbest_hash)
next
  case CallSync
  obtain r c' where g: "Sync ops du c = (r, c')" by fastforce
  from Sync_spec [OF assms(1,2) g] show ?thesis using CallSync g assms(2,3) by (simp add: cbest_hash)
qed

lemma coins_run_refines:
  assumes "cinv c" "\<not> uint256_IsNull (cc_hashBlock c)" "spec_run xs (cutxo c, cbest c) = Some (obs, m, h)"
  shows "\<exists>c'. coins_run ops du xs c = (Inr obs, c') \<and> cinv c' \<and> cutxo c' = m \<and> cbest c' = h \<and>
    \<not> uint256_IsNull (cc_hashBlock c')"
  using assms
proof (induction xs arbitrary: c obs)
  case (Cons x xs)
  obtain o1 m1 h1 os where s: "spec_step x (cutxo c, cbest c) = Some (o1, m1, h1)" "spec_run xs (m1, h1) = Some (os, m, h)"
      "obs = o1 # os"
    using Cons.prems(3) by (auto simp: bind_eq_Some_conv)
  obtain d where d: "coins_step ops du x c = (Inr o1, d)" "cinv d" "cutxo d = m1" "cbest d = h1"
      "\<not> uint256_IsNull (cc_hashBlock d)"
    using coins_step_refines [OF Cons.prems(1,2) s(1)] by blast
  obtain c' where "coins_run ops du xs d = (Inr os, c')" "cinv c'" "cutxo c' = m" "cbest c' = h"
      "\<not> uint256_IsNull (cc_hashBlock c')"
    using Cons.IH [OF d(2,5), of os] s(2) d(3,4) by auto
  then show ?case using d(1) s(3) by simp
qed auto

lemma SanityCheck_cinv: "cinv c \<Longrightarrow> SanityCheck du c"
proof -
  assume c: "cinv c"
  have "entry_attr e \<notin> {2, 4, 7}" if "entry_ok b e" for b e
    using that by (auto simp: entry_attr_def entry_ok_def entry_value_def)
  moreover have "entry_ok (utxo (cc_base c) (fst x)) (snd x)" if "x \<in> set (cc_coins c)" for x
    using that cinvD(4) [OF c] by (intro map_okD [OF cinvD(2) [OF c]]) (simp add: map_of_eq_Some_iff)
  ultimately show ?thesis using cinvD(3) [OF c] by (fastforce simp: SanityCheck_def list_all_iff)
qed

lemma cache_is_view: "coins_view (cache_ops ops du) (cache_utxo utxo) (cache_best best) (cache_inv utxo vinv du)"
  by (rule cache.coins_view_axioms)

lemma new_cache_inv: "vinv v \<Longrightarrow> cinv (new_cache v)"
  by (simp add: new_cache_def cache_inv_def)

end

section \<open>Properties of the cache\<close>

text \<open>
  C35: a cache over any correct view is a correct view, whatever the order of its entries: \<open>GetCoin\<close>, \<open>HaveCoin\<close>
  and \<open>GetBestBlock\<close> answer from the map of unspent coins it shows and do not change it, and \<open>BatchWrite\<close> of
  the entries of a child changes that map to what the child showed.
\<close>

theorem coins_cache_is_view:
  assumes "coins_view ops utxo best vinv" "du [] = 0"
  shows "coins_view (cache_ops ops du) (cache_utxo utxo) (cache_best best) (cache_inv utxo vinv du)"
proof -
  have "coins_cache_base ops utxo best vinv du"
    using assms by (simp add: coins_cache_base_def coins_cache_base_axioms_def)
  then show ?thesis by (rule coins_cache_base.cache_is_view)
qed

theorem coins_cache_is_view_witness:
  "coins_view (cache_ops (db_ops (\<lambda>_. False) 0) script_usage) (cache_utxo db_utxo) (cache_best DB_GetBestBlock)
     (cache_inv db_utxo db_inv script_usage) \<and>
   GetCoin (db_ops (\<lambda>_. False) 0) script_usage (example_point 0) (new_cache example_db) =
     (Some example_coin,
      \<lparr>cc_base = example_db, cc_hashBlock = uint256_zero,
       cc_coins = [(example_point 0, \<lparr>e_coin = example_coin, e_flags = 0\<rparr>)], cc_usage = 0\<rparr>)"
proof
  show "coins_view (cache_ops (db_ops (\<lambda>_. False) 0) script_usage) (cache_utxo db_utxo) (cache_best DB_GetBestBlock)
     (cache_inv db_utxo db_inv script_usage)"
    by (rule coins_cache_is_view) (rule db.coins_view_axioms, simp add: script_usage_def MallocUsage_def)
  have "coin_usage script_usage example_coin = 0"
    by (simp add: coin_usage_def script_usage_def MallocUsage_def example_coin_def)
  then show "GetCoin (db_ops (\<lambda>_. False) 0) script_usage (example_point 0) (new_cache example_db) =
     (Some example_coin,
      \<lparr>cc_base = example_db, cc_hashBlock = uint256_zero,
       cc_coins = [(example_point 0, \<lparr>e_coin = example_coin, e_flags = 0\<rparr>)], cc_usage = 0\<rparr>)"
    by (simp add: GetCoin_def FetchCoin_def new_cache_def db_ops_def DB_GetCoin_def example_db_def Let_def)
qed

text \<open>
  C4: every sequence of calls refines the map of coins. From a state that satisfies the invariant, over any
  correct view, the cache answers the calls as the map would, as long as no call leaves the contract (a coin
  added without \<open>possible_overwrite\<close> is not there; what is added is unspent; a best block is not null); flushing,
  syncing and uncaching change nothing one can observe, and the final state passes \<open>SanityCheck\<close>.
\<close>

theorem coins_cache_refines_map:
  assumes "coins_view ops utxo best vinv" "du [] = 0" "cache_inv utxo vinv du c" "\<not> uint256_IsNull (cc_hashBlock c)"
    and "spec_run calls (cache_utxo utxo c, cache_best best c) = Some (obs, m, h)"
  shows "\<exists>c'. coins_run ops du calls c = (Inr obs, c') \<and> cache_inv utxo vinv du c' \<and> SanityCheck du c' \<and>
    cache_utxo utxo c' = m \<and> cache_best best c' = h"
proof -
  have l: "coins_cache_base ops utxo best vinv du"
    using assms(1,2) by (simp add: coins_cache_base_def coins_cache_base_axioms_def)
  show ?thesis
    using coins_cache_base.coins_run_refines [OF l assms(3-5)] coins_cache_base.SanityCheck_cinv [OF l] by blast
qed

definition example_calls :: "coins_call list" where
  "example_calls = [CallGet (example_point 0), CallSpend (example_point 0), CallAdd (example_point 1) example_coin False,
     CallSync, CallHave (example_point 0), CallSpend (example_point 1), CallAdd (example_point 1) example_coin False,
     CallFlush, CallAccess (example_point 1), CallBest]"

theorem coins_cache_refines_map_witness:
  "\<exists>c'. coins_run (db_ops (\<lambda>_. False) 100) script_usage example_calls (SetBestBlock (example_hash 1) (new_cache example_db)) =
      (Inr [ObsCoin (Some example_coin), ObsCoin (Some example_coin), ObsDone, ObsBool True, ObsBool False,
            ObsCoin (Some example_coin), ObsDone, ObsBool True, ObsCoin (Some example_coin), ObsHash (example_hash 1)], c') \<and>
    SanityCheck script_usage c' \<and> cache_utxo db_utxo c' (example_point 0) = None \<and>
    cache_utxo db_utxo c' (example_point 1) = Some example_coin"
proof -
  let ?c = "SetBestBlock (example_hash 1) (new_cache example_db)" and ?ops = "db_ops (\<lambda>_. False) 100"
  have v: "coins_view ?ops db_utxo DB_GetBestBlock db_inv" by (rule db.coins_view_axioms)
  have du: "script_usage [] = 0" by (simp add: script_usage_def MallocUsage_def)
  have c: "cache_inv db_utxo db_inv script_usage ?c"
    by (rule tip.SetBestBlock_spec(1) [OF tip.new_cache_inv [OF example_db_inv]]) simp
  have hb: "\<not> uint256_IsNull (cc_hashBlock ?c)" by (simp add: SetBestBlock_def)
  have u: "cache_utxo db_utxo ?c = [example_point 0 \<mapsto> example_coin]" "cache_best DB_GetBestBlock ?c = example_hash 1"
    by (simp_all add: SetBestBlock_def new_cache_def cache_utxo_def db_utxo_def example_db_def cache_best_def fun_eq_iff)
  have nu: "\<not> IsUnspendable (scriptPubKey (coin_out example_coin))"
    by (simp add: IsUnspendable_def example_coin_def MAX_SCRIPT_SIZE_def OP_RETURN_def)
  have "spec_run example_calls (cache_utxo db_utxo ?c, cache_best DB_GetBestBlock ?c) =
      Some ([ObsCoin (Some example_coin), ObsCoin (Some example_coin), ObsDone, ObsBool True, ObsBool False,
            ObsCoin (Some example_coin), ObsDone, ObsBool True, ObsCoin (Some example_coin), ObsHash (example_hash 1)],
        ([example_point 0 \<mapsto> example_coin](example_point 0 := None, example_point 1 \<mapsto> example_coin,
         example_point 1 := None, example_point 1 \<mapsto> example_coin)), example_hash 1)"
    unfolding u by (simp add: example_calls_def nu)
  from coins_cache_refines_map [OF v du c hb this] show ?thesis by auto
qed

text \<open>
  adding over an unspent coin. When the cache has an unspent entry at the outpoint and overwriting is not
  allowed, \<open>AddCoin\<close> throws; the coins stay as they were, but the entry's memory has already been taken off the
  account, so \<open>SanityCheck\<close> holds afterwards exactly when that memory is zero.
\<close>

theorem add_coin_overwrite_throws:
  assumes "map_of (cc_coins c) p = Some e" "\<not> IsSpent (e_coin e)" "SanityCheck du c"
    and "\<not> IsSpent coin" "\<not> IsUnspendable (scriptPubKey (coin_out coin))"
  shows "\<exists>msg c'. AddCoin du p coin False c = (Inl (LogicError msg), c') \<and> cc_coins c' = cc_coins c \<and>
    cc_base c' = cc_base c \<and> SanityCheck du c' = (coin_usage du (e_coin e) = 0)"
  using assms by (auto simp: AddCoin_def SanityCheck_def Let_def)

definition large_coin :: Coin where
  "large_coin = \<lparr>coin_out = \<lparr>out_nValue = 1, scriptPubKey = replicate 35 0x21\<rparr>, coin_fCoinBase = True, coin_nHeight = 3\<rparr>"

lemma large_coin: "\<not> IsSpent large_coin" "\<not> IsUnspendable (scriptPubKey (coin_out large_coin))"
  "coin_usage script_usage large_coin = 64"
  by (simp_all add: large_coin_def IsSpent_def CTxOut_IsNull_def IsUnspendable_def OP_RETURN_def MAX_SCRIPT_SIZE_def
      coin_usage_def script_usage_def MallocUsage_def)

theorem add_coin_overwrite_throws_witness:
  "let c = snd (AddCoin script_usage (example_point 0) large_coin False (new_cache example_db))
   in SanityCheck script_usage c \<and>
     (\<exists>msg c'. AddCoin script_usage (example_point 0) large_coin False c = (Inl (LogicError msg), c') \<and>
        cc_coins c' = cc_coins c \<and> \<not> SanityCheck script_usage c')"
proof -
  let ?e = "\<lparr>e_coin = large_coin, e_flags = DIRTY OR FRESH\<rparr>"
  let ?c = "\<lparr>cc_base = example_db, cc_hashBlock = uint256_zero, cc_coins = [(example_point 0, ?e)], cc_usage = 64\<rparr>"
  have c: "snd (AddCoin script_usage (example_point 0) large_coin False (new_cache example_db)) = ?c"
    by (simp add: AddCoin_def new_cache_def empty_entry_def large_coin coins_simps)
  have s: "SanityCheck script_usage ?c"
    by (simp add: SanityCheck_def entry_attr_def coins_simps large_coin)
  have "map_of (cc_coins ?c) (example_point 0) = Some ?e" "\<not> IsSpent (e_coin ?e)" by (simp_all add: large_coin)
  from add_coin_overwrite_throws [OF this s large_coin(1,2)] show ?thesis
    unfolding c using s by (auto simp: Let_def large_coin)
qed

text \<open>
  the outputs of a transaction. Over any correct view \<open>AddCoins\<close> adds exactly the outputs that can be spent,
  with the height and the coinbase flag, and nothing else changes; afterwards \<open>HaveInputs\<close> says whether every input
  of a transaction is an unspent coin, and \<open>AccessByTxid\<close> returns the first unspent output.
\<close>

theorem transaction_coins:
  assumes "coins_view ops utxo best vinv" "du [] = 0" "cache_inv utxo vinv du c"
    and "length (vout tx) \<le> 2 ^ 32" "list_all (\<lambda>out. \<not> CTxOut_IsNull out) (vout tx)"
    and "check \<or> IsCoinBase tx \<or> (\<forall>n. cache_utxo utxo c (COutPoint (tx_hash tx) n) = None)"
    and "AddCoins ops du tx nHeight check c = (r, c1)" "HaveInputs ops du tx2 c1 = (b, c2)" "AccessByTxid ops du txid c2 = (coin, c3)"
  shows "r = Inr () \<and> cache_utxo utxo c3 = cache_utxo utxo c ++ created (tx_hash tx) nHeight (IsCoinBase tx) 0 (vout tx) \<and>
    b = (IsCoinBase tx2 \<or> (\<forall>i \<in> set (vin tx2). cache_utxo utxo c3 (prevout i) \<noteq> None)) \<and>
    coin = (case filter (\<lambda>j. cache_utxo utxo c3 (COutPoint txid (of_nat j)) \<noteq> None) [0..<MAX_OUTPUTS_PER_BLOCK] of
              [] \<Rightarrow> coinEmpty | j # _ \<Rightarrow> the (cache_utxo utxo c3 (COutPoint txid (of_nat j)))) \<and>
    cache_best best c3 = cache_best best c \<and> SanityCheck du c3"
proof -
  have l: "coins_cache_base ops utxo best vinv du"
    using assms(1,2) by (simp add: coins_cache_base_def coins_cache_base_axioms_def)
  note a = coins_cache_base.AddCoins_spec [OF l assms(3-7)]
  note h = coins_cache_base.HaveInputs_spec [OF l a(2) assms(8)]
  note t = coins_cache_base.AccessByTxid_spec [OF l h(2) assms(9)]
  have e: "cache_utxo utxo c2 = cache_utxo utxo c3" "cache_utxo utxo c1 = cache_utxo utxo c3" using h(3) t(2) by simp_all
  have "cache_utxo utxo c3 = cache_utxo utxo c ++ created (tx_hash tx) nHeight (IsCoinBase tx) 0 (vout tx)"
    using a(3) e(2) by simp
  moreover have "cache_best best c3 = cache_best best c" using a(4) h(4) t(3) by simp
  ultimately show ?thesis
    using a(1) h(1) [unfolded e] t(4) [unfolded e] coins_cache_base.SanityCheck_cinv [OF l t(1)] by blast
qed

definition example_in :: "u32 \<Rightarrow> CTxIn" where
  "example_in n = \<lparr>prevout = example_point n, scriptSig = [], nSequence = 0\<rparr>"

definition example_tx :: CTransaction where
  "example_tx = \<lparr>tx_hash = example_hash 9, nVersion = 2, nType = 0, vin = [example_in 5],
     vout = [\<lparr>out_nValue = 1, scriptPubKey = [0x6a]\<rparr>, \<lparr>out_nValue = 2, scriptPubKey = [0x51]\<rparr>], nLockTime = 0, vExtraPayload = []\<rparr>"


theorem transaction_coins_witness:
  "let ops = db_ops (\<lambda>_. False) 0; c = new_cache example_db;
       (r, c1) = AddCoins ops script_usage example_tx 12 True c;
       (b, c2) = HaveInputs ops script_usage (example_tx\<lparr>vin := [example_in 1]\<rparr>) c1;
       (coin, c3) = AccessByTxid ops script_usage (example_hash 9) c2
   in r = Inr () \<and> b \<and> coin = example_coin \<and> SanityCheck script_usage c3 \<and>
     cache_utxo db_utxo c3 (example_point 1) =
       Some \<lparr>coin_out = \<lparr>out_nValue = 2, scriptPubKey = [0x51]\<rparr>, coin_fCoinBase = False, coin_nHeight = 12\<rparr>"
proof -
  let ?ops = "db_ops (\<lambda>_. False) 0" and ?c = "new_cache example_db"
  let ?tx2 = "example_tx\<lparr>vin := [example_in 1]\<rparr>"
  obtain r c1 where a: "AddCoins ?ops script_usage example_tx 12 True ?c = (r, c1)" by fastforce
  obtain b c2 where h: "HaveInputs ?ops script_usage ?tx2 c1 = (b, c2)" by fastforce
  obtain coin c3 where t: "AccessByTxid ?ops script_usage (example_hash 9) c2 = (coin, c3)" by fastforce
  have v: "coins_view ?ops db_utxo DB_GetBestBlock db_inv" by (rule db.coins_view_axioms)
  have du: "script_usage [] = 0" by (simp add: script_usage_def MallocUsage_def)
  have c: "cache_inv db_utxo db_inv script_usage ?c" by (rule tip.new_cache_inv [OF example_db_inv])
  have u: "cache_utxo db_utxo ?c = [example_point 0 \<mapsto> example_coin]"
    by (simp add: new_cache_def cache_utxo_def db_utxo_def example_db_def fun_eq_iff)
  have tx: "length (vout example_tx) \<le> 2 ^ 32" "list_all (\<lambda>out. \<not> CTxOut_IsNull out) (vout example_tx)"
    by (simp_all add: example_tx_def CTxOut_IsNull_def)
  note tc = transaction_coins [OF v du c tx _ a h t]
  have cr: "created (tx_hash example_tx) 12 (IsCoinBase example_tx) 0 (vout example_tx) (example_point n) =
      (if n = 1 then Some \<lparr>coin_out = \<lparr>out_nValue = 2, scriptPubKey = [0x51]\<rparr>, coin_fCoinBase = False, coin_nHeight = 12\<rparr>
       else None)" if "n = 0 \<or> n = 1" for n
    using that
    by (auto simp: created_def example_tx_def example_in_def example_point_def IsCoinBase_def COutPoint_IsNull_def IsUnspendable_def
        OP_RETURN_def MAX_SCRIPT_SIZE_def NULL_INDEX_def)
  have u3: "cache_utxo db_utxo c3 (example_point 0) = Some example_coin"
    "cache_utxo db_utxo c3 (example_point 1) =
       Some \<lparr>coin_out = \<lparr>out_nValue = 2, scriptPubKey = [0x51]\<rparr>, coin_fCoinBase = False, coin_nHeight = 12\<rparr>"
    using tc u cr by (simp_all add: map_add_def)
  have "0 < MAX_OUTPUTS_PER_BLOCK"
    by (simp add: MAX_OUTPUTS_PER_BLOCK_def write_i64_def ser_writedata64_def write_bytes_def WriteCompactSize_def ser_writedata8_def)
  then have "[0..<MAX_OUTPUTS_PER_BLOCK] = 0 # [1..<MAX_OUTPUTS_PER_BLOCK]" by (simp add: upt_conv_Cons)
  moreover have "COutPoint (example_hash 9) (of_nat 0) = example_point 0" by (simp add: example_point_def)
  ultimately have "coin = example_coin" using tc u3(1) by simp
  moreover have "b" using tc u3(2) by (simp add: example_in_def)
  ultimately show ?thesis using a h t tc u3(2) by simp
qed

section \<open>Serialization of coins\<close>

lemma coin_code:
  fixes n :: "31 word" and b :: bool
  defines "code \<equiv> ucast n * 2 + of_bool b :: u32"
  shows "ucast (drop_bit 1 code) = n" "(code AND 1 \<noteq> 0) = b"
proof -
  have c: "code = push_bit 1 (ucast n) OR of_bool b"
  proof -
    have "(push_bit 1 (ucast n) :: u32) AND of_bool b = 0"
      by (rule bit_word_eqI) (simp only: bit_and_iff bit_push_bit_iff bit_of_bool_iff, auto)
    then have "push_bit 1 (ucast n) OR of_bool b = push_bit 1 (ucast n) + (of_bool b :: u32)"
      by (rule disjunctive_add_eq_or [symmetric])
    then show ?thesis by (simp add: code_def push_bit_eq_mult)
  qed
  show "ucast (drop_bit 1 code) = n"
    unfolding c
    by (rule bit_word_eqI)
      (simp only: bit_unsigned_iff bit_drop_bit_eq comp_def bit_or_iff bit_push_bit_iff bit_of_bool_iff, auto simp: bit_simps)
  have "(code AND 1 \<noteq> 0) = bit code 0" by (simp add: and_one_eq bit_0 odd_iff_mod_2_eq_one)
  then show "(code AND 1 \<noteq> 0) = b" unfolding c by (simp only: bit_or_iff bit_push_bit_iff bit_of_bool_iff) simp
qed

text \<open>
  what is stored can be read back. Every unspent coin with an amount in the money range and a script of
  at most 10000 bytes is serialized, and reading the bytes, whatever follows them, gives the same coin: compressed
  amount, special forms of the script, height and coinbase flag.
\<close>

theorem coin_roundtrip:
  assumes "curve_ok fully_valid decompress" "MoneyRange (out_nValue (coin_out c))"
    and "length (scriptPubKey (coin_out c)) \<le> MAX_SCRIPT_SIZE"
  shows "\<exists>w. Coin_Serialize fully_valid c = Some w \<and> Coin_Unserialize decompress (w @ rest) = Inr (Inr c, rest)"
proof -
  have ns: "\<not> IsSpent c" using assms(2) by (auto simp: IsSpent_def CTxOut_IsNull_def MoneyRange_def)
  define code :: u32 where "code = ucast (coin_nHeight c) * 2 + of_bool (coin_fCoinBase c)"
  note cc = coin_code [of "coin_nHeight c" "coin_fCoinBase c", folded code_def]
  obtain w where w: "TxOutCompression_Ser fully_valid (coin_out c) = Some w"
      "\<And>t0 rest. TxOutCompression_Unser decompress t0 (w @ rest) = Inr (Inr (coin_out c), rest)"
    using TxOutCompression_roundtrip [OF assms] by blast
  have "Coin_Serialize fully_valid c = Some (WriteVarInt code @ w)"
    using ns w(1) by (simp add: Coin_Serialize_def Let_def flip: code_def)
  moreover have "Coin_Unserialize decompress ((WriteVarInt code @ w) @ rest) = Inr (Inr c, rest)"
    unfolding Coin_Unserialize_def append_assoc varint32.bind_write [OF TrueI]
    by (simp only: rbind_def w(2) sum.case prod.case rreturn_def cc) simp
  ultimately show ?thesis by blast
qed

text \<open>The base point of secp256k1, whose second coordinate is even, and a library that knows this key.\<close>

definition base_point_x :: bytes where
  "base_point_x = [0x79, 0xBE, 0x66, 0x7E, 0xF9, 0xDC, 0xBB, 0xAC, 0x55, 0xA0, 0x62, 0x95, 0xCE, 0x87, 0x0B, 0x07,
     0x02, 0x9B, 0xFC, 0xDB, 0x2D, 0xCE, 0x28, 0xD9, 0x59, 0xF2, 0x81, 0x5B, 0x16, 0xF8, 0x17, 0x98]"

definition base_point_y :: bytes where
  "base_point_y = [0x48, 0x3A, 0xDA, 0x77, 0x26, 0xA3, 0xC4, 0x65, 0x5D, 0xA4, 0xFB, 0xFC, 0x0E, 0x11, 0x08, 0xA8,
     0xFD, 0x17, 0xB4, 0x48, 0xA6, 0x85, 0x54, 0x19, 0x9C, 0x47, 0xD0, 0x8F, 0xFB, 0x10, 0xD4, 0xB8]"

definition base_key :: CPubKey where
  "base_key = CPubKey (4 # base_point_x @ base_point_y)"

definition known_decompress :: "CPubKey \<Rightarrow> CPubKey option" where
  "known_decompress k = (if k = CPubKey (2 # base_point_x) then Some base_key else None)"

lemma known_curve_ok: "curve_ok (\<lambda>k. k = base_key) known_decompress"
proof -
  have "decomp = Some (CPubKey (4 # x @ y))"
    if "length x = 32" "CPubKey (4 # x @ y) = base_key" "decomp = known_decompress (CPubKey ((2 + (y ! 31 AND 1)) # x))"
    for x y decomp
  proof -
    have "length base_point_x = 32" by (simp add: base_point_x_def)
    then have xy: "x = base_point_x" "y = base_point_y" using that(1,2) by (auto simp: base_key_def)
    have "(2 :: u8) + (base_point_y ! 31 AND 1) = 2" by (simp add: base_point_y_def)
    then show ?thesis using that(3) by (simp add: xy known_decompress_def base_key_def)
  qed
  then show ?thesis by (simp add: curve_ok_def)
qed

definition key_coin :: Coin where
  "key_coin = \<lparr>coin_out = \<lparr>out_nValue = 20000000000, scriptPubKey = 65 # vch base_key @ [0xac]\<rparr>,
     coin_fCoinBase = True, coin_nHeight = 120\<rparr>"

theorem coin_roundtrip_witness:
  "\<exists>w. Coin_Serialize (\<lambda>k. k = base_key) key_coin = Some w \<and>
     Coin_Unserialize known_decompress (w @ [7]) = Inr (Inr key_coin, [7])"
  by (rule coin_roundtrip [OF known_curve_ok])
    (simp_all add: key_coin_def MoneyRange_def MAX_MONEY_def COIN_def MAX_SCRIPT_SIZE_def base_key_def
      base_point_x_def base_point_y_def)

end
