(* ===== verification/TxWire.thy ===== *)
theory TxWire
  imports StakingTypes
begin

text \<open>
  The wire form of transactions (\<open>src/primitives/transaction.h\<close>) and of vectors of them
  (\<open>VectorFormatter\<close> in \<open>src/serialize.h\<close>). The hash of a transaction is computed from its bytes by the
  argument \<open>H\<close>.
\<close>

section \<open>Vectors\<close>

definition write_vector :: "('a \<Rightarrow> bytes) \<Rightarrow> 'a list \<Rightarrow> bytes" where
  "write_vector wr xs = WriteCompactSize (length xs) @ concat (map wr xs)"

primrec read_items :: "'a reader \<Rightarrow> nat \<Rightarrow> 'a list reader" where
  "read_items rd 0 = rreturn []"
| "read_items rd (Suc n) = rbind rd (\<lambda>x. rbind (read_items rd n) (\<lambda>xs. rreturn (x # xs)))"

definition read_vector :: "'a reader \<Rightarrow> 'a list reader" where
  "read_vector rd = rbind (ReadCompactSize True) (read_items rd)"

context codec
begin

lemma read_items_write: "list_all ok xs \<Longrightarrow> read_items rd (length xs) (concat (map wr xs) @ rest) = Inr (xs, rest)"
  by (induction xs) (simp add: rreturn_def, simp add: bind_write, simp add: rbind_def rreturn_def)

lemma read_vector_write:
  "list_all ok xs \<Longrightarrow> length xs \<le> MAX_SIZE \<Longrightarrow> read_vector rd (write_vector wr xs @ rest) = Inr (xs, rest)"
  by (simp add: read_vector_def write_vector_def compact.bind_write read_items_write)

end

context canonical_codec
begin

lemma read_items_read: "read_items rd n s = Inr (xs, rest) \<Longrightarrow> length xs = n \<and> list_all ok xs \<and> s = concat (map wr xs) @ rest"
  by (induction n arbitrary: s xs) (auto simp: rreturn_def rbind_Inr read_iff)

lemma vector_codec:
  "canonical_codec (write_vector wr) (read_vector rd) (\<lambda>xs. list_all ok xs \<and> length xs \<le> MAX_SIZE)"
  by unfold_locales
    (auto simp: read_vector_write, auto simp: read_vector_def write_vector_def compact.bind_Inr dest: read_items_read)

end

section \<open>Transactions\<close>

definition write_CTxIn :: "CTxIn \<Rightarrow> bytes" where
  "write_CTxIn i = write_COutPoint (prevout i) @ write_bytes (scriptSig i) @ ser_writedata32 (nSequence i)"

definition read_CTxIn :: "CTxIn reader" where
  "read_CTxIn = rbind read_COutPoint (\<lambda>p. rbind read_script (\<lambda>s. rbind ser_readdata32 (\<lambda>n.
     rreturn \<lparr>prevout = p, scriptSig = s, nSequence = n\<rparr>)))"

definition write_CTxOut :: "CTxOut \<Rightarrow> bytes" where
  "write_CTxOut t = write_i64 (out_nValue t) @ write_bytes (scriptPubKey t)"

definition read_CTxOut :: "CTxOut reader" where
  "read_CTxOut = rbind read_i64 (\<lambda>v. rbind read_script (\<lambda>s. rreturn \<lparr>out_nValue = v, scriptPubKey = s\<rparr>))"

definition SPECIAL_VERSION :: int where "SPECIAL_VERSION = 3"
definition TRANSACTION_NORMAL :: nat where "TRANSACTION_NORMAL = 0"

definition HasExtraPayloadField :: "CTransaction \<Rightarrow> bool" where
  "HasExtraPayloadField tx \<longleftrightarrow> nVersion tx \<ge> SPECIAL_VERSION \<and> nType tx \<noteq> TRANSACTION_NORMAL"

definition n32bitVersion :: "CTransaction \<Rightarrow> u32" where
  "n32bitVersion tx = word_of_int (nVersion tx) OR push_bit 16 (of_nat (nType tx))"

definition write_CTransaction :: "CTransaction \<Rightarrow> bytes" where
  "write_CTransaction tx =
     ser_writedata32 (n32bitVersion tx) @ write_vector write_CTxIn (vin tx) @ write_vector write_CTxOut (vout tx) @
     ser_writedata32 (nLockTime tx) @ (if HasExtraPayloadField tx then write_bytes (vExtraPayload tx) else [])"

text \<open>
  \<open>CMutableTransaction::Unserialize\<close> and the constructor of \<open>CTransaction\<close>, which computes the hash. A vector of
  bytes is read in the pieces in which a script is read.
\<close>

definition finish_CTransaction :: "(bytes \<Rightarrow> uint256) \<Rightarrow> CTransaction \<Rightarrow> CTransaction" where
  "finish_CTransaction H tx = tx\<lparr>tx_hash := H (write_CTransaction tx)\<rparr>"

definition read_CTransaction :: "(bytes \<Rightarrow> uint256) \<Rightarrow> CTransaction reader" where
  "read_CTransaction H =
     rbind ser_readdata32 (\<lambda>n32.
     let version = sint (ucast n32 :: u16); type = unat (ucast (drop_bit 16 n32) :: u16) in
     rbind (read_vector read_CTxIn) (\<lambda>vi.
     rbind (read_vector read_CTxOut) (\<lambda>vo.
     rbind ser_readdata32 (\<lambda>lock.
     rbind (if version \<ge> SPECIAL_VERSION \<and> type \<noteq> TRANSACTION_NORMAL then read_script else rreturn []) (\<lambda>payload.
       rreturn (finish_CTransaction H \<lparr>tx_hash = uint256_zero, nVersion = version, nType = type, vin = vi, vout = vo,
         nLockTime = lock, vExtraPayload = payload\<rparr>))))))"

definition GetTotalSize :: "CTransaction \<Rightarrow> nat" where
  "GetTotalSize tx = length (write_CTransaction tx)"

section \<open>Round trip\<close>

definition txin_ok :: "CTxIn \<Rightarrow> bool" where
  "txin_ok i \<longleftrightarrow> length (m_data (op_hash (prevout i))) = 32 \<and> length (scriptSig i) \<le> MAX_SIZE"

definition txout_ok :: "CTxOut \<Rightarrow> bool" where
  "txout_ok t \<longleftrightarrow> in_i64 (out_nValue t) \<and> length (scriptPubKey t) \<le> MAX_SIZE"

interpretation txin_codec: canonical_codec write_CTxIn read_CTxIn txin_ok
  by unfold_locales
    (auto simp: write_CTxIn_def read_CTxIn_def txin_ok_def outpoint_codec.bind_write script_codec.bind_write
      u32_codec.bind_write outpoint_codec.bind_Inr script_codec.bind_Inr u32_codec.bind_Inr rreturn_def)

interpretation txout_codec: canonical_codec write_CTxOut read_CTxOut txout_ok
  by unfold_locales
    (auto simp: write_CTxOut_def read_CTxOut_def txout_ok_def i64_codec.bind_write script_codec.bind_write
      i64_codec.bind_Inr script_codec.bind_Inr rreturn_def)

interpretation vin_codec: canonical_codec "write_vector write_CTxIn" "read_vector read_CTxIn"
    "\<lambda>xs. list_all txin_ok xs \<and> length xs \<le> MAX_SIZE"
  by (rule txin_codec.vector_codec)

interpretation vout_codec: canonical_codec "write_vector write_CTxOut" "read_vector read_CTxOut"
    "\<lambda>xs. list_all txout_ok xs \<and> length xs \<le> MAX_SIZE"
  by (rule txout_codec.vector_codec)

text \<open>
  A transaction that can be written: its parts can, and nothing is in a payload that is not written. A negative
  version would overwrite the type.
\<close>

definition tx_ok :: "(bytes \<Rightarrow> uint256) \<Rightarrow> CTransaction \<Rightarrow> bool" where
  "tx_ok H tx \<longleftrightarrow> 0 \<le> nVersion tx \<and> nVersion tx < 2 ^ 15 \<and> nType tx < 2 ^ 16 \<and>
     list_all txin_ok (vin tx) \<and> length (vin tx) \<le> MAX_SIZE \<and> list_all txout_ok (vout tx) \<and> length (vout tx) \<le> MAX_SIZE \<and>
     length (vExtraPayload tx) \<le> MAX_SIZE \<and> (\<not> HasExtraPayloadField tx \<longrightarrow> vExtraPayload tx = []) \<and>
     tx_hash tx = H (write_CTransaction tx)"

lemma n32bitVersion_parts:
  assumes "0 \<le> nVersion tx" "nVersion tx < 2 ^ 15" "nType tx < 2 ^ 16"
  shows "sint (ucast (n32bitVersion tx) :: u16) = nVersion tx" "unat (ucast (drop_bit 16 (n32bitVersion tx)) :: u16) = nType tx"
proof -
  have "ucast (n32bitVersion tx) = (word_of_int (nVersion tx) :: u16)"
    by (rule bit_word_eqI) (auto simp: n32bitVersion_def bit_simps)
  then show "sint (ucast (n32bitVersion tx) :: u16) = nVersion tx"
    using assms(1,2) by (simp add: signed_of_int signed_take_bit_int_eq_self)
  have "\<not> bit (nVersion tx) (16 + k)" for k
  proof -
    have "nVersion tx < 2 ^ (16 + k)" using assms(2) power_increasing [of 15 "16 + k" "2 :: int"] by simp
    then show ?thesis using assms(1) by (simp add: bit_iff_odd div_pos_pos_trivial)
  qed
  then have "ucast (drop_bit 16 (n32bitVersion tx)) = (of_nat (nType tx) :: u16)"
    by (intro bit_word_eqI) (auto simp: n32bitVersion_def bit_simps)
  then show "unat (ucast (drop_bit 16 (n32bitVersion tx)) :: u16) = nType tx"
    using assms(3) by (simp add: unat_of_nat)
qed

lemma write_CTransaction_hash: "write_CTransaction (tx\<lparr>tx_hash := h\<rparr>) = write_CTransaction tx"
  by (simp add: write_CTransaction_def n32bitVersion_def HasExtraPayloadField_def)

lemma rbind_rreturn: "rbind (rreturn x) f s = f x s"
  by (simp add: rbind_def rreturn_def)

text \<open>
  C36: reading the bytes of a transaction gives the transaction, with its hash, whatever follows.
\<close>

theorem transaction_roundtrip:
  assumes "tx_ok H tx"
  shows "read_CTransaction H (write_CTransaction tx @ rest) = Inr (tx, rest)"
proof -
  have ok: "0 \<le> nVersion tx" "nVersion tx < 2 ^ 15" "nType tx < 2 ^ 16"
    "list_all txin_ok (vin tx) \<and> length (vin tx) \<le> MAX_SIZE" "list_all txout_ok (vout tx) \<and> length (vout tx) \<le> MAX_SIZE"
    "length (vExtraPayload tx) \<le> MAX_SIZE" "\<not> HasExtraPayloadField tx \<Longrightarrow> vExtraPayload tx = []"
    "tx_hash tx = H (write_CTransaction tx)"
    using assms by (simp_all add: tx_ok_def)
  let ?tx = "\<lparr>tx_hash = uint256_zero, nVersion = nVersion tx, nType = nType tx, vin = vin tx, vout = vout tx,
    nLockTime = nLockTime tx, vExtraPayload = vExtraPayload tx\<rparr>"
  have "?tx = tx\<lparr>tx_hash := uint256_zero\<rparr>" by simp
  then have fin: "finish_CTransaction H ?tx = tx"
    using ok(8) unfolding finish_CTransaction_def by (simp only: write_CTransaction_hash) simp
  show ?thesis
  proof (cases "HasExtraPayloadField tx")
    case True
    then have "nVersion tx \<ge> SPECIAL_VERSION \<and> nType tx \<noteq> TRANSACTION_NORMAL" by (simp add: HasExtraPayloadField_def)
    then show ?thesis
      using True ok(6) fin
      by (simp add: read_CTransaction_def write_CTransaction_def u32_codec.bind_write n32bitVersion_parts [OF ok(1-3)]
          vin_codec.bind_write [OF ok(4)] vout_codec.bind_write [OF ok(5)] script_codec.bind_write rreturn_def Let_def)
  next
    case False
    then have no: "(nVersion tx \<ge> SPECIAL_VERSION \<and> nType tx \<noteq> TRANSACTION_NORMAL) = False" by (simp add: HasExtraPayloadField_def)
    show ?thesis
      using False ok(7) fin
      by (simp add: read_CTransaction_def write_CTransaction_def u32_codec.bind_write n32bitVersion_parts [OF ok(1-3)]
          vin_codec.bind_write [OF ok(4)] vout_codec.bind_write [OF ok(5)] no rbind_rreturn Let_def del: de_Morgan_conj)
        (simp add: rreturn_def)
  qed
qed


definition first_bytes :: "bytes \<Rightarrow> uint256" where
  "first_bytes b = UInt256 (take 32 (b @ replicate 32 0))"

definition special_tx :: CTransaction where
  "special_tx = finish_CTransaction first_bytes
     \<lparr>tx_hash = uint256_zero, nVersion = 3, nType = 8,
      vin = [\<lparr>prevout = COutPoint (UInt256 (replicate 32 7)) 1, scriptSig = [0x51, 0x52], nSequence = 0xffffffff\<rparr>],
      vout = [\<lparr>out_nValue = 12345, scriptPubKey = [0x6a]\<rparr>], nLockTime = 99, vExtraPayload = [1, 2, 3]\<rparr>"

theorem transaction_roundtrip_witness:
  "read_CTransaction first_bytes (write_CTransaction special_tx @ [0, 1]) = Inr (special_tx, [0, 1]) \<and>
   vExtraPayload special_tx = [1, 2, 3]"
proof
  show "read_CTransaction first_bytes (write_CTransaction special_tx @ [0, 1]) = Inr (special_tx, [0, 1])"
  proof (rule transaction_roundtrip)
    have "tx_hash special_tx = first_bytes (write_CTransaction special_tx)"
      by (simp add: special_tx_def finish_CTransaction_def) (simp add: write_CTransaction_def n32bitVersion_def HasExtraPayloadField_def)
    then show "tx_ok first_bytes special_tx"
      by (simp add: tx_ok_def) (simp add: special_tx_def finish_CTransaction_def HasExtraPayloadField_def SPECIAL_VERSION_def
        TRANSACTION_NORMAL_def txin_ok_def txout_ok_def in_i64_def INT64_MAX_def MAX_SIZE_def)
  qed
qed (simp add: special_tx_def finish_CTransaction_def)

end
