(* ===== verification/AssetTx.thy ===== *)
theory AssetTx
  imports TxWire Compressor
begin

text \<open>
  The verdicts on transactions (\<open>src/consensus/validation.h\<close>) and the asset lock and unlock transactions of
  \<open>src/evo/assetlocktx.h\<close> and \<open>src/evo/assetlocktx.cpp\<close>: their payloads on the wire, the rules of a lock, and the
  fee of an unlock. A signature is an object of the BLS library, whose two conversions are the record
  \<open>bls_scheme\<close>; what \<open>src/bls/bls.h\<close> wraps around them is modelled. The quorum that signs an unlock is not modelled.
\<close>

section \<open>Verdicts\<close>

datatype TxValidationResult =
    TX_RESULT_UNSET | TX_CONSENSUS | TX_RECENT_CONSENSUS_CHANGE | TX_INPUTS_NOT_STANDARD | TX_NOT_STANDARD
  | TX_MISSING_INPUTS | TX_PREMATURE_SPEND | TX_BAD_SPECIAL | TX_CONFLICT | TX_CONFLICT_LOCK | TX_MEMPOOL_POLICY
  | TX_NO_MEMPOOL

text \<open>
  A transaction is refused with a result and a reason, or its check throws, fails an assertion or overflows. The
  debug message of a refusal is left out.
\<close>

datatype tx_error = TxInvalid TxValidationResult string | TxThrow string | TxAssertion | TxOverflow

section \<open>Signatures\<close>

record 'g bls_scheme =
  FromBytes :: "bytes \<Rightarrow> bool \<Rightarrow> 'g option"
  SerializeToArray :: "'g \<Rightarrow> bool \<Rightarrow> bytes"

text \<open>\<open>None\<close> is the invalid signature, as it is constructed and as \<open>Reset\<close> leaves it.\<close>

type_synonym 'g CBLSSignature = "'g option"

definition SerSize :: nat where "SerSize = 96"

definition BLS_SetBytes :: "'g bls_scheme \<Rightarrow> bytes \<Rightarrow> bool \<Rightarrow> 'g CBLSSignature" where
  "BLS_SetBytes bls vecBytes legacy =
     (if length vecBytes \<noteq> SerSize then None
      else if list_all (\<lambda>c. c = 0) vecBytes then None
      else FromBytes bls vecBytes legacy)"

definition BLS_ToBytes :: "'g bls_scheme \<Rightarrow> 'g CBLSSignature \<Rightarrow> bool \<Rightarrow> bytes" where
  "BLS_ToBytes bls sig legacy =
     (case sig of None \<Rightarrow> replicate SerSize 0 | Some g \<Rightarrow> SerializeToArray bls g legacy)"

definition BLS_CheckMalleable :: "'g bls_scheme \<Rightarrow> 'g CBLSSignature \<Rightarrow> bytes \<Rightarrow> bool \<Rightarrow> bool" where
  "BLS_CheckMalleable bls sig vecBytes legacy \<longleftrightarrow> vecBytes = BLS_ToBytes bls sig legacy"

text \<open>The exceptions of readers that are not those of streams end in the same handler as they do here.\<close>

definition BLS_Unserialize :: "'g bls_scheme \<Rightarrow> bool \<Rightarrow> 'g CBLSSignature reader" where
  "BLS_Unserialize bls legacy =
     rbind (stream_read SerSize) (\<lambda>vecBytes.
       let sig = BLS_SetBytes bls vecBytes legacy
       in if \<not> BLS_CheckMalleable bls sig vecBytes legacy
          then let sig = BLS_SetBytes bls vecBytes (\<not> legacy)
               in if \<not> BLS_CheckMalleable bls sig vecBytes (\<not> legacy) then rthrow NonCanonical else rreturn None
          else rreturn sig)"

section \<open>Payloads\<close>

definition TRANSACTION_COINBASE :: nat where "TRANSACTION_COINBASE = 5"
definition TRANSACTION_QUORUM_COMMITMENT :: nat where "TRANSACTION_QUORUM_COMMITMENT = 6"
definition TRANSACTION_MNHF_SIGNAL :: nat where "TRANSACTION_MNHF_SIGNAL = 7"
definition TRANSACTION_ASSET_LOCK :: nat where "TRANSACTION_ASSET_LOCK = 8"
definition TRANSACTION_ASSET_UNLOCK :: nat where "TRANSACTION_ASSET_UNLOCK = 9"

lemmas transaction_types = TRANSACTION_NORMAL_def TRANSACTION_COINBASE_def TRANSACTION_QUORUM_COMMITMENT_def
  TRANSACTION_MNHF_SIGNAL_def TRANSACTION_ASSET_LOCK_def TRANSACTION_ASSET_UNLOCK_def

record CAssetLockPayload =
  al_nVersion :: u8
  al_creditOutputs :: "CTxOut list"

definition write_asset_lock :: "CAssetLockPayload \<Rightarrow> bytes" where
  "write_asset_lock p = ser_writedata8 (al_nVersion p) @ write_vector write_CTxOut (al_creditOutputs p)"

definition read_asset_lock :: "CAssetLockPayload reader" where
  "read_asset_lock = rbind ser_readdata8 (\<lambda>v. rbind (read_vector read_CTxOut) (\<lambda>outs.
     rreturn \<lparr>al_nVersion = v, al_creditOutputs = outs\<rparr>))"

record 'g CAssetUnlockPayload =
  au_nVersion :: u8
  au_index :: u64
  au_fee :: u32
  au_requestedHeight :: u32
  au_quorumHash :: uint256
  au_quorumSig :: "'g CBLSSignature"

definition write_asset_unlock :: "'g bls_scheme \<Rightarrow> bool \<Rightarrow> 'g CAssetUnlockPayload \<Rightarrow> bytes" where
  "write_asset_unlock bls legacy p =
     ser_writedata8 (au_nVersion p) @ ser_writedata64 (au_index p) @ ser_writedata32 (au_fee p) @
     ser_writedata32 (au_requestedHeight p) @ write_uint256 (au_quorumHash p) @ BLS_ToBytes bls (au_quorumSig p) legacy"

definition read_asset_unlock :: "'g bls_scheme \<Rightarrow> bool \<Rightarrow> 'g CAssetUnlockPayload reader" where
  "read_asset_unlock bls legacy =
     rbind ser_readdata8 (\<lambda>v. rbind ser_readdata64 (\<lambda>i. rbind ser_readdata32 (\<lambda>f. rbind ser_readdata32 (\<lambda>h.
     rbind read_uint256 (\<lambda>q. rbind (BLS_Unserialize bls legacy) (\<lambda>sig.
       rreturn \<lparr>au_nVersion = v, au_index = i, au_fee = f, au_requestedHeight = h, au_quorumHash = q, au_quorumSig = sig\<rparr>))))))"

text \<open>\<open>GetTxPayload\<close>: the whole payload of a transaction of the type, or nothing.\<close>

definition GetTxPayload :: "'a reader \<Rightarrow> nat \<Rightarrow> CTransaction \<Rightarrow> 'a option" where
  "GetTxPayload rd SPECIALTX_TYPE tx =
     (if nType tx \<noteq> SPECIALTX_TYPE then None
      else case rd (vExtraPayload tx) of
             Inl _ \<Rightarrow> None
           | Inr (obj, ds) \<Rightarrow> if ds = [] then Some obj else None)"

section \<open>Rules\<close>

definition IsPayToPublicKeyHash :: "bytes \<Rightarrow> bool" where
  "IsPayToPublicKeyHash s \<longleftrightarrow> length s = 25 \<and> s ! 0 = OP_DUP \<and> s ! 1 = OP_HASH160 \<and> s ! 2 = 0x14
     \<and> s ! 23 = OP_EQUALVERIFY \<and> s ! 24 = OP_CHECKSIG"

definition bad_special :: "string \<Rightarrow> tx_error + 'a" where
  "bad_special reason = Inl (TxInvalid TX_BAD_SPECIAL reason)"

primrec lock_return_loop :: "CTxOut list \<Rightarrow> CAmount \<Rightarrow> tx_error + CAmount" where
  "lock_return_loop [] returnAmount = Inr returnAmount"
| "lock_return_loop (txout # outs) returnAmount =
     (let script = scriptPubKey txout
      in if script = [] \<or> script ! 0 \<noteq> OP_RETURN then lock_return_loop outs returnAmount
         else if length script \<noteq> 2 \<or> script ! 1 \<noteq> 0 then bad_special ''bad-assetlocktx-non-empty-return''
         else if out_nValue txout = 0 \<or> \<not> MoneyRange (out_nValue txout) then bad_special ''bad-assetlocktx-opreturn-outofrange''
         else if returnAmount > 0 then bad_special ''bad-assetlocktx-multiple-return''
         else lock_return_loop outs (out_nValue txout))"

primrec lock_credit_loop :: "CTxOut list \<Rightarrow> CAmount \<Rightarrow> tx_error + CAmount" where
  "lock_credit_loop [] creditOutputsAmount = Inr creditOutputsAmount"
| "lock_credit_loop (out # outs) creditOutputsAmount =
     (if out_nValue out = 0 \<or> \<not> MoneyRange (out_nValue out) \<or> \<not> MoneyRange (creditOutputsAmount + out_nValue out)
      then bad_special ''bad-assetlocktx-credit-outofrange''
      else if \<not> IsPayToPublicKeyHash (scriptPubKey out) then bad_special ''bad-assetlocktx-pubKeyHash''
      else lock_credit_loop outs (creditOutputsAmount + out_nValue out))"

definition AssetLock_CURRENT_VERSION :: u8 where "AssetLock_CURRENT_VERSION = 1"

definition CheckAssetLockTx :: "CTransaction \<Rightarrow> tx_error + unit" where
  "CheckAssetLockTx tx =
     (if nType tx \<noteq> TRANSACTION_ASSET_LOCK then bad_special ''bad-assetlocktx-type''
      else case lock_return_loop (vout tx) 0 of
        Inl e \<Rightarrow> Inl e
      | Inr returnAmount \<Rightarrow>
          if returnAmount = 0 then bad_special ''bad-assetlocktx-no-return''
          else case GetTxPayload read_asset_lock TRANSACTION_ASSET_LOCK tx of
            None \<Rightarrow> bad_special ''bad-assetlocktx-payload''
          | Some assetLockTx \<Rightarrow>
              if al_nVersion assetLockTx = 0 \<or> al_nVersion assetLockTx > AssetLock_CURRENT_VERSION
              then bad_special ''bad-assetlocktx-version''
              else if al_creditOutputs assetLockTx = [] then bad_special ''bad-assetlocktx-emptycreditoutputs''
              else case lock_credit_loop (al_creditOutputs assetLockTx) 0 of
                Inl e \<Rightarrow> Inl e
              | Inr creditOutputsAmount \<Rightarrow>
                  if creditOutputsAmount \<noteq> returnAmount then bad_special ''bad-assetlocktx-creditamount'' else Inr ())"

definition GetAssetUnlockFee :: "'g bls_scheme \<Rightarrow> bool \<Rightarrow> CTransaction \<Rightarrow> tx_error + CAmount" where
  "GetAssetUnlockFee bls legacy tx =
     (case GetTxPayload (read_asset_unlock bls legacy) TRANSACTION_ASSET_UNLOCK tx of
        None \<Rightarrow> bad_special ''bad-assetunlocktx-payload''
      | Some assetUnlockTx \<Rightarrow>
          let txfee_aux = uint (au_fee assetUnlockTx)
          in if txfee_aux = 0 \<or> \<not> MoneyRange txfee_aux
             then Inl (TxInvalid TX_CONSENSUS ''bad-txns-assetunlock-fee-outofrange'')
             else Inr txfee_aux)"

section \<open>Properties\<close>

lemma lock_return_loop_Inr:
  assumes "lock_return_loop outs r = Inr sm" "0 \<le> r"
  shows "\<exists>returns. filter (\<lambda>t. scriptPubKey t \<noteq> [] \<and> hd (scriptPubKey t) = OP_RETURN) outs = returns \<and>
    (\<forall>t \<in> set returns. scriptPubKey t = [OP_RETURN, 0] \<and> 0 < out_nValue t \<and> out_nValue t \<le> MAX_MONEY) \<and>
    sm = r + sum_list (map out_nValue returns) \<and> (0 < r \<longrightarrow> returns = []) \<and> length returns \<le> 1"
  using assms
proof (induction outs arbitrary: r)
  case (Cons t outs)
  show ?case
  proof (cases "scriptPubKey t \<noteq> [] \<and> hd (scriptPubKey t) = OP_RETURN")
    case False
    then have "lock_return_loop outs r = Inr sm"
      using Cons.prems(1) by (auto simp: Let_def hd_conv_nth split: if_splits)
    from Cons.IH [OF this Cons.prems(2)] show ?thesis using False by auto
  next
    case True
    then have "scriptPubKey t ! 0 = OP_RETURN" using hd_conv_nth [of "scriptPubKey t"] by auto
    then have l: "length (scriptPubKey t) = 2" "scriptPubKey t ! 1 = 0" "out_nValue t \<noteq> 0" "MoneyRange (out_nValue t)"
        "\<not> 0 < r" "lock_return_loop outs (out_nValue t) = Inr sm"
      using True Cons.prems(1) by (auto simp: Let_def bad_special_def split: if_splits)
    then have "0 < out_nValue t" "out_nValue t \<le> MAX_MONEY" by (auto simp: MoneyRange_def)
    moreover have "scriptPubKey t = [OP_RETURN, 0]"
      using l(1,2) True by (auto simp: length_Suc_conv numeral_2_eq_2)
    ultimately show ?thesis
      using Cons.IH [OF l(6)] l(5) Cons.prems(2) True by auto
  qed
qed simp

lemma lock_credit_loop_Inr:
  assumes "lock_credit_loop outs c = Inr sm"
  shows "(\<forall>t \<in> set outs. 0 < out_nValue t \<and> IsPayToPublicKeyHash (scriptPubKey t)) \<and> sm = c + sum_list (map out_nValue outs)"
  using assms
  by (induction outs arbitrary: c) (force simp: bad_special_def MoneyRange_def split: if_splits)+

text \<open>
  C37: an accepted asset lock burns in exactly one output what it credits: the value of its only output that starts
  with OP_RETURN is the sum of the credit outputs of its payload, all of them positive and paid to key hashes.
\<close>

theorem asset_lock_balanced:
  assumes "CheckAssetLockTx tx = Inr ()"
  shows "\<exists>t p. filter (\<lambda>t. scriptPubKey t \<noteq> [] \<and> hd (scriptPubKey t) = OP_RETURN) (vout tx) = [t] \<and>
    vExtraPayload tx = write_asset_lock p \<and> al_nVersion p = 1 \<and> al_creditOutputs p \<noteq> [] \<and>
    out_nValue t = sum_list (map out_nValue (al_creditOutputs p)) \<and> 0 < out_nValue t \<and> out_nValue t \<le> MAX_MONEY \<and>
    (\<forall>c \<in> set (al_creditOutputs p). 0 < out_nValue c \<and> IsPayToPublicKeyHash (scriptPubKey c))"
proof -
  obtain r p where r: "lock_return_loop (vout tx) 0 = Inr r" "r \<noteq> 0"
      and p: "GetTxPayload read_asset_lock TRANSACTION_ASSET_LOCK tx = Some p" "al_nVersion p \<noteq> 0" "al_nVersion p \<le> 1"
      and c: "al_creditOutputs p \<noteq> []" "lock_credit_loop (al_creditOutputs p) 0 = Inr r"
    using assms
    by (auto simp: CheckAssetLockTx_def bad_special_def AssetLock_CURRENT_VERSION_def split: if_splits sum.splits option.splits)
  have v: "al_nVersion p = 1"
    using p(2,3) by (simp add: word_le_nat_alt word_unat_eq_iff)
  have "vExtraPayload tx = write_asset_lock p"
    using p(1)
    by (auto simp: GetTxPayload_def read_asset_lock_def write_asset_lock_def byte_codec.bind_Inr vout_codec.bind_Inr rreturn_def
        split: if_splits sum.splits)
  moreover obtain rs where rs: "filter (\<lambda>t. scriptPubKey t \<noteq> [] \<and> hd (scriptPubKey t) = OP_RETURN) (vout tx) = rs"
      "\<forall>t \<in> set rs. scriptPubKey t = [OP_RETURN, 0] \<and> 0 < out_nValue t \<and> out_nValue t \<le> MAX_MONEY"
      "r = sum_list (map out_nValue rs)" "length rs \<le> 1"
    using lock_return_loop_Inr [OF r(1)] by auto
  moreover obtain t where "rs = [t]"
    using rs(3,4) r(2) by (cases rs) auto
  ultimately show ?thesis
    using lock_credit_loop_Inr [OF c(2)] c(1) v by (intro exI [of _ t] exI [of _ p]) simp
qed

definition key_hash_script :: "u8 \<Rightarrow> bytes" where
  "key_hash_script b = [OP_DUP, OP_HASH160, 0x14] @ replicate 20 b @ [OP_EQUALVERIFY, OP_CHECKSIG]"

definition lock_payload :: CAssetLockPayload where
  "lock_payload = \<lparr>al_nVersion = 1, al_creditOutputs =
     [\<lparr>out_nValue = 2, scriptPubKey = key_hash_script 1\<rparr>, \<lparr>out_nValue = 3, scriptPubKey = key_hash_script 2\<rparr>]\<rparr>"

definition lock_tx :: CTransaction where
  "lock_tx = \<lparr>tx_hash = UInt256 (replicate 32 5), nVersion = 3, nType = 8,
     vin = [\<lparr>prevout = COutPoint (UInt256 (replicate 32 7)) 1, scriptSig = [], nSequence = 0\<rparr>],
     vout = [\<lparr>out_nValue = 9, scriptPubKey = [0x51]\<rparr>, \<lparr>out_nValue = 5, scriptPubKey = [0x6a, 0]\<rparr>],
     nLockTime = 0, vExtraPayload = write_asset_lock lock_payload\<rparr>"

lemma lock_tx_accepted: "CheckAssetLockTx lock_tx = Inr ()"
proof -
  have vout_codec_ok: "list_all txout_ok (al_creditOutputs lock_payload) \<and> length (al_creditOutputs lock_payload) \<le> MAX_SIZE"
    by (simp add: lock_payload_def txout_ok_def in_i64_def INT64_MAX_def key_hash_script_def MAX_SIZE_def)
  have "read_asset_lock (write_asset_lock lock_payload) = Inr (lock_payload, [])"
    by (simp add: read_asset_lock_def write_asset_lock_def byte_codec.bind_write
        vout_codec.bind_write_end [OF vout_codec_ok] rreturn_def)
  then have "GetTxPayload read_asset_lock TRANSACTION_ASSET_LOCK lock_tx = Some lock_payload"
    by (simp add: GetTxPayload_def lock_tx_def TRANSACTION_ASSET_LOCK_def)
  then show ?thesis
    by (simp add: CheckAssetLockTx_def)
      (simp add: lock_tx_def lock_payload_def TRANSACTION_ASSET_LOCK_def opcodes MoneyRange_def MAX_MONEY_def COIN_def
        AssetLock_CURRENT_VERSION_def IsPayToPublicKeyHash_def key_hash_script_def nth_append)
qed

theorem asset_lock_balanced_witness:
  "CheckAssetLockTx lock_tx = Inr () \<and>
   (\<exists>p. vExtraPayload lock_tx = write_asset_lock p \<and> sum_list (map out_nValue (al_creditOutputs p)) = 5)"
  using asset_lock_balanced [OF lock_tx_accepted] lock_tx_accepted by (auto simp: lock_tx_def OP_RETURN_def)

text \<open>The fee of an unlock: a signature must be one the library writes and reads back; only a zero fee is out of range.\<close>

definition bls_sig_ok :: "'g bls_scheme \<Rightarrow> bool \<Rightarrow> 'g CBLSSignature \<Rightarrow> bool" where
  "bls_sig_ok bls legacy sig \<longleftrightarrow>
     (case sig of None \<Rightarrow> True
      | Some g \<Rightarrow> length (SerializeToArray bls g legacy) = SerSize \<and> \<not> list_all (\<lambda>c. c = 0) (SerializeToArray bls g legacy) \<and>
          FromBytes bls (SerializeToArray bls g legacy) legacy = Some g)"

lemma BLS_roundtrip:
  assumes "bls_sig_ok bls legacy sig"
  shows "BLS_Unserialize bls legacy (BLS_ToBytes bls sig legacy @ rest) = Inr (sig, rest)"
proof -
  let ?b = "BLS_ToBytes bls sig legacy"
  have b: "length ?b = SerSize" "BLS_SetBytes bls ?b legacy = sig"
    using assms by (auto simp: bls_sig_ok_def BLS_ToBytes_def BLS_SetBytes_def list_all_iff split: option.splits)
  have "stream_read SerSize (?b @ rest) = Inr (?b, rest)"
    using b(1) by (simp add: stream_read_def SerSize_def)
  then show ?thesis
    by (simp add: BLS_Unserialize_def rbind_def b(2) BLS_CheckMalleable_def rreturn_def)
qed

lemma asset_unlock_fee:
  assumes "nType tx = TRANSACTION_ASSET_UNLOCK" "vExtraPayload tx = write_asset_unlock bls legacy p"
    and "bls_sig_ok bls legacy (au_quorumSig p)" "length (m_data (au_quorumHash p)) = 32"
  shows "GetAssetUnlockFee bls legacy tx =
    (if au_fee p = 0 then Inl (TxInvalid TX_CONSENSUS ''bad-txns-assetunlock-fee-outofrange'') else Inr (uint (au_fee p)))"
proof -
  have bls: "rbind (BLS_Unserialize bls legacy) f (BLS_ToBytes bls (au_quorumSig p) legacy) = f (au_quorumSig p) []" for f
    using BLS_roundtrip [OF assms(3), of "[]"] by (simp add: rbind_def)
  have "read_asset_unlock bls legacy (vExtraPayload tx) = Inr (p, [])"
    using assms(2,4)
    by (simp add: bls read_asset_unlock_def write_asset_unlock_def byte_codec.bind_write u64_codec.bind_write
        u32_codec.bind_write uint256_codec.bind_write rreturn_def)
  moreover have "0 \<le> uint (au_fee p)" "uint (au_fee p) < 2 ^ 32" using unsigned_less [of "au_fee p"] by simp_all
  ultimately show ?thesis
    using assms(1) by (auto simp: GetAssetUnlockFee_def GetTxPayload_def MoneyRange_def MAX_MONEY_def COIN_def uint_0_iff)
qed

end
