(* ===== verification/TxRules.thy ===== *)
theory TxRules
  imports AssetTx CoinsView
begin

text \<open>
  The rules every transaction obeys: \<open>src/consensus/tx_check.cpp\<close>, \<open>GetValueOut\<close> of
  \<open>src/primitives/transaction.cpp\<close>, and \<open>IsFinalTx\<close> and \<open>CheckTxInputs\<close> of
  \<open>src/consensus/tx_verify.cpp\<close>. An error is a verdict of \<open>AssetTx\<close>.
\<close>

section \<open>Rules without context\<close>

definition MAX_LEGACY_BLOCK_SIZE :: nat where "MAX_LEGACY_BLOCK_SIZE = 1000000"
definition MAX_TX_EXTRA_PAYLOAD :: nat where "MAX_TX_EXTRA_PAYLOAD = 10000"

definition bad_consensus :: "string \<Rightarrow> tx_error + 'a" where
  "bad_consensus reason = Inl (TxInvalid TX_CONSENSUS reason)"

text \<open>The loop over the outputs.\<close>

primrec check_outputs :: "CTxOut list \<Rightarrow> CAmount \<Rightarrow> tx_error + CAmount" where
  "check_outputs [] nValueOut = Inr nValueOut"
| "check_outputs (txout # outs) nValueOut =
     (if out_nValue txout < 0 then bad_consensus ''bad-txns-vout-negative''
      else if out_nValue txout > MAX_MONEY then bad_consensus ''bad-txns-vout-toolarge''
      else let nValueOut = nValueOut + out_nValue txout
           in if \<not> MoneyRange nValueOut then bad_consensus ''bad-txns-txouttotal-toolarge''
              else check_outputs outs nValueOut)"

text \<open>The loop that inserts the outpoints into a set.\<close>

primrec check_duplicates :: "CTxIn list \<Rightarrow> COutPoint set \<Rightarrow> tx_error + COutPoint set" where
  "check_duplicates [] vInOutPoints = Inr vInOutPoints"
| "check_duplicates (txin # ins) vInOutPoints =
     (if prevout txin \<in> vInOutPoints then bad_consensus ''bad-txns-inputs-duplicate''
      else check_duplicates ins (insert (prevout txin) vInOutPoints))"

definition CheckTransaction :: "CTransaction \<Rightarrow> tx_error + unit" where
  "CheckTransaction tx =
     (let both = (nType tx = TRANSACTION_QUORUM_COMMITMENT \<or> nType tx = TRANSACTION_MNHF_SIGNAL);
          allowEmptyTxIn = (both \<or> nType tx = TRANSACTION_ASSET_UNLOCK);
          allowEmptyTxOut = both
      in if \<not> allowEmptyTxIn \<and> vin tx = [] then bad_consensus ''bad-txns-vin-empty''
         else if \<not> allowEmptyTxOut \<and> vout tx = [] then bad_consensus ''bad-txns-vout-empty''
         else if GetTotalSize tx > MAX_LEGACY_BLOCK_SIZE then bad_consensus ''bad-txns-oversize''
         else if length (vExtraPayload tx) > MAX_TX_EXTRA_PAYLOAD then bad_consensus ''bad-txns-payload-oversize''
         else case check_outputs (vout tx) 0 of Inl e \<Rightarrow> Inl e
         | Inr _ \<Rightarrow>
         (case check_duplicates (vin tx) {} of Inl e \<Rightarrow> Inl e
         | Inr _ \<Rightarrow>
           if IsCoinBase tx then
             let minCbSize = (if nType tx = TRANSACTION_COINBASE then 1 else 2); s = length (scriptSig (hd (vin tx)))
             in if s < minCbSize \<or> s > 100 then bad_consensus ''bad-cb-length'' else Inr ()
           else if list_ex (\<lambda>txin. COutPoint_IsNull (prevout txin)) (vin tx)
           then bad_consensus ''bad-txns-prevout-null'' else Inr ()))"

text \<open>\<open>CTransaction::GetValueOut\<close>; the assertion after the loop is \<open>TxAssertion\<close>.\<close>

primrec value_out_loop :: "CTxOut list \<Rightarrow> CAmount \<Rightarrow> tx_error + CAmount" where
  "value_out_loop [] nValueOut = Inr nValueOut"
| "value_out_loop (txout # outs) nValueOut =
     (if \<not> MoneyRange (out_nValue txout) \<or> \<not> MoneyRange (nValueOut + out_nValue txout)
      then Inl (TxThrow ''GetValueOut: value out of range'')
      else value_out_loop outs (nValueOut + out_nValue txout))"

definition GetValueOut :: "CTransaction \<Rightarrow> tx_error + CAmount" where
  "GetValueOut tx =
     (case value_out_loop (vout tx) 0 of Inl e \<Rightarrow> Inl e
      | Inr nValueOut \<Rightarrow> if MoneyRange nValueOut then Inr nValueOut else Inl TxAssertion)"

section \<open>Finality\<close>

definition LOCKTIME_THRESHOLD :: int where "LOCKTIME_THRESHOLD = 500000000"
definition SEQUENCE_FINAL :: u32 where "SEQUENCE_FINAL = 0xffffffff"

definition IsFinalTx :: "CTransaction \<Rightarrow> int \<Rightarrow> int \<Rightarrow> bool" where
  "IsFinalTx tx nBlockHeight nBlockTime =
     (if nLockTime tx = 0 then True
      else if uint (nLockTime tx) < (if uint (nLockTime tx) < LOCKTIME_THRESHOLD then nBlockHeight else nBlockTime) then True
      else list_all (\<lambda>txin. nSequence txin = SEQUENCE_FINAL) (vin tx))"

section \<open>Inputs\<close>

definition COINBASE_MATURITY :: int where "COINBASE_MATURITY = 100"

primrec check_inputs_loop ::
  "'v view_ops \<Rightarrow> (bytes \<Rightarrow> u64) \<Rightarrow> int \<Rightarrow> CTxIn list \<Rightarrow> CAmount \<Rightarrow> 'v coins_cache \<Rightarrow> (tx_error + CAmount) \<times> 'v coins_cache"
where
  "check_inputs_loop ops du nSpendHeight [] nValueIn c = (Inr nValueIn, c)"
| "check_inputs_loop ops du nSpendHeight (txin # ins) nValueIn c =
     (let (coin, c) = AccessCoin ops du (prevout txin) c
      in if IsSpent coin then (Inl TxAssertion, c)
         else if coin_fCoinBase coin \<and> nSpendHeight - uint (coin_nHeight coin) < COINBASE_MATURITY
         then (Inl (TxInvalid TX_PREMATURE_SPEND ''bad-txns-premature-spend-of-coinbase''), c)
         else (case i64 (nValueIn + out_nValue (coin_out coin)) of
           None \<Rightarrow> (Inl TxOverflow, c)
         | Some nValueIn \<Rightarrow>
             if \<not> MoneyRange (out_nValue (coin_out coin)) \<or> \<not> MoneyRange nValueIn
             then (bad_consensus ''bad-txns-inputvalues-outofrange'', c)
             else check_inputs_loop ops du nSpendHeight ins nValueIn c))"

definition CheckTxInputs ::
  "'v view_ops \<Rightarrow> (bytes \<Rightarrow> u64) \<Rightarrow> 'g bls_scheme \<Rightarrow> bool \<Rightarrow> CTransaction \<Rightarrow> int \<Rightarrow> 'v coins_cache
     \<Rightarrow> (tx_error + CAmount) \<times> 'v coins_cache"
where
  "CheckTxInputs ops du bls legacy tx nSpendHeight c =
     (if nVersion tx \<ge> SPECIAL_VERSION \<and> nType tx = TRANSACTION_ASSET_UNLOCK then (GetAssetUnlockFee bls legacy tx, c)
      else
        let (have, c) = HaveInputs ops du tx c
        in if \<not> have then (Inl (TxInvalid TX_MISSING_INPUTS ''bad-txns-inputs-missingorspent''), c)
           else (case check_inputs_loop ops du nSpendHeight (vin tx) 0 c of
             (Inl e, c) \<Rightarrow> (Inl e, c)
           | (Inr nValueIn, c) \<Rightarrow>
               (case GetValueOut tx of
                  Inl e \<Rightarrow> (Inl e, c)
                | Inr value_out \<Rightarrow>
                    if nValueIn < value_out then (bad_consensus ''bad-txns-in-belowout'', c)
                    else let txfee_aux = nValueIn - value_out
                         in if \<not> MoneyRange txfee_aux then (bad_consensus ''bad-txns-fee-outofrange'', c)
                            else (Inr txfee_aux, c))))"

section \<open>Lemmas\<close>

lemma bad_consensus_if [simp]:
  "(if P then bad_consensus reason else r) = Inr x \<longleftrightarrow> \<not> P \<and> r = Inr x"
  "bad_consensus reason \<noteq> Inr x"
  by (simp_all add: bad_consensus_def)

lemma check_outputs_Inr:
  assumes "0 \<le> v" "v \<le> MAX_MONEY"
  shows "(\<exists>r. check_outputs outs v = Inr r) \<longleftrightarrow> list_all (\<lambda>t. 0 \<le> out_nValue t) outs \<and> v + sum_list (map out_nValue outs) \<le> MAX_MONEY"
  using assms
proof (induction outs arbitrary: v)
  case (Cons t outs)
  have s: "list_all (\<lambda>t. 0 \<le> out_nValue t) outs \<Longrightarrow> 0 \<le> sum_list (map out_nValue outs)"
    by (intro sum_list_nonneg) (auto simp: list_all_iff)
  show ?case
  proof (cases "0 \<le> out_nValue t \<and> v + out_nValue t \<le> MAX_MONEY")
    case True
    then have "check_outputs (t # outs) v = check_outputs outs (v + out_nValue t)"
      using Cons.prems by (simp add: MoneyRange_def)
    with Cons.IH [of "v + out_nValue t"] Cons.prems True show ?thesis by (simp add: add.assoc)
  next
    case False
    with Cons.prems s show ?thesis by (auto simp: bad_consensus_def MoneyRange_def)
  qed
qed simp

lemma check_duplicates_Inr:
  "(\<exists>r. check_duplicates ins S = Inr r) \<longleftrightarrow> distinct (map prevout ins) \<and> prevout ` set ins \<inter> S = {}"
  by (induction ins arbitrary: S) (auto simp: bad_consensus_def)

lemma value_out_loop_Inr:
  assumes "0 \<le> v" "v \<le> MAX_MONEY"
  shows "value_out_loop outs v =
    (if list_all (\<lambda>t. 0 \<le> out_nValue t) outs \<and> v + sum_list (map out_nValue outs) \<le> MAX_MONEY
     then Inr (v + sum_list (map out_nValue outs)) else Inl (TxThrow ''GetValueOut: value out of range''))"
  using assms
proof (induction outs arbitrary: v)
  case (Cons t outs)
  have s: "list_all (\<lambda>t. 0 \<le> out_nValue t) outs \<Longrightarrow> 0 \<le> sum_list (map out_nValue outs)"
    by (intro sum_list_nonneg) (auto simp: list_all_iff)
  show ?case
  proof (cases "0 \<le> out_nValue t \<and> v + out_nValue t \<le> MAX_MONEY")
    case True
    then have "value_out_loop (t # outs) v = value_out_loop outs (v + out_nValue t)"
      using Cons.prems by (simp add: MoneyRange_def)
    with Cons.IH [of "v + out_nValue t"] Cons.prems True show ?thesis by (simp add: add.assoc)
  next
    case False
    with Cons.prems s show ?thesis by (auto simp: MoneyRange_def)
  qed
qed simp

lemma GetValueOut_eq:
  "GetValueOut tx =
    (if list_all (\<lambda>t. 0 \<le> out_nValue t) (vout tx) \<and> sum_list (map out_nValue (vout tx)) \<le> MAX_MONEY
     then Inr (sum_list (map out_nValue (vout tx))) else Inl (TxThrow ''GetValueOut: value out of range''))"
proof -
  have "list_all (\<lambda>t. 0 \<le> out_nValue t) (vout tx) \<Longrightarrow> 0 \<le> sum_list (map out_nValue (vout tx))"
    by (intro sum_list_nonneg) (auto simp: list_all_iff)
  then show ?thesis
    using value_out_loop_Inr [of 0 "vout tx"] by (simp add: GetValueOut_def MoneyRange_def MAX_MONEY_def COIN_def)
qed

context coins_cache_base
begin

lemma check_inputs_loop_spec:
  assumes "cinv c" "check_inputs_loop ops du h ins v c = (r, c')" "0 \<le> v" "v \<le> MAX_MONEY"
  shows "cinv c' \<and> cutxo c' = cutxo c \<and> cbest c' = cbest c \<and>
    (\<forall>s. r = Inr s \<longrightarrow> (\<forall>i \<in> set ins. \<exists>coin. cutxo c (prevout i) = Some coin \<and> 0 \<le> out_nValue (coin_out coin) \<and>
        (coin_fCoinBase coin \<longrightarrow> uint (coin_nHeight coin) + COINBASE_MATURITY \<le> h)) \<and>
      s = v + sum_list (map (\<lambda>i. out_nValue (coin_out (the (cutxo c (prevout i))))) ins) \<and> s \<le> MAX_MONEY)"
  using assms
proof (induction ins arbitrary: c v)
  case (Cons i ins)
  obtain coin d where a: "AccessCoin ops du (prevout i) c = (coin, d)" by fastforce
  note as = AccessCoin_spec [OF Cons.prems(1) a]
  let ?x = "out_nValue (coin_out coin)"
  show ?case
  proof (cases "\<not> IsSpent coin \<and> \<not> (coin_fCoinBase coin \<and> h - uint (coin_nHeight coin) < COINBASE_MATURITY) \<and>
      i64 (v + ?x) \<noteq> None \<and> MoneyRange ?x \<and> MoneyRange (v + ?x)")
    case False
    then have "c' = d \<and> (\<exists>e. r = Inl e)"
      using Cons.prems(2) a
      by (auto simp: bad_consensus_def i64_eq_Some split: if_splits option.splits)
    then show ?thesis using as by auto
  next
    case True
    then have "i64 (v + ?x) = Some (v + ?x)" by (auto simp: i64_eq_Some)
    then have l: "check_inputs_loop ops du h ins (v + ?x) d = (r, c')"
      using True Cons.prems(2) a by auto
    have coin: "cutxo c (prevout i) = Some coin"
      using as(1) True by (auto split: option.splits)
    have m: "0 \<le> ?x" "0 \<le> v + ?x" "v + ?x \<le> MAX_MONEY" using True by (simp_all add: MoneyRange_def)
    have age: "coin_fCoinBase coin \<longrightarrow> uint (coin_nHeight coin) + COINBASE_MATURITY \<le> h" using True by auto
    from Cons.IH [OF as(2) l m(2,3)] show ?thesis
      by (simp add: as(3,4) coin m(1) age add.assoc)
  qed
qed auto

end

section \<open>Properties\<close>

text \<open>
  C38: which transactions \<open>CheckTransaction\<close> accepts, over all its branches; its outputs are then within the money
  range, so that \<open>GetValueOut\<close> does not throw on them.
\<close>

theorem check_transaction_rules:
  "CheckTransaction tx = Inr () \<longleftrightarrow>
    (nType tx \<in> {TRANSACTION_QUORUM_COMMITMENT, TRANSACTION_MNHF_SIGNAL, TRANSACTION_ASSET_UNLOCK} \<or> 0 < length (vin tx)) \<and>
    (nType tx \<in> {TRANSACTION_QUORUM_COMMITMENT, TRANSACTION_MNHF_SIGNAL} \<or> 0 < length (vout tx)) \<and>
    GetTotalSize tx \<le> MAX_LEGACY_BLOCK_SIZE \<and> length (vExtraPayload tx) \<le> MAX_TX_EXTRA_PAYLOAD \<and>
    list_all (\<lambda>t. 0 \<le> out_nValue t) (vout tx) \<and> GetValueOut tx = Inr (sum_list (map out_nValue (vout tx))) \<and>
    distinct (map prevout (vin tx)) \<and>
    (if IsCoinBase tx
     then (if nType tx = TRANSACTION_COINBASE then 1 else 2) \<le> length (scriptSig (hd (vin tx))) \<and> length (scriptSig (hd (vin tx))) \<le> 100
     else list_all (\<lambda>i. \<not> COutPoint_IsNull (prevout i)) (vin tx))"
proof -
  have o: "(\<exists>r. check_outputs (vout tx) 0 = Inr r) \<longleftrightarrow>
      list_all (\<lambda>t. 0 \<le> out_nValue t) (vout tx) \<and> sum_list (map out_nValue (vout tx)) \<le> MAX_MONEY"
    using check_outputs_Inr [of 0 "vout tx"] by (simp add: MAX_MONEY_def COIN_def)
  have d: "(\<exists>r. check_duplicates (vin tx) {} = Inr r) \<longleftrightarrow> distinct (map prevout (vin tx))"
    using check_duplicates_Inr [of "vin tx" "{}"] by simp
  have all: "list_ex (\<lambda>i. COutPoint_IsNull (prevout i)) (vin tx) = (\<not> list_all (\<lambda>i. \<not> COutPoint_IsNull (prevout i)) (vin tx))"
    by (auto simp: list_ex_iff list_all_iff)
  show ?thesis
  proof (cases "(\<exists>r. check_outputs (vout tx) 0 = Inr r) \<and> (\<exists>r. check_duplicates (vin tx) {} = Inr r)")
    case True
    then obtain r1 r2 where r: "check_outputs (vout tx) 0 = Inr r1" "check_duplicates (vin tx) {} = Inr r2" by blast
    show ?thesis
      using True unfolding o d GetValueOut_eq
      by (simp add: CheckTransaction_def r Let_def all not_less)
  next
    case False
    then have "CheckTransaction tx \<noteq> Inr ()"
      by (auto simp: CheckTransaction_def bad_consensus_def Let_def split: sum.splits)
    then show ?thesis using False unfolding o d by (auto simp: GetValueOut_eq)
  qed
qed

end
