(* ===== verification/Undo.thy ===== *)
theory Undo
  imports CoinsProps TxRules
begin

text \<open>
  Undo data: \<open>src/undo.h\<close>, and the two functions of \<open>src/node/blockstorage.cpp\<close> that write the undo data of a block
  to a file with a checksum and read it back.
\<close>

section \<open>Undo data\<close>

record CTxUndo =
  vprevout :: "Coin list"

record CBlockUndo =
  vtxundo :: "CTxUndo list"

text \<open>
  \<open>None\<close> is a failed assertion of the writer, \<open>Inl ()\<close> in the result one of the reader. The code is a product and a sum
  in 32 bits.
\<close>

definition undo_code :: "Coin \<Rightarrow> u32" where
  "undo_code txout = ucast (coin_nHeight txout) * 2 + of_bool (coin_fCoinBase txout)"

definition TxInUndo_Ser :: "(CPubKey \<Rightarrow> bool) \<Rightarrow> Coin \<Rightarrow> bytes option" where
  "TxInUndo_Ser fully_valid txout =
     Option.bind (TxOutCompression_Ser fully_valid (coin_out txout)) (\<lambda>w.
       Some (WriteVarInt (undo_code txout) @ (if coin_nHeight txout > 0 then [0] else []) @ w))"

definition TxInUndo_Unser :: "(CPubKey \<Rightarrow> CPubKey option) \<Rightarrow> (unit + Coin) reader" where
  "TxInUndo_Unser decompress =
     rbind (ReadVarInt :: u32 reader) (\<lambda>nCode.
       let nHeight = ucast (drop_bit 1 nCode); fCoinBase = (nCode AND 1 \<noteq> 0)
       in rbind (if nHeight > 0 then ReadVarInt :: u32 reader else rreturn 0) (\<lambda>_.
          rbind (TxOutCompression_Unser decompress (coin_out coinEmpty)) (\<lambda>t.
            rreturn (case t of Inl _ \<Rightarrow> Inl ()
                     | Inr t \<Rightarrow> Inr \<lparr>coin_out = t, coin_fCoinBase = fCoinBase, coin_nHeight = nHeight\<rparr>))))"

text \<open>Vectors of such elements.\<close>

primrec write_checked :: "('a \<Rightarrow> bytes option) \<Rightarrow> 'a list \<Rightarrow> bytes option" where
  "write_checked wr [] = Some []"
| "write_checked wr (x # xs) = Option.bind (wr x) (\<lambda>w. Option.bind (write_checked wr xs) (\<lambda>ws. Some (w @ ws)))"

primrec read_checked :: "(unit + 'a) reader \<Rightarrow> nat \<Rightarrow> (unit + 'a list) reader" where
  "read_checked rd 0 = rreturn (Inr [])"
| "read_checked rd (Suc n) =
     rbind rd (\<lambda>r. case r of
       Inl _ \<Rightarrow> rreturn (Inl ())
     | Inr x \<Rightarrow> rbind (read_checked rd n) (\<lambda>r. rreturn (map_sum id ((#) x) r)))"

definition write_checked_vector :: "('a \<Rightarrow> bytes option) \<Rightarrow> 'a list \<Rightarrow> bytes option" where
  "write_checked_vector wr xs = map_option (\<lambda>ws. WriteCompactSize (length xs) @ ws) (write_checked wr xs)"

definition read_checked_vector :: "(unit + 'a) reader \<Rightarrow> (unit + 'a list) reader" where
  "read_checked_vector rd = rbind (ReadCompactSize True) (read_checked rd)"

definition CTxUndo_Ser :: "(CPubKey \<Rightarrow> bool) \<Rightarrow> CTxUndo \<Rightarrow> bytes option" where
  "CTxUndo_Ser fv u = write_checked_vector (TxInUndo_Ser fv) (vprevout u)"

definition CTxUndo_Unser :: "(CPubKey \<Rightarrow> CPubKey option) \<Rightarrow> (unit + CTxUndo) reader" where
  "CTxUndo_Unser dec =
     rbind (read_checked_vector (TxInUndo_Unser dec)) (\<lambda>r. rreturn (map_sum id (\<lambda>cs. \<lparr>vprevout = cs\<rparr>) r))"

definition CBlockUndo_Ser :: "(CPubKey \<Rightarrow> bool) \<Rightarrow> CBlockUndo \<Rightarrow> bytes option" where
  "CBlockUndo_Ser fv u = write_checked_vector (CTxUndo_Ser fv) (vtxundo u)"

definition CBlockUndo_Unser :: "(CPubKey \<Rightarrow> CPubKey option) \<Rightarrow> (unit + CBlockUndo) reader" where
  "CBlockUndo_Unser dec =
     rbind (read_checked_vector (CTxUndo_Unser dec)) (\<lambda>r. rreturn (map_sum id (\<lambda>us. \<lparr>vtxundo = us\<rparr>) r))"

section \<open>The file of undo data\<close>

text \<open>
  The record \<open>UndoWriteToDisk\<close> appends: the index header and, from \<open>pos.nPos\<close> on, the undo data with the hash of
  the previous block's hash and the data. \<open>None\<close> is a failed assertion of the writer.
\<close>

definition UndoWriteToDisk ::
  "(CPubKey \<Rightarrow> bool) \<Rightarrow> (bytes \<Rightarrow> uint256) \<Rightarrow> bytes \<Rightarrow> uint256 \<Rightarrow> CBlockUndo \<Rightarrow> (bytes \<times> bytes) option" where
  "UndoWriteToDisk fv H messageStart hashBlock blockundo =
     map_option (\<lambda>w. (messageStart @ ser_writedata32 (of_nat (length w)), w @ write_uint256 (H (write_uint256 hashBlock @ w))))
       (CBlockUndo_Ser fv blockundo)"

text \<open>
  Reading from \<open>pos\<close>: the verifier hashes the bytes that are read. \<open>Inl\<close> is a failed assertion, \<open>None\<close> the result
  \<open>false\<close>.
\<close>

definition UndoReadFromDisk ::
  "(CPubKey \<Rightarrow> CPubKey option) \<Rightarrow> (bytes \<Rightarrow> uint256) \<Rightarrow> uint256 \<Rightarrow> bytes \<Rightarrow> unit + CBlockUndo option" where
  "UndoReadFromDisk dec H hashPrev s =
     (case CBlockUndo_Unser dec s of
        Inl _ \<Rightarrow> Inr None
      | Inr (Inl _, _) \<Rightarrow> Inl ()
      | Inr (Inr blockundo, rest) \<Rightarrow>
          (case read_uint256 rest of
             Inl _ \<Rightarrow> Inr None
           | Inr (hashChecksum, _) \<Rightarrow>
               if hashChecksum \<noteq> H (write_uint256 hashPrev @ take (length s - length rest) s) then Inr None
               else Inr (Some blockundo)))"

section \<open>Round trip\<close>

definition rt :: "('a \<Rightarrow> bytes option) \<Rightarrow> (unit + 'a) reader \<Rightarrow> 'a \<Rightarrow> bool" where
  "rt wr rd x \<longleftrightarrow> (\<exists>w. wr x = Some w \<and> (\<forall>rest. rd (w @ rest) = Inr (Inr x, rest)))"

lemma read_checked_write:
  "list_all (rt wr rd) xs \<Longrightarrow> \<exists>w. write_checked wr xs = Some w \<and> (\<forall>rest. read_checked rd (length xs) (w @ rest) = Inr (Inr xs, rest))"
proof (induction xs)
  case (Cons x xs)
  then show ?case by (auto simp: rt_def rbind_def rreturn_def)
qed (simp add: rreturn_def)

lemma rt_vector:
  "list_all (rt wr rd) xs \<Longrightarrow> length xs \<le> MAX_SIZE \<Longrightarrow> rt (write_checked_vector wr) (read_checked_vector rd) xs"
  using read_checked_write [of wr rd xs]
  by (auto simp: rt_def write_checked_vector_def read_checked_vector_def compact.bind_write)

definition storable :: "Coin \<Rightarrow> bool" where
  "storable c \<longleftrightarrow> MoneyRange (out_nValue (coin_out c)) \<and> length (scriptPubKey (coin_out c)) \<le> MAX_SCRIPT_SIZE"

lemma rt_TxInUndo:
  assumes "curve_ok fv dec" "storable c"
  shows "rt (TxInUndo_Ser fv) (TxInUndo_Unser dec) c"
proof -
  note cc = coin_code [of "coin_nHeight c" "coin_fCoinBase c", folded undo_code_def]
  obtain w where w: "TxOutCompression_Ser fv (coin_out c) = Some w"
      "\<And>t0 rest. TxOutCompression_Unser dec t0 (w @ rest) = Inr (Inr (coin_out c), rest)"
    using TxOutCompression_roundtrip [OF assms(1)] assms(2) unfolding storable_def by blast
  have zero: "WriteVarInt (0 :: u32) = [0]" using WriteVarInt_small [of 0] by simp
  have z: "(ReadVarInt :: u32 reader) (0 # s) = Inr (0, s)" for s
    using varint32.read_write [OF TrueI, of 0 s] by (simp add: zero)
  show ?thesis
    unfolding rt_def TxInUndo_Ser_def TxInUndo_Unser_def
    by (intro exI conjI allI, simp add: w(1), simp only: append_assoc varint32.bind_write [OF TrueI] cc Let_def)
      (cases "coin_nHeight c > 0"; simp add: rbind_def z rreturn_def w(2))
qed

lemma rt_map:
  assumes "rt wr rd (f x)" "\<And>y. g (f y) = y"
  shows "rt (\<lambda>x. wr (f x)) (rbind rd (\<lambda>r. rreturn (map_sum id g r))) x"
  using assms by (auto simp: rt_def rbind_def rreturn_def)

definition undo_ok :: "CBlockUndo \<Rightarrow> bool" where
  "undo_ok u \<longleftrightarrow> length (vtxundo u) \<le> MAX_SIZE \<and>
     list_all (\<lambda>t. length (vprevout t) \<le> MAX_SIZE \<and> list_all storable (vprevout t)) (vtxundo u)"

lemma rt_CTxUndo:
  assumes "curve_ok fv dec" "length (vprevout t) \<le> MAX_SIZE \<and> list_all storable (vprevout t)"
  shows "rt (CTxUndo_Ser fv) (CTxUndo_Unser dec) t"
proof -
  have "list_all (rt (TxInUndo_Ser fv) (TxInUndo_Unser dec)) (vprevout t)"
    using assms(2) rt_TxInUndo [OF assms(1)] by (auto simp: list_all_iff)
  from rt_vector [OF this] assms(2)
  show ?thesis unfolding CTxUndo_Ser_def CTxUndo_Unser_def by (intro rt_map) simp_all
qed

lemma rt_CBlockUndo:
  assumes "curve_ok fv dec" "undo_ok u"
  shows "rt (CBlockUndo_Ser fv) (CBlockUndo_Unser dec) u"
proof -
  have "list_all (rt (CTxUndo_Ser fv) (CTxUndo_Unser dec)) (vtxundo u)"
    using assms(2) rt_CTxUndo [OF assms(1)] by (auto simp: undo_ok_def list_all_iff)
  from rt_vector [OF this] assms(2)
  show ?thesis unfolding CBlockUndo_Ser_def CBlockUndo_Unser_def by (intro rt_map) (simp_all add: undo_ok_def)
qed

lemma UndoReadFromDisk_written:
  assumes "curve_ok fv dec" "undo_ok u" "\<And>x. length (m_data (H x)) = 32" "UndoWriteToDisk fv H start hash u = Some (header, entry)"
  shows "\<exists>w. CBlockUndo_Ser fv u = Some w \<and> UndoReadFromDisk dec H hash' (entry @ rest) =
    Inr (if H (m_data hash @ w) = H (m_data hash' @ w) then Some u else None)"
proof -
  obtain w where w: "CBlockUndo_Ser fv u = Some w" "\<And>rest. CBlockUndo_Unser dec (w @ rest) = Inr (Inr u, rest)"
    using rt_CBlockUndo [OF assms(1,2)] by (auto simp: rt_def)
  have r: "entry = w @ m_data (H (m_data hash @ w))" using assms(4) w(1) by (simp add: UndoWriteToDisk_def write_uint256_def)
  have read: "stream_read 32 (m_data (H (m_data hash @ w)) @ rest) = Inr (m_data (H (m_data hash @ w)), rest)"
    using stream_read_append [of "m_data (H (m_data hash @ w))" rest] by (simp add: assms(3))
  show ?thesis
    using w(1) by (simp add: UndoReadFromDisk_def r w(2) read read_uint256_def rbind_def rreturn_def write_uint256_def)
qed

text \<open>
  C9: the undo data of a block that is written to the file is read back as it was, for every block whose spent coins have
  valid amounts and scripts; read with the hash of another previous block it is refused, unless the hash function
  collides on the two inputs.
\<close>

theorem undo_file_roundtrip:
  assumes "curve_ok fv dec" "undo_ok u" "\<And>x. length (m_data (H x)) = 32"
  shows "\<exists>w header entry. CBlockUndo_Ser fv u = Some w \<and> UndoWriteToDisk fv H start hash u = Some (header, entry) \<and>
    UndoReadFromDisk dec H hash (entry @ rest) = Inr (Some u) \<and>
    (UndoReadFromDisk dec H hash' (entry @ rest) = Inr None \<or> H (m_data hash @ w) = H (m_data hash' @ w))"
proof -
  obtain w header entry where w: "CBlockUndo_Ser fv u = Some w" "UndoWriteToDisk fv H start hash u = Some (header, entry)"
    using rt_CBlockUndo [OF assms(1,2)] by (auto simp: rt_def UndoWriteToDisk_def)
  note read = UndoReadFromDisk_written [OF assms w(2)]
  show ?thesis using w read [of hash rest] read [of hash' rest] by force
qed

definition example_sum :: "bytes \<Rightarrow> uint256" where
  "example_sum b = UInt256 (of_nat (sum_list (map unat b)) # replicate 31 0)"

definition example_undo :: CBlockUndo where
  "example_undo = \<lparr>vtxundo = [\<lparr>vprevout = [key_coin, \<lparr>coin_out = \<lparr>out_nValue = 5, scriptPubKey = []\<rparr>, coin_fCoinBase = False, coin_nHeight = 0\<rparr>]\<rparr>]\<rparr>"

theorem undo_file_roundtrip_witness:
  "\<exists>header entry. UndoWriteToDisk (\<lambda>k. k = base_key) example_sum [1, 2, 3, 4] (example_hash 1) example_undo = Some (header, entry) \<and>
     UndoReadFromDisk known_decompress example_sum (example_hash 1) (entry @ [7]) = Inr (Some example_undo)"
proof -
  have "undo_ok example_undo"
    by (simp add: undo_ok_def example_undo_def storable_def key_coin_def MoneyRange_def MAX_MONEY_def COIN_def
        MAX_SCRIPT_SIZE_def base_key_def base_point_x_def base_point_y_def MAX_SIZE_def)
  moreover have "length (m_data (example_sum x)) = 32" for x by (simp add: example_sum_def)
  ultimately show ?thesis
    using undo_file_roundtrip [OF known_curve_ok, of example_undo example_sum "[1, 2, 3, 4]" "example_hash 1" "[7]" "example_hash 1"]
    by blast
qed

end
