(* ===== verification/BlockCoins.thy ===== *)
theory BlockCoins
  imports Undo
begin

text \<open>
  What connecting and disconnecting a block do to the unspent outputs: \<open>UpdateCoins\<close>, \<open>ApplyTxInUndo\<close> and
  \<open>DisconnectBlock\<close> of \<open>src/validation.cpp\<close>, without the optional indexes. The parts of \<open>DisconnectBlock\<close> on special
  transactions and on the masternode database only report whether they succeeded.
\<close>

section \<open>Connecting a transaction\<close>

primrec spend_inputs ::
  "'v view_ops \<Rightarrow> (bytes \<Rightarrow> u64) \<Rightarrow> CTxIn list \<Rightarrow> 'v coins_cache \<Rightarrow> (coins_error + Coin list) \<times> 'v coins_cache" where
  "spend_inputs ops du [] c = (Inr [], c)"
| "spend_inputs ops du (txin # ins) c =
     (case SpendCoin ops du (prevout txin) c of
        (None, c) \<Rightarrow> (Inl AssertionFailure, c)
      | (Some coin, c) \<Rightarrow>
          (case spend_inputs ops du ins c of
             (Inl e, c) \<Rightarrow> (Inl e, c)
           | (Inr coins, c) \<Rightarrow> (Inr (coin # coins), c)))"

text \<open>The result is the undo data, which starts empty.\<close>

definition UpdateCoins ::
  "'v view_ops \<Rightarrow> (bytes \<Rightarrow> u64) \<Rightarrow> CTransaction \<Rightarrow> int \<Rightarrow> 'v coins_cache \<Rightarrow> (coins_error + CTxUndo) \<times> 'v coins_cache" where
  "UpdateCoins ops du tx nHeight c =
     (case (if \<not> IsCoinBase tx then spend_inputs ops du (vin tx) c else (Inr [], c)) of
        (Inl e, c) \<Rightarrow> (Inl e, c)
      | (Inr coins, c) \<Rightarrow>
          (case AddCoins ops du tx nHeight False c of
             (Inl e, c) \<Rightarrow> (Inl e, c)
           | (Inr _, c) \<Rightarrow> (Inr \<lparr>vprevout = coins\<rparr>, c)))"

section \<open>Disconnecting a block\<close>

datatype DisconnectResult = DISCONNECT_OK | DISCONNECT_UNCLEAN | DISCONNECT_FAILED

definition ApplyTxInUndo ::
  "'v view_ops \<Rightarrow> (bytes \<Rightarrow> u64) \<Rightarrow> Coin \<Rightarrow> COutPoint \<Rightarrow> 'v coins_cache \<Rightarrow> (coins_error + DisconnectResult) \<times> 'v coins_cache"
where
  "ApplyTxInUndo ops du undo out c =
     (let (have, c) = HaveCoin ops du out c;
          fClean = \<not> have;
          (undo, c) =
            (if coin_nHeight undo = 0 then
               (let (alternate, c) = AccessByTxid ops du (op_hash out) c
                in (if \<not> IsSpent alternate
                    then Some (undo\<lparr>coin_nHeight := coin_nHeight alternate, coin_fCoinBase := coin_fCoinBase alternate\<rparr>)
                    else None, c))
             else (Some undo, c))
      in case undo of
           None \<Rightarrow> (Inr DISCONNECT_FAILED, c)
         | Some undo \<Rightarrow>
             (case AddCoin du out undo (\<not> fClean) c of
                (Inl e, c) \<Rightarrow> (Inl e, c)
              | (Inr _, c) \<Rightarrow> (Inr (if fClean then DISCONNECT_OK else DISCONNECT_UNCLEAN), c)))"

text \<open>The loop over the outputs, from index \<open>k\<close> on, with the result \<open>fClean\<close>.\<close>

primrec disconnect_outputs ::
  "'v view_ops \<Rightarrow> (bytes \<Rightarrow> u64) \<Rightarrow> uint256 \<Rightarrow> int \<Rightarrow> bool \<Rightarrow> bool \<Rightarrow> nat \<Rightarrow> CTxOut list \<Rightarrow> bool \<Rightarrow> 'v coins_cache \<Rightarrow> bool \<times> 'v coins_cache"
where
  "disconnect_outputs ops du hash nHeight is_coinbase is_bip30_exception k [] fClean c = (fClean, c)"
| "disconnect_outputs ops du hash nHeight is_coinbase is_bip30_exception k (txout # outs) fClean c =
     (if \<not> IsUnspendable (scriptPubKey txout) then
        let (spent, c) = SpendCoin ops du (COutPoint hash (of_nat k)) c;
            coin = (case spent of Some coin \<Rightarrow> coin | None \<Rightarrow> coinEmpty);
            mismatch = (spent = None \<or> txout \<noteq> coin_out coin \<or> nHeight \<noteq> uint (coin_nHeight coin) \<or> is_coinbase \<noteq> coin_fCoinBase coin)
        in disconnect_outputs ops du hash nHeight is_coinbase is_bip30_exception (Suc k) outs
             (if mismatch \<and> \<not> is_bip30_exception then False else fClean) c
      else disconnect_outputs ops du hash nHeight is_coinbase is_bip30_exception (Suc k) outs fClean c)"

text \<open>The loop that restores the inputs, over the outpoints and coins in reverse order; \<open>None\<close> is the result \<open>FAILED\<close>.\<close>

primrec restore_inputs ::
  "'v view_ops \<Rightarrow> (bytes \<Rightarrow> u64) \<Rightarrow> (COutPoint \<times> Coin) list \<Rightarrow> bool \<Rightarrow> 'v coins_cache \<Rightarrow> (coins_error + bool option) \<times> 'v coins_cache"
where
  "restore_inputs ops du [] fClean c = (Inr (Some fClean), c)"
| "restore_inputs ops du (x # xs) fClean c =
     (case ApplyTxInUndo ops du (snd x) (fst x) c of
        (Inl e, c) \<Rightarrow> (Inl e, c)
      | (Inr res, c) \<Rightarrow>
          if res = DISCONNECT_FAILED then (Inr None, c)
          else restore_inputs ops du xs (fClean \<and> res \<noteq> DISCONNECT_UNCLEAN) c)"

text \<open>One transaction; only the first one of a block has no undo data.\<close>

definition disconnect_tx ::
  "'v view_ops \<Rightarrow> (bytes \<Rightarrow> u64) \<Rightarrow> int \<Rightarrow> bool \<Rightarrow> CTransaction \<Rightarrow> CTxUndo option \<Rightarrow> bool \<Rightarrow> 'v coins_cache
     \<Rightarrow> (coins_error + bool option) \<times> 'v coins_cache"
where
  "disconnect_tx ops du nHeight fEnforceBIP30 tx undo fClean c =
     (let is_coinbase = IsCoinBase tx;
          is_bip30_exception = (is_coinbase \<and> \<not> fEnforceBIP30);
          (fClean, c) = disconnect_outputs ops du (tx_hash tx) nHeight is_coinbase is_bip30_exception 0 (vout tx) fClean c
      in case undo of
           None \<Rightarrow> (Inr (Some fClean), c)
         | Some txundo \<Rightarrow>
             if length (vprevout txundo) \<noteq> length (vin tx) then (Inr None, c)
             else restore_inputs ops du (rev (zip (map prevout (vin tx)) (vprevout txundo))) fClean c)"

text \<open>The loop over the transactions, the last one first.\<close>

primrec disconnect_loop ::
  "'v view_ops \<Rightarrow> (bytes \<Rightarrow> u64) \<Rightarrow> int \<Rightarrow> bool \<Rightarrow> (CTransaction \<times> CTxUndo option) list \<Rightarrow> bool \<Rightarrow> 'v coins_cache
     \<Rightarrow> (coins_error + bool option) \<times> 'v coins_cache"
where
  "disconnect_loop ops du nHeight fEnforceBIP30 [] fClean c = (Inr (Some fClean), c)"
| "disconnect_loop ops du nHeight fEnforceBIP30 (x # xs) fClean c =
     (case disconnect_tx ops du nHeight fEnforceBIP30 (fst x) (snd x) fClean c of
        (Inl e, c) \<Rightarrow> (Inl e, c)
      | (Inr None, c) \<Rightarrow> (Inr None, c)
      | (Inr (Some fClean), c) \<Rightarrow> disconnect_loop ops du nHeight fEnforceBIP30 xs fClean c)"

definition bip30_unspendable :: "int \<Rightarrow> uint256 \<Rightarrow> bool" where
  "bip30_unspendable nHeight h \<longleftrightarrow>
     (nHeight = 91722 \<and> h = UInt256 (rev [0x00, 0x00, 0x00, 0x00, 0x00, 0x02, 0x71, 0xa2, 0xdc, 0x26, 0xe7, 0x66, 0x7f, 0x84,
        0x19, 0xf2, 0xe1, 0x54, 0x16, 0xdc, 0x69, 0x55, 0xe5, 0xa6, 0xc6, 0xcd, 0xf3, 0xf2, 0x57, 0x4d, 0xd0, 0x8e])) \<or>
     (nHeight = 91812 \<and> h = UInt256 (rev [0x00, 0x00, 0x00, 0x00, 0x00, 0x0a, 0xf0, 0xae, 0xd4, 0x79, 0x2b, 0x1a, 0xce, 0xe3,
        0xd9, 0x66, 0xaf, 0x36, 0xcf, 0x5d, 0xef, 0x14, 0x93, 0x5d, 0xb8, 0xde, 0x83, 0xd6, 0xf9, 0x30, 0x6f, 0x2f]))"

text \<open>
  \<open>evo_ok\<close> is the check of the masternode database, \<open>undo\<close> what \<open>UndoReadFromDisk\<close> gave, and \<open>specials_ok\<close> the result
  of \<open>UndoSpecialTxsInBlock\<close>.
\<close>

definition DisconnectBlock ::
  "'v view_ops \<Rightarrow> (bytes \<Rightarrow> u64) \<Rightarrow> CTransaction list \<Rightarrow> int \<Rightarrow> uint256 \<Rightarrow> uint256 \<Rightarrow> bool \<Rightarrow> CBlockUndo option \<Rightarrow> bool
     \<Rightarrow> 'v coins_cache \<Rightarrow> (coins_error + DisconnectResult) \<times> 'v coins_cache"
where
  "DisconnectBlock ops du vtx nHeight blockHash prevHash evo_ok undo specials_ok c =
     (if \<not> evo_ok then (Inr DISCONNECT_FAILED, c)
      else case undo of
        None \<Rightarrow> (Inr DISCONNECT_FAILED, c)
      | Some blockUndo \<Rightarrow>
          if length (vtxundo blockUndo) + 1 \<noteq> length vtx then (Inr DISCONNECT_FAILED, c)
          else if \<not> specials_ok then (Inr DISCONNECT_FAILED, c)
          else
            (case disconnect_loop ops du nHeight (\<not> bip30_unspendable nHeight blockHash)
                (rev (zip vtx (None # map Some (vtxundo blockUndo)))) True c of
               (Inl e, c) \<Rightarrow> (Inl e, c)
             | (Inr None, c) \<Rightarrow> (Inr DISCONNECT_FAILED, c)
             | (Inr (Some fClean), c) \<Rightarrow>
                 (Inr (if fClean then DISCONNECT_OK else DISCONNECT_UNCLEAN), SetBestBlock prevHash c)))"

end
