(* ===== verification/BlockSpec.thy ===== *)
theory BlockSpec
  imports BlockCoins
begin

text \<open>What \<open>BlockCoins\<close> does to the map of unspent coins.\<close>

section \<open>The map of coins\<close>

definition connect_map :: "CTransaction \<Rightarrow> int \<Rightarrow> (COutPoint \<Rightarrow> Coin option) \<Rightarrow> COutPoint \<Rightarrow> Coin option" where
  "connect_map tx h m =
     (if IsCoinBase tx then m else m |` (- (prevout ` set (vin tx)))) ++ created (tx_hash tx) h (IsCoinBase tx) 0 (vout tx)"

definition spent_coins :: "CTransaction \<Rightarrow> (COutPoint \<Rightarrow> Coin option) \<Rightarrow> Coin list" where
  "spent_coins tx m = (if IsCoinBase tx then [] else map (\<lambda>i. the (m (prevout i))) (vin tx))"

text \<open>The outputs of a transaction are not unspent coins already, and its inputs are.\<close>

definition fresh_tx :: "CTransaction \<Rightarrow> (COutPoint \<Rightarrow> Coin option) \<Rightarrow> bool" where
  "fresh_tx tx m \<longleftrightarrow> (\<forall>j < length (vout tx). m (COutPoint (tx_hash tx) (of_nat j)) = None)"

definition inputs_ok :: "CTransaction \<Rightarrow> (COutPoint \<Rightarrow> Coin option) \<Rightarrow> bool" where
  "inputs_ok tx m \<longleftrightarrow> IsCoinBase tx \<or> distinct (map prevout (vin tx)) \<and> (\<forall>i \<in> set (vin tx). m (prevout i) \<noteq> None)"

definition outputs_ok :: "CTransaction \<Rightarrow> bool" where
  "outputs_ok tx \<longleftrightarrow> length (vout tx) \<le> 2 ^ 32 \<and> list_all (\<lambda>t. \<not> CTxOut_IsNull t) (vout tx)"

text \<open>What holds of coins of blocks above the first one.\<close>

definition coins_good :: "(COutPoint \<Rightarrow> Coin option) \<Rightarrow> bool" where
  "coins_good m \<longleftrightarrow> (\<forall>p coin. m p = Some coin \<longrightarrow>
     \<not> IsSpent coin \<and> coin_nHeight coin \<noteq> 0 \<and> \<not> IsUnspendable (scriptPubKey (coin_out coin)))"

lemma created_Some:
  "created txid h cb i outs p = Some coin \<Longrightarrow> op_hash p = txid \<and> coin_out coin \<in> set outs \<and>
     \<not> IsUnspendable (scriptPubKey (coin_out coin)) \<and> coin_nHeight coin = word_of_int h \<and> coin_fCoinBase coin = cb"
  by (auto simp: created_def split: if_splits)

lemma created_index:
  assumes "created txid h cb i outs p = Some coin"
  shows "\<exists>j. i \<le> j \<and> j < i + length outs \<and> p = COutPoint txid (of_nat j)"
proof (intro exI conjI)
  show "i \<le> unat (op_n p)" "unat (op_n p) < i + length outs" using assms by (simp_all add: created_def split: if_splits)
  show "p = COutPoint txid (of_nat (unat (op_n p)))" using assms by (cases p) (simp add: created_def split: if_splits)
qed

lemma fresh_created: "fresh_tx tx m \<Longrightarrow> created (tx_hash tx) h cb 0 (vout tx) p = Some coin \<Longrightarrow> m p = None"
  by (drule created_index) (auto simp: fresh_tx_def)

lemma coins_good_connect:
  assumes "coins_good m" "outputs_ok tx" "(word_of_int h :: 31 word) \<noteq> 0"
  shows "coins_good (connect_map tx h m)"
  using assms
  by (auto simp: coins_good_def connect_map_def outputs_ok_def list_all_iff IsSpent_def restrict_map_def
      dest!: created_Some split: if_splits)

lemma fresh_connect:
  assumes "fresh_tx tx' m" "tx_hash tx' \<noteq> tx_hash tx"
  shows "fresh_tx tx' (connect_map tx h m)"
proof -
  have "created (tx_hash tx) h (IsCoinBase tx) 0 (vout tx) (COutPoint (tx_hash tx') n) = None" for n
    using assms(2) by (simp add: created_def)
  then show ?thesis using assms(1) by (auto simp: fresh_tx_def connect_map_def map_add_def restrict_map_def)
qed

text \<open>Taking away what was created and putting back what was spent.\<close>

lemma disconnect_map:
  assumes "fresh_tx tx m" "inputs_ok tx m"
  shows "connect_map tx h m |` (- dom (created (tx_hash tx) h (IsCoinBase tx) 0 (vout tx))) ++
    map_of (rev (zip (if IsCoinBase tx then [] else map prevout (vin tx)) (spent_coins tx m))) = m" (is "?d ++ ?r = m")
proof
  fix p
  let ?created = "created (tx_hash tx) h (IsCoinBase tx) 0 (vout tx)"
  have r: "?r p = (if \<not> IsCoinBase tx \<and> p \<in> prevout ` set (vin tx) then m p else None)"
  proof (cases "IsCoinBase tx")
    case False
    then have d: "distinct (map prevout (vin tx))" and i: "\<forall>i \<in> set (vin tx). m (prevout i) \<noteq> None"
      using assms(2) by (simp_all add: inputs_ok_def)
    let ?z = "zip (map prevout (vin tx)) (map (\<lambda>i. the (m (prevout i))) (vin tx))"
    have "?z = map (\<lambda>p. (p, the (m p))) (map prevout (vin tx))"
      by (simp add: zip_map_map zip_same_conv_map)
    then have "map_of ?z p = (if p \<in> prevout ` set (vin tx) then m p else None)"
      using i by (simp only:) (subst map_of_map_restrict, auto simp: restrict_map_def)
    moreover have "map_of (rev ?z) = map_of ?z"
      using d by (subst map_of_inject_set) (simp_all flip: rev_map)
    ultimately show ?thesis using False by (simp add: spent_coins_def)
  qed (simp add: spent_coins_def)
  have "?d p = (if \<not> IsCoinBase tx \<and> p \<in> prevout ` set (vin tx) then None else m p)"
  proof (cases "?created p")
    case None
    then have "p \<in> - dom ?created" by (simp add: dom_def)
    then show ?thesis using None by (simp add: connect_map_def restrict_map_def map_add_def)
  next
    case (Some coin)
    then have "m p = None" by (rule fresh_created [OF assms(1)])
    then show ?thesis using Some by (simp add: restrict_map_def dom_def)
  qed
  then show "(?d ++ ?r) p = m p" using r by (simp only: map_add_def split: option.split) simp
qed

section \<open>The operations\<close>

context coins_cache_base
begin

lemma spend_inputs_spec:
  assumes "cinv c" "spend_inputs ops du ins c = (r, c')" "distinct (map prevout ins)" "\<forall>i \<in> set ins. cutxo c (prevout i) \<noteq> None"
  shows "r = Inr (map (\<lambda>i. the (cutxo c (prevout i))) ins) \<and> cinv c' \<and>
    cutxo c' = cutxo c |` (- (prevout ` set ins)) \<and> cbest c' = cbest c"
  using assms
proof (induction ins arbitrary: c r c')
  case (Cons i ins)
  obtain s d where s: "SpendCoin ops du (prevout i) c = (s, d)" by fastforce
  obtain coin where coin: "cutxo c (prevout i) = Some coin" using Cons.prems(4) by auto
  note sp = SpendCoin_spec [OF Cons.prems(1) s]
  have sc: "s = Some coin" using sp(5) coin by blast
  obtain r1 e where e: "spend_inputs ops du ins d = (r1, e)" by fastforce
  have other: "cutxo d (prevout j) = cutxo c (prevout j)" if "j \<in> set ins" for j
    using Cons.prems(3) that sp(2) by (auto simp: image_iff)
  have IH: "r1 = Inr (map (\<lambda>i. the (cutxo d (prevout i))) ins) \<and> cinv e \<and>
      cutxo e = cutxo d |` (- (prevout ` set ins)) \<and> cbest e = cbest d"
    using Cons.prems(3,4) other by (intro Cons.IH [OF sp(1) e]) auto
  then have r: "r = Inr (coin # map (\<lambda>i. the (cutxo d (prevout i))) ins)" "c' = e" using Cons.prems(2) s sc e by auto
  have "map (\<lambda>i. the (cutxo d (prevout i))) ins = map (\<lambda>i. the (cutxo c (prevout i))) ins" using other by simp
  moreover have "cutxo e = cutxo c |` (- (prevout ` set (i # ins)))"
    using IH sp(2) by (auto simp: restrict_map_def fun_eq_iff)
  ultimately show ?case using r IH sp(3) coin by simp
qed (auto simp: restrict_map_def fun_eq_iff)

lemma UpdateCoins_spec:
  assumes "cinv c" "UpdateCoins ops du tx h c = (r, c')"
    and "inputs_ok tx (cutxo c)" "outputs_ok tx" "IsCoinBase tx \<or> fresh_tx tx (cutxo c)"
  shows "r = Inr \<lparr>vprevout = spent_coins tx (cutxo c)\<rparr>" "cinv c'" "cutxo c' = connect_map tx h (cutxo c)" "cbest c' = cbest c"
proof -
  obtain r1 d where d: "(if \<not> IsCoinBase tx then spend_inputs ops du (vin tx) c else (Inr [], c)) = (r1, d)" by fastforce
  have s: "r1 = Inr (spent_coins tx (cutxo c)) \<and> cinv d \<and>
      cutxo d = (if IsCoinBase tx then cutxo c else cutxo c |` (- (prevout ` set (vin tx)))) \<and> cbest d = cbest c"
  proof (cases "IsCoinBase tx")
    case False
    with assms(3) d show ?thesis
      using spend_inputs_spec [OF assms(1), of "vin tx" r1 d] by (simp add: inputs_ok_def spent_coins_def)
  qed (use d assms(1) in \<open>auto simp: spent_coins_def\<close>)
  obtain r2 e where e: "add_coins_loop ops du (tx_hash tx) h (IsCoinBase tx) False 0 (vout tx) d = (r2, e)" by fastforce
  have "IsCoinBase tx \<or> (\<forall>j. 0 \<le> j \<longrightarrow> j < 0 + length (vout tx) \<longrightarrow> cutxo d (COutPoint (tx_hash tx) (of_nat j)) = None)"
    using assms(5) s by (auto simp: fresh_tx_def restrict_map_def)
  then have a: "r2 = Inr () \<and> cinv e \<and> cutxo e = cutxo d ++ created (tx_hash tx) h (IsCoinBase tx) 0 (vout tx) \<and> cbest e = cbest d"
    using s assms(4) by (intro add_coins_loop_spec [OF _ _ _ _ e]) (simp_all add: outputs_ok_def)
  have "r = Inr \<lparr>vprevout = spent_coins tx (cutxo c)\<rparr> \<and> c' = e"
    using assms(2) d e s a by (simp add: UpdateCoins_def AddCoins_def)
  with s a show "r = Inr \<lparr>vprevout = spent_coins tx (cutxo c)\<rparr>" "cinv c'" "cutxo c' = connect_map tx h (cutxo c)" "cbest c' = cbest c"
    by (simp_all add: connect_map_def)
qed

lemma ApplyTxInUndo_spec:
  assumes "cinv c" "ApplyTxInUndo ops du undo out c = (r, c')" "cutxo c out = None"
    and "\<not> IsSpent undo" "coin_nHeight undo \<noteq> 0" "\<not> IsUnspendable (scriptPubKey (coin_out undo))"
  shows "r = Inr DISCONNECT_OK" "cinv c'" "cutxo c' = (cutxo c)(out \<mapsto> undo)" "cbest c' = cbest c"
proof -
  obtain b d where h: "HaveCoin ops du out c = (b, d)" by fastforce
  note hs = HaveCoin_spec [OF assms(1) h]
  have b: "\<not> b" using hs(1) assms(3) by simp
  obtain r1 e where a: "AddCoin du out undo False d = (r1, e)" by fastforce
  have "cutxo d out = None" using hs(3) assms(3) by simp
  note as = AddCoin_spec [OF hs(2) assms(4) this a]
  have "r = Inr DISCONNECT_OK \<and> c' = e"
    using assms(2,5) h b a as(1) by (simp add: ApplyTxInUndo_def)
  then show "r = Inr DISCONNECT_OK" "cinv c'" "cutxo c' = (cutxo c)(out \<mapsto> undo)" "cbest c' = cbest c"
    using as hs assms(6) by simp_all
qed

lemma restore_inputs_spec:
  assumes "cinv c" "restore_inputs ops du xs f c = (r, c')" "distinct (map fst xs)"
    and "\<forall>x \<in> set xs. cutxo c (fst x) = None \<and> \<not> IsSpent (snd x) \<and> coin_nHeight (snd x) \<noteq> 0 \<and>
      \<not> IsUnspendable (scriptPubKey (coin_out (snd x)))"
  shows "r = Inr (Some f) \<and> cinv c' \<and> cutxo c' = cutxo c ++ map_of xs \<and> cbest c' = cbest c"
  using assms
proof (induction xs arbitrary: c)
  case (Cons x xs)
  obtain p coin where x: "x = (p, coin)" by fastforce
  have good: "cutxo c p = None" "\<not> IsSpent coin" "coin_nHeight coin \<noteq> 0" "\<not> IsUnspendable (scriptPubKey (coin_out coin))"
    using Cons.prems(4) x by auto
  obtain r1 d where a: "ApplyTxInUndo ops du coin p c = (r1, d)" by fastforce
  note as = ApplyTxInUndo_spec [OF Cons.prems(1) a good]
  have rest: "restore_inputs ops du xs f d = (r, c')" using Cons.prems(2) x a as(1) by simp
  have "p \<notin> fst ` set xs" using Cons.prems(3) x by simp
  then have "\<forall>x \<in> set xs. cutxo d (fst x) = None \<and> \<not> IsSpent (snd x) \<and> coin_nHeight (snd x) \<noteq> 0 \<and>
      \<not> IsUnspendable (scriptPubKey (coin_out (snd x)))"
    using Cons.prems(4) as(3) by (auto simp: image_iff)
  with Cons.prems(3) have IH: "r = Inr (Some f) \<and> cinv c' \<and> cutxo c' = cutxo d ++ map_of xs \<and> cbest c' = cbest d"
    by (intro Cons.IH [OF as(2) rest]) simp_all
  have "map_of xs p = None" using \<open>p \<notin> fst ` set xs\<close> by (simp add: map_of_eq_None_iff)
  then have E: "cutxo d ++ map_of xs = cutxo c ++ map_of (x # xs)"
    using as(3) x by (auto simp: fun_eq_iff map_add_def split: option.split)
  show ?case using IH as(4) unfolding E by metis
qed simp

lemma disconnect_outputs_spec:
  assumes "cinv c" "disconnect_outputs ops du txid h cb ex k outs f c = (f', c')" "k + length outs \<le> 2 ^ 32"
    and "uint (word_of_int h :: 31 word) = h" "created txid h cb k outs \<subseteq>\<^sub>m cutxo c"
  shows "f' = f \<and> cinv c' \<and> cutxo c' = cutxo c |` (- dom (created txid h cb k outs)) \<and> cbest c' = cbest c"
  using assms
proof (induction outs arbitrary: k c)
  case Nil
  have "created txid h cb k [] = Map.empty" by (auto simp: created_def fun_eq_iff)
  then show ?case using Nil by simp
next
  case (Cons t outs)
  have k: "k < 2 ^ 32" "Suc k + length outs \<le> 2 ^ 32" using Cons.prems(3) by simp_all
  let ?p = "COutPoint txid (of_nat k)" and ?coin = "\<lparr>coin_out = t, coin_fCoinBase = cb, coin_nHeight = word_of_int h\<rparr>"
  note cr = created_Cons [OF k(1), of txid h cb t outs]
  note own = created_own [OF k(1), of txid h cb outs]
  show ?case
  proof (cases "IsUnspendable (scriptPubKey t)")
    case True
    then show ?thesis using Cons.IH [OF Cons.prems(1) _ k(2) Cons.prems(4)] Cons.prems(2,5) cr by simp
  next
    case False
    obtain s d where s: "SpendCoin ops du ?p c = (s, d)" by fastforce
    have "created txid h cb k (t # outs) ?p = Some ?coin" using cr False by simp
    then have coin: "cutxo c ?p = Some ?coin" using Cons.prems(5) by (metis map_le_def domI)
    note sp = SpendCoin_spec [OF Cons.prems(1) s]
    have rest: "disconnect_outputs ops du txid h cb ex (Suc k) outs f d = (f', c')"
      using Cons.prems(2) False s sp(5) [OF coin] Cons.prems(4) by simp
    have "created txid h cb (Suc k) outs \<subseteq>\<^sub>m cutxo d"
      using Cons.prems(5) cr False own sp(2) by (auto simp: map_le_def dom_def split: if_splits)
    from Cons.IH [OF sp(1) rest k(2) Cons.prems(4) this] show ?thesis
      using sp(2,3) cr False by (auto simp: restrict_map_def fun_eq_iff)
  qed
qed

lemma disconnect_tx_spec:
  assumes "cinv c" "cutxo c = connect_map tx h m" "disconnect_tx ops du h bip30 tx undo f c = (r, c')"
    and "undo = (if IsCoinBase tx then None else Some \<lparr>vprevout = spent_coins tx m\<rparr>)"
    and "inputs_ok tx m" "outputs_ok tx" "fresh_tx tx m" "coins_good m" "uint (word_of_int h :: 31 word) = h"
  shows "r = Inr (Some f) \<and> cinv c' \<and> cutxo c' = m \<and> cbest c' = cbest c"
proof -
  let ?cr = "created (tx_hash tx) h (IsCoinBase tx) 0 (vout tx)"
  let ?xs = "rev (zip (if IsCoinBase tx then [] else map prevout (vin tx)) (spent_coins tx m))"
  obtain f1 d where d: "disconnect_outputs ops du (tx_hash tx) h (IsCoinBase tx) (IsCoinBase tx \<and> \<not> bip30) 0 (vout tx) f c = (f1, d)"
    by fastforce
  have le: "?cr \<subseteq>\<^sub>m cutxo c" by (simp add: assms(2) connect_map_def)
  have ds: "f1 = f \<and> cinv d \<and> cutxo d = cutxo c |` (- dom ?cr) \<and> cbest d = cbest c"
    using assms(6) by (intro disconnect_outputs_spec [OF assms(1) d _ assms(9) le]) (simp add: outputs_ok_def)
  obtain r1 e where e: "restore_inputs ops du ?xs f d = (r1, e)" by fastforce
  have xs: "fst x \<in> prevout ` set (vin tx) \<and> m (fst x) = Some (snd x) \<and> \<not> IsCoinBase tx" if "x \<in> set ?xs" for x
    using that assms(5) by (auto simp: spent_coins_def inputs_ok_def set_zip split: if_splits)
  have "distinct (map fst ?xs)"
    using assms(5) by (auto simp: inputs_ok_def spent_coins_def simp flip: rev_map)
  moreover have "\<forall>x \<in> set ?xs. cutxo d (fst x) = None \<and> \<not> IsSpent (snd x) \<and> coin_nHeight (snd x) \<noteq> 0 \<and>
      \<not> IsUnspendable (scriptPubKey (coin_out (snd x)))"
    using xs assms(8) ds unfolding coins_good_def assms(2) connect_map_def
    by (fastforce simp: restrict_map_def map_add_def split: option.splits if_splits)
  ultimately have rs: "r1 = Inr (Some f) \<and> cinv e \<and> cutxo e = cutxo d ++ map_of ?xs \<and> cbest e = cbest d"
    using ds by (intro restore_inputs_spec [OF _ e]) simp_all
  have "cutxo e = m"
    using rs ds disconnect_map [OF assms(7,5), of h] by (simp only: assms(2))
  moreover have "r = Inr (Some f) \<and> c' = (if IsCoinBase tx then d else e)"
    using assms(3,4) d ds e rs by (simp add: disconnect_tx_def spent_coins_def split: if_splits)
  moreover have "e = d" if "IsCoinBase tx" using e that by (simp add: spent_coins_def)
  ultimately show ?thesis using rs ds by auto
qed

end

end
