(* ===== verification/ScriptNum.thy ===== *)
theory ScriptNum
  imports Compressor
begin

text \<open>
  Numbers of scripts: \<open>CScriptNum\<close> of \<open>src/script/script.h\<close> and \<open>src/script/script.cpp\<close>. A number is stored in as
  few bytes as possible, little-endian, with the sign in the top bit of the last byte.
\<close>

section \<open>Numbers\<close>

type_synonym CScriptNum = int

definition nDefaultMaxNumSize :: nat where "nDefaultMaxNumSize = 4"

definition set_vch :: "bytes \<Rightarrow> CScriptNum" where
  "set_vch b =
     (if b = [] then 0
      else
        let result = bytes_word b :: u64
        in if last b AND 0x80 \<noteq> 0 then - sint (result AND NOT (push_bit (8 * (length b - 1)) 0x80)) else sint result)"

function abs_bytes :: "u64 \<Rightarrow> bytes" where
  "abs_bytes absvalue = (if absvalue = 0 then [] else ucast (absvalue AND 0xff) # abs_bytes (drop_bit 8 absvalue))"
  by pat_completeness auto
termination
proof (relation "measure unat")
  show "wf (measure (unat :: u64 \<Rightarrow> nat))" by simp
  fix a :: u64
  assume "a \<noteq> 0"
  then have "unat a div 2 ^ 8 < unat a" by (intro div_less_dividend) (simp_all add: unat_gt_0)
  moreover have "unat (drop_bit 8 a) = unat a div 2 ^ 8" by (subst unat_drop_bit_eq) (rule drop_bit_eq_div)
  ultimately show "(drop_bit 8 a, a) \<in> measure unat" by (simp only: in_measure)
qed

declare abs_bytes.simps [simp del]

definition scriptnum_serialize :: "int \<Rightarrow> bytes" where
  "scriptnum_serialize value =
     (if value = 0 then []
      else
        let neg = value < 0;
            absvalue = (if neg then NOT (word_of_int value) + 1 else word_of_int value) :: u64;
            result = abs_bytes absvalue
        in if last result AND 0x80 \<noteq> 0 then result @ [if neg then 0x80 else 0]
           else if neg then result[length result - 1 := last result OR 0x80] else result)"

definition IsMinimallyEncoded :: "bytes \<Rightarrow> nat \<Rightarrow> bool" where
  "IsMinimallyEncoded b nMaxNumSize =
     (if length b > nMaxNumSize then False
      else if length b > 0 then
        (if last b AND 0x7f = 0
         then \<not> (length b \<le> 1 \<or> b ! (length b - 2) AND 0x80 = 0)
         else True)
      else True)"

text \<open>The loop of \<open>MinimallyEncode\<close>, from index \<open>i\<close> down.\<close>

primrec trim_loop :: "nat \<Rightarrow> u8 \<Rightarrow> bytes \<Rightarrow> bytes" where
  "trim_loop 0 lst data = []"
| "trim_loop (Suc i) lst data =
     (if data ! i \<noteq> 0 then
        (if data ! i AND 0x80 \<noteq> 0 then take (i + 2) (data[i + 1 := lst])
         else take (i + 1) (data[i := data ! i OR lst]))
      else trim_loop i lst data)"

definition MinimallyEncode :: "bytes \<Rightarrow> bool \<times> bytes" where
  "MinimallyEncode data =
     (if length data = 0 then (False, data)
      else if last data AND 0x7f \<noteq> 0 then (False, data)
      else if length data = 1 then (True, [])
      else if data ! (length data - 2) AND 0x80 \<noteq> 0 then (False, data)
      else (True, trim_loop (length data - 1) (last data) data))"

text \<open>The constructor from bytes, which throws, and the conversion to \<open>int\<close>.\<close>

definition scriptnum_read :: "bytes \<Rightarrow> bool \<Rightarrow> nat \<Rightarrow> CScriptNum option" where
  "scriptnum_read b fRequireMinimal nMaxNumSize =
     (if length b > nMaxNumSize then None
      else if fRequireMinimal \<and> \<not> IsMinimallyEncoded b nMaxNumSize then None
      else Some (set_vch b))"

definition getint :: "CScriptNum \<Rightarrow> int" where
  "getint v = (if v > 2 ^ 31 - 1 then 2 ^ 31 - 1 else if v < - (2 ^ 31) then - (2 ^ 31) else v)"

section \<open>Values\<close>

primrec le_val :: "bytes \<Rightarrow> nat" where
  "le_val [] = 0"
| "le_val (x # xs) = unat x + 256 * le_val xs"

definition num_val :: "bytes \<Rightarrow> int" where
  "num_val b =
     (if b = [] then 0
      else let x = unat (last b); m = le_val (butlast b)
           in if x < 128 then int (m + 256 ^ (length b - 1) * x)
              else - int (m + 256 ^ (length b - 1) * (x - 128)))"

lemma unat_u8: "unat (x :: u8) < 256"
  using unsigned_less [of x] by simp

lemma u8_eqI: "unat x = unat y \<Longrightarrow> x = (y :: u8)"
  by (rule unsigned_word_eqI)

lemma sign_bit: "x AND 0x80 = 0 \<longleftrightarrow> unat (x :: u8) < 128"
proof -
  have "x AND 0x80 = 0 \<longleftrightarrow> \<not> bit x 7"
  proof
    assume "x AND 0x80 = 0"
    then have "\<not> bit (x AND 0x80) 7" by simp
    then show "\<not> bit x 7" by (simp add: bit_simps)
  next
    assume n: "\<not> bit x 7"
    have bit: "bit (0x80 :: u8) k \<longleftrightarrow> k = 7" if "k < 8" for k
      using that by (auto simp: less_Suc_eq numeral_eq_Suc)
    show "x AND 0x80 = 0"
    proof (rule bit_word_eqI)
      fix k assume "k < LENGTH(8)"
      then have "k < 8" by simp
      from bit [OF this] n show "bit (x AND 0x80) k = bit 0 k" by (auto simp: bit_and_iff)
    qed
  qed
  moreover have "bit x 7 \<longleftrightarrow> odd (unat x div 128)"
    using bit_iff_odd [of "unat x" 7] by (simp add: bit_unsigned_iff)
  moreover have "odd (unat x div 128) \<longleftrightarrow> \<not> unat x < 128"
  proof -
    have "unat x div 128 < 2" using unat_u8 [of x] by (simp add: less_mult_imp_div_less)
    moreover have "unat x div 128 = 0 \<longleftrightarrow> unat x < 128" by (simp add: div_eq_0_iff)
    ultimately show ?thesis by (cases "unat x div 128") auto
  qed
  ultimately show ?thesis by simp
qed

lemma low_bits: "unat (x AND 0x7f :: u8) = unat x mod 128"
proof -
  have "x AND 0x7f = take_bit 7 x" by (simp add: take_bit_eq_mask mask_eq_exp_minus_1)
  moreover have "unat (take_bit 7 x) = take_bit 7 (unat x)" by (rule unsigned_take_bit_eq)
  moreover have "take_bit 7 (unat x) = unat x mod 128" by (simp add: take_bit_eq_mod)
  ultimately show ?thesis by (simp only:)
qed

lemma unat_or_disjoint:
  assumes "x AND y = 0" "unat x + unat y < 2 ^ LENGTH('a)"
  shows "unat (x OR y :: 'a::len word) = unat x + unat y"
proof -
  have "x OR y = x + y" using word_plus_and_or [of x y] assms(1) by simp
  then show ?thesis using assms(2) by (simp add: unat_word_ariths)
qed

lemma unat_or_eq_add:
  assumes "x AND y = (0 :: 'a::len word)"
  shows "unat (x OR y) = unat x + unat y"
proof -
  have "unat x AND unat y = 0" using assms by (metis unsigned_0 unsigned_and_eq)
  then have "unat x OR unat y = unat x + unat y" by (simp add: disjunctive_add bit_eq_iff bit_and_iff)
  then show ?thesis by (simp add: unsigned_or_eq)
qed

lemma le_val_less: "le_val xs < 256 ^ length xs"
proof (induction xs)
  case (Cons x xs)
  then have "unat x + 256 * le_val xs < 256 * Suc (le_val xs)" using unat_u8 [of x] by simp
  also have "256 * Suc (le_val xs) \<le> 256 * 256 ^ length xs" using Cons by (intro mult_le_mono2) simp
  finally show ?case by simp
qed simp

lemma le_val_append: "le_val (xs @ ys) = le_val xs + 256 ^ length xs * le_val ys"
  by (induction xs) (simp_all add: algebra_simps)

lemma unat_bytes_word: "8 * length xs \<le> LENGTH('a) \<Longrightarrow> unat (bytes_word xs :: 'a::len word) = le_val xs"
proof (induction xs)
  case (Cons x xs)
  let ?w = "bytes_word xs :: 'a word"
  have w: "unat ?w = le_val xs" using Cons by simp
  have pow: "(2 :: nat) ^ LENGTH('a) = 256 ^ Suc (length xs) * 2 ^ (LENGTH('a) - 8 * Suc (length xs))"
  proof -
    have "(256 :: nat) ^ Suc (length xs) = 2 ^ (8 * Suc (length xs))" by (simp only: power_mult) simp
    then show ?thesis using Cons.prems by (simp only: power_add [symmetric]) simp
  qed
  have l: "unat x + 256 * le_val xs < 2 ^ LENGTH('a)"
    using le_val_less [of "x # xs"] pow by (simp add: order_less_le_trans)
  have "unat (push_bit 8 ?w) = 256 * le_val xs"
  proof -
    have "uint (push_bit 8 ?w) = take_bit LENGTH('a) (push_bit 8 (uint ?w))" by (rule unsigned_push_bit_eq)
    also have "\<dots> = (256 * int (le_val xs)) mod 2 ^ LENGTH('a)"
      by (simp only: take_bit_eq_mod push_bit_eq_mult w [symmetric]) (simp add: mult.commute)
    also have "\<dots> = 256 * int (le_val xs)" 
    proof (rule mod_pos_pos_trivial)
      have "int (256 * le_val xs) < int (2 ^ LENGTH('a))" using l by (simp only: of_nat_less_iff)
      then show "256 * int (le_val xs) < 2 ^ LENGTH('a)" by simp
    qed simp
    finally have "int (unat (push_bit 8 ?w)) = int (256 * le_val xs)" by simp
    then show ?thesis by (simp only: of_nat_eq_iff)
  qed
  moreover have "unat (ucast x :: 'a word) = unat x" 
  proof -
    have "unat (ucast x :: 'a word) = take_bit LENGTH('a) (unat x)" by (rule unsigned_ucast_eq)
    also have "\<dots> = unat x" using l by (simp add: take_bit_eq_mod)
    finally show ?thesis .
  qed
  moreover have "ucast x AND push_bit 8 ?w = 0"
    by (rule bit_word_eqI) (auto simp: bit_simps dest: bit_imp_le_length)
  ultimately show ?case using l by (simp add: unat_or_disjoint)
qed simp

lemma num_val_snoc:
  "num_val (xs @ [x]) =
    (if unat x < 128 then int (le_val xs + 256 ^ length xs * unat x)
     else - int (le_val xs + 256 ^ length xs * (unat x - 128)))"
  by (simp add: num_val_def Let_def)

lemma sint_unat:
  assumes "unat (w :: u64) = k" "k < 2 ^ 63"
  shows "sint w = int k"
proof -
  have "uint w = int k" unfolding assms(1) [symmetric] by simp
  moreover have "int k < 2 ^ 63" using assms(2) by (simp flip: of_nat_less_iff)
  ultimately have "sint (word_of_int (uint w) :: u64) = uint w" by (intro sint_word_of_int) (simp add: in_i64_def INT64_MAX_def)
  then have "sint w = uint w" by (simp only: word_of_int_uint)
  then show ?thesis using \<open>uint w = int k\<close> by (rule trans)
qed

lemma set_vch_val: "length b \<le> 8 \<Longrightarrow> set_vch b = num_val b"
proof (cases b rule: rev_cases)
  case (snoc xs x)
  assume "length b \<le> 8"
  then have n: "length xs \<le> 7" using snoc by simp
  let ?r = "bytes_word b :: u64"
  have r: "unat ?r = le_val xs + 256 ^ length xs * unat x"
    using unat_bytes_word [where ?'a = 64, of b] n snoc by (simp add: le_val_append)
  have pow: "(256 :: nat) ^ length xs \<le> 256 ^ 7" using n by (intro power_increasing) simp_all
  have l: "le_val xs < 256 ^ length xs" by (rule le_val_less)
  have bound: "le_val xs + 256 ^ length xs * y < 2 ^ 63" if "y < 128" for y
  proof -
    have "le_val xs + 256 ^ length xs * y < 256 ^ length xs * Suc y" using l by simp
    also have "\<dots> \<le> 256 ^ 7 * 128" using that pow by (intro mult_le_mono) simp_all
    finally show ?thesis by simp
  qed
  show ?thesis
  proof (cases "unat x < 128")
    case True
    show ?thesis using True snoc sint_unat [OF r bound [OF True]] by (simp add: set_vch_def Let_def sign_bit num_val_snoc)
  next
    case False
    let ?m = "push_bit (8 * length xs) 0x80 :: u64" and ?k = "8 * length xs + 7"
    have m: "?m = push_bit ?k 1"
    proof -
      have "(0x80 :: u64) = push_bit 7 1" by simp
      then show ?thesis by (simp only: push_bit_push_bit)
    qed
    have p: "(2 :: nat) ^ ?k = 256 ^ length xs * 128" by (simp add: power_add power_mult)
    have "unat ?r div 2 ^ ?k = unat x div 128"
      using l by (simp only: r p div_mult2_eq) simp
    moreover have "unat x div 128 = 1" using False unat_u8 [of x] by (simp add: div_nat_eqI)
    ultimately have "bit (unat ?r) ?k" by (simp add: bit_iff_odd)
    then have bit: "bit ?r ?k" by (simp add: bit_unsigned_iff)
    have disj: "(?r AND NOT ?m) AND ?m = 0" by (rule bit_word_eqI) (simp add: bit_simps)
    have "?r = (?r AND NOT ?m) OR ?m"
      by (rule bit_word_eqI) (use bit in \<open>auto simp: m bit_simps\<close>)
    moreover have um: "unat ?m = 256 ^ length xs * 128"
    proof -
      have "uint (push_bit ?k (1 :: u64)) = take_bit LENGTH(64) (push_bit ?k (uint (1 :: u64)))"
        by (rule unsigned_push_bit_eq)
      also have "\<dots> = 2 ^ ?k mod 2 ^ LENGTH(64)" by (simp only: take_bit_eq_mod push_bit_eq_mult uint_1_eq mult_1)
      also have "\<dots> = 2 ^ ?k" using n by (intro mod_pos_pos_trivial power_strict_increasing) simp_all
      finally have "int (unat (push_bit ?k (1 :: u64))) = int (2 ^ ?k)" by simp
      then show ?thesis unfolding m p [symmetric] by (simp only: of_nat_eq_iff)
    qed
    ultimately have "unat ?r = unat (?r AND NOT ?m) + 256 ^ length xs * 128"
      using unat_or_eq_add [OF disj] by simp
    then have "unat (?r AND NOT ?m) = le_val xs + 256 ^ length xs * (unat x - 128)"
      using r False by (simp add: diff_mult_distrib2)
    moreover have "unat x - 128 < 128" using unat_u8 [of x] False by linarith
    ultimately have "sint (?r AND NOT ?m) = int (le_val xs + 256 ^ length xs * (unat x - 128))"
      using bound [of "unat x - 128"] by (intro sint_unat) simp_all
    then show ?thesis using False snoc by (simp add: set_vch_def Let_def sign_bit num_val_snoc)
  qed
qed (simp add: set_vch_def num_val_def)

section \<open>Shortest encodings\<close>

definition canonical :: "bytes \<Rightarrow> bool" where
  "canonical xs \<longleftrightarrow> xs = [] \<or> last xs \<noteq> 0"

lemma canonical_pos: "canonical xs \<Longrightarrow> xs \<noteq> [] \<Longrightarrow> 0 < le_val xs"
proof (induction xs)
  case (Cons x xs)
  then show ?case by (cases xs) (auto simp: canonical_def unat_gt_0)
qed simp

lemma canonical_unique:
  assumes "canonical xs" "canonical ys" "le_val xs = le_val ys"
  shows "xs = ys"
  using assms
proof (induction xs arbitrary: ys)
  case Nil
  then show ?case using canonical_pos [of ys] by auto
next
  case (Cons x xs)
  then have "ys \<noteq> []" using canonical_pos [of "x # xs"] by auto
  then obtain y zs where ys: "ys = y # zs" by (cases ys) auto
  have e: "unat x + 256 * le_val xs = unat y + 256 * le_val zs" using Cons.prems(3) ys by simp
  then have "(unat x + 256 * le_val xs) mod 256 = (unat y + 256 * le_val zs) mod 256" by (rule arg_cong)
  then have u: "unat x = unat y" using unat_u8 [of x] unat_u8 [of y] by simp
  then have "x = y" by (rule unsigned_word_eqI)
  moreover have "canonical xs" "canonical zs" using Cons.prems(1,2) ys by (auto simp: canonical_def split: if_splits)
  ultimately show ?case using Cons.IH [of zs] e u ys by simp
qed

lemma unat_drop8: "unat (drop_bit 8 a :: u64) = unat a div 256"
proof -
  have "unat (drop_bit 8 a) = drop_bit 8 (unat a)" by (rule unat_drop_bit_eq)
  then show ?thesis by (simp add: drop_bit_eq_div)
qed

lemma unat_low8: "unat (ucast (a AND 0xff) :: u8) = unat (a :: u64) mod 256"
proof -
  have "a AND 0xff = take_bit 8 a" by (simp add: take_bit_eq_mask mask_eq_exp_minus_1)
  moreover have "ucast (take_bit 8 a) = (ucast a :: u8)" by (rule bit_word_eqI) (simp add: bit_simps)
  moreover have "unat (ucast a :: u8) = take_bit LENGTH(8) (unat a)" by (rule unsigned_ucast_eq)
  ultimately show ?thesis by (simp only: take_bit_eq_mod) simp
qed

lemma abs_bytes_spec: "le_val (abs_bytes a) = unat a \<and> canonical (abs_bytes a)"
proof (induction a rule: abs_bytes.induct)
  case (1 a)
  show ?case
  proof (cases "a = 0")
    case True
    then show ?thesis by (simp add: abs_bytes.simps [of 0] canonical_def)
  next
    case False
    have "canonical (abs_bytes a)"
    proof (cases "abs_bytes (drop_bit 8 a) = []")
      case True
      then have "unat a div 256 = 0" using 1 [OF False] unat_drop8 [of a] by simp
      then have "unat (ucast (a AND 0xff) :: u8) \<noteq> 0" using False by (simp add: unat_low8 div_eq_0_iff unat_eq_0)
      then show ?thesis using True False by (simp add: abs_bytes.simps [of a] canonical_def unat_eq_0)
    next
      case no: False
      then show ?thesis using 1 [OF False] False by (simp add: abs_bytes.simps [of a] canonical_def)
    qed
    then show ?thesis using 1 [OF False] False
      by (simp add: abs_bytes.simps [of a] unat_low8 unat_drop8)
  qed
qed

lemma abs_bytes_canonical:
  assumes "canonical xs" "le_val xs = unat a"
  shows "abs_bytes a = xs"
  using abs_bytes_spec [of a] canonical_unique [of "abs_bytes a" xs] assms by simp

lemma absvalue:
  assumes "in_i64 v"
  shows "unat ((if v < 0 then NOT (word_of_int v) + 1 else word_of_int v) :: u64) = nat \<bar>v\<bar>"
proof -
  have "NOT (word_of_int v) + 1 = (word_of_int (- v) :: u64)" by (simp add: minus_eq_not_plus_1 flip: minus_eq_not_plus_1)
  then have eq: "(if v < 0 then NOT (word_of_int v) + 1 else word_of_int v) = (word_of_int \<bar>v\<bar> :: u64)" by simp
  have "uint (word_of_int \<bar>v\<bar> :: u64) = \<bar>v\<bar>"
  proof -
    have "\<bar>v\<bar> < 2 ^ 64" using assms unfolding in_i64_def INT64_MAX_def by (simp add: abs_less_iff)
    then show ?thesis unfolding uint_word_of_int by (intro mod_pos_pos_trivial) simp_all
  qed
  then have "int (unat (word_of_int \<bar>v\<bar> :: u64)) = \<bar>v\<bar>" by simp
  then have "unat (word_of_int \<bar>v\<bar> :: u64) = nat \<bar>v\<bar>" by linarith
  then show ?thesis unfolding eq .
qed

lemma serialize_eq:
  assumes "in_i64 v" "canonical c" "le_val c = nat \<bar>v\<bar>"
  shows "scriptnum_serialize v =
    (if v = 0 then []
     else if unat (last c) \<ge> 128 then c @ [if v < 0 then 0x80 else 0]
     else if v < 0 then butlast c @ [last c OR 0x80] else c)"
proof (cases "v = 0")
  case False
  then have "c \<noteq> []" using assms(3) by auto
  moreover have "abs_bytes (if v < 0 then NOT (word_of_int v) + 1 else word_of_int v) = c"
    using absvalue [OF assms(1)] assms(2,3) by (intro abs_bytes_canonical) simp_all
  moreover have "c[length c - 1 := y] = butlast c @ [y]" for y
    using \<open>c \<noteq> []\<close> by (cases c rule: rev_cases) simp_all
  ultimately show ?thesis using False
    by (cases "v < 0") (simp_all add: scriptnum_serialize_def Let_def sign_bit not_less)
qed (simp add: scriptnum_serialize_def)

lemma unat_or_sign: "unat (x :: u8) < 128 \<Longrightarrow> unat (x OR 0x80) = unat x + 128"
  using unat_or_eq_add [of x "0x80"] by (simp add: sign_bit)

lemma minimal_snoc:
  "IsMinimallyEncoded (xs @ [x]) n \<longleftrightarrow>
    length xs < n \<and> (unat x mod 128 \<noteq> 0 \<or> (xs \<noteq> [] \<and> 128 \<le> unat (last xs)))"
proof -
  have "x AND 0x7f = 0 \<longleftrightarrow> unat x mod 128 = 0" by (metis low_bits unat_eq_0)
  moreover have "(xs @ [x]) ! (length xs - 1) = last xs" if "xs \<noteq> []" using that by (simp add: nth_append last_conv_nth)
  ultimately show ?thesis
    by (cases "xs = []") (auto simp: IsMinimallyEncoded_def sign_bit not_less Suc_le_eq)
qed

lemma magnitude_bound:
  assumes "length xs \<le> 7" "y < 128"
  shows "le_val xs + 256 ^ length xs * y < 2 ^ 63"
proof -
  have "le_val xs + 256 ^ length xs * y < 256 ^ length xs * Suc y" using le_val_less [of xs] by simp
  also have "\<dots> \<le> 256 ^ 7 * 128" using assms by (intro mult_le_mono power_increasing) simp_all
  finally show ?thesis by simp
qed

lemma in_i64_nat: "k < 2 ^ 63 \<Longrightarrow> in_i64 (if p then - int k else int k)"
  by (simp add: in_i64_def INT64_MAX_def)

lemma num_val_bound:
  assumes "length b \<le> 8"
  shows "in_i64 (num_val b)"
proof (cases b rule: rev_cases)
  case (snoc xs x)
  define y where "y = (if unat x < 128 then unat x else unat x - 128)"
  have "y < 128" using unat_u8 [of x] by (simp add: y_def) linarith
  then have k: "le_val xs + 256 ^ length xs * y < 2 ^ 63" using assms snoc by (intro magnitude_bound) simp_all
  have "num_val b = (if \<not> unat x < 128 then - int (le_val xs + 256 ^ length xs * y) else int (le_val xs + 256 ^ length xs * y))"
    using snoc by (simp add: num_val_snoc y_def)
  then show ?thesis using in_i64_nat [OF k] by (simp only:)
qed (simp add: num_val_def in_i64_def INT64_MAX_def)

lemma serialize_minimal:
  assumes "in_i64 v"
  shows "num_val (scriptnum_serialize v) = v"
    "length (scriptnum_serialize v) \<le> n \<Longrightarrow> IsMinimallyEncoded (scriptnum_serialize v) n"
proof -
  let ?c = "abs_bytes (if v < 0 then NOT (word_of_int v) + 1 else word_of_int v)"
  have c: "canonical ?c" "le_val ?c = nat \<bar>v\<bar>" using abs_bytes_spec absvalue [OF assms] by simp_all
  note eq = serialize_eq [OF assms c]
  have "num_val (scriptnum_serialize v) = v \<and>
    (length (scriptnum_serialize v) \<le> n \<longrightarrow> IsMinimallyEncoded (scriptnum_serialize v) n)"
  proof (cases "v = 0")
    case True
    then show ?thesis unfolding eq by (simp add: num_val_def IsMinimallyEncoded_def)
  next
    case False
    then obtain xs x where x: "?c = xs @ [x]" using c(2) by (cases ?c rule: rev_cases) auto
    have nz: "unat x \<noteq> 0" using c(1) x by (simp add: canonical_def unat_eq_0)
    have m: "int (le_val xs + 256 ^ length xs * unat x) = \<bar>v\<bar>" using c(2) x by (simp add: le_val_append)
    show ?thesis
    proof (cases "unat x < 128")
      case True
      then show ?thesis
        using m nz \<open>v \<noteq> 0\<close> unfolding eq x
        by (simp add: num_val_snoc unat_or_sign [OF True] minimal_snoc)
    next
      case no: False
      have "num_val ((xs @ [x]) @ [y]) = (if unat y < 128 then \<bar>v\<bar> else - \<bar>v\<bar>)" if "y = 0 \<or> y = 0x80" for y
        unfolding num_val_snoc [of "xs @ [x]"] using m that by (auto simp: le_val_append)
      moreover have "IsMinimallyEncoded ((xs @ [x]) @ [y]) n \<longleftrightarrow> length xs + 1 < n" for y
        unfolding minimal_snoc [of "xs @ [x]"] using no by simp
      ultimately show ?thesis using no \<open>v \<noteq> 0\<close> unfolding eq x by simp
    qed
  qed
  then show "num_val (scriptnum_serialize v) = v"
    "length (scriptnum_serialize v) \<le> n \<Longrightarrow> IsMinimallyEncoded (scriptnum_serialize v) n" by simp_all
qed

lemma serialize_num_val:
  assumes "IsMinimallyEncoded b n" "length b \<le> 8"
  shows "scriptnum_serialize (num_val b) = b"
proof (cases b rule: rev_cases)
  case Nil
  then show ?thesis by (simp add: num_val_def scriptnum_serialize_def)
next
  case (snoc xs x)
  have m: "unat x mod 128 \<noteq> 0 \<or> (xs \<noteq> [] \<and> 128 \<le> unat (last xs))"
    using assms(1) minimal_snoc snoc by simp
  let ?y = "x AND 0x7f" and ?neg = "\<not> unat x < 128"
  define c where "c = (if unat x mod 128 = 0 then xs else xs @ [?y])"
  have y: "unat ?y = (if ?neg then unat x - 128 else unat x)" "unat ?y = unat x mod 128"
    using low_bits [of x] unat_u8 [of x] by (simp_all add: mod_if [of "unat x" 128])
  have can: "canonical c" using m y(2) by (auto simp: c_def canonical_def unat_eq_0)
  have val: "le_val c = le_val xs + 256 ^ length xs * unat ?y" using y(2) by (simp add: c_def le_val_append)
  have v: "num_val b = (if ?neg then - int (le_val c) else int (le_val c))"
    using snoc y(1) unfolding val by (simp add: num_val_snoc)
  have i: "in_i64 (num_val b)" by (rule num_val_bound [OF assms(2)])
  have pos: "0 < le_val c" by (rule canonical_pos [OF can]) (use m in \<open>auto simp: c_def\<close>)
  have ser: "scriptnum_serialize (num_val b) =
      (if unat (last c) \<ge> 128 then c @ [if ?neg then 0x80 else 0]
       else if ?neg then butlast c @ [last c OR 0x80] else c)"
    using serialize_eq [OF i can] pos v by (auto split: if_splits)
  show ?thesis
  proof (cases "unat x mod 128 = 0")
    case True
    then have "x = (if ?neg then 0x80 else 0)"
      using unat_u8 [of x] by (auto simp: mod_if [of "unat x" 128] unat_eq_0 split: if_splits intro!: u8_eqI)
    then show ?thesis using True m snoc ser by (simp add: c_def)
  next
    case False
    have "x = (if ?neg then ?y OR 0x80 else ?y)"
      by (rule u8_eqI) (use y unat_or_sign [of ?y] in auto)
    then show ?thesis using False snoc ser y(2) by (auto simp: c_def not_le)
  qed
qed

text \<open>
  numbers of scripts. What is written reads back, and is the shortest form; conversely exactly the shortest forms,
  those that \<open>IsMinimallyEncoded\<close> accepts, are what is written for the number that they stand for.
\<close>

theorem scriptnum_roundtrip:
  assumes "in_i64 v" "length (scriptnum_serialize v) \<le> 8" "length b \<le> 8"
  shows "set_vch (scriptnum_serialize v) = v \<and>
    (IsMinimallyEncoded b n \<longleftrightarrow> length b \<le> n \<and> scriptnum_serialize (set_vch b) = b)"
proof
  show "set_vch (scriptnum_serialize v) = v" using serialize_minimal(1) [OF assms(1)] set_vch_val [OF assms(2)] by simp
  have "in_i64 (set_vch b)" using assms(3) by (simp add: set_vch_val num_val_bound)
  then show "IsMinimallyEncoded b n \<longleftrightarrow> length b \<le> n \<and> scriptnum_serialize (set_vch b) = b"
    using serialize_num_val [OF _ assms(3), of n] serialize_minimal(2) [of "set_vch b" n]
    by (auto simp: set_vch_val [OF assms(3)] IsMinimallyEncoded_def split: if_splits)
qed

theorem scriptnum_roundtrip_witness:
  "set_vch (scriptnum_serialize (- 255)) = - 255 \<and> IsMinimallyEncoded [0xff, 0x80] 2 \<and>
   scriptnum_serialize (set_vch [0xff, 0x80]) = [0xff, 0x80] \<and> \<not> IsMinimallyEncoded [0x7f, 0x80] 2"
proof -
  have s: "scriptnum_serialize (- 255) = [0xff, 0x80]" by code_simp
  have i: "in_i64 (- 255)" by (simp add: in_i64_def INT64_MAX_def)
  have l: "length (scriptnum_serialize (- 255)) \<le> 8" by (simp add: s)
  have m: "IsMinimallyEncoded [0xff, 0x80] 2" "\<not> IsMinimallyEncoded [0x7f, 0x80] 2" by code_simp+
  have b: "length [0xff, 0x80 :: u8] \<le> 8" by simp
  show ?thesis using scriptnum_roundtrip [OF i l b, of 2] m by simp
qed

section \<open>Shortening\<close>

lemma sign_only:
  assumes "unat lst mod 128 = 0"
  shows "lst = 0 \<or> lst = (0x80 :: u8)"
proof -
  have "unat lst = 0 \<or> unat lst = 128" using assms unat_u8 [of lst] by (auto simp: mod_if [of "unat lst" 128] split: if_splits)
  then show ?thesis by (auto intro!: u8_eqI simp: unat_eq_0)
qed

lemma unat_or_zero: "unat lst mod 128 = 0 \<Longrightarrow> unat (x :: u8) < 128 \<Longrightarrow>
    unat (x OR lst) = (if unat lst < 128 then unat x else unat x + 128)"
  using sign_only [of lst] unat_or_sign [of x] by auto

lemma trim_loop_spec:
  assumes "unat lst mod 128 = 0" "i < length data"
  shows "num_val (trim_loop i lst data) = num_val (take i data @ [lst]) \<and>
    (\<forall>n. length (trim_loop i lst data) \<le> n \<longrightarrow> IsMinimallyEncoded (trim_loop i lst data) n) \<and>
    length (trim_loop i lst data) \<le> (if i = 0 \<or> unat (data ! (i - 1)) < 128 then i else i + 1)"
  using assms(2)
proof (induction i)
  case 0
  show ?case using sign_only [OF assms(1)] by (auto simp: num_val_def IsMinimallyEncoded_def)
next
  case (Suc i)
  let ?x = "data ! i"
  have take: "take (Suc i) data = take i data @ [?x]" using Suc.prems by (simp add: take_Suc_conv_app_nth)
  have lst: "lst = 0 \<or> lst = 0x80" by (rule sign_only [OF assms(1)])
  have val: "num_val (take (Suc i) data @ [lst]) =
      (if unat lst < 128 then int (le_val (take i data) + 256 ^ i * unat ?x) else - int (le_val (take i data) + 256 ^ i * unat ?x))"
    unfolding num_val_snoc take using lst Suc.prems by (auto simp: le_val_append)
  consider "?x = 0" | "?x \<noteq> 0" "unat ?x < 128" | "128 \<le> unat ?x" by linarith
  then show ?case
  proof cases
    case 1
    have "num_val (take (Suc i) data @ [lst]) = num_val (take i data @ [lst])"
      unfolding val num_val_snoc using lst 1 by (auto simp: take le_val_append)
    then show ?thesis using Suc.IH Suc.prems 1 by (auto simp: le_Suc_eq split: if_splits)
  next
    case 2
    then have t: "trim_loop (Suc i) lst data = take i data @ [?x OR lst]"
      using Suc.prems by (simp add: sign_bit take_Suc_conv_app_nth)
    have u: "unat (?x OR lst) = (if unat lst < 128 then unat ?x else unat ?x + 128)" by (rule unat_or_zero [OF assms(1) 2(2)])
    have "unat ?x \<noteq> 0" using 2(1) by (simp add: unat_eq_0)
    then show ?thesis unfolding val t num_val_snoc minimal_snoc u using 2 Suc.prems lst by (auto simp: take le_val_append)
  next
    case 3
    then have "?x \<noteq> 0" by auto
    then have t: "trim_loop (Suc i) lst data = (take i data @ [?x]) @ [lst]"
      using Suc.prems 3 by (simp add: sign_bit take_Suc_conv_app_nth)
    show ?thesis unfolding val t num_val_snoc minimal_snoc using 3 Suc.prems lst by (auto simp: take le_val_append)
  qed
qed

lemma MinimallyEncode_spec:
  "num_val (snd (MinimallyEncode b)) = num_val b \<and> IsMinimallyEncoded (snd (MinimallyEncode b)) (length b) \<and>
   fst (MinimallyEncode b) = (snd (MinimallyEncode b) \<noteq> b) \<and> length (snd (MinimallyEncode b)) \<le> length b"
proof (cases b rule: rev_cases)
  case Nil
  then show ?thesis by (simp add: MinimallyEncode_def IsMinimallyEncoded_def)
next
  case (snoc xs x)
  have low: "x AND 0x7f = 0 \<longleftrightarrow> unat x mod 128 = 0" by (metis low_bits unat_eq_0)
  have prev: "b ! (length b - 2) = last xs" if "xs \<noteq> []" using that snoc by (simp add: nth_append last_conv_nth)
  have res: "MinimallyEncode b =
      (if unat x mod 128 \<noteq> 0 then (False, b) else if xs = [] then (True, [])
       else if 128 \<le> unat (last xs) then (False, b) else (True, trim_loop (length xs) x b))"
    using snoc prev by (simp add: MinimallyEncode_def low sign_bit)
  show ?thesis
  proof (cases "unat x mod 128 = 0 \<and> xs \<noteq> [] \<and> unat (last xs) < 128")
    case True
    have "b ! (length xs - 1) = last xs" using prev True snoc by simp
    then have "num_val (trim_loop (length xs) x b) = num_val b \<and> IsMinimallyEncoded (trim_loop (length xs) x b) (length b) \<and>
        length (trim_loop (length xs) x b) < length b"
      using trim_loop_spec [of x "length xs" b] True snoc by auto
    then show ?thesis using res True by auto
  next
    case False
    have "num_val [x] = 0" if "unat x mod 128 = 0"
      using num_val_snoc [of "[]" x] sign_only [OF that] by auto
    then show ?thesis using False res snoc by (auto simp: minimal_snoc num_val_def [of "[]"] IsMinimallyEncoded_def [of "[]"])
  qed
qed

text \<open>
  \<open>MinimallyEncode\<close> turns any bytes into the shortest form of the number that they stand for, and says whether
  it changed them.
\<close>

theorem minimally_encode_correct:
  "num_val (snd (MinimallyEncode b)) = num_val b \<and> IsMinimallyEncoded (snd (MinimallyEncode b)) (length b) \<and>
   fst (MinimallyEncode b) = (snd (MinimallyEncode b) \<noteq> b)"
  using MinimallyEncode_spec [of b] by blast

end
