(* ===== verification/ScriptOps.thy ===== *)
theory ScriptOps
  imports ScriptNum
begin

text \<open>
  Scripts as lists of bytes: the opcodes, reading one operation, building scripts, the recognized forms of outputs and
  the counting of signature operations, from \<open>src/script/script.h\<close> and \<open>src/script/script.cpp\<close>. An iterator into a
  script is the rest of the script from there on; a script is shorter than \<open>2 ^ 27\<close> bytes, so the counts, of at most
  twenty for a byte, do not wrap.
\<close>

section \<open>Opcodes\<close>

definition OP_0 :: u8 where "OP_0 = 0x00"
definition OP_PUSHDATA1 :: u8 where "OP_PUSHDATA1 = 0x4c"
definition OP_PUSHDATA2 :: u8 where "OP_PUSHDATA2 = 0x4d"
definition OP_PUSHDATA4 :: u8 where "OP_PUSHDATA4 = 0x4e"
definition OP_1NEGATE :: u8 where "OP_1NEGATE = 0x4f"
definition OP_RESERVED :: u8 where "OP_RESERVED = 0x50"
definition OP_1 :: u8 where "OP_1 = 0x51"
definition OP_2 :: u8 where "OP_2 = 0x52"
definition OP_3 :: u8 where "OP_3 = 0x53"
definition OP_4 :: u8 where "OP_4 = 0x54"
definition OP_5 :: u8 where "OP_5 = 0x55"
definition OP_6 :: u8 where "OP_6 = 0x56"
definition OP_7 :: u8 where "OP_7 = 0x57"
definition OP_8 :: u8 where "OP_8 = 0x58"
definition OP_9 :: u8 where "OP_9 = 0x59"
definition OP_10 :: u8 where "OP_10 = 0x5a"
definition OP_11 :: u8 where "OP_11 = 0x5b"
definition OP_12 :: u8 where "OP_12 = 0x5c"
definition OP_13 :: u8 where "OP_13 = 0x5d"
definition OP_14 :: u8 where "OP_14 = 0x5e"
definition OP_15 :: u8 where "OP_15 = 0x5f"
definition OP_16 :: u8 where "OP_16 = 0x60"
definition OP_NOP :: u8 where "OP_NOP = 0x61"
definition OP_VER :: u8 where "OP_VER = 0x62"
definition OP_IF :: u8 where "OP_IF = 0x63"
definition OP_NOTIF :: u8 where "OP_NOTIF = 0x64"
definition OP_VERIF :: u8 where "OP_VERIF = 0x65"
definition OP_VERNOTIF :: u8 where "OP_VERNOTIF = 0x66"
definition OP_ELSE :: u8 where "OP_ELSE = 0x67"
definition OP_ENDIF :: u8 where "OP_ENDIF = 0x68"
definition OP_VERIFY :: u8 where "OP_VERIFY = 0x69"
definition OP_TOALTSTACK :: u8 where "OP_TOALTSTACK = 0x6b"
definition OP_FROMALTSTACK :: u8 where "OP_FROMALTSTACK = 0x6c"
definition OP_2DROP :: u8 where "OP_2DROP = 0x6d"
definition OP_2DUP :: u8 where "OP_2DUP = 0x6e"
definition OP_3DUP :: u8 where "OP_3DUP = 0x6f"
definition OP_2OVER :: u8 where "OP_2OVER = 0x70"
definition OP_2ROT :: u8 where "OP_2ROT = 0x71"
definition OP_2SWAP :: u8 where "OP_2SWAP = 0x72"
definition OP_IFDUP :: u8 where "OP_IFDUP = 0x73"
definition OP_DEPTH :: u8 where "OP_DEPTH = 0x74"
definition OP_DROP :: u8 where "OP_DROP = 0x75"
definition OP_NIP :: u8 where "OP_NIP = 0x77"
definition OP_OVER :: u8 where "OP_OVER = 0x78"
definition OP_PICK :: u8 where "OP_PICK = 0x79"
definition OP_ROLL :: u8 where "OP_ROLL = 0x7a"
definition OP_ROT :: u8 where "OP_ROT = 0x7b"
definition OP_SWAP :: u8 where "OP_SWAP = 0x7c"
definition OP_TUCK :: u8 where "OP_TUCK = 0x7d"
definition OP_CAT :: u8 where "OP_CAT = 0x7e"
definition OP_SPLIT :: u8 where "OP_SPLIT = 0x7f"
definition OP_SIZE :: u8 where "OP_SIZE = 0x82"
definition OP_NUM2BIN :: u8 where "OP_NUM2BIN = 0x80"
definition OP_BIN2NUM :: u8 where "OP_BIN2NUM = 0x81"
definition OP_INVERT :: u8 where "OP_INVERT = 0x83"
definition OP_AND :: u8 where "OP_AND = 0x84"
definition OP_OR :: u8 where "OP_OR = 0x85"
definition OP_XOR :: u8 where "OP_XOR = 0x86"
definition OP_RESERVED1 :: u8 where "OP_RESERVED1 = 0x89"
definition OP_RESERVED2 :: u8 where "OP_RESERVED2 = 0x8a"
definition OP_1ADD :: u8 where "OP_1ADD = 0x8b"
definition OP_1SUB :: u8 where "OP_1SUB = 0x8c"
definition OP_2MUL :: u8 where "OP_2MUL = 0x8d"
definition OP_2DIV :: u8 where "OP_2DIV = 0x8e"
definition OP_NEGATE :: u8 where "OP_NEGATE = 0x8f"
definition OP_ABS :: u8 where "OP_ABS = 0x90"
definition OP_NOT :: u8 where "OP_NOT = 0x91"
definition OP_0NOTEQUAL :: u8 where "OP_0NOTEQUAL = 0x92"
definition OP_ADD :: u8 where "OP_ADD = 0x93"
definition OP_SUB :: u8 where "OP_SUB = 0x94"
definition OP_MUL :: u8 where "OP_MUL = 0x95"
definition OP_DIV :: u8 where "OP_DIV = 0x96"
definition OP_MOD :: u8 where "OP_MOD = 0x97"
definition OP_LSHIFT :: u8 where "OP_LSHIFT = 0x98"
definition OP_RSHIFT :: u8 where "OP_RSHIFT = 0x99"
definition OP_BOOLAND :: u8 where "OP_BOOLAND = 0x9a"
definition OP_BOOLOR :: u8 where "OP_BOOLOR = 0x9b"
definition OP_NUMEQUAL :: u8 where "OP_NUMEQUAL = 0x9c"
definition OP_NUMEQUALVERIFY :: u8 where "OP_NUMEQUALVERIFY = 0x9d"
definition OP_NUMNOTEQUAL :: u8 where "OP_NUMNOTEQUAL = 0x9e"
definition OP_LESSTHAN :: u8 where "OP_LESSTHAN = 0x9f"
definition OP_GREATERTHAN :: u8 where "OP_GREATERTHAN = 0xa0"
definition OP_LESSTHANOREQUAL :: u8 where "OP_LESSTHANOREQUAL = 0xa1"
definition OP_GREATERTHANOREQUAL :: u8 where "OP_GREATERTHANOREQUAL = 0xa2"
definition OP_MIN :: u8 where "OP_MIN = 0xa3"
definition OP_MAX :: u8 where "OP_MAX = 0xa4"
definition OP_WITHIN :: u8 where "OP_WITHIN = 0xa5"
definition OP_RIPEMD160 :: u8 where "OP_RIPEMD160 = 0xa6"
definition OP_SHA1 :: u8 where "OP_SHA1 = 0xa7"
definition OP_SHA256 :: u8 where "OP_SHA256 = 0xa8"
definition OP_HASH256 :: u8 where "OP_HASH256 = 0xaa"
definition OP_CODESEPARATOR :: u8 where "OP_CODESEPARATOR = 0xab"
definition OP_CHECKSIGVERIFY :: u8 where "OP_CHECKSIGVERIFY = 0xad"
definition OP_CHECKMULTISIG :: u8 where "OP_CHECKMULTISIG = 0xae"
definition OP_CHECKMULTISIGVERIFY :: u8 where "OP_CHECKMULTISIGVERIFY = 0xaf"
definition OP_NOP1 :: u8 where "OP_NOP1 = 0xb0"
definition OP_CHECKLOCKTIMEVERIFY :: u8 where "OP_CHECKLOCKTIMEVERIFY = 0xb1"
definition OP_CHECKSEQUENCEVERIFY :: u8 where "OP_CHECKSEQUENCEVERIFY = 0xb2"
definition OP_NOP4 :: u8 where "OP_NOP4 = 0xb3"
definition OP_NOP5 :: u8 where "OP_NOP5 = 0xb4"
definition OP_NOP6 :: u8 where "OP_NOP6 = 0xb5"
definition OP_NOP7 :: u8 where "OP_NOP7 = 0xb6"
definition OP_NOP8 :: u8 where "OP_NOP8 = 0xb7"
definition OP_NOP9 :: u8 where "OP_NOP9 = 0xb8"
definition OP_NOP10 :: u8 where "OP_NOP10 = 0xb9"
definition OP_CHECKDATASIG :: u8 where "OP_CHECKDATASIG = 0xba"
definition OP_CHECKDATASIGVERIFY :: u8 where "OP_CHECKDATASIGVERIFY = 0xbb"
definition OP_INVALIDOPCODE :: u8 where "OP_INVALIDOPCODE = 0xff"

lemmas script_opcodes =
  OP_0_def OP_PUSHDATA1_def OP_PUSHDATA2_def OP_PUSHDATA4_def OP_1NEGATE_def OP_RESERVED_def OP_1_def OP_2_def OP_3_def
  OP_4_def OP_5_def OP_6_def OP_7_def OP_8_def OP_9_def OP_10_def OP_11_def OP_12_def OP_13_def OP_14_def OP_15_def
  OP_16_def OP_NOP_def OP_VER_def OP_IF_def OP_NOTIF_def OP_VERIF_def OP_VERNOTIF_def OP_ELSE_def OP_ENDIF_def
  OP_VERIFY_def OP_RETURN_def OP_TOALTSTACK_def OP_FROMALTSTACK_def OP_2DROP_def OP_2DUP_def OP_3DUP_def OP_2OVER_def
  OP_2ROT_def OP_2SWAP_def OP_IFDUP_def OP_DEPTH_def OP_DROP_def OP_DUP_def OP_NIP_def OP_OVER_def OP_PICK_def
  OP_ROLL_def OP_ROT_def OP_SWAP_def OP_TUCK_def OP_CAT_def OP_SPLIT_def OP_SIZE_def OP_NUM2BIN_def OP_BIN2NUM_def
  OP_INVERT_def OP_AND_def OP_OR_def OP_XOR_def OP_EQUAL_def OP_EQUALVERIFY_def OP_RESERVED1_def OP_RESERVED2_def
  OP_1ADD_def OP_1SUB_def OP_2MUL_def OP_2DIV_def OP_NEGATE_def OP_ABS_def OP_NOT_def OP_0NOTEQUAL_def OP_ADD_def
  OP_SUB_def OP_MUL_def OP_DIV_def OP_MOD_def OP_LSHIFT_def OP_RSHIFT_def OP_BOOLAND_def OP_BOOLOR_def OP_NUMEQUAL_def
  OP_NUMEQUALVERIFY_def OP_NUMNOTEQUAL_def OP_LESSTHAN_def OP_GREATERTHAN_def OP_LESSTHANOREQUAL_def
  OP_GREATERTHANOREQUAL_def OP_MIN_def OP_MAX_def OP_WITHIN_def OP_RIPEMD160_def OP_SHA1_def OP_SHA256_def
  OP_HASH160_def OP_HASH256_def OP_CODESEPARATOR_def OP_CHECKSIG_def OP_CHECKSIGVERIFY_def OP_CHECKMULTISIG_def
  OP_CHECKMULTISIGVERIFY_def OP_NOP1_def OP_CHECKLOCKTIMEVERIFY_def OP_CHECKSEQUENCEVERIFY_def OP_NOP4_def OP_NOP5_def
  OP_NOP6_def OP_NOP7_def OP_NOP8_def OP_NOP9_def OP_NOP10_def OP_CHECKDATASIG_def OP_CHECKDATASIGVERIFY_def
  OP_INVALIDOPCODE_def

section \<open>Reading\<close>

definition MAX_PUBKEYS_PER_MULTISIG :: nat where "MAX_PUBKEYS_PER_MULTISIG = 20"

text \<open>The size of the data that follows, and the rest of the script.\<close>

definition push_size :: "u8 \<Rightarrow> bytes \<Rightarrow> (nat \<times> bytes) option" where
  "push_size opcode pc =
     (if opcode < OP_PUSHDATA1 then Some (unat opcode, pc)
      else if opcode = OP_PUSHDATA1 then
        (if length pc < 1 then None else Some (unat (hd pc), drop 1 pc))
      else if opcode = OP_PUSHDATA2 then
        (if length pc < 2 then None else Some (unat (bytes_word (take 2 pc) :: u16), drop 2 pc))
      else
        (if length pc < 4 then None else Some (unat (bytes_word (take 4 pc) :: u32), drop 4 pc)))"

text \<open>The opcode, its data, and the rest; \<open>None\<close> is the result \<open>false\<close>, after which no caller goes on.\<close>

definition GetScriptOp :: "bytes \<Rightarrow> (u8 \<times> bytes \<times> bytes) option" where
  "GetScriptOp pc =
     (case pc of
        [] \<Rightarrow> None
      | opcode # pc \<Rightarrow>
          if opcode \<le> OP_PUSHDATA4 then
            (case push_size opcode pc of
               None \<Rightarrow> None
             | Some (nSize, pc) \<Rightarrow>
                 if length pc < nSize then None else Some (opcode, take nSize pc, drop nSize pc))
          else Some (opcode, [], pc))"

lemma push_size_less: "push_size opcode pc = Some (n, rest) \<Longrightarrow> length rest \<le> length pc"
  by (auto simp: push_size_def split: if_splits)

lemma GetScriptOp_less: "GetScriptOp pc = Some (opcode, v, rest) \<Longrightarrow> length rest < length pc"
  by (auto simp: GetScriptOp_def split: list.splits if_splits option.splits dest!: push_size_less)

definition DecodeOP_N :: "u8 \<Rightarrow> nat option" where
  "DecodeOP_N opcode =
     (if opcode = OP_0 then Some 0
      else if \<not> (opcode \<ge> OP_1 \<and> opcode \<le> OP_16) then None
      else Some (unat opcode - (unat OP_1 - 1)))"

definition EncodeOP_N :: "int \<Rightarrow> u8 option" where
  "EncodeOP_N n =
     (if \<not> (n \<ge> 0 \<and> n \<le> 16) then None
      else if n = 0 then Some OP_0 else Some (OP_1 + word_of_int n - 1))"

section \<open>Building\<close>

definition push_data :: "bytes \<Rightarrow> bytes" where
  "push_data b =
     (if length b < unat OP_PUSHDATA1 then of_nat (length b) # b
      else if length b \<le> 0xff then OP_PUSHDATA1 # of_nat (length b) # b
      else if length b \<le> 0xffff then OP_PUSHDATA2 # word_bytes 2 (of_nat (length b) :: u16) @ b
      else OP_PUSHDATA4 # word_bytes 4 (of_nat (length b) :: u32) @ b)"

definition push_int64 :: "int \<Rightarrow> bytes" where
  "push_int64 n =
     (if n = - 1 \<or> (n \<ge> 1 \<and> n \<le> 16) then [word_of_int (n + (uint OP_1 - 1))]
      else if n = 0 then [OP_0]
      else push_data (scriptnum_serialize n))"

text \<open>The assertion on the opcode is that of the caller, which pushes data.\<close>

definition CheckMinimalPush :: "bytes \<Rightarrow> u8 \<Rightarrow> bool" where
  "CheckMinimalPush data opcode =
     (if length data = 0 then opcode = OP_0
      else if length data = 1 \<and> data ! 0 \<ge> 1 \<and> data ! 0 \<le> 16 then False
      else if length data = 1 \<and> data ! 0 = 0x81 then False
      else if length data \<le> 75 then unat opcode = length data
      else if length data \<le> 255 then opcode = OP_PUSHDATA1
      else if length data \<le> 65535 then opcode = OP_PUSHDATA2
      else True)"

section \<open>Recognized forms\<close>

definition IsPayToScriptHash :: "bytes \<Rightarrow> bool" where
  "IsPayToScriptHash s \<longleftrightarrow> length s = 23 \<and> s ! 0 = OP_HASH160 \<and> s ! 1 = 0x14 \<and> s ! 22 = OP_EQUAL"

definition IsPayToPublicKey :: "bytes \<Rightarrow> bool" where
  "IsPayToPublicKey s =
     (if length s = 35 then (s ! 1 = 0x02 \<or> s ! 1 = 0x03) \<and> s ! 34 = OP_CHECKSIG
      else if length s = 67 then s ! 1 = 0x04 \<and> s ! 66 = OP_CHECKSIG
      else False)"

function IsPushOnly :: "bytes \<Rightarrow> bool" where
  "IsPushOnly pc =
     (if pc = [] then True
      else case GetScriptOp pc of
        None \<Rightarrow> False
      | Some (opcode, _, rest) \<Rightarrow> if opcode > OP_16 then False else IsPushOnly rest)"
  by pat_completeness auto
termination by (relation "measure length") (auto dest: GetScriptOp_less)

declare IsPushOnly.simps [simp del]

section \<open>Counting signature operations\<close>

function sigop_loop :: "bool \<Rightarrow> u8 \<Rightarrow> bytes \<Rightarrow> nat" where
  "sigop_loop fAccurate lastOpcode pc =
     (case GetScriptOp pc of
        None \<Rightarrow> 0
      | Some (opcode, _, rest) \<Rightarrow>
          (if opcode = OP_CHECKSIG \<or> opcode = OP_CHECKSIGVERIFY then 1
           else if opcode = OP_CHECKMULTISIG \<or> opcode = OP_CHECKMULTISIGVERIFY then
             (if fAccurate \<and> lastOpcode \<ge> OP_1 \<and> lastOpcode \<le> OP_16 then the (DecodeOP_N lastOpcode)
              else MAX_PUBKEYS_PER_MULTISIG)
           else 0) + sigop_loop fAccurate opcode rest)"
  by pat_completeness auto
termination by (relation "measure (\<lambda>(a, l, pc). length pc)") (auto dest: GetScriptOp_less)

declare sigop_loop.simps [simp del]

definition GetSigOpCount :: "bool \<Rightarrow> bytes \<Rightarrow> nat" where
  "GetSigOpCount fAccurate s = sigop_loop fAccurate OP_INVALIDOPCODE s"

text \<open>The last data that the script pushes; \<open>None\<close> is the return of zero.\<close>

function last_push :: "bytes \<Rightarrow> bytes \<Rightarrow> bytes option" where
  "last_push pc vData =
     (if pc = [] then Some vData
      else case GetScriptOp pc of
        None \<Rightarrow> None
      | Some (opcode, vData, rest) \<Rightarrow> if opcode > OP_16 then None else last_push rest vData)"
  by pat_completeness auto
termination by (relation "measure (\<lambda>(pc, v). length pc)") (auto dest: GetScriptOp_less)

declare last_push.simps [simp del]

definition GetSigOpCount_P2SH :: "bytes \<Rightarrow> bytes \<Rightarrow> nat" where
  "GetSigOpCount_P2SH s sig =
     (if \<not> IsPayToScriptHash s then GetSigOpCount True s
      else case last_push sig [] of
        None \<Rightarrow> 0
      | Some vData \<Rightarrow> GetSigOpCount True vData)"

section \<open>Lemmas\<close>

lemma le_word_bytes:
  "n < 2 ^ 16 \<Longrightarrow> unat (bytes_word (word_bytes 2 (of_nat n :: u16)) :: u16) = n"
  "n < 2 ^ 32 \<Longrightarrow> unat (bytes_word (word_bytes 4 (of_nat n :: u32)) :: u32) = n"
  by (simp_all add: bytes_word_bytes take_bit_word_eq_self unat_of_nat)

text \<open>What \<open>push_data\<close> writes is read back, whatever follows.\<close>

lemma GetScriptOp_push_data:
  assumes "length b < 2 ^ 32"
  shows "\<exists>opcode. GetScriptOp (push_data b @ rest) = Some (opcode, b, rest) \<and> opcode \<le> OP_PUSHDATA4 \<and>
    opcode = (if length b < 76 then of_nat (length b) else if length b \<le> 0xff then OP_PUSHDATA1
      else if length b \<le> 0xffff then OP_PUSHDATA2 else OP_PUSHDATA4)"
proof -
  consider "length b < 76" | "76 \<le> length b" "length b \<le> 0xff" | "0xff < length b" "length b \<le> 0xffff" | "0xffff < length b"
    by linarith
  then show ?thesis
  proof cases
    case 1
    then have u: "unat (of_nat (length b) :: u8) = length b" by (simp add: unat_of_nat)
    then have "of_nat (length b) < OP_PUSHDATA1" "of_nat (length b) \<le> OP_PUSHDATA4"
      using 1 by (simp_all add: OP_PUSHDATA1_def OP_PUSHDATA4_def word_less_nat_alt word_le_nat_alt)
    then show ?thesis using 1 u
      by (simp add: push_data_def GetScriptOp_def push_size_def OP_PUSHDATA1_def [symmetric]) (simp add: OP_PUSHDATA1_def)
  next
    case 2
    then have u: "unat (of_nat (length b) :: u8) = length b" by (simp add: unat_of_nat)
    then show ?thesis using 2 by (simp add: push_data_def GetScriptOp_def push_size_def OP_PUSHDATA1_def OP_PUSHDATA4_def)
  next
    case 3
    then show ?thesis
      by (simp add: push_data_def GetScriptOp_def push_size_def OP_PUSHDATA1_def OP_PUSHDATA2_def OP_PUSHDATA4_def le_word_bytes)
  next
    case 4
    then show ?thesis using assms
      by (simp add: push_data_def GetScriptOp_def push_size_def OP_PUSHDATA1_def OP_PUSHDATA2_def OP_PUSHDATA4_def le_word_bytes)
  qed
qed

lemma CheckMinimalPush_push_data:
  assumes "length b < 2 ^ 32" "GetScriptOp (push_data b @ rest) = Some (opcode, b, rest)"
  shows "CheckMinimalPush b opcode \<longleftrightarrow> \<not> (length b = 1 \<and> (1 \<le> hd b \<and> hd b \<le> 16 \<or> hd b = 0x81))"
proof -
  have op: "opcode = (if length b < 76 then of_nat (length b) else if length b \<le> 0xff then OP_PUSHDATA1
      else if length b \<le> 0xffff then OP_PUSHDATA2 else OP_PUSHDATA4)"
    using GetScriptOp_push_data [OF assms(1), of rest] assms(2) by auto
  consider "b = []" | x where "b = [x]" | "2 \<le> length b" "length b < 76" | "76 \<le> length b"
    by (cases b; cases "tl b"; cases "length b < 76") auto
  then show ?thesis
    by cases (auto simp: op CheckMinimalPush_def OP_0_def unat_of_nat)
qed

text \<open>
  reading the operation that \<open>push_data\<close> appends to a script gives the data and goes on after it, for every length;
  the form is the one that \<open>CheckMinimalPush\<close> asks for, except for the single bytes that have opcodes of their own.
\<close>

theorem push_data_roundtrip:
  assumes "length b < 2 ^ 32"
  shows "\<exists>opcode. GetScriptOp (push_data b @ rest) = Some (opcode, b, rest) \<and>
    CheckMinimalPush b opcode = (\<not> (length b = 1 \<and> (1 \<le> hd b \<and> hd b \<le> 16 \<or> hd b = 0x81)))"
  using GetScriptOp_push_data [OF assms, of rest] CheckMinimalPush_push_data [OF assms, of rest] by blast

theorem push_data_roundtrip_witness:
  "\<exists>opcode. GetScriptOp (push_data (replicate 300 7) @ [OP_DUP]) = Some (opcode, replicate 300 7, [OP_DUP]) \<and>
    CheckMinimalPush (replicate 300 7) opcode"
proof -
  have "length (replicate 300 (7 :: u8)) < 2 ^ 32" by simp
  from push_data_roundtrip [OF this, of "[OP_DUP]"] show ?thesis by simp
qed

text \<open>At most twenty signature operations for a byte.\<close>

lemma sigop_loop_bound: "sigop_loop a l pc \<le> 20 * length pc"
proof (induction a l pc rule: sigop_loop.induct)
  case (1 a l pc)
  show ?case
  proof (cases "GetScriptOp pc")
    case None
    then show ?thesis by (simp add: sigop_loop.simps [of a l pc])
  next
    case (Some x)
    then obtain opcode v rest where x: "GetScriptOp pc = Some (opcode, v, rest)" by (cases x) auto
    have d: "the (DecodeOP_N l) \<le> 20" if "OP_1 \<le> l" "l \<le> OP_16"
    proof -
      have "unat l \<le> 96" using that(2) by (simp add: OP_16_def word_le_nat_alt)
      then show ?thesis using that by (auto simp: DecodeOP_N_def OP_1_def)
    qed
    have "sigop_loop a opcode rest \<le> 20 * length rest" using 1 [OF x] x by blast
    then show ?thesis
      using d GetScriptOp_less [OF x] x
      by (subst sigop_loop.simps) (auto simp: MAX_PUBKEYS_PER_MULTISIG_def)
  qed
qed

end
