(* ===== verification/ArithUint256.thy ===== *)
theory ArithUint256
  imports ChainTypes
begin

text \<open>
  The 256-bit integers of \<open>src/arith_uint256.h\<close> and \<open>src/arith_uint256.cpp\<close>: eight limbs of 32 bits, the
  least significant first, with the loops of the code. The operations refine the arithmetic of
  \<open>256 word\<close>, division and the compact form included.
\<close>

section \<open>The operations\<close>

type_synonym limbs = "u32 list"

definition WIDTH :: nat where "WIDTH = 8"

definition bu_zero :: limbs where
  "bu_zero = replicate WIDTH 0"

definition bu_of_u64 :: "u64 \<Rightarrow> limbs" where
  "bu_of_u64 b = ucast b # ucast (drop_bit 32 b) # replicate (WIDTH - 2) 0"

definition bu_not :: "limbs \<Rightarrow> limbs" where
  "bu_not pn = map (\<lambda>x. NOT x) pn"

text \<open>The prefix operators: the loop stops at the first limb without a carry.\<close>

primrec bu_inc :: "limbs \<Rightarrow> limbs" where
  "bu_inc [] = []"
| "bu_inc (x # pn) = (if x + 1 = 0 then (x + 1) # bu_inc pn else (x + 1) # pn)"

primrec bu_dec :: "limbs \<Rightarrow> limbs" where
  "bu_dec [] = []"
| "bu_dec (x # pn) = (if x - 1 = - 1 then (x - 1) # bu_dec pn else (x - 1) # pn)"

definition bu_neg :: "limbs \<Rightarrow> limbs" where
  "bu_neg pn = bu_inc (bu_not pn)"

definition bu_xor :: "limbs \<Rightarrow> limbs \<Rightarrow> limbs" where "bu_xor a b = map2 (XOR) a b"
definition bu_and :: "limbs \<Rightarrow> limbs \<Rightarrow> limbs" where "bu_and a b = map2 (AND) a b"
definition bu_or :: "limbs \<Rightarrow> limbs \<Rightarrow> limbs" where "bu_or a b = map2 (OR) a b"

definition bu_shl :: "limbs \<Rightarrow> nat \<Rightarrow> limbs" where
  "bu_shl a shift =
     (let k = shift div 32; shift = shift mod 32
      in fold (\<lambda>i pn.
           let pn = (if i + k + 1 < WIDTH \<and> shift \<noteq> 0
                     then pn[i + k + 1 := pn ! (i + k + 1) OR drop_bit (32 - shift) (a ! i)] else pn)
           in if i + k < WIDTH then pn[i + k := pn ! (i + k) OR push_bit shift (a ! i)] else pn)
         [0..<WIDTH] bu_zero)"

definition bu_shr :: "limbs \<Rightarrow> nat \<Rightarrow> limbs" where
  "bu_shr a shift =
     (let k = shift div 32; shift = shift mod 32
      in fold (\<lambda>i pn.
           let pn = (if i \<ge> k + 1 \<and> shift \<noteq> 0
                     then pn[i - k - 1 := pn ! (i - k - 1) OR push_bit (32 - shift) (a ! i)] else pn)
           in if i \<ge> k then pn[i - k := pn ! (i - k) OR drop_bit shift (a ! i)] else pn)
         [0..<WIDTH] bu_zero)"

text \<open>Addition and multiplication, the carry in 64 bits.\<close>

fun add_loop :: "u64 \<Rightarrow> limbs \<Rightarrow> limbs \<Rightarrow> limbs" where
  "add_loop carry (x # a) (y # b) =
     (let n = carry + ucast x + ucast y
      in ucast (n AND 0xffffffff) # add_loop (drop_bit 32 n) a b)"
| "add_loop carry a b = []"

definition bu_add :: "limbs \<Rightarrow> limbs \<Rightarrow> limbs" where
  "bu_add a b = add_loop 0 a b"

definition bu_sub :: "limbs \<Rightarrow> limbs \<Rightarrow> limbs" where
  "bu_sub a b = bu_add a (bu_neg b)"

primrec mul32_loop :: "u64 \<Rightarrow> u32 \<Rightarrow> limbs \<Rightarrow> limbs" where
  "mul32_loop carry b32 [] = []"
| "mul32_loop carry b32 (x # pn) =
     (let n = carry + ucast b32 * ucast x
      in ucast (n AND 0xffffffff) # mul32_loop (drop_bit 32 n) b32 pn)"

definition bu_mul32 :: "limbs \<Rightarrow> u32 \<Rightarrow> limbs" where
  "bu_mul32 pn b32 = mul32_loop 0 b32 pn"

text \<open>The row of the limb \<open>p\<close>: the limbs \<open>a[i + j]\<close> and \<open>b[i]\<close> for \<open>i + j < WIDTH\<close>.\<close>

fun mul_row :: "u64 \<Rightarrow> u32 \<Rightarrow> limbs \<Rightarrow> limbs \<Rightarrow> limbs" where
  "mul_row carry p (x # a) (y # b) =
     (let n = carry + ucast x + ucast p * ucast y
      in ucast (n AND 0xffffffff) # mul_row (drop_bit 32 n) p a b)"
| "mul_row carry p a b = a"

definition bu_mul :: "limbs \<Rightarrow> limbs \<Rightarrow> limbs" where
  "bu_mul pn b =
     fold (\<lambda>j a. take j a @ mul_row 0 (pn ! j) (drop j a) b) [0..<WIDTH] bu_zero"

text \<open>Comparison, from the most significant limb.\<close>

fun compare_loop :: "limbs \<Rightarrow> limbs \<Rightarrow> int" where
  "compare_loop (x # a) (y # b) = (if x < y then - 1 else if x > y then 1 else compare_loop a b)"
| "compare_loop a b = 0"

definition bu_CompareTo :: "limbs \<Rightarrow> limbs \<Rightarrow> int" where
  "bu_CompareTo a b = compare_loop (rev a) (rev b)"

definition bu_EqualTo :: "limbs \<Rightarrow> u64 \<Rightarrow> bool" where
  "bu_EqualTo pn b \<longleftrightarrow>
     (\<forall>i \<in> set [2..<WIDTH]. pn ! i = 0) \<and> ucast (pn ! 1) = drop_bit 32 b \<and> ucast (pn ! 0) = b AND 0xffffffff"

text \<open>The number of bits: the highest limb that is not zero, and its highest bit.\<close>

primrec limb_bits :: "u32 \<Rightarrow> nat \<Rightarrow> nat" where
  "limb_bits x 0 = 1"
| "limb_bits x (Suc nbits) = (if bit x (Suc nbits) then Suc nbits + 1 else limb_bits x nbits)"

primrec bits_loop :: "limbs \<Rightarrow> nat \<Rightarrow> nat" where
  "bits_loop pn 0 = 0"
| "bits_loop pn (Suc pos) = (if pn ! pos \<noteq> 0 then 32 * pos + limb_bits (pn ! pos) 31 else bits_loop pn pos)"

definition bu_bits :: "limbs \<Rightarrow> nat" where
  "bu_bits pn = bits_loop pn WIDTH"

definition bu_GetLow64 :: "limbs \<Rightarrow> u64" where
  "bu_GetLow64 pn = ucast (pn ! 0) OR push_bit 32 (ucast (pn ! 1))"

text \<open>Long division: \<open>div_loop s\<close> is the loop with \<open>shift = s - 1\<close>. The quotient is \<open>pn\<close>.\<close>

primrec div_loop :: "nat \<Rightarrow> limbs \<Rightarrow> limbs \<Rightarrow> limbs \<Rightarrow> limbs" where
  "div_loop 0 num dv pn = pn"
| "div_loop (Suc shift) num dv pn =
     (let (num, pn) =
        (if bu_CompareTo num dv \<ge> 0
         then (bu_sub num dv, pn[shift div 32 := pn ! (shift div 32) OR push_bit (shift mod 32) 1])
         else (num, pn))
      in div_loop shift num (bu_shr dv 1) pn)"

datatype uint_error = DivisionByZero

definition bu_div :: "limbs \<Rightarrow> limbs \<Rightarrow> uint_error + limbs" where
  "bu_div num b =
     (let num_bits = bu_bits num; div_bits = bu_bits b
      in if div_bits = 0 then Inl DivisionByZero
         else if div_bits > num_bits then Inr bu_zero
         else let shift = num_bits - div_bits
              in Inr (div_loop (Suc shift) num (bu_shl b shift) bu_zero))"

section \<open>The compact form\<close>

text \<open>The value, and what is stored at \<open>pfNegative\<close> and \<open>pfOverflow\<close>.\<close>

definition SetCompact :: "u32 \<Rightarrow> limbs \<times> bool \<times> bool" where
  "SetCompact nCompact =
     (let nSize = unat (drop_bit 24 nCompact);
          nWord = nCompact AND 0x007fffff;
          nWord' = (if nSize \<le> 3 then drop_bit (8 * (3 - nSize)) nWord else nWord);
          v = (if nSize \<le> 3 then bu_of_u64 (ucast nWord')
               else bu_shl (bu_of_u64 (ucast nWord')) (8 * (nSize - 3)))
      in (v, nWord' \<noteq> 0 \<and> nCompact AND 0x00800000 \<noteq> 0,
          nWord' \<noteq> 0 \<and> (nSize > 34 \<or> nWord' > 0xff \<and> nSize > 33 \<or> nWord' > 0xffff \<and> nSize > 32)))"

text \<open>\<open>None\<close> is a failed assertion.\<close>

definition GetCompact :: "bool \<Rightarrow> limbs \<Rightarrow> u32 option" where
  "GetCompact fNegative pn =
     (let nSize = (bu_bits pn + 7) div 8;
          nCompact =
            (if nSize \<le> 3 then ucast (push_bit (8 * (3 - nSize)) (bu_GetLow64 pn))
             else ucast (bu_GetLow64 (bu_shr pn (8 * (nSize - 3)))));
          (nCompact, nSize) =
            (if nCompact AND 0x00800000 \<noteq> 0 then (drop_bit 8 nCompact, nSize + 1) else (nCompact, nSize))
      in if nCompact AND NOT 0x007fffff = 0 \<and> nSize < 256
         then let nCompact = nCompact OR push_bit 24 (of_nat nSize)
              in Some (nCompact OR (if fNegative \<and> nCompact AND 0x007fffff \<noteq> 0 then 0x00800000 else 0))
         else None)"

text \<open>\<open>UintToArith256\<close> and back: 32-bit little-endian reads and writes.\<close>

definition UintToArith256 :: "uint256 \<Rightarrow> limbs" where
  "UintToArith256 a = map (\<lambda>x. word_rcat (rev (take 4 (drop (4 * x) (m_data a))))) [0..<WIDTH]"

definition ArithToUint256 :: "limbs \<Rightarrow> uint256" where
  "ArithToUint256 a = UInt256 (concat (map (\<lambda>w. map (\<lambda>j. ucast (drop_bit (8 * j) w)) [0..<4]) a))"

section \<open>Values\<close>

definition limbs_val :: "limbs \<Rightarrow> int" where
  "limbs_val pn = horner_sum uint (2 ^ 32) pn"

definition limbs_word :: "limbs \<Rightarrow> 256 word" where
  "limbs_word pn = word_rcat (rev pn)"

lemma limbs_val_simps [simp]:
  "limbs_val [] = 0" "limbs_val (x # pn) = uint x + 2 ^ 32 * limbs_val pn"
  by (simp_all add: limbs_val_def)

lemma limbs_word_val: "limbs_word pn = word_of_int (limbs_val pn)"
  by (simp add: limbs_word_def limbs_val_def word_rcat_def)

lemma limbs_val_nonneg [simp]: "0 \<le> limbs_val pn"
  by (induction pn) simp_all

lemma limbs_val_less: "limbs_val pn < 2 ^ (32 * length pn)"
proof (induction pn)
  case (Cons x pn)
  have "uint x < 2 ^ 32" using uint_lt2p [of x] by simp
  moreover have "2 ^ 32 * limbs_val pn \<le> 2 ^ 32 * (2 ^ (32 * length pn) - 1)" using Cons by simp
  ultimately show ?case by (simp add: power_add algebra_simps)
qed simp

lemma uint_limbs_word: "length pn = WIDTH \<Longrightarrow> uint (limbs_word pn) = limbs_val pn"
  using limbs_val_less [of pn] by (simp add: limbs_word_val uint_word_of_int WIDTH_def)

lemma limbs_val_append: "limbs_val (a @ b) = limbs_val a + 2 ^ (32 * length a) * limbs_val b"
  by (induction a) (simp_all add: power_add algebra_simps)

lemmas bit_horner_sum_limbs = bit_horner_sum_uint_exp_iff [where 'a = 32, simplified]

lemma bit_limbs_word:
  "length pn = WIDTH \<Longrightarrow> bit (limbs_word pn) n \<longleftrightarrow> n < 256 \<and> bit (pn ! (n div 32)) (n mod 32)"
  by (auto simp: limbs_word_def word_rcat_def bit_word_of_int_iff bit_horner_sum_limbs WIDTH_def)

lemma limbs_word_inj:
  assumes "length a = WIDTH" "length b = WIDTH" "limbs_word a = limbs_word b"
  shows "a = b"
proof (rule nth_equalityI)
  show "length a = length b" using assms by simp
  fix i assume i: "i < length a"
  show "a ! i = b ! i"
  proof (rule bit_word_eqI)
    fix n assume n: "n < LENGTH(32)"
    have "bit (limbs_word a) (32 * i + n) = bit (limbs_word b) (32 * i + n)" using assms by simp
    moreover have "32 * i + n < 256" using i n assms by (simp add: WIDTH_def)
    ultimately show "bit (a ! i) n = bit (b ! i) n" using assms(1,2) n by (simp add: bit_limbs_word)
  qed
qed

lemma length_ops [simp]:
  "length bu_zero = WIDTH" "length (bu_of_u64 u) = WIDTH" "length (bu_not a) = length a"
  "length (bu_inc a) = length a" "length (bu_dec a) = length a" "length (bu_neg a) = length a"
  "length (bu_xor a b) = min (length a) (length b)" "length (bu_and a b) = min (length a) (length b)"
  "length (bu_or a b) = min (length a) (length b)"
  by (simp_all add: bu_zero_def bu_of_u64_def WIDTH_def bu_not_def bu_neg_def bu_xor_def bu_and_def bu_or_def)
    (induction a; simp)+

lemma length_add_loop [simp]: "length (add_loop c a b) = min (length a) (length b)"
  by (induction c a b rule: add_loop.induct) (simp_all add: Let_def)

lemma length_mul32_loop [simp]: "length (mul32_loop c x a) = length a"
  by (induction a arbitrary: c) (simp_all add: Let_def)

lemma length_mul_row [simp]: "length (mul_row c p a b) = length a"
  by (induction c p a b rule: mul_row.induct) (simp_all add: Let_def)

lemma length_ops2 [simp]:
  "length (bu_add a b) = min (length a) (length b)" "length (bu_sub a b) = min (length a) (length b)"
  "length (bu_mul32 a x) = length a"
  by (simp_all add: bu_add_def bu_sub_def bu_mul32_def)

section \<open>Carries\<close>

text \<open>One limb of a loop with a carry.\<close>

lemma carry_step: "0 < B \<Longrightarrow> 0 \<le> M \<Longrightarrow> (x mod B) + B * ((x div B + y) mod M) = (x + B * y) mod (B * M :: int)"
  by (simp add: zmod_zmult2_eq add.commute)

lemma and_low_limb: "n AND 0xffffffff = take_bit 32 (n :: u64)"
  by (simp add: take_bit_eq_mask mask_eq_exp_minus_1)

lemma uint_low_limb: "uint (ucast (n AND 0xffffffff) :: u32) = uint (n :: u64) mod 2 ^ 32"
  by (simp only: and_low_limb unsigned_ucast_eq unsigned_take_bit_eq) (simp add: take_bit_eq_mod)

lemma uint_high_limb: "uint (drop_bit 32 n) = uint (n :: u64) div 2 ^ 32"
  using uint_lt2p [of n] unfolding unsigned_drop_bit_eq by (simp add: drop_bit_eq_div take_bit_int_eq_self)

lemma u32_less: "uint (x :: u32) < 2 ^ 32" and u32_nonneg [simp]: "0 \<le> uint (x :: u32)"
  using uint_lt2p [of x] by simp_all

lemma uint_ucast_u32 [simp]: "uint (ucast (x :: u32) :: u64) = uint x"
  using u32_less [of x] by (simp add: unsigned_ucast_eq take_bit_int_eq_self)

lemma add_loop_val:
  assumes "length a = length b" "uint c \<le> 1"
  shows "limbs_val (add_loop c a b) = (uint c + limbs_val a + limbs_val b) mod 2 ^ (32 * length a)"
  using assms
proof (induction c a b rule: add_loop.induct)
  case (1 c x a y b)
  define n where "n = c + ucast x + ucast y"
  have n: "uint n = uint c + uint x + uint y"
    using 1(3) u32_less [of x] u32_less [of y] by (simp add: n_def uint_word_ariths mod_pos_pos_trivial)
  have "uint (drop_bit 32 n) \<le> 1"
    using n 1(3) u32_less [of x] u32_less [of y] by (simp add: uint_high_limb)
  then have "limbs_val (add_loop (drop_bit 32 n) a b) =
      (uint n div 2 ^ 32 + (limbs_val a + limbs_val b)) mod 2 ^ (32 * length a)"
    using 1(1) [OF n_def] 1(2) by (simp add: uint_high_limb add.assoc)
  then have "limbs_val (add_loop c (x # a) (y # b)) =
      uint n mod 2 ^ 32 + 2 ^ 32 * ((uint n div 2 ^ 32 + (limbs_val a + limbs_val b)) mod 2 ^ (32 * length a))"
    by (simp add: uint_low_limb flip: n_def)
  also have "\<dots> = (uint n + 2 ^ 32 * (limbs_val a + limbs_val b)) mod (2 ^ 32 * 2 ^ (32 * length a))"
    by (rule carry_step) simp_all
  finally show ?case by (simp add: n power_add algebra_simps)
qed simp_all

lemma mul32_loop_val:
  assumes "uint c < 2 ^ 32"
  shows "limbs_val (mul32_loop c p a) = (uint c + uint p * limbs_val a) mod 2 ^ (32 * length a)"
  using assms
proof (induction a arbitrary: c)
  case (Cons x a)
  define n where "n = c + ucast p * ucast x"
  have m: "uint p * uint x \<le> (2 ^ 32 - 1) * (2 ^ 32 - 1)"
    using u32_less [of x] u32_less [of p] by (intro mult_mono) simp_all
  then have n: "uint n = uint c + uint p * uint x"
    using Cons.prems by (simp add: n_def uint_word_ariths mod_pos_pos_trivial)
  have "uint n < 2 ^ 32 * 2 ^ 32" using n m Cons.prems by simp
  then have "uint (drop_bit 32 n) < 2 ^ 32" by (simp add: uint_high_limb)
  then have "limbs_val (mul32_loop (drop_bit 32 n) p a) =
      (uint n div 2 ^ 32 + uint p * limbs_val a) mod 2 ^ (32 * length a)"
    using Cons.IH [of "drop_bit 32 n"] by (simp add: uint_high_limb)
  then have "limbs_val (mul32_loop c p (x # a)) =
      uint n mod 2 ^ 32 + 2 ^ 32 * ((uint n div 2 ^ 32 + uint p * limbs_val a) mod 2 ^ (32 * length a))"
    by (simp add: uint_low_limb flip: n_def)
  also have "\<dots> = (uint n + 2 ^ 32 * (uint p * limbs_val a)) mod (2 ^ 32 * 2 ^ (32 * length a))"
    by (rule carry_step) simp_all
  finally show ?case by (simp add: n power_add algebra_simps)
qed simp

lemma mul_row_val:
  assumes "uint c < 2 ^ 32" "length a \<le> length b"
  shows "limbs_val (mul_row c p a b) = (uint c + limbs_val a + uint p * limbs_val b) mod 2 ^ (32 * length a)"
  using assms
proof (induction c p a b rule: mul_row.induct)
  case (1 c p x a y b)
  define n where "n = c + ucast x + ucast p * ucast y"
  have m: "uint p * uint y \<le> (2 ^ 32 - 1) * (2 ^ 32 - 1)"
    using u32_less [of y] u32_less [of p] by (intro mult_mono) simp_all
  then have n: "uint n = uint c + uint x + uint p * uint y"
    using 1(2) u32_less [of x] by (simp add: n_def uint_word_ariths mod_pos_pos_trivial)
  have "uint n < 2 ^ 32 * 2 ^ 32" using n m 1(2) u32_less [of x] by simp
  then have "uint (drop_bit 32 n) < 2 ^ 32" by (simp add: uint_high_limb)
  then have "limbs_val (mul_row (drop_bit 32 n) p a b) =
      (uint n div 2 ^ 32 + (limbs_val a + uint p * limbs_val b)) mod 2 ^ (32 * length a)"
    using 1(1) [OF n_def] 1(3) by (simp add: uint_high_limb add.assoc)
  then have "limbs_val (mul_row c p (x # a) (y # b)) =
      uint n mod 2 ^ 32 + 2 ^ 32 * ((uint n div 2 ^ 32 + (limbs_val a + uint p * limbs_val b)) mod 2 ^ (32 * length a))"
    by (simp add: uint_low_limb flip: n_def)
  also have "\<dots> = (uint n + 2 ^ 32 * (limbs_val a + uint p * limbs_val b)) mod (2 ^ 32 * 2 ^ (32 * length a))"
    by (rule carry_step) simp_all
  finally show ?case by (simp add: n power_add algebra_simps)
qed simp_all

section \<open>Refinement\<close>

lemma word_of_mod256: "(word_of_int (x mod 2 ^ 256) :: 256 word) = word_of_int x"
  by (rule word_of_int_eq_iff [THEN iffD2]) (simp add: take_bit_eq_mod)

lemma limbs_word_zero [simp]: "limbs_word bu_zero = 0"
proof -
  have "limbs_val (replicate n 0) = 0" for n by (induction n) simp_all
  then show ?thesis by (simp add: limbs_word_val bu_zero_def)
qed

lemma limbs_word_of_u64 [simp]: "limbs_word (bu_of_u64 u) = ucast u"
proof -
  have z: "limbs_val (replicate n 0) = 0" for n by (induction n) simp_all
  have "uint (ucast u :: u32) + 2 ^ 32 * uint (ucast (drop_bit 32 u) :: u32) = uint u"
  proof -
    have "uint (ucast u :: u32) = uint u mod 2 ^ 32"
      by (simp only: unsigned_ucast_eq) (simp add: take_bit_eq_mod)
    moreover have "uint (ucast (drop_bit 32 u) :: u32) = uint u div 2 ^ 32 mod 2 ^ 32"
      by (simp only: unsigned_ucast_eq uint_high_limb) (simp add: take_bit_eq_mod)
    moreover have "uint u div 2 ^ 32 < 2 ^ 32" using uint_lt2p [of u] by simp
    moreover have "0 \<le> uint u div 2 ^ 32" by (simp add: pos_imp_zdiv_nonneg_iff)
    ultimately show ?thesis using mod_mult_div_eq [of "uint u" "2 ^ 32"] by (simp add: mod_pos_pos_trivial)
  qed
  then show ?thesis by (simp add: limbs_word_val bu_of_u64_def z word_of_int_uint flip: ucast_eq)
qed

lemma limbs_word_add [simp]:
  assumes "length a = WIDTH" "length b = WIDTH"
  shows "limbs_word (bu_add a b) = limbs_word a + limbs_word b"
  using add_loop_val [of a b 0] assms word_of_mod256 [of "limbs_val a + limbs_val b"]
  by (simp add: bu_add_def limbs_word_val WIDTH_def)

lemma limbs_word_mul32 [simp]:
  assumes "length a = WIDTH"
  shows "limbs_word (bu_mul32 a x) = limbs_word a * ucast x"
  using mul32_loop_val [of 0 x a] assms word_of_mod256 [of "uint x * limbs_val a"]
  by (simp add: bu_mul32_def limbs_word_val WIDTH_def mult.commute word_of_int_uint flip: ucast_eq)

lemma mul_rows:
  assumes "length pn = WIDTH" "length b = WIDTH" "n \<le> WIDTH"
  shows "length (fold (\<lambda>j a. take j a @ mul_row 0 (pn ! j) (drop j a) b) [0..<n] bu_zero) = WIDTH \<and>
    limbs_val (fold (\<lambda>j a. take j a @ mul_row 0 (pn ! j) (drop j a) b) [0..<n] bu_zero) =
      (limbs_val (take n pn) * limbs_val b) mod 2 ^ 256"
  using assms(3)
proof (induction n)
  case 0
  have "limbs_val (replicate n 0) = 0" for n by (induction n) simp_all
  then show ?case by (simp add: bu_zero_def)
next
  case (Suc n)
  define a where "a = fold (\<lambda>j a. take j a @ mul_row 0 (pn ! j) (drop j a) b) [0..<n] bu_zero"
  have a: "length a = WIDTH" "limbs_val a = (limbs_val (take n pn) * limbs_val b) mod 2 ^ 256"
    using Suc by (simp_all add: a_def)
  let ?B = "2 ^ (32 * n) :: int" and ?M = "2 ^ (32 * (WIDTH - n)) :: int"
  have row: "limbs_val (mul_row 0 (pn ! n) (drop n a) b) =
      (limbs_val (drop n a) + uint (pn ! n) * limbs_val b) mod ?M"
    using mul_row_val [of 0 "drop n a" b "pn ! n"] a(1) assms(2) by simp
  have low: "limbs_val (take n a) mod ?B = limbs_val (take n a)" "limbs_val (take n a) div ?B = 0"
    using limbs_val_less [of "take n a"] a(1) Suc.prems by (simp_all add: mod_pos_pos_trivial div_pos_pos_trivial)
  have "limbs_val (take n a) + ?B * ((limbs_val (take n a) div ?B +
        (limbs_val (drop n a) + uint (pn ! n) * limbs_val b)) mod ?M) =
      (limbs_val (take n a) + ?B * (limbs_val (drop n a) + uint (pn ! n) * limbs_val b)) mod (?B * ?M)"
    using carry_step [of ?B ?M "limbs_val (take n a)"] low(1) by simp
  moreover have "limbs_val (take n a) + ?B * limbs_val (drop n a) = limbs_val a"
    using limbs_val_append [of "take n a" "drop n a"] a(1) Suc.prems by simp
  moreover have "32 * n + 32 * (WIDTH - n) = 256" using Suc.prems by (simp add: WIDTH_def)
  then have "?B * ?M = 2 ^ 256" by (metis power_add)
  moreover have "limbs_val (take n a) + ?B * (limbs_val (drop n a) + uint (pn ! n) * limbs_val b) =
      (limbs_val (take n a) + ?B * limbs_val (drop n a)) + ?B * (uint (pn ! n) * limbs_val b)"
    by (simp only: distrib_left add.assoc)
  ultimately have "limbs_val (take n a) + ?B * ((limbs_val (drop n a) + uint (pn ! n) * limbs_val b) mod ?M) =
      (limbs_val a + ?B * (uint (pn ! n) * limbs_val b)) mod 2 ^ 256"
    using low(2) by (simp del: power_numeral)
  also have "\<dots> = (limbs_val (take n pn) * limbs_val b + ?B * (uint (pn ! n) * limbs_val b)) mod 2 ^ 256"
    unfolding a(2) by (rule mod_add_left_eq)
  also have "limbs_val (take n pn) * limbs_val b + ?B * (uint (pn ! n) * limbs_val b) =
      limbs_val (take (Suc n) pn) * limbs_val b"
    using Suc.prems assms(1) by (simp add: take_Suc_conv_app_nth limbs_val_append algebra_simps)
  finally have "limbs_val (take n a) + ?B * ((limbs_val (drop n a) + uint (pn ! n) * limbs_val b) mod ?M) =
      (limbs_val (take (Suc n) pn) * limbs_val b) mod 2 ^ 256" .
  then show ?case
    using a(1) Suc.prems row by (simp add: limbs_val_append flip: a_def)
qed

lemma length_bu_mul [simp]: "length a = WIDTH \<Longrightarrow> length b = WIDTH \<Longrightarrow> length (bu_mul a b) = WIDTH"
  using mul_rows [of a b WIDTH] by (simp add: bu_mul_def)

lemma limbs_word_mul [simp]:
  assumes "length a = WIDTH" "length b = WIDTH"
  shows "limbs_word (bu_mul a b) = limbs_word a * limbs_word b"
proof -
  have "limbs_val (bu_mul a b) = (limbs_val a * limbs_val b) mod 2 ^ 256"
    using mul_rows [of a b WIDTH] assms by (simp add: bu_mul_def)
  then show ?thesis by (simp only: limbs_word_val word_of_mod256) simp
qed

lemma limbs_val_not: "limbs_val (bu_not a) = 2 ^ (32 * length a) - 1 - limbs_val a"
proof (induction a)
  case (Cons x a)
  have "NOT x = - 1 - x" by (simp add: not_eq_complement)
  then have "uint (NOT x) = 2 ^ 32 - 1 - uint x" using uint_minus_simple_alt [of x "- 1"] by (simp add: unsigned_minus_1_eq_mask mask_eq_exp_minus_1)
  with Cons show ?case by (simp add: bu_not_def power_add algebra_simps)
qed (simp add: bu_not_def)

lemma limbs_val_inc: "limbs_val (bu_inc a) = (limbs_val a + 1) mod 2 ^ (32 * length a)"
proof (induction a)
  case (Cons x a)
  show ?case
  proof (cases "x + 1 = 0")
    case True
    then have "x = - 1" by (rule eq_neg_iff_add_eq_0 [THEN iffD2])
    then have x: "uint x = 2 ^ 32 - 1" by (simp add: unsigned_minus_1_eq_mask mask_eq_exp_minus_1)
    have "bu_inc (x # a) = 0 # bu_inc a" using True by simp
    then have "limbs_val (bu_inc (x # a)) = 2 ^ 32 * ((limbs_val a + 1) mod 2 ^ (32 * length a))"
      by (simp only: limbs_val_simps Cons) simp
    also have "\<dots> = (2 ^ 32 * (limbs_val a + 1)) mod (2 ^ 32 * 2 ^ (32 * length a))"
      by (rule mult_mod_right)
    also have "\<dots> = (limbs_val (x # a) + 1) mod 2 ^ (32 * length (x # a))"
      by (simp add: x power_add algebra_simps)
    finally show ?thesis .
  next
    case False
    then have "1 + x \<noteq> 0" by (simp only: add.commute not_False_eq_True)
    then have "unat (1 + x) = Suc (unat x)" by (rule unatSuc)
    then have "uint (x + 1) = uint x + 1" by (simp only: uint_nat add.commute [of x 1] of_nat_Suc)
    moreover have "limbs_val ((x + 1) # a) < 2 ^ (32 * length (x # a))"
      using limbs_val_less [of "(x + 1) # a"] by simp
    ultimately show ?thesis using False by (simp add: mod_pos_pos_trivial add_ac)
  qed
qed simp

lemma limbs_word_inc [simp]: "length a = WIDTH \<Longrightarrow> limbs_word (bu_inc a) = limbs_word a + 1"
  using limbs_val_inc [of a] word_of_mod256 [of "limbs_val a + 1"] by (simp add: limbs_word_val WIDTH_def)

lemma limbs_word_neg [simp]:
  assumes "length a = WIDTH"
  shows "limbs_word (bu_neg a) = - limbs_word a"
proof -
  have "limbs_val (bu_neg a) = (2 ^ 256 - limbs_val a) mod 2 ^ 256"
    using limbs_val_inc [of "bu_not a"] limbs_val_not [of a] assms by (simp add: bu_neg_def WIDTH_def)
  then have "limbs_word (bu_neg a) = word_of_int (2 ^ 256 - limbs_val a)"
    by (simp only: limbs_word_val word_of_mod256)
  also have "\<dots> = (word_of_int (2 ^ 256) :: 256 word) - limbs_word a"
    by (simp only: wi_hom_sub limbs_word_val)
  also have "(word_of_int (2 ^ 256) :: 256 word) = 0"
    using word_of_mod256 [of "2 ^ 256"] by simp
  finally show ?thesis by simp
qed

lemma limbs_word_sub [simp]:
  "length a = WIDTH \<Longrightarrow> length b = WIDTH \<Longrightarrow> limbs_word (bu_sub a b) = limbs_word a - limbs_word b"
  by (simp add: bu_sub_def)

lemma bu_inc_dec: "bu_inc (bu_dec a) = a"
  by (induction a) (auto simp: eq_neg_iff_add_eq_0)

lemma limbs_word_dec [simp]: "length a = WIDTH \<Longrightarrow> limbs_word (bu_dec a) = limbs_word a - 1"
  using limbs_word_inc [of "bu_dec a"] by (simp add: bu_inc_dec)

lemma limbs_word_bitwise [simp]:
  assumes "length a = WIDTH" "length b = WIDTH"
  shows "limbs_word (bu_xor a b) = limbs_word a XOR limbs_word b"
    and "limbs_word (bu_and a b) = limbs_word a AND limbs_word b"
    and "limbs_word (bu_or a b) = limbs_word a OR limbs_word b"
  using assms by (auto intro!: bit_word_eqI simp: bit_limbs_word bit_simps bu_xor_def bu_and_def bu_or_def WIDTH_def)

lemma limbs_word_not [simp]: "length a = WIDTH \<Longrightarrow> limbs_word (bu_not a) = NOT (limbs_word a)"
  by (auto intro!: bit_word_eqI simp: bit_limbs_word bit_simps bu_not_def WIDTH_def)

subsection \<open>Shifts\<close>

lemma or_update:
  assumes "c \<Longrightarrow> i < length pn"
  shows "(if c then pn[i := pn ! i OR x] else pn) ! j = pn ! j OR (if c \<and> j = i then x else (0 :: u32))"
    and "length (if c then pn[i := pn ! i OR x] else pn) = length pn"
  using assms by auto

definition shl_step :: "limbs \<Rightarrow> nat \<Rightarrow> nat \<Rightarrow> nat \<Rightarrow> limbs \<Rightarrow> limbs" where
  "shl_step a k s i pn =
     (let pn = (if i + k + 1 < WIDTH \<and> s \<noteq> 0
                then pn[i + k + 1 := pn ! (i + k + 1) OR drop_bit (32 - s) (a ! i)] else pn)
      in if i + k < WIDTH then pn[i + k := pn ! (i + k) OR push_bit s (a ! i)] else pn)"

definition shr_step :: "limbs \<Rightarrow> nat \<Rightarrow> nat \<Rightarrow> nat \<Rightarrow> limbs \<Rightarrow> limbs" where
  "shr_step a k s i pn =
     (let pn = (if i \<ge> k + 1 \<and> s \<noteq> 0
                then pn[i - k - 1 := pn ! (i - k - 1) OR push_bit (32 - s) (a ! i)] else pn)
      in if i \<ge> k then pn[i - k := pn ! (i - k) OR drop_bit s (a ! i)] else pn)"

lemma bu_shl_step: "bu_shl a n = fold (shl_step a (n div 32) (n mod 32)) [0..<WIDTH] bu_zero"
  and bu_shr_step: "bu_shr a n = fold (shr_step a (n div 32) (n mod 32)) [0..<WIDTH] bu_zero"
  by (simp_all add: bu_shl_def bu_shr_def shl_step_def [abs_def] shr_step_def [abs_def] Let_def)

lemma shl_step_nth:
  assumes "length pn = WIDTH"
  shows "shl_step a k s i pn ! j = (pn ! j OR (if (i + k + 1 < WIDTH \<and> s \<noteq> 0) \<and> j = i + k + 1
      then drop_bit (32 - s) (a ! i) else 0)) OR (if i + k < WIDTH \<and> j = i + k then push_bit s (a ! i) else 0)"
    and "length (shl_step a k s i pn) = WIDTH"
  unfolding shl_step_def Let_def using assms by (subst or_update; simp)+

lemma shr_step_nth:
  assumes "length pn = WIDTH" "i < WIDTH"
  shows "shr_step a k s i pn ! j = (pn ! j OR (if (i \<ge> k + 1 \<and> s \<noteq> 0) \<and> j = i - k - 1
      then push_bit (32 - s) (a ! i) else 0)) OR (if i \<ge> k \<and> j = i - k then drop_bit s (a ! i) else 0)"
    and "length (shr_step a k s i pn) = WIDTH"
  unfolding shr_step_def Let_def using assms by (subst or_update; simp)+

lemma shl_fold:
  assumes "n \<le> WIDTH"
  shows "length (fold (shl_step a k s) [0..<n] bu_zero) = WIDTH \<and> (\<forall>j < WIDTH. fold (shl_step a k s) [0..<n] bu_zero ! j =
    (if k + 1 \<le> j \<and> j < n + k + 1 \<and> s \<noteq> 0 then drop_bit (32 - s) (a ! (j - k - 1)) else 0) OR
    (if k \<le> j \<and> j < n + k then push_bit s (a ! (j - k)) else 0))"
  using assms
proof (induction n)
  case 0
  then show ?case by (auto simp: bu_zero_def)
next
  case (Suc n)
  have step: "shl_step a k s n pn ! j =
    (if k + 1 \<le> j \<and> j < Suc n + k + 1 \<and> s \<noteq> 0 then drop_bit (32 - s) (a ! (j - k - 1)) else 0) OR
    (if k \<le> j \<and> j < Suc n + k then push_bit s (a ! (j - k)) else 0)"
    if j: "j < WIDTH" and pn: "length pn = WIDTH" "pn ! j = (if k + 1 \<le> j \<and> j < n + k + 1 \<and> s \<noteq> 0 then drop_bit (32 - s) (a ! (j - k - 1)) else 0) OR
    (if k \<le> j \<and> j < n + k then push_bit s (a ! (j - k)) else 0)" for pn j
  proof -
    consider "j = n + k + 1" | "j = n + k" | "j \<noteq> n + k + 1" "j \<noteq> n + k" by blast
    then show ?thesis
      unfolding shl_step_nth(1) [OF pn(1)] pn(2) using j by cases auto
  qed
  let ?p = "fold (shl_step a k s) [0..<n] bu_zero"
  have p: "length ?p = WIDTH" "fold (shl_step a k s) [0..<Suc n] bu_zero = shl_step a k s n ?p"
    using Suc by simp_all
  have "shl_step a k s n ?p ! j =
      (if k + 1 \<le> j \<and> j < Suc n + k + 1 \<and> s \<noteq> 0 then drop_bit (32 - s) (a ! (j - k - 1)) else 0) OR
      (if k \<le> j \<and> j < Suc n + k then push_bit s (a ! (j - k)) else 0)" if "j < WIDTH" for j
    by (rule step [OF that p(1)]) (use Suc that in simp)
  then show ?case unfolding p(2) using shl_step_nth(2) [OF p(1)] Suc.prems by simp
qed

lemma shr_fold:
  assumes "n \<le> WIDTH"
  shows "length (fold (shr_step a k s) [0..<n] bu_zero) = WIDTH \<and> (\<forall>j < WIDTH. fold (shr_step a k s) [0..<n] bu_zero ! j =
    (if j + k < n then drop_bit s (a ! (j + k)) else 0) OR
    (if j + k + 1 < n \<and> s \<noteq> 0 then push_bit (32 - s) (a ! (j + k + 1)) else 0))"
  using assms
proof (induction n)
  case 0
  then show ?case by (auto simp: bu_zero_def)
next
  case (Suc n)
  have step: "shr_step a k s n pn ! j =
    (if j + k < Suc n then drop_bit s (a ! (j + k)) else 0) OR
    (if j + k + 1 < Suc n \<and> s \<noteq> 0 then push_bit (32 - s) (a ! (j + k + 1)) else 0)"
    if j: "j < WIDTH" and pn: "length pn = WIDTH" "pn ! j = (if j + k < n then drop_bit s (a ! (j + k)) else 0) OR
    (if j + k + 1 < n \<and> s \<noteq> 0 then push_bit (32 - s) (a ! (j + k + 1)) else 0)" for pn j
  proof -
    have n: "n < WIDTH" using Suc.prems by simp
    consider "n = j + k" | "n = j + k + 1" | "n \<noteq> j + k + 1" "n \<noteq> j + k" by blast
    then show ?thesis
      unfolding shr_step_nth(1) [OF pn(1) n] pn(2) using j by cases auto
  qed
  let ?p = "fold (shr_step a k s) [0..<n] bu_zero"
  have p: "length ?p = WIDTH" "fold (shr_step a k s) [0..<Suc n] bu_zero = shr_step a k s n ?p"
    using Suc by simp_all
  have "shr_step a k s n ?p ! j =
      (if j + k < Suc n then drop_bit s (a ! (j + k)) else 0) OR
      (if j + k + 1 < Suc n \<and> s \<noteq> 0 then push_bit (32 - s) (a ! (j + k + 1)) else 0)" if "j < WIDTH" for j
    by (rule step [OF that p(1)]) (use Suc that in simp)
  then show ?case unfolding p(2) using shr_step_nth(2) [OF p(1)] Suc.prems by simp
qed

lemma length_shifts [simp]: "length (bu_shl a n) = WIDTH" "length (bu_shr a n) = WIDTH"
  using shl_fold [of WIDTH] shr_fold [of WIDTH] by (simp_all add: bu_shl_step bu_shr_step)

lemma shl_index:
  fixes i j k s :: nat
  assumes "i < 32" "s < 32"
  shows "32 * k + s \<le> 32 * j + i \<longleftrightarrow> k + 1 \<le> j \<or> k \<le> j \<and> s \<le> i"
    and "s \<le> i \<Longrightarrow> k \<le> j \<Longrightarrow> (32 * j + i - (32 * k + s)) div 32 = j - k \<and> (32 * j + i - (32 * k + s)) mod 32 = i - s"
    and "i < s \<Longrightarrow> k + 1 \<le> j \<Longrightarrow>
      (32 * j + i - (32 * k + s)) div 32 = j - k - 1 \<and> (32 * j + i - (32 * k + s)) mod 32 = i + (32 - s)"
proof -
  show "32 * k + s \<le> 32 * j + i \<longleftrightarrow> k + 1 \<le> j \<or> k \<le> j \<and> s \<le> i" using assms by linarith
  show "(32 * j + i - (32 * k + s)) div 32 = j - k \<and> (32 * j + i - (32 * k + s)) mod 32 = i - s" if "s \<le> i" "k \<le> j"
  proof -
    have "32 * j + i - (32 * k + s) = (i - s) + 32 * (j - k)" using that by simp
    then show ?thesis using assms by simp
  qed
  show "(32 * j + i - (32 * k + s)) div 32 = j - k - 1 \<and> (32 * j + i - (32 * k + s)) mod 32 = i + (32 - s)"
    if "i < s" "k + 1 \<le> j"
  proof -
    have "32 * j + i - (32 * k + s) = (i + (32 - s)) + 32 * (j - k - 1)" using that assms by simp
    moreover have "i + (32 - s) < 32" using that assms by simp
    ultimately show ?thesis by simp
  qed
qed

lemma bit_shl_index:
  fixes i j k s :: nat
  assumes "i < 32" "s < 32"
  shows "32 * k + s \<le> 32 * j + i \<and>
      bit (a ! ((32 * j + i - (32 * k + s)) div 32) :: u32) ((32 * j + i - (32 * k + s)) mod 32) \<longleftrightarrow>
    (k + 1 \<le> j \<and> s \<noteq> 0 \<and> bit (a ! (j - k - 1)) (i + (32 - s))) \<or> (k \<le> j \<and> s \<le> i \<and> bit (a ! (j - k)) (i - s))"
proof (cases "s \<le> i")
  case True
  then have "\<not> bit (a ! (j - k - 1)) (i + (32 - s))" using assms bit_imp_le_length [of "a ! (j - k - 1)" "i + (32 - s)"] by auto
  with True show ?thesis using shl_index [OF assms, of k j] by auto
next
  case False
  then show ?thesis using shl_index [OF assms, of k j] by auto
qed

lemma limbs_word_shl [simp]:
  assumes "length a = WIDTH"
  shows "limbs_word (bu_shl a n) = push_bit n (limbs_word a)"
proof (rule bit_word_eqI)
  fix m assume m: "m < LENGTH(256)"
  define k s j i where "k = n div 32" and "s = n mod 32" and "j = m div 32" and "i = m mod 32"
  have nm: "n = 32 * k + s" "m = 32 * j + i" "s < 32" "i < 32" by (simp_all add: k_def s_def j_def i_def)
  have j: "j < WIDTH" using m by (simp add: WIDTH_def j_def)
  have "bu_shl a n ! j = (if k + 1 \<le> j \<and> s \<noteq> 0 then drop_bit (32 - s) (a ! (j - k - 1)) else 0) OR
      (if k \<le> j then push_bit s (a ! (j - k)) else 0)"
    using shl_fold [of WIDTH a k s] j by (simp add: bu_shl_step k_def [symmetric] s_def [symmetric])
  then have "bit (bu_shl a n ! j) i \<longleftrightarrow> (k + 1 \<le> j \<and> s \<noteq> 0 \<and> bit (a ! (j - k - 1)) (i + (32 - s))) \<or>
      (k \<le> j \<and> s \<le> i \<and> bit (a ! (j - k)) (i - s))"
    using nm(4) by (auto simp: bit_simps add.commute)
  also have "\<dots> \<longleftrightarrow> n \<le> m \<and> bit (a ! ((m - n) div 32)) ((m - n) mod 32)"
    unfolding nm(1,2) by (rule bit_shl_index [OF nm(4,3), symmetric])
  also have "\<dots> \<longleftrightarrow> bit (push_bit n (limbs_word a)) m"
    using m assms by (auto simp: bit_limbs_word bit_simps)
  finally show "bit (limbs_word (bu_shl a n)) m = bit (push_bit n (limbs_word a)) m"
    using m by (simp add: bit_limbs_word j_def i_def)
qed

lemma bit_shr_index:
  fixes i j k s :: nat
  assumes "i < 32" "s < 32" "length a = WIDTH"
  shows "32 * j + i + (32 * k + s) < 256 \<and>
      bit (a ! ((32 * j + i + (32 * k + s)) div 32) :: u32) ((32 * j + i + (32 * k + s)) mod 32) \<longleftrightarrow>
    (j + k < WIDTH \<and> bit (a ! (j + k)) (s + i)) \<or>
    (j + k + 1 < WIDTH \<and> s \<noteq> 0 \<and> 32 - s \<le> i \<and> bit (a ! (j + k + 1)) (i - (32 - s)))"
proof (cases "i + s < 32")
  case True
  have e: "32 * j + i + (32 * k + s) = (i + s) + 32 * (j + k)" by simp
  have "(32 * j + i + (32 * k + s)) div 32 = j + k" "(32 * j + i + (32 * k + s)) mod 32 = i + s"
    using True unfolding e by (simp, simp only: mod_mult_self2 mod_less)
  moreover have "32 * j + i + (32 * k + s) < 256 \<longleftrightarrow> j + k < WIDTH"
    unfolding WIDTH_def using True by linarith
  moreover have "\<not> (s \<noteq> 0 \<and> 32 - s \<le> i)" using True assms(1) by linarith
  ultimately show ?thesis by (auto simp: add.commute)
next
  case False
  have e: "32 * j + i + (32 * k + s) = (i + s - 32) + 32 * (j + k + 1)" using False by simp
  have "i + s - 32 < 32" using assms by linarith
  have "(32 * j + i + (32 * k + s)) div 32 = j + k + 1" "(32 * j + i + (32 * k + s)) mod 32 = i + s - 32"
    using \<open>i + s - 32 < 32\<close> unfolding e by (simp, simp only: mod_mult_self2 mod_less)
  moreover have "32 * j + i + (32 * k + s) < 256 \<longleftrightarrow> j + k + 1 < WIDTH"
    unfolding WIDTH_def using False assms(1,2) by linarith
  moreover have "s \<noteq> 0" "32 - s \<le> i" "i - (32 - s) = i + s - 32" using False assms(1,2) by simp_all
  moreover have "\<not> bit (a ! (j + k)) (s + i)"
    using False bit_imp_le_length [of "a ! (j + k)" "s + i"] by auto
  ultimately show ?thesis by simp
qed

lemma limbs_word_shr [simp]:
  assumes "length a = WIDTH"
  shows "limbs_word (bu_shr a n) = drop_bit n (limbs_word a)"
proof (rule bit_word_eqI)
  fix m assume m: "m < LENGTH(256)"
  define k s j i where "k = n div 32" and "s = n mod 32" and "j = m div 32" and "i = m mod 32"
  have nm: "n = 32 * k + s" "m = 32 * j + i" "s < 32" "i < 32" by (simp_all add: k_def s_def j_def i_def)
  have j: "j < WIDTH" using m by (simp add: WIDTH_def j_def)
  have "bu_shr a n ! j = (if j + k < WIDTH then drop_bit s (a ! (j + k)) else 0) OR
      (if j + k + 1 < WIDTH \<and> s \<noteq> 0 then push_bit (32 - s) (a ! (j + k + 1)) else 0)"
    using shr_fold [of WIDTH a k s] j by (simp add: bu_shr_step k_def [symmetric] s_def [symmetric])
  then have "bit (bu_shr a n ! j) i \<longleftrightarrow> (j + k < WIDTH \<and> bit (a ! (j + k)) (s + i)) \<or>
      (j + k + 1 < WIDTH \<and> s \<noteq> 0 \<and> 32 - s \<le> i \<and> bit (a ! (j + k + 1)) (i - (32 - s)))"
    using nm(4) by (auto simp: bit_simps)
  also have "\<dots> \<longleftrightarrow> m + n < 256 \<and> bit (a ! ((m + n) div 32)) ((m + n) mod 32)"
    unfolding nm(1,2) by (rule bit_shr_index [OF nm(4,3) assms, symmetric])
  also have "\<dots> \<longleftrightarrow> bit (drop_bit n (limbs_word a)) m"
    using assms by (auto simp: bit_limbs_word bit_simps add.commute)
  finally show "bit (limbs_word (bu_shr a n)) m = bit (drop_bit n (limbs_word a)) m"
    using m by (simp add: bit_limbs_word j_def i_def)
qed

subsection \<open>Comparison\<close>

lemma compare_loop_val:
  "length a = length b \<Longrightarrow> compare_loop (rev a) (rev b) = sgn (limbs_val a - limbs_val b)"
proof (induction a arbitrary: b rule: rev_induct)
  case (snoc x a)
  then obtain y b' where b: "b = b' @ [y]" "length a = length b'"
    by (cases b rule: rev_cases) auto
  let ?B = "2 ^ (32 * length a) :: int"
  have v: "limbs_val (a @ [x]) = limbs_val a + ?B * uint x" "limbs_val b = limbs_val b' + ?B * uint y"
    using b(2) by (simp_all add: b(1) limbs_val_append)
  have l: "limbs_val a < ?B" "limbs_val b' < ?B" "0 \<le> limbs_val a" "0 \<le> limbs_val b'"
    using limbs_val_less [of a] limbs_val_less [of b'] b(2) by simp_all
  consider "x < y" | "y < x" | "x = y" by fastforce
  then show ?case
  proof cases
    case 1
    then have "?B * (uint x + 1) \<le> ?B * uint y" by (intro mult_left_mono) (simp_all add: word_less_def)
    then have "?B * uint x + ?B \<le> ?B * uint y" by (simp add: distrib_left)
    then have "limbs_val (a @ [x]) < limbs_val b" using l unfolding v by linarith
    with 1 show ?thesis by (simp add: b(1))
  next
    case 2
    then have "?B * (uint y + 1) \<le> ?B * uint x" by (intro mult_left_mono) (simp_all add: word_less_def)
    then have "?B * uint y + ?B \<le> ?B * uint x" by (simp add: distrib_left)
    then have "limbs_val b < limbs_val (a @ [x])" using l unfolding v by linarith
    with 2 show ?thesis by (simp add: b(1))
  next
    case 3
    then show ?thesis using snoc.IH [OF b(2)] v by (simp add: b(1))
  qed
qed simp

lemma bu_CompareTo_word:
  assumes "length a = WIDTH" "length b = WIDTH"
  shows "bu_CompareTo a b = (if limbs_word a < limbs_word b then - 1 else if limbs_word a > limbs_word b then 1 else 0)"
  using compare_loop_val [of a b] assms
  by (simp add: bu_CompareTo_def word_less_def uint_limbs_word)

subsection \<open>Bit length\<close>

lemma limb_bits_bit:
  assumes "x \<noteq> 0" "\<forall>m > n. \<not> bit x m"
  shows "0 < limb_bits x n \<and> limb_bits x n \<le> n + 1 \<and> bit x (limb_bits x n - 1) \<and> (\<forall>m \<ge> limb_bits x n. \<not> bit x m)"
  using assms(2)
proof (induction n)
  case 0
  have "bit x 0"
  proof (rule ccontr)
    assume "\<not> bit x 0"
    then have "x = 0" using 0 by (intro bit_word_eqI) (metis bit_0_eq bot_apply bot_bool_def gr0I)
    with assms(1) show False by simp
  qed
  with 0 show ?case by auto
next
  case (Suc n)
  show ?case
  proof (cases "bit x (Suc n)")
    case True
    with Suc.prems show ?thesis by auto
  next
    case False
    then have "\<forall>m > n. \<not> bit x m" using Suc.prems by (metis Suc_lessI)
    from Suc.IH [OF this] False show ?thesis by auto
  qed
qed

lemma bits_loop_bit:
  assumes "length pn = WIDTH" "p \<le> WIDTH" "\<forall>m \<ge> 32 * p. \<not> bit (limbs_word pn) m"
  shows "bits_loop pn p \<le> 32 * p \<and> (\<forall>m \<ge> bits_loop pn p. \<not> bit (limbs_word pn) m) \<and>
    (0 < bits_loop pn p \<longrightarrow> bit (limbs_word pn) (bits_loop pn p - 1))"
  using assms(2,3)
proof (induction p)
  case 0
  then show ?case by simp
next
  case (Suc p)
  show ?case
  proof (cases "pn ! p = 0")
    case True
    have "\<not> bit (limbs_word pn) m" if "m \<ge> 32 * p" for m
    proof (cases "m \<ge> 32 * Suc p")
      case False
      then have "m div 32 = p" using that by auto
      then show ?thesis using True assms(1) by (simp add: bit_limbs_word)
    qed (use Suc.prems in simp)
    then show ?thesis using Suc True by simp
  next
    case False
    let ?l = "limb_bits (pn ! p) 31"
    have "\<forall>m > 31. \<not> bit (pn ! p) m"
      using bit_imp_le_length [of "pn ! p"] by fastforce
    then have l: "0 < ?l" "?l \<le> 32" "bit (pn ! p) (?l - 1)" "\<forall>m \<ge> ?l. \<not> bit (pn ! p) m"
      using limb_bits_bit [OF False, of 31] by auto
    have "\<not> bit (limbs_word pn) m" if "m \<ge> 32 * p + ?l" for m
    proof (cases "m \<ge> 32 * Suc p")
      case False
      define d where "d = m - 32 * p"
      have d: "m = d + 32 * p" "d < 32" "?l \<le> d" using that False by (simp_all add: d_def)
      have "m div 32 = p" "m mod 32 = d" unfolding d(1) using d(2) by simp_all
      then have "m div 32 = p" "m mod 32 \<ge> ?l" using d(3) by simp_all
      then show ?thesis using l(4) assms(1) by (simp add: bit_limbs_word)
    qed (use Suc.prems in simp)
    moreover have "bit (limbs_word pn) (32 * p + ?l - 1)"
    proof -
      have e: "32 * p + ?l - 1 = (?l - 1) + 32 * p" "?l - 1 < 32" using l(1,2) by simp_all
      have "32 * p + ?l - 1 < 256" using l(1,2) Suc.prems(1) by (simp add: WIDTH_def)
      moreover have "(32 * p + ?l - 1) div 32 = p" "(32 * p + ?l - 1) mod 32 = ?l - 1"
        unfolding e(1) using e(2) by simp_all
      ultimately show ?thesis using l(3) assms(1) by (simp add: bit_limbs_word)
    qed
    ultimately show ?thesis using False l(1,2) by simp
  qed
qed

lemma uint_less_bits: "(\<forall>m \<ge> n. \<not> bit (w :: 256 word) m) \<Longrightarrow> uint w < 2 ^ n"
proof -
  assume "\<forall>m \<ge> n. \<not> bit w m"
  then have "take_bit n w = w" by (intro bit_word_eqI) (auto simp: bit_take_bit_iff not_le)
  then have "take_bit n (uint w) = uint w" by (metis unsigned_take_bit_eq)
  then show ?thesis by (metis take_bit_int_less_exp)
qed

lemma uint_ge_bit: "bit (w :: 256 word) n \<Longrightarrow> 2 ^ n \<le> uint w"
proof -
  assume "bit w n"
  then have "bit (uint w) n" using bit_imp_le_length [of w n] by (simp add: bit_uint_iff)
  then have "\<not> take_bit n (uint w) = uint w" by (metis bit_take_bit_iff less_irrefl)
  then show ?thesis by (metis leI take_bit_int_eq_self uint_ge_0)
qed

lemma bu_bits_bounds:
  assumes "length a = WIDTH"
  shows "bu_bits a \<le> 256" "limbs_val a < 2 ^ bu_bits a" "0 < bu_bits a \<Longrightarrow> 2 ^ (bu_bits a - 1) \<le> limbs_val a"
proof -
  have "\<forall>m \<ge> 32 * WIDTH. \<not> bit (limbs_word a) m"
    using bit_imp_le_length [of "limbs_word a"] by (fastforce simp: WIDTH_def)
  note b = bits_loop_bit [OF assms order_refl this, folded bu_bits_def]
  show "bu_bits a \<le> 256" using b by (simp add: WIDTH_def)
  show "limbs_val a < 2 ^ bu_bits a" using b uint_less_bits [of "bu_bits a" "limbs_word a"] assms by (simp add: uint_limbs_word)
  show "0 < bu_bits a \<Longrightarrow> 2 ^ (bu_bits a - 1) \<le> limbs_val a"
    using b uint_ge_bit [of "limbs_word a" "bu_bits a - 1"] assms by (simp add: uint_limbs_word)
qed

lemma bu_bits_zero: "length a = WIDTH \<Longrightarrow> bu_bits a = 0 \<longleftrightarrow> limbs_word a = 0"
proof -
  assume a: "length a = WIDTH"
  have "limbs_word a = 0 \<longleftrightarrow> limbs_val a = 0" using uint_limbs_word [OF a] by (metis uint_0_eq uint_0_iff)
  moreover have "limbs_val a = 0 \<longleftrightarrow> bu_bits a = 0"
  proof
    assume "limbs_val a = 0"
    show "bu_bits a = 0"
    proof (rule ccontr)
      assume "bu_bits a \<noteq> 0"
      then have "2 ^ (bu_bits a - 1) \<le> limbs_val a" using bu_bits_bounds(3) [OF a] by simp
      moreover have "(0 :: int) < 2 ^ (bu_bits a - 1)" by simp
      ultimately show False using \<open>limbs_val a = 0\<close> by simp
    qed
  next
    assume "bu_bits a = 0"
    then have "limbs_val a < 1" using bu_bits_bounds(2) [OF a] by simp
    then show "limbs_val a = 0" using limbs_val_nonneg [of a] by linarith
  qed
  ultimately show ?thesis by simp
qed

subsection \<open>Division\<close>

lemma set_quotient_bit:
  assumes "length pn = WIDTH" "s < 256" "2 ^ Suc s dvd limbs_val pn"
  shows "limbs_val (pn[s div 32 := pn ! (s div 32) OR push_bit (s mod 32) 1]) = limbs_val pn + 2 ^ s"
proof -
  let ?pn = "pn[s div 32 := pn ! (s div 32) OR push_bit (s mod 32) 1]"
  have s: "s div 32 < WIDTH" using assms(2) by (simp add: WIDTH_def)
  have "limbs_word ?pn = limbs_word pn OR push_bit s 1"
  proof (rule bit_word_eqI)
    fix n assume n: "n < LENGTH(256)"
    have "s = n \<longleftrightarrow> s div 32 = n div 32 \<and> s mod 32 = n mod 32" by (metis div_mult_mod_eq)
    with n s assms(1) show "bit (limbs_word ?pn) n = bit (limbs_word pn OR push_bit s 1) n"
      by (auto simp: bit_limbs_word nth_list_update bit_simps WIDTH_def)
  qed
  then have "uint (limbs_word ?pn) = uint (limbs_word pn) OR uint (push_bit s 1 :: 256 word)"
    by (simp only: unsigned_or_eq)
  also have "uint (push_bit s 1 :: 256 word) = push_bit s 1"
    using assms(2) by (simp only: unsigned_push_bit_eq) (simp add: take_bit_push_bit)
  also have "uint (limbs_word pn) OR push_bit s 1 = uint (limbs_word pn) + push_bit s 1"
  proof -
    obtain c where "limbs_val pn = 2 ^ Suc s * c" using assms(3) by blast
    then have "\<not> bit (limbs_val pn) s" by (simp add: bit_iff_odd)
    then have "uint (limbs_word pn) AND push_bit s 1 = 0"
      using assms(1) by (intro bit_eqI) (auto simp: bit_simps uint_limbs_word)
    then show ?thesis by (simp only: disjunctive_add_eq_or)
  qed
  finally show ?thesis using assms(1) by (simp add: uint_limbs_word)
qed

lemma limbs_val_shr:
  assumes "length a = WIDTH"
  shows "limbs_val (bu_shr a n) = limbs_val a div 2 ^ n"
proof -
  have "limbs_val (bu_shr a n) = uint (drop_bit n (limbs_word a))"
    using uint_limbs_word [of "bu_shr a n"] assms by (simp only: limbs_word_shr length_shifts)
  also have "\<dots> = drop_bit n (limbs_val a)"
    using assms limbs_val_less [of a]
    by (simp only: unsigned_drop_bit_eq uint_limbs_word) (simp add: take_bit_int_eq_self WIDTH_def)
  finally show ?thesis by (simp add: drop_bit_eq_div)
qed

lemma limbs_val_shl:
  assumes "length a = WIDTH" "limbs_val a * 2 ^ n < 2 ^ 256"
  shows "limbs_val (bu_shl a n) = limbs_val a * 2 ^ n"
proof -
  have "limbs_val (bu_shl a n) = uint (push_bit n (limbs_word a))"
    using uint_limbs_word [of "bu_shl a n"] assms by (simp only: limbs_word_shl length_shifts)
  also have "\<dots> = take_bit 256 (limbs_val a * 2 ^ n)"
    using assms by (simp only: unsigned_push_bit_eq uint_limbs_word) (simp add: push_bit_eq_mult)
  also have "\<dots> = limbs_val a * 2 ^ n" using assms(2) by (simp only: take_bit_int_eq_self mult_nonneg_nonneg limbs_val_nonneg zero_le_power zero_le_numeral)
  finally show ?thesis .
qed

lemma limbs_val_sub:
  assumes "length a = WIDTH" "length b = WIDTH" "limbs_val b \<le> limbs_val a"
  shows "limbs_val (bu_sub a b) = limbs_val a - limbs_val b"
proof -
  have "uint (limbs_word a - limbs_word b) = uint (limbs_word a) - uint (limbs_word b)"
    using assms by (intro uint_minus_simple_alt [THEN iffD1]) (simp add: word_le_def uint_limbs_word)
  then show ?thesis using assms uint_limbs_word [of "bu_sub a b"] by (simp add: uint_limbs_word)
qed

lemma bu_CompareTo_ge: "length a = WIDTH \<Longrightarrow> length b = WIDTH \<Longrightarrow> bu_CompareTo a b \<ge> 0 \<longleftrightarrow> limbs_val b \<le> limbs_val a"
  by (auto simp: bu_CompareTo_word word_less_def uint_limbs_word)

lemma div_loop_val:
  assumes "length num = WIDTH" "length dv = WIDTH" "length pn = WIDTH" "s \<le> 256" "0 < D"
    and "s \<noteq> 0 \<Longrightarrow> limbs_val dv = D * 2 ^ (s - 1)" "limbs_val num < D * 2 ^ s" "2 ^ s dvd limbs_val pn"
  shows "length (div_loop s num dv pn) = WIDTH \<and>
    limbs_val (div_loop s num dv pn) = limbs_val pn + limbs_val num div D"
  using assms
proof (induction s arbitrary: num dv pn)
  case 0
  then show ?case by (simp add: div_pos_pos_trivial)
next
  case (Suc s)
  have dv: "limbs_val dv = D * 2 ^ s" using Suc.prems(6) by simp
  have shr: "s \<noteq> 0 \<Longrightarrow> limbs_val (bu_shr dv 1) = D * 2 ^ (s - 1)"
    using Suc.prems(2) dv by (cases s) (simp_all add: limbs_val_shr)
  have pn: "2 ^ s dvd limbs_val pn" using Suc.prems(8) by (rule dvd_trans [rotated]) simp
  show ?case
  proof (cases "limbs_val dv \<le> limbs_val num")
    case True
    let ?num = "bu_sub num dv" and ?pn = "pn[s div 32 := pn ! (s div 32) OR push_bit (s mod 32) 1]"
    have n: "limbs_val ?num = limbs_val num - D * 2 ^ s"
      using limbs_val_sub [OF Suc.prems(1,2) True] dv by simp
    have p: "limbs_val ?pn = limbs_val pn + 2 ^ s"
      using set_quotient_bit Suc.prems by simp
    have "length (div_loop s ?num (bu_shr dv 1) ?pn) = WIDTH \<and>
        limbs_val (div_loop s ?num (bu_shr dv 1) ?pn) = limbs_val ?pn + limbs_val ?num div D"
      using Suc.prems shr n p pn by (intro Suc.IH) simp_all
    moreover have "limbs_val num div D = limbs_val ?num div D + 2 ^ s"
    proof -
      have "limbs_val num = limbs_val ?num + 2 ^ s * D" using n by simp
      then show ?thesis using Suc.prems(5) by (simp only: div_mult_self1)
    qed
    ultimately show ?thesis using True Suc.prems(1,2) p by (simp add: bu_CompareTo_ge)
  next
    case False
    have "length (div_loop s num (bu_shr dv 1) pn) = WIDTH \<and>
        limbs_val (div_loop s num (bu_shr dv 1) pn) = limbs_val pn + limbs_val num div D"
      using Suc.prems shr pn False dv by (intro Suc.IH) simp_all
    then show ?thesis using False Suc.prems(1,2) by (simp add: bu_CompareTo_ge)
  qed
qed

lemma bu_div_word:
  assumes "length a = WIDTH" "length b = WIDTH"
  shows "limbs_word b = 0 \<Longrightarrow> bu_div a b = Inl DivisionByZero"
    and "limbs_word b \<noteq> 0 \<Longrightarrow> \<exists>q. bu_div a b = Inr q \<and> length q = WIDTH \<and> limbs_val q = limbs_val a div limbs_val b"
proof -
  show "limbs_word b = 0 \<Longrightarrow> bu_div a b = Inl DivisionByZero"
    using bu_bits_zero [OF assms(2)] by (simp add: bu_div_def Let_def)
next
  assume "limbs_word b \<noteq> 0"
  then have nz: "0 < bu_bits b" using bu_bits_zero [OF assms(2)] by simp
  have blo: "2 ^ (bu_bits b - 1) \<le> limbs_val b" by (rule bu_bits_bounds(3) [OF assms(2) nz])
  have pos: "0 < limbs_val b" by (rule less_le_trans [OF _ blo]) simp
  have z: "limbs_val bu_zero = 0" using uint_limbs_word [of bu_zero] by simp
  show "\<exists>q. bu_div a b = Inr q \<and> length q = WIDTH \<and> limbs_val q = limbs_val a div limbs_val b"
  proof (cases "bu_bits b > bu_bits a")
    case True
    then have "bu_bits a \<le> bu_bits b - 1" by simp
    have "limbs_val a < 2 ^ bu_bits a" by (rule bu_bits_bounds(2) [OF assms(1)])
    also have "\<dots> \<le> 2 ^ (bu_bits b - 1)" using \<open>bu_bits a \<le> bu_bits b - 1\<close> by (rule power_increasing) simp
    also have "\<dots> \<le> limbs_val b" by (rule blo)
    finally have "limbs_val a div limbs_val b = 0" by (simp add: div_pos_pos_trivial)
    then show ?thesis using True nz z by (simp add: bu_div_def Let_def)
  next
    case False
    define s where "s = bu_bits a - bu_bits b"
    have s: "s + bu_bits b = bu_bits a" "Suc s \<le> 256" using False nz bu_bits_bounds(1) [OF assms(1)] by (simp_all add: s_def)
    have "limbs_val b * 2 ^ s < 2 ^ bu_bits b * 2 ^ s"
      using bu_bits_bounds(2) [OF assms(2)] by simp
    also have "\<dots> = 2 ^ bu_bits a" using s(1) by (metis power_add add.commute)
    also have "\<dots> \<le> 2 ^ 256" using bu_bits_bounds(1) [OF assms(1)] by (rule power_increasing) simp
    finally have shl: "limbs_val (bu_shl b s) = limbs_val b * 2 ^ s" by (rule limbs_val_shl [OF assms(2)])
    have "limbs_val a < 2 ^ bu_bits a" by (rule bu_bits_bounds(2) [OF assms(1)])
    also have "\<dots> = 2 ^ (bu_bits b - 1) * 2 ^ Suc s"
    proof -
      have "bu_bits a = (bu_bits b - 1) + Suc s" using s(1) nz by simp
      then show ?thesis by (metis power_add)
    qed
    also have "\<dots> \<le> limbs_val b * 2 ^ Suc s" using blo by (rule mult_right_mono) simp
    finally have "limbs_val a < limbs_val b * 2 ^ Suc s" .
    then have "length (div_loop (Suc s) a (bu_shl b s) bu_zero) = WIDTH \<and>
        limbs_val (div_loop (Suc s) a (bu_shl b s) bu_zero) = limbs_val bu_zero + limbs_val a div limbs_val b"
      using assms s(2) pos shl z by (intro div_loop_val) simp_all
    then show ?thesis using False nz z by (simp add: bu_div_def Let_def s_def [symmetric] del: div_loop.simps)
  qed
qed

end
