(* ===== verification/ArithCompact.thy ===== *)
theory ArithCompact
  imports ArithUint256
begin

text \<open>
  The compact form of 256-bit integers, which encodes targets: mantissa and exponent as functions of
  the value, and the properties of \<open>SetCompact\<close>, \<open>GetCompact\<close> and the arithmetic of \<open>ArithUint256\<close>.
\<close>

section \<open>The compact form\<close>

lemma bu_GetLow64_val:
  assumes "length pn = WIDTH"
  shows "uint (bu_GetLow64 pn) = limbs_val pn mod 2 ^ 64"
proof -
  obtain x y r where pn: "pn = x # y # r" using assms by (auto simp: WIDTH_def length_Suc_conv numeral_eq_Suc)
  have "ucast x AND push_bit 32 (ucast y) = (0 :: u64)"
    by (rule bit_word_eqI) (auto simp: bit_simps dest: bit_imp_le_length)
  then have "bu_GetLow64 pn = ucast x + push_bit 32 (ucast y)"
    by (simp only: bu_GetLow64_def pn nth_Cons_0 nth_Cons_Suc One_nat_def disjunctive_add_eq_or)
  then have "uint (bu_GetLow64 pn) = (uint x + 2 ^ 32 * uint y) mod 2 ^ 64"
    by (simp add: uint_word_ariths push_bit_eq_mult mult.commute mod_add_right_eq)
  also have "\<dots> = (uint x + 2 ^ 32 * uint y + 2 ^ 64 * limbs_val r) mod 2 ^ 64"
    by simp
  finally show ?thesis by (simp add: pn algebra_simps)
qed

lemma u32_bit23: "uint c < 2 ^ 24 \<Longrightarrow> c AND 0x00800000 \<noteq> 0 \<longleftrightarrow> 2 ^ 23 \<le> uint (c :: u32)"
proof -
  assume c: "uint c < 2 ^ 24"
  have "c AND 0x00800000 \<noteq> 0 \<longleftrightarrow> bit c 23" using bit_iff_and_push_bit_not_eq_0 [of c 23] by simp
  also have "\<dots> \<longleftrightarrow> bit (uint c) 23" by (simp add: bit_uint_iff)
  also have "\<dots> \<longleftrightarrow> odd (uint c div 2 ^ 23)" by (simp add: bit_iff_odd)
  also have "\<dots> \<longleftrightarrow> 2 ^ 23 \<le> uint c"
  proof (cases "2 ^ 23 \<le> uint c")
    case True
    then have "uint c < 16777216" "8388608 \<le> uint c" using c by simp_all
    then have "uint c div 8388608 = 1" by linarith
    with True show ?thesis by simp
  next
    case False
    then have "uint c div 2 ^ 23 = 0" by (simp add: div_pos_pos_trivial)
    with False show ?thesis by simp
  qed
  finally show ?thesis .
qed

lemma take_bit_u32: "uint (c :: u32) < 2 ^ n \<Longrightarrow> take_bit n c = c"
  by (metis take_bit_int_eq_self uint_ge_0 unsigned_take_bit_eq word_unat_eq_iff word_uint_eqI)

lemma mantissa_exponent:
  fixes m e :: u32
  assumes "take_bit 23 m = m" "take_bit 8 e = e"
  shows "m AND NOT 0x007fffff = 0" "drop_bit 24 (m OR push_bit 24 e) = e"
    "(m OR push_bit 24 e) AND 0x007fffff = m" "(m OR push_bit 24 e) AND 0x00800000 = 0"
proof -
  have mask: "(0x007fffff :: u32) = mask 23" by (simp add: mask_eq_exp_minus_1)
  have m: "bit m n \<Longrightarrow> n < 23" for n using assms(1) by (metis bit_take_bit_iff)
  have e: "bit e n \<Longrightarrow> n < 8" for n using assms(2) by (metis bit_take_bit_iff)
  show "m AND NOT 0x007fffff = 0" unfolding mask
    by (rule bit_word_eqI) (auto simp: bit_simps dest: m)
  show "drop_bit 24 (m OR push_bit 24 e) = e"
    by (rule bit_word_eqI) (auto simp: bit_simps dest: m e)
  show "(m OR push_bit 24 e) AND 0x007fffff = m" unfolding mask
    by (rule bit_word_eqI) (auto simp: bit_simps dest: m e)
  have "\<not> bit (m OR push_bit 24 e) 23" by (auto simp: bit_simps dest: m)
  then show "(m OR push_bit 24 e) AND 0x00800000 = 0"
    using bit_iff_and_push_bit_not_eq_0 [of "m OR push_bit 24 e" 23] by simp
qed

lemma int_div_less: "0 < q \<Longrightarrow> m < n * q \<Longrightarrow> m div q < (n :: int)"
proof -
  assume q: "0 < q" "m < n * q"
  have "m div q * q \<le> m" using q(1) pos_mod_sign [of q m] div_mult_mod_eq [of m q] by linarith
  with q show ?thesis by (meson le_less_trans mult_less_cancel_right_pos)
qed

text \<open>Size and mantissa before the adjustment for the sign bit.\<close>

definition compact_bytes :: "limbs \<Rightarrow> nat" where
  "compact_bytes a = (bu_bits a + 7) div 8"

definition compact_top :: "limbs \<Rightarrow> int" where
  "compact_top a = (if compact_bytes a \<le> 3 then limbs_val a * 2 ^ (8 * (3 - compact_bytes a))
    else limbs_val a div 2 ^ (8 * (compact_bytes a - 3)))"

lemma compact_bytes: 
  assumes "length a = WIDTH"
  shows "compact_bytes a \<le> 32" "limbs_val a < 2 ^ (8 * compact_bytes a)"
    "0 < limbs_val a \<Longrightarrow> 0 < compact_bytes a \<and> 2 ^ (8 * (compact_bytes a - 1)) \<le> limbs_val a"
proof -
  show "compact_bytes a \<le> 32" using bu_bits_bounds(1) [OF assms] by (simp add: compact_bytes_def)
  have "bu_bits a \<le> 8 * compact_bytes a" unfolding compact_bytes_def by linarith
  then have "(2 :: int) ^ bu_bits a \<le> 2 ^ (8 * compact_bytes a)" by (rule power_increasing) simp
  then show "limbs_val a < 2 ^ (8 * compact_bytes a)" using bu_bits_bounds(2) [OF assms] by linarith
  assume "0 < limbs_val a"
  then have b: "0 < bu_bits a" using bu_bits_bounds(2) [OF assms] by (cases "bu_bits a") simp_all
  then have "8 * (compact_bytes a - 1) \<le> bu_bits a - 1" unfolding compact_bytes_def by linarith
  then have "(2 :: int) ^ (8 * (compact_bytes a - 1)) \<le> 2 ^ (bu_bits a - 1)" by (rule power_increasing) simp
  moreover have "0 < compact_bytes a" using b unfolding compact_bytes_def by linarith
  ultimately show "0 < compact_bytes a \<and> 2 ^ (8 * (compact_bytes a - 1)) \<le> limbs_val a"
    using bu_bits_bounds(3) [OF assms b] by linarith
qed

lemma compact_top_bounds:
  assumes "length a = WIDTH"
  shows "0 \<le> compact_top a" "compact_top a < 2 ^ 24" "0 < limbs_val a \<Longrightarrow> 2 ^ 16 \<le> compact_top a"
proof -
  let ?n = "compact_bytes a" and ?v = "limbs_val a"
  note c = compact_bytes [OF assms]
  show "0 \<le> compact_top a" by (simp add: compact_top_def pos_imp_zdiv_nonneg_iff)
  show "compact_top a < 2 ^ 24"
  proof (cases "?n \<le> 3")
    case True
    have "?v * 2 ^ (8 * (3 - ?n)) < 2 ^ (8 * ?n) * 2 ^ (8 * (3 - ?n))" using c(2) by simp
    also have "\<dots> = 2 ^ 24"
    proof -
      have "8 * ?n + 8 * (3 - ?n) = 24" using True by simp
      then show ?thesis by (metis power_add)
    qed
    finally show ?thesis using True by (simp add: compact_top_def)
  next
    case False
    have "8 * ?n = 24 + 8 * (?n - 3)" using False by simp
    then have "?v < 2 ^ 24 * 2 ^ (8 * (?n - 3))" using c(2) by (metis power_add)
    then show ?thesis using False by (simp only: compact_top_def if_False int_div_less zero_less_power zero_less_numeral)
  qed
  assume "0 < ?v"
  then have v: "0 < ?n" "2 ^ (8 * (?n - 1)) \<le> ?v" using c(3) by simp_all
  show "2 ^ 16 \<le> compact_top a"
  proof (cases "?n \<le> 3")
    case True
    have "8 * (?n - 1) + 8 * (3 - ?n) = 16" using True v(1) by simp
    then have "2 ^ 16 = (2 :: int) ^ (8 * (?n - 1)) * 2 ^ (8 * (3 - ?n))" by (metis power_add)
    also have "\<dots> \<le> ?v * 2 ^ (8 * (3 - ?n))" using v(2) by simp
    finally show ?thesis using True by (simp add: compact_top_def)
  next
    case False
    have "8 * (?n - 1) = 16 + 8 * (?n - 3)" using False by simp
    then have "2 ^ 16 * 2 ^ (8 * (?n - 3)) \<le> ?v" using v(2) by (metis power_add)
    then show ?thesis using False zdiv_mono1 [of "2 ^ 16 * 2 ^ (8 * (?n - 3))" ?v "2 ^ (8 * (?n - 3))"]
      by (simp add: compact_top_def)
  qed
qed

text \<open>Mantissa and exponent of the compact form.\<close>

definition compact_mantissa :: "limbs \<Rightarrow> int" where
  "compact_mantissa a = (if 2 ^ 23 \<le> compact_top a then compact_top a div 2 ^ 8 else compact_top a)"

definition compact_exponent :: "limbs \<Rightarrow> nat" where
  "compact_exponent a = (if 2 ^ 23 \<le> compact_top a then compact_bytes a + 1 else compact_bytes a)"

lemma compact_mantissa_bounds:
  assumes "length a = WIDTH"
  shows "0 \<le> compact_mantissa a" "compact_mantissa a < 2 ^ 23" "0 < limbs_val a \<Longrightarrow> 2 ^ 15 \<le> compact_mantissa a"
    "compact_exponent a \<le> 33" "compact_exponent a = 33 \<Longrightarrow> compact_mantissa a < 2 ^ 16"
proof -
  note t = compact_top_bounds [OF assms] and b = compact_bytes [OF assms]
  show "0 \<le> compact_mantissa a" using t(1) by (simp add: compact_mantissa_def pos_imp_zdiv_nonneg_iff)
  have d: "compact_top a div 2 ^ 8 < 2 ^ 16" using t(2) by (intro int_div_less) simp_all
  show "compact_mantissa a < 2 ^ 23"
  proof -
    have "compact_top a div 2 ^ 8 < 2 ^ 23" by (rule less_trans [OF d]) simp
    then show ?thesis by (simp add: compact_mantissa_def)
  qed
  show "compact_exponent a \<le> 33" using b(1) by (simp add: compact_exponent_def)
  show "compact_exponent a = 33 \<Longrightarrow> compact_mantissa a < 2 ^ 16"
    using b(1) d by (simp add: compact_exponent_def compact_mantissa_def split: if_splits)
  assume "0 < limbs_val a"
  then have "2 ^ 16 \<le> compact_top a" by (rule t(3))
  moreover have "2 ^ 15 \<le> compact_top a div 2 ^ 8" if "2 ^ 23 \<le> compact_top a"
    using zdiv_mono1 [OF that, of "2 ^ 8"] by simp
  ultimately show "2 ^ 15 \<le> compact_mantissa a" by (simp add: compact_mantissa_def)
qed

text \<open>What \<open>GetCompact\<close> computes; its assertions hold.\<close>

definition compact_code :: "limbs \<Rightarrow> u32" where
  "compact_code a = word_of_int (compact_mantissa a) OR push_bit 24 (of_nat (compact_exponent a))"

lemma compact_top_word:
  assumes "length a = WIDTH"
  shows "(if compact_bytes a \<le> 3 then ucast (push_bit (8 * (3 - compact_bytes a)) (bu_GetLow64 a))
     else ucast (bu_GetLow64 (bu_shr a (8 * (compact_bytes a - 3))))) = (word_of_int (compact_top a) :: u32)" (is "?l = ?r")
proof (rule word_uint_eqI)
  let ?n = "compact_bytes a"
  have r: "uint ?r = compact_top a"
    using compact_top_bounds(1,2) [OF assms] by (simp add: uint_word_of_int)
  have "uint ?l = compact_top a mod 2 ^ 64 mod 2 ^ 32"
  proof (cases "?n \<le> 3")
    case True
    have "uint (push_bit (8 * (3 - ?n)) (bu_GetLow64 a)) = (limbs_val a mod 2 ^ 64 * 2 ^ (8 * (3 - ?n))) mod 2 ^ 64"
      by (simp only: unsigned_push_bit_eq bu_GetLow64_val [OF assms]) (simp add: push_bit_eq_mult take_bit_eq_mod)
    also have "\<dots> = compact_top a mod 2 ^ 64" using True by (simp only: mod_mult_left_eq compact_top_def if_True)
    finally show ?thesis using True by (simp add: unsigned_ucast_eq take_bit_eq_mod)
  next
    case False
    then show ?thesis
      by (simp add: unsigned_ucast_eq take_bit_eq_mod bu_GetLow64_val limbs_val_shr [OF assms] compact_top_def)
  qed
  also have "\<dots> = compact_top a"
    using compact_top_bounds(1,2) [OF assms] by (simp add: mod_pos_pos_trivial)
  finally show "uint ?l = uint ?r" using r by simp
qed

lemma GetCompact_code:
  assumes "length a = WIDTH"
  shows "GetCompact False a = Some (compact_code a)"
proof -
  let ?c = "word_of_int (compact_top a) :: u32"
  note t = compact_top_bounds [OF assms] and m = compact_mantissa_bounds [OF assms]
  have c: "uint ?c = compact_top a" using t(1,2) by (simp add: uint_word_of_int)
  have neg: "?c AND 0x00800000 \<noteq> 0 \<longleftrightarrow> 2 ^ 23 \<le> compact_top a"
    using u32_bit23 [of ?c] t(2) c by simp
  have shift: "drop_bit 8 ?c = word_of_int (compact_top a div 2 ^ 8)"
  proof (rule word_uint_eqI)
    have "uint (drop_bit 8 ?c) = drop_bit 8 (take_bit 32 (compact_top a))"
      by (simp only: unsigned_drop_bit_eq c) simp
    also have "\<dots> = compact_top a div 2 ^ 8"
      using t(1,2) by (simp add: take_bit_int_eq_self drop_bit_eq_div)
    also have "\<dots> = uint (word_of_int (compact_top a div 2 ^ 8) :: u32)"
      using t(1,2) int_div_less [of "2 ^ 8" "compact_top a" "2 ^ 24"]
      by (simp add: uint_word_of_int pos_imp_zdiv_nonneg_iff mod_pos_pos_trivial)
    finally show "uint (drop_bit 8 ?c) = uint (word_of_int (compact_top a div 2 ^ 8) :: u32)" .
  qed
  let ?m = "word_of_int (compact_mantissa a) :: u32"
  have um: "uint ?m = compact_mantissa a" using m(1,2) by (simp add: uint_word_of_int)
  then have "take_bit 23 ?m = ?m" using m(2) by (intro take_bit_u32) simp
  moreover have "take_bit 8 (of_nat (compact_exponent a)) = (of_nat (compact_exponent a) :: u32)"
    using m(4) by (intro take_bit_u32) (simp add: unsigned_of_nat take_bit_nat_eq_self)
  ultimately have "?m AND NOT 0x007fffff = 0" by (rule mantissa_exponent)
  moreover have "compact_exponent a < 256" using m(4) by simp
  moreover have "(if ?c AND 0x00800000 \<noteq> 0 then (drop_bit 8 ?c, compact_bytes a + 1) else (?c, compact_bytes a)) =
      (?m, compact_exponent a)"
    using neg shift by (simp add: compact_mantissa_def compact_exponent_def)
  ultimately show ?thesis
    unfolding GetCompact_def Let_def compact_bytes_def [symmetric] compact_top_word [OF assms]
    by (simp add: compact_code_def)
qed

text \<open>The value with its low bytes cut off, which is what the compact form keeps.\<close>

definition compact_trunc :: "limbs \<Rightarrow> int" where
  "compact_trunc a = limbs_val a - limbs_val a mod 2 ^ (8 * (compact_exponent a - 3))"

lemma compact_trunc_mantissa:
  assumes "length a = WIDTH"
  shows "compact_trunc a =
    (if compact_exponent a \<le> 3 then compact_mantissa a div 2 ^ (8 * (3 - compact_exponent a))
     else compact_mantissa a * 2 ^ (8 * (compact_exponent a - 3)))"
proof -
  let ?v = "limbs_val a" and ?n = "compact_bytes a" and ?e = "compact_exponent a"
  consider "2 ^ 23 \<le> compact_top a" "?n < 3" | "2 ^ 23 \<le> compact_top a" "3 \<le> ?n"
    | "compact_top a < 2 ^ 23" "?n \<le> 3" | "compact_top a < 2 ^ 23" "3 < ?n" by linarith
  then show ?thesis
  proof cases
    case 1
    then have e: "?e \<le> 3" "?e - 3 = 0" "3 - ?n = Suc (3 - ?e)" by (simp_all add: compact_exponent_def)
    have "compact_mantissa a = ?v * 2 ^ (8 * (3 - ?e))"
    proof -
      have "?v * 2 ^ (8 * (3 - ?n)) = ?v * 2 ^ (8 * (3 - ?e)) * 2 ^ 8" unfolding e(3) by (simp add: power_add)
      then have "compact_top a = ?v * 2 ^ (8 * (3 - ?e)) * 2 ^ 8" using 1 by (simp add: compact_top_def)
      then have "compact_top a div 2 ^ 8 = ?v * 2 ^ (8 * (3 - ?e))" by simp
      then show ?thesis using 1 by (simp add: compact_mantissa_def)
    qed
    then show ?thesis using e by (simp add: compact_trunc_def)
  next
    case 2
    then have e: "?e = ?n + 1" by (simp add: compact_exponent_def)
    have "compact_mantissa a = ?v div 2 ^ (8 * (?e - 3))"
    proof (cases "?n = 3")
      case True
      then show ?thesis using 2 e by (simp add: compact_mantissa_def compact_top_def)
    next
      case False
      then have "8 * (?e - 3) = 8 * (?n - 3) + 8" using 2 e by simp
      then have "(2 :: int) ^ (8 * (?e - 3)) = 2 ^ (8 * (?n - 3)) * 2 ^ 8" by (metis power_add)
      then show ?thesis using 2 False by (simp add: compact_mantissa_def compact_top_def zdiv_zmult2_eq)
    qed
    then show ?thesis using e 2 by (simp add: compact_trunc_def minus_mod_eq_div_mult)
  next
    case 3
    then have "?e = ?n" by (simp add: compact_exponent_def)
    then show ?thesis using 3 by (simp add: compact_trunc_def compact_mantissa_def compact_top_def)
  next
    case 4
    then have "?e = ?n" by (simp add: compact_exponent_def)
    then show ?thesis using 4 by (simp add: compact_trunc_def compact_mantissa_def compact_top_def minus_mod_eq_div_mult)
  qed
qed

lemma compact_trunc_bounds:
  assumes "length a = WIDTH"
  shows "0 \<le> compact_trunc a" "compact_trunc a \<le> limbs_val a"
    "2 ^ 15 * (limbs_val a - compact_trunc a) \<le> compact_trunc a"
proof -
  let ?B = "2 ^ (8 * (compact_exponent a - 3)) :: int"
  have m: "0 \<le> limbs_val a mod ?B" "limbs_val a mod ?B < ?B" by simp_all
  show "compact_trunc a \<le> limbs_val a" using m by (simp add: compact_trunc_def)
  show "0 \<le> compact_trunc a"
    using zmod_le_nonneg_dividend [of "limbs_val a" ?B] by (simp add: compact_trunc_def)
  show "2 ^ 15 * (limbs_val a - compact_trunc a) \<le> compact_trunc a"
  proof (cases "compact_exponent a \<le> 3 \<or> limbs_val a = 0")
    case True
    then show ?thesis by (auto simp: compact_trunc_def)
  next
    case False
    then have "0 < limbs_val a" using limbs_val_nonneg [of a] by linarith
    then have "2 ^ 15 * ?B \<le> compact_mantissa a * ?B"
      using compact_mantissa_bounds(3) [OF assms] by (intro mult_right_mono) simp_all
    then have "2 ^ 15 * ?B \<le> compact_trunc a" using False compact_trunc_mantissa [OF assms] by simp
    moreover have "2 ^ 15 * (limbs_val a - compact_trunc a) \<le> 2 ^ 15 * ?B"
    proof -
      have "limbs_val a - compact_trunc a \<le> ?B" using m(2) unfolding compact_trunc_def by linarith
      then show ?thesis by (rule mult_left_mono) simp
    qed
    ultimately show ?thesis by linarith
  qed
qed

lemma limbs_val_of_u64: "limbs_val (bu_of_u64 u) = uint u"
proof -
  have "limbs_val (bu_of_u64 u) = uint (ucast u :: 256 word)"
    using uint_limbs_word [of "bu_of_u64 u"] by simp
  also have "\<dots> = uint u" using uint_lt2p [of u] by (simp add: unsigned_ucast_eq take_bit_int_eq_self)
  finally show ?thesis .
qed

lemma SetCompact_code:
  assumes "length a = WIDTH"
  shows "\<exists>v. SetCompact (compact_code a) = (v, False, False) \<and> length v = WIDTH \<and> limbs_val v = compact_trunc a"
proof -
  let ?m = "word_of_int (compact_mantissa a) :: u32" and ?e = "compact_exponent a"
  note m = compact_mantissa_bounds [OF assms]
  have um: "uint ?m = compact_mantissa a" using m(1,2) by (simp add: uint_word_of_int)
  then have m23: "take_bit 23 ?m = ?m" using m(2) by (intro take_bit_u32) simp
  have e8: "take_bit 8 (of_nat ?e) = (of_nat ?e :: u32)"
    using m(4) by (intro take_bit_u32) (simp add: unsigned_of_nat take_bit_nat_eq_self)
  note me = mantissa_exponent [OF m23 e8, folded compact_code_def]
  have ue: "unat (of_nat ?e :: u32) = ?e" using m(4) by (simp add: unsigned_of_nat take_bit_nat_eq_self)
  define w where "w = (if ?e \<le> 3 then drop_bit (8 * (3 - ?e)) ?m else ?m)"
  define v where "v = (if ?e \<le> 3 then bu_of_u64 (ucast w) else bu_shl (bu_of_u64 (ucast w)) (8 * (?e - 3)))"
  have "SetCompact (compact_code a) = (v, w \<noteq> 0 \<and> compact_code a AND 0x00800000 \<noteq> 0,
      w \<noteq> 0 \<and> (?e > 34 \<or> w > 0xff \<and> ?e > 33 \<or> w > 0xffff \<and> ?e > 32))"
    unfolding SetCompact_def Let_def me(2,3) ue by (simp only: w_def v_def split: if_splits)
  moreover have "\<not> (w \<noteq> 0 \<and> (?e > 34 \<or> w > 0xff \<and> ?e > 33 \<or> w > 0xffff \<and> ?e > 32))"
  proof
    assume a: "w \<noteq> 0 \<and> (?e > 34 \<or> w > 0xff \<and> ?e > 33 \<or> w > 0xffff \<and> ?e > 32)"
    then have "?e = 33" "w > 0xffff" using m(4) by auto
    then have "uint w < 2 ^ 16" using m(5) um by (simp add: w_def)
    with \<open>w > 0xffff\<close> show False by (simp add: word_less_def)
  qed
  moreover have "limbs_val v = compact_trunc a"
  proof (cases "?e \<le> 3")
    case True
    have "uint w = compact_mantissa a div 2 ^ (8 * (3 - ?e))"
    proof -
      have "uint w = drop_bit (8 * (3 - ?e)) (take_bit 32 (compact_mantissa a))"
        using True by (simp only: w_def if_True unsigned_drop_bit_eq um) simp
      then show ?thesis using m(1,2) by (simp add: take_bit_int_eq_self drop_bit_eq_div)
    qed
    then show ?thesis using True compact_trunc_mantissa [OF assms] by (simp add: v_def limbs_val_of_u64)
  next
    case False
    have t: "compact_trunc a = compact_mantissa a * 2 ^ (8 * (?e - 3))"
      using False compact_trunc_mantissa [OF assms] by simp
    have "compact_trunc a < 2 ^ 256"
      using compact_trunc_bounds(2) [OF assms] limbs_val_less [of a] assms by (simp add: WIDTH_def)
    then show ?thesis
      using False um by (simp add: v_def w_def limbs_val_shl limbs_val_of_u64 flip: t)
  qed
  moreover have "length v = WIDTH" by (simp add: v_def)
  ultimately show ?thesis using me(4) by (intro exI [of _ v]) simp
qed

lemma bu_bits_unique:
  assumes "length a = WIDTH" "2 ^ n \<le> limbs_val a" "limbs_val a < 2 ^ Suc n"
  shows "bu_bits a = Suc n"
proof -
  note b = bu_bits_bounds [OF assms(1)]
  have "(2 :: int) ^ n < 2 ^ bu_bits a" using b(2) assms(2) by linarith
  then have "n < bu_bits a" by simp
  then have "(2 :: int) ^ (bu_bits a - 1) < 2 ^ Suc n" using b(3) assms(3) by linarith
  then have "bu_bits a - 1 < Suc n" by (simp only: power_strict_increasing_iff)
  with \<open>n < bu_bits a\<close> show ?thesis by simp
qed

lemma compact_code_trunc:
  assumes "length a = WIDTH" "length v = WIDTH" "limbs_val v = compact_trunc a"
  shows "compact_code v = compact_code a"
proof (cases "limbs_val a = 0")
  case True
  then have "limbs_val v = 0" using assms(3) by (simp add: compact_trunc_def)
  then have "v = a" using True assms by (intro limbs_word_inj) (simp_all add: limbs_word_val)
  then show ?thesis by simp
next
  case False
  then have pos: "0 < limbs_val a" using limbs_val_nonneg [of a] by linarith
  let ?B = "2 ^ (8 * (compact_exponent a - 3)) :: int" and ?n = "compact_bytes a"
  have b0: "0 < bu_bits a" using pos bu_bits_bounds(2) [OF assms(1)] by (cases "bu_bits a") simp_all
  have le: "8 * (compact_exponent a - 3) \<le> bu_bits a - 1"
  proof -
    have "8 * (?n - 1) \<le> bu_bits a - 1" using b0 unfolding compact_bytes_def by linarith
    moreover have "compact_exponent a - 3 \<le> ?n - 1"
      by (cases "2 ^ 23 \<le> compact_top a") (simp_all add: compact_exponent_def)
    ultimately show ?thesis by linarith
  qed
  have "bu_bits v = bu_bits a"
  proof -
    have "?B dvd 2 ^ (bu_bits a - 1)" using le by (rule le_imp_power_dvd)
    then obtain k where k: "2 ^ (bu_bits a - 1) = ?B * k" by blast
    have "?B * k \<le> limbs_val a" using bu_bits_bounds(3) [OF assms(1) b0] k by simp
    then have "k \<le> limbs_val a div ?B" by (metis mult.commute zdiv_mono1 nonzero_mult_div_cancel_left zero_less_power zero_less_numeral less_irrefl)
    then have "?B * k \<le> ?B * (limbs_val a div ?B)" by (intro mult_left_mono) simp_all
    then have "2 ^ (bu_bits a - 1) \<le> limbs_val v"
      using k assms(3) by (simp add: compact_trunc_def minus_mod_eq_mult_div)
    moreover have "limbs_val v < 2 ^ Suc (bu_bits a - 1)"
      using compact_trunc_bounds(2) [OF assms(1)] bu_bits_bounds(2) [OF assms(1)] b0 assms(3) by simp
    ultimately have "bu_bits v = Suc (bu_bits a - 1)" by (rule bu_bits_unique [OF assms(2)])
    then show ?thesis using b0 by simp
  qed
  then have n: "compact_bytes v = ?n" by (simp add: compact_bytes_def)
  have v: "limbs_val v = ?B * (limbs_val a div ?B)" using assms(3) by (simp add: compact_trunc_def minus_mod_eq_mult_div)
  show ?thesis
  proof (cases "2 ^ 23 \<le> compact_top a")
    case False
    then have e: "compact_exponent a = ?n" by (simp add: compact_exponent_def)
    have "compact_top v = compact_top a"
      using v n e by (simp add: compact_top_def)
    then show ?thesis using n by (simp add: compact_code_def compact_mantissa_def compact_exponent_def)
  next
    case True
    then have e: "compact_exponent a = ?n + 1" by (simp add: compact_exponent_def)
    show ?thesis
    proof (cases "?n \<le> 2")
      case True
      then have "limbs_val v = limbs_val a" using e assms(3) by (simp add: compact_trunc_def)
      then have "v = a" using assms by (intro limbs_word_inj) (simp_all add: limbs_word_val)
      then show ?thesis by simp
    next
      case False
      let ?C = "2 ^ (8 * (?n - 3)) :: int"
      have "8 * (compact_exponent a - 3) = 8 * (?n - 3) + 8" using False e by simp
      then have B: "?B = ?C * 2 ^ 8" by (metis power_add)
      have top: "compact_top x = limbs_val x div ?C" if "compact_bytes x = ?n" for x
        using that False by (auto simp: compact_top_def le_Suc_eq numeral_3_eq_3)
      have "compact_top v = ?C * (2 ^ 8 * (limbs_val a div ?B)) div ?C"
        using top [OF n] v B by (simp add: mult.assoc)
      then have tv: "compact_top v = 2 ^ 8 * (limbs_val a div ?B)" by simp
      have ta: "compact_top a div 2 ^ 8 = limbs_val a div ?B"
        using top [OF refl] B by (simp add: zdiv_zmult2_eq)
      have "2 ^ 15 \<le> compact_top a div 2 ^ 8" using zdiv_mono1 [OF True, of "2 ^ 8"] by simp
      then have "2 ^ 23 \<le> compact_top v" using tv ta by simp
      then show ?thesis
        using True tv ta n by (simp add: compact_code_def compact_mantissa_def compact_exponent_def)
    qed
  qed
qed

section \<open>Properties\<close>

text \<open>
  C19: The limb-wise operations of \<open>base_uint<256>\<close>, with their carries, borrows and limb offsets,
  refine the arithmetic of 256-bit words.
\<close>

theorem arith_refines_word:
  assumes "length a = WIDTH" "length b = WIDTH"
  shows "limbs_word (bu_add a b) = limbs_word a + limbs_word b \<and>
    limbs_word (bu_sub a b) = limbs_word a - limbs_word b \<and>
    limbs_word (bu_mul a b) = limbs_word a * limbs_word b \<and>
    limbs_word (bu_mul32 a x) = limbs_word a * ucast x \<and>
    limbs_word (bu_neg a) = - limbs_word a \<and> limbs_word (bu_not a) = NOT (limbs_word a) \<and>
    limbs_word (bu_inc a) = limbs_word a + 1 \<and> limbs_word (bu_dec a) = limbs_word a - 1 \<and>
    limbs_word (bu_xor a b) = limbs_word a XOR limbs_word b \<and>
    limbs_word (bu_and a b) = limbs_word a AND limbs_word b \<and>
    limbs_word (bu_or a b) = limbs_word a OR limbs_word b \<and>
    limbs_word (bu_shl a n) = push_bit n (limbs_word a) \<and>
    limbs_word (bu_shr a n) = drop_bit n (limbs_word a) \<and>
    limbs_word (bu_of_u64 u) = ucast u \<and>
    bu_CompareTo a b =
      (if limbs_word a < limbs_word b then - 1 else if limbs_word a > limbs_word b then 1 else 0)"
  by (simp only: assms limbs_word_add limbs_word_sub limbs_word_mul limbs_word_mul32 limbs_word_neg limbs_word_not
      limbs_word_inc limbs_word_dec limbs_word_bitwise limbs_word_shl limbs_word_shr limbs_word_of_u64
      bu_CompareTo_word)

theorem arith_refines_word_witness:
  "limbs_word (bu_add (bu_not bu_zero) (bu_of_u64 5)) = limbs_word (bu_not bu_zero) + limbs_word (bu_of_u64 5) \<and>
    limbs_word (bu_sub (bu_not bu_zero) (bu_of_u64 5)) = limbs_word (bu_not bu_zero) - limbs_word (bu_of_u64 5)"
  using arith_refines_word [of "bu_not bu_zero" "bu_of_u64 5"] by simp

text \<open>
  C20: The long division always returns: it throws for a zero divisor, and otherwise its result is
  the quotient of the values.
\<close>

theorem arith_division:
  assumes "length a = WIDTH" "length b = WIDTH"
  shows "case bu_div a b of
      Inl e \<Rightarrow> e = DivisionByZero \<and> limbs_word b = 0
    | Inr q \<Rightarrow> limbs_word b \<noteq> 0 \<and> length q = WIDTH \<and> limbs_word q = limbs_word a div limbs_word b"
proof (cases "limbs_word b = 0")
  case True
  then show ?thesis using bu_div_word(1) [OF assms] by simp
next
  case False
  then obtain q where q: "bu_div a b = Inr q" "length q = WIDTH" "limbs_val q = limbs_val a div limbs_val b"
    using bu_div_word(2) [OF assms] by blast
  have "uint (limbs_word q) = uint (limbs_word a div limbs_word b)"
    using q(2,3) assms by (simp add: uint_div uint_limbs_word)
  then have "limbs_word q = limbs_word a div limbs_word b" by (rule word_uint_eqI)
  then show ?thesis using q False by simp
qed

theorem arith_division_witness:
  "case bu_div (bu_of_u64 100) (bu_of_u64 7) of
      Inl e \<Rightarrow> e = DivisionByZero \<and> limbs_word (bu_of_u64 7) = 0
    | Inr q \<Rightarrow> limbs_word (bu_of_u64 7) \<noteq> 0 \<and> length q = WIDTH \<and>
        limbs_word q = limbs_word (bu_of_u64 100) div limbs_word (bu_of_u64 7)"
  by (rule arith_division) simp_all

text \<open>
  C31: The compact form: the assertions of \<open>GetCompact\<close> hold for every value, \<open>SetCompact\<close> of its result
  is neither negative nor an overflow and differs from the value by at most a factor of \<open>2 ^ - 15\<close>,
  downwards, and encoding the decoded value gives the same compact form again.
\<close>

theorem compact_roundtrip:
  assumes "length a = WIDTH"
  shows "\<exists>c v. GetCompact False a = Some c \<and> SetCompact c = (v, False, False) \<and> GetCompact False v = Some c \<and>
    limbs_word v \<le> limbs_word a \<and> 2 ^ 15 * (uint (limbs_word a) - uint (limbs_word v)) \<le> uint (limbs_word v)"
proof -
  obtain v where v: "SetCompact (compact_code a) = (v, False, False)" "length v = WIDTH" "limbs_val v = compact_trunc a"
    using SetCompact_code [OF assms] by blast
  have "GetCompact False v = Some (compact_code a)"
    using GetCompact_code [OF v(2)] compact_code_trunc [OF assms v(2,3)] by simp
  then show ?thesis
    using GetCompact_code [OF assms] v compact_trunc_bounds [OF assms] assms
    by (intro exI [of _ "compact_code a"] exI [of _ v]) (simp add: uint_limbs_word word_le_def)
qed

theorem compact_roundtrip_witness:
  "\<exists>c v. GetCompact False (bu_not bu_zero) = Some c \<and> SetCompact c = (v, False, False) \<and> GetCompact False v = Some c \<and>
    limbs_word v \<le> limbs_word (bu_not bu_zero) \<and>
    2 ^ 15 * (uint (limbs_word (bu_not bu_zero)) - uint (limbs_word v)) \<le> uint (limbs_word v)"
  by (rule compact_roundtrip) simp

end
