(* ===== verification/Pow.thy ===== *)
theory Pow
  imports ArithCompact StakingTypes
begin

text \<open>
  The proof-of-stake target of \<open>src/pow.cpp\<close>: the retargeting over the last ten blocks and the checks.
  A chain is the list of its block indices from the tip to the genesis block, so that the tail of a
  list is \<open>pprev\<close>; the empty list is the null pointer. \<open>None\<close> is an exception, a failed assertion or
  undefined behaviour.
\<close>

section \<open>Definitions\<close>

record CBlockIndex =
  bi_nHeight :: int
  bi_nTime :: u32
  bi_nBits :: u32

definition GetBlockTime :: "CBlockIndex \<Rightarrow> int" where
  "GetBlockTime b = uint (bi_nTime b)"

text \<open>The loop that follows \<open>pprev\<close> at most \<open>i\<close> times.\<close>

fun walk_back :: "nat \<Rightarrow> CBlockIndex list \<Rightarrow> CBlockIndex list" where
  "walk_back (Suc i) (b # p # r) = walk_back i (p # r)"
| "walk_back i c = c"

definition clamp_timespan :: "int \<Rightarrow> int \<Rightarrow> int option" where
  "clamp_timespan nActualTimespan nTargetTimespan = do {
     let nActualTimespan =
       (if nActualTimespan < nTargetTimespan sdiv 4 then nTargetTimespan sdiv 4 else nActualTimespan);
     m \<leftarrow> i64 (nTargetTimespan * 4);
     Some (if nActualTimespan > m then m else nActualTimespan)
   }"

text \<open>
  \<open>bnNew *= nActualTimespan\<close> takes the overload for \<open>uint32_t\<close>, \<open>bnNew /= nTargetTimespan\<close> converts the
  64-bit integer to \<open>arith_uint256\<close>.
\<close>

definition GetNextPoSTarget :: "CBlockIndex list \<Rightarrow> uint256 \<Rightarrow> params \<Rightarrow> u32 option" where
  "GetNextPoSTarget chain powLimit ps =
     (case chain of
        [] \<Rightarrow> GetCompact False (UintToArith256 powLimit)
      | pindexLast # _ \<Rightarrow>
          if bi_nHeight pindexLast < 10 then GetCompact False (UintToArith256 powLimit)
          else do {
            let pindexFirst = hd (walk_back 9 chain);
            let nActualTimespan = GetBlockTime pindexLast - GetBlockTime pindexFirst;
            nTargetTimespan \<leftarrow> i64 (9 * nStakeTargetSpacing ps);
            nActualTimespan \<leftarrow> clamp_timespan nActualTimespan nTargetTimespan;
            let bnNew = fst (SetCompact (bi_nBits pindexLast));
            let bnNew = bu_mul32 bnNew (word_of_int nActualTimespan);
            bnNew \<leftarrow> (case bu_div bnNew (bu_of_u64 (word_of_int nTargetTimespan)) of
                Inl DivisionByZero \<Rightarrow> None | Inr q \<Rightarrow> Some q);
            let bnPowLimit = UintToArith256 powLimit;
            GetCompact False (if bu_CompareTo bnNew bnPowLimit > 0 then bnPowLimit else bnNew)
          })"

definition GetNextWorkRequired :: "CBlockIndex list \<Rightarrow> uint256 \<Rightarrow> params \<Rightarrow> u32 option" where
  "GetNextWorkRequired chain powLimit ps = GetNextPoSTarget chain powLimit ps"

definition CheckProofOfWork :: "uint256 \<Rightarrow> u32 \<Rightarrow> params \<Rightarrow> bool" where
  "CheckProofOfWork h nBits ps = True"

definition CheckProofOfStakeTarget :: "u32 \<Rightarrow> uint256 \<Rightarrow> bool" where
  "CheckProofOfStakeTarget nBits powLimit =
     (let (bnTarget, fNegative, fOverflow) = SetCompact nBits
      in if fNegative \<or> bu_EqualTo bnTarget 0 \<or> fOverflow
            \<or> bu_CompareTo bnTarget (UintToArith256 powLimit) > 0
         then False else True)"

text \<open>The limits of \<open>src/chainparams.cpp\<close> for the regression test and main networks, and an evenly spaced chain.\<close>

definition regtest_limit :: uint256 where
  "regtest_limit = UInt256 (replicate 31 0xff @ [0x7f])"

definition main_limit :: uint256 where
  "main_limit = UInt256 (replicate 29 0xff @ [0x0f, 0, 0])"

definition even_tip :: "u32 \<Rightarrow> CBlockIndex" where
  "even_tip bits = \<lparr>bi_nHeight = 10, bi_nTime = 1700001500, bi_nBits = bits\<rparr>"

definition even_chain :: "nat \<Rightarrow> u32 \<Rightarrow> CBlockIndex list" where
  "even_chain n bits = map (\<lambda>k. \<lparr>bi_nHeight = int k, bi_nTime = 1700000000 + 150 * of_nat k, bi_nBits = bits\<rparr>) (rev [0..<n])"

section \<open>Retargeting\<close>

lemma length_UintToArith256 [simp]: "length (UintToArith256 h) = WIDTH"
  by (simp add: UintToArith256_def)

lemma length_SetCompact: "SetCompact c = (v, n, f) \<Longrightarrow> length v = WIDTH"
  by (auto simp: SetCompact_def Let_def split: if_splits)

lemma limbs_val_mul32:
  assumes "length a = WIDTH"
  shows "limbs_val (bu_mul32 a x) = limbs_val a * uint x mod 2 ^ 256"
  using mul32_loop_val [of 0 x a] assms by (simp add: bu_mul32_def WIDTH_def mult.commute)

lemma clamp_timespan_eq:
  assumes "0 \<le> T" "T * 4 \<le> INT64_MAX"
  shows "clamp_timespan x T = Some (max (T div 4) (min (T * 4) x))"
proof -
  have "T div 4 \<le> T * 4" using assms(1) by linarith
  then show ?thesis using assms by (auto simp: clamp_timespan_def i64_nonneg sdiv_nonneg)
qed

text \<open>The two facts behind the checks: a zero value and the order of values.\<close>

lemma bu_EqualTo_0: "length v = WIDTH \<Longrightarrow> bu_EqualTo v 0 \<longleftrightarrow> limbs_val v = 0"
proof -
  assume v: "length v = WIDTH"
  have "bu_EqualTo v 0 \<longleftrightarrow> (\<forall>i < WIDTH. v ! i = 0)"
  proof -
    have "ucast x = (0 :: u64) \<longleftrightarrow> x = 0" for x :: u32
    proof
      assume "ucast x = (0 :: u64)"
      then have "uint x = 0" using uint_ucast_u32 [of x] by simp
      then show "x = 0" by (intro word_uint_eqI) simp
    qed simp
    moreover have "(i < WIDTH) = (i \<in> {0, 1} \<union> set [2..<WIDTH])" for i by (auto simp: WIDTH_def)
    then have "(\<forall>i < WIDTH. v ! i = 0) \<longleftrightarrow> (\<forall>i \<in> {0, 1} \<union> set [2..<WIDTH]. v ! i = 0)" by (simp only: Ball_def)
    then have "(\<forall>i < WIDTH. v ! i = 0) \<longleftrightarrow> v ! 0 = 0 \<and> v ! 1 = 0 \<and> (\<forall>i \<in> set [2..<WIDTH]. v ! i = 0)"
      by (simp only: ball_Un) simp
    ultimately show ?thesis by (auto simp: bu_EqualTo_def)
  qed
  also have "\<dots> \<longleftrightarrow> v = bu_zero"
    using v by (auto intro!: nth_equalityI simp: bu_zero_def)
  also have "\<dots> \<longleftrightarrow> limbs_val v = 0"
  proof
    assume "limbs_val v = 0"
    then have "limbs_word v = limbs_word bu_zero" by (simp add: limbs_word_val [of v])
    then show "v = bu_zero" using v by (intro limbs_word_inj) simp_all
  next
    assume "v = bu_zero"
    then show "limbs_val v = 0" using uint_limbs_word [of bu_zero] by simp
  qed
  finally show ?thesis .
qed

lemma CheckProofOfStakeTarget_iff:
  assumes "SetCompact c = (v, n, f)"
  shows "CheckProofOfStakeTarget c lim \<longleftrightarrow>
    \<not> n \<and> \<not> f \<and> 0 < limbs_val v \<and> limbs_val v \<le> limbs_val (UintToArith256 lim)"
proof -
  have v: "length v = WIDTH" by (rule length_SetCompact [OF assms])
  have "bu_CompareTo v (UintToArith256 lim) > 0 \<longleftrightarrow> limbs_val (UintToArith256 lim) < limbs_val v"
    using v by (simp add: bu_CompareTo_word word_less_def uint_limbs_word)
  moreover have "limbs_val v \<noteq> 0 \<longleftrightarrow> 0 < limbs_val v" using limbs_val_nonneg [of v] by linarith
  ultimately show ?thesis
    using bu_EqualTo_0 [OF v] by (simp add: CheckProofOfStakeTarget_def assms)
qed

lemma small_error_pos:
  fixes M :: int
  assumes "0 \<le> v" "v \<le> M" "32768 * (M - v) \<le> v"
  shows "0 < v \<longleftrightarrow> 0 < M"
proof
  show "0 < M" if "0 < v" using that assms by linarith
  show "0 < v" if "0 < M"
  proof (rule ccontr)
    assume "\<not> 0 < v"
    then have "v = 0" using assms(1) by simp
    with assms(3) that show False by simp
  qed
qed

lemma retarget:
  fixes rest :: "CBlockIndex list"
  assumes "10 \<le> bi_nHeight b" "0 < nStakeTargetSpacing ps" "36 * nStakeTargetSpacing ps < 2 ^ 32"
  defines "T \<equiv> 9 * nStakeTargetSpacing ps"
  defines "A \<equiv> max (T div 4) (min (T * 4) (GetBlockTime b - GetBlockTime (hd (walk_back 9 (b # rest)))))"
  defines "t \<equiv> limbs_val (fst (SetCompact (bi_nBits b)))"
  shows "\<exists>a. length a = WIDTH \<and> limbs_val a = min (limbs_val (UintToArith256 lim)) (t * A mod 2 ^ 256 div T) \<and>
    GetNextPoSTarget (b # rest) lim ps = Some (compact_code a)"
proof -
  let ?L = "UintToArith256 lim" and ?t = "fst (SetCompact (bi_nBits b))"
  have T: "0 < T" "T * 4 < 2 ^ 32" using assms(2,3) by (simp_all add: T_def)
  have A: "0 \<le> A" "A < 2 ^ 32" using T unfolding A_def by linarith+
  have i: "i64 T = Some T" using T by (simp add: i64_nonneg INT64_MAX_def)
  have c: "clamp_timespan (GetBlockTime b - GetBlockTime (hd (walk_back 9 (b # rest)))) T = Some A"
    unfolding A_def using T by (intro clamp_timespan_eq) (simp_all add: INT64_MAX_def)
  obtain t' n f where sc: "SetCompact (bi_nBits b) = (t', n, f)" by (cases "SetCompact (bi_nBits b)") auto
  then have lt: "length ?t = WIDTH" using length_SetCompact [OF sc] by simp
  have uA: "uint (word_of_int A :: u32) = A" using A by (simp add: uint_word_of_int)
  let ?m = "bu_mul32 ?t (word_of_int A)"
  have m: "limbs_val ?m = t * A mod 2 ^ 256" "length ?m = WIDTH"
    using limbs_val_mul32 [OF lt, of "word_of_int A"] uA lt by (simp_all add: t_def)
  let ?T = "bu_of_u64 (word_of_int T)"
  have uT: "limbs_val ?T = T" using T by (simp add: limbs_val_of_u64 uint_word_of_int)
  have "limbs_word ?T \<noteq> 0"
  proof
    assume "limbs_word ?T = 0"
    then have "limbs_val ?T = 0" using uint_limbs_word [of ?T] by simp
    with uT T(1) show False by simp
  qed
  then obtain q where q: "bu_div ?m ?T = Inr q" "length q = WIDTH" "limbs_val q = t * A mod 2 ^ 256 div T"
    using bu_div_word(2) [OF m(2), of ?T] m(1) uT by auto
  let ?a = "if bu_CompareTo q ?L > 0 then ?L else q"
  have "bu_CompareTo q ?L > 0 \<longleftrightarrow> limbs_val ?L < limbs_val q"
    using q(2) by (simp add: bu_CompareTo_word word_less_def uint_limbs_word)
  then have a: "length ?a = WIDTH" "limbs_val ?a = min (limbs_val ?L) (t * A mod 2 ^ 256 div T)" using q(2,3) by auto
  have "GetNextPoSTarget (b # rest) lim ps = GetCompact False ?a"
    using assms(1) i c q(1) by (simp add: GetNextPoSTarget_def T_def [symmetric] Let_def)
  then show ?thesis using a GetCompact_code [OF a(1)] by (intro exI [of _ ?a]) simp
qed

lemma SetCompact_large:
  assumes "unat (drop_bit 24 c) = s" "3 < s" "uint (c AND 0x007fffff) * 2 ^ (8 * (s - 3)) < 2 ^ 256"
  shows "limbs_val (fst (SetCompact c)) = uint (c AND 0x007fffff) * 2 ^ (8 * (s - 3))"
proof -
  have "limbs_val (bu_of_u64 (ucast (c AND 0x007fffff))) = uint (c AND 0x007fffff)"
    by (simp only: limbs_val_of_u64 uint_ucast_u32)
  then show ?thesis using assms by (simp add: SetCompact_def Let_def limbs_val_shl del: power_numeral)
qed

lemma main_target: "limbs_val (fst (SetCompact 0x1e0fffff)) = 0xfffff * 2 ^ 216"
  by (subst SetCompact_large [where s = 30]) simp_all

lemma regtest_target: "limbs_val (fst (SetCompact 0x207fffff)) = 0x7fffff * 2 ^ 232"
  by (subst SetCompact_large [where s = 32]) simp_all

lemma main_limit_value: "limbs_val (UintToArith256 main_limit) = 2 ^ 236 - 1"
  by code_simp

lemma regtest_limit_value: "limbs_val (UintToArith256 regtest_limit) = 2 ^ 255 - 1"
  by code_simp

lemma even_chain: "even_chain 11 bits = even_tip bits # tl (even_chain 11 bits)"
  by (simp add: even_chain_def even_tip_def upt_rec)

lemma walk_back_numeral: "walk_back (numeral k) (b # p # r) = walk_back (pred_numeral k) (p # r)"
  by (simp add: numeral_eq_Suc)

lemma even_chain_first: "GetBlockTime (hd (walk_back 9 (even_chain 11 bits))) = 1700000150"
  by (simp add: even_chain_def GetBlockTime_def upt_rec walk_back_numeral)

text \<open>
  C32: Retargeting from height 10 on: the timespan of the last nine intervals is clamped to between a
  quarter and four times the intended one, and the new target is the old one times it (modulo
  \<open>2 ^ 256\<close>) over the intended one, cut at the limit, up to the truncation of the compact form; the
  result passes \<open>CheckProofOfStakeTarget\<close> unless it is zero.
\<close>

theorem pos_target_retarget:
  assumes "10 \<le> bi_nHeight b" "0 < nStakeTargetSpacing ps" "36 * nStakeTargetSpacing ps < 2 ^ 32"
    and "T = 9 * nStakeTargetSpacing ps"
    and "A = max (T div 4) (min (T * 4) (GetBlockTime b - GetBlockTime (hd (walk_back 9 (b # rest)))))"
    and "t = limbs_val (fst (SetCompact (bi_nBits b)))"
    and "M = min (limbs_val (UintToArith256 lim)) (t * A mod 2 ^ 256 div T)"
  shows "\<exists>c v. GetNextWorkRequired (b # rest) lim ps = Some c \<and> SetCompact c = (v, False, False) \<and>
    limbs_val v \<le> M \<and> 2 ^ 15 * (M - limbs_val v) \<le> limbs_val v \<and>
    CheckProofOfStakeTarget c lim = (0 < M)"
proof -
  have "\<exists>a. length a = WIDTH \<and> limbs_val a = M \<and> GetNextPoSTarget (b # rest) lim ps = Some (compact_code a)"
    unfolding assms(7) unfolding assms(6) unfolding assms(5) unfolding assms(4)
    by (rule retarget [OF assms(1-3)])
  then obtain a where a: "length a = WIDTH" "limbs_val a = M"
      "GetNextPoSTarget (b # rest) lim ps = Some (compact_code a)"
    by blast
  obtain v where v: "SetCompact (compact_code a) = (v, False, False)" "length v = WIDTH" "limbs_val v = compact_trunc a"
    using SetCompact_code [OF a(1)] by blast
  note tr = compact_trunc_bounds [OF a(1)]
  have bounds: "0 \<le> limbs_val v" "limbs_val v \<le> M" "2 ^ 15 * (M - limbs_val v) \<le> limbs_val v"
    using tr a(2) v(3) by simp_all
  have pos: "32768 * (M - limbs_val v) \<le> limbs_val v" using bounds(3) by simp
  have "M \<le> limbs_val (UintToArith256 lim)" using assms(7) by simp
  moreover have "0 < limbs_val v \<longleftrightarrow> 0 < M" by (rule small_error_pos [OF bounds(1,2) pos])
  ultimately have "CheckProofOfStakeTarget (compact_code a) lim = (0 < M)"
    using bounds(2) by (simp add: CheckProofOfStakeTarget_iff [OF v(1)])
  then show ?thesis
    using a(3) v(1) bounds(2,3)
    by (intro exI [of _ "compact_code a"] exI [of _ v]) (simp only: GetNextWorkRequired_def)
qed

text \<open>
  An evenly spaced chain on the main network keeps its target.
\<close>

theorem pos_target_retarget_witness:
  "\<exists>c v. GetNextWorkRequired (even_chain 11 0x1e0fffff) main_limit default_params = Some c \<and>
     SetCompact c = (v, False, False) \<and> limbs_val v \<le> 0xfffff * 2 ^ 216 \<and>
     2 ^ 15 * (0xfffff * 2 ^ 216 - limbs_val v) \<le> limbs_val v \<and> CheckProofOfStakeTarget c main_limit"
proof -
  let ?b = "even_tip 0x1e0fffff" and ?r = "tl (even_chain 11 0x1e0fffff)"
  have first: "GetBlockTime (hd (walk_back 9 (?b # ?r))) = 1700000150"
    using even_chain_first [of "0x1e0fffff"] even_chain [of "0x1e0fffff"] by simp
  have "\<exists>c v. GetNextWorkRequired (?b # ?r) main_limit default_params = Some c \<and> SetCompact c = (v, False, False) \<and>
      limbs_val v \<le> 0xfffff * 2 ^ 216 \<and> 2 ^ 15 * (0xfffff * 2 ^ 216 - limbs_val v) \<le> limbs_val v \<and>
      CheckProofOfStakeTarget c main_limit = (0 < (0xfffff * 2 ^ 216 :: int))"
    by (rule pos_target_retarget [where T = 1350 and A = 1350 and t = "0xfffff * 2 ^ 216"])
      (simp_all only: first main_limit_value, simp_all add: default_params_def main_target even_tip_def GetBlockTime_def)
  then show ?thesis unfolding even_chain [symmetric] by simp
qed

end
