(* ===== verification/Chain.thy ===== *)
theory Chain
  imports Pow
begin

text \<open>
  The tree of block headers: \<open>src/chain.h\<close>, \<open>src/chain.cpp\<close> and the insertion of headers of
  \<open>src/node/blockstorage.cpp\<close>. The entries live in a map from block hashes, whose nodes never move, so a pointer
  to an entry is its key; \<open>block_index\<close> extends the fields that \<open>Pow\<close> reads. The result of a function that returns
  a pointer is \<open>None\<close> for a failed assertion or a pointer to no entry, \<open>Some None\<close> for the null pointer.
\<close>

section \<open>Entries\<close>

type_synonym block_ptr = "uint256 option"

record block_index = CBlockIndex +
  bi_pprev :: block_ptr
  bi_pskip :: block_ptr
  bi_nChainWork :: limbs
  bi_nTimeMax :: u32
  bi_nStatus :: u32

type_synonym block_map = "(uint256, block_index) rbt"

definition BLOCK_VALID_TREE :: u32 where "BLOCK_VALID_TREE = 2"
definition BLOCK_VALID_SCRIPTS :: u32 where "BLOCK_VALID_SCRIPTS = 5"
definition BLOCK_VALID_MASK :: u32 where "BLOCK_VALID_MASK = 1 OR BLOCK_VALID_TREE OR 3 OR 4 OR BLOCK_VALID_SCRIPTS"
definition BLOCK_FAILED_MASK :: u32 where "BLOCK_FAILED_MASK = 32 OR 64"
definition BLOCK_ASSUMED_VALID :: u32 where "BLOCK_ASSUMED_VALID = 256"

text \<open>\<open>None\<close> is the failed assertion that only validity flags are asked for.\<close>

definition RaiseValidity :: "u32 \<Rightarrow> block_index \<Rightarrow> (bool \<times> block_index) option" where
  "RaiseValidity nUpTo b =
     (if nUpTo AND NOT BLOCK_VALID_MASK \<noteq> 0 then None
      else if bi_nStatus b AND BLOCK_FAILED_MASK \<noteq> 0 then Some (False, b)
      else if bi_nStatus b AND BLOCK_VALID_MASK < nUpTo then
        let st = (if bi_nStatus b AND BLOCK_ASSUMED_VALID \<noteq> 0 \<and> nUpTo \<ge> BLOCK_VALID_SCRIPTS
                  then bi_nStatus b AND NOT BLOCK_ASSUMED_VALID else bi_nStatus b)
        in Some (True, b\<lparr>bi_nStatus := (st AND NOT BLOCK_VALID_MASK) OR nUpTo\<rparr>)
      else Some (False, b))"

section \<open>The skip list\<close>

definition InvertLowestOne :: "nat \<Rightarrow> nat" where
  "InvertLowestOne n = n AND (n - 1)"

definition GetSkipHeight :: "nat \<Rightarrow> nat" where
  "GetSkipHeight height =
     (if height < 2 then 0
      else if height AND 1 \<noteq> 0 then InvertLowestOne (InvertLowestOne (height - 1)) + 1
      else InvertLowestOne height)"

lemma and_nat_le: "(m :: nat) AND n \<le> n"
  using AND_upper2 [of "int n" "int m"] by (simp flip: of_nat_and_eq)

lemma GetSkipHeight_less: "0 < h \<Longrightarrow> GetSkipHeight h < h"
proof -
  assume "0 < h"
  have less: "0 < n \<Longrightarrow> InvertLowestOne n < n" for n
    using and_nat_le [of n "n - 1"] by (simp add: InvertLowestOne_def)
  have le: "InvertLowestOne n \<le> n" for n
    using and_nat_le [of n "n - 1"] by (simp add: InvertLowestOne_def)
  show ?thesis
  proof (cases "h < 2")
    case False
    then have "InvertLowestOne (h - 1) < h - 1" by (intro less) simp
    then have "InvertLowestOne (InvertLowestOne (h - 1)) + 1 < h"
      using le [of "InvertLowestOne (h - 1)"] by linarith
    then show ?thesis using less [of h] \<open>0 < h\<close> by (simp add: GetSkipHeight_def)
  qed (use \<open>0 < h\<close> in \<open>simp add: GetSkipHeight_def\<close>)
qed

text \<open>The loop of \<open>GetAncestor\<close>, whose heights are not negative.\<close>

function get_ancestor_loop :: "block_map \<Rightarrow> nat \<Rightarrow> uint256 \<Rightarrow> nat \<Rightarrow> uint256 option" where
  "get_ancestor_loop idx height pindexWalk heightWalk =
     (if heightWalk > height then
        let heightSkip = GetSkipHeight heightWalk; heightSkipPrev = GetSkipHeight (heightWalk - 1)
        in case RBT.lookup idx pindexWalk of
             None \<Rightarrow> None
           | Some b \<Rightarrow>
               if bi_pskip b \<noteq> None \<and>
                  (heightSkip = height \<or>
                   (heightSkip > height \<and>
                    \<not> (int heightSkipPrev < int heightSkip - 2 \<and> heightSkipPrev \<ge> height)))
               then get_ancestor_loop idx height (the (bi_pskip b)) heightSkip
               else (case bi_pprev b of
                       None \<Rightarrow> None
                     | Some p \<Rightarrow> get_ancestor_loop idx height p (heightWalk - 1))
      else Some pindexWalk)"
  by pat_completeness auto
termination
  by (relation "measure (\<lambda>(idx, height, p, heightWalk). heightWalk)") (auto simp: GetSkipHeight_less)

declare get_ancestor_loop.simps [simp del]

definition GetAncestor :: "block_map \<Rightarrow> uint256 \<Rightarrow> int \<Rightarrow> block_ptr option" where
  "GetAncestor idx p height =
     (case RBT.lookup idx p of
        None \<Rightarrow> None
      | Some b \<Rightarrow>
          if height > bi_nHeight b \<or> height < 0 then Some None
          else map_option Some (get_ancestor_loop idx (nat height) p (nat (bi_nHeight b))))"

text \<open>\<open>BuildSkip\<close>: the pointer that the entry gets.\<close>

definition BuildSkip :: "block_map \<Rightarrow> block_index \<Rightarrow> block_index option" where
  "BuildSkip idx b =
     (case bi_pprev b of
        None \<Rightarrow> Some b
      | Some p \<Rightarrow> (case GetAncestor idx p (int (GetSkipHeight (nat (bi_nHeight b)))) of
                     None \<Rightarrow> None
                   | Some s \<Rightarrow> Some (b\<lparr>bi_pskip := s\<rparr>)))"

section \<open>Work\<close>

text \<open>\<open>None\<close> is the exception of a division by zero.\<close>

definition GetBlockProof :: "u32 \<Rightarrow> limbs option" where
  "GetBlockProof nBits =
     (let (bnTarget, fNegative, fOverflow) = SetCompact nBits
      in if fNegative \<or> fOverflow \<or> bu_EqualTo bnTarget 0 then Some (bu_of_u64 0)
         else (case bu_div (bu_not bnTarget) (bu_add bnTarget (bu_of_u64 1)) of
                 Inl _ \<Rightarrow> None
               | Inr q \<Rightarrow> Some (bu_add q (bu_of_u64 1))))"

definition GetBlockProofEquivalentTime :: "limbs \<Rightarrow> limbs \<Rightarrow> u32 \<Rightarrow> u64 \<Rightarrow> int option" where
  "GetBlockProofEquivalentTime to_work from_work tip_nBits nPowTargetSpacing =
     (let (r, sign) = (if bu_CompareTo to_work from_work > 0 then (bu_sub to_work from_work, 1)
                       else (bu_sub from_work to_work, - 1))
      in do {
        proof \<leftarrow> GetBlockProof tip_nBits;
        r \<leftarrow> (case bu_div (bu_mul r (bu_of_u64 nPowTargetSpacing)) proof of Inl _ \<Rightarrow> None | Inr q \<Rightarrow> Some q);
        if bu_bits r > 63 then i64 (sign * INT64_MAX) else i64 (sign * sint (bu_GetLow64 r))
      })"

section \<open>Insertion of headers\<close>

record block_header =
  hd_hashPrevBlock :: uint256
  hd_nTime :: u32
  hd_nBits :: u32

record block_manager =
  m_block_index :: block_map
  m_dirty_blockindex :: "uint256 list"
  m_prev_block_index :: "(uint256 \<times> uint256) list"

definition chain_work :: "block_map \<Rightarrow> uint256 \<Rightarrow> limbs" where
  "chain_work idx h = (case RBT.lookup idx h of None \<Rightarrow> bu_zero | Some b \<Rightarrow> bi_nChainWork b)"

text \<open>
  \<open>AddToBlockIndex\<close>; the fields that it sets after the insertion are set at once. The result is the entry and
  \<open>best_header\<close>. \<open>None\<close> is a failed assertion or an exception.
\<close>

definition AddToBlockIndex ::
  "block_header \<Rightarrow> uint256 \<Rightarrow> u32 \<Rightarrow> block_ptr \<Rightarrow> block_manager \<Rightarrow> (uint256 \<times> block_ptr \<times> block_manager) option"
where
  "AddToBlockIndex block h nStatus best_header m =
     (if nStatus AND BLOCK_FAILED_MASK \<noteq> 0 then None
      else if RBT.lookup (m_block_index m) h \<noteq> None then Some (h, best_header, m)
      else do {
        let b = \<lparr>bi_nHeight = 0, bi_nTime = hd_nTime block, bi_nBits = hd_nBits block, bi_pprev = None, bi_pskip = None,
                 bi_nChainWork = bu_zero, bi_nTimeMax = 0, bi_nStatus = 0\<rparr>;
        let idx = RBT.insert h b (m_block_index m);
        b \<leftarrow> (case RBT.lookup idx (hd_hashPrevBlock block) of
                None \<Rightarrow> Some b
              | Some pprev \<Rightarrow>
                  BuildSkip idx (b\<lparr>bi_pprev := Some (hd_hashPrevBlock block), bi_nHeight := bi_nHeight pprev + 1\<rparr>));
        proof \<leftarrow> GetBlockProof (bi_nBits b);
        let prev = Option.bind (bi_pprev b) (RBT.lookup idx);
        let b = b\<lparr>bi_nTimeMax := (case prev of Some p \<Rightarrow> max (bi_nTimeMax p) (bi_nTime b) | None \<Rightarrow> bi_nTime b),
                   bi_nChainWork := bu_add (case prev of Some p \<Rightarrow> bi_nChainWork p | None \<Rightarrow> bu_of_u64 0) proof\<rparr>;
        (b, best_header) \<leftarrow>
          (if nStatus AND BLOCK_VALID_MASK \<noteq> 0
           then do {
             (_, b) \<leftarrow> RaiseValidity nStatus b;
             Some (b, if (case best_header of None \<Rightarrow> True
                          | Some best \<Rightarrow> bu_CompareTo (chain_work idx best) (bi_nChainWork b) < 0)
                      then Some h else best_header)
           }
           else do {
             (_, b) \<leftarrow> RaiseValidity BLOCK_VALID_TREE b;
             Some (b\<lparr>bi_nStatus := bi_nStatus b OR nStatus\<rparr>, best_header)
           });
        Some (h, best_header,
          \<lparr>m_block_index = RBT.insert h b idx,
           m_dirty_blockindex = h # m_dirty_blockindex m,
           m_prev_block_index =
             (case bi_pprev b of Some p \<Rightarrow> m_prev_block_index m @ [(p, h)] | None \<Rightarrow> m_prev_block_index m)\<rparr>)
      })"

section \<open>The past\<close>

definition nMedianTimeSpan :: nat where "nMedianTimeSpan = 11"

text \<open>The times that the loop collects, from the block backwards.\<close>

primrec past_times :: "nat \<Rightarrow> block_map \<Rightarrow> block_ptr \<Rightarrow> int list" where
  "past_times 0 idx p = []"
| "past_times (Suc n) idx p =
     (case Option.bind p (RBT.lookup idx) of
        None \<Rightarrow> []
      | Some b \<Rightarrow> uint (bi_nTime b) # past_times n idx (bi_pprev b))"

definition GetMedianTimePast :: "block_map \<Rightarrow> uint256 \<Rightarrow> int" where
  "GetMedianTimePast idx p =
     (let ts = past_times nMedianTimeSpan idx (Some p) in sort ts ! (length ts div 2))"

section \<open>The active chain\<close>

text \<open>\<open>vChain\<close>; \<open>None\<close> is the null pointer that \<open>resize\<close> fills in.\<close>

type_synonym CChain = "block_ptr list"

definition CChain_Tip :: "CChain \<Rightarrow> block_ptr" where
  "CChain_Tip vChain = (if length vChain > 0 then vChain ! (length vChain - 1) else None)"

definition CChain_Genesis :: "CChain \<Rightarrow> block_ptr" where
  "CChain_Genesis vChain = (if length vChain > 0 then vChain ! 0 else None)"

definition CChain_at :: "CChain \<Rightarrow> int \<Rightarrow> block_ptr" where
  "CChain_at vChain nHeight =
     (if nHeight < 0 \<or> nHeight \<ge> int (length vChain) then None else vChain ! nat nHeight)"

definition CChain_Height :: "CChain \<Rightarrow> int" where
  "CChain_Height vChain = int (length vChain) - 1"

definition block_height :: "block_map \<Rightarrow> uint256 \<Rightarrow> int" where
  "block_height idx p = (case RBT.lookup idx p of None \<Rightarrow> 0 | Some b \<Rightarrow> bi_nHeight b)"

definition block_prev :: "block_map \<Rightarrow> uint256 \<Rightarrow> block_ptr" where
  "block_prev idx p = Option.bind (RBT.lookup idx p) bi_pprev"

definition CChain_Contains :: "block_map \<Rightarrow> CChain \<Rightarrow> uint256 \<Rightarrow> bool" where
  "CChain_Contains idx vChain p \<longleftrightarrow> CChain_at vChain (block_height idx p) = Some p"

definition CChain_Next :: "block_map \<Rightarrow> CChain \<Rightarrow> uint256 \<Rightarrow> block_ptr" where
  "CChain_Next idx vChain p =
     (if CChain_Contains idx vChain p then CChain_at vChain (block_height idx p + 1) else None)"

text \<open>The loops that follow \<open>pprev\<close>; \<open>None\<close> is no return.\<close>

partial_function (option) set_tip_loop :: "block_map \<Rightarrow> CChain \<Rightarrow> block_ptr \<Rightarrow> CChain option" where
  "set_tip_loop idx vChain pindex =
     (case pindex of
        None \<Rightarrow> Some vChain
      | Some p \<Rightarrow>
          if vChain ! nat (block_height idx p) \<noteq> Some p
          then set_tip_loop idx (vChain[nat (block_height idx p) := Some p]) (block_prev idx p)
          else Some vChain)"

definition resize_chain :: "nat \<Rightarrow> CChain \<Rightarrow> CChain" where
  "resize_chain n vChain = take n vChain @ replicate (n - length vChain) None"

definition CChain_SetTip :: "block_map \<Rightarrow> CChain \<Rightarrow> uint256 \<Rightarrow> CChain option" where
  "CChain_SetTip idx vChain block =
     set_tip_loop idx (resize_chain (nat (block_height idx block + 1)) vChain) (Some block)"

partial_function (option) find_fork_loop :: "block_map \<Rightarrow> CChain \<Rightarrow> block_ptr \<Rightarrow> block_ptr option" where
  "find_fork_loop idx vChain pindex =
     (case pindex of
        None \<Rightarrow> Some None
      | Some p \<Rightarrow> if \<not> CChain_Contains idx vChain p then find_fork_loop idx vChain (block_prev idx p) else Some pindex)"

definition CChain_FindFork :: "block_map \<Rightarrow> CChain \<Rightarrow> block_ptr \<Rightarrow> block_ptr option" where
  "CChain_FindFork idx vChain pindex =
     (case pindex of
        None \<Rightarrow> Some None
      | Some p \<Rightarrow> do {
          q \<leftarrow> (if block_height idx p > CChain_Height vChain then GetAncestor idx p (CChain_Height vChain) else Some pindex);
          find_fork_loop idx vChain q
        })"

partial_function (option) common_ancestor_loop :: "block_map \<Rightarrow> block_ptr \<Rightarrow> block_ptr \<Rightarrow> block_ptr option" where
  "common_ancestor_loop idx pa pb =
     (case pa of
        None \<Rightarrow> if pa = pb then Some pa else None
      | Some a \<Rightarrow>
          (case pb of
             None \<Rightarrow> None
           | Some b \<Rightarrow> if a \<noteq> b then common_ancestor_loop idx (block_prev idx a) (block_prev idx b) else Some pa))"

definition LastCommonAncestor :: "block_map \<Rightarrow> uint256 \<Rightarrow> uint256 \<Rightarrow> block_ptr option" where
  "LastCommonAncestor idx a b =
     do {
       (pa, pb) \<leftarrow>
         (if block_height idx a > block_height idx b
          then do { pa \<leftarrow> GetAncestor idx a (block_height idx b); Some (pa, Some b) }
          else if block_height idx b > block_height idx a
          then do { pb \<leftarrow> GetAncestor idx b (block_height idx a); Some (Some a, pb) }
          else Some (Some a, Some b));
       common_ancestor_loop idx pa pb
     }"

end
