(* ===== verification/ChainIndex.thy ===== *)
theory ChainIndex
  imports Chain
begin

text \<open>
  What the tree of headers keeps (\<open>index_wf\<close>), that \<open>AddToBlockIndex\<close> keeps it, and that on such a tree the skip list
  finds the ancestor that following \<open>pprev\<close> finds.
\<close>

section \<open>Ancestors\<close>

primrec nth_prev :: "block_map \<Rightarrow> nat \<Rightarrow> uint256 \<Rightarrow> block_ptr" where
  "nth_prev idx 0 p = Some p"
| "nth_prev idx (Suc n) p = Option.bind (block_prev idx p) (nth_prev idx n)"

lemma nth_prev_add: "nth_prev idx (m + n) p = Option.bind (nth_prev idx m p) (nth_prev idx n)"
  by (induction m arbitrary: p) (auto split: bind_splits)

text \<open>The links of an entry, and what it sums up.\<close>

definition entry_wf :: "block_map \<Rightarrow> block_index \<Rightarrow> bool" where
  "entry_wf idx b \<longleftrightarrow>
     (case bi_pprev b of
        None \<Rightarrow> bi_nHeight b = 0 \<and> bi_pskip b = None
      | Some p \<Rightarrow> (\<exists>pb. RBT.lookup idx p = Some pb \<and> 0 \<le> bi_nHeight pb \<and> bi_nHeight b = bi_nHeight pb + 1 \<and>
          bi_pskip b = nth_prev idx (nat (bi_nHeight pb) - GetSkipHeight (nat (bi_nHeight b))) p))"

definition entry_sums :: "block_map \<Rightarrow> block_index \<Rightarrow> bool" where
  "entry_sums idx b \<longleftrightarrow> length (bi_nChainWork b) = WIDTH \<and>
     (\<exists>w. GetBlockProof (bi_nBits b) = Some w \<and>
        (case Option.bind (bi_pprev b) (RBT.lookup idx) of
           None \<Rightarrow> limbs_word (bi_nChainWork b) = limbs_word w \<and> bi_nTimeMax b = bi_nTime b
         | Some pb \<Rightarrow> limbs_word (bi_nChainWork b) = limbs_word (bi_nChainWork pb) + limbs_word w \<and>
             bi_nTimeMax b = max (bi_nTimeMax pb) (bi_nTime b)))"

definition index_sums :: "block_map \<Rightarrow> bool" where
  "index_sums idx \<longleftrightarrow> (\<forall>h b. RBT.lookup idx h = Some b \<longrightarrow> entry_sums idx b)"

definition index_wf :: "block_map \<Rightarrow> bool" where
  "index_wf idx \<longleftrightarrow> (\<forall>h b. RBT.lookup idx h = Some b \<longrightarrow> entry_wf idx b)"

lemma index_wf_height: "index_wf idx \<Longrightarrow> RBT.lookup idx p = Some b \<Longrightarrow> 0 \<le> bi_nHeight b"
  by (fastforce simp: index_wf_def entry_wf_def split: option.splits)

lemma index_wf_prev:
  assumes "index_wf idx" "RBT.lookup idx p = Some b" "0 < bi_nHeight b"
  obtains q qb where "bi_pprev b = Some q" "block_prev idx p = Some q" "RBT.lookup idx q = Some qb"
    "0 \<le> bi_nHeight qb" "bi_nHeight b = bi_nHeight qb + 1"
    "bi_pskip b = nth_prev idx (nat (bi_nHeight qb) - GetSkipHeight (nat (bi_nHeight b))) q"
  using assms by (fastforce simp: index_wf_def entry_wf_def block_prev_def split: option.splits)

lemma index_wf_root:
  assumes "index_wf idx" "RBT.lookup idx p = Some b" "bi_nHeight b = 0"
  shows "bi_pprev b = None" "block_prev idx p = None"
proof -
  have "entry_wf idx b" using assms(1,2) by (simp add: index_wf_def)
  then show b: "bi_pprev b = None" using assms(3) by (auto simp: entry_wf_def split: option.splits)
  show "block_prev idx p = None" using b assms(2) by (simp add: block_prev_def)
qed

lemma nth_prev_height:
  assumes "index_wf idx" "RBT.lookup idx p = Some b" "int n \<le> bi_nHeight b"
  shows "\<exists>q qb. nth_prev idx n p = Some q \<and> RBT.lookup idx q = Some qb \<and> bi_nHeight qb = bi_nHeight b - int n"
  using assms(2,3)
proof (induction n arbitrary: p b)
  case (Suc n)
  have "0 < bi_nHeight b" using Suc.prems(2) by simp
  then obtain q qb where q: "block_prev idx p = Some q" "RBT.lookup idx q = Some qb" "bi_nHeight b = bi_nHeight qb + 1"
    using index_wf_prev [OF assms(1) Suc.prems(1)] by metis
  then have "int n \<le> bi_nHeight qb" using Suc.prems(2) by simp
  from Suc.IH [OF q(2) this] q(1,3) show ?case by auto
qed simp

lemma nth_prev_beyond:
  assumes "index_wf idx" "RBT.lookup idx p = Some b" "bi_nHeight b < int n"
  shows "nth_prev idx n p = None"
  using assms(2,3)
proof (induction n arbitrary: p b)
  case 0
  then show ?case using index_wf_height [OF assms(1)] by fastforce
next
  case (Suc n)
  show ?case
  proof (cases "bi_nHeight b = 0")
    case True
    then show ?thesis using index_wf_root [OF assms(1) Suc.prems(1)] by simp
  next
    case False
    then have "0 < bi_nHeight b" using index_wf_height [OF assms(1) Suc.prems(1)] by simp
    then obtain q qb where q: "block_prev idx p = Some q" "RBT.lookup idx q = Some qb" "bi_nHeight b = bi_nHeight qb + 1"
      using index_wf_prev [OF assms(1) Suc.prems(1)] by metis
    then show ?thesis using Suc.IH [OF q(2)] Suc.prems(2) by simp
  qed
qed

lemma skip_pointer:
  assumes "index_wf idx" "RBT.lookup idx p = Some b" "bi_nHeight b = int h" "0 < h"
  obtains s sb where "bi_pskip b = Some s" "nth_prev idx (h - GetSkipHeight h) p = Some s"
    "RBT.lookup idx s = Some sb" "bi_nHeight sb = int (GetSkipHeight h)"
proof -
  have "0 < bi_nHeight b" using assms(3,4) by simp
  then obtain q qb where q: "block_prev idx p = Some q" "RBT.lookup idx q = Some qb" "bi_nHeight b = bi_nHeight qb + 1"
      "bi_pskip b = nth_prev idx (nat (bi_nHeight qb) - GetSkipHeight (nat (bi_nHeight b))) q"
    using index_wf_prev [OF assms(1,2)] by metis
  have less: "GetSkipHeight h < h" by (rule GetSkipHeight_less [OF assms(4)])
  have hq: "bi_nHeight qb = int h - 1" using q(3) assms(3) by simp
  then have n: "nat (bi_nHeight qb) - GetSkipHeight (nat (bi_nHeight b)) = h - 1 - GetSkipHeight h"
    using assms(3) by (simp add: nat_diff_distrib)
  have "int (h - 1 - GetSkipHeight h) \<le> bi_nHeight qb" using hq less by simp
  from nth_prev_height [OF assms(1) q(2) this] obtain s sb where
    s: "nth_prev idx (h - 1 - GetSkipHeight h) q = Some s" "RBT.lookup idx s = Some sb"
      "bi_nHeight sb = bi_nHeight qb - int (h - 1 - GetSkipHeight h)" by blast
  have "h - GetSkipHeight h = Suc (h - 1 - GetSkipHeight h)" using less by simp
  then have "nth_prev idx (h - GetSkipHeight h) p = Some s" using q(1) s(1) by simp
  moreover have "bi_nHeight sb = int (GetSkipHeight h)" using s(3) hq less by simp
  ultimately show thesis using that q(4) n s(1,2) by simp
qed

lemma get_ancestor_loop_correct:
  assumes "index_wf idx" "RBT.lookup idx p = Some b" "bi_nHeight b = int hw" "height \<le> hw"
  shows "get_ancestor_loop idx height p hw = nth_prev idx (hw - height) p"
  using assms
proof (induction idx height p hw arbitrary: b rule: get_ancestor_loop.induct)
  case (1 idx height p hw)
  show ?case
  proof (cases "height < hw")
    case True
    then have hw: "0 < hw" by simp
    let ?skip = "GetSkipHeight hw" and ?skipprev = "GetSkipHeight (hw - 1)"
    obtain s sb where s: "bi_pskip b = Some s" "nth_prev idx (hw - ?skip) p = Some s"
        "RBT.lookup idx s = Some sb" "bi_nHeight sb = int ?skip"
      using skip_pointer [OF "1.prems"(1-3) hw] by blast
    have "0 < bi_nHeight b" using hw "1.prems"(3) by simp
    then obtain q qb where q: "bi_pprev b = Some q" "block_prev idx p = Some q" "RBT.lookup idx q = Some qb" "bi_nHeight b = bi_nHeight qb + 1"
      using index_wf_prev [OF "1.prems"(1,2)] by metis
    have less: "?skip < hw" by (rule GetSkipHeight_less [OF hw])
    let ?c = "?skip = height \<or> (?skip > height \<and> \<not> (int ?skipprev < int ?skip - 2 \<and> ?skipprev \<ge> height))"
    show ?thesis
    proof (cases ?c)
      case c: True
      then have le: "height \<le> ?skip" by auto
      have cond: "bi_pskip b \<noteq> None \<and> ?c" using c s(1) by simp
      have "get_ancestor_loop idx height p hw = get_ancestor_loop idx height s ?skip"
        using True "1.prems"(2) c s(1) by (subst get_ancestor_loop.simps) (auto simp: Let_def)
      also have "\<dots> = nth_prev idx (?skip - height) s"
        using "1.IH"(1) [OF True refl refl "1.prems"(2) cond "1.prems"(1), of sb] s le by simp
      also have "\<dots> = nth_prev idx ((hw - ?skip) + (?skip - height)) p"
        by (simp only: nth_prev_add s(2) Option.bind.simps)
      also have "(hw - ?skip) + (?skip - height) = hw - height" using le less by simp
      finally show ?thesis .
    next
      case c: False
      have cond: "\<not> (bi_pskip b \<noteq> None \<and> ?c)" using c by blast
      have "get_ancestor_loop idx height p hw = get_ancestor_loop idx height q (hw - 1)"
        using True "1.prems"(2) c q(1) by (subst get_ancestor_loop.simps) (auto simp: Let_def)
      also have "\<dots> = nth_prev idx (hw - 1 - height) q"
        using "1.IH"(2) [OF True refl refl "1.prems"(2) cond q(1) "1.prems"(1), of qb] q "1.prems"(3) True by simp
      also have "\<dots> = nth_prev idx (Suc (hw - 1 - height)) p" using q(2) by simp
      also have "Suc (hw - 1 - height) = hw - height" using True by simp
      finally show ?thesis .
    qed
  next
    case False
    then show ?thesis using "1.prems"(4) by (subst get_ancestor_loop.simps) simp
  qed
qed

lemma GetAncestor_correct:
  assumes "index_wf idx" "RBT.lookup idx p = Some b"
  shows "GetAncestor idx p h = Some (if 0 \<le> h \<and> h \<le> bi_nHeight b then nth_prev idx (nat (bi_nHeight b - h)) p else None)"
proof (cases "0 \<le> h \<and> h \<le> bi_nHeight b")
  case True
  let ?n = "nat (bi_nHeight b)"
  have n: "bi_nHeight b = int ?n" using index_wf_height [OF assms] by simp
  have "get_ancestor_loop idx (nat h) p ?n = nth_prev idx (?n - nat h) p"
    using True by (intro get_ancestor_loop_correct [OF assms n]) (simp add: nat_mono)
  moreover have "?n - nat h = nat (bi_nHeight b - h)" using True by (simp add: nat_diff_distrib)
  moreover obtain q where "nth_prev idx (nat (bi_nHeight b - h)) p = Some q"
    using nth_prev_height [OF assms, of "nat (bi_nHeight b - h)"] True by auto
  ultimately show ?thesis using True assms(2) by (simp add: GetAncestor_def)
qed (use assms(2) in \<open>auto simp: GetAncestor_def\<close>)

section \<open>Work\<close>

lemma SetCompact_not_max:
  assumes "SetCompact c = (v, n, f)"
  shows "limbs_word v \<noteq> - 1"
proof -
  define k where "k = unat (drop_bit 24 c)"
  have "\<exists>x y. v = (if k \<le> 3 then bu_of_u64 x else bu_shl (bu_of_u64 y) (8 * (k - 3)))"
    using assms by (auto simp: SetCompact_def Let_def k_def)
  moreover have "8 \<le> 8 * (k - 3)" if "\<not> k \<le> 3" using that by simp
  ultimately obtain x where "v = bu_of_u64 x \<or> (\<exists>s. 8 \<le> s \<and> v = bu_shl (bu_of_u64 x) s)"
    by (metis (full_types))
  then have "\<not> bit (limbs_word v) 0 \<or> \<not> bit (limbs_word v) 255"
  proof
    assume "v = bu_of_u64 x"
    then show ?thesis by (simp add: bit_simps) (use bit_imp_le_length [of x 255] in auto)
  next
    assume "\<exists>s. 8 \<le> s \<and> v = bu_shl (bu_of_u64 x) s"
    then show ?thesis by (auto simp: limbs_word_shl bit_simps)
  qed
  then show ?thesis by auto
qed

lemma uint_plus_1: "uint (w :: 256 word) + 1 < 2 ^ 256 \<Longrightarrow> uint (w + 1) = uint w + 1"
  by (simp add: uint_word_ariths(1) mod_pos_pos_trivial)

lemma bu_add_1:
  assumes "length a = WIDTH" "limbs_val a + 1 < 2 ^ 256"
  shows "limbs_val (bu_add a (bu_of_u64 1)) = limbs_val a + 1" "length (bu_add a (bu_of_u64 1)) = WIDTH"
proof -
  show l: "length (bu_add a (bu_of_u64 1)) = WIDTH" using assms(1) by simp
  have "limbs_val (bu_add a (bu_of_u64 1)) = uint (limbs_word a + 1)"
    using uint_limbs_word [OF l] assms(1) by simp
  also have "\<dots> = limbs_val a + 1"
    using assms uint_limbs_word [OF assms(1)] by (simp add: uint_plus_1)
  finally show "limbs_val (bu_add a (bu_of_u64 1)) = limbs_val a + 1" .
qed

lemma quotient_plus_1: "0 < d \<Longrightarrow> (N - d) div d + 1 = N div (d :: int)"
  using div_add_self2 [of d "N - d"] by simp

lemma GetBlockProof_correct:
  assumes "SetCompact c = (v, n, f)"
  shows "\<exists>w. GetBlockProof c = Some w \<and> length w = WIDTH \<and>
    limbs_val w = (if n \<or> f \<or> limbs_val v = 0 then 0 else 2 ^ 256 div (limbs_val v + 1))"
proof -
  have v: "length v = WIDTH" by (rule length_SetCompact [OF assms])
  show ?thesis
  proof (cases "n \<or> f \<or> limbs_val v = 0")
    case True
    then show ?thesis using bu_EqualTo_0 [OF v] by (auto simp: GetBlockProof_def assms limbs_val_of_u64)
  next
    case False
    define V where "V = limbs_val v"
    have V: "0 < V" "V < 2 ^ 256"
      using False limbs_val_nonneg [of v] limbs_val_less [of v] unfolding v V_def WIDTH_def by (linarith, simp)
    have "V \<noteq> 2 ^ 256 - 1"
    proof
      assume "V = 2 ^ 256 - 1"
      then have "limbs_word v = word_of_int (2 ^ 256 - 1)" by (simp add: limbs_word_val V_def)
      then show False using SetCompact_not_max [OF assms] by simp
    qed
    then have V1: "V + 1 < 2 ^ 256" using V(2) by linarith
    let ?d = "bu_add v (bu_of_u64 1)"
    note d = bu_add_1 [OF v V1 [unfolded V_def], folded V_def]
    have "limbs_word ?d \<noteq> 0"
    proof
      assume "limbs_word ?d = 0"
      then have "limbs_val ?d = 0" using uint_limbs_word [OF d(2)] by simp
      then show False using d(1) V(1) by simp
    qed
    moreover have "length (bu_not v) = WIDTH" using v by simp
    ultimately obtain q where q: "bu_div (bu_not v) ?d = Inr q" "length q = WIDTH" "limbs_val q = limbs_val (bu_not v) div (V + 1)"
      using bu_div_word(2) [of "bu_not v" ?d] d by auto
    have nv: "limbs_val (bu_not v) = 2 ^ 256 - (V + 1)" using v by (simp add: limbs_val_not V_def WIDTH_def)
    have val: "limbs_val q + 1 = 2 ^ 256 div (V + 1)"
      unfolding q(3) nv by (rule quotient_plus_1) (use V(1) in simp)
    have "2 ^ 256 div (V + 1) \<le> 2 ^ 256 div 2"
      by (rule zdiv_mono2) (use V(1) in simp_all)
    then have "limbs_val q + 1 < 2 ^ 256" unfolding val by (rule le_less_trans) simp
    note q1 = bu_add_1 [OF q(2) this]
    show ?thesis
      using False q1 val q(1) bu_EqualTo_0 [OF v]
      by (intro exI [of _ "bu_add q (bu_of_u64 1)"]) (simp add: GetBlockProof_def assms V_def)
  qed
qed

lemma GetBlockProof_total: "\<exists>w. GetBlockProof c = Some w \<and> length w = WIDTH"
  using GetBlockProof_correct by (metis prod_cases3)

section \<open>Insertion\<close>

lemma nth_prev_cong:
  assumes "index_wf idx" "\<And>q. RBT.lookup idx q \<noteq> None \<Longrightarrow> RBT.lookup idx' q = RBT.lookup idx q"
    and "RBT.lookup idx p \<noteq> None"
  shows "nth_prev idx' n p = nth_prev idx n p"
  using assms(3)
proof (induction n arbitrary: p)
  case (Suc n)
  have e: "block_prev idx' p = block_prev idx p" using assms(2) [OF Suc.prems] by (simp add: block_prev_def)
  obtain b where b: "RBT.lookup idx p = Some b" using Suc.prems by blast
  then have w: "entry_wf idx b" using assms(1) by (simp add: index_wf_def)
  show ?case
  proof (cases "bi_pprev b")
    case (Some q)
    then have "RBT.lookup idx q \<noteq> None" using w by (auto simp: entry_wf_def)
    moreover have "block_prev idx p = Some q" using Some b by (simp add: block_prev_def)
    ultimately show ?thesis using Suc.IH [of q] by (simp add: e)
  next
    case None
    then have "block_prev idx p = None" using b by (simp add: block_prev_def)
    then show ?thesis by (simp add: e)
  qed
qed simp

lemma entry_wf_cong:
  assumes "index_wf idx" "\<And>q. RBT.lookup idx q \<noteq> None \<Longrightarrow> RBT.lookup idx' q = RBT.lookup idx q"
  shows "entry_wf idx b \<Longrightarrow> entry_wf idx' b"
  using assms(2) nth_prev_cong [OF assms] by (fastforce simp: entry_wf_def split: option.splits)

lemma index_wf_insert:
  assumes "index_wf idx" "RBT.lookup idx h = None" "entry_wf idx b" "RBT.lookup idx' = (RBT.lookup idx)(h \<mapsto> b)"
  shows "index_wf idx'"
proof -
  have c: "RBT.lookup idx' q = RBT.lookup idx q" if "RBT.lookup idx q \<noteq> None" for q using that assms(2,4) by auto
  note w = entry_wf_cong [OF assms(1) c]
  show ?thesis
    unfolding index_wf_def
  proof (intro allI impI)
    fix q qb
    assume q: "RBT.lookup idx' q = Some qb"
    show "entry_wf idx' qb"
    proof (cases "q = h")
      case True
      then have "qb = b" using q assms(4) by simp
      then show ?thesis using w assms(3) by simp
    next
      case False
      then have "RBT.lookup idx q = Some qb" using q assms(4) by simp
      then show ?thesis using w assms(1) by (simp add: index_wf_def)
    qed
  qed
qed

lemma entry_sums_cong:
  assumes "index_wf idx" "\<And>q. RBT.lookup idx q \<noteq> None \<Longrightarrow> RBT.lookup idx' q = RBT.lookup idx q" "entry_wf idx b"
  shows "entry_sums idx b \<Longrightarrow> entry_sums idx' b"
  using assms(2,3) by (fastforce simp: entry_sums_def entry_wf_def split: option.splits)

lemma index_sums_insert:
  assumes "index_wf idx" "index_sums idx" "RBT.lookup idx h = None" "entry_wf idx b" "entry_sums idx b"
    and "RBT.lookup idx' = (RBT.lookup idx)(h \<mapsto> b)"
  shows "index_sums idx'"
proof -
  have c: "RBT.lookup idx' q = RBT.lookup idx q" if "RBT.lookup idx q \<noteq> None" for q using that assms(3,6) by auto
  note w = entry_sums_cong [OF assms(1) c]
  show ?thesis
    unfolding index_sums_def
  proof (intro allI impI)
    fix q qb
    assume q: "RBT.lookup idx' q = Some qb"
    show "entry_sums idx' qb"
    proof (cases "q = h")
      case True
      then have "qb = b" using q assms(6) by simp
      then show ?thesis using w assms(4,5) by simp
    next
      case False
      then have "RBT.lookup idx q = Some qb" using q assms(6) by simp
      then show ?thesis using w assms(1,2) by (simp add: index_wf_def index_sums_def)
    qed
  qed
qed

lemma RaiseValidity_status: "RaiseValidity u b = Some (r, b') \<Longrightarrow> \<exists>s. b' = b\<lparr>bi_nStatus := s\<rparr>"
proof -
  assume "RaiseValidity u b = Some (r, b')"
  then have "b' = b \<or> (\<exists>s. b' = b\<lparr>bi_nStatus := s\<rparr>)"
    by (auto simp: RaiseValidity_def Let_def split: if_splits)
  moreover have "b = b\<lparr>bi_nStatus := bi_nStatus b\<rparr>" by simp
  ultimately show ?thesis by metis
qed

lemma entry_updates [simp]:
  "entry_wf idx (b\<lparr>bi_nStatus := st\<rparr>) = entry_wf idx b" "entry_sums idx (b\<lparr>bi_nStatus := st\<rparr>) = entry_sums idx b"
  "entry_wf idx (b\<lparr>bi_nTimeMax := t\<rparr>) = entry_wf idx b" "entry_wf idx (b\<lparr>bi_nChainWork := w\<rparr>) = entry_wf idx b"
  by (simp_all add: entry_wf_def entry_sums_def cong: option.case_cong)

lemma BuildSkip_correct:
  assumes "index_wf idx" "RBT.lookup idx p = Some pb" "bi_pprev b = Some p" "bi_nHeight b = bi_nHeight pb + 1"
  shows "BuildSkip idx b = Some (b\<lparr>bi_pskip := nth_prev idx (nat (bi_nHeight pb) - GetSkipHeight (nat (bi_nHeight b))) p\<rparr>)"
proof -
  let ?s = "GetSkipHeight (nat (bi_nHeight b))"
  have h: "0 \<le> bi_nHeight pb" by (rule index_wf_height [OF assms(1,2)])
  have "?s < nat (bi_nHeight b)" by (rule GetSkipHeight_less) (use h assms(4) in simp)
  then have s: "int ?s \<le> bi_nHeight pb" using h assms(4) by linarith
  have "nat (bi_nHeight pb - int ?s) = nat (bi_nHeight pb) - ?s" using s by (simp add: nat_diff_distrib)
  then show ?thesis
    using GetAncestor_correct [OF assms(1,2), of "int ?s"] s by (simp add: BuildSkip_def assms(3))
qed

lemma AddToBlockIndex_new:
  assumes "index_wf (m_block_index m)" "index_sums (m_block_index m)"
    and "RBT.lookup (m_block_index m) h = None" "hd_hashPrevBlock blk \<noteq> h"
    and "AddToBlockIndex blk h st bh m = Some (p, bh', m')"
  shows "\<exists>b. p = h \<and> RBT.lookup (m_block_index m') = (RBT.lookup (m_block_index m))(h \<mapsto> b) \<and>
    entry_wf (m_block_index m) b \<and> entry_sums (m_block_index m) b \<and> bi_nTime b = hd_nTime blk \<and> bi_nBits b = hd_nBits blk \<and>
    bi_pprev b = (if RBT.lookup (m_block_index m) (hd_hashPrevBlock blk) = None then None else Some (hd_hashPrevBlock blk))"
proof -
  let ?idx = "m_block_index m" and ?prev = "hd_hashPrevBlock blk"
  define b0 where "b0 = \<lparr>bi_nHeight = 0, bi_nTime = hd_nTime blk, bi_nBits = hd_nBits blk, bi_pprev = None, bi_pskip = None,
                 bi_nChainWork = bu_zero, bi_nTimeMax = 0, bi_nStatus = 0\<rparr>"
  define idx0 where "idx0 = RBT.insert h b0 ?idx"
  have l0: "RBT.lookup idx0 = (RBT.lookup ?idx)(h \<mapsto> b0)" by (simp add: idx0_def)
  have "entry_wf ?idx b0" by (simp add: entry_wf_def b0_def)
  then have wf0: "index_wf idx0" by (rule index_wf_insert [OF assms(1,3) _ l0])
  have lp: "RBT.lookup idx0 ?prev = RBT.lookup ?idx ?prev" using l0 assms(4) by simp
  have same: "nth_prev idx0 n q = nth_prev ?idx n q" if "RBT.lookup ?idx q \<noteq> None" for n q
    by (rule nth_prev_cong [OF assms(1) _ that]) (use l0 assms(3) in auto)
  define b1 where "b1 = (case RBT.lookup ?idx ?prev of None \<Rightarrow> b0
     | Some pb \<Rightarrow> b0\<lparr>bi_pprev := Some ?prev, bi_nHeight := bi_nHeight pb + 1,
         bi_pskip := nth_prev ?idx (nat (bi_nHeight pb) - GetSkipHeight (nat (bi_nHeight pb + 1))) ?prev\<rparr>)"
  have b1: "(case RBT.lookup idx0 ?prev of None \<Rightarrow> Some b0
      | Some pb \<Rightarrow> BuildSkip idx0 (b0\<lparr>bi_pprev := Some ?prev, bi_nHeight := bi_nHeight pb + 1\<rparr>)) = Some b1"
  proof (cases "RBT.lookup ?idx ?prev")
    case (Some pb)
    then have "RBT.lookup idx0 ?prev = Some pb" using lp by simp
    from BuildSkip_correct [OF wf0 this, of "b0\<lparr>bi_pprev := Some ?prev, bi_nHeight := bi_nHeight pb + 1\<rparr>"] this Some
    show ?thesis by (simp add: b1_def same)
  qed (simp add: lp b1_def)
  have b1f: "entry_wf ?idx b1" "bi_nTime b1 = hd_nTime blk" "bi_nBits b1 = hd_nBits blk"
    "bi_pprev b1 = (if RBT.lookup ?idx ?prev = None then None else Some ?prev)"
    using index_wf_height [OF assms(1)]
    by (auto simp: b1_def b0_def entry_wf_def split: option.splits)
  obtain w where w: "GetBlockProof (bi_nBits b1) = Some w" "length w = WIDTH" using GetBlockProof_total by blast
  define pr where "pr = Option.bind (bi_pprev b1) (RBT.lookup idx0)"
  have pr: "pr = Option.bind (bi_pprev b1) (RBT.lookup ?idx)" using lp by (simp add: pr_def b1f(4))
  define b2 where "b2 = b1\<lparr>bi_nTimeMax := (case pr of Some p \<Rightarrow> max (bi_nTimeMax p) (bi_nTime b1) | None \<Rightarrow> bi_nTime b1),
                   bi_nChainWork := bu_add (case pr of Some p \<Rightarrow> bi_nChainWork p | None \<Rightarrow> bu_of_u64 0) w\<rparr>"
  have pw: "length (case pr of Some p \<Rightarrow> bi_nChainWork p | None \<Rightarrow> bu_of_u64 0) = WIDTH"
  proof (cases pr)
    case (Some pb)
    then have "entry_sums ?idx pb" using pr assms(2) by (auto simp: index_sums_def b1f(4) split: if_splits)
    then show ?thesis using Some by (simp add: entry_sums_def)
  qed simp
  have s2: "entry_sums ?idx b2"
    using pw w pr by (auto simp: entry_sums_def b2_def split: option.splits)
  obtain s bh2 where e: "p = h" "RBT.lookup (m_block_index m') = (RBT.lookup ?idx)(h \<mapsto> b2\<lparr>bi_nStatus := s\<rparr>)"
  proof -
    have "\<exists>b3 s. b3 = b2\<lparr>bi_nStatus := s\<rparr> \<and> p = h \<and> m_block_index m' = RBT.insert h b3 idx0"
      using assms(5) assms(3) b1 w(1)
      unfolding AddToBlockIndex_def Let_def b0_def [symmetric] idx0_def [symmetric]
      by (auto simp: pr_def [symmetric] b2_def [symmetric] bind_eq_Some_conv dest!: RaiseValidity_status split: if_splits)
    then show thesis using that l0 by auto
  qed
  have "entry_wf ?idx (b2\<lparr>bi_nStatus := s\<rparr>)" "entry_sums ?idx (b2\<lparr>bi_nStatus := s\<rparr>)"
    using b1f(1) s2 unfolding b2_def by simp_all
  then show ?thesis using e b1f by (intro exI [of _ "b2\<lparr>bi_nStatus := s\<rparr>"]) (simp add: b2_def)
qed

end
