(* ===== verification/ChainActive.thy ===== *)
theory ChainActive
  imports ChainProps
begin

text \<open>
  The array of the active chain (\<open>CChain\<close>) and the two ways the code finds where branches meet: \<open>FindFork\<close> on the array
  and \<open>LastCommonAncestor\<close> on the tree. Both are the first ancestor of one block that is an ancestor of the other.
\<close>

section \<open>Paths to the root\<close>

definition path_length :: "block_map \<Rightarrow> uint256 \<Rightarrow> nat" where
  "path_length idx p = nat (block_height idx p) + 1"

definition ancestors :: "block_map \<Rightarrow> uint256 \<Rightarrow> uint256 list" where
  "ancestors idx p = map (\<lambda>n. the (nth_prev idx n p)) [0..<path_length idx p]"

definition chain_of :: "block_map \<Rightarrow> uint256 \<Rightarrow> CChain" where
  "chain_of idx p = map (\<lambda>h. nth_prev idx (nat (block_height idx p) - h) p) [0..<path_length idx p]"

definition fork :: "block_map \<Rightarrow> uint256 \<Rightarrow> uint256 \<Rightarrow> block_ptr" where
  "fork idx a b = List.find (\<lambda>q. q \<in> set (ancestors idx a)) (ancestors idx b)"

lemma block_height_lookup: "RBT.lookup idx p = Some b \<Longrightarrow> block_height idx p = bi_nHeight b"
  by (simp add: block_height_def)

text \<open>One step, at a height above zero and at the root.\<close>

lemma step_back:
  assumes "index_wf idx" "RBT.lookup idx p \<noteq> None" "block_height idx p = int (Suc k)"
  obtains q where "block_prev idx p = Some q" "RBT.lookup idx q \<noteq> None" "block_height idx q = int k"
proof -
  obtain b where b: "RBT.lookup idx p = Some b" "bi_nHeight b = int (Suc k)"
    using assms(2,3) block_height_lookup by fastforce
  then have "0 < bi_nHeight b" by simp
  then obtain q qb where "block_prev idx p = Some q" "RBT.lookup idx q = Some qb" "bi_nHeight b = bi_nHeight qb + 1"
    using index_wf_prev [OF assms(1) b(1)] by metis
  then show thesis using that b(2) by (simp add: block_height_lookup)
qed

lemma at_root:
  assumes "index_wf idx" "RBT.lookup idx p \<noteq> None" "block_height idx p = 0"
  shows "block_prev idx p = None"
  using assms index_wf_root [OF assms(1)] block_height_lookup by fastforce

lemma height_nat:
  assumes "index_wf idx" "RBT.lookup idx p \<noteq> None"
  obtains k where "block_height idx p = int k"
proof -
  obtain b where "RBT.lookup idx p = Some b" using assms(2) by blast
  then have "0 \<le> block_height idx p" using index_wf_height [OF assms(1)] by (simp add: block_height_lookup)
  then show thesis using that nonneg_int_cases by metis
qed

lemma ancestors_step:
  assumes "index_wf idx" "RBT.lookup idx p \<noteq> None"
  shows "ancestors idx p = p # (case block_prev idx p of None \<Rightarrow> [] | Some q \<Rightarrow> ancestors idx q)"
proof -
  obtain k where k: "block_height idx p = int k" by (rule height_nat [OF assms])
  show ?thesis
  proof (cases k)
    case 0
    then have "block_prev idx p = None" using at_root [OF assms] k by simp
    then show ?thesis using k 0 by (simp add: ancestors_def path_length_def)
  next
    case (Suc j)
    then obtain q where q: "block_prev idx p = Some q" "RBT.lookup idx q \<noteq> None" "block_height idx q = int j"
      using step_back [OF assms] k by blast
    have "ancestors idx p = map (\<lambda>n. the (nth_prev idx n p)) (0 # map Suc [0..<Suc j])"
    proof -
      have "[0..<Suc (Suc j)] = 0 # map Suc [0..<Suc j]" by (simp only: map_Suc_upt) (simp add: upt_conv_Cons del: upt_Suc)
      then show ?thesis using k Suc by (simp only: ancestors_def path_length_def nat_int Suc_eq_plus1 [symmetric])
    qed
    also have "\<dots> = p # ancestors idx q"
      using q by (simp add: ancestors_def path_length_def comp_def del: upt_Suc)
    finally show ?thesis using q(1) by simp
  qed
qed

lemma ancestors_height:
  assumes "index_wf idx" "RBT.lookup idx p \<noteq> None" "q \<in> set (ancestors idx p)"
  shows "RBT.lookup idx q \<noteq> None" "block_height idx q \<le> block_height idx p"
    "nth_prev idx (nat (block_height idx p - block_height idx q)) p = Some q"
proof -
  obtain b where b: "RBT.lookup idx p = Some b" using assms(2) by blast
  obtain k where k: "block_height idx p = int k" by (rule height_nat [OF assms(1,2)])
  have "q \<in> (\<lambda>n. the (nth_prev idx n p)) ` {..k}"
    using assms(3) k by (simp only: ancestors_def path_length_def set_map set_upt nat_int Suc_eq_plus1 [symmetric] lessThan_Suc_atMost
        atLeast0LessThan)
  then obtain n where n: "n \<le> k" "q = the (nth_prev idx n p)" by auto
  have "int n \<le> bi_nHeight b" using n(1) k b by (simp add: block_height_lookup)
  from nth_prev_height [OF assms(1) b this] obtain qb where
    q: "nth_prev idx n p = Some q" "RBT.lookup idx q = Some qb" "bi_nHeight qb = bi_nHeight b - int n"
    using n(2) by auto
  then show "RBT.lookup idx q \<noteq> None" "block_height idx q \<le> block_height idx p"
    using b by (simp_all add: block_height_lookup)
  show "nth_prev idx (nat (block_height idx p - block_height idx q)) p = Some q"
    using q b by (simp add: block_height_lookup)
qed

lemma nth_prev_ancestor:
  assumes "index_wf idx" "RBT.lookup idx p \<noteq> None" "nth_prev idx n p = Some q"
  shows "q \<in> set (ancestors idx p)"
proof -
  obtain b where b: "RBT.lookup idx p = Some b" using assms(2) by blast
  have "int n \<le> bi_nHeight b" using nth_prev_beyond [OF assms(1) b, of n] assms(3) by force
  then have "n \<in> set [0..<path_length idx p]" using b by (simp add: path_length_def block_height_lookup) linarith
  then show ?thesis using assms(3) by (force simp: ancestors_def)
qed

lemma Contains_chain_of:
  assumes "index_wf idx" "RBT.lookup idx a \<noteq> None" "RBT.lookup idx q \<noteq> None"
  shows "CChain_Contains idx (chain_of idx a) q \<longleftrightarrow> q \<in> set (ancestors idx a)"
proof -
  obtain k where k: "block_height idx a = int k" by (rule height_nat [OF assms(1,2)])
  obtain j where j: "block_height idx q = int j" by (rule height_nat [OF assms(1,3)])
  have len: "length (chain_of idx a) = Suc k" using k by (simp add: chain_of_def path_length_def)
  show ?thesis
  proof
    assume "CChain_Contains idx (chain_of idx a) q"
    then have "j \<le> k" "chain_of idx a ! j = Some q"
      using j len by (auto simp: CChain_Contains_def CChain_at_def split: if_splits)
    then have "nth_prev idx (k - j) a = Some q" using k by (simp add: chain_of_def path_length_def del: upt_Suc)
    then show "q \<in> set (ancestors idx a)" by (rule nth_prev_ancestor [OF assms(1,2)])
  next
    assume "q \<in> set (ancestors idx a)"
    from ancestors_height [OF assms(1,2) this] have "j \<le> k" "nth_prev idx (k - j) a = Some q"
      using j k by (simp_all add: nat_diff_distrib)
    moreover have "chain_of idx a ! j = nth_prev idx (k - j) a"
      using \<open>j \<le> k\<close> k by (simp add: chain_of_def path_length_def del: upt_Suc)
    ultimately show "CChain_Contains idx (chain_of idx a) q"
      using j len by (simp add: CChain_Contains_def CChain_at_def)
  qed
qed

lemma ancestors_suffix:
  assumes "index_wf idx" "RBT.lookup idx p \<noteq> None" "nth_prev idx n p = Some q"
  shows "\<exists>ps. ancestors idx p = ps @ ancestors idx q \<and> (\<forall>x \<in> set ps. block_height idx q < block_height idx x)"
  using assms(2,3)
proof (induction n arbitrary: p)
  case (Suc n)
  obtain r where r: "block_prev idx p = Some r" "nth_prev idx n r = Some q"
    using Suc.prems(2) by (auto simp: bind_eq_Some_conv)
  obtain k where k: "block_height idx p = int k" by (rule height_nat [OF assms(1) Suc.prems(1)])
  have "k \<noteq> 0" using at_root [OF assms(1) Suc.prems(1)] k r(1) by auto
  then obtain j where j: "k = Suc j" using not0_implies_Suc by blast
  have rl: "RBT.lookup idx r \<noteq> None" "block_height idx r = int j"
    using step_back [OF assms(1) Suc.prems(1), of j] k j r(1) by auto
  from Suc.IH [OF rl(1) r(2)] obtain ps where
    ps: "ancestors idx r = ps @ ancestors idx q" "\<forall>x \<in> set ps. block_height idx q < block_height idx x" by blast
  have "block_height idx q \<le> block_height idx r"
    using ancestors_height(2) [OF assms(1) rl(1) nth_prev_ancestor [OF assms(1) rl(1) r(2)]] .
  then have "\<forall>x \<in> set (p # ps). block_height idx q < block_height idx x" using ps(2) rl(2) k j by simp
  moreover have "ancestors idx p = (p # ps) @ ancestors idx q"
    using ancestors_step [OF assms(1) Suc.prems(1)] r(1) ps(1) by simp
  ultimately show ?case by blast
qed simp

section \<open>The fork\<close>

lemma find_append_skip: "(\<And>x. x \<in> set xs \<Longrightarrow> \<not> P x) \<Longrightarrow> List.find P (xs @ ys) = List.find P ys"
  by (induction xs) simp_all

lemma find_cong_set: "(\<And>x. x \<in> set xs \<Longrightarrow> P x = Q x) \<Longrightarrow> List.find P xs = List.find Q xs"
  by (induction xs) simp_all

lemma find_fork_loop_correct:
  assumes "index_wf idx" "RBT.lookup idx p \<noteq> None"
  shows "find_fork_loop idx v (Some p) = Some (List.find (CChain_Contains idx v) (ancestors idx p))"
proof -
  obtain k where "block_height idx p = int k" by (rule height_nat [OF assms])
  then show ?thesis
    using assms(2)
  proof (induction k arbitrary: p)
    case 0
    then have "block_prev idx p = None" using at_root [OF assms(1)] by simp
    then show ?case
      using ancestors_step [OF assms(1) 0(2)] by (subst find_fork_loop.simps) (simp add: find_fork_loop.simps)
  next
    case (Suc k)
    obtain q where q: "block_prev idx p = Some q" "RBT.lookup idx q \<noteq> None" "block_height idx q = int k"
      by (rule step_back [OF assms(1) Suc.prems(2,1)])
    show ?case
      using ancestors_step [OF assms(1) Suc.prems(2)] q(1) Suc.IH [OF q(3,2)] by (subst find_fork_loop.simps) simp
  qed
qed

lemma FindFork_correct:
  assumes "index_wf idx" "RBT.lookup idx a \<noteq> None" "RBT.lookup idx b \<noteq> None"
  shows "CChain_FindFork idx (chain_of idx a) (Some b) = Some (fork idx a b)"
proof -
  obtain k where k: "block_height idx a = int k" by (rule height_nat [OF assms(1,2)])
  obtain j where j: "block_height idx b = int j" by (rule height_nat [OF assms(1,3)])
  have H: "CChain_Height (chain_of idx a) = int k" using k by (simp add: CChain_Height_def chain_of_def path_length_def)
  have c: "List.find (CChain_Contains idx (chain_of idx a)) (ancestors idx q) = fork idx a q"
    if "RBT.lookup idx q \<noteq> None" for q
    unfolding fork_def using Contains_chain_of [OF assms(1,2)] ancestors_height(1) [OF assms(1) that]
    by (intro find_cong_set) blast
  show ?thesis
  proof (cases "k < j")
    case True
    obtain bb where bb: "RBT.lookup idx b = Some bb" using assms(3) by blast
    have hb: "bi_nHeight bb = int j" using bb j by (simp add: block_height_lookup)
    have jk: "nat (int j - int k) = j - k" using True by (simp add: nat_diff_distrib)
    obtain q qb where q: "nth_prev idx (j - k) b = Some q" "RBT.lookup idx q = Some qb" "bi_nHeight qb = int k"
      using nth_prev_height [OF assms(1) bb, of "j - k"] hb True by auto
    have g: "GetAncestor idx b (int k) = Some (Some q)"
      using GetAncestor_correct [OF assms(1) bb, of "int k"] hb True q(1) jk by simp
    obtain ps where ps: "ancestors idx b = ps @ ancestors idx q" "\<forall>x \<in> set ps. block_height idx q < block_height idx x"
      using ancestors_suffix [OF assms(1,3) q(1)] by blast
    have "x \<notin> set (ancestors idx a)" if "x \<in> set ps" for x
      using ancestors_height(2) [OF assms(1,2)] ps(2) that q(2,3) k by (fastforce simp: block_height_lookup)
    then have "fork idx a b = fork idx a q" unfolding fork_def ps(1) by (rule find_append_skip)
    then show ?thesis
      using True g j H q(2) c [of q] find_fork_loop_correct [OF assms(1), of q]
      by (simp add: CChain_FindFork_def)
  next
    case False
    then show ?thesis
      using j H c [OF assms(3)] find_fork_loop_correct [OF assms(1,3)] by (simp add: CChain_FindFork_def)
  qed
qed

lemma common_ancestor_loop_correct:
  assumes "index_wf idx" "RBT.lookup idx a \<noteq> None" "RBT.lookup idx b \<noteq> None" "block_height idx a = block_height idx b"
  shows "common_ancestor_loop idx (Some a) (Some b) = Some (fork idx a b)"
proof -
  obtain k where "block_height idx a = int k" by (rule height_nat [OF assms(1,2)])
  then show ?thesis
    using assms(2-4)
  proof (induction k arbitrary: a b)
    case 0
    then have "block_prev idx a = None" "block_prev idx b = None" using at_root [OF assms(1)] by simp_all
    then show ?case
      using ancestors_step [OF assms(1) 0(2)] ancestors_step [OF assms(1) 0(3)]
      by (subst common_ancestor_loop.simps) (auto simp: fork_def common_ancestor_loop.simps)
  next
    case (Suc k)
    obtain p where p: "block_prev idx a = Some p" "RBT.lookup idx p \<noteq> None" "block_height idx p = int k"
      by (rule step_back [OF assms(1) Suc.prems(2,1)])
    obtain q where q: "block_prev idx b = Some q" "RBT.lookup idx q \<noteq> None" "block_height idx q = int k"
      using step_back [OF assms(1) Suc.prems(3), of k] Suc.prems(1,4) by auto
    note sa = ancestors_step [OF assms(1) Suc.prems(2)] and sb = ancestors_step [OF assms(1) Suc.prems(3)]
    have lo: "x \<in> set (ancestors idx r) \<Longrightarrow> block_height idx r = int k \<Longrightarrow> RBT.lookup idx r \<noteq> None \<Longrightarrow> x \<noteq> a \<and> x \<noteq> b" for x r
      using ancestors_height(2) [OF assms(1)] Suc.prems(1,4) by fastforce
    show ?case
    proof (cases "a = b")
      case True
      then show ?thesis using sa by (subst common_ancestor_loop.simps) (simp add: fork_def)
    next
      case False
      have "b \<notin> set (ancestors idx a)" using sa p False lo [of b p] by auto
      moreover have "List.find (\<lambda>x. x \<in> set (ancestors idx a)) (ancestors idx q) = List.find (\<lambda>x. x \<in> set (ancestors idx p)) (ancestors idx q)"
        using sa p(1) lo [of _ q] q(2,3) by (intro find_cong_set) auto
      ultimately have "fork idx a b = fork idx p q" using sb q(1) by (simp add: fork_def)
      then show ?thesis
        using False Suc.IH [OF p(3,2) q(2)] p q by (subst common_ancestor_loop.simps) simp
    qed
  qed
qed

lemma LastCommonAncestor_correct:
  assumes "index_wf idx" "RBT.lookup idx a \<noteq> None" "RBT.lookup idx b \<noteq> None"
  shows "LastCommonAncestor idx a b = Some (fork idx a b)"
proof -
  obtain k where k: "block_height idx a = int k" by (rule height_nat [OF assms(1,2)])
  obtain j where j: "block_height idx b = int j" by (rule height_nat [OF assms(1,3)])
  have anc: "\<exists>q. GetAncestor idx p h = Some (Some q) \<and> RBT.lookup idx q \<noteq> None \<and> block_height idx q = h \<and>
      nth_prev idx (nat (block_height idx p - h)) p = Some q"
    if p: "RBT.lookup idx p \<noteq> None" and h: "0 \<le> h" "h \<le> block_height idx p" for p h
  proof -
    obtain pb where pb: "RBT.lookup idx p = Some pb" using p by blast
    then show ?thesis
      using GetAncestor_correct [OF assms(1) pb, of h] h nth_prev_height [OF assms(1) pb, of "nat (bi_nHeight pb - h)"]
      by (auto simp: block_height_lookup)
  qed
  consider "j < k" | "k < j" | "j = k" by linarith
  then show ?thesis
  proof cases
    case 1
    then obtain q where q: "GetAncestor idx a (int j) = Some (Some q)" "RBT.lookup idx q \<noteq> None"
        "block_height idx q = int j" "nth_prev idx (nat (block_height idx a - int j)) a = Some q"
      using anc [OF assms(2), of "int j"] k by auto
    obtain ps where ps: "ancestors idx a = ps @ ancestors idx q" "\<forall>x \<in> set ps. block_height idx q < block_height idx x"
      using ancestors_suffix [OF assms(1,2) q(4)] by blast
    have "fork idx a b = fork idx q b"
      unfolding fork_def ps(1) using ps(2) ancestors_height(2) [OF assms(1,3)] q(3) j
      by (intro find_cong_set) fastforce
    then show ?thesis
      using 1 k j q common_ancestor_loop_correct [OF assms(1) q(2) assms(3)] by (simp add: LastCommonAncestor_def)
  next
    case 2
    then obtain q where q: "GetAncestor idx b (int k) = Some (Some q)" "RBT.lookup idx q \<noteq> None"
        "block_height idx q = int k" "nth_prev idx (nat (block_height idx b - int k)) b = Some q"
      using anc [OF assms(3), of "int k"] j by auto
    obtain ps where ps: "ancestors idx b = ps @ ancestors idx q" "\<forall>x \<in> set ps. block_height idx q < block_height idx x"
      using ancestors_suffix [OF assms(1,3) q(4)] by blast
    have "x \<notin> set (ancestors idx a)" if "x \<in> set ps" for x
      using ancestors_height(2) [OF assms(1,2)] ps(2) that q(3) k by fastforce
    then have "fork idx a b = fork idx a q" unfolding fork_def ps(1) by (rule find_append_skip)
    then show ?thesis
      using 2 k j q common_ancestor_loop_correct [OF assms(1,2) q(2)] by (simp add: LastCommonAncestor_def)
  next
    case 3
    then show ?thesis
      using k j common_ancestor_loop_correct [OF assms] by (simp add: LastCommonAncestor_def)
  qed
qed

section \<open>Setting the tip\<close>

lemma set_tip_loop_correct:
  assumes "index_wf idx" "RBT.lookup idx w \<noteq> None" "block_height idx w = int k" "k < length v"
    and "\<And>j u i. j \<le> k \<Longrightarrow> v ! j = Some u \<Longrightarrow> i \<le> j \<Longrightarrow> v ! i = nth_prev idx (j - i) u"
  shows "set_tip_loop idx v (Some w) = Some (map (\<lambda>h. nth_prev idx (k - h) w) [0..<Suc k] @ drop (Suc k) v)"
  using assms(2-5)
proof (induction k arbitrary: v w)
  case 0
  have "block_prev idx w = None" using at_root [OF assms(1) 0(1)] 0(2) by simp
  moreover have "v = v ! 0 # drop 1 v" using 0(3) by (cases v) auto
  ultimately show ?case
    using 0(2) by (subst set_tip_loop.simps) (cases v; auto simp: set_tip_loop.simps)
next
  case (Suc k)
  show ?case
  proof (cases "v ! Suc k = Some w")
    case True
    have "v ! h = nth_prev idx (Suc k - h) w" if "h \<le> Suc k" for h
      using Suc.prems(4) [of "Suc k" w h] True that by simp
    then have "map (\<lambda>h. nth_prev idx (Suc k - h) w) [0..<Suc (Suc k)] = take (Suc (Suc k)) v"
      using Suc.prems(3) by (intro nth_equalityI) (simp_all add: less_Suc_eq_le del: upt_Suc)
    then have e: "map (\<lambda>h. nth_prev idx (Suc k - h) w) [0..<Suc (Suc k)] @ drop (Suc (Suc k)) v = v"
      by (simp only: append_take_drop_id)
    have "set_tip_loop idx v (Some w) = Some v"
      using True Suc.prems(2) by (subst set_tip_loop.simps) (simp del: of_nat_Suc)
    then show ?thesis by (simp only: e)
  next
    case False
    obtain u where u: "block_prev idx w = Some u" "RBT.lookup idx u \<noteq> None" "block_height idx u = int k"
      by (rule step_back [OF assms(1) Suc.prems(1,2)])
    let ?v = "v[Suc k := Some w]"
    have l: "k < length ?v" using Suc.prems(3) by simp
    have i: "?v ! i = nth_prev idx (j - i) x" if "j \<le> k" "?v ! j = Some x" "i \<le> j" for j x i
      using Suc.prems(4) [of j x i] that by simp
    have "set_tip_loop idx v (Some w) = set_tip_loop idx ?v (Some u)"
      using False Suc.prems(2) u(1) by (subst set_tip_loop.simps) (simp del: of_nat_Suc)
    also have "\<dots> = Some (map (\<lambda>h. nth_prev idx (k - h) u) [0..<Suc k] @ drop (Suc k) ?v)"
      by (rule Suc.IH [OF u(2,3) l i])
    also have "drop (Suc k) ?v = Some w # drop (Suc (Suc k)) v"
      using Suc.prems(3) by (simp add: drop_update_swap) (simp add: Cons_nth_drop_Suc [symmetric])
    also have "map (\<lambda>h. nth_prev idx (k - h) u) [0..<Suc k] = map (\<lambda>h. nth_prev idx (Suc k - h) w) [0..<Suc k]"
      using u(1) by (simp add: Suc_diff_le)
    also have "map (\<lambda>h. nth_prev idx (Suc k - h) w) [0..<Suc k] @ Some w # drop (Suc (Suc k)) v =
        map (\<lambda>h. nth_prev idx (Suc k - h) w) [0..<Suc (Suc k)] @ drop (Suc (Suc k)) v"
      by simp
    finally show ?thesis .
  qed
qed

lemma SetTip_correct:
  assumes "index_wf idx" "RBT.lookup idx p \<noteq> None" "v = [] \<or> (\<exists>q. RBT.lookup idx q \<noteq> None \<and> v = chain_of idx q)"
  shows "CChain_SetTip idx v p = Some (chain_of idx p)"
proof -
  obtain k where k: "block_height idx p = int k" by (rule height_nat [OF assms(1,2)])
  let ?v = "resize_chain (Suc k) v"
  have len: "length ?v = Suc k" by (simp add: resize_chain_def)
  have path: "?v ! i = nth_prev idx (j - i) u" if "j \<le> k" "?v ! j = Some u" "i \<le> j" for j u i
  proof -
    have old: "?v ! n = (if n < length v then v ! n else None)" if "n \<le> k" for n
      using that by (auto simp: resize_chain_def nth_append min_def)
    have j: "j < length v" "v ! j = Some u" using that(1,2) old [of j] by (auto split: if_splits)
    then obtain q where q: "RBT.lookup idx q \<noteq> None" "v = chain_of idx q" using assms(3) by auto
    obtain l where l: "block_height idx q = int l" by (rule height_nat [OF assms(1) q(1)])
    have jl: "j \<le> l" using j(1) l q(2) by (simp add: chain_of_def path_length_def)
    have v: "v ! n = nth_prev idx (l - n) q" if "n \<le> l" for n
      using that l q(2) by (simp add: chain_of_def path_length_def del: upt_Suc)
    have "nth_prev idx (l - j) q = Some u" using v [OF jl] j(2) by simp
    moreover have li: "l - i = (l - j) + (j - i)" using jl that(3) by simp
    moreover have "v ! i = nth_prev idx (l - i) q" using v [of i] jl that(3) by simp
    ultimately have "v ! i = nth_prev idx (j - i) u" unfolding li nth_prev_add by simp
    then show ?thesis using old [of i] that(1,3) j(1) by simp
  qed
  have "set_tip_loop idx ?v (Some p) = Some (map (\<lambda>h. nth_prev idx (k - h) p) [0..<Suc k] @ drop (Suc k) ?v)"
    by (rule set_tip_loop_correct [OF assms(1,2) k _ path]) (simp_all add: len)
  then show ?thesis using k len by (simp add: CChain_SetTip_def chain_of_def path_length_def nat_add_distrib del: upt_Suc)
qed

section \<open>Properties\<close>

text \<open>
  C17: \<open>SetTip\<close> fills the array of the active chain with the ancestors of the new tip, whatever branch it held before,
  and the two searches for the point where two branches meet, \<open>FindFork\<close> on that array and \<open>LastCommonAncestor\<close> on the
  tree, return the same block: the first ancestor of the one that is an ancestor of the other.
\<close>

theorem fork_searches_agree:
  assumes "block_reachable m" "RBT.lookup (m_block_index m) a \<noteq> None" "RBT.lookup (m_block_index m) b \<noteq> None"
    and "RBT.lookup (m_block_index m) old \<noteq> None"
  shows "\<exists>v r. CChain_SetTip (m_block_index m) [] old = Some (chain_of (m_block_index m) old) \<and>
    CChain_SetTip (m_block_index m) (chain_of (m_block_index m) old) a = Some v \<and> CChain_Tip v = Some a \<and>
    CChain_FindFork (m_block_index m) v (Some b) = Some r \<and> LastCommonAncestor (m_block_index m) a b = Some r \<and>
    (case r of
       None \<Rightarrow> set (ancestors (m_block_index m) a) \<inter> set (ancestors (m_block_index m) b) = {}
     | Some c \<Rightarrow> \<exists>xs ys. ancestors (m_block_index m) b = xs @ c # ys \<and> c \<in> set (ancestors (m_block_index m) a) \<and>
         set xs \<inter> set (ancestors (m_block_index m) a) = {})"
proof -
  let ?idx = "m_block_index m"
  note wf = block_reachable_wf(1) [OF assms(1)]
  obtain k where k: "block_height ?idx a = int k" by (rule height_nat [OF wf assms(2)])
  have tip: "CChain_Tip (chain_of ?idx a) = Some a" using k by (simp add: CChain_Tip_def chain_of_def path_length_def nth_append)
  have f: "case fork ?idx a b of
       None \<Rightarrow> set (ancestors ?idx a) \<inter> set (ancestors ?idx b) = {}
     | Some c \<Rightarrow> \<exists>xs ys. ancestors ?idx b = xs @ c # ys \<and> c \<in> set (ancestors ?idx a) \<and> set xs \<inter> set (ancestors ?idx a) = {}"
  proof (cases "fork ?idx a b")
    case None
    then have "set (ancestors ?idx a) \<inter> set (ancestors ?idx b) = {}" by (auto simp: fork_def find_None_iff)
    then show ?thesis using None by simp
  next
    case (Some c)
    then obtain i where i: "i < length (ancestors ?idx b)" "c = ancestors ?idx b ! i" "c \<in> set (ancestors ?idx a)"
        "\<forall>j < i. ancestors ?idx b ! j \<notin> set (ancestors ?idx a)"
      by (auto simp: fork_def find_Some_iff)
    moreover have "set (take i (ancestors ?idx b)) \<inter> set (ancestors ?idx a) = {}"
      using i(1,4) by (auto simp: in_set_conv_nth)
    ultimately have "\<exists>xs ys. ancestors ?idx b = xs @ c # ys \<and> c \<in> set (ancestors ?idx a) \<and> set xs \<inter> set (ancestors ?idx a) = {}"
      using id_take_nth_drop [OF i(1)] by blast
    then show ?thesis using Some by simp
  qed
  show ?thesis
    using SetTip_correct [OF wf assms(4), of "[]"] SetTip_correct [OF wf assms(2), of "chain_of ?idx old"] assms(4)
      FindFork_correct [OF wf assms(2,3)] LastCommonAncestor_correct [OF wf assms(2,3)] tip f
    by (intro exI [of _ "chain_of ?idx a"] exI [of _ "fork ?idx a b"]) auto
qed

end
