(* ===== verification/ChainWitness.thy ===== *)
theory ChainWitness
  imports ChainActive
begin

text \<open>A tree of five headers, two of them on top of the second, on which the theorems about trees are applied.\<close>

definition add_header :: "block_manager \<Rightarrow> uint256 \<Rightarrow> uint256 \<Rightarrow> u32 \<Rightarrow> block_manager" where
  "add_header m prev h t =
     snd (snd (the (AddToBlockIndex \<lparr>hd_hashPrevBlock = prev, hd_nTime = t, hd_nBits = 0\<rparr> h BLOCK_VALID_TREE None m)))"

lemma add_header_reachable:
  assumes "block_reachable m" "prev \<noteq> h"
  shows "block_reachable (add_header m prev h t)"
proof -
  let ?blk = "\<lparr>hd_hashPrevBlock = prev, hd_nTime = t, hd_nBits = 0\<rparr>"
  have p: "hd_hashPrevBlock ?blk \<noteq> h" using assms(2) by simp
  obtain best' m' where "AddToBlockIndex ?blk h BLOCK_VALID_TREE None m = Some (h, best', m')"
    using AddToBlockIndex_total [OF block_reachable_wf [OF assms(1)] p] by blast
  with block_reachable.add [OF assms(1) p this] show ?thesis by (simp add: add_header_def)
qed

definition hash_of :: "u8 \<Rightarrow> uint256" where
  "hash_of k = UInt256 (k # replicate 31 0)"

definition example_tree :: block_manager where
  "example_tree =
     (let m = add_header empty_manager (hash_of 0) (hash_of 1) 100;
          m = add_header m (hash_of 1) (hash_of 2) 200;
          m = add_header m (hash_of 2) (hash_of 3) 300;
          m = add_header m (hash_of 3) (hash_of 4) 400
      in add_header m (hash_of 2) (hash_of 5) 350)"

lemma example_tree_reachable: "block_reachable example_tree"
  unfolding example_tree_def Let_def
  by (intro add_header_reachable block_reachable.empty) (simp_all add: hash_of_def)

lemma example_entries:
  "map (\<lambda>k. map_option (\<lambda>b. (bi_nHeight b, bi_pprev b, bi_nTime b)) (RBT.lookup (m_block_index example_tree) (hash_of k))) [1, 2, 3, 4, 5] =
   [Some (0, None, 100), Some (1, Some (hash_of 1), 200), Some (2, Some (hash_of 2), 300), Some (3, Some (hash_of 3), 400),
    Some (2, Some (hash_of 2), 350)]"
  by code_simp

lemma example_entry:
  obtains b1 b2 b3 b4 b5 where
    "RBT.lookup (m_block_index example_tree) (hash_of 1) = Some b1" "bi_nHeight b1 = 0" "bi_pprev b1 = None" "bi_nTime b1 = 100"
    "RBT.lookup (m_block_index example_tree) (hash_of 2) = Some b2" "bi_nHeight b2 = 1" "bi_pprev b2 = Some (hash_of 1)" "bi_nTime b2 = 200"
    "RBT.lookup (m_block_index example_tree) (hash_of 3) = Some b3" "bi_nHeight b3 = 2" "bi_pprev b3 = Some (hash_of 2)" "bi_nTime b3 = 300"
    "RBT.lookup (m_block_index example_tree) (hash_of 4) = Some b4" "bi_nHeight b4 = 3" "bi_pprev b4 = Some (hash_of 3)" "bi_nTime b4 = 400"
    "RBT.lookup (m_block_index example_tree) (hash_of 5) = Some b5" "bi_nHeight b5 = 2" "bi_pprev b5 = Some (hash_of 2)" "bi_nTime b5 = 350"
  using example_entries by auto

lemma example_prev:
  "block_prev (m_block_index example_tree) (hash_of 1) = None"
  "block_prev (m_block_index example_tree) (hash_of 2) = Some (hash_of 1)"
  "block_prev (m_block_index example_tree) (hash_of 3) = Some (hash_of 2)"
  "block_prev (m_block_index example_tree) (hash_of 4) = Some (hash_of 3)"
  "block_prev (m_block_index example_tree) (hash_of 5) = Some (hash_of 2)"
  by (rule example_entry; simp add: block_prev_def)+

section \<open>Witnesses\<close>

theorem skip_list_ancestor_witness:
  "GetAncestor (m_block_index example_tree) (hash_of 4) 1 = Some (Some (hash_of 2)) \<and>
   GetAncestor (m_block_index example_tree) (hash_of 4) 4 = Some None"
proof -
  obtain b where b: "RBT.lookup (m_block_index example_tree) (hash_of 4) = Some b" "bi_nHeight b = 3"
    by (rule example_entry)
  have "nth_prev (m_block_index example_tree) (nat (3 - 1)) (hash_of 4) = Some (hash_of 2)"
    by (simp add: numeral_2_eq_2 example_prev)
  then show ?thesis
    using skip_list_ancestor [OF example_tree_reachable b(1), of 1] skip_list_ancestor [OF example_tree_reachable b(1), of 4] b(2)
    by auto
qed

theorem fork_searches_agree_witness:
  "\<exists>v. CChain_SetTip (m_block_index example_tree) (chain_of (m_block_index example_tree) (hash_of 5)) (hash_of 4) = Some v \<and>
   CChain_Tip v = Some (hash_of 4) \<and>
   CChain_FindFork (m_block_index example_tree) v (Some (hash_of 5)) = LastCommonAncestor (m_block_index example_tree) (hash_of 4) (hash_of 5)"
proof -
  have l: "RBT.lookup (m_block_index example_tree) (hash_of 4) \<noteq> None" "RBT.lookup (m_block_index example_tree) (hash_of 5) \<noteq> None"
    by (rule example_entry, simp)+
  show ?thesis using fork_searches_agree [OF example_tree_reachable l l(2)] by auto
qed

definition work_header :: block_header where
  "work_header = \<lparr>hd_hashPrevBlock = hash_of 0, hd_nTime = 7, hd_nBits = 0x207fffff\<rparr>"

theorem chain_work_step_witness:
  "\<exists>best m b. AddToBlockIndex work_header (hash_of 1) BLOCK_VALID_TREE None empty_manager = Some (hash_of 1, best, m) \<and>
     RBT.lookup (m_block_index m) (hash_of 1) = Some b \<and> limbs_val (bi_nChainWork b) = 2"
proof -
  have p: "hd_hashPrevBlock work_header \<noteq> hash_of 1" by (simp add: work_header_def hash_of_def)
  obtain best m where a: "AddToBlockIndex work_header (hash_of 1) BLOCK_VALID_TREE None empty_manager = Some (hash_of 1, best, m)"
    using AddToBlockIndex_total [OF block_reachable_wf [OF block_reachable.empty] p] by blast
  have r: "block_reachable m" by (rule block_reachable.add [OF block_reachable.empty p a])
  have n: "RBT.lookup (m_block_index empty_manager) (hash_of 1) = None" by (simp add: empty_manager_def)
  from AddToBlockIndex_new [OF block_reachable_wf [OF block_reachable.empty] n p a] obtain b where
    b: "RBT.lookup (m_block_index m) (hash_of 1) = Some b" "bi_nBits b = 0x207fffff" "bi_pprev b = None"
    by (auto simp: work_header_def empty_manager_def)
  obtain v where v: "SetCompact 0x207fffff = (v, False, False)"
    by (cases "SetCompact 0x207fffff") (auto simp: SetCompact_def Let_def)
  have "limbs_val v = 0x7fffff * 2 ^ 232" using regtest_target v by simp
  then show ?thesis
    using chain_work_step [OF r b(1), of v False False] v b a by auto
qed

end
