(* ===== verification/TxLocks.thy ===== *)
theory TxLocks
  imports ChainWitness TxRules
begin

text \<open>
  Lock times: the relative locks of \<open>src/consensus/tx_verify.cpp\<close> on the tree of headers, and what they and the
  absolute ones of \<open>TxRules\<close> mean along a chain.
\<close>

section \<open>Relative locks\<close>

definition SEQUENCE_LOCKTIME_DISABLE_FLAG :: u32 where "SEQUENCE_LOCKTIME_DISABLE_FLAG = push_bit 31 1"
definition SEQUENCE_LOCKTIME_TYPE_FLAG :: u32 where "SEQUENCE_LOCKTIME_TYPE_FLAG = push_bit 22 1"
definition SEQUENCE_LOCKTIME_MASK :: u32 where "SEQUENCE_LOCKTIME_MASK = 0x0000ffff"
definition SEQUENCE_LOCKTIME_GRANULARITY :: nat where "SEQUENCE_LOCKTIME_GRANULARITY = 9"
definition LOCKTIME_VERIFY_SEQUENCE :: u32 where "LOCKTIME_VERIFY_SEQUENCE = 1"

text \<open>
  The loop over the inputs with the heights of their coins, which it sets to zero where the lock is disabled; the
  result are the two minima and the heights. \<open>None\<close> is a failed assertion.
\<close>

primrec sequence_locks_loop ::
  "block_map \<Rightarrow> uint256 \<Rightarrow> (CTxIn \<times> int) list \<Rightarrow> int \<Rightarrow> int \<Rightarrow> ((int \<times> int) \<times> int list) option"
where
  "sequence_locks_loop idx block [] nMinHeight nMinTime = Some ((nMinHeight, nMinTime), [])"
| "sequence_locks_loop idx block (x # xs) nMinHeight nMinTime =
     (let s = nSequence (fst x); nCoinHeight = snd x
      in if s AND SEQUENCE_LOCKTIME_DISABLE_FLAG \<noteq> 0
         then map_option (apsnd (\<lambda>hs. 0 # hs)) (sequence_locks_loop idx block xs nMinHeight nMinTime)
         else if s AND SEQUENCE_LOCKTIME_TYPE_FLAG \<noteq> 0
         then (case GetAncestor idx block (max (nCoinHeight - 1) 0) of
                 Some (Some a) \<Rightarrow>
                   let nCoinTime = GetMedianTimePast idx a;
                       nMinTime = max nMinTime (nCoinTime +
                         uint (push_bit SEQUENCE_LOCKTIME_GRANULARITY (s AND SEQUENCE_LOCKTIME_MASK)) - 1)
                   in map_option (apsnd (\<lambda>hs. nCoinHeight # hs)) (sequence_locks_loop idx block xs nMinHeight nMinTime)
               | _ \<Rightarrow> None)
         else
           let nMinHeight = max nMinHeight (nCoinHeight + uint (s AND SEQUENCE_LOCKTIME_MASK) - 1)
           in map_option (apsnd (\<lambda>hs. nCoinHeight # hs)) (sequence_locks_loop idx block xs nMinHeight nMinTime))"

definition CalculateSequenceLocks ::
  "block_map \<Rightarrow> CTransaction \<Rightarrow> u32 \<Rightarrow> int list \<Rightarrow> uint256 \<Rightarrow> ((int \<times> int) \<times> int list) option"
where
  "CalculateSequenceLocks idx tx flags prevHeights block =
     (if length prevHeights \<noteq> length (vin tx) then None
      else
        let fEnforceBIP68 = ((word_of_int (nVersion tx) :: u32) \<ge> 2 \<and> flags AND LOCKTIME_VERIFY_SEQUENCE \<noteq> 0)
        in if \<not> fEnforceBIP68 then Some ((- 1, - 1), prevHeights)
           else sequence_locks_loop idx block (zip (vin tx) prevHeights) (- 1) (- 1))"

definition EvaluateSequenceLocks :: "block_map \<Rightarrow> uint256 \<Rightarrow> int \<times> int \<Rightarrow> bool option" where
  "EvaluateSequenceLocks idx block lockPair =
     (case block_prev idx block of
        None \<Rightarrow> None
      | Some pprev \<Rightarrow>
          let nBlockTime = GetMedianTimePast idx pprev
          in if fst lockPair \<ge> block_height idx block \<or> snd lockPair \<ge> nBlockTime then Some False else Some True)"

definition SequenceLocks :: "block_map \<Rightarrow> CTransaction \<Rightarrow> u32 \<Rightarrow> int list \<Rightarrow> uint256 \<Rightarrow> bool option" where
  "SequenceLocks idx tx flags prevHeights block =
     (case CalculateSequenceLocks idx tx flags prevHeights block of
        None \<Rightarrow> None
      | Some (lockPair, _) \<Rightarrow> EvaluateSequenceLocks idx block lockPair)"

section \<open>The median of the past\<close>

lemma sorted_count:
  assumes "sorted ys" "k < length ys"
  shows "m \<le> ys ! k \<longleftrightarrow> length ys - k \<le> length (filter (\<lambda>x. m \<le> x) ys)"
proof -
  have split: "length (filter (\<lambda>x. m \<le> x) ys) =
      length (filter (\<lambda>x. m \<le> x) (take k ys)) + length (filter (\<lambda>x. m \<le> x) (drop k ys))"
    by (metis append_take_drop_id filter_append length_append)
  show ?thesis
  proof
    assume "m \<le> ys ! k"
    have "m \<le> x" if "x \<in> set (drop k ys)" for x
    proof -
      obtain i where "i < length (drop k ys)" "x = drop k ys ! i" using \<open>x \<in> set (drop k ys)\<close> by (metis in_set_conv_nth)
      then have i: "i < length ys - k" "x = ys ! (k + i)" using assms(2) by simp_all
      have "ys ! k \<le> x" using sorted_nth_mono [OF assms(1), of k "k + i"] assms(2) i by simp
      then show ?thesis using \<open>m \<le> ys ! k\<close> by simp
    qed
    then have "filter (\<lambda>x. m \<le> x) (drop k ys) = drop k ys" by (simp add: filter_id_conv)
    then show "length ys - k \<le> length (filter (\<lambda>x. m \<le> x) ys)" using split by simp
  next
    assume c: "length ys - k \<le> length (filter (\<lambda>x. m \<le> x) ys)"
    show "m \<le> ys ! k"
    proof (rule ccontr)
      assume n: "\<not> m \<le> ys ! k"
      have "x < m" if "x \<in> set (take (Suc k) ys)" for x
      proof -
        obtain i where "i < length (take (Suc k) ys)" "x = take (Suc k) ys ! i"
          using \<open>x \<in> set (take (Suc k) ys)\<close> by (metis in_set_conv_nth)
        then have "i \<le> k" "x = ys ! i" using assms(2) by simp_all
        then show ?thesis using sorted_nth_mono [OF assms(1), of i k] assms(2) n by simp
      qed
      then have "filter (\<lambda>x. m \<le> x) (take (Suc k) ys) = []" by (auto simp: filter_empty_conv not_le)
      then have "length (filter (\<lambda>x. m \<le> x) ys) \<le> length (drop (Suc k) ys)"
        using length_filter_le [of "\<lambda>x. m \<le> x" "drop (Suc k) ys"]
        by (metis append_Nil append_take_drop_id filter_append)
      then show False using c assms(2) by simp
    qed
  qed
qed

lemma median_ge_iff:
  assumes "k < length xs"
  shows "m \<le> sort xs ! k \<longleftrightarrow> length xs - k \<le> length (filter (\<lambda>x. m \<le> x) xs)"
proof -
  have "length (filter (\<lambda>x. m \<le> x) (sort xs)) = length (filter (\<lambda>x. m \<le> x) xs)"
    by (simp add: filter_sort)
  then show ?thesis using sorted_count [of "sort xs" k m] assms by simp
qed

lemma past_times_take: "past_times n idx p = take n (past_times (n + k) idx p)"
  by (induction n arbitrary: p) (auto split: option.split)

lemma past_times_not_Nil: "RBT.lookup idx p \<noteq> None \<Longrightarrow> past_times (Suc n) idx (Some p) \<noteq> []"
  by (auto split: option.split)

lemma length_past_times: "length (past_times n idx p) \<le> n"
  by (induction n arbitrary: p) (auto split: option.split)

lemma median_step:
  fixes ts :: "int list"
  assumes "ts \<noteq> []" "length ts \<le> Suc n" "even n" "0 < n" "sort ts ! (length ts div 2) \<le> t"
  defines "us \<equiv> t # take n ts"
  shows "sort ts ! (length ts div 2) \<le> sort us ! (length us div 2)"
proof -
  let ?m = "sort ts ! (length ts div 2)"
  let ?c = "\<lambda>xs. length (filter (\<lambda>x. ?m \<le> x) xs)"
  have l: "length ts div 2 < length ts" using assms(1) by (cases ts) auto
  have ct: "length ts - length ts div 2 \<le> ?c ts" using median_ge_iff [OF l, of ?m] by simp
  have cu: "?c us = Suc (?c (take n ts))" using assms(5) by (simp add: us_def)
  have "length us - length us div 2 \<le> ?c us"
  proof (cases "length ts \<le> n")
    case True
    then show ?thesis using ct cu by (simp add: us_def) linarith
  next
    case False
    then have n: "length ts = Suc n" using assms(2) by simp
    have "?c ts \<le> Suc (?c (take n ts))"
    proof -
      have "?c ts = ?c (take n ts) + ?c (drop n ts)"
        by (metis append_take_drop_id filter_append length_append)
      moreover have "?c (drop n ts) \<le> length (drop n ts)" by (rule length_filter_le)
      ultimately show ?thesis using n by simp
    qed
    then show ?thesis using ct cu n by (simp add: us_def)
  qed
  moreover have "length us div 2 < length us" by (simp add: us_def)
  ultimately show ?thesis by (simp add: median_ge_iff)
qed

text \<open>A block that obeys the rule on its time does not move the median back.\<close>

lemma median_time_mono:
  assumes "RBT.lookup idx p = Some b" "bi_pprev b = Some q" "RBT.lookup idx q \<noteq> None"
    and "GetMedianTimePast idx q \<le> uint (bi_nTime b)"
  shows "GetMedianTimePast idx q \<le> GetMedianTimePast idx p"
proof -
  let ?ts = "past_times 11 idx (Some q)"
  have "past_times 11 idx (Some p) = uint (bi_nTime b) # take 10 ?ts"
    using assms(1,2) past_times_take [of 10 idx "Some q" 1] by (simp add: numeral_eq_Suc)
  then show ?thesis
    using median_step [of ?ts 10 "uint (bi_nTime b)"] assms(4) length_past_times [of 11 idx "Some q"]
      past_times_not_Nil [OF assms(3), of 10]
    by (simp add: GetMedianTimePast_def nMedianTimeSpan_def Let_def)
qed

section \<open>Along a chain\<close>

text \<open>The rule on the time of a header, with which \<open>src/validation.cpp\<close> rejects blocks that are too old.\<close>

definition time_rule :: "block_map \<Rightarrow> uint256 \<Rightarrow> bool" where
  "time_rule idx p \<longleftrightarrow>
     (case RBT.lookup idx p of
        None \<Rightarrow> False
      | Some b \<Rightarrow> (case bi_pprev b of None \<Rightarrow> True | Some q \<Rightarrow> uint (bi_nTime b) > GetMedianTimePast idx q))"

lemma GetAncestor_child:
  assumes "index_wf idx" "RBT.lookup idx p = Some b" "bi_pprev b = Some q" "GetAncestor idx q h = Some (Some a)"
  shows "GetAncestor idx p h = Some (Some a)"
proof -
  obtain qb where q: "RBT.lookup idx q = Some qb" "0 \<le> bi_nHeight qb" "bi_nHeight b = bi_nHeight qb + 1"
    using assms(1-3) by (fastforce simp: index_wf_def entry_wf_def)
  have h: "0 \<le> h" "h \<le> bi_nHeight qb" "nth_prev idx (nat (bi_nHeight qb - h)) q = Some a"
    using assms(4) by (simp_all add: GetAncestor_correct [OF assms(1) q(1)] split: if_splits)
  have "nat (bi_nHeight b - h) = Suc (nat (bi_nHeight qb - h))" using h q by simp
  then show ?thesis
    using h q(3) assms(2,3) by (simp add: GetAncestor_correct [OF assms(1,2)] block_prev_def)
qed

lemma sequence_locks_child:
  assumes "index_wf idx" "RBT.lookup idx p = Some b" "bi_pprev b = Some q"
    and "sequence_locks_loop idx q xs mh mt = Some r"
  shows "sequence_locks_loop idx p xs mh mt = Some r"
  using assms(4)
proof (induction xs arbitrary: mh mt r)
  case (Cons x xs)
  note child = GetAncestor_child [OF assms(1-3)]
  from Cons.prems show ?case
    by (auto simp: Let_def child split: if_splits option.splits dest!: Cons.IH)
qed simp

lemma CalculateSequenceLocks_child:
  assumes "index_wf idx" "RBT.lookup idx p = Some b" "bi_pprev b = Some q"
    and "CalculateSequenceLocks idx tx flags hs q = Some r"
  shows "CalculateSequenceLocks idx tx flags hs p = Some r"
  using assms(4) sequence_locks_child [OF assms(1-3)] by (auto simp: CalculateSequenceLocks_def Let_def split: if_splits)

lemma locks_child:
  assumes "index_wf idx" "time_rule idx q" "RBT.lookup idx p = Some b" "bi_pprev b = Some q"
    and "SequenceLocks idx tx flags hs q = Some True"
  shows "SequenceLocks idx tx flags hs p = Some True"
proof -
  obtain qb where q: "RBT.lookup idx q = Some qb" "bi_nHeight b = bi_nHeight qb + 1"
    using assms(1,3,4) by (fastforce simp: index_wf_def entry_wf_def)
  obtain l hs' where l: "CalculateSequenceLocks idx tx flags hs q = Some (l, hs')" "EvaluateSequenceLocks idx q l = Some True"
    using assms(5) by (auto simp: SequenceLocks_def split: option.splits)
  then obtain r where r: "bi_pprev qb = Some r" "fst l < bi_nHeight qb" "snd l < GetMedianTimePast idx r"
    using q(1) by (auto simp: EvaluateSequenceLocks_def block_prev_def block_height_def split: option.splits if_splits)
  have "RBT.lookup idx r \<noteq> None" using assms(1) q(1) r(1) by (fastforce simp: index_wf_def entry_wf_def)
  then have "GetMedianTimePast idx r \<le> GetMedianTimePast idx q"
    using median_time_mono [OF q(1) r(1)] assms(2) q(1) r(1) by (simp add: time_rule_def)
  then show ?thesis
    using CalculateSequenceLocks_child [OF assms(1,3,4) l(1)] r q(2) assms(3,4)
    by (simp add: SequenceLocks_def EvaluateSequenceLocks_def block_prev_def block_height_def)
qed

lemma IsFinalTx_mono: "IsFinalTx tx h t \<Longrightarrow> h \<le> h' \<Longrightarrow> t \<le> t' \<Longrightarrow> IsFinalTx tx h' t'"
  by (auto simp: IsFinalTx_def split: if_splits)

lemma locks_descendant:
  assumes "index_wf idx" "RBT.lookup idx p \<noteq> None" "nth_prev idx n p = Some q" "\<And>x. x \<in> set (ancestors idx p) \<Longrightarrow> time_rule idx x"
    and "SequenceLocks idx tx flags hs q = Some True"
  shows "SequenceLocks idx tx flags hs p = Some True"
  using assms(2-4)
proof (induction n arbitrary: p)
  case 0
  then show ?case using assms(5) by simp
next
  case (Suc n)
  obtain b where b: "RBT.lookup idx p = Some b" using Suc.prems(1) by blast
  obtain r where r: "block_prev idx p = Some r" "nth_prev idx n r = Some q"
    using Suc.prems(2) by (auto simp: bind_eq_Some_conv)
  have pr: "bi_pprev b = Some r" using b r(1) by (simp add: block_prev_def)
  have lr: "RBT.lookup idx r \<noteq> None" using assms(1) b pr by (fastforce simp: index_wf_def entry_wf_def)
  have anc: "set (ancestors idx r) \<subseteq> set (ancestors idx p)"
    using ancestors_step [OF assms(1) Suc.prems(1)] r(1) by auto
  have "r \<in> set (ancestors idx p)"
    using ancestors_step [OF assms(1) Suc.prems(1)] ancestors_step [OF assms(1) lr] r(1) by simp
  then show ?case
    using locks_child [OF assms(1) _ b pr] Suc.IH [OF lr r(2)] Suc.prems(3) anc by blast
qed

text \<open>
  C16: on every tree of headers, if the branch of a block obeys the rule on times, a transaction whose relative locks
  are open at a block of the branch has them open at the end of the branch, and no assertion fails there.
\<close>

theorem sequence_locks_stay_open:
  assumes "block_reachable m" "RBT.lookup (m_block_index m) p \<noteq> None" "q \<in> set (ancestors (m_block_index m) p)"
    and "list_all (time_rule (m_block_index m)) (ancestors (m_block_index m) p)"
    and "SequenceLocks (m_block_index m) tx flags prevHeights q = Some True"
  shows "SequenceLocks (m_block_index m) tx flags prevHeights p = Some True"
  using locks_descendant [OF block_reachable_wf(1) [OF assms(1)] assms(2)
      ancestors_height(3) [OF block_reachable_wf(1) [OF assms(1)] assms(2,3)] _ assms(5)] assms(4)
  by (simp add: list_all_iff)

definition locked_tx :: CTransaction where
  "locked_tx = \<lparr>tx_hash = uint256_zero, nVersion = 2, nType = 0, vin = [\<lparr>prevout = COutPoint_null, scriptSig = [], nSequence = 1\<rparr>], vout = [],
     nLockTime = 0, vExtraPayload = []\<rparr>"

theorem sequence_locks_stay_open_witness:
  "SequenceLocks (m_block_index example_tree) locked_tx 1 [0] (hash_of 4) = Some True \<and>
   SequenceLocks (m_block_index example_tree) locked_tx 1 [1] (hash_of 2) = Some False"
proof -
  have a: "RBT.lookup (m_block_index example_tree) (hash_of 4) \<noteq> None" by (rule example_entry) simp
  have f: "hash_of 2 \<in> set (ancestors (m_block_index example_tree) (hash_of 4))" by code_simp
  have t: "list_all (time_rule (m_block_index example_tree)) (ancestors (m_block_index example_tree) (hash_of 4))" by code_simp
  have s: "SequenceLocks (m_block_index example_tree) locked_tx 1 [0] (hash_of 2) = Some True" by code_simp
  have n: "SequenceLocks (m_block_index example_tree) locked_tx 1 [1] (hash_of 2) = Some False" by code_simp
  show ?thesis using sequence_locks_stay_open [OF example_tree_reachable a f t s] n by simp
qed

end
