(* ===== verification/Interpreter.thy ===== *)
theory Interpreter
  imports ScriptOps TxLocks "HOL-Library.Signed_Division"
begin

text \<open>
  The script interpreter of \<open>src/script/interpreter.cpp\<close>. The stack is a list with its top first, so that
  \<open>stacktop(-i)\<close> is element \<open>i - 1\<close>. An operation gives the new stack or fails: with a script error, which is also what
  the handler of exceptions turns them into, or with \<open>ScriptAbort\<close>, a failed assertion. The hash functions and the curve
  are arguments.
\<close>

section \<open>Errors and flags\<close>

datatype ScriptError =
    SCRIPT_ERR_OK | SCRIPT_ERR_UNKNOWN_ERROR | SCRIPT_ERR_EVAL_FALSE | SCRIPT_ERR_OP_RETURN
  | SCRIPT_ERR_SCRIPT_SIZE | SCRIPT_ERR_PUSH_SIZE | SCRIPT_ERR_OP_COUNT | SCRIPT_ERR_STACK_SIZE
  | SCRIPT_ERR_SIG_COUNT | SCRIPT_ERR_PUBKEY_COUNT
  | SCRIPT_ERR_VERIFY | SCRIPT_ERR_EQUALVERIFY | SCRIPT_ERR_CHECKMULTISIGVERIFY | SCRIPT_ERR_CHECKSIGVERIFY
  | SCRIPT_ERR_CHECKDATASIGVERIFY | SCRIPT_ERR_NUMEQUALVERIFY
  | SCRIPT_ERR_BAD_OPCODE | SCRIPT_ERR_DISABLED_OPCODE | SCRIPT_ERR_INVALID_STACK_OPERATION
  | SCRIPT_ERR_INVALID_ALTSTACK_OPERATION | SCRIPT_ERR_UNBALANCED_CONDITIONAL
  | SCRIPT_ERR_INVALID_SPLIT_RANGE | SCRIPT_ERR_INVALID_OPERAND_SIZE | SCRIPT_ERR_INVALID_NUMBER_RANGE
  | SCRIPT_ERR_IMPOSSIBLE_ENCODING | SCRIPT_ERR_DIV_BY_ZERO | SCRIPT_ERR_MOD_BY_ZERO
  | SCRIPT_ERR_NEGATIVE_LOCKTIME | SCRIPT_ERR_UNSATISFIED_LOCKTIME
  | SCRIPT_ERR_SIG_HASHTYPE | SCRIPT_ERR_SIG_DER | SCRIPT_ERR_MINIMALDATA | SCRIPT_ERR_SIG_PUSHONLY
  | SCRIPT_ERR_SIG_HIGH_S | SCRIPT_ERR_SIG_NULLDUMMY | SCRIPT_ERR_PUBKEYTYPE | SCRIPT_ERR_CLEANSTACK
  | SCRIPT_ERR_SIG_NULLFAIL | SCRIPT_ERR_DISCOURAGE_UPGRADABLE_NOPS
  | SCRIPT_ERR_OP_CODESEPARATOR | SCRIPT_ERR_SIG_FINDANDDELETE

datatype script_fail = ScriptErr ScriptError | ScriptAbort

type_synonym valtype = bytes
type_synonym 'a script_result = "script_fail + 'a"

definition set_error :: "ScriptError \<Rightarrow> 'a script_result" where
  "set_error e = Inl (ScriptErr e)"

definition SCRIPT_VERIFY_P2SH :: u32 where "SCRIPT_VERIFY_P2SH = push_bit 0 1"
definition SCRIPT_VERIFY_STRICTENC :: u32 where "SCRIPT_VERIFY_STRICTENC = push_bit 1 1"
definition SCRIPT_VERIFY_DERSIG :: u32 where "SCRIPT_VERIFY_DERSIG = push_bit 2 1"
definition SCRIPT_VERIFY_LOW_S :: u32 where "SCRIPT_VERIFY_LOW_S = push_bit 3 1"
definition SCRIPT_VERIFY_NULLDUMMY :: u32 where "SCRIPT_VERIFY_NULLDUMMY = push_bit 4 1"
definition SCRIPT_VERIFY_SIGPUSHONLY :: u32 where "SCRIPT_VERIFY_SIGPUSHONLY = push_bit 5 1"
definition SCRIPT_VERIFY_MINIMALDATA :: u32 where "SCRIPT_VERIFY_MINIMALDATA = push_bit 6 1"
definition SCRIPT_VERIFY_DISCOURAGE_UPGRADABLE_NOPS :: u32 where "SCRIPT_VERIFY_DISCOURAGE_UPGRADABLE_NOPS = push_bit 7 1"
definition SCRIPT_VERIFY_CLEANSTACK :: u32 where "SCRIPT_VERIFY_CLEANSTACK = push_bit 8 1"
definition SCRIPT_VERIFY_CHECKLOCKTIMEVERIFY :: u32 where "SCRIPT_VERIFY_CHECKLOCKTIMEVERIFY = push_bit 9 1"
definition SCRIPT_VERIFY_CHECKSEQUENCEVERIFY :: u32 where "SCRIPT_VERIFY_CHECKSEQUENCEVERIFY = push_bit 10 1"
definition SCRIPT_VERIFY_NULLFAIL :: u32 where "SCRIPT_VERIFY_NULLFAIL = push_bit 14 1"
definition SCRIPT_VERIFY_CONST_SCRIPTCODE :: u32 where "SCRIPT_VERIFY_CONST_SCRIPTCODE = push_bit 16 1"

definition SIGHASH_ALL :: u8 where "SIGHASH_ALL = 1"
definition SIGHASH_SINGLE :: u8 where "SIGHASH_SINGLE = 3"
definition SIGHASH_ANYONECANPAY :: u8 where "SIGHASH_ANYONECANPAY = 0x80"

definition MAX_SCRIPT_ELEMENT_SIZE :: nat where "MAX_SCRIPT_ELEMENT_SIZE = 520"
definition MAX_OPS_PER_SCRIPT :: nat where "MAX_OPS_PER_SCRIPT = 201"
definition MAX_STACK_SIZE :: nat where "MAX_STACK_SIZE = 1000"

record script_crypto =
  c_RIPEMD160 :: "bytes \<Rightarrow> bytes"
  c_SHA1 :: "bytes \<Rightarrow> bytes"
  c_SHA256 :: "bytes \<Rightarrow> bytes"
  c_HASH160 :: "bytes \<Rightarrow> bytes"
  c_HASH256 :: "bytes \<Rightarrow> bytes"
  c_CheckLowS :: "bytes \<Rightarrow> bool"
  c_Verify :: "CPubKey \<Rightarrow> bytes \<Rightarrow> bytes \<Rightarrow> bool"

text \<open>\<open>BaseSignatureChecker\<close>: its virtual functions.\<close>

record signature_checker =
  k_CheckSig :: "bytes \<Rightarrow> bytes \<Rightarrow> bytes \<Rightarrow> bool"
  k_CheckLockTime :: "CScriptNum \<Rightarrow> bool"
  k_CheckSequence :: "CScriptNum \<Rightarrow> bool"

section \<open>Signatures and keys\<close>

fun CastToBool :: "valtype \<Rightarrow> bool" where
  "CastToBool [] = False"
| "CastToBool (b # bs) = (if b \<noteq> 0 then \<not> (bs = [] \<and> b = 0x80) else CastToBool bs)"

definition IsCompressedOrUncompressedPubKey :: "valtype \<Rightarrow> bool" where
  "IsCompressedOrUncompressedPubKey k =
     (if length k < 33 then False
      else if k ! 0 = 0x04 then length k = 65
      else if k ! 0 = 0x02 \<or> k ! 0 = 0x03 then length k = 33
      else False)"

definition IsValidSignatureEncoding :: "bytes \<Rightarrow> bool" where
  "IsValidSignatureEncoding sig =
     (if length sig < 9 then False
      else if length sig > 73 then False
      else if sig ! 0 \<noteq> 0x30 then False
      else if unat (sig ! 1) \<noteq> length sig - 3 then False
      else
        let lenR = unat (sig ! 3)
        in if 5 + lenR \<ge> length sig then False
           else
             let lenS = unat (sig ! (5 + lenR))
             in if lenR + lenS + 7 \<noteq> length sig then False
                else if sig ! 2 \<noteq> 0x02 then False
                else if lenR = 0 then False
                else if sig ! 4 AND 0x80 \<noteq> 0 then False
                else if lenR > 1 \<and> sig ! 4 = 0 \<and> sig ! 5 AND 0x80 = 0 then False
                else if sig ! (lenR + 4) \<noteq> 0x02 then False
                else if lenS = 0 then False
                else if sig ! (lenR + 6) AND 0x80 \<noteq> 0 then False
                else if lenS > 1 \<and> sig ! (lenR + 6) = 0 \<and> sig ! (lenR + 7) AND 0x80 = 0 then False
                else True)"

definition IsLowDERSignature :: "script_crypto \<Rightarrow> valtype \<Rightarrow> unit script_result" where
  "IsLowDERSignature cr vchSig =
     (if \<not> IsValidSignatureEncoding vchSig then set_error SCRIPT_ERR_SIG_DER
      else if \<not> c_CheckLowS cr (take (length vchSig - 1) vchSig) then set_error SCRIPT_ERR_SIG_HIGH_S
      else Inr ())"

definition IsDefinedHashtypeSignature :: "valtype \<Rightarrow> bool" where
  "IsDefinedHashtypeSignature vchSig =
     (if length vchSig = 0 then False
      else let nHashType = vchSig ! (length vchSig - 1) AND NOT SIGHASH_ANYONECANPAY
           in if nHashType < SIGHASH_ALL \<or> nHashType > SIGHASH_SINGLE then False else True)"

definition CheckSignatureEncoding :: "script_crypto \<Rightarrow> u32 \<Rightarrow> bytes \<Rightarrow> unit script_result" where
  "CheckSignatureEncoding cr flags vchSig =
     (if length vchSig = 0 then Inr ()
      else if flags AND (SCRIPT_VERIFY_DERSIG OR SCRIPT_VERIFY_LOW_S OR SCRIPT_VERIFY_STRICTENC) \<noteq> 0
           \<and> \<not> IsValidSignatureEncoding vchSig
      then set_error SCRIPT_ERR_SIG_DER
      else if flags AND SCRIPT_VERIFY_LOW_S \<noteq> 0 \<and> IsLowDERSignature cr vchSig \<noteq> Inr ()
      then IsLowDERSignature cr vchSig
      else if flags AND SCRIPT_VERIFY_STRICTENC \<noteq> 0 \<and> \<not> IsDefinedHashtypeSignature vchSig
      then set_error SCRIPT_ERR_SIG_HASHTYPE
      else Inr ())"

definition CheckPubKeyEncoding :: "u32 \<Rightarrow> valtype \<Rightarrow> unit script_result" where
  "CheckPubKeyEncoding flags vchPubKey =
     (if flags AND SCRIPT_VERIFY_STRICTENC \<noteq> 0 \<and> \<not> IsCompressedOrUncompressedPubKey vchPubKey
      then set_error SCRIPT_ERR_PUBKEYTYPE else Inr ())"

text \<open>Both checks, as the operations make them.\<close>

definition check_encodings :: "script_crypto \<Rightarrow> u32 \<Rightarrow> valtype \<Rightarrow> valtype \<Rightarrow> unit script_result" where
  "check_encodings cr flags vchSig vchPubKey =
     (case CheckSignatureEncoding cr flags vchSig of
        Inl e \<Rightarrow> Inl e
      | Inr _ \<Rightarrow> CheckPubKeyEncoding flags vchPubKey)"

text \<open>The inner loop of \<open>FindAndDelete\<close>, which skips the occurrences of \<open>b\<close> at \<open>pc\<close>, and the outer one.\<close>

function skip_matches :: "bytes \<Rightarrow> bytes \<Rightarrow> nat \<Rightarrow> nat \<times> bytes" where
  "skip_matches b pc nFound =
     (if b \<noteq> [] \<and> length pc \<ge> length b \<and> take (length b) pc = b
      then skip_matches b (drop (length b) pc) (nFound + 1) else (nFound, pc))"
  by pat_completeness auto
termination by (relation "measure (\<lambda>(b, pc, n). length pc)") (auto simp flip: length_greater_0_conv)

declare skip_matches.simps [simp del]

lemma skip_matches_le: "skip_matches b pc n = (n', pc') \<Longrightarrow> length pc' \<le> length pc"
proof (induction b pc n rule: skip_matches.induct)
  case (1 b pc n)
  note eq = skip_matches.simps [of b pc n]
  show ?case
  proof (cases "b \<noteq> [] \<and> length pc \<ge> length b \<and> take (length b) pc = b")
    case True
    then have "skip_matches b (drop (length b) pc) (n + 1) = (n', pc')" using 1(2) eq by simp
    from 1(1) [OF True this] show ?thesis by simp
  next
    case False
    then show ?thesis using 1(2) eq by auto
  qed
qed

text \<open>From \<open>pc2\<close> on, where \<open>pc\<close> is the position after the operation last read.\<close>

function find_delete_loop :: "bytes \<Rightarrow> bytes \<Rightarrow> bytes \<Rightarrow> nat \<Rightarrow> bytes \<Rightarrow> nat \<times> bytes" where
  "find_delete_loop b pc2 pc nFound result =
     (let result = result @ take (length pc2 - length pc) pc2;
          (nFound, pc) = skip_matches b pc nFound
      in case GetScriptOp pc of
           None \<Rightarrow> (nFound, result @ pc)
         | Some (_, _, rest) \<Rightarrow> find_delete_loop b pc rest nFound result)"
  by pat_completeness auto
termination
  by (relation "measure (\<lambda>(b, pc2, pc, n, r). length pc)")
    (auto dest!: GetScriptOp_less skip_matches_le [OF sym])

declare find_delete_loop.simps [simp del]

definition FindAndDelete :: "bytes \<Rightarrow> bytes \<Rightarrow> nat \<times> bytes" where
  "FindAndDelete script b =
     (if b = [] then (0, script)
      else let (nFound, result) = find_delete_loop b script script 0 []
           in (nFound, if nFound > 0 then result else script))"

definition EvalChecksig ::
  "script_crypto \<Rightarrow> signature_checker \<Rightarrow> u32 \<Rightarrow> bytes \<Rightarrow> valtype \<Rightarrow> valtype \<Rightarrow> bool script_result" where
  "EvalChecksig cr checker flags pbegincodehash vchSig vchPubKey =
     (let (found, scriptCode) = FindAndDelete pbegincodehash (push_data vchSig)
      in if found > 0 \<and> flags AND SCRIPT_VERIFY_CONST_SCRIPTCODE \<noteq> 0 then set_error SCRIPT_ERR_SIG_FINDANDDELETE
         else case check_encodings cr flags vchSig vchPubKey of
           Inl e \<Rightarrow> Inl e
         | Inr _ \<Rightarrow>
             let fSuccess = k_CheckSig checker vchSig vchPubKey scriptCode
             in if \<not> fSuccess \<and> flags AND SCRIPT_VERIFY_NULLFAIL \<noteq> 0 \<and> length vchSig \<noteq> 0
                then set_error SCRIPT_ERR_SIG_NULLFAIL else Inr fSuccess)"

section \<open>Conditions\<close>

definition NO_FALSE :: u32 where "NO_FALSE = 0xffffffff"

record ConditionStack =
  m_stack_size :: u32
  m_first_false_pos :: u32

definition cond_init :: ConditionStack where
  "cond_init = \<lparr>m_stack_size = 0, m_first_false_pos = NO_FALSE\<rparr>"

definition cond_empty :: "ConditionStack \<Rightarrow> bool" where
  "cond_empty c \<longleftrightarrow> m_stack_size c = 0"

definition cond_all_true :: "ConditionStack \<Rightarrow> bool" where
  "cond_all_true c \<longleftrightarrow> m_first_false_pos c = NO_FALSE"

definition cond_push_back :: "bool \<Rightarrow> ConditionStack \<Rightarrow> ConditionStack" where
  "cond_push_back f c =
     (let c = (if m_first_false_pos c = NO_FALSE \<and> \<not> f then c\<lparr>m_first_false_pos := m_stack_size c\<rparr> else c)
      in c\<lparr>m_stack_size := m_stack_size c + 1\<rparr>)"

definition cond_pop_back :: "ConditionStack \<Rightarrow> ConditionStack script_result" where
  "cond_pop_back c =
     (if m_stack_size c = 0 then Inl ScriptAbort
      else let c = c\<lparr>m_stack_size := m_stack_size c - 1\<rparr>
           in Inr (if m_first_false_pos c = m_stack_size c then c\<lparr>m_first_false_pos := NO_FALSE\<rparr> else c))"

definition cond_toggle_top :: "ConditionStack \<Rightarrow> ConditionStack script_result" where
  "cond_toggle_top c =
     (if m_stack_size c = 0 then Inl ScriptAbort
      else Inr (if m_first_false_pos c = NO_FALSE then c\<lparr>m_first_false_pos := m_stack_size c - 1\<rparr>
                else if m_first_false_pos c = m_stack_size c - 1 then c\<lparr>m_first_false_pos := NO_FALSE\<rparr>
                else c))"

section \<open>Operations on the stack\<close>

type_synonym stack = "valtype list"

definition stack_error :: "'a script_result" where
  "stack_error = set_error SCRIPT_ERR_INVALID_STACK_OPERATION"

definition vchFalse :: valtype where "vchFalse = []"
definition vchTrue :: valtype where "vchTrue = [1]"

definition of_bool_val :: "bool \<Rightarrow> valtype" where
  "of_bool_val f = (if f then vchTrue else vchFalse)"

text \<open>A number off the stack; the exception of its constructor ends the script with an unknown error.\<close>

definition with_num :: "valtype \<Rightarrow> bool \<Rightarrow> nat \<Rightarrow> (CScriptNum \<Rightarrow> 'a script_result) \<Rightarrow> 'a script_result" where
  "with_num v fRequireMinimal n k =
     (case scriptnum_read v fRequireMinimal n of
        None \<Rightarrow> set_error SCRIPT_ERR_UNKNOWN_ERROR
      | Some bn \<Rightarrow> k bn)"

text \<open>A result of arithmetic, with the assertion that it fits.\<close>

definition with_i64 :: "int \<Rightarrow> (CScriptNum \<Rightarrow> 'a script_result) \<Rightarrow> 'a script_result" where
  "with_i64 x k = (case i64 x of None \<Rightarrow> Inl ScriptAbort | Some y \<Rightarrow> k y)"

definition exec_push_int :: "u8 \<Rightarrow> stack \<Rightarrow> stack script_result" where
  "exec_push_int opcode s = Inr (scriptnum_serialize (uint opcode - (uint OP_1 - 1)) # s)"

definition exec_CHECKLOCKTIMEVERIFY :: "signature_checker \<Rightarrow> u32 \<Rightarrow> bool \<Rightarrow> stack \<Rightarrow> stack script_result" where
  "exec_CHECKLOCKTIMEVERIFY checker flags fRequireMinimal s =
     (if flags AND SCRIPT_VERIFY_CHECKLOCKTIMEVERIFY = 0 then Inr s
      else if length s < 1 then stack_error
      else with_num (hd s) fRequireMinimal 5 (\<lambda>nLockTime.
        if nLockTime < 0 then set_error SCRIPT_ERR_NEGATIVE_LOCKTIME
        else if \<not> k_CheckLockTime checker nLockTime then set_error SCRIPT_ERR_UNSATISFIED_LOCKTIME
        else Inr s))"

definition exec_CHECKSEQUENCEVERIFY :: "signature_checker \<Rightarrow> u32 \<Rightarrow> bool \<Rightarrow> stack \<Rightarrow> stack script_result" where
  "exec_CHECKSEQUENCEVERIFY checker flags fRequireMinimal s =
     (if flags AND SCRIPT_VERIFY_CHECKSEQUENCEVERIFY = 0 then Inr s
      else if length s < 1 then stack_error
      else with_num (hd s) fRequireMinimal 5 (\<lambda>nSequence.
        if nSequence < 0 then set_error SCRIPT_ERR_NEGATIVE_LOCKTIME
        else if nSequence AND uint SEQUENCE_LOCKTIME_DISABLE_FLAG \<noteq> 0 then Inr s
        else if \<not> k_CheckSequence checker nSequence then set_error SCRIPT_ERR_UNSATISFIED_LOCKTIME
        else Inr s))"

definition exec_NOPs :: "u32 \<Rightarrow> stack \<Rightarrow> stack script_result" where
  "exec_NOPs flags s =
     (if flags AND SCRIPT_VERIFY_DISCOURAGE_UPGRADABLE_NOPS \<noteq> 0 then set_error SCRIPT_ERR_DISCOURAGE_UPGRADABLE_NOPS
      else Inr s)"

definition exec_VERIFY :: "stack \<Rightarrow> stack script_result" where
  "exec_VERIFY s =
     (case s of
        x # r \<Rightarrow> if CastToBool x then Inr r else set_error SCRIPT_ERR_VERIFY
      | _ \<Rightarrow> stack_error)"

definition exec_2DROP :: "stack \<Rightarrow> stack script_result" where
  "exec_2DROP s = (case s of _ # _ # r \<Rightarrow> Inr r | _ \<Rightarrow> stack_error)"

definition exec_2DUP :: "stack \<Rightarrow> stack script_result" where
  "exec_2DUP s = (case s of x2 # x1 # _ \<Rightarrow> Inr (x2 # x1 # s) | _ \<Rightarrow> stack_error)"

definition exec_3DUP :: "stack \<Rightarrow> stack script_result" where
  "exec_3DUP s = (case s of x3 # x2 # x1 # _ \<Rightarrow> Inr (x3 # x2 # x1 # s) | _ \<Rightarrow> stack_error)"

definition exec_2OVER :: "stack \<Rightarrow> stack script_result" where
  "exec_2OVER s = (case s of _ # _ # x2 # x1 # _ \<Rightarrow> Inr (x2 # x1 # s) | _ \<Rightarrow> stack_error)"

definition exec_2ROT :: "stack \<Rightarrow> stack script_result" where
  "exec_2ROT s =
     (case s of x6 # x5 # x4 # x3 # x2 # x1 # r \<Rightarrow> Inr (x2 # x1 # x6 # x5 # x4 # x3 # r) | _ \<Rightarrow> stack_error)"

definition exec_2SWAP :: "stack \<Rightarrow> stack script_result" where
  "exec_2SWAP s = (case s of x4 # x3 # x2 # x1 # r \<Rightarrow> Inr (x2 # x1 # x4 # x3 # r) | _ \<Rightarrow> stack_error)"

definition exec_IFDUP :: "stack \<Rightarrow> stack script_result" where
  "exec_IFDUP s = (case s of x # _ \<Rightarrow> Inr (if CastToBool x then x # s else s) | _ \<Rightarrow> stack_error)"

definition exec_DEPTH :: "stack \<Rightarrow> stack script_result" where
  "exec_DEPTH s = Inr (scriptnum_serialize (int (length s)) # s)"

definition exec_DROP :: "stack \<Rightarrow> stack script_result" where
  "exec_DROP s = (case s of _ # r \<Rightarrow> Inr r | _ \<Rightarrow> stack_error)"

definition exec_DUP :: "stack \<Rightarrow> stack script_result" where
  "exec_DUP s = (case s of x # _ \<Rightarrow> Inr (x # s) | _ \<Rightarrow> stack_error)"

definition exec_NIP :: "stack \<Rightarrow> stack script_result" where
  "exec_NIP s = (case s of x2 # _ # r \<Rightarrow> Inr (x2 # r) | _ \<Rightarrow> stack_error)"

definition exec_OVER :: "stack \<Rightarrow> stack script_result" where
  "exec_OVER s = (case s of _ # x1 # _ \<Rightarrow> Inr (x1 # s) | _ \<Rightarrow> stack_error)"

definition exec_PICK_ROLL :: "u8 \<Rightarrow> bool \<Rightarrow> stack \<Rightarrow> stack script_result" where
  "exec_PICK_ROLL opcode fRequireMinimal s =
     (if length s < 2 then stack_error
      else with_num (hd s) fRequireMinimal nDefaultMaxNumSize (\<lambda>bn.
        let n = getint bn; s = tl s
        in if n < 0 \<or> n \<ge> int (length s) then stack_error
           else let v = s ! nat n
                in Inr (v # (if opcode = OP_ROLL then take (nat n) s @ drop (nat n + 1) s else s))))"

definition exec_ROT :: "stack \<Rightarrow> stack script_result" where
  "exec_ROT s = (case s of x3 # x2 # x1 # r \<Rightarrow> Inr (x1 # x3 # x2 # r) | _ \<Rightarrow> stack_error)"

definition exec_SWAP :: "stack \<Rightarrow> stack script_result" where
  "exec_SWAP s = (case s of x2 # x1 # r \<Rightarrow> Inr (x1 # x2 # r) | _ \<Rightarrow> stack_error)"

definition exec_TUCK :: "stack \<Rightarrow> stack script_result" where
  "exec_TUCK s = (case s of x2 # x1 # r \<Rightarrow> Inr (x2 # x1 # x2 # r) | _ \<Rightarrow> stack_error)"

definition exec_SIZE :: "stack \<Rightarrow> stack script_result" where
  "exec_SIZE s = (case s of x # _ \<Rightarrow> Inr (scriptnum_serialize (int (length x)) # s) | _ \<Rightarrow> stack_error)"

definition exec_EQUAL :: "u8 \<Rightarrow> stack \<Rightarrow> stack script_result" where
  "exec_EQUAL opcode s =
     (case s of
        x2 # x1 # r \<Rightarrow>
          let fEqual = (x1 = x2)
          in if opcode = OP_EQUALVERIFY then (if fEqual then Inr r else set_error SCRIPT_ERR_EQUALVERIFY)
             else Inr (of_bool_val fEqual # r)
      | _ \<Rightarrow> stack_error)"

definition exec_BITWISE :: "u8 \<Rightarrow> stack \<Rightarrow> stack script_result" where
  "exec_BITWISE opcode s =
     (case s of
        x2 # x1 # r \<Rightarrow>
          if length x1 \<noteq> length x2 then set_error SCRIPT_ERR_INVALID_OPERAND_SIZE
          else Inr ((if opcode = OP_AND then map2 (AND) x1 x2
                     else if opcode = OP_OR then map2 (OR) x1 x2
                     else if opcode = OP_XOR then map2 (XOR) x1 x2 else x1) # r)
      | _ \<Rightarrow> stack_error)"

definition exec_UNARY :: "u8 \<Rightarrow> bool \<Rightarrow> stack \<Rightarrow> stack script_result" where
  "exec_UNARY opcode fRequireMinimal s =
     (case s of
        x # r \<Rightarrow>
          with_num x fRequireMinimal nDefaultMaxNumSize (\<lambda>bn.
            with_i64
              (if opcode = OP_1ADD then bn + 1
               else if opcode = OP_1SUB then bn - 1
               else if opcode = OP_NEGATE then - bn
               else if opcode = OP_ABS then (if bn < 0 then - bn else bn)
               else if opcode = OP_NOT then of_bool (bn = 0)
               else of_bool (bn \<noteq> 0))
              (\<lambda>bn. Inr (scriptnum_serialize bn # r)))
      | _ \<Rightarrow> stack_error)"

definition exec_BINARY :: "u8 \<Rightarrow> bool \<Rightarrow> stack \<Rightarrow> stack script_result" where
  "exec_BINARY opcode fRequireMinimal s =
     (case s of
        x2 # x1 # r \<Rightarrow>
          with_num x1 fRequireMinimal nDefaultMaxNumSize (\<lambda>bn1.
          with_num x2 fRequireMinimal nDefaultMaxNumSize (\<lambda>bn2.
            if opcode = OP_DIV \<and> bn2 = 0 then set_error SCRIPT_ERR_DIV_BY_ZERO
            else if opcode = OP_MOD \<and> bn2 = 0 then set_error SCRIPT_ERR_MOD_BY_ZERO
            else with_i64
              (if opcode = OP_ADD then bn1 + bn2
               else if opcode = OP_SUB then bn1 - bn2
               else if opcode = OP_DIV then bn1 sdiv bn2
               else if opcode = OP_MOD then bn1 smod bn2
               else if opcode = OP_BOOLAND then of_bool (bn1 \<noteq> 0 \<and> bn2 \<noteq> 0)
               else if opcode = OP_BOOLOR then of_bool (bn1 \<noteq> 0 \<or> bn2 \<noteq> 0)
               else if opcode = OP_NUMEQUAL then of_bool (bn1 = bn2)
               else if opcode = OP_NUMEQUALVERIFY then of_bool (bn1 = bn2)
               else if opcode = OP_NUMNOTEQUAL then of_bool (bn1 \<noteq> bn2)
               else if opcode = OP_LESSTHAN then of_bool (bn1 < bn2)
               else if opcode = OP_GREATERTHAN then of_bool (bn1 > bn2)
               else if opcode = OP_LESSTHANOREQUAL then of_bool (bn1 \<le> bn2)
               else if opcode = OP_GREATERTHANOREQUAL then of_bool (bn1 \<ge> bn2)
               else if opcode = OP_MIN then (if bn1 < bn2 then bn1 else bn2)
               else (if bn1 > bn2 then bn1 else bn2))
              (\<lambda>bn.
                let v = scriptnum_serialize bn
                in if opcode = OP_NUMEQUALVERIFY
                   then (if CastToBool v then Inr r else set_error SCRIPT_ERR_NUMEQUALVERIFY)
                   else Inr (v # r))))
      | _ \<Rightarrow> stack_error)"

definition exec_WITHIN :: "bool \<Rightarrow> stack \<Rightarrow> stack script_result" where
  "exec_WITHIN fRequireMinimal s =
     (case s of
        x3 # x2 # x1 # r \<Rightarrow>
          with_num x1 fRequireMinimal nDefaultMaxNumSize (\<lambda>bn1.
          with_num x2 fRequireMinimal nDefaultMaxNumSize (\<lambda>bn2.
          with_num x3 fRequireMinimal nDefaultMaxNumSize (\<lambda>bn3.
            Inr (of_bool_val (bn2 \<le> bn1 \<and> bn1 < bn3) # r))))
      | _ \<Rightarrow> stack_error)"

definition exec_HASH :: "script_crypto \<Rightarrow> u8 \<Rightarrow> stack \<Rightarrow> stack script_result" where
  "exec_HASH cr opcode s =
     (case s of
        x # r \<Rightarrow>
          Inr ((if opcode = OP_RIPEMD160 then c_RIPEMD160 cr
                else if opcode = OP_SHA1 then c_SHA1 cr
                else if opcode = OP_SHA256 then c_SHA256 cr
                else if opcode = OP_HASH160 then c_HASH160 cr
                else c_HASH256 cr) x # r)
      | _ \<Rightarrow> stack_error)"

definition exec_CHECKSIG ::
  "script_crypto \<Rightarrow> signature_checker \<Rightarrow> u32 \<Rightarrow> bytes \<Rightarrow> u8 \<Rightarrow> stack \<Rightarrow> stack script_result" where
  "exec_CHECKSIG cr checker flags pbegincodehash opcode s =
     (case s of
        vchPubKey # vchSig # r \<Rightarrow>
          (case EvalChecksig cr checker flags pbegincodehash vchSig vchPubKey of
             Inl e \<Rightarrow> Inl e
           | Inr fSuccess \<Rightarrow>
               if opcode = OP_CHECKSIGVERIFY
               then (if fSuccess then Inr r else set_error SCRIPT_ERR_CHECKSIGVERIFY)
               else Inr (of_bool_val fSuccess # r))
      | _ \<Rightarrow> stack_error)"

definition exec_CHECKDATASIG :: "script_crypto \<Rightarrow> u32 \<Rightarrow> u8 \<Rightarrow> stack \<Rightarrow> stack script_result" where
  "exec_CHECKDATASIG cr flags opcode s =
     (case s of
        vchPubKey # vchMessage # vchSig # r \<Rightarrow>
          (case check_encodings cr flags vchSig vchPubKey of
             Inl e \<Rightarrow> Inl e
           | Inr _ \<Rightarrow>
               let fSuccess = (length vchSig \<noteq> 0 \<and> c_Verify cr (CPubKey_Set vchPubKey) (c_SHA256 cr vchMessage) vchSig)
               in if \<not> fSuccess \<and> flags AND SCRIPT_VERIFY_NULLFAIL \<noteq> 0 \<and> length vchSig \<noteq> 0
                  then set_error SCRIPT_ERR_SIG_NULLFAIL
                  else if opcode = OP_CHECKDATASIGVERIFY
                  then (if fSuccess then Inr r else set_error SCRIPT_ERR_CHECKDATASIGVERIFY)
                  else Inr (of_bool_val fSuccess # r))
      | _ \<Rightarrow> stack_error)"

text \<open>
  \<open>OP_CHECKMULTISIG\<close>: dropping the signatures from the script, the loop that pairs signatures with keys, which never
  has more signatures than keys left, and the loop that clears the arguments from the stack.
\<close>

primrec delete_signatures :: "u32 \<Rightarrow> valtype list \<Rightarrow> bytes \<Rightarrow> bytes script_result" where
  "delete_signatures flags [] scriptCode = Inr scriptCode"
| "delete_signatures flags (vchSig # sigs) scriptCode =
     (let (found, scriptCode) = FindAndDelete scriptCode (push_data vchSig)
      in if found > 0 \<and> flags AND SCRIPT_VERIFY_CONST_SCRIPTCODE \<noteq> 0 then set_error SCRIPT_ERR_SIG_FINDANDDELETE
         else delete_signatures flags sigs scriptCode)"

primrec multisig_loop ::
  "script_crypto \<Rightarrow> signature_checker \<Rightarrow> u32 \<Rightarrow> bytes \<Rightarrow> stack \<Rightarrow> nat \<Rightarrow> nat \<Rightarrow> nat \<Rightarrow> nat \<Rightarrow> bool script_result"
where
  "multisig_loop cr checker flags scriptCode s isig ikey nSigsCount 0 = Inr (nSigsCount = 0)"
| "multisig_loop cr checker flags scriptCode s isig ikey nSigsCount (Suc nKeysCount) =
     (if nSigsCount = 0 then Inr True
      else
        let vchSig = s ! (isig - 1); vchPubKey = s ! (ikey - 1)
        in case check_encodings cr flags vchSig vchPubKey of
             Inl e \<Rightarrow> Inl e
           | Inr _ \<Rightarrow>
               let fOk = k_CheckSig checker vchSig vchPubKey scriptCode;
                   (isig, nSigsCount) = (if fOk then (isig + 1, nSigsCount - 1) else (isig, nSigsCount))
               in if nSigsCount > nKeysCount then Inr False
                  else multisig_loop cr checker flags scriptCode s isig (ikey + 1) nSigsCount nKeysCount)"

primrec multisig_cleanup :: "u32 \<Rightarrow> bool \<Rightarrow> nat \<Rightarrow> nat \<Rightarrow> stack \<Rightarrow> stack script_result" where
  "multisig_cleanup flags fSuccess 0 ikey2 s = Inr s"
| "multisig_cleanup flags fSuccess (Suc i) ikey2 s =
     (if \<not> fSuccess \<and> flags AND SCRIPT_VERIFY_NULLFAIL \<noteq> 0 \<and> ikey2 = 0 \<and> length (hd s) \<noteq> 0
      then set_error SCRIPT_ERR_SIG_NULLFAIL
      else multisig_cleanup flags fSuccess i (ikey2 - 1) (tl s))"

text \<open>From the number of keys \<open>nKeysCount\<close> on.\<close>

definition multisig_args ::
  "script_crypto \<Rightarrow> signature_checker \<Rightarrow> u32 \<Rightarrow> bytes \<Rightarrow> bool \<Rightarrow> u8 \<Rightarrow> nat \<Rightarrow> stack \<Rightarrow> stack script_result" where
  "multisig_args cr checker flags pbegincodehash fRequireMinimal opcode nKeysCount s =
     (let i = 2 + nKeysCount
      in if length s < i then stack_error
         else with_num (s ! (i - 1)) fRequireMinimal nDefaultMaxNumSize (\<lambda>bn.
           let nSigsCount = getint bn
           in if nSigsCount < 0 \<or> nSigsCount > int nKeysCount then set_error SCRIPT_ERR_SIG_COUNT
              else
                let nSigsCount = nat nSigsCount; isig = i + 1; i = i + 1 + nSigsCount
                in if length s < i then stack_error
                   else case delete_signatures flags (take nSigsCount (drop (isig - 1) s)) pbegincodehash of
                     Inl e \<Rightarrow> Inl e
                   | Inr scriptCode \<Rightarrow>
                   (case multisig_loop cr checker flags scriptCode s isig 2 nSigsCount nKeysCount of
                     Inl e \<Rightarrow> Inl e
                   | Inr fSuccess \<Rightarrow>
                   (case multisig_cleanup flags fSuccess (i - 1) (nKeysCount + 2) s of
                     Inl e \<Rightarrow> Inl e
                   | Inr s \<Rightarrow>
                     if length s < 1 then stack_error
                     else if flags AND SCRIPT_VERIFY_NULLDUMMY \<noteq> 0 \<and> length (hd s) \<noteq> 0 then set_error SCRIPT_ERR_SIG_NULLDUMMY
                     else if opcode = OP_CHECKMULTISIGVERIFY
                     then (if fSuccess then Inr (tl s) else set_error SCRIPT_ERR_CHECKMULTISIGVERIFY)
                     else Inr (of_bool_val fSuccess # tl s)))))"

definition exec_CHECKMULTISIG ::
  "script_crypto \<Rightarrow> signature_checker \<Rightarrow> u32 \<Rightarrow> bytes \<Rightarrow> bool \<Rightarrow> u8 \<Rightarrow> nat \<Rightarrow> stack \<Rightarrow> (nat \<times> stack) script_result" where
  "exec_CHECKMULTISIG cr checker flags pbegincodehash fRequireMinimal opcode nOpCount s =
     (if length s < 1 then stack_error
      else with_num (hd s) fRequireMinimal nDefaultMaxNumSize (\<lambda>bn.
        let nKeysCount = getint bn
        in if nKeysCount < 0 \<or> nKeysCount > int MAX_PUBKEYS_PER_MULTISIG then set_error SCRIPT_ERR_PUBKEY_COUNT
           else
             let nOpCount = nOpCount + nat nKeysCount
             in if nOpCount > MAX_OPS_PER_SCRIPT then set_error SCRIPT_ERR_OP_COUNT
                else case multisig_args cr checker flags pbegincodehash fRequireMinimal opcode (nat nKeysCount) s of
                       Inl e \<Rightarrow> Inl e
                     | Inr s \<Rightarrow> Inr (nOpCount, s)))"

definition exec_CAT :: "stack \<Rightarrow> stack script_result" where
  "exec_CAT s =
     (case s of
        x2 # x1 # r \<Rightarrow>
          if length x1 + length x2 > MAX_SCRIPT_ELEMENT_SIZE then set_error SCRIPT_ERR_PUSH_SIZE
          else Inr ((x1 @ x2) # r)
      | _ \<Rightarrow> stack_error)"

definition exec_SPLIT :: "bool \<Rightarrow> stack \<Rightarrow> stack script_result" where
  "exec_SPLIT fRequireMinimal s =
     (case s of
        p # x # r \<Rightarrow>
          with_num p fRequireMinimal nDefaultMaxNumSize (\<lambda>bn.
            let nPosition = getint bn
            in if nPosition < 0 \<or> nPosition > int (length x) then set_error SCRIPT_ERR_INVALID_SPLIT_RANGE
               else if nPosition = 0 then Inr (x # [] # r)
               else if nPosition = int (length x) then Inr ([] # x # r)
               else Inr (drop (nat nPosition) x # take (nat nPosition) x # r))
      | _ \<Rightarrow> stack_error)"

text \<open>A negative size is a large one after its conversion to an unsigned integer.\<close>

definition exec_NUM2BIN :: "bool \<Rightarrow> stack \<Rightarrow> stack script_result" where
  "exec_NUM2BIN fRequireMinimal s =
     (case s of
        n # x # r \<Rightarrow>
          with_num n fRequireMinimal nDefaultMaxNumSize (\<lambda>bn.
            let n = unat (word_of_int (getint bn) :: u64)
            in if n > MAX_SCRIPT_ELEMENT_SIZE then set_error SCRIPT_ERR_PUSH_SIZE
               else
                 let rawnum = snd (MinimallyEncode x)
                 in if length rawnum > n then set_error SCRIPT_ERR_IMPOSSIBLE_ENCODING
                    else if length rawnum = n then Inr (rawnum # r)
                    else
                      let signbit = (if length rawnum > 0 then last rawnum AND 0x80 else 0);
                          rawnum = (if length rawnum > 0 then butlast rawnum @ [last rawnum AND 0x7f] else rawnum)
                      in Inr ((rawnum @ replicate (n - 1 - length rawnum) 0 @ [signbit]) # r))
      | _ \<Rightarrow> stack_error)"

definition exec_BIN2NUM :: "stack \<Rightarrow> stack script_result" where
  "exec_BIN2NUM s =
     (case s of
        x # r \<Rightarrow>
          let n = snd (MinimallyEncode x)
          in if \<not> IsMinimallyEncoded n nDefaultMaxNumSize then set_error SCRIPT_ERR_INVALID_NUMBER_RANGE else Inr (n # r)
      | _ \<Rightarrow> stack_error)"

section \<open>The machine\<close>

record script_state =
  st_stack :: stack
  st_altstack :: stack
  st_vfExec :: ConditionStack
  st_pbegincodehash :: bytes
  st_nOpCount :: nat

definition on_stack :: "script_state \<Rightarrow> stack script_result \<Rightarrow> script_state script_result" where
  "on_stack st r = (case r of Inl e \<Rightarrow> Inl e | Inr s \<Rightarrow> Inr (st\<lparr>st_stack := s\<rparr>))"

definition exec_TOALTSTACK :: "script_state \<Rightarrow> script_state script_result" where
  "exec_TOALTSTACK st =
     (case st_stack st of
        x # r \<Rightarrow> Inr (st\<lparr>st_stack := r, st_altstack := x # st_altstack st\<rparr>)
      | _ \<Rightarrow> stack_error)"

definition exec_FROMALTSTACK :: "script_state \<Rightarrow> script_state script_result" where
  "exec_FROMALTSTACK st =
     (case st_altstack st of
        x # r \<Rightarrow> Inr (st\<lparr>st_stack := x # st_stack st, st_altstack := r\<rparr>)
      | _ \<Rightarrow> set_error SCRIPT_ERR_INVALID_ALTSTACK_OPERATION)"

definition exec_IF :: "u8 \<Rightarrow> bool \<Rightarrow> script_state \<Rightarrow> script_state script_result" where
  "exec_IF opcode fExec st =
     (if fExec then
        (case st_stack st of
           x # r \<Rightarrow>
             let fValue = (if opcode = OP_NOTIF then \<not> CastToBool x else CastToBool x)
             in Inr (st\<lparr>st_stack := r, st_vfExec := cond_push_back fValue (st_vfExec st)\<rparr>)
         | _ \<Rightarrow> set_error SCRIPT_ERR_UNBALANCED_CONDITIONAL)
      else Inr (st\<lparr>st_vfExec := cond_push_back False (st_vfExec st)\<rparr>))"

definition exec_ELSE :: "script_state \<Rightarrow> script_state script_result" where
  "exec_ELSE st =
     (if cond_empty (st_vfExec st) then set_error SCRIPT_ERR_UNBALANCED_CONDITIONAL
      else case cond_toggle_top (st_vfExec st) of
        Inl e \<Rightarrow> Inl e
      | Inr c \<Rightarrow> Inr (st\<lparr>st_vfExec := c\<rparr>))"

definition exec_ENDIF :: "script_state \<Rightarrow> script_state script_result" where
  "exec_ENDIF st =
     (if cond_empty (st_vfExec st) then set_error SCRIPT_ERR_UNBALANCED_CONDITIONAL
      else case cond_pop_back (st_vfExec st) of
        Inl e \<Rightarrow> Inl e
      | Inr c \<Rightarrow> Inr (st\<lparr>st_vfExec := c\<rparr>))"

text \<open>The switch over the opcode; \<open>pc\<close> is the rest of the script.\<close>

definition exec_opcode ::
  "script_crypto \<Rightarrow> signature_checker \<Rightarrow> u32 \<Rightarrow> bool \<Rightarrow> bool \<Rightarrow> u8 \<Rightarrow> bytes \<Rightarrow> script_state \<Rightarrow> script_state script_result" where
  "exec_opcode cr checker flags fRequireMinimal fExec opcode pc st =
     (let s = st_stack st
      in if opcode = OP_1NEGATE \<or> opcode \<ge> OP_1 \<and> opcode \<le> OP_16 then on_stack st (exec_push_int opcode s)
         else if opcode = OP_NOP then Inr st
         else if opcode = OP_CHECKLOCKTIMEVERIFY then on_stack st (exec_CHECKLOCKTIMEVERIFY checker flags fRequireMinimal s)
         else if opcode = OP_CHECKSEQUENCEVERIFY then on_stack st (exec_CHECKSEQUENCEVERIFY checker flags fRequireMinimal s)
         else if opcode = OP_NOP1 \<or> opcode \<ge> OP_NOP4 \<and> opcode \<le> OP_NOP10 then on_stack st (exec_NOPs flags s)
         else if opcode = OP_IF \<or> opcode = OP_NOTIF then exec_IF opcode fExec st
         else if opcode = OP_ELSE then exec_ELSE st
         else if opcode = OP_ENDIF then exec_ENDIF st
         else if opcode = OP_VERIFY then on_stack st (exec_VERIFY s)
         else if opcode = OP_RETURN then set_error SCRIPT_ERR_OP_RETURN
         else if opcode = OP_TOALTSTACK then exec_TOALTSTACK st
         else if opcode = OP_FROMALTSTACK then exec_FROMALTSTACK st
         else if opcode = OP_2DROP then on_stack st (exec_2DROP s)
         else if opcode = OP_2DUP then on_stack st (exec_2DUP s)
         else if opcode = OP_3DUP then on_stack st (exec_3DUP s)
         else if opcode = OP_2OVER then on_stack st (exec_2OVER s)
         else if opcode = OP_2ROT then on_stack st (exec_2ROT s)
         else if opcode = OP_2SWAP then on_stack st (exec_2SWAP s)
         else if opcode = OP_IFDUP then on_stack st (exec_IFDUP s)
         else if opcode = OP_DEPTH then on_stack st (exec_DEPTH s)
         else if opcode = OP_DROP then on_stack st (exec_DROP s)
         else if opcode = OP_DUP then on_stack st (exec_DUP s)
         else if opcode = OP_NIP then on_stack st (exec_NIP s)
         else if opcode = OP_OVER then on_stack st (exec_OVER s)
         else if opcode = OP_PICK \<or> opcode = OP_ROLL then on_stack st (exec_PICK_ROLL opcode fRequireMinimal s)
         else if opcode = OP_ROT then on_stack st (exec_ROT s)
         else if opcode = OP_SWAP then on_stack st (exec_SWAP s)
         else if opcode = OP_TUCK then on_stack st (exec_TUCK s)
         else if opcode = OP_SIZE then on_stack st (exec_SIZE s)
         else if opcode = OP_EQUAL \<or> opcode = OP_EQUALVERIFY then on_stack st (exec_EQUAL opcode s)
         else if opcode \<in> {OP_AND, OP_OR, OP_XOR} then on_stack st (exec_BITWISE opcode s)
         else if opcode \<in> {OP_1ADD, OP_1SUB, OP_NEGATE, OP_ABS, OP_NOT, OP_0NOTEQUAL}
         then on_stack st (exec_UNARY opcode fRequireMinimal s)
         else if opcode \<in> {OP_ADD, OP_SUB, OP_DIV, OP_MOD, OP_BOOLAND, OP_BOOLOR, OP_NUMEQUAL, OP_NUMEQUALVERIFY,
           OP_NUMNOTEQUAL, OP_LESSTHAN, OP_GREATERTHAN, OP_LESSTHANOREQUAL, OP_GREATERTHANOREQUAL, OP_MIN, OP_MAX}
         then on_stack st (exec_BINARY opcode fRequireMinimal s)
         else if opcode = OP_WITHIN then on_stack st (exec_WITHIN fRequireMinimal s)
         else if opcode \<in> {OP_RIPEMD160, OP_SHA1, OP_SHA256, OP_HASH160, OP_HASH256} then on_stack st (exec_HASH cr opcode s)
         else if opcode = OP_CODESEPARATOR then Inr (st\<lparr>st_pbegincodehash := pc\<rparr>)
         else if opcode = OP_CHECKSIG \<or> opcode = OP_CHECKSIGVERIFY
         then on_stack st (exec_CHECKSIG cr checker flags (st_pbegincodehash st) opcode s)
         else if opcode = OP_CHECKDATASIG \<or> opcode = OP_CHECKDATASIGVERIFY then on_stack st (exec_CHECKDATASIG cr flags opcode s)
         else if opcode = OP_CHECKMULTISIG \<or> opcode = OP_CHECKMULTISIGVERIFY then
           (case exec_CHECKMULTISIG cr checker flags (st_pbegincodehash st) fRequireMinimal opcode (st_nOpCount st) s of
              Inl e \<Rightarrow> Inl e
            | Inr (nOpCount, s) \<Rightarrow> Inr (st\<lparr>st_stack := s, st_nOpCount := nOpCount\<rparr>))
         else if opcode = OP_CAT then on_stack st (exec_CAT s)
         else if opcode = OP_SPLIT then on_stack st (exec_SPLIT fRequireMinimal s)
         else if opcode = OP_NUM2BIN then on_stack st (exec_NUM2BIN fRequireMinimal s)
         else if opcode = OP_BIN2NUM then on_stack st (exec_BIN2NUM s)
         else set_error SCRIPT_ERR_BAD_OPCODE)"

text \<open>One iteration, after the operation was read.\<close>

definition exec_step ::
  "script_crypto \<Rightarrow> signature_checker \<Rightarrow> u32 \<Rightarrow> u8 \<Rightarrow> valtype \<Rightarrow> bytes \<Rightarrow> script_state \<Rightarrow> script_state script_result" where
  "exec_step cr checker flags opcode vchPushValue pc st =
     (let fExec = cond_all_true (st_vfExec st);
          fRequireMinimal = (flags AND SCRIPT_VERIFY_MINIMALDATA \<noteq> 0)
      in if length vchPushValue > MAX_SCRIPT_ELEMENT_SIZE then set_error SCRIPT_ERR_PUSH_SIZE
         else
           let st = (if opcode > OP_16 then st\<lparr>st_nOpCount := st_nOpCount st + 1\<rparr> else st)
           in if opcode > OP_16 \<and> st_nOpCount st > MAX_OPS_PER_SCRIPT then set_error SCRIPT_ERR_OP_COUNT
              else if opcode \<in> {OP_INVERT, OP_2MUL, OP_2DIV, OP_MUL, OP_LSHIFT, OP_RSHIFT}
              then set_error SCRIPT_ERR_DISABLED_OPCODE
              else if opcode = OP_CODESEPARATOR \<and> flags AND SCRIPT_VERIFY_CONST_SCRIPTCODE \<noteq> 0
              then set_error SCRIPT_ERR_OP_CODESEPARATOR
              else case
                (if fExec \<and> opcode \<le> OP_PUSHDATA4 then
                   (if fRequireMinimal \<and> \<not> CheckMinimalPush vchPushValue opcode then set_error SCRIPT_ERR_MINIMALDATA
                    else Inr (st\<lparr>st_stack := vchPushValue # st_stack st\<rparr>))
                 else if fExec \<or> OP_IF \<le> opcode \<and> opcode \<le> OP_ENDIF
                 then exec_opcode cr checker flags fRequireMinimal fExec opcode pc st
                 else Inr st) of
                Inl e \<Rightarrow> Inl e
              | Inr st \<Rightarrow>
                  if length (st_stack st) + length (st_altstack st) > MAX_STACK_SIZE then set_error SCRIPT_ERR_STACK_SIZE
                  else Inr st)"

function eval_loop ::
  "script_crypto \<Rightarrow> signature_checker \<Rightarrow> u32 \<Rightarrow> bytes \<Rightarrow> script_state \<Rightarrow> script_state script_result" where
  "eval_loop cr checker flags pc st =
     (if pc = [] then Inr st
      else case GetScriptOp pc of
        None \<Rightarrow> set_error SCRIPT_ERR_BAD_OPCODE
      | Some (opcode, vchPushValue, rest) \<Rightarrow>
          (case exec_step cr checker flags opcode vchPushValue rest st of
             Inl e \<Rightarrow> Inl e
           | Inr st \<Rightarrow> eval_loop cr checker flags rest st))"
  by pat_completeness auto
termination by (relation "measure (\<lambda>(cr, k, f, pc, st). length pc)") (auto dest: GetScriptOp_less)

declare eval_loop.simps [simp del]

definition EvalScript ::
  "script_crypto \<Rightarrow> signature_checker \<Rightarrow> u32 \<Rightarrow> bytes \<Rightarrow> stack \<Rightarrow> stack script_result" where
  "EvalScript cr checker flags script s =
     (if length script > MAX_SCRIPT_SIZE then set_error SCRIPT_ERR_SCRIPT_SIZE
      else case eval_loop cr checker flags script
          \<lparr>st_stack = s, st_altstack = [], st_vfExec = cond_init, st_pbegincodehash = script, st_nOpCount = 0\<rparr> of
        Inl e \<Rightarrow> Inl e
      | Inr st \<Rightarrow>
          if \<not> cond_empty (st_vfExec st) then set_error SCRIPT_ERR_UNBALANCED_CONDITIONAL else Inr (st_stack st))"

text \<open>The result of the evaluation of the last script, as \<open>VerifyScript\<close> tests it.\<close>

definition check_top :: "stack \<Rightarrow> stack script_result" where
  "check_top s =
     (if s = [] then set_error SCRIPT_ERR_EVAL_FALSE
      else if \<not> CastToBool (hd s) then set_error SCRIPT_ERR_EVAL_FALSE else Inr s)"

definition verify_p2sh ::
  "script_crypto \<Rightarrow> signature_checker \<Rightarrow> u32 \<Rightarrow> bytes \<Rightarrow> stack \<Rightarrow> stack script_result" where
  "verify_p2sh cr checker flags sig stackCopy =
     (if \<not> IsPushOnly sig then set_error SCRIPT_ERR_SIG_PUSHONLY
      else case stackCopy of
        [] \<Rightarrow> Inl ScriptAbort
      | pubKey2 # s \<Rightarrow>
          (case EvalScript cr checker flags pubKey2 s of Inl e \<Rightarrow> Inl e | Inr s \<Rightarrow> check_top s))"

definition VerifyScript ::
  "script_crypto \<Rightarrow> signature_checker \<Rightarrow> u32 \<Rightarrow> bytes \<Rightarrow> bytes \<Rightarrow> unit script_result" where
  "VerifyScript cr checker flags sig script =
     (if flags AND SCRIPT_VERIFY_SIGPUSHONLY \<noteq> 0 \<and> \<not> IsPushOnly sig then set_error SCRIPT_ERR_SIG_PUSHONLY
      else case EvalScript cr checker flags sig [] of Inl e \<Rightarrow> Inl e
      | Inr stackCopy \<Rightarrow>
      (case EvalScript cr checker flags script stackCopy of Inl e \<Rightarrow> Inl e
      | Inr s \<Rightarrow>
      (case check_top s of Inl e \<Rightarrow> Inl e
      | Inr s \<Rightarrow>
      (case (if flags AND SCRIPT_VERIFY_P2SH \<noteq> 0 \<and> IsPayToScriptHash script
             then verify_p2sh cr checker flags sig stackCopy else Inr s) of Inl e \<Rightarrow> Inl e
      | Inr s \<Rightarrow>
        if flags AND SCRIPT_VERIFY_CLEANSTACK \<noteq> 0 then
          (if flags AND SCRIPT_VERIFY_P2SH = 0 then Inl ScriptAbort
           else if length s \<noteq> 1 then set_error SCRIPT_ERR_CLEANSTACK else Inr ())
        else Inr ()))))"

section \<open>The checker of a transaction\<close>

definition CheckLockTime :: "CTransaction \<Rightarrow> nat \<Rightarrow> CScriptNum \<Rightarrow> bool" where
  "CheckLockTime txTo nIn n =
     (let lock = uint (nLockTime txTo)
      in if \<not> (lock < LOCKTIME_THRESHOLD \<and> n < LOCKTIME_THRESHOLD \<or> lock \<ge> LOCKTIME_THRESHOLD \<and> n \<ge> LOCKTIME_THRESHOLD)
         then False
         else if n > lock then False
         else if nSequence (vin txTo ! nIn) = SEQUENCE_FINAL then False
         else True)"

definition CheckSequence :: "CTransaction \<Rightarrow> nat \<Rightarrow> CScriptNum \<Rightarrow> bool" where
  "CheckSequence txTo nIn n =
     (let txToSequence = uint (nSequence (vin txTo ! nIn))
      in if (word_of_int (nVersion txTo) :: u32) < 2 then False
         else if txToSequence AND uint SEQUENCE_LOCKTIME_DISABLE_FLAG \<noteq> 0 then False
         else
           let nLockTimeMask = uint (SEQUENCE_LOCKTIME_TYPE_FLAG OR SEQUENCE_LOCKTIME_MASK);
               txToSequenceMasked = txToSequence AND nLockTimeMask;
               nSequenceMasked = n AND nLockTimeMask
           in if \<not> (txToSequenceMasked < uint SEQUENCE_LOCKTIME_TYPE_FLAG \<and> nSequenceMasked < uint SEQUENCE_LOCKTIME_TYPE_FLAG
                   \<or> txToSequenceMasked \<ge> uint SEQUENCE_LOCKTIME_TYPE_FLAG \<and> nSequenceMasked \<ge> uint SEQUENCE_LOCKTIME_TYPE_FLAG)
              then False
              else if nSequenceMasked > txToSequenceMasked then False else True)"

text \<open>The hash that is signed is an argument, a function of the script and of the type of the hash.\<close>

definition CheckSig :: "script_crypto \<Rightarrow> (bytes \<Rightarrow> u8 \<Rightarrow> bytes) \<Rightarrow> bytes \<Rightarrow> bytes \<Rightarrow> bytes \<Rightarrow> bool" where
  "CheckSig cr SignatureHash vchSigIn vchPubKey scriptCode =
     (let pubkey = CPubKey_Set vchPubKey
      in if \<not> CPubKey_IsValid pubkey then False
         else if vchSigIn = [] then False
         else c_Verify cr pubkey (SignatureHash scriptCode (last vchSigIn)) (butlast vchSigIn))"

definition tx_checker :: "script_crypto \<Rightarrow> (bytes \<Rightarrow> u8 \<Rightarrow> bytes) \<Rightarrow> CTransaction \<Rightarrow> nat \<Rightarrow> signature_checker" where
  "tx_checker cr SignatureHash txTo nIn =
     \<lparr>k_CheckSig = CheckSig cr SignatureHash, k_CheckLockTime = CheckLockTime txTo nIn,
      k_CheckSequence = CheckSequence txTo nIn\<rparr>"

end
