(* ===== verification/ScriptFlags.thy ===== *)
theory ScriptFlags
  imports Interpreter
begin

text \<open>
  Verification flags are soft forks: a script that is accepted under some flags is accepted, with the same stack, under
  fewer of them.
\<close>

section \<open>Accepting as much\<close>

text \<open>\<open>r'\<close> accepts what \<open>r\<close> accepts, with the same result.\<close>

definition refines :: "'a script_result \<Rightarrow> 'a script_result \<Rightarrow> bool" where
  "refines r' r \<longleftrightarrow> (\<forall>x. r = Inr x \<longrightarrow> r' = Inr x)"

named_theorems refines_intros

lemma refines_refl [refines_intros]: "refines r r"
  by (simp add: refines_def)

lemma refines_error [refines_intros]: "refines r (set_error e)" "refines r stack_error" "refines r (Inl f)"
  by (simp_all add: refines_def stack_error_def set_error_def)

lemma refines_if: "refines a' a \<Longrightarrow> refines b' b \<Longrightarrow> refines (if c then a' else b') (if c then a else b)"
  by simp

text \<open>A test that ends in an error and is made less often.\<close>

lemma refines_guard: "(c' \<Longrightarrow> c) \<Longrightarrow> refines b' b \<Longrightarrow> refines (if c' then set_error e else b') (if c then set_error e else b)"
  by (simp add: refines_def set_error_def)

lemma refines_guard_unit:
  "(c' \<Longrightarrow> c) \<Longrightarrow> refines b' b \<Longrightarrow>
    refines (if c' \<and> a \<noteq> Inr () then a else b') (if c \<and> a \<noteq> Inr () then a else b)"
  by (cases a) (auto simp: refines_def)

lemma refines_case:
  "refines a' a \<Longrightarrow> (\<And>x. refines (f' x) (f x)) \<Longrightarrow>
    refines (case a' of Inl e \<Rightarrow> Inl e | Inr x \<Rightarrow> f' x) (case a of Inl e \<Rightarrow> Inl e | Inr x \<Rightarrow> f x)"
  by (auto simp: refines_def split: sum.splits)

lemma refines_with_num:
  "(m' \<Longrightarrow> m) \<Longrightarrow> (\<And>x. refines (f' x) (f x)) \<Longrightarrow> refines (with_num v m' n f') (with_num v m n f)"
  by (auto simp: refines_def with_num_def scriptnum_read_def set_error_def)

lemma refines_with_i64: "(\<And>x. refines (f' x) (f x)) \<Longrightarrow> refines (with_i64 v f') (with_i64 v f)"
  by (auto simp: refines_def with_i64_def split: option.splits)

lemma refines_on_stack: "refines r' r \<Longrightarrow> refines (on_stack st r') (on_stack st r)"
  by (auto simp: refines_def on_stack_def split: sum.splits)

section \<open>Fewer flags\<close>

locale fewer_flags =
  fixes flags' flags :: u32
  assumes fewer: "flags' AND flags = flags'"
begin

lemma flag: "flags' AND x \<noteq> 0 \<Longrightarrow> flags AND x \<noteq> 0"
proof
  assume x: "flags' AND x \<noteq> 0" and "flags AND x = 0"
  have "flags' AND x = flags' AND (flags AND x)" unfolding and.assoc [symmetric] fewer ..
  then show False using x \<open>flags AND x = 0\<close> by simp
qed

lemma check_encodings: "refines (check_encodings cr flags' sig k) (check_encodings cr flags sig k)"
proof -
  have low: "refines (CheckSignatureEncoding cr flags' sig) (CheckSignatureEncoding cr flags sig)"
    unfolding CheckSignatureEncoding_def
    by (intro refines_if refines_refl refines_guard refines_guard_unit; use flag in blast)
  have "refines (CheckPubKeyEncoding flags' k) (CheckPubKeyEncoding flags k)"
    using flag [of SCRIPT_VERIFY_STRICTENC] unfolding CheckPubKeyEncoding_def by (intro refines_guard refines_refl) auto
  then show ?thesis unfolding check_encodings_def by (intro refines_case low)
qed

lemma EvalChecksig: "refines (EvalChecksig cr chk flags' code sig k) (EvalChecksig cr chk flags code sig k)"
proof -
  obtain n c where "FindAndDelete code (push_data sig) = (n, c)" by fastforce
  then show ?thesis
    unfolding EvalChecksig_def Let_def
    by (simp only: prod.case) (intro refines_guard refines_case check_encodings refines_refl; use flag in blast)
qed

lemma delete_signatures: "refines (delete_signatures flags' sigs code) (delete_signatures flags sigs code)"
  using flag [of SCRIPT_VERIFY_CONST_SCRIPTCODE]
  by (induction sigs arbitrary: code) (auto simp: Let_def split: prod.split intro!: refines_intros refines_guard)

lemma multisig_loop:
  "refines (multisig_loop cr chk flags' code s isig ikey n k) (multisig_loop cr chk flags code s isig ikey n k)"
  by (induction k arbitrary: isig ikey n)
    (auto simp: Let_def split: prod.split intro!: refines_intros refines_if refines_case check_encodings)

lemma multisig_cleanup: "refines (multisig_cleanup flags' ok i j s) (multisig_cleanup flags ok i j s)"
  using flag [of SCRIPT_VERIFY_NULLFAIL]
  by (induction i arbitrary: j s) (auto intro!: refines_intros refines_guard)

lemmas step_intros = refines_guard refines_with_num refines_with_i64 refines_case refines_on_stack refines_intros

lemma exec_NOPs: "refines (exec_NOPs flags' s) (exec_NOPs flags s)"
  unfolding exec_NOPs_def by (intro step_intros) (rule flag)

text \<open>From here on the requirement of minimal numbers is also weaker, \<open>m'\<close> for \<open>m\<close>.\<close>

lemma exec_CHECKLOCKTIMEVERIFY:
  assumes "m' \<Longrightarrow> m"
  shows "refines (exec_CHECKLOCKTIMEVERIFY chk flags' m' s) (exec_CHECKLOCKTIMEVERIFY chk flags m s)"
  using assms flag [of SCRIPT_VERIFY_CHECKLOCKTIMEVERIFY]
  by (auto simp: exec_CHECKLOCKTIMEVERIFY_def refines_def with_num_def scriptnum_read_def set_error_def stack_error_def split: if_splits)

lemma exec_CHECKSEQUENCEVERIFY:
  assumes "m' \<Longrightarrow> m"
  shows "refines (exec_CHECKSEQUENCEVERIFY chk flags' m' s) (exec_CHECKSEQUENCEVERIFY chk flags m s)"
  using assms flag [of SCRIPT_VERIFY_CHECKSEQUENCEVERIFY]
  by (auto simp: exec_CHECKSEQUENCEVERIFY_def refines_def with_num_def scriptnum_read_def set_error_def stack_error_def split: if_splits)

lemma exec_CHECKSIG: "refines (exec_CHECKSIG cr chk flags' code opcode s) (exec_CHECKSIG cr chk flags code opcode s)"
  by (auto simp: exec_CHECKSIG_def split: list.split intro!: refines_intros refines_case EvalChecksig)

lemma exec_CHECKDATASIG: "refines (exec_CHECKDATASIG cr flags' opcode s) (exec_CHECKDATASIG cr flags opcode s)"
proof (cases "\<exists>k m sig r. s = k # m # sig # r")
  case True
  then obtain k m sig r where "s = k # m # sig # r" by blast
  then show ?thesis
    unfolding exec_CHECKDATASIG_def Let_def
    by (simp only: list.case) (intro refines_case check_encodings refines_guard refines_refl; use flag in blast)
qed (auto simp: exec_CHECKDATASIG_def split: list.split intro!: refines_intros)

lemma multisig_args:
  assumes "m' \<Longrightarrow> m"
  shows "refines (multisig_args cr chk flags' code m' opcode k s) (multisig_args cr chk flags code m opcode k s)"
  unfolding multisig_args_def Let_def
  by (intro refines_if refines_intros refines_with_num refines_case delete_signatures multisig_loop multisig_cleanup refines_guard;
      use assms flag in blast)

lemma exec_CHECKMULTISIG:
  assumes "m' \<Longrightarrow> m"
  shows "refines (exec_CHECKMULTISIG cr chk flags' code m' opcode n s) (exec_CHECKMULTISIG cr chk flags code m opcode n s)"
  unfolding exec_CHECKMULTISIG_def Let_def
  by (intro refines_if refines_intros refines_with_num refines_case multisig_args) (use assms in blast)+

end

text \<open>Operations that depend on the flags only through the requirement of minimal numbers.\<close>

lemma minimal_ops:
  assumes "m' \<Longrightarrow> m"
  shows "refines (exec_PICK_ROLL opcode m' s) (exec_PICK_ROLL opcode m s)" "refines (exec_UNARY opcode m' s) (exec_UNARY opcode m s)"
    "refines (exec_BINARY opcode m' s) (exec_BINARY opcode m s)" "refines (exec_WITHIN m' s) (exec_WITHIN m s)"
    "refines (exec_SPLIT m' s) (exec_SPLIT m s)" "refines (exec_NUM2BIN m' s) (exec_NUM2BIN m s)"
  using assms
  by (auto simp: exec_PICK_ROLL_def exec_UNARY_def exec_BINARY_def exec_WITHIN_def exec_SPLIT_def exec_NUM2BIN_def
      split: list.split intro!: refines_intros refines_with_num)

section \<open>The machine\<close>

context fewer_flags
begin

lemma exec_opcode:
  assumes "m' \<Longrightarrow> m"
  shows "refines (exec_opcode cr chk flags' m' fExec opcode pc st) (exec_opcode cr chk flags m fExec opcode pc st)"
  unfolding exec_opcode_def Let_def
  by (intro refines_if refines_on_stack exec_NOPs exec_CHECKLOCKTIMEVERIFY exec_CHECKSEQUENCEVERIFY exec_CHECKSIG
      exec_CHECKDATASIG exec_CHECKMULTISIG minimal_ops refines_case refines_refl assms)

lemma exec_step: "refines (exec_step cr chk flags' opcode v pc st) (exec_step cr chk flags opcode v pc st)"
  unfolding exec_step_def Let_def
  by (intro refines_case refines_refl refines_guard refines_if exec_opcode; use flag in blast)

lemma eval_loop: "refines (eval_loop cr chk flags' pc st) (eval_loop cr chk flags pc st)"
proof (induction "length pc" arbitrary: pc st rule: less_induct)
  case less
  show ?case
  proof (cases "GetScriptOp pc")
    case None
    then show ?thesis by (simp add: eval_loop.simps [of _ _ _ pc] refines_refl)
  next
    case (Some x)
    then obtain opcode v rest where x: "GetScriptOp pc = Some (opcode, v, rest)" by (cases x) auto
    have "refines (eval_loop cr chk flags' rest st) (eval_loop cr chk flags rest st)" for st
      using less GetScriptOp_less [OF x] by blast
    then show ?thesis
      unfolding eval_loop.simps [of _ _ _ pc] x option.case prod.case
      by (intro refines_if refines_refl refines_case exec_step)
  qed
qed

lemma EvalScript: "refines (EvalScript cr chk flags' script s) (EvalScript cr chk flags script s)"
  unfolding EvalScript_def by (intro refines_guard refines_case eval_loop refines_refl) simp

lemma verify_p2sh: "refines (verify_p2sh cr chk flags' sig s) (verify_p2sh cr chk flags sig s)"
  unfolding verify_p2sh_def
  by (auto split: list.split intro!: refines_if refines_intros refines_case EvalScript)

lemma VerifyScript:
  assumes "VerifyScript cr chk flags sig script = Inr ()"
    and "flags' AND SCRIPT_VERIFY_CLEANSTACK \<noteq> 0 \<Longrightarrow> flags' AND SCRIPT_VERIFY_P2SH \<noteq> 0"
  shows "VerifyScript cr chk flags' sig script = Inr ()"
proof -
  obtain s1 s2 s3 where s: "EvalScript cr chk flags sig [] = Inr s1" "EvalScript cr chk flags script s1 = Inr s2"
      "check_top s2 = Inr s3" "\<not> (flags AND SCRIPT_VERIFY_SIGPUSHONLY \<noteq> 0 \<and> \<not> IsPushOnly sig)"
    using assms(1) by (auto simp: VerifyScript_def set_error_def split: if_splits sum.splits)
  have r: "EvalScript cr chk flags' sig [] = Inr s1" "EvalScript cr chk flags' script s1 = Inr s2"
    using s(1,2) EvalScript [of cr chk sig "[]"] EvalScript [of cr chk script s1] by (auto simp: refines_def)
  define p2sh where "p2sh f = (if f AND SCRIPT_VERIFY_P2SH \<noteq> 0 \<and> IsPayToScriptHash script
    then verify_p2sh cr chk f sig s1 else Inr s3)" for f
  define clean where "clean f s = (if f AND SCRIPT_VERIFY_CLEANSTACK \<noteq> 0
    then (if f AND SCRIPT_VERIFY_P2SH = 0 then Inl ScriptAbort else if length s \<noteq> 1 then set_error SCRIPT_ERR_CLEANSTACK else Inr ())
    else Inr ())" for f and s :: stack
  obtain s4 where s4: "p2sh flags = Inr s4" "clean flags s4 = Inr ()"
    using assms(1) s unfolding p2sh_def clean_def by (auto simp: VerifyScript_def split: if_splits sum.splits)
  have sig': "\<not> (flags' AND SCRIPT_VERIFY_SIGPUSHONLY \<noteq> 0 \<and> \<not> IsPushOnly sig)" using s(4) flag by blast
  have "\<exists>s5. p2sh flags' = Inr s5 \<and> clean flags' s5 = Inr ()"
  proof (cases "flags' AND SCRIPT_VERIFY_P2SH = 0")
    case True
    then show ?thesis using assms(2) by (auto simp: p2sh_def clean_def)
  next
    case False
    then have "p2sh flags' = Inr s4"
      using s4(1) flag [OF False] verify_p2sh [of cr chk sig s1] by (auto simp: p2sh_def refines_def split: if_splits)
    moreover have "clean flags' s4 = Inr ()"
      using s4(2) False flag [of SCRIPT_VERIFY_CLEANSTACK] by (auto simp: clean_def set_error_def split: if_splits)
    ultimately show ?thesis by blast
  qed
  moreover have "VerifyScript cr chk flags' sig script = (case p2sh flags' of Inl e \<Rightarrow> Inl e | Inr s \<Rightarrow> clean flags' s)"
    unfolding VerifyScript_def p2sh_def clean_def by (simp only: r s(3) sum.case if_not_P [OF sig'])
  ultimately show ?thesis by auto
qed

end

section \<open>Properties\<close>

text \<open>
  C3: every flag is a soft fork. What \<open>VerifyScript\<close> accepts it accepts under fewer flags, and an evaluation that
  succeeds gives the same stack; only the flag for clean stacks needs the one for script hashes beside it, which
  \<open>VerifyScript\<close> asserts.
\<close>

theorem flags_are_soft_forks:
  assumes "flags' AND flags = flags'" "flags' AND SCRIPT_VERIFY_CLEANSTACK \<noteq> 0 \<Longrightarrow> flags' AND SCRIPT_VERIFY_P2SH \<noteq> 0"
    and "VerifyScript cr chk flags sig script = Inr ()" "EvalScript cr chk flags script2 s = Inr s'"
  shows "VerifyScript cr chk flags' sig script = Inr () \<and> EvalScript cr chk flags' script2 s = Inr s'"
proof -
  have f: "fewer_flags flags' flags" using assms(1) by (simp add: fewer_flags_def)
  show ?thesis
    using fewer_flags.VerifyScript [OF f assms(3,2)] fewer_flags.EvalScript [OF f, of cr chk script2 s] assms(4)
    by (simp add: refines_def)
qed

text \<open>A payment to the hash of the script that pushes one.\<close>

definition example_crypto :: script_crypto where
  "example_crypto = \<lparr>c_RIPEMD160 = (\<lambda>_. replicate 20 0), c_SHA1 = (\<lambda>_. replicate 20 0), c_SHA256 = (\<lambda>_. replicate 32 0),
     c_HASH160 = (\<lambda>_. replicate 20 0), c_HASH256 = (\<lambda>_. replicate 32 0), c_CheckLowS = (\<lambda>_. True),
     c_Verify = (\<lambda>_ _ _. True)\<rparr>"

definition example_checker :: signature_checker where
  "example_checker = \<lparr>k_CheckSig = (\<lambda>_ _ _. True), k_CheckLockTime = (\<lambda>_. True), k_CheckSequence = (\<lambda>_. True)\<rparr>"

definition example_p2sh :: bytes where
  "example_p2sh = OP_HASH160 # push_data (replicate 20 0) @ [OP_EQUAL]"

theorem flags_are_soft_forks_witness:
  "VerifyScript example_crypto example_checker SCRIPT_VERIFY_P2SH (push_data [OP_1]) example_p2sh = Inr () \<and>
   EvalScript example_crypto example_checker SCRIPT_VERIFY_P2SH [OP_1] [] = Inr [[1]]"
proof -
  let ?all = "SCRIPT_VERIFY_P2SH OR SCRIPT_VERIFY_CLEANSTACK OR SCRIPT_VERIFY_MINIMALDATA"
  have f: "SCRIPT_VERIFY_P2SH AND ?all = SCRIPT_VERIFY_P2SH" by code_simp
  have c: "SCRIPT_VERIFY_P2SH AND SCRIPT_VERIFY_P2SH \<noteq> 0" by code_simp
  have v: "VerifyScript example_crypto example_checker ?all (push_data [OP_1]) example_p2sh = Inr ()" by code_simp
  have e: "EvalScript example_crypto example_checker ?all [OP_1] [] = Inr [[1]]" by code_simp
  show ?thesis using flags_are_soft_forks [OF f c v e] by simp
qed

end
