(* ===== verification/ScriptLimits.thy ===== *)
theory ScriptLimits
  imports ScriptFlags
begin

text \<open>
  The limits of the interpreter: every element of the stacks and their number stay bounded, and no assertion of the
  interpreter fails, whatever the script.
\<close>

section \<open>Results within limits\<close>

definition within :: "('a \<Rightarrow> bool) \<Rightarrow> 'a script_result \<Rightarrow> bool" where
  "within P r \<longleftrightarrow> (case r of Inl e \<Rightarrow> e \<noteq> ScriptAbort | Inr x \<Rightarrow> P x)"

lemma within_error [simp]: "within P (set_error e)" "within P stack_error"
  by (simp_all add: within_def set_error_def stack_error_def)

lemma within_Inr [simp]: "within P (Inr x) \<longleftrightarrow> P x"
  by (simp add: within_def)

lemma within_if: "(c \<Longrightarrow> within P a) \<Longrightarrow> (\<not> c \<Longrightarrow> within P b) \<Longrightarrow> within P (if c then a else b)"
  by simp

lemma within_case:
  "within Q a \<Longrightarrow> (\<And>x. Q x \<Longrightarrow> within P (f x)) \<Longrightarrow> within P (case a of Inl e \<Rightarrow> Inl e | Inr x \<Rightarrow> f x)"
  by (cases a) (auto simp: within_def)

lemma within_mono: "within Q a \<Longrightarrow> (\<And>x. Q x \<Longrightarrow> P x) \<Longrightarrow> within P a"
  by (cases a) (auto simp: within_def)

lemma less_2_31: "k < 2 ^ 31 \<Longrightarrow> int k < 2 ^ 31"
  by simp

lemma num_val_4: "length b \<le> 4 \<Longrightarrow> \<bar>num_val b\<bar> < 2 ^ 31"
proof (cases b rule: rev_cases)
  case (snoc xs x)
  assume "length b \<le> 4"
  then have n: "length xs \<le> 3" using snoc by simp
  have bound: "le_val xs + 256 ^ length xs * y < 2 ^ 31" if "y < 128" for y
  proof -
    have "le_val xs + 256 ^ length xs * y < 256 ^ length xs * Suc y" using le_val_less [of xs] by simp
    also have "\<dots> \<le> 256 ^ 3 * 128" using that n by (intro mult_le_mono power_increasing) simp_all
    finally show ?thesis by simp
  qed
  have "unat x - 128 < 128" using unat_u8 [of x] by linarith
  then have "int (le_val xs + 256 ^ length xs * (unat x - 128)) < 2 ^ 31" by (intro less_2_31 bound)
  moreover have "int (le_val xs + 256 ^ length xs * unat x) < 2 ^ 31" if "unat x < 128"
    using that by (intro less_2_31 bound)
  ultimately show ?thesis
    unfolding snoc num_val_snoc by (cases "unat x < 128") (simp_all only: if_True if_False abs_minus_cancel abs_of_nat)
qed (simp add: num_val_def)

lemma within_with_num:
  assumes "\<And>x. \<bar>x\<bar> < 2 ^ 31 \<Longrightarrow> within P (k x)"
  shows "within P (with_num v m nDefaultMaxNumSize k)"
  using assms num_val_4 [of v]
  by (auto simp: with_num_def scriptnum_read_def nDefaultMaxNumSize_def set_vch_val)

lemma within_with_num_any: "(\<And>x. within P (k x)) \<Longrightarrow> within P (with_num v m n k)"
  by (auto simp: with_num_def split: option.split)

lemma within_with_i64: "in_i64 x \<Longrightarrow> within P (k x) \<Longrightarrow> within P (with_i64 x k)"
  by (simp add: with_i64_def i64_def)

section \<open>Sizes of elements\<close>

definition small :: "stack \<Rightarrow> bool" where
  "small s \<longleftrightarrow> list_all (\<lambda>x. length x \<le> MAX_SCRIPT_ELEMENT_SIZE) s"

lemma small_simps [simp]: "small []" "small (x # s) \<longleftrightarrow> length x \<le> MAX_SCRIPT_ELEMENT_SIZE \<and> small s"
  by (simp_all add: small_def)

lemma small_sub: "small s \<Longrightarrow> set r \<subseteq> set s \<Longrightarrow> small r"
  by (auto simp: small_def list_all_iff)

lemma small_nth: "small s \<Longrightarrow> i < length s \<Longrightarrow> length (s ! i) \<le> MAX_SCRIPT_ELEMENT_SIZE"
  by (simp add: small_def list_all_length)

lemma small_tl: "small s \<Longrightarrow> small (tl s)"
  by (cases s) simp_all

lemma le_val_canonical: "canonical xs \<Longrightarrow> xs \<noteq> [] \<Longrightarrow> 256 ^ (length xs - 1) \<le> le_val xs"
proof (cases xs rule: rev_cases)
  case (snoc ys y)
  assume "canonical xs"
  then have "1 \<le> unat y" using snoc by (simp add: canonical_def Suc_le_eq unat_gt_0)
  then have "256 ^ length ys * 1 \<le> 256 ^ length ys * unat y" by (intro mult_le_mono2)
  then show ?thesis using snoc by (simp add: le_val_append trans_le_add2)
qed simp

lemma length_serialize: "length (scriptnum_serialize v) \<le> 9"
proof -
  have l: "length (abs_bytes a) \<le> 8" for a
  proof (rule ccontr)
    assume n: "\<not> length (abs_bytes a) \<le> 8"
    then have "256 ^ (length (abs_bytes a) - 1) \<le> unat a"
      using le_val_canonical [of "abs_bytes a"] abs_bytes_spec [of a] by fastforce
    moreover have "(256 :: nat) ^ 8 \<le> 256 ^ (length (abs_bytes a) - 1)" using n by (intro power_increasing) simp_all
    moreover have "unat a < 2 ^ 64" using unsigned_less [of a] by simp
    ultimately show False by simp
  qed
  then have "length (abs_bytes a) \<le> 9" for a by (rule le_trans) simp
  with l show ?thesis by (auto simp: scriptnum_serialize_def Let_def)
qed

lemma small_serialize [simp]: "length (scriptnum_serialize v) \<le> MAX_SCRIPT_ELEMENT_SIZE"
  using length_serialize [of v] by (simp add: MAX_SCRIPT_ELEMENT_SIZE_def)

lemma small_bool [simp]: "length (of_bool_val f) \<le> MAX_SCRIPT_ELEMENT_SIZE"
  by (simp add: of_bool_val_def vchTrue_def vchFalse_def MAX_SCRIPT_ELEMENT_SIZE_def)

section \<open>Operations\<close>

text \<open>The digests have the sizes of their buffers.\<close>

definition hash_sizes :: "script_crypto \<Rightarrow> bool" where
  "hash_sizes cr \<longleftrightarrow> (\<forall>x. length (c_RIPEMD160 cr x) = 20 \<and> length (c_SHA1 cr x) = 20 \<and> length (c_SHA256 cr x) = 32 \<and>
     length (c_HASH160 cr x) = 20 \<and> length (c_HASH256 cr x) = 32)"

named_theorems within_ops

lemma within_push_int [within_ops]:
  "within small (exec_push_int opcode s)" if "small s"
  using that by (simp add: exec_push_int_def)

lemma within_locks [within_ops]:
  assumes "small s"
  shows "within small (exec_CHECKLOCKTIMEVERIFY chk flags m s)" "within small (exec_CHECKSEQUENCEVERIFY chk flags m s)"
    "within small (exec_NOPs flags s)"
  using assms
  by (auto simp: exec_CHECKLOCKTIMEVERIFY_def exec_CHECKSEQUENCEVERIFY_def exec_NOPs_def intro!: within_with_num_any)

lemma within_stack_ops [within_ops]:
  assumes "small s"
  shows "within small (exec_VERIFY s)" "within small (exec_2DROP s)" "within small (exec_2DUP s)" "within small (exec_3DUP s)"
    "within small (exec_2OVER s)" "within small (exec_2ROT s)" "within small (exec_2SWAP s)" "within small (exec_IFDUP s)"
    "within small (exec_DEPTH s)" "within small (exec_DROP s)" "within small (exec_DUP s)" "within small (exec_NIP s)"
    "within small (exec_OVER s)" "within small (exec_ROT s)" "within small (exec_SWAP s)" "within small (exec_TUCK s)"
    "within small (exec_SIZE s)" "within small (exec_EQUAL opcode s)" "within small (exec_BITWISE opcode s)"
    "within small (exec_CAT s)"
  using assms
  by (auto simp: exec_VERIFY_def exec_2DROP_def exec_2DUP_def exec_3DUP_def exec_2OVER_def exec_2ROT_def exec_2SWAP_def
      exec_IFDUP_def exec_DEPTH_def exec_DROP_def exec_DUP_def exec_NIP_def exec_OVER_def exec_ROT_def exec_SWAP_def
      exec_TUCK_def exec_SIZE_def exec_EQUAL_def exec_BITWISE_def exec_CAT_def Let_def split: list.split)

lemma small_remove: "small s \<Longrightarrow> small (take n s @ drop k s)"
  by (auto simp: small_def list_all_iff dest: in_set_takeD in_set_dropD)

lemma within_PICK_ROLL [within_ops]:
  assumes "small s"
  shows "within small (exec_PICK_ROLL opcode m s)"
proof -
  have "within small (let n = getint x; s = tl s
      in if n < 0 \<or> n \<ge> int (length s) then stack_error
         else let v = s ! nat n in Inr (v # (if opcode = OP_ROLL then take (nat n) s @ drop (nat n + 1) s else s)))" for x
  proof (cases "getint x < 0 \<or> getint x \<ge> int (length (tl s))")
    case False
    then have "nat (getint x) < length (tl s)" by linarith
    then show ?thesis
      using False small_nth [OF small_tl [OF assms]] small_remove [OF small_tl [OF assms]] small_tl [OF assms] by (simp add: Let_def)
  qed simp
  then show ?thesis unfolding exec_PICK_ROLL_def by (intro within_if within_with_num) simp_all
qed

lemma within_unary: "\<bar>x\<bar> < 2 ^ 31 \<Longrightarrow> in_i64 x" "\<bar>x\<bar> < 2 ^ 31 \<Longrightarrow> in_i64 (x + 1)" "\<bar>x\<bar> < 2 ^ 31 \<Longrightarrow> in_i64 (x - 1)"
    "\<bar>x\<bar> < 2 ^ 31 \<Longrightarrow> in_i64 (- x)" "in_i64 (of_bool b)"
  by (auto simp: in_i64_def INT64_MAX_def)

lemma within_UNARY [within_ops]: "small s \<Longrightarrow> within small (exec_UNARY opcode m s)"
  unfolding exec_UNARY_def
  by (auto split: list.split intro!: within_with_num within_with_i64 simp: within_unary)

lemma abs_sdiv: "\<bar>a sdiv b\<bar> \<le> \<bar>a :: int\<bar>"
proof (cases "a = 0 \<or> b = 0")
  case False
  then have "\<bar>a sdiv b\<bar> = \<bar>a\<bar> div \<bar>b\<bar>"
    by (simp add: signed_divide_int_def abs_mult abs_sgn_eq pos_imp_zdiv_nonneg_iff)
  also have "\<dots> \<le> \<bar>a\<bar> div 1" using False by (intro zdiv_mono2) linarith+
  finally show ?thesis by simp
qed (auto simp: signed_divide_int_def)

lemma abs_smod: "\<bar>a smod b\<bar> \<le> \<bar>a :: int\<bar>"
proof -
  have "0 \<le> \<bar>a\<bar> mod \<bar>b\<bar>" by (cases "b = 0") simp_all
  then have "\<bar>a smod b\<bar> \<le> \<bar>a\<bar> mod \<bar>b\<bar>" by (simp add: signed_modulo_int_def abs_mult abs_sgn_eq)
  also have "\<dots> \<le> \<bar>a\<bar>" by (rule zmod_le_nonneg_dividend) simp
  finally show ?thesis .
qed

lemma within_binary:
  assumes "\<bar>x\<bar> < 2 ^ 31" "\<bar>y\<bar> < 2 ^ 31"
  shows "in_i64 (x + y)" "in_i64 (x - y)" "in_i64 (x sdiv y)" "in_i64 (x smod y)"
  using assms abs_sdiv [of x y] abs_smod [of x y] by (auto simp: in_i64_def INT64_MAX_def)

lemma in_i64_if: "(c \<Longrightarrow> in_i64 a) \<Longrightarrow> (\<not> c \<Longrightarrow> in_i64 b) \<Longrightarrow> in_i64 (if c then a else b)"
  by simp

lemma within_BINARY [within_ops]:
  assumes "small s"
  shows "within small (exec_BINARY opcode m s)"
proof -
  have "within small (exec_BINARY opcode m (x2 # x1 # r))" if "small r" for x2 x1 r
    unfolding exec_BINARY_def list.case Let_def
    by (rule within_with_num, rule within_with_num, intro within_if within_with_i64 in_i64_if within_binary within_unary)
      (use that in simp_all)
  then show ?thesis using assms by (auto simp: exec_BINARY_def split: list.split)
qed

lemma within_WITHIN [within_ops]: "small s \<Longrightarrow> within small (exec_WITHIN m s)"
  by (auto simp: exec_WITHIN_def split: list.split intro!: within_with_num_any)

lemma within_HASH [within_ops]: "hash_sizes cr \<Longrightarrow> small s \<Longrightarrow> within small (exec_HASH cr opcode s)"
  by (auto simp: exec_HASH_def hash_sizes_def MAX_SCRIPT_ELEMENT_SIZE_def split: list.split)

lemma within_check_encodings: "within (\<lambda>_. True) (check_encodings cr flags vchSig vchPubKey)"
  by (auto simp: check_encodings_def CheckSignatureEncoding_def IsLowDERSignature_def CheckPubKeyEncoding_def set_error_def
      within_def)

lemma within_EvalChecksig: "within (\<lambda>_. True) (EvalChecksig cr checker flags code vchSig vchPubKey)"
  unfolding EvalChecksig_def Let_def
  by (auto split: prod.split intro!: within_if within_case [OF within_check_encodings])

lemma within_CHECKSIG [within_ops]: "small s \<Longrightarrow> within small (exec_CHECKSIG cr checker flags code opcode s)"
  by (auto simp: exec_CHECKSIG_def split: list.split intro!: within_case [OF within_EvalChecksig])

lemma within_CHECKDATASIG [within_ops]: "small s \<Longrightarrow> within small (exec_CHECKDATASIG cr flags opcode s)"
  by (auto simp: exec_CHECKDATASIG_def Let_def split: list.split intro!: within_case [OF within_check_encodings])

lemma within_delete_signatures: "within (\<lambda>_. True) (delete_signatures flags sigs code)"
  by (induction sigs arbitrary: code) (auto split: prod.split)

lemma within_multisig_loop: "within (\<lambda>_. True) (multisig_loop cr checker flags code s isig ikey nSigs nKeys)"
  by (induction nKeys arbitrary: isig ikey nSigs) (auto simp: Let_def intro!: within_if within_case [OF within_check_encodings])

lemma within_multisig_cleanup: "small s \<Longrightarrow> within small (multisig_cleanup flags f i ikey2 s)"
  by (induction i arbitrary: ikey2 s) (auto simp: small_tl)

lemma within_multisig_args: "small s \<Longrightarrow> within small (multisig_args cr checker flags code m opcode nKeys s)"
  unfolding multisig_args_def Let_def
  by (intro within_if within_with_num_any within_error within_case [OF within_delete_signatures]
      within_case [OF within_multisig_loop] within_case [OF within_multisig_cleanup]) (simp_all add: small_tl)

lemma within_CHECKMULTISIG:
  "small s \<Longrightarrow> within (\<lambda>(n, s). small s) (exec_CHECKMULTISIG cr checker flags code m opcode nOpCount s)"
  unfolding exec_CHECKMULTISIG_def Let_def
  by (intro within_if within_with_num_any within_error within_case [OF within_multisig_args]) simp_all

lemma within_SPLIT [within_ops]: "small s \<Longrightarrow> within small (exec_SPLIT m s)"
  by (auto simp: exec_SPLIT_def Let_def split: list.split intro!: within_with_num_any)

lemma within_NUM2BIN [within_ops]:
  assumes "small s"
  shows "within small (exec_NUM2BIN m s)"
proof -
  have "within small (exec_NUM2BIN m (n # x # r))" if "small r" for n x r
    unfolding exec_NUM2BIN_def list.case Let_def
    by (rule within_with_num_any, intro within_if within_error)
      (use that in \<open>auto simp: MAX_SCRIPT_ELEMENT_SIZE_def\<close>)
  then show ?thesis using assms by (auto simp: exec_NUM2BIN_def split: list.split)
qed

lemma within_BIN2NUM [within_ops]: "small s \<Longrightarrow> within small (exec_BIN2NUM s)"
  by (auto simp: exec_BIN2NUM_def Let_def IsMinimallyEncoded_def nDefaultMaxNumSize_def MAX_SCRIPT_ELEMENT_SIZE_def
      split: list.split)

section \<open>The machine\<close>

definition small_state :: "script_state \<Rightarrow> bool" where
  "small_state st \<longleftrightarrow> small (st_stack st) \<and> small (st_altstack st)"

lemma within_on_stack: "small_state st \<Longrightarrow> within small r \<Longrightarrow> within small_state (on_stack st r)"
  by (auto simp: on_stack_def small_state_def within_def split: sum.split)

lemma within_alt:
  assumes "small_state st"
  shows "within small_state (exec_TOALTSTACK st)" "within small_state (exec_FROMALTSTACK st)"
    "within small_state (exec_IF opcode fExec st)"
  using assms
  by (auto simp: exec_TOALTSTACK_def exec_FROMALTSTACK_def exec_IF_def small_state_def Let_def split: list.split)

lemma within_conditions:
  assumes "small_state st"
  shows "within small_state (exec_ELSE st)" "within small_state (exec_ENDIF st)"
  using assms
  by (auto simp: exec_ELSE_def exec_ENDIF_def cond_toggle_top_def cond_pop_back_def cond_empty_def small_state_def Let_def)

lemma within_exec_opcode:
  assumes "hash_sizes cr" "small_state st"
  shows "within small_state (exec_opcode cr checker flags m fExec opcode pc st)"
proof -
  have s: "small (st_stack st)" using assms(2) by (simp add: small_state_def)
  have c: "within small_state
      (case exec_CHECKMULTISIG cr checker flags code m opcode n (st_stack st) of
         Inl e \<Rightarrow> Inl e | Inr (nOpCount, s) \<Rightarrow> Inr (st\<lparr>st_stack := s, st_nOpCount := nOpCount\<rparr>))" for code n
    by (rule within_case [OF within_CHECKMULTISIG [OF s]]) (use assms(2) in \<open>auto simp: small_state_def\<close>)
  show ?thesis
    unfolding exec_opcode_def Let_def
    by (intro within_if within_on_stack within_alt within_conditions within_error within_ops assms s c)
      (use assms in \<open>auto simp: small_state_def\<close>)
qed

definition limited :: "script_state \<Rightarrow> bool" where
  "limited st \<longleftrightarrow> small_state st \<and> length (st_stack st) + length (st_altstack st) \<le> MAX_STACK_SIZE"

lemma within_exec_step:
  assumes "hash_sizes cr" "small_state st"
  shows "within limited (exec_step cr checker flags opcode vchPushValue pc st)"
proof -
  have w: "within small_state (exec_opcode cr checker flags m f opcode pc (st\<lparr>st_nOpCount := n\<rparr>))" for m f n
    using assms by (intro within_exec_opcode) (simp_all add: small_state_def)
  have v: "within small_state (exec_opcode cr checker flags m f opcode pc st)" for m f
    using assms by (rule within_exec_opcode)
  show ?thesis
    unfolding exec_step_def Let_def
    by (intro within_if within_error, rule within_case [where Q = small_state], intro within_if within_error)
      (use assms(2) in \<open>auto simp: small_state_def limited_def intro!: w v\<close>)
qed

lemma within_eval_loop:
  "hash_sizes cr \<Longrightarrow> small_state st \<Longrightarrow> (pc = [] \<Longrightarrow> limited st) \<Longrightarrow> within limited (eval_loop cr checker flags pc st)"
proof (induction cr checker flags pc st rule: eval_loop.induct)
  case (1 cr checker flags pc st)
  show ?case
  proof (cases "GetScriptOp pc")
    case (Some r)
    obtain opcode v rest where r: "r = (opcode, v, rest)" by (cases r)
    have loop: "within limited (eval_loop cr checker flags rest st')"
      if "pc \<noteq> []" "exec_step cr checker flags opcode v rest st = Inr st'" for st'
    proof -
      have lim: "limited st'" using within_exec_step [OF 1(2,3), of checker flags opcode v rest] that(2) by simp
      then show ?thesis by (intro 1(1) [OF that(1) Some r [symmetric] refl that(2) 1(2)] lim) (simp add: limited_def)
    qed
    have step: "within limited (exec_step cr checker flags opcode v rest st)" using 1(2,3) by (rule within_exec_step)
    show ?thesis
    proof (cases "exec_step cr checker flags opcode v rest st")
      case (Inl e)
      then show ?thesis using step 1(4) Some r by (simp add: eval_loop.simps [of cr checker flags pc st] within_def)
    next
      case (Inr st')
      then show ?thesis using loop [OF _ Inr] 1(4) Some r by (simp add: eval_loop.simps [of cr checker flags pc st])
    qed
  qed (use 1(4) in \<open>simp add: eval_loop.simps [of cr checker flags pc st]\<close>)
qed

lemma within_EvalScript:
  assumes "hash_sizes cr" "small s" "length s \<le> MAX_STACK_SIZE"
  shows "within (\<lambda>s. small s \<and> length s \<le> MAX_STACK_SIZE) (EvalScript cr checker flags script s)"
  unfolding EvalScript_def
  by (intro within_if within_error within_case [OF within_eval_loop])
    (use assms in \<open>auto simp: limited_def small_state_def\<close>)

lemma hash160_needs_an_element:
  assumes "IsPayToScriptHash script"
  shows "\<exists>e. EvalScript cr checker flags script [] = Inl e"
proof -
  obtain rest where script: "script = OP_HASH160 # rest"
    using assms by (cases script) (auto simp: IsPayToScriptHash_def)
  have get: "GetScriptOp script = Some (OP_HASH160, [], rest)"
    unfolding script by (simp add: GetScriptOp_def Let_def OP_HASH160_def OP_PUSHDATA4_def)
  let ?st = "\<lparr>st_stack = [], st_altstack = [], st_vfExec = cond_init, st_pbegincodehash = script, st_nOpCount = 0\<rparr>"
  have op: "exec_opcode cr checker flags m True OP_HASH160 rest (?st\<lparr>st_nOpCount := 1\<rparr>) = stack_error" for m
    by (simp add: exec_opcode_def script_opcodes exec_HASH_def on_stack_def stack_error_def set_error_def)
  have "exec_step cr checker flags OP_HASH160 [] rest ?st = stack_error"
    using op
    by (simp add: exec_step_def script_opcodes cond_all_true_def cond_init_def MAX_OPS_PER_SCRIPT_def stack_error_def set_error_def)
  then show ?thesis
    using get script by (simp add: EvalScript_def eval_loop.simps set_error_def stack_error_def)
qed

text \<open>
  C7: whatever the script, its evaluation on a stack within the limits ends with a script error or with a stack within
  them: at most a thousand elements, none of more than 520 bytes. No assertion of the interpreter fails: the additions,
  subtractions and negations of script numbers do not overflow, and no condition is popped that was not pushed.
\<close>

theorem evaluation_stays_in_limits:
  assumes "hash_sizes cr" "small s" "length s \<le> MAX_STACK_SIZE"
  shows "case EvalScript cr checker flags script s of
           Inl e \<Rightarrow> (\<exists>err. e = ScriptErr err)
         | Inr s' \<Rightarrow> length s' \<le> MAX_STACK_SIZE \<and> small s'"
proof (cases "EvalScript cr checker flags script s")
  case (Inl e)
  then show ?thesis using within_EvalScript [OF assms, of checker flags script] by (cases e) (simp_all add: within_def)
next
  case (Inr s')
  then show ?thesis using within_EvalScript [OF assms, of checker flags script] by (simp add: within_def)
qed

lemma example_hash_sizes: "hash_sizes example_crypto"
  by (simp add: hash_sizes_def example_crypto_def)

theorem evaluation_stays_in_limits_witness:
  "EvalScript example_crypto example_checker 0 [OP_1, OP_DUP, OP_ADD] [[7]] = Inr [[2], [7]] \<and> small [[2], [7]]"
proof -
  have e: "EvalScript example_crypto example_checker 0 [OP_1, OP_DUP, OP_ADD] [[7]] = Inr [[2], [7]]" by code_simp
  have s: "small [[7]]" "length [[7::u8]] \<le> MAX_STACK_SIZE"
    by (simp_all add: MAX_SCRIPT_ELEMENT_SIZE_def MAX_STACK_SIZE_def)
  show ?thesis
    using evaluation_stays_in_limits [OF example_hash_sizes s, of example_checker 0 "[OP_1, OP_DUP, OP_ADD]"] e by simp
qed

lemma within_check_top: "P s \<Longrightarrow> within P (check_top s)"
  by (simp add: check_top_def)

text \<open>
  C18: the verification of an input ends with success or with a script error, whatever the two scripts: the assertion
  that the stack before the evaluation of the output's script is not empty, which guards the evaluation of a script
  given by its hash, holds, since that evaluation fails on an empty stack, and the one on the flags holds as long as a
  clean stack is only asked for together with that evaluation.
\<close>

theorem verification_never_aborts:
  assumes "hash_sizes cr" "flags AND SCRIPT_VERIFY_CLEANSTACK = 0 \<or> flags AND SCRIPT_VERIFY_P2SH \<noteq> 0"
  shows "VerifyScript cr checker flags sig script \<noteq> Inl ScriptAbort"
proof -
  let ?Q = "\<lambda>s. small s \<and> length s \<le> MAX_STACK_SIZE"
  have eval: "within ?Q (EvalScript cr checker flags sc s)" if "?Q s" for sc s
    using that by (intro within_EvalScript assms(1)) simp_all
  have p2sh: "within ?Q (verify_p2sh cr checker flags sig c)" if "?Q c" "c \<noteq> []" for c
  proof -
    have "?Q (tl c)" using that by (cases c) simp_all
    then show ?thesis using that(2)
      unfolding verify_p2sh_def
      by (cases c) (auto intro!: within_if within_error within_case [OF eval] within_check_top)
  qed
  have rest: "within (\<lambda>_. True) (case EvalScript cr checker flags script c of Inl e \<Rightarrow> Inl e
      | Inr s \<Rightarrow> (case check_top s of Inl e \<Rightarrow> Inl e
      | Inr s \<Rightarrow> (case (if flags AND SCRIPT_VERIFY_P2SH \<noteq> 0 \<and> IsPayToScriptHash script
             then verify_p2sh cr checker flags sig c else Inr s) of Inl e \<Rightarrow> Inl e
      | Inr s \<Rightarrow>
        if flags AND SCRIPT_VERIFY_CLEANSTACK \<noteq> 0 then
          (if flags AND SCRIPT_VERIFY_P2SH = 0 then Inl ScriptAbort
           else if length s \<noteq> 1 then set_error SCRIPT_ERR_CLEANSTACK else Inr ())
        else Inr ())))" if c: "?Q c" for c
  proof (cases "IsPayToScriptHash script \<and> c = []")
    case True
    then obtain e where "EvalScript cr checker flags script c = Inl e" using hash160_needs_an_element by blast
    then show ?thesis using eval [OF c, of script] by (simp add: within_def)
  next
    case False
    then have "within ?Q (if flags AND SCRIPT_VERIFY_P2SH \<noteq> 0 \<and> IsPayToScriptHash script
             then verify_p2sh cr checker flags sig c else Inr s)" if "?Q s" for s
      using p2sh [OF c] that by simp
    then show ?thesis
      using assms(2) c
      by (intro within_case [OF eval] within_case [OF within_check_top [where P = ?Q]] within_case [where Q = ?Q]) auto
  qed
  have "within (\<lambda>_. True) (VerifyScript cr checker flags sig script)"
    unfolding VerifyScript_def
    by (intro within_if within_error within_case [OF eval] rest) (simp_all add: MAX_STACK_SIZE_def)
  then show ?thesis by (auto simp: within_def)
qed

theorem verification_never_aborts_witness:
  "VerifyScript example_crypto example_checker (SCRIPT_VERIFY_P2SH OR SCRIPT_VERIFY_CLEANSTACK) [] example_p2sh
     \<noteq> Inl ScriptAbort"
proof -
  have "(SCRIPT_VERIFY_P2SH OR SCRIPT_VERIFY_CLEANSTACK) AND SCRIPT_VERIFY_P2SH \<noteq> 0" by code_simp
  then show ?thesis by (intro verification_never_aborts [OF example_hash_sizes]) simp
qed

section \<open>Conditions\<close>

text \<open>
  The two numbers of a \<open>ConditionStack\<close> stand for the list of the values of the conditions, the innermost last: its
  length and the position of the first false one.
\<close>

definition conditions :: "ConditionStack \<Rightarrow> bool list \<Rightarrow> bool" where
  "conditions c bs \<longleftrightarrow> length bs < unat NO_FALSE \<and> unat (m_stack_size c) = length bs \<and>
     unat (m_first_false_pos c) = (if False \<in> set bs then length (takeWhile id bs) else unat NO_FALSE)"

lemma length_takeWhile_False: "False \<in> set bs \<Longrightarrow> length (takeWhile id bs) < length bs"
  by (induction bs) auto

lemma takeWhile_all: "False \<notin> set bs \<Longrightarrow> takeWhile id bs = bs"
  by (induction bs) auto

lemma takeWhile_snoc: "takeWhile id (bs @ [f]) = (if False \<in> set bs then takeWhile id bs else if f then bs @ [f] else bs)"
  by (induction bs) auto

lemma conditions_all_true: "conditions c bs \<Longrightarrow> cond_all_true c \<longleftrightarrow> False \<notin> set bs"
  using length_takeWhile_False [of bs] by (auto simp: conditions_def cond_all_true_def word_unat_eq_iff)

lemma conditions_empty: "conditions c bs \<Longrightarrow> cond_empty c \<longleftrightarrow> bs = []"
  by (auto simp: conditions_def cond_empty_def unat_eq_0 simp flip: length_0_conv unat_eq_0)

lemma unat_inc: "unat (x :: u32) < unat NO_FALSE \<Longrightarrow> unat (x + 1) = unat x + 1"
  by (simp add: unat_word_ariths NO_FALSE_def)

lemma unat_dec: "x \<noteq> 0 \<Longrightarrow> unat (x - 1 :: u32) = unat x - 1"
  by (rule unat_minus_one)

lemma conditions_push:
  "conditions c bs \<Longrightarrow> length bs + 1 < unat NO_FALSE \<Longrightarrow> conditions (cond_push_back f c) (bs @ [f])"
  using length_takeWhile_False [of bs]
  by (auto simp: conditions_def cond_push_back_def Let_def unat_inc takeWhile_snoc word_unat_eq_iff)

lemma conditions_pop:
  assumes "conditions c bs" "bs \<noteq> []"
  shows "\<exists>c'. cond_pop_back c = Inr c' \<and> conditions c' (butlast bs)"
proof -
  obtain ys y where bs: "bs = ys @ [y]" using assms(2) by (cases bs rule: rev_cases) auto
  have n: "m_stack_size c \<noteq> 0" using assms bs by (auto simp: conditions_def)
  then show ?thesis
    using assms length_takeWhile_False [of ys] unat_dec [OF n] unfolding bs
    by (auto simp: conditions_def cond_pop_back_def Let_def takeWhile_snoc word_unat_eq_iff [of "m_first_false_pos c"])
qed

lemma conditions_toggle:
  assumes "conditions c bs" "bs \<noteq> []"
  shows "\<exists>c'. cond_toggle_top c = Inr c' \<and> conditions c' (butlast bs @ [\<not> last bs])"
proof -
  obtain ys y where bs: "bs = ys @ [y]" using assms(2) by (cases bs rule: rev_cases) auto
  have n: "m_stack_size c \<noteq> 0" using assms bs by (auto simp: conditions_def)
  then show ?thesis
    using assms length_takeWhile_False [of ys] unat_dec [OF n] unfolding bs
    by (auto simp: conditions_def cond_toggle_top_def takeWhile_snoc word_unat_eq_iff [of "m_first_false_pos c"])
qed

text \<open>
  C39: the constant-time \<open>ConditionStack\<close> behaves as the stack of booleans it stands for, as long as its length can be
  counted: the empty one is the empty list, its test of all conditions is that none is false, and pushing, popping and
  toggling the innermost condition act on the list, where popping and toggling fail on the empty stack only.
\<close>

theorem condition_stack_refines_list:
  assumes "conditions c bs" "length bs + 1 < unat NO_FALSE"
  shows "cond_empty c = (bs = []) \<and> cond_all_true c = (False \<notin> set bs) \<and> conditions (cond_push_back f c) (bs @ [f]) \<and>
    (if bs = [] then cond_pop_back c = Inl ScriptAbort \<and> cond_toggle_top c = Inl ScriptAbort
     else (\<exists>c'. cond_pop_back c = Inr c' \<and> conditions c' (butlast bs)) \<and>
          (\<exists>c'. cond_toggle_top c = Inr c' \<and> conditions c' (butlast bs @ [\<not> last bs])))"
proof (cases "bs = []")
  case True
  then have "m_stack_size c = 0" using conditions_empty [OF assms(1)] by (simp add: cond_empty_def)
  then show ?thesis
    using True conditions_all_true [OF assms(1)] conditions_empty [OF assms(1)] conditions_push [OF assms]
    by (simp add: cond_pop_back_def cond_toggle_top_def)
next
  case False
  then show ?thesis
    using conditions_all_true [OF assms(1)] conditions_empty [OF assms(1)] conditions_push [OF assms]
      conditions_pop [OF assms(1)] conditions_toggle [OF assms(1)]
    by simp
qed

lemma conditions_init: "conditions cond_init []"
  by (simp add: conditions_def cond_init_def NO_FALSE_def)

theorem condition_stack_refines_list_witness:
  "cond_all_true (cond_push_back False (cond_push_back True cond_init)) = False \<and>
   (\<exists>c'. cond_toggle_top (cond_push_back False (cond_push_back True cond_init)) = Inr c' \<and> conditions c' [True, True])"
proof -
  have n: "unat NO_FALSE = 4294967295" by (simp add: NO_FALSE_def)
  have "conditions (cond_push_back True cond_init) [True]" using conditions_push [OF conditions_init] n by simp
  then have "conditions (cond_push_back False (cond_push_back True cond_init)) [True, False]"
    using conditions_push [of _ "[True]" False] n by simp
  from condition_stack_refines_list [OF this, of True] n show ?thesis by simp
qed

end
