(* ===== verification/SigHash.thy ===== *)
theory SigHash
  imports ScriptLimits TxWire
begin

text \<open>
  The hash that a signature signs: \<open>CTransactionSignatureSerializer\<close> and \<open>SignatureHash\<close> of
  \<open>src/script/interpreter.cpp\<close>, and the old version of it kept in \<open>src/test/sighash_tests.cpp\<close>. The hash function is an
  argument; \<open>None\<close> is a failed assertion.
\<close>

section \<open>The script\<close>

text \<open>The position after a failed \<open>GetScriptOp\<close>.\<close>

definition failed_pc :: "bytes \<Rightarrow> bytes" where
  "failed_pc pc =
     (case pc of
        [] \<Rightarrow> []
      | opcode # pc \<Rightarrow>
          if opcode \<le> OP_PUSHDATA4 then (case push_size opcode pc of None \<Rightarrow> pc | Some (_, pc) \<Rightarrow> pc) else pc)"

function count_separators :: "bytes \<Rightarrow> nat" where
  "count_separators pc =
     (case GetScriptOp pc of
        None \<Rightarrow> 0
      | Some (opcode, _, rest) \<Rightarrow> (if opcode = OP_CODESEPARATOR then 1 else 0) + count_separators rest)"
  by pat_completeness auto
termination by (relation "measure length") (auto dest: GetScriptOp_less)

declare count_separators.simps [simp del]

function write_code_loop :: "bytes \<Rightarrow> bytes \<Rightarrow> bytes" where
  "write_code_loop itBegin it =
     (case GetScriptOp it of
        None \<Rightarrow> if itBegin \<noteq> [] then take (length itBegin - length (failed_pc it)) itBegin else []
      | Some (opcode, _, rest) \<Rightarrow>
          if opcode = OP_CODESEPARATOR then take (length itBegin - length rest - 1) itBegin @ write_code_loop rest rest
          else write_code_loop itBegin rest)"
  by pat_completeness auto
termination by (relation "measure (\<lambda>(b, it). length it)") (auto dest: GetScriptOp_less)

declare write_code_loop.simps [simp del]

definition SerializeScriptCode :: "bytes \<Rightarrow> bytes" where
  "SerializeScriptCode scriptCode =
     WriteCompactSize (length scriptCode - count_separators scriptCode) @ write_code_loop scriptCode scriptCode"

section \<open>The transaction\<close>

definition SIGHASH_NONE :: u32 where "SIGHASH_NONE = 2"

record sig_serializer =
  txTo :: CTransaction
  scriptCode :: bytes
  nIn :: nat
  fAnyoneCanPay :: bool
  fHashSingle :: bool
  fHashNone :: bool

definition sig_serializer_init :: "CTransaction \<Rightarrow> bytes \<Rightarrow> nat \<Rightarrow> u32 \<Rightarrow> sig_serializer" where
  "sig_serializer_init tx code k nHashType =
     \<lparr>txTo = tx, scriptCode = code, nIn = k, fAnyoneCanPay = (nHashType AND ucast SIGHASH_ANYONECANPAY \<noteq> 0),
      fHashSingle = (nHashType AND 0x1f = ucast SIGHASH_SINGLE), fHashNone = (nHashType AND 0x1f = SIGHASH_NONE)\<rparr>"

definition SerializeInput :: "sig_serializer \<Rightarrow> nat \<Rightarrow> bytes" where
  "SerializeInput s nInput =
     (let nInput = (if fAnyoneCanPay s then nIn s else nInput);
          txin = vin (txTo s) ! nInput
      in write_COutPoint (prevout txin) @
         (if nInput \<noteq> nIn s then write_bytes [] else SerializeScriptCode (scriptCode s)) @
         (if nInput \<noteq> nIn s \<and> (fHashSingle s \<or> fHashNone s) then ser_writedata32 0 else ser_writedata32 (nSequence txin)))"

definition CTxOut_null :: CTxOut where
  "CTxOut_null = \<lparr>out_nValue = - 1, scriptPubKey = []\<rparr>"

definition SerializeOutput :: "sig_serializer \<Rightarrow> nat \<Rightarrow> bytes" where
  "SerializeOutput s nOutput =
     (if fHashSingle s \<and> nOutput \<noteq> nIn s then write_CTxOut CTxOut_null else write_CTxOut (vout (txTo s) ! nOutput))"

definition sig_serialize :: "sig_serializer \<Rightarrow> bytes" where
  "sig_serialize s =
     (let tx = txTo s;
          nInputs = (if fAnyoneCanPay s then 1 else length (vin tx));
          nOutputs = (if fHashNone s then 0 else if fHashSingle s then nIn s + 1 else length (vout tx))
      in ser_writedata32 (n32bitVersion tx) @
         WriteCompactSize nInputs @ concat (map (SerializeInput s) [0..<nInputs]) @
         WriteCompactSize nOutputs @ concat (map (SerializeOutput s) [0..<nOutputs]) @
         ser_writedata32 (nLockTime tx) @
         (if nVersion tx \<ge> SPECIAL_VERSION \<and> nType tx \<noteq> TRANSACTION_NORMAL then write_bytes (vExtraPayload tx) else []))"

definition uint256_ONE :: uint256 where
  "uint256_ONE = UInt256 (1 # replicate 31 0)"

definition SignatureHash :: "(bytes \<Rightarrow> uint256) \<Rightarrow> bytes \<Rightarrow> CTransaction \<Rightarrow> nat \<Rightarrow> u32 \<Rightarrow> uint256 option" where
  "SignatureHash H code tx k nHashType =
     (if \<not> k < length (vin tx) then None
      else if nHashType AND 0x1f = ucast SIGHASH_SINGLE \<and> k \<ge> length (vout tx) then Some uint256_ONE
      else Some (H (sig_serialize (sig_serializer_init tx code k nHashType) @ ser_writedata32 nHashType)))"

section \<open>The old version\<close>

definition blank_sequences :: "nat \<Rightarrow> CTxIn list \<Rightarrow> CTxIn list" where
  "blank_sequences k ins = map (\<lambda>i. if i \<noteq> k then (ins ! i)\<lparr>nSequence := 0\<rparr> else ins ! i) [0..<length ins]"

definition SignatureHashOld :: "(bytes \<Rightarrow> uint256) \<Rightarrow> bytes \<Rightarrow> CTransaction \<Rightarrow> nat \<Rightarrow> u32 \<Rightarrow> uint256" where
  "SignatureHashOld H code tx k nHashType =
     (if k \<ge> length (vin tx) then uint256_ONE
      else
        let code = snd (FindAndDelete code [OP_CODESEPARATOR]);
            ins = (map (\<lambda>txin. txin\<lparr>scriptSig := []\<rparr>) (vin tx))[k := (vin tx ! k)\<lparr>scriptSig := code\<rparr>];
            single = (nHashType AND 0x1f = ucast SIGHASH_SINGLE)
        in if nHashType AND 0x1f \<noteq> SIGHASH_NONE \<and> single \<and> k \<ge> length (vout tx) then uint256_ONE
           else
             let (ins, outs) =
                   (if nHashType AND 0x1f = SIGHASH_NONE then (blank_sequences k ins, [])
                    else if single then (blank_sequences k ins, replicate k CTxOut_null @ [vout tx ! k])
                    else (ins, vout tx));
                 ins = (if nHashType AND ucast SIGHASH_ANYONECANPAY \<noteq> 0 then [ins ! k] else ins)
             in H (write_CTransaction (tx\<lparr>vin := ins, vout := outs\<rparr>) @ ser_writedata32 nHashType))"

section \<open>Scripts that can be read to their end\<close>

function parses :: "bytes \<Rightarrow> bool" where
  "parses pc = (if pc = [] then True else case GetScriptOp pc of None \<Rightarrow> False | Some (_, _, rest) \<Rightarrow> parses rest)"
  by pat_completeness auto
termination by (relation "measure length") (auto dest: GetScriptOp_less)

declare parses.simps [simp del]

text \<open>The script without its code separators.\<close>

function strip :: "bytes \<Rightarrow> bytes" where
  "strip pc =
     (case GetScriptOp pc of
        None \<Rightarrow> []
      | Some (opcode, _, rest) \<Rightarrow>
          (if opcode = OP_CODESEPARATOR then [] else take (length pc - length rest) pc) @ strip rest)"
  by pat_completeness auto
termination by (relation "measure length") (auto dest: GetScriptOp_less)

declare strip.simps [simp del]

lemma GetScriptOp_suffix:
  assumes "GetScriptOp pc = Some (opcode, v, rest)"
  shows "\<exists>p. pc = p @ rest \<and> p \<noteq> [] \<and> hd p = opcode \<and> (opcode = OP_CODESEPARATOR \<longrightarrow> length p = 1)"
proof -
  obtain r where pc: "pc = opcode # r" and r: "\<exists>q. r = q @ rest"
  proof (cases pc)
    case (Cons a r)
    show ?thesis
    proof (cases "a \<le> OP_PUSHDATA4")
      case False
      then show ?thesis using that [of r] assms Cons by (auto simp: GetScriptOp_def)
    next
      case True
      then obtain n r' where n: "push_size a r = Some (n, r')" "\<not> length r' < n" "a = opcode" "rest = drop n r'"
        using assms Cons by (auto simp: GetScriptOp_def split: option.splits if_splits)
      have "\<exists>k. r' = drop k r" using n(1) by (auto simp: push_size_def split: if_splits intro: exI [of _ 0])
      then obtain k where "r' = drop k r" by blast
      then have "r = take (n + k) r @ rest" using n(4) by (simp add: add.commute)
      then show ?thesis using that [of r] Cons n(3) by blast
    qed
  qed (use assms in \<open>simp add: GetScriptOp_def\<close>)
  moreover have "rest = r" if "opcode = OP_CODESEPARATOR"
    using assms pc that by (simp add: GetScriptOp_def script_opcodes)
  ultimately obtain q where "r = q @ rest" "opcode = OP_CODESEPARATOR \<longrightarrow> q = []" by auto
  with pc show ?thesis by (intro exI [of _ "opcode # q"]) simp
qed

lemma parses_step:
  assumes "parses pc" "pc \<noteq> []"
  obtains opcode v rest p where "GetScriptOp pc = Some (opcode, v, rest)" "parses rest" "pc = p @ rest" "p \<noteq> []"
    "hd p = opcode" "opcode = OP_CODESEPARATOR \<longrightarrow> length p = 1"
proof -
  obtain opcode v rest where g: "GetScriptOp pc = Some (opcode, v, rest)" "parses rest"
    using assms parses.simps [of pc] by (cases "GetScriptOp pc") auto
  obtain p where "pc = p @ rest" "p \<noteq> []" "hd p = opcode" "opcode = OP_CODESEPARATOR \<longrightarrow> length p = 1"
    using GetScriptOp_suffix [OF g(1)] by blast
  with g show ?thesis by (rule that)
qed

lemma GetScriptOp_Nil: "GetScriptOp [] = None" "failed_pc [] = []"
  by (simp_all add: GetScriptOp_def failed_pc_def)

lemma strip_Nil: "strip [] = []" "count_separators [] = 0"
  by (simp_all add: strip.simps [of "[]"] count_separators.simps [of "[]"] GetScriptOp_Nil)

lemma write_code_loop_strip: "parses pc \<Longrightarrow> write_code_loop (pre @ pc) pc = pre @ strip pc"
proof (induction "length pc" arbitrary: pc pre rule: less_induct)
  case less
  show ?case
  proof (cases "pc = []")
    case True
    then show ?thesis by (simp add: write_code_loop.simps [of pre "[]"] strip_Nil GetScriptOp_Nil)
  next
    case False
    obtain opcode v rest p where g: "GetScriptOp pc = Some (opcode, v, rest)" "parses rest" "pc = p @ rest" "p \<noteq> []"
        "opcode = OP_CODESEPARATOR \<longrightarrow> length p = 1"
      using parses_step [OF less.prems False] by metis
    have shorter: "length rest < length pc" using g(3,4) by simp
    show ?thesis
      using less.hyps [OF shorter g(2), of "[]"] less.hyps [OF shorter g(2), of "pre @ p"] g
        write_code_loop.simps [of "pre @ pc" pc] strip.simps [of pc]
      by (cases "opcode = OP_CODESEPARATOR") simp_all
  qed
qed

lemma length_strip: "parses pc \<Longrightarrow> length (strip pc) + count_separators pc = length pc"
proof (induction "length pc" arbitrary: pc rule: less_induct)
  case less
  show ?case
  proof (cases "pc = []")
    case False
    obtain opcode v rest p where g: "GetScriptOp pc = Some (opcode, v, rest)" "parses rest" "pc = p @ rest" "p \<noteq> []"
        "opcode = OP_CODESEPARATOR \<longrightarrow> length p = 1"
      using parses_step [OF less.prems False] by metis
    have shorter: "length rest < length pc" using g(3,4) by simp
    show ?thesis
      using less.hyps [OF shorter g(2)] g strip.simps [of pc] count_separators.simps [of pc]
      by (cases "opcode = OP_CODESEPARATOR") simp_all
  qed (simp add: strip_Nil)
qed

lemma SerializeScriptCode_strip:
  assumes "parses pc"
  shows "SerializeScriptCode pc = write_bytes (strip pc)"
proof -
  have "length pc - count_separators pc = length (strip pc)" using length_strip [OF assms] by linarith
  then show ?thesis
    using write_code_loop_strip [OF assms, of "[]"] by (simp add: SerializeScriptCode_def write_bytes_def)
qed

lemma skip_separators:
  "parses pc \<Longrightarrow> skip_matches [OP_CODESEPARATOR] pc n = (n', pc') \<Longrightarrow>
     parses pc' \<and> strip pc' = strip pc \<and> n \<le> n' \<and> (n' = n \<longrightarrow> pc' = pc) \<and> (pc' = [] \<or> hd pc' \<noteq> OP_CODESEPARATOR) \<and>
     length pc' \<le> length pc"
proof (induction "length pc" arbitrary: pc n rule: less_induct)
  case less
  show ?case
  proof (cases pc)
    case Nil
    then show ?thesis using less.prems skip_matches.simps [of "[OP_CODESEPARATOR]" pc n] by simp
  next
    case (Cons a r)
    obtain opcode v rest p where g: "GetScriptOp pc = Some (opcode, v, rest)" "parses rest" "pc = p @ rest" "p \<noteq> []"
        "hd p = opcode" "opcode = OP_CODESEPARATOR \<longrightarrow> length p = 1"
      using Cons by (rule_tac parses_step [OF less.prems(1)]) blast+
    have a: "a = opcode" using g(3,4,5) Cons by (cases p) simp_all
    show ?thesis
    proof (cases "a = OP_CODESEPARATOR")
      case True
      have "rest = r" using True a g(3,4,6) Cons by (cases p) simp_all
      moreover have "skip_matches [OP_CODESEPARATOR] r (n + 1) = (n', pc')"
        using less.prems(2) skip_matches.simps [of "[OP_CODESEPARATOR]" pc n] Cons True by simp
      moreover have "strip pc = strip rest" using g(1) strip.simps [of pc] True a by simp
      ultimately show ?thesis using less.hyps [of r "n + 1"] g(2) Cons by auto
    next
      case False
      then have "(n', pc') = (n, pc)" using less.prems(2) skip_matches.simps [of "[OP_CODESEPARATOR]" pc n] Cons by simp
      then show ?thesis using less.prems(1) Cons False by simp
    qed
  qed
qed

lemma find_delete_separators:
  "parses pc \<Longrightarrow> find_delete_loop [OP_CODESEPARATOR] (pre @ pc) pc n result = (n', result') \<Longrightarrow>
     result' = result @ pre @ strip pc \<and> n \<le> n' \<and> (n' = n \<longrightarrow> strip pc = pc)"
proof (induction "length pc" arbitrary: pc pre n result rule: less_induct)
  case less
  obtain n1 pc1 where s: "skip_matches [OP_CODESEPARATOR] pc n = (n1, pc1)" by fastforce
  note ss = skip_separators [OF less.prems(1) s]
  note loop = find_delete_loop.simps [of "[OP_CODESEPARATOR]" "pre @ pc" pc n result]
  show ?case
  proof (cases "pc1 = []")
    case True
    then have "n' = n1" "result' = result @ pre" using less.prems(2) loop s by (simp_all add: GetScriptOp_Nil)
    then show ?thesis using ss True by (auto simp: strip_Nil)
  next
    case False
    have "parses pc1" using ss by blast
    then obtain opcode v rest p where g: "GetScriptOp pc1 = Some (opcode, v, rest)" "parses rest" "pc1 = p @ rest" "p \<noteq> []"
        "hd p = opcode"
      using False by (rule parses_step) blast
    have "opcode \<noteq> OP_CODESEPARATOR" using ss False g(3,4,5) by (cases p) auto
    then have strip: "strip pc1 = p @ strip rest" using g strip.simps [of pc1] by simp
    have "length rest < length pc" using ss g(3,4) by (cases p) auto
    moreover have "find_delete_loop [OP_CODESEPARATOR] (p @ rest) rest n1 (result @ pre) = (n', result')"
      using less.prems(2) loop s g(1,3) by simp
    ultimately have IH: "result' = (result @ pre) @ p @ strip rest \<and> n1 \<le> n' \<and> (n' = n1 \<longrightarrow> strip rest = rest)"
      using less.hyps [of rest p n1 "result @ pre"] g(2) by blast
    then show ?thesis using ss strip g(3) by auto
  qed
qed

lemma FindAndDelete_separators: "parses code \<Longrightarrow> snd (FindAndDelete code [OP_CODESEPARATOR]) = strip code"
  using find_delete_separators [of code "[]" 0 "[]"]
  by (auto simp: FindAndDelete_def Let_def split: prod.split)

section \<open>The two versions agree\<close>

lemma map_nth_upt: "length xs = n \<Longrightarrow> (\<And>i. i < n \<Longrightarrow> f i = g (xs ! i)) \<Longrightarrow> map f [0..<n] = map g xs"
  by (rule nth_equalityI) simp_all

definition signed_inputs :: "bytes \<Rightarrow> CTxIn list \<Rightarrow> nat \<Rightarrow> u32 \<Rightarrow> CTxIn list" where
  "signed_inputs code ins k t =
     (let ins = (map (\<lambda>txin. txin\<lparr>scriptSig := []\<rparr>) ins)[k := (ins ! k)\<lparr>scriptSig := code\<rparr>];
          ins = (if t AND 0x1f = SIGHASH_NONE \<or> t AND 0x1f = ucast SIGHASH_SINGLE then blank_sequences k ins else ins)
      in if t AND ucast SIGHASH_ANYONECANPAY \<noteq> 0 then [ins ! k] else ins)"

definition signed_outputs :: "CTxOut list \<Rightarrow> nat \<Rightarrow> u32 \<Rightarrow> CTxOut list" where
  "signed_outputs outs k t =
     (if t AND 0x1f = SIGHASH_NONE then []
      else if t AND 0x1f = ucast SIGHASH_SINGLE then replicate k CTxOut_null @ [outs ! k] else outs)"

lemma none_single: "SIGHASH_NONE \<noteq> (ucast SIGHASH_SINGLE :: u32)"
  by (simp add: SIGHASH_NONE_def SIGHASH_SINGLE_def)

lemma SignatureHashOld_eq:
  assumes "k < length (vin tx)" "parses code"
  shows "SignatureHashOld H code tx k t =
    (if t AND 0x1f = ucast SIGHASH_SINGLE \<and> k \<ge> length (vout tx) then uint256_ONE
     else H (write_CTransaction (tx\<lparr>vin := signed_inputs (strip code) (vin tx) k t, vout := signed_outputs (vout tx) k t\<rparr>) @
             ser_writedata32 t))"
  using assms none_single
  by (simp add: SignatureHashOld_def FindAndDelete_separators Let_def signed_inputs_def signed_outputs_def split: prod.split)

lemma SerializeInput_signed:
  assumes "parses code" "i < length (vin tx)" "t AND ucast SIGHASH_ANYONECANPAY = 0"
  shows "SerializeInput (sig_serializer_init tx code k t) i = write_CTxIn (signed_inputs (strip code) (vin tx) k t ! i)"
  using assms
  by (auto simp: SerializeInput_def sig_serializer_init_def signed_inputs_def write_CTxIn_def blank_sequences_def
      SerializeScriptCode_strip nth_list_update Let_def)

lemma SerializeInput_anyone:
  assumes "parses code" "k < length (vin tx)" "t AND ucast SIGHASH_ANYONECANPAY \<noteq> 0"
  shows "SerializeInput (sig_serializer_init tx code k t) i = write_CTxIn (signed_inputs (strip code) (vin tx) k t ! 0)"
  using assms
  by (auto simp: SerializeInput_def sig_serializer_init_def signed_inputs_def write_CTxIn_def blank_sequences_def
      SerializeScriptCode_strip nth_list_update Let_def)

lemma sig_serialize_eq:
  assumes "k < length (vin tx)" "parses code" "t AND 0x1f = ucast SIGHASH_SINGLE \<longrightarrow> k < length (vout tx)"
  shows "sig_serialize (sig_serializer_init tx code k t) =
    write_CTransaction (tx\<lparr>vin := signed_inputs (strip code) (vin tx) k t, vout := signed_outputs (vout tx) k t\<rparr>)"
proof -
  let ?s = "sig_serializer_init tx code k t" and ?ins = "signed_inputs (strip code) (vin tx) k t"
    and ?outs = "signed_outputs (vout tx) k t"
  define m where "m = (if fAnyoneCanPay ?s then 1 else length (vin tx))"
  define n where "n = (if fHashNone ?s then 0 else if fHashSingle ?s then k + 1 else length (vout tx))"
  have m: "length ?ins = m"
    by (simp add: m_def sig_serializer_init_def signed_inputs_def blank_sequences_def Let_def)
  have ins: "map (SerializeInput ?s) [0..<m] = map write_CTxIn ?ins"
  proof (rule map_nth_upt [OF m])
    fix i assume "i < m"
    then show "SerializeInput ?s i = write_CTxIn (?ins ! i)"
      using SerializeInput_signed [OF assms(2), of i tx t k] SerializeInput_anyone [OF assms(2,1), of t i]
      by (cases "t AND ucast SIGHASH_ANYONECANPAY = 0") (simp_all add: m_def sig_serializer_init_def)
  qed
  have n: "length ?outs = n"
    by (simp add: n_def sig_serializer_init_def signed_outputs_def)
  have outs: "map (SerializeOutput ?s) [0..<n] = map write_CTxOut ?outs"
  proof (rule map_nth_upt [OF n])
    fix i assume "i < n"
    then show "SerializeOutput ?s i = write_CTxOut (?outs ! i)"
      by (auto simp: n_def SerializeOutput_def sig_serializer_init_def signed_outputs_def nth_append none_single
          dest: less_antisym split: if_splits)
  qed
  have fields: "txTo ?s = tx" "nIn ?s = k" by (simp_all add: sig_serializer_init_def)
  show ?thesis
    unfolding sig_serialize_def write_CTransaction_def Let_def fields
    using ins outs m n
    by (simp add: write_vector_def n32bitVersion_def HasExtraPayloadField_def flip: m_def n_def)
qed

lemma SignatureHash_Old:
  assumes "k < length (vin tx)" "parses code"
  shows "SignatureHash H code tx k t = Some (SignatureHashOld H code tx k t)"
  using assms sig_serialize_eq [OF assms, of t] SignatureHashOld_eq [OF assms, of H t]
  by (auto simp: SignatureHash_def)

text \<open>
  C5: \<open>SignatureHash\<close>, which serializes the transaction with the changes made on the way, is the old version, which
  changes a copy of the transaction and serializes that: for every type of hash, input and transaction, and for every
  script that can be read to its end.
\<close>

theorem signature_hash_is_old:
  assumes "k < length (vin tx)" "parses code"
  shows "SignatureHash H code tx k t = Some (SignatureHashOld H code tx k t)"
  by (rule SignatureHash_Old [OF assms])

definition example_signed :: CTransaction where
  "example_signed = \<lparr>tx_hash = uint256_zero, nVersion = 2, nType = 0,
     vin = [\<lparr>prevout = COutPoint uint256_ONE 0, scriptSig = [1, 2], nSequence = 5\<rparr>,
            \<lparr>prevout = COutPoint uint256_ONE 1, scriptSig = [], nSequence = 6\<rparr>],
     vout = [\<lparr>out_nValue = 1, scriptPubKey = [OP_1]\<rparr>, \<lparr>out_nValue = 2, scriptPubKey = []\<rparr>, \<lparr>out_nValue = 3, scriptPubKey = []\<rparr>],
     nLockTime = 7, vExtraPayload = []\<rparr>"

definition example_signed_in :: "u32 \<Rightarrow> bytes \<Rightarrow> CTxIn" where
  "example_signed_in n s = \<lparr>prevout = COutPoint uint256_ONE n, scriptSig = s, nSequence = n + 5\<rparr>"

theorem signature_hash_is_old_witness:
  "SignatureHash UInt256 [OP_DUP, OP_CODESEPARATOR, OP_CHECKSIG] example_signed 1 3 =
     Some (SignatureHashOld UInt256 [OP_DUP, OP_CODESEPARATOR, OP_CHECKSIG] example_signed 1 3)"
proof -
  have "1 < length (vin example_signed)" by (simp add: example_signed_def)
  moreover have "parses [OP_DUP, OP_CODESEPARATOR, OP_CHECKSIG]" by code_simp
  ultimately show ?thesis by (rule signature_hash_is_old)
qed

text \<open>
  C40: what a signature leaves open. Its hash does not depend on the scripts of any input; with \<open>SIGHASH_ANYONECANPAY\<close>
  not on the other inputs either, with \<open>SIGHASH_NONE\<close> not on the outputs and with \<open>SIGHASH_SINGLE\<close> on no output but the
  one at the index of the input.
\<close>

theorem signature_leaves_open:
  assumes "k < length (vin tx)" "parses code"
    and "k < length ins" "if t AND ucast SIGHASH_ANYONECANPAY \<noteq> 0 then ins ! k = vin tx ! k else ins = vin tx"
    and "if t AND 0x1f = SIGHASH_NONE then True
         else if t AND 0x1f = ucast SIGHASH_SINGLE then k < length outs \<and> k < length (vout tx) \<and> outs ! k = vout tx ! k
         else outs = vout tx"
  shows "SignatureHash H code (tx\<lparr>vin := map (\<lambda>txin. txin\<lparr>scriptSig := f txin\<rparr>) ins, vout := outs\<rparr>) k t = SignatureHash H code tx k t"
proof -
  let ?tx = "tx\<lparr>vin := map (\<lambda>txin. txin\<lparr>scriptSig := f txin\<rparr>) ins, vout := outs\<rparr>"
  have k: "k < length (vin ?tx)" using assms(3) by simp
  have i: "signed_inputs (strip code) (vin ?tx) k t = signed_inputs (strip code) (vin tx) k t"
  proof (cases "t AND ucast SIGHASH_ANYONECANPAY \<noteq> 0")
    case True
    then show ?thesis using assms(1,3,4) by (simp add: signed_inputs_def blank_sequences_def Let_def)
  next
    case False
    then show ?thesis using assms(1,4) by (simp add: signed_inputs_def comp_def)
  qed
  have o: "signed_outputs (vout ?tx) k t = signed_outputs (vout tx) k t"
    using assms(5) by (auto simp: signed_outputs_def split: if_splits)
  have l: "t AND 0x1f = ucast SIGHASH_SINGLE \<and> k \<ge> length (vout ?tx) \<longleftrightarrow> t AND 0x1f = ucast SIGHASH_SINGLE \<and> k \<ge> length (vout tx)"
    using assms(5) none_single by (auto split: if_splits)
  have "write_CTransaction (?tx\<lparr>vin := xs, vout := ys\<rparr>) = write_CTransaction (tx\<lparr>vin := xs, vout := ys\<rparr>)" for xs ys
    by simp
  with i o l have "SignatureHashOld H code ?tx k t = SignatureHashOld H code tx k t"
    unfolding SignatureHashOld_eq [OF k assms(2)] SignatureHashOld_eq [OF assms(1,2)] by (simp only:)
  then show ?thesis unfolding SignatureHash_Old [OF k assms(2)] SignatureHash_Old [OF assms(1,2)] by (rule arg_cong)
qed

theorem signature_leaves_open_witness:
  "SignatureHash UInt256 [OP_CHECKSIG]
     (example_signed\<lparr>vin := [example_signed_in 9 [7], example_signed_in 1 [7]], vout := [CTxOut_null, vout example_signed ! 1]\<rparr>) 1 0x83 =
   SignatureHash UInt256 [OP_CHECKSIG] example_signed 1 0x83"
proof -
  let ?ins = "[example_signed_in 9 [], example_signed_in 1 []]" and ?outs = "[CTxOut_null, vout example_signed ! 1]"
  have k: "1 < length (vin example_signed)" by (simp add: example_signed_def)
  have p: "parses [OP_CHECKSIG]" by code_simp
  have t: "(0x83 :: u32) AND ucast SIGHASH_ANYONECANPAY \<noteq> 0" "(0x83 :: u32) AND 0x1f = ucast SIGHASH_SINGLE"
      "(0x83 :: u32) AND 0x1f \<noteq> SIGHASH_NONE"
    by (code_simp, code_simp, code_simp)
  have i: "if (0x83 :: u32) AND ucast SIGHASH_ANYONECANPAY \<noteq> 0 then ?ins ! 1 = vin example_signed ! 1 else ?ins = vin example_signed"
    unfolding if_P [OF t(1)] by (simp add: example_signed_def example_signed_in_def)
  have o: "if (0x83 :: u32) AND 0x1f = SIGHASH_NONE then True
      else if (0x83 :: u32) AND 0x1f = ucast SIGHASH_SINGLE
        then 1 < length ?outs \<and> 1 < length (vout example_signed) \<and> ?outs ! 1 = vout example_signed ! 1
      else ?outs = vout example_signed"
    unfolding if_not_P [OF t(3)] if_P [OF t(2)] by (simp add: example_signed_def)
  have "1 < length ?ins" by simp
  from signature_leaves_open [OF k p this i o, of UInt256 "\<lambda>_. [7]"] show ?thesis
    by (simp add: example_signed_in_def)
qed

end
