(* ===== verification/ScriptPolicy.thy ===== *)
theory ScriptPolicy
  imports ScriptFlags
begin

text \<open>
  The script flags of blocks and of the memory pool: \<open>GetBlockScriptFlags\<close> of \<open>src/validation.cpp\<close> with the buried
  deployments of \<open>src/consensus/params.h\<close> and \<open>src/deploymentstatus.h\<close>, and the standard flags of
  \<open>src/policy/policy.h\<close>.
\<close>

section \<open>Deployments\<close>

datatype BuriedDeployment =
    DEPLOYMENT_HEIGHTINCB | DEPLOYMENT_DERSIG | DEPLOYMENT_CLTV | DEPLOYMENT_BIP147 | DEPLOYMENT_CSV | DEPLOYMENT_DIP0001
  | DEPLOYMENT_DIP0003 | DEPLOYMENT_DIP0008 | DEPLOYMENT_DIP0020 | DEPLOYMENT_DIP0024 | DEPLOYMENT_BRR | DEPLOYMENT_V19
  | DEPLOYMENT_V20 | DEPLOYMENT_MN_RR | DEPLOYMENT_WITHDRAWALS

text \<open>The heights of \<open>Consensus::Params\<close>.\<close>

record deployment_params =
  d_BIP34Height :: int
  d_BIP66Height :: int
  d_BIP65Height :: int
  d_BIP147Height :: int
  d_CSVHeight :: int
  d_DIP0001Height :: int
  d_DIP0003Height :: int
  d_DIP0008Height :: int
  d_DIP0020Height :: int
  d_DIP0024Height :: int
  d_BRRHeight :: int
  d_V19Height :: int
  d_V20Height :: int
  d_MN_RRHeight :: int
  d_WithdrawalsHeight :: int

fun DeploymentHeight :: "deployment_params \<Rightarrow> BuriedDeployment \<Rightarrow> int" where
  "DeploymentHeight p DEPLOYMENT_HEIGHTINCB = d_BIP34Height p"
| "DeploymentHeight p DEPLOYMENT_DERSIG = d_BIP66Height p"
| "DeploymentHeight p DEPLOYMENT_CLTV = d_BIP65Height p"
| "DeploymentHeight p DEPLOYMENT_BIP147 = d_BIP147Height p"
| "DeploymentHeight p DEPLOYMENT_CSV = d_CSVHeight p"
| "DeploymentHeight p DEPLOYMENT_DIP0001 = d_DIP0001Height p"
| "DeploymentHeight p DEPLOYMENT_DIP0003 = d_DIP0003Height p"
| "DeploymentHeight p DEPLOYMENT_DIP0008 = d_DIP0008Height p"
| "DeploymentHeight p DEPLOYMENT_DIP0020 = d_DIP0020Height p"
| "DeploymentHeight p DEPLOYMENT_DIP0024 = d_DIP0024Height p"
| "DeploymentHeight p DEPLOYMENT_BRR = d_BRRHeight p"
| "DeploymentHeight p DEPLOYMENT_V19 = d_V19Height p"
| "DeploymentHeight p DEPLOYMENT_V20 = d_V20Height p"
| "DeploymentHeight p DEPLOYMENT_MN_RR = d_MN_RRHeight p"
| "DeploymentHeight p DEPLOYMENT_WITHDRAWALS = d_WithdrawalsHeight p"

definition DeploymentActiveAt :: "int \<Rightarrow> deployment_params \<Rightarrow> BuriedDeployment \<Rightarrow> bool" where
  "DeploymentActiveAt nHeight p dep \<longleftrightarrow> nHeight \<ge> DeploymentHeight p dep"

definition DeploymentActiveAfter :: "int option \<Rightarrow> deployment_params \<Rightarrow> BuriedDeployment \<Rightarrow> bool" where
  "DeploymentActiveAfter prev p dep \<longleftrightarrow> (case prev of None \<Rightarrow> 0 | Some h \<Rightarrow> h + 1) \<ge> DeploymentHeight p dep"

section \<open>Flags\<close>

definition GetBlockScriptFlags :: "int \<Rightarrow> deployment_params \<Rightarrow> u32" where
  "GetBlockScriptFlags nHeight p =
     (let flags = 0;
          flags = flags OR SCRIPT_VERIFY_P2SH;
          flags = (if DeploymentActiveAt nHeight p DEPLOYMENT_DERSIG then flags OR SCRIPT_VERIFY_DERSIG else flags);
          flags = (if DeploymentActiveAt nHeight p DEPLOYMENT_CLTV then flags OR SCRIPT_VERIFY_CHECKLOCKTIMEVERIFY else flags);
          flags = (if DeploymentActiveAt nHeight p DEPLOYMENT_CSV then flags OR SCRIPT_VERIFY_CHECKSEQUENCEVERIFY else flags);
          flags = (if DeploymentActiveAt nHeight p DEPLOYMENT_BIP147 then flags OR SCRIPT_VERIFY_NULLDUMMY else flags)
      in flags)"

definition MANDATORY_SCRIPT_VERIFY_FLAGS :: u32 where
  "MANDATORY_SCRIPT_VERIFY_FLAGS = SCRIPT_VERIFY_P2SH"

definition STANDARD_SCRIPT_VERIFY_FLAGS :: u32 where
  "STANDARD_SCRIPT_VERIFY_FLAGS = MANDATORY_SCRIPT_VERIFY_FLAGS OR SCRIPT_VERIFY_DERSIG OR SCRIPT_VERIFY_STRICTENC OR
     SCRIPT_VERIFY_MINIMALDATA OR SCRIPT_VERIFY_NULLDUMMY OR SCRIPT_VERIFY_DISCOURAGE_UPGRADABLE_NOPS OR
     SCRIPT_VERIFY_CLEANSTACK OR SCRIPT_VERIFY_NULLFAIL OR SCRIPT_VERIFY_CHECKLOCKTIMEVERIFY OR
     SCRIPT_VERIFY_CHECKSEQUENCEVERIFY OR SCRIPT_VERIFY_LOW_S OR SCRIPT_VERIFY_CONST_SCRIPTCODE"

definition STANDARD_NOT_MANDATORY_VERIFY_FLAGS :: u32 where
  "STANDARD_NOT_MANDATORY_VERIFY_FLAGS = STANDARD_SCRIPT_VERIFY_FLAGS AND NOT MANDATORY_SCRIPT_VERIFY_FLAGS"

lemma flags_of_deployments:
  "(let f = SCRIPT_VERIFY_P2SH OR (if a then SCRIPT_VERIFY_DERSIG else 0) OR
        (if b then SCRIPT_VERIFY_CHECKLOCKTIMEVERIFY else 0) OR (if c then SCRIPT_VERIFY_CHECKSEQUENCEVERIFY else 0) OR
        (if d then SCRIPT_VERIFY_NULLDUMMY else 0)
    in f AND STANDARD_SCRIPT_VERIFY_FLAGS = f \<and> f AND SCRIPT_VERIFY_CLEANSTACK = 0)"
  by (cases a; cases b; cases c; cases d; simp only: if_True if_False; code_simp)

lemma block_flags_standard:
  "GetBlockScriptFlags nHeight p AND STANDARD_SCRIPT_VERIFY_FLAGS = GetBlockScriptFlags nHeight p"
  "GetBlockScriptFlags nHeight p AND SCRIPT_VERIFY_CLEANSTACK = 0"
proof -
  let ?active = "DeploymentActiveAt nHeight p"
  have "GetBlockScriptFlags nHeight p = SCRIPT_VERIFY_P2SH OR (if ?active DEPLOYMENT_DERSIG then SCRIPT_VERIFY_DERSIG else 0) OR
      (if ?active DEPLOYMENT_CLTV then SCRIPT_VERIFY_CHECKLOCKTIMEVERIFY else 0) OR
      (if ?active DEPLOYMENT_CSV then SCRIPT_VERIFY_CHECKSEQUENCEVERIFY else 0) OR
      (if ?active DEPLOYMENT_BIP147 then SCRIPT_VERIFY_NULLDUMMY else 0)"
    by (simp add: GetBlockScriptFlags_def Let_def or.assoc)
  with flags_of_deployments [of "?active DEPLOYMENT_DERSIG" "?active DEPLOYMENT_CLTV" "?active DEPLOYMENT_CSV"
      "?active DEPLOYMENT_BIP147"]
  show "GetBlockScriptFlags nHeight p AND STANDARD_SCRIPT_VERIFY_FLAGS = GetBlockScriptFlags nHeight p"
    "GetBlockScriptFlags nHeight p AND SCRIPT_VERIFY_CLEANSTACK = 0"
    by (simp_all only: Let_def)
qed

interpretation block: fewer_flags "GetBlockScriptFlags nHeight p" STANDARD_SCRIPT_VERIFY_FLAGS for nHeight p
  by unfold_locales (rule block_flags_standard)

text \<open>
  what the memory pool accepts a block may hold: a script that passes under the standard flags passes under the flags
  of a block at every height and for all heights of the deployments. This is what the second check of the memory pool,
  against the flags of the tip, calls a bug when it fails.
\<close>

theorem standard_scripts_valid_in_blocks:
  assumes "VerifyScript cr checker STANDARD_SCRIPT_VERIFY_FLAGS sig script = Inr ()"
  shows "VerifyScript cr checker (GetBlockScriptFlags nHeight p) sig script = Inr ()"
  using assms block_flags_standard(2) by (intro block.VerifyScript) simp_all

definition example_deployments :: deployment_params where
  "example_deployments = \<lparr>d_BIP34Height = 1, d_BIP66Height = 1, d_BIP65Height = 1, d_BIP147Height = 1, d_CSVHeight = 1,
     d_DIP0001Height = 1, d_DIP0003Height = 1, d_DIP0008Height = 1, d_DIP0020Height = 1, d_DIP0024Height = 1,
     d_BRRHeight = 1, d_V19Height = 1, d_V20Height = 1, d_MN_RRHeight = 1, d_WithdrawalsHeight = 1\<rparr>"

theorem standard_scripts_valid_in_blocks_witness:
  "VerifyScript example_crypto example_checker (GetBlockScriptFlags 100 example_deployments) (push_data [OP_1]) example_p2sh
     = Inr ()"
proof -
  have "VerifyScript example_crypto example_checker STANDARD_SCRIPT_VERIFY_FLAGS (push_data [OP_1]) example_p2sh = Inr ()"
    by code_simp
  then show ?thesis by (rule standard_scripts_valid_in_blocks)
qed

end
