(* ===== verification/TxScripts.thy ===== *)
theory TxScripts
  imports BlockSpec SigHash ScriptPolicy
begin

text \<open>
  The scripts of a transaction: the counts of signature operations of \<open>src/consensus/tx_verify.cpp\<close>, and
  \<open>CScriptCheck\<close> and \<open>CheckInputScripts\<close> of \<open>src/validation.cpp\<close>, with the messages of \<open>src/script/script_error.cpp\<close>. The
  cache of script executions is an argument, whether it holds the transaction with these flags; the checks are made at
  once and not queued.
\<close>

section \<open>Signature operations\<close>

definition GetLegacySigOpCount :: "CTransaction \<Rightarrow> nat" where
  "GetLegacySigOpCount tx =
     sum_list (map (\<lambda>txin. GetSigOpCount False (scriptSig txin)) (vin tx)) +
     sum_list (map (\<lambda>txout. GetSigOpCount False (scriptPubKey txout)) (vout tx))"

primrec p2sh_sigops_loop ::
  "'v view_ops \<Rightarrow> (bytes \<Rightarrow> u64) \<Rightarrow> CTxIn list \<Rightarrow> nat \<Rightarrow> 'v coins_cache \<Rightarrow> (tx_error + nat) \<times> 'v coins_cache"
where
  "p2sh_sigops_loop ops du [] nSigOps c = (Inr nSigOps, c)"
| "p2sh_sigops_loop ops du (txin # ins) nSigOps c =
     (let (coin, c) = AccessCoin ops du (prevout txin) c
      in if IsSpent coin then (Inl TxAssertion, c)
         else
           let spk = scriptPubKey (coin_out coin)
           in p2sh_sigops_loop ops du ins
                (if IsPayToScriptHash spk then nSigOps + GetSigOpCount_P2SH spk (scriptSig txin) else nSigOps) c)"

definition GetP2SHSigOpCount ::
  "'v view_ops \<Rightarrow> (bytes \<Rightarrow> u64) \<Rightarrow> CTransaction \<Rightarrow> 'v coins_cache \<Rightarrow> (tx_error + nat) \<times> 'v coins_cache" where
  "GetP2SHSigOpCount ops du tx c = (if IsCoinBase tx then (Inr 0, c) else p2sh_sigops_loop ops du (vin tx) 0 c)"

definition GetTransactionSigOpCount ::
  "'v view_ops \<Rightarrow> (bytes \<Rightarrow> u64) \<Rightarrow> CTransaction \<Rightarrow> u32 \<Rightarrow> 'v coins_cache \<Rightarrow> (tx_error + nat) \<times> 'v coins_cache" where
  "GetTransactionSigOpCount ops du tx flags c =
     (let nSigOps = GetLegacySigOpCount tx
      in if IsCoinBase tx then (Inr nSigOps, c)
         else if flags AND SCRIPT_VERIFY_P2SH \<noteq> 0
         then (case GetP2SHSigOpCount ops du tx c of (Inl e, c) \<Rightarrow> (Inl e, c) | (Inr n, c) \<Rightarrow> (Inr (nSigOps + n), c))
         else (Inr nSigOps, c))"

section \<open>Checking the inputs\<close>

fun ScriptErrorString :: "ScriptError \<Rightarrow> string" where
  "ScriptErrorString SCRIPT_ERR_OK = ''No error''"
| "ScriptErrorString SCRIPT_ERR_EVAL_FALSE = ''Script evaluated without error but finished with a false/empty top stack element''"
| "ScriptErrorString SCRIPT_ERR_VERIFY = ''Script failed an OP_VERIFY operation''"
| "ScriptErrorString SCRIPT_ERR_EQUALVERIFY = ''Script failed an OP_EQUALVERIFY operation''"
| "ScriptErrorString SCRIPT_ERR_CHECKMULTISIGVERIFY = ''Script failed an OP_CHECKMULTISIGVERIFY operation''"
| "ScriptErrorString SCRIPT_ERR_CHECKSIGVERIFY = ''Script failed an OP_CHECKSIGVERIFY operation''"
| "ScriptErrorString SCRIPT_ERR_CHECKDATASIGVERIFY = ''Script failed an OP_CHECKDATASIGVERIFY operation''"
| "ScriptErrorString SCRIPT_ERR_NUMEQUALVERIFY = ''Script failed an OP_NUMEQUALVERIFY operation''"
| "ScriptErrorString SCRIPT_ERR_SCRIPT_SIZE = ''Script is too big''"
| "ScriptErrorString SCRIPT_ERR_PUSH_SIZE = ''Push value size limit exceeded''"
| "ScriptErrorString SCRIPT_ERR_OP_COUNT = ''Operation limit exceeded''"
| "ScriptErrorString SCRIPT_ERR_STACK_SIZE = ''Stack size limit exceeded''"
| "ScriptErrorString SCRIPT_ERR_SIG_COUNT = ''Signature count negative or greater than pubkey count''"
| "ScriptErrorString SCRIPT_ERR_PUBKEY_COUNT = ''Pubkey count negative or limit exceeded''"
| "ScriptErrorString SCRIPT_ERR_BAD_OPCODE = ''Opcode missing or not understood''"
| "ScriptErrorString SCRIPT_ERR_DISABLED_OPCODE = ''Attempted to use a disabled opcode''"
| "ScriptErrorString SCRIPT_ERR_INVALID_STACK_OPERATION = ''Operation not valid with the current stack size''"
| "ScriptErrorString SCRIPT_ERR_INVALID_ALTSTACK_OPERATION = ''Operation not valid with the current altstack size''"
| "ScriptErrorString SCRIPT_ERR_OP_RETURN = ''OP_RETURN was encountered''"
| "ScriptErrorString SCRIPT_ERR_UNBALANCED_CONDITIONAL = ''Invalid OP_IF construction''"
| "ScriptErrorString SCRIPT_ERR_INVALID_SPLIT_RANGE = ''Invalid OP_SPLIT range''"
| "ScriptErrorString SCRIPT_ERR_INVALID_OPERAND_SIZE = ''Invalid operand size''"
| "ScriptErrorString SCRIPT_ERR_INVALID_NUMBER_RANGE = ''Given operand is not a number within the valid range [-2^31...2^31]''"
| "ScriptErrorString SCRIPT_ERR_IMPOSSIBLE_ENCODING = ''The requested encoding is impossible to satisfy''"
| "ScriptErrorString SCRIPT_ERR_DIV_BY_ZERO = ''Division by zero error''"
| "ScriptErrorString SCRIPT_ERR_MOD_BY_ZERO = ''Modulo by zero error''"
| "ScriptErrorString SCRIPT_ERR_NEGATIVE_LOCKTIME = ''Negative locktime''"
| "ScriptErrorString SCRIPT_ERR_UNSATISFIED_LOCKTIME = ''Locktime requirement not satisfied''"
| "ScriptErrorString SCRIPT_ERR_SIG_HASHTYPE = ''Signature hash type missing or not understood''"
| "ScriptErrorString SCRIPT_ERR_SIG_DER = ''Non-canonical DER signature''"
| "ScriptErrorString SCRIPT_ERR_MINIMALDATA = ''Data push larger than necessary''"
| "ScriptErrorString SCRIPT_ERR_SIG_PUSHONLY = ''Only push operators allowed in signatures''"
| "ScriptErrorString SCRIPT_ERR_SIG_HIGH_S = ''Non-canonical signature: S value is unnecessarily high''"
| "ScriptErrorString SCRIPT_ERR_SIG_NULLDUMMY = ''Dummy CHECKMULTISIG argument must be zero''"
| "ScriptErrorString SCRIPT_ERR_SIG_NULLFAIL = ''Signature must be zero for failed CHECK(MULTI)SIG operation''"
| "ScriptErrorString SCRIPT_ERR_DISCOURAGE_UPGRADABLE_NOPS = ''NOPx reserved for soft-fork upgrades''"
| "ScriptErrorString SCRIPT_ERR_PUBKEYTYPE = ''Public key is neither compressed or uncompressed''"
| "ScriptErrorString SCRIPT_ERR_CLEANSTACK = ''Stack size must be exactly one after execution''"
| "ScriptErrorString SCRIPT_ERR_OP_CODESEPARATOR = ''Using OP_CODESEPARATOR''"
| "ScriptErrorString SCRIPT_ERR_SIG_FINDANDDELETE = ''Signature is found in scriptCode''"
| "ScriptErrorString SCRIPT_ERR_UNKNOWN_ERROR = ''unknown error''"

text \<open>The checker for input \<open>i\<close>, with the hash that is signed; \<open>i\<close> is the index of an input.\<close>

definition input_checker :: "script_crypto \<Rightarrow> (bytes \<Rightarrow> uint256) \<Rightarrow> CTransaction \<Rightarrow> nat \<Rightarrow> signature_checker" where
  "input_checker cr H tx i =
     tx_checker cr (\<lambda>code nHashType. m_data (the (SignatureHash H code tx i (ucast nHashType)))) tx i"

definition CScriptCheck ::
  "script_crypto \<Rightarrow> (bytes \<Rightarrow> uint256) \<Rightarrow> CTxOut \<Rightarrow> CTransaction \<Rightarrow> nat \<Rightarrow> u32 \<Rightarrow> unit script_result" where
  "CScriptCheck cr H m_tx_out tx i nFlags =
     VerifyScript cr (input_checker cr H tx i) nFlags (scriptSig (vin tx ! i)) (scriptPubKey m_tx_out)"

text \<open>What follows a failed check of input \<open>i\<close> with the error \<open>e\<close>.\<close>

definition script_failure ::
  "script_crypto \<Rightarrow> (bytes \<Rightarrow> uint256) \<Rightarrow> CTxOut \<Rightarrow> CTransaction \<Rightarrow> nat \<Rightarrow> u32 \<Rightarrow> ScriptError \<Rightarrow> tx_error" where
  "script_failure cr H m_tx_out tx i flags e =
     (let mandatory = TxInvalid TX_CONSENSUS (''mandatory-script-verify-flag-failed ('' @ ScriptErrorString e @ '')'')
      in if flags AND STANDARD_NOT_MANDATORY_VERIFY_FLAGS \<noteq> 0 then
           (case CScriptCheck cr H m_tx_out tx i (flags AND NOT STANDARD_NOT_MANDATORY_VERIFY_FLAGS) of
              Inr _ \<Rightarrow> TxInvalid TX_NOT_STANDARD (''non-mandatory-script-verify-flag ('' @ ScriptErrorString e @ '')'')
            | Inl ScriptAbort \<Rightarrow> TxAssertion
            | Inl (ScriptErr _) \<Rightarrow> mandatory)
         else mandatory)"

primrec check_scripts_loop ::
  "'v view_ops \<Rightarrow> (bytes \<Rightarrow> u64) \<Rightarrow> script_crypto \<Rightarrow> (bytes \<Rightarrow> uint256) \<Rightarrow> CTransaction \<Rightarrow> u32 \<Rightarrow> nat list \<Rightarrow> 'v coins_cache
     \<Rightarrow> (tx_error + unit) \<times> 'v coins_cache"
where
  "check_scripts_loop ops du cr H tx flags [] c = (Inr (), c)"
| "check_scripts_loop ops du cr H tx flags (i # is) c =
     (let (coin, c) = AccessCoin ops du (prevout (vin tx ! i)) c
      in if IsSpent coin then (Inl TxAssertion, c)
         else case CScriptCheck cr H (coin_out coin) tx i flags of
           Inr _ \<Rightarrow> check_scripts_loop ops du cr H tx flags is c
         | Inl ScriptAbort \<Rightarrow> (Inl TxAssertion, c)
         | Inl (ScriptErr e) \<Rightarrow> (Inl (script_failure cr H (coin_out coin) tx i flags e), c))"

definition CheckInputScripts ::
  "'v view_ops \<Rightarrow> (bytes \<Rightarrow> u64) \<Rightarrow> script_crypto \<Rightarrow> (bytes \<Rightarrow> uint256) \<Rightarrow> bool \<Rightarrow> CTransaction \<Rightarrow> u32 \<Rightarrow> 'v coins_cache
     \<Rightarrow> (tx_error + unit) \<times> 'v coins_cache"
where
  "CheckInputScripts ops du cr H cached tx flags c =
     (if IsCoinBase tx then (Inr (), c)
      else if cached then (Inr (), c)
      else check_scripts_loop ops du cr H tx flags [0..<length (vin tx)] c)"

section \<open>What the checks do\<close>

context coins_cache_base
begin

lemma p2sh_sigops_loop_spec:
  assumes "cinv c" "p2sh_sigops_loop ops du ins n c = (r, c')"
  shows "cinv c' \<and> cutxo c' = cutxo c \<and> cbest c' = cbest c"
  using assms
proof (induction ins arbitrary: n c)
  case (Cons i ins)
  obtain coin d where a: "AccessCoin ops du (prevout i) c = (coin, d)" by fastforce
  note as = AccessCoin_spec [OF Cons.prems(1) a]
  show ?case
  proof (cases "IsSpent coin")
    case True
    then show ?thesis using Cons.prems(2) a as by auto
  next
    case False
    let ?spk = "scriptPubKey (coin_out coin)"
    have "p2sh_sigops_loop ops du ins (if IsPayToScriptHash ?spk then n + GetSigOpCount_P2SH ?spk (scriptSig i) else n) d = (r, c')"
      using Cons.prems(2) a False by (simp only: p2sh_sigops_loop.simps prod.case Let_def if_False)
    from Cons.IH [OF as(2) this] show ?thesis using as(3,4) by simp
  qed
qed simp

lemma GetTransactionSigOpCount_spec:
  assumes "cinv c" "GetTransactionSigOpCount ops du tx flags c = (r, c')"
  shows "cinv c' \<and> cutxo c' = cutxo c \<and> cbest c' = cbest c"
proof (cases "IsCoinBase tx \<or> flags AND SCRIPT_VERIFY_P2SH = 0")
  case False
  obtain r1 d where d: "p2sh_sigops_loop ops du (vin tx) 0 c = (r1, d)" by fastforce
  then have "c' = d" using False assms(2)
    by (auto simp: GetTransactionSigOpCount_def GetP2SHSigOpCount_def split: sum.splits)
  then show ?thesis using p2sh_sigops_loop_spec [OF assms(1) d] by simp
qed (use assms in \<open>auto simp: GetTransactionSigOpCount_def Let_def split: if_splits\<close>)

lemma check_scripts_loop_spec:
  assumes "cinv c" "check_scripts_loop ops du cr H tx flags is c = (r, c')"
  shows "cinv c' \<and> cutxo c' = cutxo c \<and> cbest c' = cbest c \<and>
    (r = Inr () \<longleftrightarrow> (\<forall>i \<in> set is. \<exists>coin. cutxo c (prevout (vin tx ! i)) = Some coin \<and>
       CScriptCheck cr H (coin_out coin) tx i flags = Inr ()))"
  using assms
proof (induction "is" arbitrary: c)
  case (Cons i "is")
  obtain coin d where a: "AccessCoin ops du (prevout (vin tx ! i)) c = (coin, d)" by fastforce
  note as = AccessCoin_spec [OF Cons.prems(1) a]
  show ?case
  proof (cases "IsSpent coin")
    case True
    then have "cutxo c (prevout (vin tx ! i)) = None"
      using as(1) cutxo_unspent [OF Cons.prems(1)] by (auto split: option.splits)
    then show ?thesis using Cons.prems(2) a as True by auto
  next
    case False
    then have coin: "cutxo c (prevout (vin tx ! i)) = Some coin" using as(1) by (auto split: option.splits)
    show ?thesis
    proof (cases "CScriptCheck cr H (coin_out coin) tx i flags")
      case (Inl e)
      then show ?thesis using Cons.prems(2) a as(2-4) coin False by (cases e) auto
    next
      case (Inr u)
      then have "check_scripts_loop ops du cr H tx flags is d = (r, c')" using Cons.prems(2) a False by simp
      from Cons.IH [OF as(2) this] show ?thesis using as(3,4) coin Inr by simp
    qed
  qed
qed simp

lemma CheckInputScripts_spec:
  assumes "cinv c" "CheckInputScripts ops du cr H cached tx flags c = (r, c')"
  shows "cinv c'" "cutxo c' = cutxo c" "cbest c' = cbest c"
    "\<not> cached \<Longrightarrow> r = Inr () \<longleftrightarrow> IsCoinBase tx \<or>
       (\<forall>i < length (vin tx). \<exists>coin. cutxo c (prevout (vin tx ! i)) = Some coin \<and>
          CScriptCheck cr H (coin_out coin) tx i flags = Inr ())"
proof -
  have "cinv c' \<and> cutxo c' = cutxo c \<and> cbest c' = cbest c \<and> (\<not> cached \<longrightarrow> (r = Inr () \<longleftrightarrow> IsCoinBase tx \<or>
      (\<forall>i < length (vin tx). \<exists>coin. cutxo c (prevout (vin tx ! i)) = Some coin \<and>
          CScriptCheck cr H (coin_out coin) tx i flags = Inr ())))"
  proof (cases "IsCoinBase tx \<or> cached")
    case True
    then show ?thesis using assms by (auto simp: CheckInputScripts_def split: if_splits)
  next
    case False
    then have "check_scripts_loop ops du cr H tx flags [0..<length (vin tx)] c = (r, c')"
      using assms(2) by (simp add: CheckInputScripts_def)
    from check_scripts_loop_spec [OF assms(1) this] show ?thesis using False by (auto simp: Ball_def)
  qed
  then show "cinv c'" "cutxo c' = cutxo c" "cbest c' = cbest c"
    "\<not> cached \<Longrightarrow> r = Inr () \<longleftrightarrow> IsCoinBase tx \<or>
       (\<forall>i < length (vin tx). \<exists>coin. cutxo c (prevout (vin tx ! i)) = Some coin \<and>
          CScriptCheck cr H (coin_out coin) tx i flags = Inr ())"
    by blast+
qed

end

section \<open>The memory pool and blocks\<close>

text \<open>
  C8: the second check of the memory pool cannot fail. A transaction whose scripts pass under the standard flags passes
  them under the flags of a block at every height, on every cache that shows the same coins; this is the check that
  \<open>ConsensusScriptChecks\<close> repeats and whose failure it reports as a bug.
\<close>

theorem standard_scripts_pass_in_blocks:
  assumes "coins_view ops utxo best vinv" "du [] = 0" "cache_inv utxo vinv du c" "cache_inv utxo vinv du c2"
    and "cache_utxo utxo c2 = cache_utxo utxo c"
    and "CheckInputScripts ops du cr H False tx STANDARD_SCRIPT_VERIFY_FLAGS c = (Inr (), c1)"
    and "CheckInputScripts ops du cr H cached tx (GetBlockScriptFlags nHeight p) c2 = (r, c3)"
  shows "r = Inr () \<and> cache_utxo utxo c3 = cache_utxo utxo c"
proof -
  have l: "coins_cache_base ops utxo best vinv du"
    using assms(1,2) by (simp add: coins_cache_base_def coins_cache_base_axioms_def)
  note standard = coins_cache_base.CheckInputScripts_spec [OF l assms(3,6)]
  note blk = coins_cache_base.CheckInputScripts_spec [OF l assms(4,7)]
  have pass: "CScriptCheck cr H t tx i (GetBlockScriptFlags nHeight p) = Inr ()"
    if "CScriptCheck cr H t tx i STANDARD_SCRIPT_VERIFY_FLAGS = Inr ()" for t i
    using that block_flags_standard(2) unfolding CScriptCheck_def by (intro block.VerifyScript) simp_all
  have "r = Inr ()"
  proof (cases cached)
    case True
    then show ?thesis using assms(7) by (auto simp: CheckInputScripts_def split: if_splits)
  next
    case False
    then show ?thesis using standard(4) blk(4) pass unfolding assms(5) by blast
  qed
  then show ?thesis using blk(2) assms(5) by simp
qed

definition script_tx :: CTransaction where
  "script_tx = \<lparr>tx_hash = example_hash 3, nVersion = 2, nType = 0, vin = [example_in 0], vout = [], nLockTime = 0, vExtraPayload = []\<rparr>"

theorem standard_scripts_pass_in_blocks_witness:
  "fst (CheckInputScripts (db_ops (\<lambda>_. False) 0) script_usage example_crypto example_sum False script_tx
     (GetBlockScriptFlags 100 example_deployments) (new_cache example_db)) = Inr ()"
proof -
  let ?ops = "db_ops (\<lambda>_. False) 0" and ?c = "new_cache example_db"
  have v: "coins_view ?ops db_utxo DB_GetBestBlock db_inv" by (rule db.coins_view_axioms)
  have du: "script_usage [] = 0" by (simp add: script_usage_def MallocUsage_def)
  have c: "cache_inv db_utxo db_inv script_usage ?c" by (rule tip.new_cache_inv [OF example_db_inv])
  have l: "coins_cache_base ?ops db_utxo DB_GetBestBlock db_inv script_usage"
    using v du by (simp add: coins_cache_base_def coins_cache_base_axioms_def)
  obtain r1 c1 where s: "CheckInputScripts ?ops script_usage example_crypto example_sum False script_tx
      STANDARD_SCRIPT_VERIFY_FLAGS ?c = (r1, c1)" by fastforce
  have "CScriptCheck example_crypto example_sum (coin_out example_coin) script_tx 0 STANDARD_SCRIPT_VERIFY_FLAGS = Inr ()"
    by code_simp
  moreover have "cache_utxo db_utxo ?c (prevout (vin script_tx ! 0)) = Some example_coin"
    by (simp add: new_cache_def cache_utxo_def db_utxo_def example_db_def script_tx_def example_in_def)
  moreover have "length (vin script_tx) = 1" by (simp add: script_tx_def)
  ultimately have r1: "r1 = Inr ()" using coins_cache_base.CheckInputScripts_spec(4) [OF l c s] by simp
  obtain r c3 where b: "CheckInputScripts ?ops script_usage example_crypto example_sum False script_tx
      (GetBlockScriptFlags 100 example_deployments) ?c = (r, c3)" by fastforce
  show ?thesis using standard_scripts_pass_in_blocks [OF v du c c refl s [unfolded r1] b] b by simp
qed

end
