(* ===== verification/BlockConnect.thy ===== *)
theory BlockConnect
  imports TxScripts TxLocks
begin

text \<open>
  The loop of \<open>ConnectBlock\<close> of \<open>src/validation.cpp\<close> over the transactions of a block, with all its checks, and the check
  against overwritten transactions before it. Without the optional indexes and the queue of script checks.
\<close>

section \<open>Definitions\<close>

definition MAX_DIP0001_BLOCK_SIZE :: nat where "MAX_DIP0001_BLOCK_SIZE = 2000000"

definition MaxBlockSize :: "bool \<Rightarrow> nat" where
  "MaxBlockSize fDIP0001Active = (if fDIP0001Active then MAX_DIP0001_BLOCK_SIZE else MAX_LEGACY_BLOCK_SIZE)"

definition MaxBlockSigOps :: "bool \<Rightarrow> nat" where
  "MaxBlockSigOps fDIP0001Active = MaxBlockSize fDIP0001Active div 50"

text \<open>A block is refused with a reason, or the process fails in one of its parts.\<close>

datatype block_error = BlockInvalid string | BlockTx tx_error | BlockCoins coins_error

definition tx_failed :: "tx_error \<Rightarrow> block_error" where
  "tx_failed e = (case e of TxInvalid _ reason \<Rightarrow> BlockInvalid reason | _ \<Rightarrow> BlockTx e)"

text \<open>What the loop reads of the chain state, the block and the parameters.\<close>

record ('v, 'g) connect_env =
  ce_ops :: "'v view_ops"
  ce_du :: "bytes \<Rightarrow> u64"
  ce_bls :: "'g bls_scheme"
  ce_bls_legacy :: bool
  ce_crypto :: script_crypto
  ce_Hash :: "bytes \<Rightarrow> uint256"
  ce_cached :: "CTransaction \<Rightarrow> bool"
  ce_index :: block_map
  ce_pindex :: uint256
  ce_nHeight :: int
  ce_flags :: u32
  ce_nLockTimeFlags :: u32
  ce_fDIP0001Active :: bool
  ce_fScriptChecks :: bool

record connect_state =
  cs_nFees :: CAmount
  cs_nSigOps :: nat
  cs_vtxundo :: "CTxUndo list"

primrec prev_heights_loop ::
  "'v view_ops \<Rightarrow> (bytes \<Rightarrow> u64) \<Rightarrow> CTxIn list \<Rightarrow> 'v coins_cache \<Rightarrow> int list \<times> 'v coins_cache" where
  "prev_heights_loop ops du [] c = ([], c)"
| "prev_heights_loop ops du (txin # ins) c =
     (let (coin, c) = AccessCoin ops du (prevout txin) c;
          (hs, c) = prev_heights_loop ops du ins c
      in (uint (coin_nHeight coin) # hs, c))"

text \<open>The checks of a transaction that is not a coinbase: its inputs, the sum of the fees, and its relative locks.\<close>

definition connect_inputs ::
  "('v, 'g) connect_env \<Rightarrow> CTransaction \<Rightarrow> CAmount \<Rightarrow> 'v coins_cache \<Rightarrow> (block_error + CAmount) \<times> 'v coins_cache" where
  "connect_inputs env tx nFees c =
     (case CheckTxInputs (ce_ops env) (ce_du env) (ce_bls env) (ce_bls_legacy env) tx (ce_nHeight env) c of
        (Inl e, c) \<Rightarrow> (Inl (tx_failed e), c)
      | (Inr txfee, c) \<Rightarrow>
          (case i64 (nFees + txfee) of
             None \<Rightarrow> (Inl (BlockTx TxOverflow), c)
           | Some nFees \<Rightarrow>
               if \<not> MoneyRange nFees then (Inl (BlockInvalid ''bad-txns-accumulated-fee-outofrange''), c)
               else
                 let (prevheights, c) = prev_heights_loop (ce_ops env) (ce_du env) (vin tx) c
                 in case SequenceLocks (ce_index env) tx (ce_nLockTimeFlags env) prevheights (ce_pindex env) of
                      None \<Rightarrow> (Inl (BlockTx TxAssertion), c)
                    | Some fine \<Rightarrow>
                        if \<not> fine then (Inl (BlockInvalid ''bad-txns-nonfinal''), c) else (Inr nFees, c)))"

definition connect_sigops ::
  "('v, 'g) connect_env \<Rightarrow> CTransaction \<Rightarrow> nat \<Rightarrow> 'v coins_cache \<Rightarrow> (block_error + nat) \<times> 'v coins_cache" where
  "connect_sigops env tx nSigOps c =
     (case GetTransactionSigOpCount (ce_ops env) (ce_du env) tx (ce_flags env) c of
        (Inl e, c) \<Rightarrow> (Inl (tx_failed e), c)
      | (Inr n, c) \<Rightarrow>
          if nSigOps + n > MaxBlockSigOps (ce_fDIP0001Active env) then (Inl (BlockInvalid ''bad-blk-sigops''), c)
          else (Inr (nSigOps + n), c))"

definition connect_scripts ::
  "('v, 'g) connect_env \<Rightarrow> CTransaction \<Rightarrow> 'v coins_cache \<Rightarrow> (block_error + unit) \<times> 'v coins_cache" where
  "connect_scripts env tx c =
     (if ce_fScriptChecks env then
        (case CheckInputScripts (ce_ops env) (ce_du env) (ce_crypto env) (ce_Hash env) (ce_cached env tx) tx (ce_flags env) c of
           (Inl e, c) \<Rightarrow> (Inl (tx_failed e), c)
         | (Inr _, c) \<Rightarrow> (Inr (), c))
      else (Inr (), c))"

text \<open>One transaction, at index \<open>i\<close> of the block.\<close>

definition connect_tx ::
  "('v, 'g) connect_env \<Rightarrow> nat \<Rightarrow> CTransaction \<Rightarrow> connect_state \<Rightarrow> 'v coins_cache
     \<Rightarrow> (block_error + connect_state) \<times> 'v coins_cache"
where
  "connect_tx env i tx st c =
     (case (if \<not> IsCoinBase tx then connect_inputs env tx (cs_nFees st) c else (Inr (cs_nFees st), c)) of
        (Inl e, c) \<Rightarrow> (Inl e, c)
      | (Inr nFees, c) \<Rightarrow>
     (case connect_sigops env tx (cs_nSigOps st) c of
        (Inl e, c) \<Rightarrow> (Inl e, c)
      | (Inr nSigOps, c) \<Rightarrow>
     (case (if \<not> IsCoinBase tx then connect_scripts env tx c else (Inr (), c)) of
        (Inl e, c) \<Rightarrow> (Inl e, c)
      | (Inr _, c) \<Rightarrow>
     (case UpdateCoins (ce_ops env) (ce_du env) tx (ce_nHeight env) c of
        (Inl e, c) \<Rightarrow> (Inl (BlockCoins e), c)
      | (Inr undo, c) \<Rightarrow>
          (Inr \<lparr>cs_nFees = nFees, cs_nSigOps = nSigOps,
                cs_vtxundo = (if i > 0 then cs_vtxundo st @ [undo] else cs_vtxundo st)\<rparr>, c)))))"

primrec connect_loop ::
  "('v, 'g) connect_env \<Rightarrow> nat \<Rightarrow> CTransaction list \<Rightarrow> connect_state \<Rightarrow> 'v coins_cache
     \<Rightarrow> (block_error + connect_state) \<times> 'v coins_cache"
where
  "connect_loop env i [] st c = (Inr st, c)"
| "connect_loop env i (tx # vtx) st c =
     (case connect_tx env i tx st c of
        (Inl e, c) \<Rightarrow> (Inl e, c)
      | (Inr st, c) \<Rightarrow> connect_loop env (Suc i) vtx st c)"

text \<open>The check that no output of the block is an unspent coin already.\<close>

primrec overwrite_loop ::
  "'v view_ops \<Rightarrow> (bytes \<Rightarrow> u64) \<Rightarrow> COutPoint list \<Rightarrow> 'v coins_cache \<Rightarrow> bool \<times> 'v coins_cache" where
  "overwrite_loop ops du [] c = (False, c)"
| "overwrite_loop ops du (p # ps) c =
     (let (have, c) = HaveCoin ops du p c in if have then (True, c) else overwrite_loop ops du ps c)"

definition tx_outpoints :: "CTransaction \<Rightarrow> COutPoint list" where
  "tx_outpoints tx = map (\<lambda>j. COutPoint (tx_hash tx) (of_nat j)) [0..<length (vout tx)]"

text \<open>
  From the check against overwriting to the end of the loop; between them the first block of the superblocks is checked
  and the block's special transactions are processed, whose failure \<open>specials\<close> reports, \<open>None\<close> when there is none.
\<close>

definition connect_transactions ::
  "('v, 'g) connect_env \<Rightarrow> bool \<Rightarrow> block_error option \<Rightarrow> CTransaction list \<Rightarrow> 'v coins_cache
     \<Rightarrow> (block_error + connect_state) \<times> 'v coins_cache"
where
  "connect_transactions env fEnforceBIP30 specials vtx c =
     (let (found, c) = (if fEnforceBIP30 then overwrite_loop (ce_ops env) (ce_du env) (concat (map tx_outpoints vtx)) c
                        else (False, c))
      in if found then (Inl (BlockInvalid ''bad-txns-BIP30''), c)
         else case specials of
           Some e \<Rightarrow> (Inl e, c)
         | None \<Rightarrow> connect_loop env 0 vtx \<lparr>cs_nFees = 0, cs_nSigOps = 0, cs_vtxundo = []\<rparr> c)"

end
