(* ===== verification/BlockRules.thy ===== *)
theory BlockRules
  imports BlockConnect
begin

text \<open>What \<open>BlockConnect\<close> does to the map of unspent coins, and the properties of connecting and disconnecting.\<close>

section \<open>Cases of results\<close>

lemma case_result:
  "(case x of (Inl e, c) \<Rightarrow> (Inl (f e), c) | (Inr y, c) \<Rightarrow> g y c) = (Inr z, d) \<longleftrightarrow> (\<exists>y c. x = (Inr y, c) \<and> g y c = (Inr z, d))"
  by (cases x) (auto split: sum.splits)

section \<open>The checks\<close>

definition asset_unlock :: "CTransaction \<Rightarrow> bool" where
  "asset_unlock tx \<longleftrightarrow> nVersion tx \<ge> SPECIAL_VERSION \<and> nType tx = TRANSACTION_ASSET_UNLOCK"

definition value_in :: "CTransaction \<Rightarrow> (COutPoint \<Rightarrow> Coin option) \<Rightarrow> int" where
  "value_in tx m = sum_list (map (\<lambda>i. out_nValue (coin_out (the (m (prevout i))))) (vin tx))"

definition value_out :: "CTransaction \<Rightarrow> int" where
  "value_out tx = sum_list (map out_nValue (vout tx))"

text \<open>What the checks before the loop guarantee of a transaction.\<close>

definition tx_wf :: "CTransaction \<Rightarrow> bool" where
  "tx_wf tx \<longleftrightarrow> outputs_ok tx \<and> (\<not> IsCoinBase tx \<longrightarrow> distinct (map prevout (vin tx))) \<and> (asset_unlock tx \<longrightarrow> vin tx = [])"

definition tx_fee :: "CTransaction \<Rightarrow> (COutPoint \<Rightarrow> Coin option) \<Rightarrow> int" where
  "tx_fee tx m = (if IsCoinBase tx then 0 else value_in tx m - value_out tx)"

context coins_cache_base
begin

lemma CheckTxInputs_spec:
  assumes "cinv c" "CheckTxInputs ops du bls legacy tx h c = (Inr fee, c')"
  shows "cinv c'" "cutxo c' = cutxo c" "cbest c' = cbest c"
    "\<not> asset_unlock tx \<Longrightarrow> \<forall>i \<in> set (vin tx). cutxo c (prevout i) \<noteq> None"
    "\<not> asset_unlock tx \<Longrightarrow> fee = value_in tx (cutxo c) - value_out tx \<and> 0 \<le> fee"
proof -
  have "cinv c' \<and> cutxo c' = cutxo c \<and> cbest c' = cbest c \<and> (\<not> asset_unlock tx \<longrightarrow>
      (\<forall>i \<in> set (vin tx). cutxo c (prevout i) \<noteq> None) \<and> fee = value_in tx (cutxo c) - value_out tx \<and> 0 \<le> fee)"
  proof (cases "asset_unlock tx")
    case True
    then show ?thesis using assms by (auto simp: CheckTxInputs_def asset_unlock_def)
  next
    case False
    obtain b d where h: "HaveInputs ops du tx c = (b, d)" by fastforce
    note hs = HaveInputs_spec [OF assms(1) h]
    have b: "b" using assms(2) h False by (auto simp: CheckTxInputs_def asset_unlock_def split: if_splits)
    obtain s e where l: "check_inputs_loop ops du h (vin tx) 0 d = (s, e)" by fastforce
    have "0 \<le> MAX_MONEY" by (simp add: MAX_MONEY_def COIN_def)
    note ls = check_inputs_loop_spec [OF hs(2) l order_refl this, unfolded hs(3,4)]
    obtain v w where r: "s = Inr v" "GetValueOut tx = Inr w" "\<not> v < w" "MoneyRange (v - w)" "fee = v - w" "c' = e"
      using assms(2) h b l False
      by (auto simp: CheckTxInputs_def asset_unlock_def bad_consensus_def Let_def split: if_splits sum.splits)
    have w: "w = value_out tx" using r(2) by (simp add: GetValueOut_eq value_out_def split: if_splits)
    show ?thesis using ls r w hs(4) False by (auto simp: value_in_def)
  qed
  then show "cinv c'" "cutxo c' = cutxo c" "cbest c' = cbest c"
    "\<not> asset_unlock tx \<Longrightarrow> \<forall>i \<in> set (vin tx). cutxo c (prevout i) \<noteq> None"
    "\<not> asset_unlock tx \<Longrightarrow> fee = value_in tx (cutxo c) - value_out tx \<and> 0 \<le> fee"
    by blast+
qed

lemma prev_heights_loop_spec:
  assumes "cinv c" "prev_heights_loop ops du ins c = (hs, c')"
  shows "cinv c' \<and> cutxo c' = cutxo c \<and> cbest c' = cbest c"
  using assms
proof (induction ins arbitrary: c hs c')
  case (Cons i ins)
  obtain coin d where a: "AccessCoin ops du (prevout i) c = (coin, d)" by fastforce
  obtain hs1 e where l: "prev_heights_loop ops du ins d = (hs1, e)" by fastforce
  show ?case using Cons.IH [OF AccessCoin_spec(2) [OF Cons.prems(1) a] l] AccessCoin_spec(3,4) [OF Cons.prems(1) a] Cons.prems(2) a l
    by simp
qed simp

lemma overwrite_loop_spec:
  assumes "cinv c" "overwrite_loop ops du ps c = (b, c')"
  shows "cinv c' \<and> cutxo c' = cutxo c \<and> cbest c' = cbest c \<and> b = (\<exists>p \<in> set ps. cutxo c p \<noteq> None)"
  using assms
proof (induction ps arbitrary: c)
  case (Cons p ps)
  obtain h d where a: "HaveCoin ops du p c = (h, d)" by fastforce
  note hs = HaveCoin_spec [OF Cons.prems(1) a]
  show ?case using Cons.IH [OF hs(2)] Cons.prems(2) a hs by (cases h) simp_all
qed simp

text \<open>The environment uses this view.\<close>

definition env_ok :: "('a, 'g) connect_env \<Rightarrow> bool" where
  "env_ok env \<longleftrightarrow> ce_ops env = ops \<and> ce_du env = du"

lemma connect_inputs_spec:
  assumes "env_ok env" "cinv c" "connect_inputs env tx fees c = (Inr fees', c')"
  shows "cinv c'" "cutxo c' = cutxo c" "cbest c' = cbest c"
    "\<not> asset_unlock tx \<Longrightarrow> \<forall>i \<in> set (vin tx). cutxo c (prevout i) \<noteq> None"
    "\<not> asset_unlock tx \<Longrightarrow> fees' = fees + (value_in tx (cutxo c) - value_out tx)" "MoneyRange fees'"
proof -
  obtain fee d where t1: "CheckTxInputs ops du (ce_bls env) (ce_bls_legacy env) tx (ce_nHeight env) c = (Inr fee, d)"
      and rest: "(case i64 (fees + fee) of
             None \<Rightarrow> (Inl (BlockTx TxOverflow), d)
           | Some nFees \<Rightarrow>
               if \<not> MoneyRange nFees then (Inl (BlockInvalid ''bad-txns-accumulated-fee-outofrange''), d)
               else
                 let (prevheights, c) = prev_heights_loop ops du (vin tx) d
                 in case SequenceLocks (ce_index env) tx (ce_nLockTimeFlags env) prevheights (ce_pindex env) of
                      None \<Rightarrow> (Inl (BlockTx TxAssertion), c)
                    | Some fine \<Rightarrow>
                        if \<not> fine then (Inl (BlockInvalid ''bad-txns-nonfinal''), c) else (Inr nFees, c)) = (Inr fees', c')"
    using assms(1,3) unfolding connect_inputs_def case_result by (auto simp: env_ok_def)
  obtain hs e where p1: "prev_heights_loop ops du (vin tx) d = (hs, e)" by fastforce
  have "i64 (fees + fee) = Some fees' \<and> MoneyRange fees' \<and> e = c'"
    using rest p1 by (auto split: option.splits if_splits)
  with t1 p1 have t: "CheckTxInputs ops du (ce_bls env) (ce_bls_legacy env) tx (ce_nHeight env) c = (Inr fee, d)"
      "i64 (fees + fee) = Some fees'" "MoneyRange fees'" and p: "prev_heights_loop ops du (vin tx) d = (hs, c')"
    by simp_all
  note ts = CheckTxInputs_spec [OF assms(2) t(1)]
  note ps = prev_heights_loop_spec [OF ts(1) p]
  have "fees' = fees + fee" using t(2) by (simp add: i64_eq_Some)
  then show "cinv c'" "cutxo c' = cutxo c" "cbest c' = cbest c"
    "\<not> asset_unlock tx \<Longrightarrow> \<forall>i \<in> set (vin tx). cutxo c (prevout i) \<noteq> None"
    "\<not> asset_unlock tx \<Longrightarrow> fees' = fees + (value_in tx (cutxo c) - value_out tx)" "MoneyRange fees'"
    using ps ts t(3) by simp_all
qed

lemma connect_sigops_spec:
  assumes "env_ok env" "cinv c" "connect_sigops env tx n c = (Inr n', c')"
  shows "cinv c' \<and> cutxo c' = cutxo c \<and> cbest c' = cbest c \<and> n' \<le> MaxBlockSigOps (ce_fDIP0001Active env)"
proof -
  obtain k where g: "GetTransactionSigOpCount ops du tx (ce_flags env) c = (Inr k, c')" "n' \<le> MaxBlockSigOps (ce_fDIP0001Active env)"
    using assms(1,3) by (auto simp: connect_sigops_def env_ok_def case_result split: if_splits)
  then show ?thesis using GetTransactionSigOpCount_spec [OF assms(2) g(1)] by simp
qed

lemma connect_scripts_spec:
  assumes "env_ok env" "cinv c" "connect_scripts env tx c = (Inr u, c')"
  shows "cinv c' \<and> cutxo c' = cutxo c \<and> cbest c' = cbest c"
proof (cases "ce_fScriptChecks env")
  case True
  then obtain v where "CheckInputScripts ops du (ce_crypto env) (ce_Hash env) (ce_cached env tx) tx (ce_flags env) c = (Inr v, c')"
    using assms(1,3) by (auto simp: connect_scripts_def env_ok_def case_result)
  from CheckInputScripts_spec(1-3) [OF assms(2) this] show ?thesis by simp
qed (use assms in \<open>auto simp: connect_scripts_def\<close>)

lemma connect_tx_spec:
  assumes "env_ok env" "cinv c" "tx_wf tx" "fresh_tx tx (cutxo c)" "connect_tx env i tx st c = (Inr st', c')"
  shows "cinv c'" "cutxo c' = connect_map tx (ce_nHeight env) (cutxo c)" "cbest c' = cbest c" "inputs_ok tx (cutxo c)"
    "cs_vtxundo st' = cs_vtxundo st @ (if i > 0 then [\<lparr>vprevout = spent_coins tx (cutxo c)\<rparr>] else [])"
    "\<not> asset_unlock tx \<Longrightarrow> cs_nFees st' = cs_nFees st + tx_fee tx (cutxo c)"
    "cs_nSigOps st' \<le> MaxBlockSigOps (ce_fDIP0001Active env)"
    "MoneyRange (cs_nFees st) \<Longrightarrow> MoneyRange (cs_nFees st')"
proof -
  obtain fees c1 n c2 u c3 undo where
      s1: "(if \<not> IsCoinBase tx then connect_inputs env tx (cs_nFees st) c else (Inr (cs_nFees st), c)) = (Inr fees, c1)"
    and s2: "connect_sigops env tx (cs_nSigOps st) c1 = (Inr n, c2)"
    and s3: "(if \<not> IsCoinBase tx then connect_scripts env tx c2 else (Inr (), c2)) = (Inr u, c3)"
    and s4: "UpdateCoins ops du tx (ce_nHeight env) c3 = (Inr undo, c')"
    and st': "st' = \<lparr>cs_nFees = fees, cs_nSigOps = n, cs_vtxundo = (if i > 0 then cs_vtxundo st @ [undo] else cs_vtxundo st)\<rparr>"
    using assms(1,5) unfolding connect_tx_def case_result by (auto simp: env_ok_def)
  have e1: "cinv c1 \<and> cutxo c1 = cutxo c \<and> cbest c1 = cbest c \<and> (MoneyRange (cs_nFees st) \<longrightarrow> MoneyRange fees) \<and>
      (\<not> asset_unlock tx \<longrightarrow> fees = cs_nFees st + tx_fee tx (cutxo c) \<and> (\<not> IsCoinBase tx \<longrightarrow> (\<forall>i \<in> set (vin tx). cutxo c (prevout i) \<noteq> None)))"
  proof (cases "IsCoinBase tx")
    case False
    then have "connect_inputs env tx (cs_nFees st) c = (Inr fees, c1)" using s1 by simp
    from connect_inputs_spec [OF assms(1,2) this] show ?thesis using False by (simp add: tx_fee_def)
  qed (use s1 assms(2) in \<open>simp add: tx_fee_def\<close>)
  then have e2: "cinv c2 \<and> cutxo c2 = cutxo c \<and> cbest c2 = cbest c \<and> n \<le> MaxBlockSigOps (ce_fDIP0001Active env)"
    using connect_sigops_spec [OF assms(1) _ s2] by simp
  have e3: "cinv c3 \<and> cutxo c3 = cutxo c \<and> cbest c3 = cbest c"
  proof (cases "IsCoinBase tx")
    case False
    then have "connect_scripts env tx c2 = (Inr u, c3)" using s3 by simp
    from connect_scripts_spec [OF assms(1) _ this] e2 show ?thesis by simp
  qed (use s3 e2 in auto)
  show inputs: "inputs_ok tx (cutxo c)"
    using e1 assms(3) by (cases "asset_unlock tx") (auto simp: inputs_ok_def tx_wf_def)
  have "inputs_ok tx (cutxo c3)" "outputs_ok tx" "IsCoinBase tx \<or> fresh_tx tx (cutxo c3)"
    using e3 inputs assms(3,4) by (simp_all add: tx_wf_def)
  note us = UpdateCoins_spec [OF _ s4 this]
  show "cinv c'" "cutxo c' = connect_map tx (ce_nHeight env) (cutxo c)" "cbest c' = cbest c" using us e3 by simp_all
  show "cs_vtxundo st' = cs_vtxundo st @ (if i > 0 then [\<lparr>vprevout = spent_coins tx (cutxo c)\<rparr>] else [])"
    using us(1) e3 st' by simp
  show "\<not> asset_unlock tx \<Longrightarrow> cs_nFees st' = cs_nFees st + tx_fee tx (cutxo c)"
    "cs_nSigOps st' \<le> MaxBlockSigOps (ce_fDIP0001Active env)" "MoneyRange (cs_nFees st) \<Longrightarrow> MoneyRange (cs_nFees st')"
    using e1 e2 st' by simp_all
qed

end

section \<open>Sequences of transactions\<close>

primrec connect_maps :: "int \<Rightarrow> CTransaction list \<Rightarrow> (COutPoint \<Rightarrow> Coin option) \<Rightarrow> COutPoint \<Rightarrow> Coin option" where
  "connect_maps h [] m = m"
| "connect_maps h (tx # txs) m = connect_maps h txs (connect_map tx h m)"

primrec undos :: "int \<Rightarrow> CTransaction list \<Rightarrow> (COutPoint \<Rightarrow> Coin option) \<Rightarrow> CTxUndo list" where
  "undos h [] m = []"
| "undos h (tx # txs) m = \<lparr>vprevout = spent_coins tx m\<rparr> # undos h txs (connect_map tx h m)"

text \<open>Every transaction finds its inputs, and none of its outputs exists.\<close>

primrec stages_ok :: "int \<Rightarrow> CTransaction list \<Rightarrow> (COutPoint \<Rightarrow> Coin option) \<Rightarrow> bool" where
  "stages_ok h [] m \<longleftrightarrow> True"
| "stages_ok h (tx # txs) m \<longleftrightarrow> inputs_ok tx m \<and> fresh_tx tx m \<and> stages_ok h txs (connect_map tx h m)"

primrec fees :: "int \<Rightarrow> CTransaction list \<Rightarrow> (COutPoint \<Rightarrow> Coin option) \<Rightarrow> int" where
  "fees h [] m = 0"
| "fees h (tx # txs) m = tx_fee tx m + fees h txs (connect_map tx h m)"

definition block_fresh :: "CTransaction list \<Rightarrow> (COutPoint \<Rightarrow> Coin option) \<Rightarrow> bool" where
  "block_fresh txs m \<longleftrightarrow> distinct (map tx_hash txs) \<and> (\<forall>tx \<in> set txs. fresh_tx tx m)"

lemma block_fresh_Cons: "block_fresh (tx # txs) m \<Longrightarrow> fresh_tx tx m \<and> block_fresh txs (connect_map tx h m)"
  by (auto simp: block_fresh_def image_iff intro!: fresh_connect)

context coins_cache_base
begin

lemma connect_loop_spec:
  assumes "env_ok env" "cinv c" "list_all tx_wf txs" "block_fresh txs (cutxo c)" "connect_loop env i txs st c = (Inr st', c')"
  shows "cinv c' \<and> cutxo c' = connect_maps (ce_nHeight env) txs (cutxo c) \<and> cbest c' = cbest c \<and>
    stages_ok (ce_nHeight env) txs (cutxo c) \<and>
    cs_vtxundo st' = cs_vtxundo st @ drop (if i > 0 then 0 else 1) (undos (ce_nHeight env) txs (cutxo c)) \<and>
    (list_all (\<lambda>tx. \<not> asset_unlock tx) txs \<longrightarrow> cs_nFees st' = cs_nFees st + fees (ce_nHeight env) txs (cutxo c)) \<and>
    (MoneyRange (cs_nFees st) \<longrightarrow> MoneyRange (cs_nFees st'))"
  using assms
proof (induction txs arbitrary: i st c)
  case (Cons tx txs)
  obtain st1 d where t: "connect_tx env i tx st c = (Inr st1, d)" and l: "connect_loop env (Suc i) txs st1 d = (Inr st', c')"
    using Cons.prems(5) by (auto split: prod.splits sum.splits)
  have wf: "tx_wf tx" "list_all tx_wf txs" using Cons.prems(3) by simp_all
  note fr = block_fresh_Cons [OF Cons.prems(4), of "ce_nHeight env"]
  note ts = connect_tx_spec [OF Cons.prems(1,2) wf(1) conjunct1 [OF fr] t]
  have "block_fresh txs (cutxo d)" using fr ts(2) by simp
  note IH = Cons.IH [OF Cons.prems(1) ts(1) wf(2) this l]
  show ?case using IH ts(2-6,8) fr by auto
qed (use assms in auto)

lemma disconnect_loop_append:
  "disconnect_loop ops du h b (xs @ ys) f c =
     (case disconnect_loop ops du h b xs f c of
        (Inl e, c) \<Rightarrow> (Inl e, c)
      | (Inr None, c) \<Rightarrow> (Inr None, c)
      | (Inr (Some f), c) \<Rightarrow> disconnect_loop ops du h b ys f c)"
  by (induction xs arbitrary: f c) (auto split: prod.split sum.split option.split)

lemma disconnect_loop_spec:
  assumes "cinv c" "cutxo c = connect_maps h txs m"
    and "disconnect_loop ops du h b (rev (zip txs (map2 (\<lambda>tx u. if IsCoinBase tx then None else Some u) txs (undos h txs m)))) f c = (r, c')"
    and "stages_ok h txs m" "list_all outputs_ok txs" "coins_good m" "uint (word_of_int h :: 31 word) = h" "h \<noteq> 0"
  shows "r = Inr (Some f) \<and> cinv c' \<and> cutxo c' = m \<and> cbest c' = cbest c"
  using assms
proof (induction txs arbitrary: m r c')
  case (Cons tx txs)
  let ?m = "connect_map tx h m"
  let ?rest = "rev (zip txs (map2 (\<lambda>tx u. if IsCoinBase tx then None else Some u) txs (undos h txs ?m)))"
  let ?u = "if IsCoinBase tx then None else Some \<lparr>vprevout = spent_coins tx m\<rparr>"
  obtain r1 d where d: "disconnect_loop ops du h b ?rest f c = (r1, d)" by fastforce
  have w: "(word_of_int h :: 31 word) \<noteq> 0"
  proof
    assume "(word_of_int h :: 31 word) = 0"
    then show False using Cons.prems(7,8) by simp
  qed
  have "coins_good ?m" using Cons.prems(5,6) w by (intro coins_good_connect) simp_all
  then have IH: "r1 = Inr (Some f) \<and> cinv d \<and> cutxo d = ?m \<and> cbest d = cbest c"
    using Cons.prems by (intro Cons.IH [OF _ _ d]) simp_all
  obtain r2 e where e: "disconnect_tx ops du h b tx ?u f d = (r2, e)" by fastforce
  have ts: "r2 = Inr (Some f) \<and> cinv e \<and> cutxo e = m \<and> cbest e = cbest d"
    using IH Cons.prems(4-7) by (intro disconnect_tx_spec [OF _ _ e refl]) simp_all
  have "disconnect_loop ops du h b (?rest @ [(tx, ?u)]) f c = (Inr (Some f), e)"
    unfolding disconnect_loop_append d using IH ts e by simp
  then have "(r, c') = (Inr (Some f), e)" using Cons.prems(3) by simp
  then show ?case using ts IH by simp
qed simp

end

section \<open>Checked transactions\<close>

lemma length_concat_ge: "(\<And>x. 0 < length (f x)) \<Longrightarrow> length xs \<le> length (concat (map f xs))"
proof (induction xs)
  case (Cons x xs)
  then show ?case using Cons.prems [of x] by (simp add: Suc_le_eq add_strict_increasing)
qed simp

lemma CheckTransaction_wf:
  assumes "CheckTransaction tx = Inr ()"
  shows "outputs_ok tx \<and> distinct (map prevout (vin tx))"
proof -
  have c: "GetTotalSize tx \<le> MAX_LEGACY_BLOCK_SIZE" "\<exists>r. check_outputs (vout tx) 0 = Inr r"
      "\<exists>r. check_duplicates (vin tx) {} = Inr r"
    using assms by (auto simp: CheckTransaction_def Let_def split: if_splits sum.splits)
  have "length (vout tx) \<le> length (concat (map write_CTxOut (vout tx)))"
    by (rule length_concat_ge) (simp add: write_CTxOut_def write_i64_def ser_writedata64_def)
  also have "\<dots> \<le> GetTotalSize tx" by (simp add: GetTotalSize_def write_CTransaction_def write_vector_def)
  finally have "length (vout tx) \<le> 2 ^ 32" using c(1) by (simp add: MAX_LEGACY_BLOCK_SIZE_def)
  moreover have "list_all (\<lambda>t. 0 \<le> out_nValue t) (vout tx)"
    using c(2) check_outputs_Inr [of 0 "vout tx"] by (simp add: MAX_MONEY_def COIN_def)
  then have "list_all (\<lambda>t. \<not> CTxOut_IsNull t) (vout tx)" by (auto simp: list_all_iff CTxOut_IsNull_def)
  moreover have "distinct (map prevout (vin tx))" using c(3) check_duplicates_Inr [of "vin tx" "{}"] by simp
  ultimately show ?thesis by (simp add: outputs_ok_def)
qed

section \<open>Values\<close>

definition total_value :: "(COutPoint \<Rightarrow> Coin option) \<Rightarrow> int" where
  "total_value m = (\<Sum>p \<in> dom m. out_nValue (coin_out (the (m p))))"

definition burned :: "CTransaction \<Rightarrow> int" where
  "burned tx = sum_list (map out_nValue (filter (\<lambda>t. IsUnspendable (scriptPubKey t)) (vout tx)))"

lemma total_value_add:
  assumes "finite (dom m)" "finite (dom n)" "dom m \<inter> dom n = {}"
  shows "total_value (m ++ n) = total_value m + total_value n"
proof -
  have "total_value (m ++ n) = (\<Sum>p \<in> dom m. out_nValue (coin_out (the ((m ++ n) p)))) + (\<Sum>p \<in> dom n. out_nValue (coin_out (the ((m ++ n) p))))"
    unfolding total_value_def dom_map_add using assms by (subst sum.union_disjoint) auto
  also have "(\<Sum>p \<in> dom m. out_nValue (coin_out (the ((m ++ n) p)))) = total_value m"
    unfolding total_value_def
  proof (intro sum.cong refl)
    fix p assume "p \<in> dom m"
    then have "p \<notin> dom n" using assms(3) by blast
    then show "out_nValue (coin_out (the ((m ++ n) p))) = out_nValue (coin_out (the (m p)))"
      by (simp add: map_add_dom_app_simps)
  qed
  also have "(\<Sum>p \<in> dom n. out_nValue (coin_out (the ((m ++ n) p)))) = total_value n"
    unfolding total_value_def by (intro sum.cong) (auto simp: map_add_dom_app_simps)
  finally show ?thesis .
qed

lemma total_value_remove:
  assumes "finite (dom m)" "set ps \<subseteq> dom m" "distinct ps"
  shows "total_value (m |` (- set ps)) = total_value m - sum_list (map (\<lambda>p. out_nValue (coin_out (the (m p)))) ps)"
proof -
  have d: "dom (m |` (- set ps)) = dom m - set ps" by auto
  have "total_value (m |` (- set ps)) = (\<Sum>p \<in> dom m - set ps. out_nValue (coin_out (the (m p))))"
    unfolding total_value_def d by (intro sum.cong) auto
  also have "\<dots> = total_value m - (\<Sum>p \<in> set ps. out_nValue (coin_out (the (m p))))"
    unfolding total_value_def using assms(1,2) by (intro sum_diff) (auto intro: finite_subset)
  also have "(\<Sum>p \<in> set ps. out_nValue (coin_out (the (m p)))) = sum_list (map (\<lambda>p. out_nValue (coin_out (the (m p)))) ps)"
    using assms(3) by (rule sum.distinct_set_conv_list)
  finally show ?thesis .
qed

lemma created_finite: "finite (dom (created txid h cb i outs))"
proof (rule finite_subset)
  show "dom (created txid h cb i outs) \<subseteq> (\<lambda>j. COutPoint txid (of_nat j)) ` {i..<i + length outs}"
    by (auto dest!: created_index)
qed simp

lemma total_value_created:
  assumes "i + length outs \<le> 2 ^ 32"
  shows "total_value (created txid h cb i outs) =
    sum_list (map out_nValue (filter (\<lambda>t. \<not> IsUnspendable (scriptPubKey t)) outs))"
  using assms
proof (induction outs arbitrary: i)
  case Nil
  have "created txid h cb i [] = Map.empty" by (auto simp: created_def fun_eq_iff)
  then show ?case by (simp add: total_value_def)
next
  case (Cons t outs)
  have i: "i < 2 ^ 32" "Suc i + length outs \<le> 2 ^ 32" using Cons.prems by simp_all
  let ?p = "COutPoint txid (of_nat i)" and ?coin = "\<lparr>coin_out = t, coin_fCoinBase = cb, coin_nHeight = word_of_int h\<rparr>"
  note cr = created_Cons [OF i(1), of txid h cb t outs]
  show ?case
  proof (cases "IsUnspendable (scriptPubKey t)")
    case False
    have "?p \<notin> dom (created txid h cb (Suc i) outs)" using created_own [OF i(1), of txid h cb outs] by (simp add: domIff)
    then have "total_value (created txid h cb (Suc i) outs ++ [?p \<mapsto> ?coin]) =
        total_value (created txid h cb (Suc i) outs) + total_value [?p \<mapsto> ?coin]"
      by (intro total_value_add) (simp_all add: created_finite)
    moreover have "total_value [?p \<mapsto> ?coin] = out_nValue t" by (simp add: total_value_def)
    moreover have "created txid h cb i (t # outs) = created txid h cb (Suc i) outs ++ [?p \<mapsto> ?coin]"
      unfolding cr using False by (simp only: if_False map_add_upd map_add_empty)
    ultimately have "total_value (created txid h cb i (t # outs)) =
        sum_list (map out_nValue (filter (\<lambda>t. \<not> IsUnspendable (scriptPubKey t)) outs)) + out_nValue t"
      using Cons.IH [OF i(2)] by (simp only:)
    then show ?thesis using False by simp
  qed (use Cons.IH [OF i(2)] cr in simp)
qed

lemma sum_list_filter_split: "sum_list (map f (filter P xs)) = sum_list (map f xs) - sum_list (map f (filter (\<lambda>x. \<not> P x) xs))"
  for f :: "'b \<Rightarrow> int"
  by (induction xs) simp_all

lemma total_value_connect:
  assumes "finite (dom m)" "inputs_ok tx m" "fresh_tx tx m" "outputs_ok tx"
  shows "finite (dom (connect_map tx h m))"
    "total_value (connect_map tx h m) = total_value m - (if IsCoinBase tx then 0 else value_in tx m) + value_out tx - burned tx"
proof -
  let ?m = "if IsCoinBase tx then m else m |` (- (prevout ` set (vin tx)))"
  let ?cr = "created (tx_hash tx) h (IsCoinBase tx) 0 (vout tx)"
  have f: "finite (dom ?m)" using assms(1) by simp
  then show "finite (dom (connect_map tx h m))" by (simp add: connect_map_def created_finite)
  have "dom ?m \<inter> dom ?cr = {}" using fresh_created [OF assms(3)] by (auto simp: restrict_map_def split: if_splits)
  then have "total_value (connect_map tx h m) = total_value ?m + total_value ?cr"
    unfolding connect_map_def by (intro total_value_add f created_finite)
  moreover have "total_value ?cr = value_out tx - burned tx"
    using assms(4) by (simp add: total_value_created outputs_ok_def value_out_def burned_def
        sum_list_filter_split [of _ "\<lambda>t. \<not> IsUnspendable (scriptPubKey t)"])
  moreover have "total_value ?m = total_value m - (if IsCoinBase tx then 0 else value_in tx m)"
  proof (cases "IsCoinBase tx")
    case False
    then have "total_value (m |` (- set (map prevout (vin tx)))) = total_value m - value_in tx m"
      using assms(1,2) by (subst total_value_remove) (auto simp: inputs_ok_def value_in_def comp_def)
    then show ?thesis using False by simp
  qed simp
  ultimately show "total_value (connect_map tx h m) =
      total_value m - (if IsCoinBase tx then 0 else value_in tx m) + value_out tx - burned tx"
    by simp
qed

lemma total_value_maps:
  assumes "finite (dom m)" "stages_ok h txs m" "list_all outputs_ok txs"
  shows "total_value (connect_maps h txs m) + fees h txs m + sum_list (map burned txs) =
    total_value m + sum_list (map value_out (filter IsCoinBase txs))"
  using assms
proof (induction txs arbitrary: m)
  case (Cons tx txs)
  have s: "inputs_ok tx m" "fresh_tx tx m" "outputs_ok tx" using Cons.prems by simp_all
  note tv = total_value_connect [OF Cons.prems(1) s, of h]
  from Cons.IH [OF tv(1)] Cons.prems tv(2) show ?case by (cases "IsCoinBase tx") (simp_all add: tx_fee_def algebra_simps)
qed simp

end
