(* ===== verification/BlockExample.thy ===== *)
theory BlockExample
  imports BlockConnect Undo
begin

text \<open>
  A block that is connected: a coinbase, and a transaction that spends the only coin of the example database, of value 500,
  in two outputs, one of which can never be spent. The lemmas follow the steps of the code over the cache.
\<close>

definition block_coinbase :: CTransaction where
  "block_coinbase = \<lparr>tx_hash = example_hash 4, nVersion = 2, nType = 0,
     vin = [\<lparr>prevout = COutPoint uint256_zero 0xffffffff, scriptSig = [0x51, 0x51], nSequence = 0xffffffff\<rparr>],
     vout = [\<lparr>out_nValue = 1000, scriptPubKey = [0x51]\<rparr>], nLockTime = 0, vExtraPayload = []\<rparr>"

definition block_spend :: CTransaction where
  "block_spend = \<lparr>tx_hash = example_hash 5, nVersion = 2, nType = 0, vin = [example_in 0],
     vout = [\<lparr>out_nValue = 300, scriptPubKey = [0x51]\<rparr>, \<lparr>out_nValue = 100, scriptPubKey = [0x6a]\<rparr>],
     nLockTime = 0, vExtraPayload = []\<rparr>"

definition example_env :: "(coins_db, unit) connect_env" where
  "example_env = \<lparr>ce_ops = db_ops (\<lambda>_. False) 0, ce_du = script_usage,
     ce_bls = \<lparr>FromBytes = (\<lambda>_ _. None), SerializeToArray = (\<lambda>_ _. [])\<rparr>, ce_bls_legacy = False,
     ce_crypto = example_crypto, ce_Hash = example_sum, ce_cached = (\<lambda>_. False), ce_index = m_block_index example_tree,
     ce_pindex = hash_of 4, ce_nHeight = 200, ce_flags = STANDARD_SCRIPT_VERIFY_FLAGS, ce_nLockTimeFlags = 0,
     ce_fDIP0001Active = True, ce_fScriptChecks = True\<rparr>"

section \<open>The transactions\<close>

lemma example_env_simps [simp]:
  "ce_ops example_env = db_ops (\<lambda>_. False) 0" "ce_du example_env = script_usage"
  "ce_crypto example_env = example_crypto" "ce_Hash example_env = example_sum" "ce_cached example_env tx = False"
  "ce_index example_env = m_block_index example_tree" "ce_pindex example_env = hash_of 4" "ce_nHeight example_env = 200"
  "ce_flags example_env = STANDARD_SCRIPT_VERIFY_FLAGS" "ce_nLockTimeFlags example_env = 0" "ce_fDIP0001Active example_env"
  "ce_fScriptChecks example_env"
  by (simp_all add: example_env_def)

lemmas block_txs = block_coinbase_def block_spend_def example_in_def

lemma block_simps [simp]:
  "tx_hash block_coinbase = example_hash 4" "vout block_coinbase = [\<lparr>out_nValue = 1000, scriptPubKey = [0x51]\<rparr>]"
  "tx_hash block_spend = example_hash 5" "nVersion block_spend = 2" "nType block_coinbase = 0" "nType block_spend = 0"
  "vin block_spend = [example_in 0]" "prevout (example_in n) = example_point n"
  "vout block_spend = [\<lparr>out_nValue = 300, scriptPubKey = [0x51]\<rparr>, \<lparr>out_nValue = 100, scriptPubKey = [0x6a]\<rparr>]"
  "COutPoint (example_hash 4) n \<noteq> example_point k" "example_point k \<noteq> COutPoint (example_hash 4) n"
  "COutPoint (example_hash 5) n \<noteq> example_point k" "example_point k \<noteq> COutPoint (example_hash 5) n"
  "example_hash 5 \<noteq> example_hash 4" "example_hash 4 \<noteq> example_hash 5"
  by (simp_all add: block_txs example_point_def example_hash_def)

lemma block_sizes: "GetTotalSize block_coinbase \<le> MAX_LEGACY_BLOCK_SIZE" "GetTotalSize block_spend \<le> MAX_LEGACY_BLOCK_SIZE"
  by (simp_all add: GetTotalSize_def write_CTransaction_def block_txs write_vector_def write_CTxIn_def write_CTxOut_def
      write_COutPoint_def write_bytes_def write_i64_def HasExtraPayloadField_def SPECIAL_VERSION_def MAX_LEGACY_BLOCK_SIZE_def
      length_WriteCompactSize GetSizeOfCompactSize_def write_uint256_def example_point_def example_hash_def uint256_zero_def
      ser_writedata32_def ser_writedata64_def)

lemma block_coinbases [simp]: "IsCoinBase block_coinbase" "\<not> IsCoinBase block_spend"
  by (simp_all add: IsCoinBase_def block_txs COutPoint_IsNull_def example_point_def example_hash_def uint256_IsNull_def
      uint256_zero_def NULL_INDEX_def list_all_iff)

lemma block_checked: "CheckTransaction block_coinbase = Inr ()" "CheckTransaction block_spend = Inr ()"
  using block_sizes [THEN leD] block_coinbases
  by (simp_all add: CheckTransaction_def block_txs TRANSACTION_QUORUM_COMMITMENT_def TRANSACTION_MNHF_SIGNAL_def
      TRANSACTION_ASSET_UNLOCK_def MAX_TX_EXTRA_PAYLOAD_def MoneyRange_def MAX_MONEY_def COIN_def TRANSACTION_COINBASE_def Let_def
      COutPoint_IsNull_def example_point_def example_hash_def uint256_IsNull_def)

lemma block_sigops: "GetLegacySigOpCount block_coinbase = 0" "GetLegacySigOpCount block_spend = 0"
  by code_simp+

lemma block_scripts: "\<not> IsUnspendable [0x51]" "IsUnspendable [0x6a]" "\<not> IsPayToScriptHash [0x51]"
  "STANDARD_SCRIPT_VERIFY_FLAGS AND SCRIPT_VERIFY_P2SH \<noteq> 0"
  "CScriptCheck example_crypto example_sum (coin_out example_coin) block_spend 0 STANDARD_SCRIPT_VERIFY_FLAGS = Inr ()"
  by code_simp+

lemma block_locks: "SequenceLocks (m_block_index example_tree) block_spend 0 [7] (hash_of 4) = Some True"
  by code_simp

section \<open>The cache\<close>

lemma example_utxo: "db_utxo example_db = [example_point 0 \<mapsto> example_coin]"
  by (simp add: db_utxo_def example_db_def)

lemma block_coins:
  "\<not> IsSpent \<lparr>coin_out = \<lparr>out_nValue = 1000, scriptPubKey = s\<rparr>, coin_fCoinBase = b, coin_nHeight = h\<rparr>"
  "\<not> IsSpent \<lparr>coin_out = \<lparr>out_nValue = 300, scriptPubKey = s\<rparr>, coin_fCoinBase = b, coin_nHeight = h\<rparr>"
  "\<not> IsSpent \<lparr>coin_out = \<lparr>out_nValue = 100, scriptPubKey = s\<rparr>, coin_fCoinBase = b, coin_nHeight = h\<rparr>"
  "coin_usage script_usage \<lparr>coin_out = \<lparr>out_nValue = v, scriptPubKey = [0x51]\<rparr>, coin_fCoinBase = b, coin_nHeight = h\<rparr> = 0"
  "coin_usage script_usage example_coin = 0" "e_flags empty_entry = 0" "IsSpent (e_coin empty_entry)"
  "\<not> coin_fCoinBase example_coin" "out_nValue (coin_out example_coin) = 500" "coin_nHeight example_coin = 7"
  "scriptPubKey (coin_out example_coin) = [0x51]"
  by (simp_all add: IsSpent_def CTxOut_IsNull_def coin_usage_def script_usage_def MallocUsage_def empty_entry_def coinEmpty_def
      example_coin_def)

definition example_cache :: "CCoinsMap \<Rightarrow> coins_db coins_cache" where
  "example_cache m = \<lparr>cc_base = example_db, cc_hashBlock = uint256_zero, cc_coins = m, cc_usage = 0\<rparr>"

lemma example_fetch:
  "FetchCoin (db_ops (\<lambda>_. False) 0) script_usage p (example_cache m) =
     (case map_of m p of
        Some e \<Rightarrow> (Some e, example_cache m)
      | None \<Rightarrow>
          if p = example_point 0
          then (Some \<lparr>e_coin = example_coin, e_flags = 0\<rparr>,
                example_cache (AList.update p \<lparr>e_coin = example_coin, e_flags = 0\<rparr> m))
          else (None, example_cache m))"
  by (cases "map_of m p"; cases "p = example_point 0")
    (simp_all add: example_cache_def FetchCoin_def db_ops_def DB_GetCoin_def Let_def example_utxo [unfolded db_utxo_def] block_coins(5))

lemma AddCoin_example:
  "map_of m p = None \<Longrightarrow> \<not> IsSpent coin \<Longrightarrow> coin_usage script_usage coin = 0 \<Longrightarrow> \<not> IsUnspendable (scriptPubKey (coin_out coin)) \<Longrightarrow>
     AddCoin script_usage p coin b (example_cache m) =
       (Inr (), example_cache (AList.update p \<lparr>e_coin = coin, e_flags = DIRTY OR (if b then 0 else FRESH)\<rparr> m))"
  by (auto simp: AddCoin_def example_cache_def block_coins Let_def is_dirty_def)

lemma AddCoin_unspendable:
  "\<not> IsSpent coin \<Longrightarrow> IsUnspendable (scriptPubKey (coin_out coin)) \<Longrightarrow> AddCoin du p coin b c = (Inr (), c)"
  by (simp add: AddCoin_def)

section \<open>Connecting it\<close>

definition coinbase_entry :: "COutPoint \<times> CCoinsCacheEntry" where
  "coinbase_entry = (COutPoint (example_hash 4) 0,
     \<lparr>e_coin = \<lparr>coin_out = \<lparr>out_nValue = 1000, scriptPubKey = [0x51]\<rparr>, coin_fCoinBase = True, coin_nHeight = 200\<rparr>, e_flags = DIRTY\<rparr>)"

definition fetched_entry :: "COutPoint \<times> CCoinsCacheEntry" where
  "fetched_entry = (example_point 0, \<lparr>e_coin = example_coin, e_flags = 0\<rparr>)"

definition connected_coins :: CCoinsMap where
  "connected_coins = [coinbase_entry, (example_point 0, \<lparr>e_coin = coinEmpty, e_flags = DIRTY\<rparr>), (COutPoint (example_hash 5) 0,
     \<lparr>e_coin = \<lparr>coin_out = \<lparr>out_nValue = 300, scriptPubKey = [0x51]\<rparr>, coin_fCoinBase = False, coin_nHeight = 200\<rparr>,
       e_flags = DIRTY OR FRESH\<rparr>)]"


lemmas entry_defs = coinbase_entry_def fetched_entry_def connected_coins_def

lemma fetch_entries:
  "FetchCoin (db_ops (\<lambda>_. False) 0) script_usage (example_point 0) (example_cache [coinbase_entry]) =
     (Some \<lparr>e_coin = example_coin, e_flags = 0\<rparr>, example_cache [coinbase_entry, fetched_entry])"
  "FetchCoin (db_ops (\<lambda>_. False) 0) script_usage (example_point 0) (example_cache [coinbase_entry, fetched_entry]) =
     (Some \<lparr>e_coin = example_coin, e_flags = 0\<rparr>, example_cache [coinbase_entry, fetched_entry])"
  by (simp_all add: example_fetch entry_defs)

lemma block_no_overwrite:
  "overwrite_loop (db_ops (\<lambda>_. False) 0) script_usage (concat (map tx_outpoints [block_coinbase, block_spend])) (example_cache []) =
     (False, example_cache [])"
  by (simp add: tx_outpoints_def HaveCoin_def example_fetch)

lemmas sigops_defs = connect_sigops_def GetTransactionSigOpCount_def GetP2SHSigOpCount_def block_sigops block_scripts
  MaxBlockSigOps_def MaxBlockSize_def MAX_DIP0001_BLOCK_SIZE_def

lemma connect_coinbase:
  "connect_tx example_env 0 block_coinbase \<lparr>cs_nFees = 0, cs_nSigOps = 0, cs_vtxundo = []\<rparr> (example_cache []) =
     (Inr \<lparr>cs_nFees = 0, cs_nSigOps = 0, cs_vtxundo = []\<rparr>, example_cache [coinbase_entry])"
  by (simp add: connect_tx_def sigops_defs UpdateCoins_def AddCoins_def AddCoin_example block_coins entry_defs)

lemma check_spend:
  "CheckTxInputs (db_ops (\<lambda>_. False) 0) script_usage bls legacy block_spend 200 (example_cache [coinbase_entry]) =
     (Inr 100, example_cache [coinbase_entry, fetched_entry])"
  by (simp add: CheckTxInputs_def HaveInputs_def Let_def SPECIAL_VERSION_def HaveCoin_def fetch_entries AccessCoin_def block_coins
     i64_def in_i64_def INT64_MAX_def MoneyRange_def MAX_MONEY_def COIN_def GetValueOut_def)

lemma connect_spend_inputs:
  "connect_inputs example_env block_spend 0 (example_cache [coinbase_entry]) =
     (Inr 100, example_cache [coinbase_entry, fetched_entry])"
  by (simp add: connect_inputs_def check_spend i64_def in_i64_def INT64_MAX_def MoneyRange_def MAX_MONEY_def COIN_def AccessCoin_def
      fetch_entries block_locks block_coins)

lemma connect_spend_scripts:
  "connect_sigops example_env block_spend 0 (example_cache [coinbase_entry, fetched_entry]) =
     (Inr 0, example_cache [coinbase_entry, fetched_entry])"
  "connect_scripts example_env block_spend (example_cache [coinbase_entry, fetched_entry]) =
     (Inr (), example_cache [coinbase_entry, fetched_entry])"
  by (simp_all add: sigops_defs connect_scripts_def CheckInputScripts_def AccessCoin_def fetch_entries block_coins)

lemma spend_entry:
  "SpendCoin (db_ops (\<lambda>_. False) 0) script_usage (example_point 0) (example_cache [coinbase_entry, fetched_entry]) =
     (Some example_coin, example_cache [coinbase_entry, (example_point 0, \<lparr>e_coin = coinEmpty, e_flags = DIRTY\<rparr>)])"
  unfolding SpendCoin_def fetch_entries by (simp add: block_coins is_fresh_def example_cache_def entry_defs)

lemma update_spend:
  "UpdateCoins (db_ops (\<lambda>_. False) 0) script_usage block_spend 200 (example_cache [coinbase_entry, fetched_entry]) =
     (Inr \<lparr>vprevout = [example_coin]\<rparr>, example_cache connected_coins)"
proof -
  let ?c = "example_cache [coinbase_entry, (example_point 0, \<lparr>e_coin = coinEmpty, e_flags = DIRTY\<rparr>)]"
  have "spend_inputs (db_ops (\<lambda>_. False) 0) script_usage (vin block_spend) (example_cache [coinbase_entry, fetched_entry]) =
      (Inr [example_coin], ?c)"
    by (simp add: spend_entry)
  moreover have "AddCoins (db_ops (\<lambda>_. False) 0) script_usage block_spend 200 False ?c = (Inr (), example_cache connected_coins)"
    by (simp add: AddCoins_def AddCoin_example AddCoin_unspendable block_scripts block_coins entry_defs)
  ultimately show ?thesis by (simp add: UpdateCoins_def)
qed

lemma block_connected:
  "connect_transactions example_env True None [block_coinbase, block_spend] (new_cache example_db) =
     (Inr \<lparr>cs_nFees = 100, cs_nSigOps = 0, cs_vtxundo = [\<lparr>vprevout = [example_coin]\<rparr>]\<rparr>, example_cache connected_coins)"
proof -
  have "new_cache example_db = example_cache []" by (simp add: new_cache_def example_cache_def)
  moreover have "connect_tx example_env 1 block_spend \<lparr>cs_nFees = 0, cs_nSigOps = 0, cs_vtxundo = []\<rparr> (example_cache [coinbase_entry]) =
      (Inr \<lparr>cs_nFees = 100, cs_nSigOps = 0, cs_vtxundo = [\<lparr>vprevout = [example_coin]\<rparr>]\<rparr>, example_cache connected_coins)"
    by (simp add: connect_tx_def connect_spend_inputs connect_spend_scripts update_spend)
  ultimately show ?thesis using block_no_overwrite connect_coinbase by (simp add: connect_transactions_def)
qed

end
