(* ===== verification/BlockProps.thy ===== *)
theory BlockProps
  imports BlockRules BlockExample
begin

text \<open>The properties of connecting and disconnecting the transactions of a block.\<close>

section \<open>Blocks that were checked\<close>

text \<open>
  What \<open>CheckBlock\<close> and the processing of special transactions have established: the first transaction is the only
  coinbase, each transaction passes \<open>CheckTransaction\<close>, and asset unlocks have no inputs; and no two transactions have
  the same hash.
\<close>

definition checked_block :: "CTransaction list \<Rightarrow> bool" where
  "checked_block vtx \<longleftrightarrow>
     (case vtx of [] \<Rightarrow> False | cb # txs \<Rightarrow> IsCoinBase cb \<and> list_all (\<lambda>tx. \<not> IsCoinBase tx) txs) \<and>
     list_all (\<lambda>tx. CheckTransaction tx = Inr () \<and> (asset_unlock tx \<longrightarrow> vin tx = [])) vtx \<and> distinct (map tx_hash vtx)"

lemma checked_block_wf: "checked_block vtx \<Longrightarrow> list_all tx_wf vtx \<and> list_all outputs_ok vtx"
  using CheckTransaction_wf by (auto simp: checked_block_def list_all_iff tx_wf_def)

lemma tx_outpoints_fresh: "(\<forall>p \<in> set (tx_outpoints tx). m p = None) \<longleftrightarrow> fresh_tx tx m"
  by (auto simp: tx_outpoints_def fresh_tx_def)

context coins_cache_base
begin

lemma connect_transactions_spec:
  assumes "env_ok env" "cinv c" "checked_block vtx" "connect_transactions env True specials vtx c = (Inr st, c')"
  shows "cinv c' \<and> cutxo c' = connect_maps (ce_nHeight env) vtx (cutxo c) \<and> cbest c' = cbest c \<and>
    stages_ok (ce_nHeight env) vtx (cutxo c) \<and> cs_vtxundo st = tl (undos (ce_nHeight env) vtx (cutxo c)) \<and>
    (list_all (\<lambda>tx. \<not> asset_unlock tx) vtx \<longrightarrow> cs_nFees st = fees (ce_nHeight env) vtx (cutxo c)) \<and> MoneyRange (cs_nFees st)"
proof -
  obtain b d where o: "overwrite_loop ops du (concat (map tx_outpoints vtx)) c = (b, d)" by fastforce
  note os = overwrite_loop_spec [OF assms(2) o]
  let ?st = "\<lparr>cs_nFees = 0, cs_nSigOps = 0, cs_vtxundo = []\<rparr>"
  have l: "\<not> b" "connect_loop env 0 vtx ?st d = (Inr st, c')"
    using assms(1,4) o by (auto simp: connect_transactions_def env_ok_def split: if_splits option.splits)
  have "\<forall>tx \<in> set vtx. \<forall>p \<in> set (tx_outpoints tx). cutxo c p = None" using os l(1) by auto
  then have fr: "block_fresh vtx (cutxo d)"
    using os assms(3) by (simp add: block_fresh_def checked_block_def tx_outpoints_fresh)
  have "MoneyRange 0" by (simp add: MoneyRange_def MAX_MONEY_def COIN_def)
  with connect_loop_spec [OF assms(1) _ _ fr l(2)] os checked_block_wf [OF assms(3)] show ?thesis
    by (simp add: drop_Suc)
qed

lemma disconnect_undo:
  assumes "checked_block vtx" "us = tl (undos h vtx m)"
  shows "length us + 1 = length vtx \<and> zip vtx (None # map Some us) =
    zip vtx (map2 (\<lambda>tx u. if IsCoinBase tx then None else Some u) vtx (undos h vtx m))"
proof -
  have len: "length (undos h txs m) = length txs" for txs m by (induction txs arbitrary: m) simp_all
  obtain cb txs where vtx: "vtx = cb # txs" "IsCoinBase cb" "list_all (\<lambda>tx. \<not> IsCoinBase tx) txs"
    using assms(1) by (auto simp: checked_block_def split: list.splits)
  have "map Some (undos h txs (connect_map cb h m)) =
      map2 (\<lambda>tx u. if IsCoinBase tx then None else Some u) txs (undos h txs (connect_map cb h m))"
    using vtx(3) by (intro nth_equalityI) (auto simp: len list_all_length)
  then show ?thesis using vtx assms(2) by (simp add: len)
qed

end

section \<open>The example\<close>

lemma example_checked: "checked_block [block_coinbase, block_spend]"
  by (simp add: checked_block_def block_checked asset_unlock_def TRANSACTION_ASSET_UNLOCK_def)

lemma example_start:
  "coins_view (ce_ops example_env) db_utxo DB_GetBestBlock db_inv" "ce_du example_env [] = 0"
  "cache_inv db_utxo db_inv (ce_du example_env) (new_cache example_db)"
  "cache_utxo db_utxo (new_cache example_db) = [example_point 0 \<mapsto> example_coin]"
proof -
  show "coins_view (ce_ops example_env) db_utxo DB_GetBestBlock db_inv"
    using db.coins_view_axioms [of "\<lambda>_. False" 0] by simp
  show "ce_du example_env [] = 0" by (simp add: script_usage_def MallocUsage_def)
  show "cache_inv db_utxo db_inv (ce_du example_env) (new_cache example_db)"
    using tip.new_cache_inv [OF example_db_inv] by simp
  show "cache_utxo db_utxo (new_cache example_db) = [example_point 0 \<mapsto> example_coin]"
    by (rule ext) (simp add: cache_utxo_def new_cache_def example_utxo overlay_def)
qed

section \<open>Properties\<close>

text \<open>
  C1: disconnecting a block undoes connecting it. When the transactions of a checked block are connected on a cache over
  any correct view, at a height above zero, then \<open>DisconnectBlock\<close> with the undo data that was recorded returns
  \<open>DISCONNECT_OK\<close> on every cache that shows the resulting coins, and leaves the coins there were before and the
  previous block as the best one. The coins before come from blocks above the first one.
\<close>

theorem disconnect_undoes_connect:
  assumes "coins_view (ce_ops env) utxo best vinv" "ce_du env [] = 0" "cache_inv utxo vinv (ce_du env) c"
    and "checked_block vtx" "coins_good (cache_utxo utxo c)" "0 < ce_nHeight env" "ce_nHeight env < 2 ^ 31"
    and "connect_transactions env True specials vtx c = (Inr st, c1)"
    and "cache_inv utxo vinv (ce_du env) c2" "cache_utxo utxo c2 = cache_utxo utxo c1" "\<not> uint256_IsNull prevHash"
    and "DisconnectBlock (ce_ops env) (ce_du env) vtx (ce_nHeight env) blockHash prevHash True
           (Some \<lparr>vtxundo = cs_vtxundo st\<rparr>) True c2 = (r, c3)"
  shows "r = Inr DISCONNECT_OK \<and> cache_utxo utxo c3 = cache_utxo utxo c \<and> cache_best best c3 = prevHash \<and> SanityCheck (ce_du env) c3"
proof -
  let ?h = "ce_nHeight env" and ?m = "cache_utxo utxo c"
  have l: "coins_cache_base (ce_ops env) utxo best vinv (ce_du env)"
    using assms(1,2) by (simp add: coins_cache_base_def coins_cache_base_axioms_def)
  have env: "coins_cache_base.env_ok (ce_ops env) (ce_du env) env" by (simp add: coins_cache_base.env_ok_def [OF l])
  note cs = coins_cache_base.connect_transactions_spec [OF l env assms(3,4,8)]
  note du = coins_cache_base.disconnect_undo [OF l assms(4), of "cs_vtxundo st" ?h ?m]
  let ?xs = "zip vtx (map2 (\<lambda>tx u. if IsCoinBase tx then None else Some u) vtx (undos ?h vtx ?m))"
  obtain r1 d where d: "disconnect_loop (ce_ops env) (ce_du env) ?h (\<not> bip30_unspendable ?h blockHash) (rev ?xs) True c2 = (r1, d)"
    by fastforce
  have "?h mod 2 ^ 31 = ?h" using assms(6,7) by (simp add: mod_pos_pos_trivial)
  then have h: "uint (word_of_int ?h :: 31 word) = ?h" by (simp add: uint_word_of_int)
  have ds: "r1 = Inr (Some True) \<and> cache_inv utxo vinv (ce_du env) d \<and> cache_utxo utxo d = ?m"
    using coins_cache_base.disconnect_loop_spec [OF l assms(9) _ d _ _ assms(5) h] cs checked_block_wf [OF assms(4)] assms(6,10)
    by simp
  have "r = Inr DISCONNECT_OK \<and> c3 = SetBestBlock prevHash d"
    using assms(12) du cs d ds by (simp add: DisconnectBlock_def)
  moreover have "cache_inv utxo vinv (ce_du env) (SetBestBlock prevHash d)"
    using ds by (simp add: cache_inv_def SetBestBlock_def)
  moreover have "cache_utxo utxo (SetBestBlock prevHash d) = ?m" using ds by (simp add: cache_utxo_def SetBestBlock_def)
  moreover have "cache_best best (SetBestBlock prevHash d) = prevHash" using assms(11) by (simp add: cache_best_def SetBestBlock_def)
  ultimately show ?thesis using coins_cache_base.SanityCheck_cinv [OF l] by blast
qed

theorem disconnect_undoes_connect_witness:
  "\<exists>c. DisconnectBlock (db_ops (\<lambda>_. False) 0) script_usage [block_coinbase, block_spend] 200 (example_hash 1) (example_hash 2) True
       (Some \<lparr>vtxundo = [\<lparr>vprevout = [example_coin]\<rparr>]\<rparr>) True (example_cache connected_coins) = (Inr DISCONNECT_OK, c) \<and>
     cache_utxo db_utxo c = [example_point 0 \<mapsto> example_coin] \<and> cache_best DB_GetBestBlock c = example_hash 2"
proof -
  have l: "coins_cache_base (ce_ops example_env) db_utxo DB_GetBestBlock db_inv (ce_du example_env)"
    using example_start(1,2) by (simp only: coins_cache_base_def coins_cache_base_axioms_def)
  have env: "coins_cache_base.env_ok (ce_ops example_env) (ce_du example_env) example_env"
    unfolding coins_cache_base.env_ok_def [OF l] by simp
  have c: "cache_inv db_utxo db_inv (ce_du example_env) (example_cache connected_coins)"
    using coins_cache_base.connect_transactions_spec [OF l env example_start(3) example_checked block_connected] by blast
  have g: "coins_good [example_point 0 \<mapsto> example_coin]" by (auto simp: coins_good_def block_coins block_scripts)
  obtain r d where d: "DisconnectBlock (ce_ops example_env) (ce_du example_env) [block_coinbase, block_spend] (ce_nHeight example_env)
      (example_hash 1) (example_hash 2) True (Some \<lparr>vtxundo = [\<lparr>vprevout = [example_coin]\<rparr>]\<rparr>) True (example_cache connected_coins) = (r, d)"
    by fastforce
  show ?thesis
    using disconnect_undoes_connect [OF example_start(1-3) example_checked _ _ _ block_connected c refl, of "example_hash 2" "example_hash 1" r d]
      d g example_start(4) by simp
qed



end
