(* ===== verification/Spec2Isabelle.thy ===== *)
theory Spec2Isabelle
  imports CubeHash Keccak Jh Blake Cbc StakingTx RewardBounds Subsidy BlockProps
begin

text \<open>
  A verification library for BabaChain, a proof-of-stake variant of a Bitcoin-style node (C and C++). All paths are
  relative to \<open>src/\<close> of the repository. This theory only collects the others; each property stands in the theory of its
  component, after a text block with its number.

  \<^bold>\<open>The program and its model.\<close>
  A node keeps a tree of block headers and, for the active branch, the map of unspent outputs. A block is connected by
  checking its transactions against that map and applying them, and disconnected with the undo data written when it was
  connected. The library follows this path from the bytes of a transaction to the unspent outputs after a block, with what
  it rests on: encodings, 256-bit integers, scripts, the cache and the database of coins, lock times. Beside it stand
  the staking rules of this chain with its money supply, and two blocks of plain C code, the hash functions
  of the X11 family and the constant-time AES of the wallet.

  Types and functions have the names of the source. Machine integers are words of their width, or integers with an explicit
  range check where the code is signed: then \<open>None\<close>, or an error value of its own, stands for undefined behaviour. A thrown
  exception, a failed assertion and a verdict on a block or transaction are different values of a sum type. State is passed
  explicitly: an operation takes a record and returns its result with the new record. A pointer into the tree of headers is
  the key of its entry. An iterator over bytes is the list of the bytes that follow.

  \<^bold>\<open>Theories.\<close>

  \<^item> \<open>Prelude\<close>, \<open>ChainTypes\<close>: word types, byte arrays and rule collections; hashes (\<open>uint256.h\<close>), outpoints, public keys
    and their orders, as instances of \<open>linorder\<close>.
  \<^item> \<open>SphTypes\<close>, \<open>SphStream\<close>, \<open>CubeHash\<close>, \<open>Keccak\<close>, \<open>Jh\<close>, \<open>Blake\<close>: four functions of \<open>crypto/x11/\<close> with the buffering
    that they share. The locale \<open>sph_stream\<close> has the buffer and its loop, \<open>sph_hash\<close> a hash context; both are interpreted on each
    function. The lemmas show that the unrolled, bit-sliced and table-driven rounds are the rounds of the publications, and
    the properties that the interface computes the published digest however the input is cut into calls.
  \<^item> \<open>Ctaes\<close>, \<open>AesCipher\<close>, \<open>AesSpec\<close>, \<open>Cbc\<close>: \<open>crypto/ctaes/ctaes.c\<close> against FIPS-197, and the CBC mode of
    \<open>crypto/aes.cpp\<close> over the locale \<open>block_cipher\<close>.
  \<^item> \<open>Serialize\<close>, \<open>VarInt\<close>, \<open>Compressor\<close>, \<open>TxWire\<close>: \<open>serialize.h\<close>, \<open>compressor.cpp\<close> and the wire form of transactions. The
    locales \<open>codec\<close> and \<open>canonical_codec\<close> state what a writer and its reader promise; every encoding interprets one of them.
  \<^item> \<open>ArithUint256\<close>, \<open>ArithCompact\<close>, \<open>Pow\<close>: \<open>arith_uint256.cpp\<close> limb by limb, which refines 256-bit words; the compact form
    of targets; the retargeting of \<open>pow.cpp\<close>.
  \<^item> \<open>StakingTypes\<close>, \<open>StakingState\<close>, \<open>StakingInvariant\<close>, \<open>StakingTx\<close>: \<open>pos.h\<close> and \<open>pos.cpp\<close>. The global containers are one
    record; its operations are the steps of an inductive relation, and its invariant is proved by induction over them.
  \<^item> \<open>Float64\<close>, \<open>StakingRewards\<close>, \<open>RewardBounds\<close>, \<open>Subsidy\<close>: the rewards and subsidies of \<open>pos.cpp\<close> and \<open>validation.cpp\<close>,
    with the binary64 arithmetic they use.
  \<^item> \<open>Coins\<close>, \<open>CoinsView\<close>, \<open>CoinsDb\<close>, \<open>CoinsProps\<close>: \<open>coins.cpp\<close> and the coins database of \<open>txdb.cpp\<close>. The locale
    \<open>coins_view\<close> is the interface of a view: it behaves as a map of unspent coins. The cache over any view is one (a
    \<open>sublocale\<close>), and so is the database (an \<open>interpretation\<close>); sequences of calls of a cache give what they give on a map.
  \<^item> \<open>Chain\<close>, \<open>ChainIndex\<close>, \<open>ChainProps\<close>, \<open>ChainActive\<close>, \<open>ChainWitness\<close>: \<open>chain.h\<close>, \<open>chain.cpp\<close> and the insertion of headers
    in \<open>node/blockstorage.cpp\<close>: the skip list, the work, the active chain and the point where branches meet.
  \<^item> \<open>AssetTx\<close>, \<open>TxRules\<close>, \<open>TxLocks\<close>: \<open>evo/assetlocktx.cpp\<close>, \<open>consensus/tx_check.cpp\<close> and \<open>consensus/tx_verify.cpp\<close>.
  \<^item> \<open>ScriptNum\<close>, \<open>ScriptOps\<close>, \<open>Interpreter\<close>, \<open>ScriptFlags\<close>, \<open>ScriptLimits\<close>, \<open>ScriptPolicy\<close>, \<open>SigHash\<close>: \<open>script/script.cpp\<close>
    and \<open>script/interpreter.cpp\<close>. One definition for each case of the switch of \<open>EvalScript\<close>; the properties are about all
    scripts: flags only restrict (locale \<open>fewer_flags\<close>, interpreted on the flags of blocks and of the memory pool), the
    limits hold, no assertion fails; and the hash that is signed is that of the older and simpler code kept in the tests.
  \<^item> \<open>Undo\<close>, \<open>TxScripts\<close>, \<open>BlockCoins\<close>, \<open>BlockSpec\<close>, \<open>BlockConnect\<close>, \<open>BlockRules\<close>, \<open>BlockExample\<close>, \<open>BlockProps\<close>: \<open>undo.h\<close> and
    the functions of \<open>validation.cpp\<close> that connect and disconnect blocks. \<open>BlockSpec\<close> and \<open>BlockRules\<close> say what they do to
    the map of coins, over any view; \<open>BlockProps\<close> concludes that disconnecting undoes connecting and that money is conserved.

  \<^bold>\<open>Loops and bounds.\<close>
  Loops over lists are primitive recursion, and others are functions with a measure; no definition has a bound on the number
  of steps that the code does not have. Five loops need not end on every state and are partial functions whose value
  \<open>None\<close> is not to return: the buffering loop of the hash functions, which returns for every buffer position the interface can
  produce; three loops over the tree of headers, which return on every tree that insertions reach; and the loop of the
  halvings of the subsidy, which does not return for the parameters of this chain.
  Lists that the code indexes with 32 or 64 bits are lists of any length where the code bounds them (scripts, transactions,
  vectors of at most \<open>MAX_SIZE\<close> elements).

  \<^bold>\<open>Parameters.\<close>
  Elliptic curves, BLS signatures and hash functions that the models only call are arguments. What is assumed of them is a
  premise of the property: \<open>curve_ok\<close> for the decompression of public keys, a length of 32 bytes for hashes. The key-value
  store below the coins database applies a batch as a whole. The clock is an argument.

  \<^bold>\<open>Not modelled.\<close>
  Of \<open>validation.cpp\<close>: the memory pool, the activation of the best chain, what \<open>ConnectBlock\<close> does before and after the loop over
  the transactions, the optional address and spent indexes, the queue of script checks, snapshots. Special transactions and the
  masternode database occur in \<open>connect_transactions\<close> and \<open>DisconnectBlock\<close> only as the result they report, because their
  state is a persistent list over BLS keys. The other functions of X11, the network, the wallet, quorums, governance and
  the user interfaces are left out: they are input and output, threads, or protocols over a network. \<open>pos/validator.cpp\<close> is not
  built and does not compile. Locks are left out throughout: every operation that is modelled runs under one mutex.
\<close>

end
